(* ===== verification/Cosmix_Prelude.thy ===== *)
theory Cosmix_Prelude
  imports Main "HOL-Library.Product_Lexorder"
begin

text \<open>
  Shared vocabulary of the development: Rust's \<^verbatim>\<open>Result\<close> as a sum type with the combinators
  the code uses, byte strings and half-open ranges, the 64-bit saturating and checked
  operations, the standard library's stable \<^verbatim>\<open>sort_by\<close> and \<^verbatim>\<open>partition_point\<close>, and the
  generic lemmas on slices, sorted lists and fallible folds that the component theories rest
  on.  The collections \<open>result_simps\<close> and \<open>slice_simps\<close> are the automation the components use.
\<close>

named_theorems result_simps \<open>unfolding of the Result combinators\<close>
named_theorems slice_simps \<open>lengths and contents of slices\<close>

section \<open>Results\<close>

type_synonym ('e, 'a) result = "'e + 'a"

fun and_then :: "('e, 'a) result \<Rightarrow> ('a \<Rightarrow> ('e, 'b) result) \<Rightarrow> ('e, 'b) result" where
  "and_then (Inl e) f = Inl e"
| "and_then (Inr x) f = f x"

fun map_err :: "('e \<Rightarrow> 'g) \<Rightarrow> ('e, 'a) result \<Rightarrow> ('g, 'a) result" where
  "map_err g (Inl e) = Inl (g e)"
| "map_err g (Inr x) = Inr x"

fun ok_or :: "'e \<Rightarrow> 'a option \<Rightarrow> ('e, 'a) result" where
  "ok_or e None = Inl e"
| "ok_or e (Some x) = Inr x"

fun is_ok :: "('e, 'a) result \<Rightarrow> bool" where
  "is_ok (Inl e) = False"
| "is_ok (Inr x) = True"

text \<open>A \<^verbatim>\<open>for\<close> loop whose body may return early with \<^verbatim>\<open>?\<close>: over one accumulator, and
  collecting one result per element.\<close>

fun try_fold :: "('b \<Rightarrow> 'a \<Rightarrow> ('e, 'b) result) \<Rightarrow> 'b \<Rightarrow> 'a list \<Rightarrow> ('e, 'b) result" where
  "try_fold f acc [] = Inr acc"
| "try_fold f acc (x # xs) = and_then (f acc x) (\<lambda>acc'. try_fold f acc' xs)"

fun try_map :: "('a \<Rightarrow> ('e, 'b) result) \<Rightarrow> 'a list \<Rightarrow> ('e, 'b list) result" where
  "try_map f [] = Inr []"
| "try_map f (x # xs) =
     and_then (f x) (\<lambda>y. and_then (try_map f xs) (\<lambda>ys. Inr (y # ys)))"

section \<open>Machine integers\<close>

text \<open>\<^verbatim>\<open>usize\<close> and \<^verbatim>\<open>u64\<close> values are natural numbers below \<open>2 ^ 64\<close>; the operations
  whose result depends on the width are written out.\<close>

definition u64_max :: nat where
  "u64_max = 2 ^ 64 - 1"

definition checked_add :: "nat \<Rightarrow> nat \<Rightarrow> nat option" where
  "checked_add a b = (if a + b \<le> u64_max then Some (a + b) else None)"

definition checked_sub :: "nat \<Rightarrow> nat \<Rightarrow> nat option" where
  "checked_sub a b = (if b \<le> a then Some (a - b) else None)"

definition saturating_add :: "nat \<Rightarrow> nat \<Rightarrow> nat" where
  "saturating_add a b = min (a + b) u64_max"

section \<open>Strings, ranges, slices\<close>

text \<open>A Rust string is its sequence of UTF-8 bytes; HOL's \<open>char\<close> is a byte.  A
  \<^verbatim>\<open>Range<usize>\<close> is the pair of its ends.\<close>

type_synonym range = "nat \<times> nat"

definition slice :: "'a list \<Rightarrow> nat \<Rightarrow> nat \<Rightarrow> 'a list" where
  "slice xs a b = take (b - a) (drop a xs)"

section \<open>Sorting by a comparator\<close>

datatype ordering = Less | Equal | Greater

definition nat_cmp :: "nat \<Rightarrow> nat \<Rightarrow> ordering" where
  "nat_cmp a b = (if a < b then Less else if a = b then Equal else Greater)"

text \<open>\<^verbatim>\<open>bool::cmp\<close>: false before true.\<close>

definition bool_cmp :: "bool \<Rightarrow> bool \<Rightarrow> ordering" where
  "bool_cmp a b = (if a = b then Equal else if b then Less else Greater)"

fun ord_then :: "ordering \<Rightarrow> ordering \<Rightarrow> ordering" where
  "ord_then Equal o2 = o2"
| "ord_then o1 o2 = o1"

fun insert_by :: "('a \<Rightarrow> 'a \<Rightarrow> ordering) \<Rightarrow> 'a \<Rightarrow> 'a list \<Rightarrow> 'a list" where
  "insert_by cmp x [] = [x]"
| "insert_by cmp x (y # ys) =
     (if cmp x y = Greater then y # insert_by cmp x ys else x # y # ys)"

text \<open>The stable sort of \<^verbatim>\<open>slice::sort_by\<close>.\<close>

definition sort_by :: "('a \<Rightarrow> 'a \<Rightarrow> ordering) \<Rightarrow> 'a list \<Rightarrow> 'a list" where
  "sort_by cmp xs = foldr (insert_by cmp) xs []"

text \<open>\<^verbatim>\<open>slice::partition_point\<close>: the length of the longest prefix on which \<open>P\<close> holds
  (on a partitioned slice, what the binary search returns).\<close>

definition partition_point :: "('a \<Rightarrow> bool) \<Rightarrow> 'a list \<Rightarrow> nat" where
  "partition_point P xs = length (takeWhile P xs)"

section \<open>Lemmas\<close>

subsection \<open>Results\<close>

lemma and_then_Inr [result_simps]:
  "and_then m f = Inr y \<longleftrightarrow> (\<exists>x. m = Inr x \<and> f x = Inr y)"
  by (cases m) auto

lemma and_then_Inl [result_simps]:
  "and_then m f = Inl e \<longleftrightarrow> m = Inl e \<or> (\<exists>x. m = Inr x \<and> f x = Inl e)"
  by (cases m) auto

lemma map_err_Inr [simp]: "map_err g m = Inr y \<longleftrightarrow> m = Inr y"
  by (cases m) auto

lemma ok_or_Inr [simp]: "ok_or e m = Inr y \<longleftrightarrow> m = Some y"
  by (cases m) auto

lemma is_ok_iff: "is_ok m \<longleftrightarrow> (\<exists>x. m = Inr x)"
  by (cases m) auto

lemma try_map_Inr_length: "try_map f xs = Inr ys \<Longrightarrow> length ys = length xs"
  by (induction xs arbitrary: ys) (auto simp: result_simps)

lemma try_map_Inr_nth:
  "try_map f xs = Inr ys \<Longrightarrow> i < length xs \<Longrightarrow> f (xs ! i) = Inr (ys ! i)"
proof (induction xs arbitrary: ys i)
  case (Cons x xs)
  then show ?case by (cases i) (auto simp: result_simps)
qed simp

lemma try_map_eq_InrI:
  assumes "\<And>x. x \<in> set xs \<Longrightarrow> f x = Inr (g x)"
  shows "try_map f xs = Inr (map g xs)"
  using assms by (induction xs) auto

lemma try_fold_append:
  "try_fold f a (xs @ ys) = and_then (try_fold f a xs) (\<lambda>b. try_fold f b ys)"
proof (induction xs arbitrary: a)
  case (Cons x xs)
  then show ?case by (cases "f a x") auto
qed simp

text \<open>An invariant of the loop body is an invariant of the loop.\<close>

lemma try_fold_invariant:
  assumes "try_fold f a xs = Inr b" and "I a"
    and "\<And>a x b. x \<in> set xs \<Longrightarrow> I a \<Longrightarrow> f a x = Inr b \<Longrightarrow> I b"
  shows "I b"
  using assms by (induction xs arbitrary: a) (auto simp: result_simps)

subsection \<open>Slices\<close>

lemma slice_length [simp, slice_simps]:
  "length (slice xs a b) = min (b - a) (length xs - a)"
  by (simp add: slice_def)

lemma slice_empty [simp]: "b \<le> a \<Longrightarrow> slice xs a b = []"
  by (simp add: slice_def)

lemma slice_0 [simp]: "slice xs 0 b = take b xs"
  by (simp add: slice_def)

lemma slice_to_end: "length xs \<le> b \<Longrightarrow> slice xs a b = drop a xs"
  by (simp add: slice_def)

lemma slice_append_take:
  "b \<le> length xs \<Longrightarrow> slice (xs @ ys) a b = slice xs a b"
  by (cases "a \<le> b") (simp_all add: slice_def)

lemma slice_append_drop:
  "length xs \<le> a \<Longrightarrow> slice (xs @ ys) a b = slice ys (a - length xs) (b - length xs)"
  by (cases "a \<le> b") (simp_all add: slice_def)

lemma slice_take: "b \<le> n \<Longrightarrow> slice (take n xs) a b = slice xs a b"
  by (cases "a \<le> b") (simp_all add: slice_def take_drop)

lemma slice_drop: "slice (drop n xs) a b = slice xs (n + a) (n + b)"
  by (simp add: slice_def add.commute)

lemma slice_adjacent:
  "a \<le> b \<Longrightarrow> b \<le> c \<Longrightarrow> slice xs a b @ slice xs b c = slice xs a c"
proof -
  assume "a \<le> b" "b \<le> c"
  then obtain k l where "b = a + k" "c = a + k + l"
    by (metis le_iff_add)
  then show ?thesis
    by (simp add: slice_def take_add add.commute add.left_commute)
qed

lemma slice_then_drop: "a \<le> b \<Longrightarrow> slice xs a b @ drop b xs = drop a xs"
proof -
  assume "a \<le> b"
  then obtain k where "b = a + k"
    by (metis le_iff_add)
  then show ?thesis
    using append_take_drop_id [of k "drop a xs"] by (simp add: slice_def add.commute)
qed

lemma take_then_slice: "a \<le> b \<Longrightarrow> take a xs @ slice xs a b = take b xs"
  using slice_adjacent [of 0 a b xs] by simp

subsection \<open>Sorting\<close>

lemma set_insert_by: "set (insert_by cmp x xs) = insert x (set xs)"
  by (induction xs) auto

lemma length_insert_by [simp]: "length (insert_by cmp x xs) = Suc (length xs)"
  by (induction xs) auto

lemma distinct_insert_by [simp]:
  "distinct (insert_by cmp x xs) \<longleftrightarrow> x \<notin> set xs \<and> distinct xs"
  by (induction xs) (auto simp: set_insert_by)

lemma sort_by_Nil [simp]: "sort_by cmp [] = []"
  by (simp add: sort_by_def)

lemma sort_by_Cons [simp]: "sort_by cmp (x # xs) = insert_by cmp x (sort_by cmp xs)"
  by (simp add: sort_by_def)

lemma set_sort_by [simp]: "set (sort_by cmp xs) = set xs"
  by (induction xs) (auto simp: set_insert_by)

lemma length_sort_by [simp]: "length (sort_by cmp xs) = length xs"
  by (induction xs) auto

lemma distinct_sort_by [simp]: "distinct (sort_by cmp xs) \<longleftrightarrow> distinct xs"
  by (induction xs) auto

lemma insert_by_last:
  "(\<And>y. y \<in> set ys \<Longrightarrow> cmp x y = Greater) \<Longrightarrow> insert_by cmp x ys = ys @ [x]"
  by (induction ys) auto

text \<open>A list that is strictly descending is sorted by reversing it.\<close>

lemma sort_by_descending:
  "sorted_wrt (\<lambda>x y. cmp x y = Greater) xs \<Longrightarrow> sort_by cmp xs = rev xs"
  by (induction xs) (auto intro!: insert_by_last)

text \<open>The contract of a comparator and what \<open>sort_by\<close> owes it: a sorted permutation.\<close>

locale comparator_on =
  fixes cmp :: "'a \<Rightarrow> 'a \<Rightarrow> ordering" and D :: "'a \<Rightarrow> bool"
  assumes not_greater_trans:
      "\<lbrakk> D x; D y; D z; cmp x y \<noteq> Greater; cmp y z \<noteq> Greater \<rbrakk> \<Longrightarrow> cmp x z \<noteq> Greater"
    and not_greater_total: "\<lbrakk> D x; D y; cmp x y = Greater \<rbrakk> \<Longrightarrow> cmp y x \<noteq> Greater"
begin

text \<open>Sorting by \<open>cmp\<close> on a key \<open>f\<close>.\<close>

lemma sorted_insert_by:
  assumes "sorted_wrt (\<lambda>x y. cmp (f x) (f y) \<noteq> Greater) ys" and "D (f x)" and "\<forall>y\<in>set ys. D (f y)"
  shows "sorted_wrt (\<lambda>x y. cmp (f x) (f y) \<noteq> Greater) (insert_by (\<lambda>x y. cmp (f x) (f y)) x ys)"
  using assms
proof (induction ys)
  case (Cons y ys)
  show ?case
  proof (cases "cmp (f x) (f y) = Greater")
    case True
    then have "cmp (f y) (f x) \<noteq> Greater" using Cons.prems not_greater_total by auto
    with True Cons show ?thesis by (auto simp: set_insert_by)
  next
    case False
    have "cmp (f x) (f z) \<noteq> Greater" if "z \<in> set ys" for z
      using False that Cons.prems not_greater_trans [of "f x" "f y" "f z"] by auto
    with False Cons.prems show ?thesis by auto
  qed
qed simp

lemma sorted_sort_by:
  "\<forall>x\<in>set xs. D (f x) \<Longrightarrow>
     sorted_wrt (\<lambda>x y. cmp (f x) (f y) \<noteq> Greater) (sort_by (\<lambda>x y. cmp (f x) (f y)) xs)"
  by (induction xs) (auto intro: sorted_insert_by)

end

text \<open>Pairwise statements over a symmetric relation do not depend on the order of the list.\<close>

lemma sorted_wrt_insert_by:
  assumes "\<And>x y. P x y \<longleftrightarrow> P y x"
  shows "sorted_wrt P (insert_by cmp x xs) \<longleftrightarrow> sorted_wrt P (x # xs)"
  using assms by (induction xs) (auto simp: set_insert_by)

lemma sorted_wrt_sort_by:
  assumes "\<And>x y. P x y \<longleftrightarrow> P y x"
  shows "sorted_wrt P (sort_by cmp xs) \<longleftrightarrow> sorted_wrt P xs"
  by (induction xs) (simp_all add: sorted_wrt_insert_by [OF assms])

lemma sorted_wrt_insort_key:
  assumes "\<And>x y. P x y \<longleftrightarrow> P y x"
  shows "sorted_wrt P (insort_key f x xs) \<longleftrightarrow> sorted_wrt P (x # xs)"
  using assms by (induction xs) (auto simp: set_insort_key)

lemma sorted_wrt_sort_key:
  assumes "\<And>x y. P x y \<longleftrightarrow> P y x"
  shows "sorted_wrt P (sort_key f xs) \<longleftrightarrow> sorted_wrt P xs"
  by (induction xs) (simp_all add: sorted_wrt_insort_key [OF assms])

lemma sorted_wrt_conj:
  "sorted_wrt P xs \<Longrightarrow> sorted_wrt Q xs \<Longrightarrow> sorted_wrt (\<lambda>x y. P x y \<and> Q x y) xs"
  by (induction xs) auto

subsection \<open>Partition points\<close>

lemma partition_point_le_length [simp]: "partition_point P xs \<le> length xs"
  by (simp add: partition_point_def length_takeWhile_le)

lemma partition_point_sorted:
  assumes "sorted xs"
  shows "partition_point (\<lambda>s. s \<le> (b::nat)) xs = length (filter (\<lambda>s. s \<le> b) xs)"
  using assms by (induction xs) (auto simp: partition_point_def filter_empty_conv)

lemma take_partition_point_sorted:
  assumes "sorted xs"
  shows "take (partition_point (\<lambda>s. s \<le> (b::nat)) xs) xs = filter (\<lambda>s. s \<le> b) xs"
  using assms
proof (induction xs)
  case (Cons x xs)
  then have "\<not> x \<le> b \<Longrightarrow> filter (\<lambda>s. s \<le> b) xs = []"
    by (auto simp: filter_empty_conv)
  with Cons show ?case by (auto simp: partition_point_def)
qed (simp add: partition_point_def)

lemma drop_partition_point_sorted:
  assumes "sorted xs"
  shows "drop (partition_point (\<lambda>s. s \<le> (b::nat)) xs) xs = filter (\<lambda>s. b < s) xs"
  using assms
proof (induction xs)
  case (Cons x xs)
  then have "b < x \<Longrightarrow> filter (\<lambda>s. b < s) xs = xs"
    by (auto simp: filter_id_conv)
  with Cons show ?case by (auto simp: partition_point_def not_le)
qed (simp add: partition_point_def)

end
