(* ===== verification/Edit_OT.thy ===== *)
theory Edit_OT
  imports Cosmix_Prelude
begin

text \<open>
  The operational-transformation core of the shared text buffer
  (\<^verbatim>\<open>cosmix-edit-core/src/ot.rs\<close>): edits, the transform of a range through a later edit with
  its tie priority, the spans an edit sequence leaves in the final text, the overlap rule and
  the canonical application order of a transaction, and the inverse of a logged entry.  The
  abstract meaning of an edit is \<open>apply_edit\<close> on the byte string.  The lemmas show that a
  transformed range still denotes the same bytes, that transforming concurrent edits through
  each other converges, that the overlap scan decides pairwise disjointness, that the canonical
  order makes sequential and base coordinates agree, and that the inverse restores the text.
\<close>

section \<open>Edits and the transform\<close>

record edit =
  e_offset :: nat
  e_delete :: nat
  e_insert :: string

record range_set =
  rs_rev :: nat
  rs_items :: "(range \<times> string) list"

datatype priority = ThroughFirst | SelfFirst

datatype overlap = Overlap

record raw_edit =
  re_p :: nat
  re_dd :: nat
  re_ii :: nat

definition raw_of :: "edit \<Rightarrow> raw_edit" where
  "raw_of e = \<lparr>re_p = e_offset e, re_dd = e_delete e, re_ii = length (e_insert e)\<rparr>"

definition transform_raw ::
  "range \<Rightarrow> raw_edit \<Rightarrow> priority \<Rightarrow> (overlap, range \<times> bool) result" where
  "transform_raw r through prio =
     (let s = fst r; e = snd r; p = re_p through; dd = re_dd through; ii = re_ii through;
          pe = p + dd
      in if pe < s \<or> (pe = s \<and> dd > 0) then Inr ((s - dd + ii, e - dd + ii), True)
         else if p > e \<or> (p = e \<and> dd > 0) then Inr ((s, e), False)
         else if dd = 0 \<and> p = s \<and> s = e then
           (case prio of
              ThroughFirst \<Rightarrow> Inr ((s + ii, e + ii), True)
            | SelfFirst \<Rightarrow> Inr ((s, e), False))
         else if dd = 0 \<and> p = s \<and> s < e then Inr ((s + ii, e + ii), True)
         else if dd = 0 \<and> p = e \<and> e > s then Inr ((s, e), False)
         else Inl Overlap)"

definition transform_range ::
  "range \<Rightarrow> edit \<Rightarrow> priority \<Rightarrow> (overlap, range) result" where
  "transform_range r through prio =
     and_then (transform_raw r (raw_of through) prio) (\<lambda>x. Inr (fst x))"

text \<open>The inner loop of \<open>transform_set\<close>: one range through the edits in order.\<close>

definition transform_edits ::
  "range \<Rightarrow> edit list \<Rightarrow> priority \<Rightarrow> (overlap, range) result" where
  "transform_edits r through prio = try_fold (\<lambda>r edit. transform_range r edit prio) r through"

definition transform_set ::
  "range_set \<Rightarrow> edit list \<Rightarrow> priority \<Rightarrow> (overlap, range_set) result" where
  "transform_set rset through prio =
     and_then
       (try_map (\<lambda>(r, text). and_then (transform_edits r through prio) (\<lambda>r'. Inr (r', text)))
          (rs_items rset))
       (\<lambda>items. Inr \<lparr>rs_rev = rs_rev rset, rs_items = items\<rparr>)"

text \<open>Each edit's inserted span in the coordinates after the whole sequence.  A later edit
  that overlaps leaves the span as it is, as the release build does.\<close>

fun shift_through :: "range \<Rightarrow> raw_edit list \<Rightarrow> range" where
  "shift_through r [] = r"
| "shift_through r (later # rest) =
     (case transform_raw r later ThroughFirst of
        Inr (t, _) \<Rightarrow> shift_through t rest
      | Inl Overlap \<Rightarrow> shift_through r rest)"

fun post_ranges_raw :: "raw_edit list \<Rightarrow> range list" where
  "post_ranges_raw [] = []"
| "post_ranges_raw (e # es) =
     shift_through (re_p e, re_p e + re_ii e) es # post_ranges_raw es"

definition post_ranges :: "edit list \<Rightarrow> range list" where
  "post_ranges edits = post_ranges_raw (map raw_of edits)"

section \<open>Overlap rule and canonical order\<close>

text \<open>The scan of \<open>first_overlap\<close> over the sorted ranges, carrying the largest end so far.\<close>

fun overlap_scan :: "nat \<Rightarrow> range list \<Rightarrow> range option" where
  "overlap_scan max_e [] = None"
| "overlap_scan max_e ((s, e) # order) =
     (if s < max_e then Some (s, e)
      else overlap_scan (if e > s then max max_e e else max_e) order)"

definition first_overlap :: "range list \<Rightarrow> range option" where
  "first_overlap items = overlap_scan 0 (sort_key (\<lambda>(s, e). (s, e > s)) items)"

definition canonical_cmp :: "nat \<times> nat \<times> nat \<Rightarrow> nat \<times> nat \<times> nat \<Rightarrow> ordering" where
  "canonical_cmp a b =
     (case a of (a0, a1, a2) \<Rightarrow> case b of (b0, b1, b2) \<Rightarrow>
        ord_then (nat_cmp b0 a0) (ord_then (bool_cmp (b1 > b0) (a1 > a0)) (nat_cmp b2 a2)))"

definition txn_sequence ::
  "(range \<times> string) list \<Rightarrow> (overlap, (nat \<times> edit) list) result" where
  "txn_sequence items =
     (if list_ex (\<lambda>(r, _). fst r > snd r) items
         \<or> first_overlap (map fst items) \<noteq> None
      then Inl Overlap
      else
        let order = sort_by (\<lambda>a b. canonical_cmp
              (fst (fst (items ! a)), snd (fst (items ! a)), a)
              (fst (fst (items ! b)), snd (fst (items ! b)), b)) [0..<length items]
        in Inr (map (\<lambda>i. let (r, text) = items ! i
                         in (i, \<lparr>e_offset = fst r, e_delete = snd r - fst r, e_insert = text\<rparr>))
                  order))"

text \<open>A range through a whole transaction, every item judged against the range's original
  position and the shifts summed in \<^verbatim>\<open>isize\<close>.\<close>

definition transform_through_set ::
  "range \<Rightarrow> (range \<times> nat) list \<Rightarrow> priority \<Rightarrow> (overlap, range) result" where
  "transform_through_set r items prio =
     and_then
       (try_fold (\<lambda>(ds, de) (ir, ii).
            and_then (transform_raw r \<lparr>re_p = fst ir, re_dd = snd ir - fst ir, re_ii = ii\<rparr> prio)
              (\<lambda>(t, _). Inr (ds + (int (fst t) - int (fst r)), de + (int (snd t) - int (snd r)))))
          (0, 0) items)
       (\<lambda>(ds, de).
          let start = int (fst r) + ds; end' = int (snd r) + de
          in if start < 0 \<or> end' < start then Inl Overlap
             else Inr (nat start, nat end'))"

section \<open>Inverse\<close>

text \<open>\<open>invert\<close> on the fields of a log entry it reads: its revision, its edits and the text
  each removed (a missing text counts as empty).\<close>

definition deleted_at :: "string list \<Rightarrow> nat \<Rightarrow> string" where
  "deleted_at deleted i = (if i < length deleted then deleted ! i else [])"

definition invert :: "nat \<Rightarrow> edit list \<Rightarrow> string list \<Rightarrow> range_set" where
  "invert rev' edits deleted =
     \<lparr>rs_rev = rev',
      rs_items = rev (map (\<lambda>(i, r). (r, deleted_at deleted i))
                        (enumerate 0 (post_ranges edits)))\<rparr>"

section \<open>Abstract meaning\<close>

text \<open>What one edit means on the text, and a sequence in application order.\<close>

definition apply_edit :: "string \<Rightarrow> edit \<Rightarrow> string" where
  "apply_edit t e = take (e_offset e) t @ e_insert e @ drop (e_offset e + e_delete e) t"

definition apply_edits :: "string \<Rightarrow> edit list \<Rightarrow> string" where
  "apply_edits t es = foldl apply_edit t es"

text \<open>The edit lies inside a text of \<open>n\<close> bytes.\<close>

definition in_text :: "nat \<Rightarrow> edit \<Rightarrow> bool" where
  "in_text n e \<longleftrightarrow> e_offset e + e_delete e \<le> n"

text \<open>The canonical shape: every step lies at or before the previous one.\<close>

fun canonical_from :: "nat \<Rightarrow> edit list \<Rightarrow> bool" where
  "canonical_from bound [] = True"
| "canonical_from bound (e # es) =
     (e_offset e + e_delete e \<le> bound \<and> canonical_from (e_offset e) es)"

text \<open>The simultaneous substitution a transaction promises: base text between the ranges,
  each range replaced, in reading order from \<open>pos\<close> on.\<close>

fun splice_edits :: "nat \<Rightarrow> string \<Rightarrow> edit list \<Rightarrow> string" where
  "splice_edits pos t [] = drop pos t"
| "splice_edits pos t (e # es) =
     slice t pos (e_offset e) @ e_insert e @ splice_edits (e_offset e + e_delete e) t es"

text \<open>Reading order: ranges ascend and do not overlap.\<close>

fun reading_from :: "nat \<Rightarrow> edit list \<Rightarrow> bool" where
  "reading_from pos [] = True"
| "reading_from pos (e # es) =
     (pos \<le> e_offset e \<and> reading_from (e_offset e + e_delete e) es)"

text \<open>Two ranges overlap when they share a byte, or a pure insert lies strictly inside.\<close>

definition ranges_overlap :: "range \<Rightarrow> range \<Rightarrow> bool" where
  "ranges_overlap a b \<longleftrightarrow>
     max (fst a) (fst b) < min (snd a) (snd b)
     \<or> (fst a = snd a \<and> fst b < fst a \<and> fst a < snd b)
     \<or> (fst b = snd b \<and> fst a < fst b \<and> fst b < snd a)"

section \<open>The transform keeps the bytes a range denotes\<close>

lemmas edit_defs = raw_of_def apply_edit_def in_text_def

lemma transform_raw_cases:
  assumes "transform_raw r th prio = Inr (r', left)" and "fst r \<le> snd r"
  obtains
    (Left) "left" "re_p th + re_dd th \<le> fst r"
      "r' = (fst r - re_dd th + re_ii th, snd r - re_dd th + re_ii th)"
  | (Right) "\<not> left" "snd r \<le> re_p th" "r' = r"
  using assms
  by (cases r) (auto simp: transform_raw_def Let_def split: if_splits priority.splits)

lemma transform_range_cases:
  assumes "transform_range r th prio = Inr r'" and "fst r \<le> snd r"
  obtains
    (Left) "e_offset th + e_delete th \<le> fst r"
      "r' = (fst r - e_delete th + length (e_insert th), snd r - e_delete th + length (e_insert th))"
  | (Right) "snd r \<le> e_offset th" "r' = r"
proof -
  from assms(1) obtain left where "transform_raw r (raw_of th) prio = Inr (r', left)"
    by (auto simp: transform_range_def result_simps)
  then show thesis using assms(2)
    by (cases rule: transform_raw_cases) (auto simp: raw_of_def intro: Left Right)
qed

lemma length_apply_edit:
  "in_text (length t) e \<Longrightarrow>
     length (apply_edit t e) = length t - e_delete e + length (e_insert e)"
  by (auto simp: edit_defs)

lemma apply_edit_slice_left:
  "in_text (length t) e \<Longrightarrow> b \<le> e_offset e \<Longrightarrow> slice (apply_edit t e) a b = slice t a b"
  by (simp add: edit_defs slice_append_take slice_take)

lemma apply_edit_slice_right:
  assumes "in_text (length t) e" and "e_offset e + e_delete e \<le> a" and "a \<le> b"
  shows "slice (apply_edit t e) (a - e_delete e + length (e_insert e))
           (b - e_delete e + length (e_insert e)) = slice t a b"
proof -
  let ?pre = "take (e_offset e) t @ e_insert e"
  have len: "length ?pre = e_offset e + length (e_insert e)"
    using assms by (simp add: in_text_def)
  have "slice (?pre @ drop (e_offset e + e_delete e) t) (a - e_delete e + length (e_insert e))
           (b - e_delete e + length (e_insert e))
      = slice (drop (e_offset e + e_delete e) t) (a - (e_offset e + e_delete e))
          (b - (e_offset e + e_delete e))"
    using assms len by (subst slice_append_drop) (auto simp: add.commute)
  also have "\<dots> = slice t a b"
    using assms by (simp add: slice_drop)
  finally show ?thesis by (simp add: apply_edit_def)
qed

lemma transform_range_text:
  assumes "transform_range r e prio = Inr r'"
    and "fst r \<le> snd r" and "snd r \<le> length t" and "in_text (length t) e"
  shows "fst r' \<le> snd r' \<and> snd r' - fst r' = snd r - fst r \<and> snd r' \<le> length (apply_edit t e)
    \<and> slice (apply_edit t e) (fst r') (snd r') = slice t (fst r) (snd r)"
  using assms(1,2)
proof (cases rule: transform_range_cases)
  case Left
  then show ?thesis using assms apply_edit_slice_right [OF assms(4) Left(1) assms(2)]
    by (auto simp: length_apply_edit)
next
  case Right
  then show ?thesis using assms apply_edit_slice_left [OF assms(4) Right(1)]
    by (auto simp: length_apply_edit in_text_def)
qed

text \<open>Through a whole applied sequence.\<close>

fun all_in_text :: "string \<Rightarrow> edit list \<Rightarrow> bool" where
  "all_in_text t [] = True"
| "all_in_text t (e # es) = (in_text (length t) e \<and> all_in_text (apply_edit t e) es)"

lemma transform_edits_text:
  assumes "transform_edits r es prio = Inr r'"
    and "fst r \<le> snd r" and "snd r \<le> length t" and "all_in_text t es"
  shows "fst r' \<le> snd r' \<and> snd r' - fst r' = snd r - fst r \<and> snd r' \<le> length (apply_edits t es)
    \<and> slice (apply_edits t es) (fst r') (snd r') = slice t (fst r) (snd r)"
  using assms
proof (induction es arbitrary: r t)
  case (Cons e es)
  then obtain r1 where r1: "transform_range r e prio = Inr r1"
    and rest: "transform_edits r1 es prio = Inr r'"
    by (auto simp: transform_edits_def result_simps)
  have step: "fst r1 \<le> snd r1 \<and> snd r1 - fst r1 = snd r - fst r \<and> snd r1 \<le> length (apply_edit t e)
      \<and> slice (apply_edit t e) (fst r1) (snd r1) = slice t (fst r) (snd r)"
    using transform_range_text [OF r1] Cons.prems by simp
  show ?case
    using Cons.IH [OF rest, of "apply_edit t e"] step Cons.prems
    by (simp add: apply_edits_def)
qed (simp add: transform_edits_def apply_edits_def)

section \<open>Convergence of concurrent edits\<close>

text \<open>The range an edit replaces, and the edit moved to a transformed range.\<close>

definition edit_range :: "edit \<Rightarrow> range" where
  "edit_range e = (e_offset e, e_offset e + e_delete e)"

definition transform_edit :: "edit \<Rightarrow> edit \<Rightarrow> priority \<Rightarrow> (overlap, edit) result" where
  "transform_edit e through prio =
     and_then (transform_range (edit_range e) through prio)
       (\<lambda>r. Inr \<lparr>e_offset = fst r, e_delete = snd r - fst r, e_insert = e_insert e\<rparr>)"

lemma apply_edit_before:
  assumes "e_offset a + e_delete a \<le> e_offset b" and "in_text (length t) b"
  shows "apply_edit (apply_edit t b) a =
     take (e_offset a) t @ e_insert a @ slice t (e_offset a + e_delete a) (e_offset b)
       @ e_insert b @ drop (e_offset b + e_delete b) t"
  using assms by (simp add: edit_defs slice_def take_drop min_def)

lemma apply_edit_after:
  assumes "e_offset a + e_delete a \<le> e_offset b" and "in_text (length t) b"
  shows "apply_edit (apply_edit t a) \<lparr>e_offset = e_offset b - e_delete a + length (e_insert a),
            e_delete = e_delete b, e_insert = e_insert b\<rparr> =
     take (e_offset a) t @ e_insert a @ slice t (e_offset a + e_delete a) (e_offset b)
       @ e_insert b @ drop (e_offset b + e_delete b) t"
proof -
  let ?la = "e_offset a + length (e_insert a)"
  have "e_offset b - e_delete a + length (e_insert a)
      = ?la + (e_offset b - (e_offset a + e_delete a))"
    using assms by simp
  moreover have "?la + (e_offset b - (e_offset a + e_delete a)) + e_delete b
      = ?la + (e_offset b + e_delete b - (e_offset a + e_delete a))"
    using assms by simp
  moreover have "length (take (e_offset a) t) = e_offset a"
    using assms by (simp add: in_text_def)
  ultimately show ?thesis using assms
    by (simp add: apply_edit_def slice_def add.assoc add.commute [of "e_delete a"])
qed

lemma transform_raw_left:
  assumes "fst r \<le> snd r" and "re_p th + re_dd th \<le> fst r"
    and "fst r < snd r \<or> 0 < re_dd th \<or> re_p th < fst r \<or> prio = ThroughFirst"
  shows "transform_raw r th prio =
    Inr ((fst r - re_dd th + re_ii th, snd r - re_dd th + re_ii th), True)"
proof (cases "re_p th + re_dd th < fst r \<or> re_p th + re_dd th = fst r \<and> 0 < re_dd th")
  case True
  then show ?thesis by (simp add: transform_raw_def Let_def)
next
  case False
  then have "re_p th = fst r" "re_dd th = 0" using assms(2) by linarith+
  with assms show ?thesis
    by (cases "fst r = snd r") (simp_all add: transform_raw_def Let_def)
qed

lemma transform_raw_right:
  assumes "fst r \<le> snd r" and "snd r \<le> re_p th"
    and "fst r < snd r \<or> 0 < re_dd th \<or> snd r < re_p th \<or> prio = SelfFirst"
  shows "transform_raw r th prio = Inr (r, False)"
proof -
  have neg: "\<not> (re_p th + re_dd th < fst r \<or> re_p th + re_dd th = fst r \<and> 0 < re_dd th)"
    using assms by linarith
  show ?thesis
  proof (cases "re_p th > snd r \<or> re_p th = snd r \<and> 0 < re_dd th")
    case True
    with neg show ?thesis by (simp add: transform_raw_def Let_def)
  next
    case False
    then have "re_p th = snd r" "re_dd th = 0" using assms(2) by linarith+
    with neg assms show ?thesis
      by (cases "fst r = snd r") (simp_all add: transform_raw_def Let_def prod_eq_iff)
  qed
qed

lemma transform_raw_overlap_iff:
  assumes "fst r \<le> snd r"
  shows "transform_raw r th prio = Inl Overlap \<longleftrightarrow> re_p th < snd r \<and> fst r < re_p th + re_dd th"
proof -
  consider (inside) "re_p th < snd r" "fst r < re_p th + re_dd th"
    | (left) "re_p th + re_dd th \<le> fst r"
    | (right) "snd r \<le> re_p th" "fst r < snd r \<or> 0 < re_dd th \<or> snd r < re_p th"
    using assms by linarith
  then show ?thesis
  proof cases
    case inside
    then have "0 < re_dd th \<or> re_p th \<noteq> fst r" by linarith
    with inside show ?thesis by (auto simp: transform_raw_def Let_def)
  next
    case left
    then show ?thesis
      using assms transform_raw_left [of r th prio] transform_raw_right [of r th prio]
      by (cases prio; cases "fst r < snd r \<or> 0 < re_dd th \<or> re_p th < fst r") auto
  next
    case right
    then show ?thesis using assms transform_raw_right [of r th prio] by auto
  qed
qed

lemma transform_edit_overlap_iff:
  "transform_edit x y prio = Inl Overlap \<longleftrightarrow>
     e_offset y < e_offset x + e_delete x \<and> e_offset x < e_offset y + e_delete y"
proof -
  have "transform_edit x y prio = Inl Overlap \<longleftrightarrow>
      transform_raw (edit_range x) (raw_of y) prio = Inl Overlap"
    by (cases "transform_raw (edit_range x) (raw_of y) prio")
      (auto simp: transform_edit_def transform_range_def)
  then show ?thesis by (simp add: transform_raw_overlap_iff edit_range_def raw_of_def)
qed

lemma transform_edit_left:
  assumes "e_offset y + e_delete y \<le> e_offset x"
    and "0 < e_delete x \<or> 0 < e_delete y \<or> e_offset y < e_offset x \<or> prio = ThroughFirst"
  shows "transform_edit x y prio = Inr \<lparr>e_offset = e_offset x - e_delete y + length (e_insert y),
     e_delete = e_delete x, e_insert = e_insert x\<rparr>"
  using assms transform_raw_left [of "edit_range x" "raw_of y" prio]
  by (simp add: transform_edit_def transform_range_def edit_range_def raw_of_def)

lemma transform_edit_right:
  assumes "e_offset x + e_delete x \<le> e_offset y"
    and "0 < e_delete x \<or> 0 < e_delete y \<or> e_offset x < e_offset y \<or> prio = SelfFirst"
  shows "transform_edit x y prio = Inr x"
proof -
  have "0 < e_delete x \<or> 0 < e_delete y \<or> e_offset x + e_delete x < e_offset y \<or> prio = SelfFirst"
    using assms by linarith
  then show ?thesis
    using assms(1) transform_raw_right [of "edit_range x" "raw_of y" prio]
    by (simp add: transform_edit_def transform_range_def edit_range_def raw_of_def)
qed

text \<open>C15: Two concurrent edits of the same text converge.  Rebasing \<open>a\<close> through an
  already applied \<open>b\<close> (the server, \<^verbatim>\<open>ThroughFirst\<close>) and transforming \<open>b\<close> through an already
  applied \<open>a\<close> (the client, \<^verbatim>\<open>SelfFirst\<close>) refuse together; when they do not refuse, both
  application orders end in the same text.\<close>

theorem concurrent_edits_converge:
  assumes "in_text (length t) a" and "in_text (length t) b"
  shows "(transform_edit a b ThroughFirst = Inl Overlap \<longleftrightarrow> transform_edit b a SelfFirst = Inl Overlap)
    \<and> (transform_edit a b ThroughFirst \<noteq> Inl Overlap \<longrightarrow>
        (\<exists>a' b'. transform_edit a b ThroughFirst = Inr a' \<and> transform_edit b a SelfFirst = Inr b'
           \<and> apply_edit (apply_edit t b) a' = apply_edit (apply_edit t a) b'))"
proof -
  consider (ov) "e_offset b < e_offset a + e_delete a" "e_offset a < e_offset b + e_delete b"
    | (b_first) "e_offset b + e_delete b \<le> e_offset a"
    | (a_first) "e_offset a + e_delete a \<le> e_offset b"
        "0 < e_delete a \<or> 0 < e_delete b \<or> e_offset a < e_offset b"
    by linarith
  then show ?thesis
  proof cases
    case ov
    then show ?thesis by (simp add: transform_edit_overlap_iff)
  next
    case b_first
    then show ?thesis
      using assms transform_edit_left [of b a ThroughFirst] transform_edit_right [of b a SelfFirst]
        apply_edit_before [of b a t] apply_edit_after [of b a t]
      by simp
  next
    case a_first
    then have "transform_edit a b ThroughFirst = Inr a"
      by (intro transform_edit_right) auto
    moreover have "transform_edit b a SelfFirst = Inr \<lparr>e_offset = e_offset b - e_delete a + length (e_insert a),
        e_delete = e_delete b, e_insert = e_insert b\<rparr>"
      using a_first by (intro transform_edit_left) auto
    ultimately show ?thesis
      using assms a_first(1) apply_edit_before [of a b t] apply_edit_after [of a b t] by simp
  qed
qed

section \<open>The overlap rule\<close>

lemma ranges_overlap_sym: "ranges_overlap a b \<longleftrightarrow> ranges_overlap b a"
  by (auto simp: ranges_overlap_def max.commute min.commute)

lemma ranges_overlap_after:
  assumes "fst a \<le> snd a" and "fst b \<le> snd b" and "(fst a, fst a < snd a) \<le> (fst b, fst b < snd b)"
  shows "ranges_overlap a b \<longleftrightarrow> fst a < snd a \<and> fst b < snd a"
  using assms by (auto simp: ranges_overlap_def max_def min_def)

lemma overlap_scan_None:
  assumes "sorted (map (\<lambda>(s, e). (s, e > s)) ord)" and "\<forall>(s, e)\<in>set ord. s \<le> e"
  shows "overlap_scan m ord = None \<longleftrightarrow>
     (\<forall>(s, e)\<in>set ord. m \<le> s) \<and> sorted_wrt (\<lambda>a b. \<not> ranges_overlap a b) ord"
  using assms
proof (induction ord arbitrary: m)
  case (Cons a ord)
  obtain s e where a: "a = (s, e)" by (cases a)
  have se: "s \<le> e" and le: "\<forall>(s2, e2)\<in>set ord. s2 \<le> e2"
    using Cons.prems by (auto simp: a)
  have key: "(s, s < e) \<le> (s2, s2 < e2)" if "(s2, e2) \<in> set ord" for s2 e2
    using Cons.prems(1) that by (fastforce simp: a)
  have ge: "s \<le> s2" if "(s2, e2) \<in> set ord" for s2 e2
    using key [OF that] by auto
  have ov: "ranges_overlap a b \<longleftrightarrow> s < e \<and> fst b < e" if "b \<in> set ord" for b
    using ranges_overlap_after [of a b] key [of "fst b" "snd b"] se le that by (auto simp: a)
  let ?m = "if e > s then max m e else m"
  have IH: "overlap_scan ?m ord = None \<longleftrightarrow>
      (\<forall>(s, e)\<in>set ord. ?m \<le> s) \<and> sorted_wrt (\<lambda>a b. \<not> ranges_overlap a b) ord"
    using Cons by (auto simp: a)
  show ?case
  proof (cases "m \<le> s")
    case True
    have "(\<forall>(s, e)\<in>set ord. ?m \<le> s) \<longleftrightarrow>
        (\<forall>(s, e)\<in>set ord. m \<le> s) \<and> (\<forall>b\<in>set ord. \<not> ranges_overlap a b)"
      using True ge ov by (fastforce simp: not_less)
    with True IH show ?thesis by (auto simp: a)
  next
    case False
    then show ?thesis by (auto simp: a)
  qed
qed simp

lemma first_overlap_None:
  assumes "\<forall>(s, e)\<in>set items. s \<le> e"
  shows "first_overlap items = None \<longleftrightarrow> sorted_wrt (\<lambda>a b. \<not> ranges_overlap a b) items"
proof -
  have sym: "\<And>a b. (\<not> ranges_overlap a b) = (\<not> ranges_overlap b a)"
    by (simp add: ranges_overlap_sym)
  show ?thesis
    using assms overlap_scan_None [of "sort_key (\<lambda>(s, e). (s, e > s)) items" 0]
    by (simp add: first_overlap_def sorted_wrt_sort_key [OF sym])
qed

section \<open>The canonical order\<close>

lemma canonical_cmp_not_greater:
  "canonical_cmp (a0, a1, a2) (b0, b1, b2) \<noteq> Greater \<longleftrightarrow>
     b0 < a0 \<or> (b0 = a0 \<and> (\<not> b0 < b1 \<and> a0 < a1 \<or> (b0 < b1 \<longleftrightarrow> a0 < a1) \<and> b2 \<le> a2))"
  by (auto simp: canonical_cmp_def nat_cmp_def bool_cmp_def)

interpretation canonical: comparator_on canonical_cmp "\<lambda>_. True"
proof unfold_locales
  fix x y z :: "nat \<times> nat \<times> nat"
  assume "canonical_cmp x y \<noteq> Greater" "canonical_cmp y z \<noteq> Greater"
  then show "canonical_cmp x z \<noteq> Greater"
    by (cases x; cases y; cases z) (auto simp: canonical_cmp_not_greater)
next
  fix x y :: "nat \<times> nat \<times> nat"
  assume "canonical_cmp x y = Greater"
  then have "\<not> canonical_cmp x y \<noteq> Greater" by simp
  then show "canonical_cmp y x \<noteq> Greater"
    by (cases x; cases y) (auto simp only: canonical_cmp_not_greater)
qed

lemma canonical_from_iff:
  "canonical_from b es \<longleftrightarrow>
     sorted_wrt (\<lambda>x y. e_offset y + e_delete y \<le> e_offset x) es
     \<and> (\<forall>e\<in>set es. e_offset e + e_delete e \<le> b)"
  by (induction es arbitrary: b) fastforce+

lemma reading_from_iff:
  "reading_from pos es \<longleftrightarrow>
     sorted_wrt (\<lambda>x y. e_offset x + e_delete x \<le> e_offset y) es
     \<and> (\<forall>e\<in>set es. pos \<le> e_offset e)"
  by (induction es arbitrary: pos) fastforce+

lemma canonical_reading: "canonical_from b es \<Longrightarrow> reading_from 0 (rev es)"
  by (simp add: canonical_from_iff reading_from_iff sorted_wrt_rev)

lemma canonical_next_before:
  assumes "\<not> ranges_overlap (a0, a1) (b0, b1)" and "a0 \<le> a1" and "b0 \<le> b1"
    and "canonical_cmp (a0, a1, i) (b0, b1, j) \<noteq> Greater"
  shows "b1 \<le> a0"
  using assms by (auto simp: canonical_cmp_not_greater ranges_overlap_def max_def min_def
      split: if_splits)

text \<open>Sorting non-overlapping ranges canonically puts every step at or before the one before
  it, whatever carries the ranges.\<close>

lemma sort_by_canonical:
  assumes "sorted_wrt (\<lambda>x y. \<not> ranges_overlap (rng x) (rng y)) xs"
    and "\<forall>x\<in>set xs. fst (rng x) \<le> snd (rng x)"
  shows "sorted_wrt (\<lambda>x y. snd (rng y) \<le> fst (rng x))
     (sort_by (\<lambda>x y. canonical_cmp (fst (rng x), snd (rng x), ix x) (fst (rng y), snd (rng y), ix y)) xs)"
    (is "sorted_wrt _ ?ys")
proof -
  have sym: "\<And>x y. (\<not> ranges_overlap (rng x) (rng y)) = (\<not> ranges_overlap (rng y) (rng x))"
    by (simp add: ranges_overlap_sym)
  have "sorted_wrt (\<lambda>x y. canonical_cmp (fst (rng x), snd (rng x), ix x)
      (fst (rng y), snd (rng y), ix y) \<noteq> Greater) ?ys"
    using canonical.sorted_sort_by [of xs "\<lambda>x. (fst (rng x), snd (rng x), ix x)"] by simp
  moreover have "sorted_wrt (\<lambda>x y. \<not> ranges_overlap (rng x) (rng y)) ?ys"
    using assms(1) by (simp add: sorted_wrt_sort_by [OF sym])
  ultimately have "sorted_wrt (\<lambda>x y. canonical_cmp (fst (rng x), snd (rng x), ix x)
      (fst (rng y), snd (rng y), ix y) \<noteq> Greater \<and> \<not> ranges_overlap (rng x) (rng y)) ?ys"
    by (rule sorted_wrt_conj)
  then show ?thesis
  proof (rule sorted_wrt_mono_rel [rotated])
    fix x y
    assume "x \<in> set ?ys" "y \<in> set ?ys"
      and "canonical_cmp (fst (rng x), snd (rng x), ix x) (fst (rng y), snd (rng y), ix y) \<noteq> Greater
        \<and> \<not> ranges_overlap (rng x) (rng y)"
    then show "snd (rng y) \<le> fst (rng x)"
      using assms(2) canonical_next_before [of "fst (rng x)" "snd (rng x)" "fst (rng y)" "snd (rng y)" "ix x" "ix y"]
      by simp
  qed
qed

section \<open>Sequential application is simultaneous substitution\<close>

lemma apply_edits_Nil [simp]: "apply_edits t [] = t"
  by (simp add: apply_edits_def)

lemma apply_edits_Cons [simp]: "apply_edits t (e # es) = apply_edits (apply_edit t e) es"
  by (simp add: apply_edits_def)

lemma take_apply_edit: "e_offset e \<le> length t \<Longrightarrow> take (e_offset e) (apply_edit t e) = take (e_offset e) t"
  by (simp add: apply_edit_def)

lemma drop_apply_edit:
  "e_offset e \<le> length t \<Longrightarrow>
     drop (e_offset e) (apply_edit t e) = e_insert e @ drop (e_offset e + e_delete e) t"
  by (simp add: apply_edit_def)

lemma canonical_prefix:
  "canonical_from b es \<Longrightarrow> b \<le> length t \<Longrightarrow> apply_edits t es = apply_edits (take b t) es @ drop b t"
proof (induction es arbitrary: b t)
  case (Cons e es)
  then have off: "e_offset e + e_delete e \<le> b" "e_offset e \<le> length t"
    and can: "canonical_from (e_offset e) es" by auto
  have 1: "apply_edits (apply_edit t e) es =
      apply_edits (take (e_offset e) t) es @ e_insert e @ drop (e_offset e + e_delete e) t"
    using Cons.IH [OF can, of "apply_edit t e"] off
    by (simp add: take_apply_edit drop_apply_edit) (simp add: apply_edit_def)
  have 2: "apply_edits (apply_edit (take b t) e) es =
      apply_edits (take (e_offset e) t) es @ e_insert e @ drop (e_offset e + e_delete e) (take b t)"
    using Cons.IH [OF can, of "apply_edit (take b t) e"] off Cons.prems
    by (simp add: take_apply_edit drop_apply_edit min_def) (simp add: apply_edit_def)
  have "drop (e_offset e + e_delete e) (take b t) @ drop b t = drop (e_offset e + e_delete e) t"
    using slice_then_drop [OF off(1), of t] by (simp add: slice_def drop_take)
  with 1 2 show ?case by simp
qed simp

lemma canonical_Cons:
  assumes "canonical_from b (e # es)" and "b \<le> length t"
  shows "apply_edits t (e # es) =
    apply_edits (take (e_offset e) t) es @ e_insert e @ drop (e_offset e + e_delete e) t"
proof -
  have off: "e_offset e \<le> length t" using assms by simp
  moreover have "e_offset e \<le> length (apply_edit t e)" using off by (simp add: apply_edit_def)
  ultimately show ?thesis
    using assms canonical_prefix [of "e_offset e" es "apply_edit t e"]
    by (simp add: take_apply_edit drop_apply_edit)
qed

lemma splice_snoc:
  "reading_from pos (xs @ [e]) \<Longrightarrow> e_offset e \<le> length t \<Longrightarrow>
     splice_edits pos t (xs @ [e]) =
       splice_edits pos (take (e_offset e) t) xs @ e_insert e @ drop (e_offset e + e_delete e) t"
proof (induction xs arbitrary: pos)
  case (Cons x xs)
  then have "e_offset x \<le> e_offset e"
    by (auto simp: reading_from_iff sorted_wrt_append)
  with Cons show ?case by (simp add: slice_take)
qed (simp add: slice_def drop_take)

lemma canonical_splice:
  "canonical_from b es \<Longrightarrow> b \<le> length t \<Longrightarrow> apply_edits t es = splice_edits 0 t (rev es)"
proof (induction es arbitrary: b t)
  case (Cons e es)
  then have "e_offset e \<le> length t" "canonical_from (e_offset e) es" by auto
  then show ?case
    using Cons.IH [of "e_offset e" "take (e_offset e) t"] canonical_Cons [OF Cons.prems]
      splice_snoc [of 0 "rev es" e t] canonical_reading [OF Cons.prems(1)]
    by simp
qed simp

section \<open>Inserted spans and the inverse\<close>

definition item_edit :: "range \<times> string \<Rightarrow> edit" where
  "item_edit it = \<lparr>e_offset = fst (fst it), e_delete = snd (fst it) - fst (fst it), e_insert = snd it\<rparr>"

text \<open>The text each step of a canonical sequence removes, read from the unmodified base text
  as \<^verbatim>\<open>commit_txn\<close> does.\<close>

definition deleted_texts :: "string \<Rightarrow> edit list \<Rightarrow> string list" where
  "deleted_texts t es = map (\<lambda>e. slice t (e_offset e) (e_offset e + e_delete e)) es"

definition inverse_edits :: "string \<Rightarrow> edit list \<Rightarrow> edit list" where
  "inverse_edits t es = map item_edit (rev (zip (post_ranges es) (deleted_texts t es)))"

lemma shift_through_canonical:
  "canonical_from c es \<Longrightarrow> c \<le> b \<Longrightarrow> c \<le> length t \<Longrightarrow>
     shift_through (b, b + k) (map raw_of es) =
       (b - c + length (apply_edits (take c t) es), b - c + length (apply_edits (take c t) es) + k)"
proof (induction es arbitrary: b c)
  case (Cons e es)
  have off: "e_offset e + e_delete e \<le> c" and can: "canonical_from (e_offset e) es"
    using Cons.prems by auto
  let ?b = "b - e_delete e + length (e_insert e)"
  have "transform_raw (b, b + k) (raw_of e) ThroughFirst = Inr ((?b, ?b + k), True)"
    using off Cons.prems(2) by (subst transform_raw_left) (auto simp: raw_of_def)
  moreover have "apply_edits (take c t) (e # es) =
      apply_edits (take (e_offset e) t) es @ e_insert e @ drop (e_offset e + e_delete e) (take c t)"
    using canonical_Cons [of c e es "take c t"] Cons.prems by (simp add: min_def)
  ultimately show ?case
    using Cons.IH [OF can, of ?b] off Cons.prems by (simp add: ac_simps)
qed simp

lemma post_ranges_Cons:
  assumes "canonical_from b (e # es)" and "b \<le> length t"
  shows "post_ranges (e # es) =
     (length (apply_edits (take (e_offset e) t) es),
      length (apply_edits (take (e_offset e) t) es) + length (e_insert e)) # post_ranges es"
  using assms shift_through_canonical [of "e_offset e" es "e_offset e" t "length (e_insert e)"]
  by (simp add: post_ranges_def raw_of_def)

lemma length_post_ranges [simp]: "length (post_ranges es) = length es"
proof -
  have "length (post_ranges_raw rs) = length rs" for rs by (induction rs) auto
  then show ?thesis by (simp add: post_ranges_def)
qed

text \<open>Every span lies in the final text and holds the edit's inserted text.\<close>

lemma post_ranges_text:
  assumes "canonical_from b es" and "b \<le> length t" and "i < length es"
  shows "fst (post_ranges es ! i) \<le> snd (post_ranges es ! i)
    \<and> snd (post_ranges es ! i) \<le> length (apply_edits (take b t) es)
    \<and> slice (apply_edits (take b t) es) (fst (post_ranges es ! i)) (snd (post_ranges es ! i))
        = e_insert (es ! i)"
  using assms
proof (induction es arbitrary: b i)
  case (Cons e es)
  let ?P = "apply_edits (take (e_offset e) t) es"
  have off: "e_offset e + e_delete e \<le> b" and can: "canonical_from (e_offset e) es"
    using Cons.prems by auto
  have eq: "apply_edits (take b t) (e # es) =
      ?P @ e_insert e @ drop (e_offset e + e_delete e) (take b t)"
    using canonical_Cons [of b e es "take b t"] Cons.prems by (simp add: min_def)
  show ?case
  proof (cases i)
    case 0
    then show ?thesis
      using post_ranges_Cons [OF Cons.prems(1,2)] eq by (simp add: slice_append_drop)
  next
    case (Suc j)
    then show ?thesis
      using post_ranges_Cons [OF Cons.prems(1,2)] eq Cons.IH [OF can, of j] off Cons.prems
      by (auto simp: slice_append_take)
  qed
qed simp

lemma invert_items:
  "length ds = length es \<Longrightarrow> rs_items (invert rv es ds) = rev (zip (post_ranges es) ds)"
proof -
  assume len: "length ds = length es"
  have "map (\<lambda>(i, r). (r, deleted_at ds i)) (enumerate 0 (post_ranges es)) = zip (post_ranges es) ds"
    using len by (intro nth_equalityI) (auto simp: deleted_at_def nth_enumerate_eq)
  then show ?thesis by (simp add: invert_def)
qed

lemma deleted_texts_take:
  "canonical_from b es \<Longrightarrow> deleted_texts (take b t) es = deleted_texts t es"
  by (auto simp: deleted_texts_def canonical_from_iff slice_take)

text \<open>The inverse items, in reading order, lie in the post text and splice_edits it back to the
  original.\<close>

lemma invert_restores_prefix:
  assumes "canonical_from b es" and "b \<le> length t"
  shows "reading_from 0 (inverse_edits t es)
    \<and> (\<forall>e\<in>set (inverse_edits t es). e_offset e + e_delete e \<le> length (apply_edits (take b t) es))
    \<and> splice_edits 0 (apply_edits (take b t) es) (inverse_edits t es) = take b t"
  using assms
proof (induction es arbitrary: b)
  case (Cons e es)
  let ?P = "apply_edits (take (e_offset e) t) es"
  let ?inv = "inverse_edits t es"
  let ?D = "drop (e_offset e + e_delete e) (take b t)"
  let ?del = "slice t (e_offset e) (e_offset e + e_delete e)"
  let ?last = "\<lparr>e_offset = length ?P, e_delete = length (e_insert e), e_insert = ?del\<rparr>"
  have off: "e_offset e + e_delete e \<le> b" and can: "canonical_from (e_offset e) es"
    using Cons.prems by auto
  have IH: "reading_from 0 ?inv" "\<forall>x\<in>set ?inv. e_offset x + e_delete x \<le> length ?P"
    "splice_edits 0 ?P ?inv = take (e_offset e) t"
    using Cons.IH [OF can] off Cons.prems by auto
  have post: "apply_edits (take b t) (e # es) = ?P @ e_insert e @ ?D"
    using canonical_Cons [of b e es "take b t"] Cons.prems by (simp add: min_def)
  have inv: "inverse_edits t (e # es) = ?inv @ [?last]"
    using post_ranges_Cons [OF Cons.prems] by (simp add: inverse_edits_def item_edit_def deleted_texts_def)
  have "reading_from 0 (?inv @ [?last])"
    using IH(1,2) by (auto simp: reading_from_iff sorted_wrt_append)
  moreover have "\<forall>x\<in>set (?inv @ [?last]). e_offset x + e_delete x \<le> length (apply_edits (take b t) (e # es))"
    using IH(2) unfolding post by fastforce
  moreover have "splice_edits 0 (apply_edits (take b t) (e # es)) (?inv @ [?last]) = take b t"
  proof -
    have "splice_edits 0 (apply_edits (take b t) (e # es)) (?inv @ [?last]) = splice_edits 0 ?P ?inv @ ?del @ ?D"
      using splice_snoc [OF calculation(1), of "?P @ e_insert e @ ?D"] unfolding post by simp
    also have "\<dots> = take (e_offset e) t @ ?del @ ?D" using IH(3) by simp
    also have "\<dots> = take b t"
      using take_then_slice [of "e_offset e" "e_offset e + e_delete e" t] off
        append_take_drop_id [of "e_offset e + e_delete e" "take b t"]
      by (simp add: min_def flip: append_assoc)
    finally show ?thesis .
  qed
  ultimately show ?case unfolding inv by blast
qed (simp add: inverse_edits_def post_ranges_def)

section \<open>Properties\<close>

text \<open>A range that survives the rebase through a sequence of later edits still denotes the
  same bytes: its length is unchanged, it lies in the new text, and the text under it is the
  text it covered at its base revision.\<close>

theorem rebase_keeps_bytes:
  assumes "transform_edits r es prio = Inr r'"
    and "fst r \<le> snd r" and "snd r \<le> length t" and "all_in_text t es"
  shows "snd r' - fst r' = snd r - fst r \<and> snd r' \<le> length (apply_edits t es)
    \<and> slice (apply_edits t es) (fst r') (snd r') = slice t (fst r) (snd r)"
  using transform_edits_text [OF assms] by simp

theorem rebase_keeps_bytes_witness:
  "transform_edits (3, 5) [\<lparr>e_offset = 0, e_delete = 1, e_insert = ''xyz''\<rparr>] ThroughFirst = Inr (5, 7)
   \<and> slice (apply_edits ''abcdef'' [\<lparr>e_offset = 0, e_delete = 1, e_insert = ''xyz''\<rparr>]) 5 7
       = slice ''abcdef'' 3 5"
proof -
  have h: "transform_edits (3, 5) [\<lparr>e_offset = 0, e_delete = 1, e_insert = ''xyz''\<rparr>] ThroughFirst
      = Inr (5, 7)"
    by (simp add: transform_edits_def transform_range_def transform_raw_def raw_of_def)
  show ?thesis
    using h rebase_keeps_bytes [OF h, of "''abcdef''"] by (simp add: in_text_def)
qed

theorem concurrent_edits_converge_witness:
  "\<exists>a' b'. transform_edit \<lparr>e_offset = 1, e_delete = 0, e_insert = ''A''\<rparr>
        \<lparr>e_offset = 1, e_delete = 0, e_insert = ''B''\<rparr> ThroughFirst = Inr a'
     \<and> transform_edit \<lparr>e_offset = 1, e_delete = 0, e_insert = ''B''\<rparr>
        \<lparr>e_offset = 1, e_delete = 0, e_insert = ''A''\<rparr> SelfFirst = Inr b'
     \<and> apply_edit (apply_edit ''xy'' \<lparr>e_offset = 1, e_delete = 0, e_insert = ''B''\<rparr>) a'
       = apply_edit (apply_edit ''xy'' \<lparr>e_offset = 1, e_delete = 0, e_insert = ''A''\<rparr>) b'"
  using concurrent_edits_converge [of "''xy''" "\<lparr>e_offset = 1, e_delete = 0, e_insert = ''A''\<rparr>"
      "\<lparr>e_offset = 1, e_delete = 0, e_insert = ''B''\<rparr>"]
  by (simp add: in_text_def transform_edit_overlap_iff)

text \<open>The overlap scan decides the overlap rule: on well-formed ranges it finds no offender
  exactly when no two of the ranges share a byte or put an insert strictly inside another.\<close>

theorem first_overlap_decides:
  assumes "\<forall>(s, e)\<in>set items. s \<le> e"
  shows "first_overlap items = None \<longleftrightarrow>
    (\<forall>i j. i < j \<and> j < length items \<longrightarrow> \<not> ranges_overlap (items ! i) (items ! j))"
  using first_overlap_None [OF assms] by (auto simp: sorted_wrt_iff_nth_less)

theorem first_overlap_decides_witness:
  "first_overlap [(2, 4), (2, 2), (4, 6)] = None \<and> \<not> ranges_overlap (2, 4) (4, 6)"
  using first_overlap_decides [of "[(2, 4), (2, 2), (4, 6)]"]
  by (simp add: first_overlap_def ranges_overlap_def)

lemma txn_sequence_Inr:
  assumes "txn_sequence items = Inr seq"
  shows "(\<forall>(r, _)\<in>set items. fst r \<le> snd r)
    \<and> sorted_wrt (\<lambda>a b. \<not> ranges_overlap a b) (map fst items)
    \<and> seq = map (\<lambda>i. (i, item_edit (items ! i)))
        (sort_by (\<lambda>a b. canonical_cmp
              (fst (fst (items ! a)), snd (fst (items ! a)), a)
              (fst (fst (items ! b)), snd (fst (items ! b)), b)) [0..<length items])"
proof -
  have guard: "\<not> (list_ex (\<lambda>(r, _). fst r > snd r) items \<or> first_overlap (map fst items) \<noteq> None)"
  proof
    assume "list_ex (\<lambda>(r, _). fst r > snd r) items \<or> first_overlap (map fst items) \<noteq> None"
    then have "txn_sequence items = Inl Overlap" unfolding txn_sequence_def by (rule if_P)
    with assms show False by simp
  qed
  then have le: "\<forall>(r, _)\<in>set items. fst r \<le> snd r"
    by (auto simp: list_ex_iff not_less)
  have no: "first_overlap (map fst items) = None"
    using guard by blast
  moreover have "\<forall>(s, e)\<in>set (map fst items). s \<le> e"
    using le by auto
  ultimately have "sorted_wrt (\<lambda>a b. \<not> ranges_overlap a b) (map fst items)"
    using first_overlap_None by blast
  moreover have "seq = map (\<lambda>i. (i, item_edit (items ! i)))
        (sort_by (\<lambda>a b. canonical_cmp
              (fst (fst (items ! a)), snd (fst (items ! a)), a)
              (fst (fst (items ! b)), snd (fst (items ! b)), b)) [0..<length items])"
    using assms unfolding txn_sequence_def if_not_P [OF guard]
    by (simp add: item_edit_def Let_def split_beta)
  ultimately show ?thesis using le by blast
qed

lemma txn_sequence_sorted:
  assumes "txn_sequence items = Inr seq"
  shows "sorted_wrt (\<lambda>x y. e_offset (snd y) + e_delete (snd y) \<le> e_offset (snd x)) seq"
proof -
  let ?rng = "\<lambda>i. fst (items ! i)"
  let ?ord = "sort_by (\<lambda>a b. canonical_cmp (fst (?rng a), snd (?rng a), a)
      (fst (?rng b), snd (?rng b), b)) [0..<length items]"
  note inr = txn_sequence_Inr [OF assms]
  have "sorted_wrt (\<lambda>x y. \<not> ranges_overlap (?rng x) (?rng y)) [0..<length items]"
    using inr by (auto simp: sorted_wrt_iff_nth_less)
  moreover have le: "\<forall>i\<in>set [0..<length items]. fst (?rng i) \<le> snd (?rng i)"
    using inr nth_mem by fastforce
  ultimately have "sorted_wrt (\<lambda>x y. snd (?rng y) \<le> fst (?rng x)) ?ord"
    by (rule sort_by_canonical)
  then have "sorted_wrt (\<lambda>x y. e_offset (item_edit (items ! y)) + e_delete (item_edit (items ! y))
       \<le> e_offset (item_edit (items ! x))) ?ord"
    by (rule sorted_wrt_mono_rel [rotated]) (use le in \<open>auto simp: item_edit_def\<close>)
  with inr show ?thesis by (auto simp: sorted_wrt_map)
qed

text \<open>The application order of a transaction is a permutation of its items in canonical
  shape, so every step's sequential offsets are its base offsets, and applying the steps one
  after the other is the simultaneous substitution of all items in the base text.\<close>

theorem txn_sequence_sound:
  assumes "txn_sequence items = Inr seq" and "\<forall>(r, _)\<in>set items. snd r \<le> length t"
  shows "distinct (map fst seq) \<and> set (map fst seq) = {..<length items}
    \<and> (\<forall>(i, e)\<in>set seq. e = item_edit (items ! i))
    \<and> canonical_from (length t) (map snd seq)
    \<and> apply_edits t (map snd seq) = splice_edits 0 t (rev (map snd seq))"
proof -
  note inr = txn_sequence_Inr [OF assms(1)]
  have "\<forall>(i, e)\<in>set seq. e = item_edit (items ! i) \<and> i < length items"
    using inr by auto
  moreover from this have "\<forall>e\<in>set (map snd seq). e_offset e + e_delete e \<le> length t"
    using assms(2) inr nth_mem by (fastforce simp: item_edit_def split_beta)
  ultimately have can: "canonical_from (length t) (map snd seq)"
    using txn_sequence_sorted [OF assms(1)] by (simp add: canonical_from_iff sorted_wrt_map)
  show ?thesis
    using inr can canonical_splice [OF can] by (auto simp: comp_def)
qed

theorem txn_sequence_sound_witness:
  "apply_edits ''abcd'' [\<lparr>e_offset = 3, e_delete = 0, e_insert = ''X''\<rparr>, \<lparr>e_offset = 0, e_delete = 1, e_insert = ''Y''\<rparr>]
     = splice_edits 0 ''abcd'' [\<lparr>e_offset = 0, e_delete = 1, e_insert = ''Y''\<rparr>, \<lparr>e_offset = 3, e_delete = 0, e_insert = ''X''\<rparr>]"
proof -
  have h: "txn_sequence [((3, 3), ''X''), ((0, 1), ''Y'')] =
     Inr [(0, \<lparr>e_offset = 3, e_delete = 0, e_insert = ''X''\<rparr>), (1, \<lparr>e_offset = 0, e_delete = 1, e_insert = ''Y''\<rparr>)]"
    by (simp add: txn_sequence_def first_overlap_def canonical_cmp_def nat_cmp_def bool_cmp_def upt_rec)
  show ?thesis using txn_sequence_sound [OF h, of "''abcd''"] by (simp add: item_edit_def)
qed

text \<open>The inverse of an entry restores the text the entry was applied to: on the post text its items are disjoint,
  ascending and in bounds, each covers exactly the text its edit inserted, and applying them
  last-to-first gives back the original text.\<close>

theorem invert_restores:
  assumes "canonical_from (length t) es"
    and "items = rs_items (invert rv es (deleted_texts t es))"
  shows "apply_edits (apply_edits t es) (rev (map item_edit items)) = t
    \<and> canonical_from (length (apply_edits t es)) (rev (map item_edit items))
    \<and> map (\<lambda>it. slice (apply_edits t es) (fst (fst it)) (snd (fst it))) items = rev (map e_insert es)"
proof -
  have items: "items = rev (zip (post_ranges es) (deleted_texts t es))"
    unfolding assms(2) by (rule invert_items) (simp add: deleted_texts_def)
  have inv: "map item_edit items = inverse_edits t es"
    by (simp add: items inverse_edits_def rev_map)
  have restore: "reading_from 0 (inverse_edits t es)"
    "\<forall>e\<in>set (inverse_edits t es). e_offset e + e_delete e \<le> length (apply_edits t es)"
    "splice_edits 0 (apply_edits t es) (inverse_edits t es) = t"
    using invert_restores_prefix [OF assms(1) order_refl] by auto
  then have can: "canonical_from (length (apply_edits t es)) (rev (inverse_edits t es))"
    by (simp add: canonical_from_iff reading_from_iff sorted_wrt_rev)
  have "map (\<lambda>it. slice (apply_edits t es) (fst (fst it)) (snd (fst it)))
      (zip (post_ranges es) (deleted_texts t es)) = map e_insert es"
    using post_ranges_text [OF assms(1) order_refl] by (intro nth_equalityI) (auto simp: deleted_texts_def)
  then have "map (\<lambda>it. slice (apply_edits t es) (fst (fst it)) (snd (fst it))) items = rev (map e_insert es)"
    by (simp add: items flip: rev_map)
  with can canonical_splice [OF can] restore show ?thesis by (simp add: inv)
qed

theorem invert_restores_witness:
  "apply_edits ''YabcXd'' (rev (map item_edit (rs_items (invert 1
      [\<lparr>e_offset = 3, e_delete = 0, e_insert = ''X''\<rparr>, \<lparr>e_offset = 0, e_delete = 0, e_insert = ''Y''\<rparr>] [[], []])))) = ''abcd''"
  using invert_restores [of "''abcd''" "[\<lparr>e_offset = 3, e_delete = 0, e_insert = ''X''\<rparr>,
      \<lparr>e_offset = 0, e_delete = 0, e_insert = ''Y''\<rparr>]" _ 1, OF _ refl]
  by (simp add: deleted_texts_def apply_edit_def)

end
