(* ===== verification/Edit_Gap.thy ===== *)
theory Edit_Gap
  imports Edit_OT
begin

text \<open>
  The gap buffer under the text (\<^verbatim>\<open>cosmix-edit-core/src/vendor/msedit/gap_buffer.rs\<close> with
  the all-or-nothing commit patch).  The committed memory is a byte list, the gap an offset
  and a length in it; block copies move bytes inside the list.  Whether the operating system
  grants a commit is the argument \<open>grant\<close>.  The abstraction \<open>gap_text\<close> is the stored text
  without the gap.  The lemmas show that a replace implements the abstract edit, that a failed
  one changes no byte, and that memory committed up front makes a later replace succeed
  without committing anything.
\<close>

section \<open>State and operations\<close>

datatype gap_error = OutOfReserve | OsError | AssertFailed

text \<open>\<open>g_mem\<close> is the committed memory, so \<^verbatim>\<open>commit\<close> is its length.  \<open>g_large\<close> tells the
  virtual-memory backing from the heap one.\<close>

record gap_buffer =
  g_mem :: string
  g_reserve :: nat
  g_text_length :: nat
  g_gap_off :: nat
  g_gap_len :: nat
  g_generation :: nat
  g_commit_calls :: nat
  g_large :: bool

definition g_commit :: "gap_buffer \<Rightarrow> nat" where
  "g_commit g = length (g_mem g)"

definition LARGE_CAPACITY :: nat where "LARGE_CAPACITY = 4 * 1024 * 1024 * 1024"
definition LARGE_ALLOC_CHUNK :: nat where "LARGE_ALLOC_CHUNK = 64 * 1024"
definition LARGE_GAP_CHUNK :: nat where "LARGE_GAP_CHUNK = 4 * 1024"
definition SMALL_CAPACITY :: nat where "SMALL_CAPACITY = 128 * 1024"
definition SMALL_ALLOC_CHUNK :: nat where "SMALL_ALLOC_CHUNK = 256"
definition SMALL_GAP_CHUNK :: nat where "SMALL_GAP_CHUNK = 16"

definition gap_new :: "bool \<Rightarrow> bool \<Rightarrow> (gap_error, gap_buffer) result" where
  "gap_new reserve_ok small =
     (if \<not> small \<and> \<not> reserve_ok then Inl OsError
      else Inr \<lparr>g_mem = [], g_reserve = (if small then SMALL_CAPACITY else LARGE_CAPACITY),
             g_text_length = 0, g_gap_off = 0, g_gap_len = 0, g_generation = 0,
             g_commit_calls = 0, g_large = (\<not> small)\<rparr>)"

definition chunks :: "gap_buffer \<Rightarrow> nat \<times> nat" where
  "chunks g = (if g_large g then (LARGE_GAP_CHUNK, LARGE_ALLOC_CHUNK)
               else (SMALL_GAP_CHUNK, SMALL_ALLOC_CHUNK))"

text \<open>\<^verbatim>\<open>x & !(chunk - 1)\<close> for a chunk that is a power of two.\<close>

definition align_down :: "nat \<Rightarrow> nat \<Rightarrow> nat" where
  "align_down x chunk = x div chunk * chunk"

definition commit_needed :: "nat \<Rightarrow> nat \<Rightarrow> nat option" where
  "commit_needed text_length len =
     Option.bind (checked_add len (2 * LARGE_GAP_CHUNK - 1)) (\<lambda>a.
     let gap_len_new = align_down a LARGE_GAP_CHUNK in
     Option.bind (checked_add text_length gap_len_new) (\<lambda>bytes.
     Option.bind (checked_add bytes (LARGE_ALLOC_CHUNK - 1)) (\<lambda>b.
       Some (align_down b LARGE_ALLOC_CHUNK))))"

definition commit_to ::
  "(nat \<Rightarrow> nat \<Rightarrow> bool) \<Rightarrow> nat \<Rightarrow> gap_buffer \<Rightarrow> (gap_error, unit) result \<times> gap_buffer" where
  "commit_to grant bytes_new g =
     (let bytes_old = g_commit g;
          g1 = g\<lparr>g_commit_calls := g_commit_calls g + 1\<rparr>
      in if grant bytes_old bytes_new
         then (Inr (), g1\<lparr>g_mem := g_mem g @ replicate (bytes_new - bytes_old) (CHR 0x00)\<rparr>)
         else (Inl (if g_large g then OsError else OutOfReserve), g1))"

definition ensure_commit ::
  "(nat \<Rightarrow> nat \<Rightarrow> bool) \<Rightarrow> nat \<Rightarrow> gap_buffer \<Rightarrow> (gap_error, unit) result \<times> gap_buffer" where
  "ensure_commit grant required_commit g =
     (if required_commit \<le> g_commit g then (Inr (), g)
      else let alloc_chunk = snd (chunks g) in
        case checked_add required_commit (alloc_chunk - 1) of
          None \<Rightarrow> (Inl OutOfReserve, g)
        | Some x \<Rightarrow>
            let bytes_new = align_down x alloc_chunk
            in if bytes_new > g_reserve g then (Inl OutOfReserve, g)
               else commit_to grant bytes_new g)"

text \<open>\<^verbatim>\<open>ptr::copy\<close> inside the committed memory.\<close>

definition mem_move :: "'a list \<Rightarrow> nat \<Rightarrow> nat \<Rightarrow> nat \<Rightarrow> 'a list" where
  "mem_move mem src dst n = take dst mem @ slice mem src (src + n) @ drop (dst + n) mem"

definition move_gap :: "nat \<Rightarrow> gap_buffer \<Rightarrow> gap_buffer" where
  "move_gap off g =
     (let left = off < g_gap_off g;
          move_src = (if left then off else g_gap_off g + g_gap_len g);
          move_dst = (if left then off + g_gap_len g else g_gap_off g);
          move_len = (if left then g_gap_off g - off else off - g_gap_off g)
      in (if g_gap_len g > 0 then g\<lparr>g_mem := mem_move (g_mem g) move_src move_dst move_len\<rparr> else g)
           \<lparr>g_gap_off := off\<rparr>)"

definition delete_text :: "nat \<Rightarrow> gap_buffer \<Rightarrow> gap_buffer" where
  "delete_text delete g =
     g\<lparr>g_gap_len := g_gap_len g + delete, g_text_length := g_text_length g - delete\<rparr>"

definition enlarge_gap :: "nat \<Rightarrow> gap_buffer \<Rightarrow> gap_buffer" where
  "enlarge_gap len g =
     (let gap_chunk = fst (chunks g);
          gap_len_old = g_gap_len g;
          gap_len_new = align_down (len + gap_chunk + gap_chunk - 1) gap_chunk
      in g\<lparr>g_mem := mem_move (g_mem g) (g_gap_off g + gap_len_old) (g_gap_off g + gap_len_new)
                      (g_text_length g - g_gap_off g),
           g_gap_len := gap_len_new\<rparr>)"

text \<open>The commit at the head of \<open>allocate_gap\<close>, before anything moves.\<close>

definition allocate_commit ::
  "(nat \<Rightarrow> nat \<Rightarrow> bool) \<Rightarrow> nat \<Rightarrow> nat \<Rightarrow> gap_buffer \<Rightarrow> (gap_error, unit) result \<times> gap_buffer" where
  "allocate_commit grant len delete g =
     (let gap_after_delete = g_gap_len g + delete in
      if len > gap_after_delete then
        let (gap_chunk, alloc_chunk) = chunks g;
            gap_len_new = align_down (len + gap_chunk + gap_chunk - 1) gap_chunk;
            bytes_new = g_text_length g - delete + gap_len_new
        in if bytes_new > g_commit g then
             let bytes_new = align_down (bytes_new + alloc_chunk - 1) alloc_chunk
             in if bytes_new > g_reserve g then (Inl OutOfReserve, g)
                else commit_to grant bytes_new g
           else (Inr (), g)
      else (Inr (), g))"

definition allocate_gap ::
  "(nat \<Rightarrow> nat \<Rightarrow> bool) \<Rightarrow> nat \<Rightarrow> nat \<Rightarrow> nat \<Rightarrow> gap_buffer
     \<Rightarrow> (gap_error, unit) result \<times> gap_buffer" where
  "allocate_gap grant off len delete g =
     (let off = min off (g_text_length g);
          delete = min delete (g_text_length g - off)
      in case allocate_commit grant len delete g of
           (Inl e, g1) \<Rightarrow> (Inl e, g1)
         | (Inr _, g1) \<Rightarrow>
             let g2 = (if off \<noteq> g_gap_off g1 then move_gap off g1 else g1);
                 g3 = (if delete > 0 then delete_text delete g2 else g2);
                 g4 = (if len > g_gap_len g3 then enlarge_gap len g3 else g3)
             in (Inr (), g4\<lparr>g_generation := (g_generation g4 + 1) mod 2 ^ 32\<rparr>))"

definition commit_gap :: "nat \<Rightarrow> gap_buffer \<Rightarrow> gap_buffer option" where
  "commit_gap len g =
     (if len \<le> g_gap_len g
      then Some (g\<lparr>g_text_length := g_text_length g + len, g_gap_off := g_gap_off g + len,
                   g_gap_len := g_gap_len g - len\<rparr>)
      else None)"

text \<open>\<^verbatim>\<open>slice_copy_safe\<close> into the gap: as many bytes as fit.\<close>

definition write_gap :: "string \<Rightarrow> gap_buffer \<Rightarrow> nat \<times> gap_buffer" where
  "write_gap src g =
     (let len = min (length src) (g_gap_len g)
      in (len, g\<lparr>g_mem := take (g_gap_off g) (g_mem g) @ take len src
                             @ drop (g_gap_off g + len) (g_mem g)\<rparr>))"

definition gap_replace ::
  "(nat \<Rightarrow> nat \<Rightarrow> bool) \<Rightarrow> nat \<Rightarrow> nat \<Rightarrow> string \<Rightarrow> gap_buffer
     \<Rightarrow> (gap_error, unit) result \<times> gap_buffer" where
  "gap_replace grant start end' src g =
     (case allocate_gap grant start (length src) (end' - start) g of
        (Inl e, g1) \<Rightarrow> (Inl e, g1)
      | (Inr _, g1) \<Rightarrow>
          let (len, g2) = write_gap src g1
          in case commit_gap len g2 of
               None \<Rightarrow> (Inl AssertFailed, g2)
             | Some g3 \<Rightarrow> (Inr (), g3))"

definition gap_clear :: "gap_buffer \<Rightarrow> gap_buffer" where
  "gap_clear g =
     g\<lparr>g_gap_off := 0, g_gap_len := g_gap_len g + g_text_length g,
       g_generation := (g_generation g + 1) mod 2 ^ 32, g_text_length := 0\<rparr>"

definition read_forward :: "nat \<Rightarrow> gap_buffer \<Rightarrow> string" where
  "read_forward off g =
     (let off = min off (g_text_length g);
          (beg, len) = (if off < g_gap_off g then (off, g_gap_off g - off)
                        else (off + g_gap_len g, g_text_length g - off))
      in slice (g_mem g) beg (beg + len))"

definition read_backward :: "nat \<Rightarrow> gap_buffer \<Rightarrow> string" where
  "read_backward off g =
     (let off = min off (g_text_length g);
          (beg, len) = (if off \<le> g_gap_off g then (0, off)
                        else (g_gap_off g + g_gap_len g, off - g_gap_off g))
      in slice (g_mem g) beg (beg + len))"

section \<open>Abstraction and invariant\<close>

definition gap_text :: "gap_buffer \<Rightarrow> string" where
  "gap_text g = take (g_gap_off g) (g_mem g)
     @ slice (g_mem g) (g_gap_off g + g_gap_len g) (g_text_length g + g_gap_len g)"

definition gap_inv :: "gap_buffer \<Rightarrow> bool" where
  "gap_inv g \<longleftrightarrow> g_gap_off g \<le> g_text_length g \<and> g_text_length g + g_gap_len g \<le> length (g_mem g)
     \<and> length (g_mem g) \<le> g_reserve g"

section \<open>The layout of the memory\<close>

text \<open>Text before the gap, the gap, text after it, spare memory.\<close>

definition layout :: "gap_buffer \<Rightarrow> string \<Rightarrow> string \<Rightarrow> string \<Rightarrow> string \<Rightarrow> bool" where
  "layout g L M R X \<longleftrightarrow> g_mem g = L @ M @ R @ X \<and> g_gap_off g = length L \<and> g_gap_len g = length M
     \<and> g_text_length g = length L + length R
     \<and> length L + length M + length R + length X \<le> g_reserve g"

lemma layout_text: "layout g L M R X \<Longrightarrow> gap_text g = L @ R"
  by (simp add: layout_def gap_text_def slice_def)

lemma layout_inv: "layout g L M R X \<Longrightarrow> gap_inv g"
  by (auto simp: layout_def gap_inv_def)

lemma gap_inv_layout:
  assumes "gap_inv g"
  obtains L M R X where "layout g L M R X"
proof
  let ?o = "g_gap_off g" and ?n = "g_gap_len g" and ?t = "g_text_length g" and ?m = "g_mem g"
  have "drop ?o ?m = take ?n (drop ?o ?m) @ drop (?o + ?n) ?m"
    using append_take_drop_id [of ?n "drop ?o ?m"] by (simp add: add.commute)
  moreover have "drop (?o + ?n) ?m = slice ?m (?o + ?n) (?t + ?n) @ drop (?t + ?n) ?m"
    using assms by (intro slice_then_drop [symmetric]) (simp add: gap_inv_def)
  ultimately have "?m = take ?o ?m @ take ?n (drop ?o ?m) @ slice ?m (?o + ?n) (?t + ?n) @ drop (?t + ?n) ?m"
    by (metis append_take_drop_id)
  then show "layout g (take ?o ?m) (take ?n (drop ?o ?m)) (slice ?m (?o + ?n) (?t + ?n)) (drop (?t + ?n) ?m)"
    using assms by (auto simp: layout_def gap_inv_def min_def)
qed

lemma length_gap_text: "gap_inv g \<Longrightarrow> length (gap_text g) = g_text_length g"
  by (erule gap_inv_layout) (auto simp: layout_text, simp add: layout_def)

lemma mem_move_left:
  "mem_move (A @ B @ M @ R) (length A) (length A + length M) (length B)
     = A @ take (length M) (B @ M) @ B @ R"
  by (simp add: mem_move_def slice_def)

lemma mem_move_right:
  "mem_move (A @ M @ B @ R) (length A + length M) (length A) (length B)
     = A @ B @ drop (length B) (M @ B) @ R"
  by (simp add: mem_move_def slice_def)

lemma move_gap_layout:
  assumes "layout g L M R X" and "off \<le> g_text_length g"
  obtains M' where "layout (move_gap off g) (take off (L @ R)) M' (drop off (L @ R)) X"
    and "length M' = length M"
proof (cases "off < g_gap_off g")
  case True
  define A B where "A = take off L" and "B = drop off L"
  have L: "L = A @ B" and A: "length A = off"
    using assms True by (auto simp: layout_def A_def B_def)
  have "layout (move_gap off g) A (take (length M) (B @ M)) (B @ R) X"
    using assms(1) True A mem_move_left [of A B M "R @ X"]
    by (auto simp: layout_def move_gap_def Let_def L)
  then show thesis using A by (intro that [of "take (length M) (B @ M)"]) (simp_all add: L)
next
  case False
  define A B where "A = take (off - length L) R" and "B = drop (off - length L) R"
  have R: "R = A @ B" and A: "off = length L + length A"
    using assms False by (auto simp: layout_def A_def B_def)
  have "layout (move_gap off g) (L @ A) (drop (length A) (M @ A)) B X"
    using assms(1) False A mem_move_right [of L M A "B @ X"]
    by (auto simp: layout_def move_gap_def Let_def R)
  then show thesis using A by (intro that [of "drop (length A) (M @ A)"]) (simp_all add: R)
qed

lemma delete_text_layout:
  assumes "layout g L M R X" and "delete \<le> length R"
  shows "layout (delete_text delete g) L (M @ take delete R) (drop delete R) X"
  using assms by (auto simp: layout_def delete_text_def)

lemma align_down_ge: "0 < c \<Longrightarrow> len \<le> align_down (len + c + c - 1) c"
proof -
  assume c: "0 < c"
  have "(len + c + c - 1) div c * c + (len + c + c - 1) mod c = len + c + c - 1"
    by simp
  moreover have "(len + c + c - 1) mod c < c" using c by simp
  ultimately show ?thesis unfolding align_down_def by linarith
qed

lemma chunks_pos: "0 < fst (chunks g)" "0 < snd (chunks g)"
  by (auto simp: chunks_def LARGE_GAP_CHUNK_def LARGE_ALLOC_CHUNK_def SMALL_GAP_CHUNK_def SMALL_ALLOC_CHUNK_def)

text \<open>The gap length a request of \<open>len\<close> bytes leads to.\<close>

definition new_gap_len :: "gap_buffer \<Rightarrow> nat \<Rightarrow> nat" where
  "new_gap_len g len = align_down (len + fst (chunks g) + fst (chunks g) - 1) (fst (chunks g))"

lemma new_gap_len_ge: "len \<le> new_gap_len g len"
  unfolding new_gap_len_def by (rule align_down_ge [OF chunks_pos(1)])

lemma enlarge_gap_layout:
  assumes "layout g L M R X" and "length M < len" and "g_text_length g + new_gap_len g len \<le> length (g_mem g)"
  obtains M' X' where "layout (enlarge_gap len g) L M' R X'" and "len \<le> length M'"
    and "g_commit (enlarge_gap len g) = g_commit g"
proof -
  define n where "n = new_gap_len g len"
  have n: "length M < n" "len \<le> n" using assms(2) new_gap_len_ge [of len g] by (auto simp: n_def)
  define Y where "Y = M @ R @ X"
  have Y: "length R + n \<le> length Y" using assms by (auto simp: Y_def layout_def n_def)
  have move: "mem_move (L @ Y) (length L + length M) (length L + n) (length R)
      = L @ take n Y @ R @ drop (n + length R) Y"
    by (simp add: mem_move_def slice_def Y_def add.commute)
  have "enlarge_gap len g = g\<lparr>g_mem := L @ take n Y @ R @ drop (n + length R) Y, g_gap_len := n\<rparr>"
    using assms(1) move by (simp add: enlarge_gap_def Let_def layout_def n_def new_gap_len_def Y_def)
  moreover have "length (g_mem g) = length L + length Y" using assms(1) by (auto simp: layout_def Y_def)
  ultimately have "layout (enlarge_gap len g) L (take n Y) R (drop (n + length R) Y)"
    and "g_commit (enlarge_gap len g) = g_commit g"
    using assms(1) Y by (auto simp: layout_def g_commit_def)
  then show thesis by (intro that) (use n Y in auto)
qed

section \<open>Committing memory\<close>

lemma align_up_ge: "0 < c \<Longrightarrow> n \<le> align_down (n + c - 1) c"
proof -
  assume c: "0 < c"
  have "(n + c - 1) div c * c + (n + c - 1) mod c = n + c - 1" by simp
  moreover have "(n + c - 1) mod c < c" using c by simp
  ultimately show ?thesis unfolding align_down_def by linarith
qed

text \<open>What a commit may change: spare memory on success, the call counter in any case.\<close>

definition commit_frame :: "gap_buffer \<Rightarrow> gap_buffer \<Rightarrow> bool" where
  "commit_frame g g' \<longleftrightarrow>
     (\<forall>L M R X. layout g L M R X \<longrightarrow> (\<exists>X'. layout g' L M R X'))
     \<and> g_large g' = g_large g \<and> g_generation g' = g_generation g \<and> g_commit g \<le> g_commit g'"

lemma commit_frame_refl [simp]: "commit_frame g g"
  by (auto simp: commit_frame_def)

lemma commit_frameE:
  assumes "commit_frame g g'" and "layout g L M R X"
  obtains X' where "layout g' L M R X'"
  using assms unfolding commit_frame_def by blast

lemma commit_to_frame:
  assumes "commit_to grant n g = (res, g')" and "g_commit g \<le> n" and "n \<le> g_reserve g"
  shows "commit_frame g g' \<and> (res = Inr () \<longrightarrow> g_commit g' = n)
    \<and> (res \<noteq> Inr () \<longrightarrow> g' = g\<lparr>g_commit_calls := g_commit_calls g + 1\<rparr>)"
  using assms
  by (auto simp: commit_to_def commit_frame_def layout_def g_commit_def Let_def split: if_splits)

lemma allocate_commit_frame:
  assumes "allocate_commit grant len delete g = (res, g')"
  shows "commit_frame g g'
    \<and> (res = Inr () \<longrightarrow> g_gap_len g + delete < len \<longrightarrow>
         g_text_length g - delete + new_gap_len g len \<le> g_commit g')
    \<and> (res \<noteq> Inr () \<longrightarrow> g' = g \<or> g' = g\<lparr>g_commit_calls := g_commit_calls g + 1\<rparr>)"
proof -
  let ?n = "g_text_length g - delete + new_gap_len g len"
  let ?up = "align_down (?n + snd (chunks g) - 1) (snd (chunks g))"
  have up: "?n \<le> ?up" by (rule align_up_ge [OF chunks_pos(2)])
  have eq: "allocate_commit grant len delete g =
      (if g_gap_len g + delete < len \<and> g_commit g < ?n
       then if g_reserve g < ?up then (Inl OutOfReserve, g) else commit_to grant ?up g
       else (Inr (), g))"
    by (simp add: allocate_commit_def Let_def new_gap_len_def split_beta not_less)
  show ?thesis
  proof (cases "g_gap_len g + delete < len \<and> g_commit g < ?n \<and> \<not> g_reserve g < ?up")
    case True
    then have "commit_to grant ?up g = (res, g')" using assms eq by simp
    moreover have "g_commit g \<le> ?up" "?up \<le> g_reserve g" using True up by auto
    ultimately show ?thesis using commit_to_frame [of grant ?up g res g'] up by auto
  next
    case False
    then show ?thesis using assms eq by (auto split: if_splits)
  qed
qed

section \<open>Replacing implements the abstract edit\<close>

lemma allocate_gap_layout:
  assumes "layout g L0 M0 R0 X0" and "allocate_gap grant off len delete g = (res, g')"
  defines "o' \<equiv> min off (g_text_length g)"
  defines "d' \<equiv> min delete (g_text_length g - o')"
  shows "(res = Inr () \<longrightarrow> (\<exists>M X. layout g' (take o' (L0 @ R0)) M (drop (o' + d') (L0 @ R0)) X
             \<and> len \<le> length M) \<and> g_large g' = g_large g
           \<and> (let g1 = snd (allocate_commit grant len d' g)
              in g_commit g' = g_commit g1 \<and> g_commit_calls g' = g_commit_calls g1))
    \<and> (res \<noteq> Inr () \<longrightarrow> g' = g \<or> g' = g\<lparr>g_commit_calls := g_commit_calls g + 1\<rparr>)"
proof -
  obtain res1 g1 where c: "allocate_commit grant len d' g = (res1, g1)" by fastforce
  have frame: "commit_frame g g1"
    and room: "res1 = Inr () \<Longrightarrow> g_gap_len g + d' < len \<Longrightarrow>
      g_text_length g - d' + new_gap_len g len \<le> g_commit g1"
    and err: "res1 \<noteq> Inr () \<Longrightarrow> g1 = g \<or> g1 = g\<lparr>g_commit_calls := g_commit_calls g + 1\<rparr>"
    using allocate_commit_frame [OF c] by blast+
  have alloc: "allocate_gap grant off len delete g =
     (case res1 of Inl e \<Rightarrow> (Inl e, g1)
      | Inr _ \<Rightarrow>
        let g2 = (if o' \<noteq> g_gap_off g1 then move_gap o' g1 else g1);
            g3 = (if d' > 0 then delete_text d' g2 else g2);
            g4 = (if len > g_gap_len g3 then enlarge_gap len g3 else g3)
        in (Inr (), g4\<lparr>g_generation := (g_generation g4 + 1) mod 2 ^ 32\<rparr>))"
    unfolding allocate_gap_def Let_def o'_def [symmetric] d'_def [symmetric] c by (cases res1) auto
  show ?thesis
  proof (cases res1)
    case (Inl e)
    then show ?thesis using alloc assms(2) err by simp
  next
    case (Inr u)
    define T where "T = L0 @ R0"
    obtain X1 where l1: "layout g1 L0 M0 R0 X1"
      using commit_frameE [OF frame assms(1)] .
    have tl: "g_text_length g = length T" using assms(1) by (simp add: layout_def T_def)
    have od: "o' \<le> length T" "o' + d' \<le> length T" by (auto simp: o'_def d'_def tl)
    define g2 where "g2 = (if o' \<noteq> g_gap_off g1 then move_gap o' g1 else g1)"
    define g3 where "g3 = (if d' > 0 then delete_text d' g2 else g2)"
    define g4 where "g4 = (if len > g_gap_len g3 then enlarge_gap len g3 else g3)"
    have "g_large g1 = g_large g" using frame by (simp add: commit_frame_def)
    then have large: "g_large g4 = g_large g" "g_large g3 = g_large g" and commit: "g_commit g3 = g_commit g2"
      by (simp_all add: g4_def g3_def g2_def move_gap_def delete_text_def enlarge_gap_def
          Let_def g_commit_def)
    obtain M2 where l2: "layout g2 (take o' T) M2 (drop o' T) X1" and m2: "length M2 = length M0"
    proof (cases "o' = g_gap_off g1")
      case True
      then show thesis using l1 by (intro that [of M0]) (simp_all add: g2_def layout_def T_def)
    next
      case False
      have "o' \<le> g_text_length g1" using od l1 by (simp add: layout_def T_def)
      then show thesis
        using move_gap_layout [OF l1, of o', folded T_def] False that by (simp add: g2_def) blast
    qed
    have l3: "layout g3 (take o' T) (M2 @ take d' (drop o' T)) (drop (o' + d') T) X1"
      using delete_text_layout [OF l2, of d'] od l2 by (auto simp: g3_def add.commute)
    have len3: "g_gap_len g3 = g_gap_len g + d'" "g_text_length g3 = g_text_length g - d'"
      using l3 assms(1) m2 od tl by (auto simp: layout_def)
    have comm: "g_commit g2 = g_commit g1"
      using l2 l1 m2 by (auto simp: layout_def g_commit_def T_def)
    have calls: "g_commit_calls g4 = g_commit_calls g1"
      by (simp add: g4_def g3_def g2_def move_gap_def delete_text_def enlarge_gap_def Let_def)
    obtain M4 X4 where "layout g4 (take o' T) M4 (drop (o' + d') T) X4" "len \<le> length M4"
      "g_commit g4 = g_commit g3"
    proof (cases "g_gap_len g3 < len")
      case True
      then have "g_text_length g3 + new_gap_len g3 len \<le> length (g_mem g3)"
        using room len3 Inr commit comm large(2)
        by (simp add: new_gap_len_def chunks_def g_commit_def)
      then show thesis
        using enlarge_gap_layout [OF l3, of len] True l3 that by (simp add: g4_def layout_def) blast
    next
      case False
      moreover have "g_gap_len g3 = length (M2 @ take d' (drop o' T))" using l3 by (simp add: layout_def)
      ultimately show thesis using l3 by (intro that [of "M2 @ take d' (drop o' T)" X1]) (simp_all add: g4_def)
    qed
    moreover have "res = Inr ()" "g' = g4\<lparr>g_generation := (g_generation g4 + 1) mod 2 ^ 32\<rparr>"
      using alloc assms(2) Inr by (auto simp: g4_def g3_def g2_def Let_def)
    ultimately show ?thesis
      using large(1) calls commit comm c unfolding T_def [symmetric] Let_def
      by (simp add: layout_def g_commit_def) blast
  qed
qed

lemma fill_gap_layout:
  assumes "layout g A M B X" and "length src \<le> length M"
  obtains g' where "(let (len, g2) = write_gap src g in commit_gap len g2) = Some g'"
    and "layout g' (A @ src) (drop (length src) M) B X" and "g_large g' = g_large g"
    and "g_commit_calls g' = g_commit_calls g"
proof -
  have "min (length src) (g_gap_len g) = length src" using assms by (simp add: layout_def)
  then show thesis
    using assms
    by (intro that [of "the (let (len, g2) = write_gap src g in commit_gap len g2)"])
      (simp_all add: write_gap_def commit_gap_def Let_def layout_def)
qed

lemma gap_replace_Inr:
  assumes "gap_inv g" and "gap_replace grant s e src g = (Inr (), g')"
    and "s \<le> e" and "e \<le> length (gap_text g)"
  shows "gap_inv g' \<and> gap_text g' = take s (gap_text g) @ src @ drop e (gap_text g)
    \<and> g_large g' = g_large g"
proof -
  obtain L M R X where l: "layout g L M R X" using gap_inv_layout [OF assms(1)] .
  have tx: "gap_text g = L @ R" using l by (rule layout_text)
  have tl: "g_text_length g = length (L @ R)" using l by (simp add: layout_def)
  obtain g1 where a: "allocate_gap grant s (length src) (e - s) g = (Inr (), g1)"
    using assms(2) by (auto simp: gap_replace_def split: prod.splits sum.splits)
  have mins: "min s (g_text_length g) = s" "min (e - s) (g_text_length g - s) = e - s"
    using assms(3,4) by (auto simp: tl tx)
  obtain M1 X1 where l1: "layout g1 (take s (L @ R)) M1 (drop e (L @ R)) X1" "length src \<le> length M1"
    and large: "g_large g1 = g_large g"
    using allocate_gap_layout [OF l a] assms(3) unfolding mins by auto
  obtain g3 where "(let (len, g2) = write_gap src g1 in commit_gap len g2) = Some g3"
    and l3: "layout g3 (take s (L @ R) @ src) (drop (length src) M1) (drop e (L @ R)) X1"
    and "g_large g3 = g_large g1"
    using fill_gap_layout [OF l1] .
  moreover from this have "g' = g3"
    using assms(2) a by (simp add: gap_replace_def split_beta Let_def)
  ultimately show ?thesis
    using layout_text [OF l3] layout_inv [OF l3] large by (simp add: tx)
qed

lemma commit_to_err: "commit_to grant n g = (Inl e, g') \<Longrightarrow> e \<noteq> AssertFailed"
  by (auto simp: commit_to_def Let_def split: if_splits)

lemma allocate_commit_err: "allocate_commit grant len d g = (Inl e, g') \<Longrightarrow> e \<noteq> AssertFailed"
  by (auto simp: allocate_commit_def Let_def split: if_splits prod.splits dest: commit_to_err)

lemma allocate_gap_err: "allocate_gap grant s len d g = (Inl e, g') \<Longrightarrow> e \<noteq> AssertFailed"
proof -
  assume a: "allocate_gap grant s len d g = (Inl e, g')"
  obtain res g1 where c: "allocate_commit grant len (min d (g_text_length g - min s (g_text_length g))) g = (res, g1)"
    by fastforce
  show ?thesis
  proof (cases res)
    case (Inl x)
    then show ?thesis using a allocate_commit_err c by (simp add: allocate_gap_def Let_def)
  next
    case (Inr u)
    show ?thesis using a unfolding allocate_gap_def Let_def c Inr prod.case sum.case by blast
  qed
qed

lemma gap_replace_Inl:
  assumes "gap_inv g" and "gap_replace grant s e src g = (Inl err, g')"
  shows "err \<noteq> AssertFailed \<and> (g' = g \<or> g' = g\<lparr>g_commit_calls := g_commit_calls g + 1\<rparr>)"
proof -
  obtain L M R X where l: "layout g L M R X" using gap_inv_layout [OF assms(1)] .
  obtain res g1 where a: "allocate_gap grant s (length src) (e - s) g = (res, g1)" by fastforce
  note lay = allocate_gap_layout [OF l a]
  show ?thesis
  proof (cases res)
    case (Inl er)
    moreover have "er \<noteq> AssertFailed"
      using a Inl by (auto dest: allocate_gap_err)
    ultimately show ?thesis using assms(2) a lay by (simp add: gap_replace_def)
  next
    case (Inr u)
    then show ?thesis using assms(2) a by (simp add: gap_replace_def write_gap_def commit_gap_def Let_def)
  qed
qed

lemma commit_needed_ge:
  assumes "commit_needed n len = Some need" and "g_large g"
  shows "n + new_gap_len g len \<le> need"
proof -
  let ?b = "n + align_down (len + 8191) 4096"
  have "need = align_down (?b + 65535) 65536"
    using assms(1) by (auto simp: commit_needed_def checked_add_def LARGE_GAP_CHUNK_def LARGE_ALLOC_CHUNK_def
        Let_def split: Option.bind_splits if_splits)
  moreover have "?b \<le> align_down (?b + 65536 - 1) 65536" by (rule align_up_ge) simp
  ultimately show ?thesis
    using assms(2) by (simp add: new_gap_len_def chunks_def LARGE_GAP_CHUNK_def add.commute)
qed

lemma gap_replace_precommitted:
  assumes "gap_inv g" and "g_large g" and "s \<le> e" and "e \<le> length (gap_text g)"
    and "src \<noteq> [] \<Longrightarrow> \<exists>need. commit_needed (length (gap_text g) - (e - s)) (length src) = Some need
           \<and> need \<le> g_commit g"
  obtains g' where "gap_replace grant s e src g = (Inr (), g')"
    and "g_commit g' = g_commit g" and "g_commit_calls g' = g_commit_calls g"
proof -
  obtain L M R X where l: "layout g L M R X" using gap_inv_layout [OF assms(1)] .
  have tl: "length (gap_text g) = g_text_length g" using assms(1) by (rule length_gap_text)
  have mins: "min s (g_text_length g) = s" "min (e - s) (g_text_length g - s) = e - s"
    using assms(3,4) by (auto simp: tl)
  have "g_text_length g - (e - s) + new_gap_len g (length src) \<le> g_commit g" if "src \<noteq> []"
    using assms(5) [OF that] commit_needed_ge [OF _ assms(2)] by (fastforce simp: tl)
  then have c: "allocate_commit grant (length src) (e - s) g = (Inr (), g)"
    by (cases "src = []") (auto simp: allocate_commit_def Let_def new_gap_len_def split_beta not_less)
  obtain res g1 where a: "allocate_gap grant s (length src) (e - s) g = (res, g1)" by fastforce
  have res: "res = Inr ()"
    using a c unfolding allocate_gap_def Let_def mins by simp
  note lay = allocate_gap_layout [OF l a, unfolded mins c]
  from lay res obtain M1 X1 where l1: "layout g1 (take s (L @ R)) M1 (drop (s + (e - s)) (L @ R)) X1"
    "length src \<le> length M1" by blast
  obtain g3 where g3: "(let (len, g2) = write_gap src g1 in commit_gap len g2) = Some g3"
    and "layout g3 (take s (L @ R) @ src) (drop (length src) M1) (drop (s + (e - s)) (L @ R)) X1"
    and "g_commit_calls g3 = g_commit_calls g1"
    using fill_gap_layout [OF l1] .
  moreover from this have "g_commit g3 = g_commit g1"
    using l1 by (auto simp: layout_def g_commit_def)
  moreover have "gap_replace grant s e src g = (Inr (), g3)"
    using a res g3 by (simp add: gap_replace_def split_beta Let_def)
  ultimately show thesis using that lay res by (auto simp: Let_def)
qed

lemma ensure_commit_layout:
  assumes "ensure_commit grant n g = (res, g')"
  shows "commit_frame g g' \<and> (res = Inr () \<longrightarrow> n \<le> g_commit g')"
proof -
  define c up where "c = snd (chunks g)" and "up = align_down (n + (c - 1)) c"
  have "n \<le> up"
    using align_up_ge [of c n] chunks_pos(2) [of g] by (simp add: c_def up_def)
  moreover have "ensure_commit grant n g =
      (if n \<le> g_commit g then (Inr (), g)
       else if u64_max < n + (c - 1) \<or> g_reserve g < up then (Inl OutOfReserve, g)
       else commit_to grant up g)"
    by (simp add: ensure_commit_def checked_add_def Let_def c_def up_def not_le)
  ultimately show ?thesis
    using assms commit_to_frame [of grant up g res g'] by (auto split: if_splits)
qed

section \<open>Reading\<close>

lemma read_forward_layout:
  assumes "layout g L M R X"
  shows "read_forward off g = (if off < length L then drop off L else drop off (L @ R))"
  using assms
  by (auto simp: read_forward_def layout_def slice_def min_def Let_def)

lemma read_backward_layout:
  assumes "layout g L M R X"
  shows "read_backward off g =
    (let off = min off (length (L @ R)) in if off \<le> length L then take off L else take (off - length L) R)"
  using assms
  by (auto simp: read_backward_def layout_def slice_def min_def Let_def)

lemma read_forward_prefix:
  assumes "gap_inv g"
  obtains rest where "drop off (gap_text g) = read_forward off g @ rest"
    and "off < length (gap_text g) \<Longrightarrow> read_forward off g \<noteq> []"
proof -
  obtain L M R X where l: "layout g L M R X" using gap_inv_layout [OF assms] .
  show thesis
    by (rule that [of "if off < length L then R else []"])
      (auto simp: read_forward_layout [OF l] layout_text [OF l])
qed

section \<open>The interface of a byte store\<close>

text \<open>What the text layer relies on: reads return a non-empty prefix of the bytes at an offset,
  a replace either edits the bytes or leaves them alone.\<close>

locale byte_store =
  fixes content :: "'s \<Rightarrow> string"
    and invar :: "'s \<Rightarrow> bool"
    and read_at :: "nat \<Rightarrow> 's \<Rightarrow> string"
    and replace :: "nat \<Rightarrow> nat \<Rightarrow> string \<Rightarrow> 's \<Rightarrow> ('e, unit) result \<times> 's"
  assumes read_prefix: "invar s \<Longrightarrow> \<exists>rest. drop off (content s) = read_at off s @ rest"
    and read_progress: "invar s \<Longrightarrow> off < length (content s) \<Longrightarrow> read_at off s \<noteq> []"
    and replace_ok: "invar s \<Longrightarrow> a \<le> b \<Longrightarrow> b \<le> length (content s) \<Longrightarrow>
      replace a b src s = (Inr (), s') \<Longrightarrow>
      invar s' \<and> content s' = take a (content s) @ src @ drop b (content s)"
    and replace_err: "invar s \<Longrightarrow> replace a b src s = (Inl e, s') \<Longrightarrow>
      invar s' \<and> content s' = content s"
begin

lemma read_at_take:
  assumes "invar s"
  shows "read_at off s = take (length (read_at off s)) (drop off (content s))"
proof -
  obtain rest where "drop off (content s) = read_at off s @ rest" using read_prefix [OF assms] ..
  then show ?thesis by simp
qed

lemma first_byte:
  assumes "invar s" and "off < length (content s)"
  shows "hd (read_at off s) = content s ! off"
proof -
  obtain rest where "drop off (content s) = read_at off s @ rest" using read_prefix [OF assms(1)] ..
  then show ?thesis
    using read_progress [OF assms] hd_drop_conv_nth [OF assms(2)] by (simp add: hd_append)
qed

lemma replace_edit:
  assumes "invar s" and "e_offset e + e_delete e \<le> length (content s)"
    and "replace (e_offset e) (e_offset e + e_delete e) (e_insert e) s = (Inr (), s')"
  shows "invar s' \<and> content s' = apply_edit (content s) e"
  using replace_ok [OF assms(1) _ assms(2,3)] by (simp add: apply_edit_def)

end

text \<open>A store that can commit memory up front.\<close>

locale committing_store = byte_store content invar read_at replace
  for content :: "'s \<Rightarrow> string"
    and invar :: "'s \<Rightarrow> bool"
    and read_at :: "nat \<Rightarrow> 's \<Rightarrow> string"
    and replace :: "nat \<Rightarrow> nat \<Rightarrow> string \<Rightarrow> 's \<Rightarrow> ('e, unit) result \<times> 's" +
  fixes committed :: "'s \<Rightarrow> nat"
    and calls :: "'s \<Rightarrow> nat"
    and needed :: "nat \<Rightarrow> nat \<Rightarrow> nat option"
    and ensure :: "nat \<Rightarrow> 's \<Rightarrow> ('e, unit) result \<times> 's"
  assumes ensure_keeps: "invar s \<Longrightarrow> ensure n s = (res, s') \<Longrightarrow>
      invar s' \<and> content s' = content s \<and> (res = Inr () \<longrightarrow> n \<le> committed s')"
    and replace_committed: "invar s \<Longrightarrow> a \<le> b \<Longrightarrow> b \<le> length (content s) \<Longrightarrow>
      (src \<noteq> [] \<Longrightarrow> \<exists>n. needed (length (content s) - (b - a)) (length src) = Some n \<and> n \<le> committed s) \<Longrightarrow>
      \<exists>s'. replace a b src s = (Inr (), s') \<and> committed s' = committed s \<and> calls s' = calls s"

text \<open>A sequence of replaces stopped by the first error, and what it needs committed.\<close>

fun replace_all ::
  "(nat \<Rightarrow> nat \<Rightarrow> string \<Rightarrow> 's \<Rightarrow> ('e, unit) result \<times> 's) \<Rightarrow> edit list \<Rightarrow> 's
     \<Rightarrow> ('e, unit) result \<times> 's" where
  "replace_all replace [] s = (Inr (), s)"
| "replace_all replace (e # es) s =
     (case replace (e_offset e) (e_offset e + e_delete e) (e_insert e) s of
        (Inl x, s') \<Rightarrow> (Inl x, s')
      | (Inr _, s') \<Rightarrow> replace_all replace es s')"

fun steps_committed ::
  "(nat \<Rightarrow> nat \<Rightarrow> nat option) \<Rightarrow> nat \<Rightarrow> nat \<Rightarrow> edit list \<Rightarrow> bool" where
  "steps_committed needed have' len [] = True"
| "steps_committed needed have' len (e # es) =
     (e_offset e + e_delete e \<le> len
      \<and> (e_insert e = [] \<or>
         (case needed (len - e_delete e) (length (e_insert e)) of None \<Rightarrow> False | Some n \<Rightarrow> n \<le> have'))
      \<and> steps_committed needed have' (len - e_delete e + length (e_insert e)) es)"

context committing_store
begin

lemma replace_step:
  assumes "invar s" and "steps_committed needed (committed s) (length (content s)) (e # es)"
  obtains s' where "replace (e_offset e) (e_offset e + e_delete e) (e_insert e) s = (Inr (), s')"
    and "invar s'" and "content s' = apply_edit (content s) e" and "committed s' = committed s"
    and "calls s' = calls s" and "steps_committed needed (committed s') (length (content s')) es"
proof -
  have fits: "e_offset e + e_delete e \<le> length (content s)" using assms(2) by simp
  obtain s' where r: "replace (e_offset e) (e_offset e + e_delete e) (e_insert e) s = (Inr (), s')"
    and c: "committed s' = committed s" "calls s' = calls s"
    using replace_committed [OF assms(1) le_add1 fits, where src = "e_insert e"] assms(2)
    by (cases "e_insert e = []") (auto split: option.splits)
  moreover have "invar s'" and t: "content s' = apply_edit (content s) e"
    using replace_edit [OF assms(1) fits r] by auto
  moreover have "length (content s') = length (content s) - e_delete e + length (e_insert e)"
    using fits by (simp add: t apply_edit_def)
  then have "steps_committed needed (committed s') (length (content s')) es"
    using assms(2) c(1) by (simp only: steps_committed.simps)
  ultimately show thesis using that by simp
qed

lemma replace_all_committed:
  assumes "invar s" and "steps_committed needed (committed s) (length (content s)) es"
  shows "\<exists>s'. replace_all replace es s = (Inr (), s') \<and> invar s'
    \<and> content s' = apply_edits (content s) es \<and> committed s' = committed s \<and> calls s' = calls s"
  using assms
proof (induction es arbitrary: s)
  case Nil
  then show ?case by (simp add: apply_edits_def)
next
  case (Cons e es)
  obtain s1 where s1: "replace (e_offset e) (e_offset e + e_delete e) (e_insert e) s = (Inr (), s1)"
    "invar s1" "content s1 = apply_edit (content s) e" "committed s1 = committed s" "calls s1 = calls s"
    "steps_committed needed (committed s1) (length (content s1)) es"
    using replace_step [OF Cons.prems] .
  from Cons.IH [OF s1(2,6)] s1(1,3-5) show ?case by (auto simp: apply_edits_def)
qed

end

section \<open>The gap buffer is such a store\<close>

definition store_inv :: "gap_buffer \<Rightarrow> bool" where
  "store_inv g \<longleftrightarrow> gap_inv g \<and> g_large g"

lemma commit_frame_keeps:
  assumes "commit_frame g g'" and "gap_inv g"
  shows "gap_inv g' \<and> gap_text g' = gap_text g \<and> g_large g' = g_large g"
proof -
  obtain L M R X where l: "layout g L M R X" using gap_inv_layout [OF assms(2)] .
  then obtain X' where l': "layout g' L M R X'" using commit_frameE [OF assms(1)] by blast
  show ?thesis
    using layout_text [OF l] layout_text [OF l'] layout_inv [OF l'] assms(1)
    by (simp add: commit_frame_def)
qed

lemma gap_calls_only [simp]:
  "gap_text (g\<lparr>g_commit_calls := n\<rparr>) = gap_text g" "gap_inv (g\<lparr>g_commit_calls := n\<rparr>) = gap_inv g"
  by (simp_all add: gap_text_def gap_inv_def)

interpretation gap: committing_store gap_text store_inv read_forward "gap_replace grant"
    g_commit g_commit_calls commit_needed "ensure_commit grant"
  for grant
proof unfold_locales
  fix s s' :: gap_buffer and a b off n :: nat and src e res
  assume i: "store_inv s"
  then have inv: "gap_inv s" and large: "g_large s" by (simp_all add: store_inv_def)
  show "\<exists>rest. drop off (gap_text s) = read_forward off s @ rest"
    using read_forward_prefix [OF inv] by metis
  show "off < length (gap_text s) \<Longrightarrow> read_forward off s \<noteq> []"
    using read_forward_prefix [OF inv] by metis
  show "a \<le> b \<Longrightarrow> b \<le> length (gap_text s) \<Longrightarrow> gap_replace grant a b src s = (Inr (), s') \<Longrightarrow>
      store_inv s' \<and> gap_text s' = take a (gap_text s) @ src @ drop b (gap_text s)"
    using gap_replace_Inr [OF inv] large by (simp add: store_inv_def)
  show "gap_replace grant a b src s = (Inl e, s') \<Longrightarrow> store_inv s' \<and> gap_text s' = gap_text s"
    using gap_replace_Inl [OF inv, of grant a b src e s'] i by (auto simp: store_inv_def)
  show "ensure_commit grant n s = (res, s') \<Longrightarrow>
      store_inv s' \<and> gap_text s' = gap_text s \<and> (res = Inr () \<longrightarrow> n \<le> g_commit s')"
    using ensure_commit_layout [of grant n s res s'] commit_frame_keeps [of s s', OF _ inv] large
    by (auto simp: store_inv_def)
  show "\<exists>s'. gap_replace grant a b src s = (Inr (), s') \<and> g_commit s' = g_commit s
      \<and> g_commit_calls s' = g_commit_calls s"
    if "a \<le> b" "b \<le> length (gap_text s)"
      "src \<noteq> [] \<Longrightarrow> \<exists>n. commit_needed (length (gap_text s) - (b - a)) (length src) = Some n \<and> n \<le> g_commit s"
    using gap_replace_precommitted [OF inv large that, of grant] by metis
qed

section \<open>Properties\<close>

text \<open>A replace that returns Ok on a well-formed buffer keeps it well formed and its text is
  the abstract edit of the old text; one that returns Err never trips the assertion of
  \<^verbatim>\<open>commit_gap\<close> and leaves every field but the commit counter as it was.\<close>

theorem gap_replace_refines:
  assumes "gap_inv g" and "e_offset ed + e_delete ed \<le> length (gap_text g)"
    and "gap_replace grant (e_offset ed) (e_offset ed + e_delete ed) (e_insert ed) g = (res, g')"
  shows "gap_inv g' \<and> (case res of
      Inr _ \<Rightarrow> gap_text g' = apply_edit (gap_text g) ed
    | Inl err \<Rightarrow> err \<noteq> AssertFailed \<and> gap_text g' = gap_text g
        \<and> g'\<lparr>g_commit_calls := g_commit_calls g\<rparr> = g)"
proof (cases res)
  case (Inl err)
  then show ?thesis using gap_replace_Inl [OF assms(1) assms(3) [unfolded Inl]] assms(1) by auto
next
  case (Inr u)
  then show ?thesis
    using gap_replace_Inr [OF assms(1), of grant "e_offset ed" "e_offset ed + e_delete ed" "e_insert ed" g'] assms(3) assms(2) by (simp add: apply_edit_def)
qed

theorem gap_replace_refines_witness:
  "gap_text (snd (gap_replace (\<lambda>_ _. False) 1 2 ''XY''
     \<lparr>g_mem = ''a..bc'', g_reserve = 16, g_text_length = 3, g_gap_off = 1, g_gap_len = 2,
      g_generation = 0, g_commit_calls = 0, g_large = False\<rparr>)) = ''aXYc''"
  using gap_replace_refines [of "\<lparr>g_mem = ''a..bc'', g_reserve = 16, g_text_length = 3, g_gap_off = 1,
      g_gap_len = 2, g_generation = 0, g_commit_calls = 0, g_large = False\<rparr>"
      "\<lparr>e_offset = 1, e_delete = 1, e_insert = ''XY''\<rparr>" "\<lambda>_ _. False"]
  by (simp add: gap_inv_def gap_text_def slice_def apply_edit_def gap_replace_def allocate_gap_def
      allocate_commit_def delete_text_def write_gap_def commit_gap_def)

text \<open>Phase 2 cannot fail: when the largest \<^verbatim>\<open>commit_needed\<close> of a sequence of edits
  has been committed, replacing them one after the other succeeds whatever the operating system
  would answer, performs the edits, and neither commits memory nor asks for it.\<close>

theorem precommitted_sequence_succeeds:
  assumes "gap_inv g" and "g_large g"
    and "steps_committed commit_needed (g_commit g) (length (gap_text g)) es"
  shows "\<exists>g'. replace_all (gap_replace grant) es g = (Inr (), g') \<and> gap_inv g'
    \<and> gap_text g' = apply_edits (gap_text g) es
    \<and> g_commit g' = g_commit g \<and> g_commit_calls g' = g_commit_calls g"
proof -
  have "store_inv g" using assms by (simp add: store_inv_def)
  from gap.replace_all_committed [OF this assms(3), of grant] show ?thesis
    by (auto simp: store_inv_def)
qed

theorem precommitted_sequence_succeeds_witness:
  "\<exists>g'. replace_all (gap_replace (\<lambda>_ _. False))
      [\<lparr>e_offset = 0, e_delete = 0, e_insert = ''hello''\<rparr>, \<lparr>e_offset = 1, e_delete = 3, e_insert = ''ipp''\<rparr>]
      \<lparr>g_mem = replicate 65536 (CHR 0x00), g_reserve = LARGE_CAPACITY, g_text_length = 0, g_gap_off = 0,
       g_gap_len = 0, g_generation = 0, g_commit_calls = 1, g_large = True\<rparr> = (Inr (), g')
    \<and> gap_text g' = ''hippo''"
proof -
  let ?g = "\<lparr>g_mem = replicate 65536 (CHR 0x00), g_reserve = LARGE_CAPACITY, g_text_length = 0,
    g_gap_off = 0, g_gap_len = 0, g_generation = 0, g_commit_calls = 1, g_large = True\<rparr>"
  have "gap_inv ?g" "g_large ?g" and t: "gap_text ?g = []"
    by (simp_all add: gap_inv_def gap_text_def slice_def LARGE_CAPACITY_def)
  moreover have "steps_committed commit_needed (g_commit ?g) (length (gap_text ?g))
      [\<lparr>e_offset = 0, e_delete = 0, e_insert = ''hello''\<rparr>, \<lparr>e_offset = 1, e_delete = 3, e_insert = ''ipp''\<rparr>]"
    unfolding t by (simp add: commit_needed_def checked_add_def u64_max_def LARGE_GAP_CHUNK_def
        LARGE_ALLOC_CHUNK_def align_down_def g_commit_def Let_def)
  ultimately obtain g' where
    "replace_all (gap_replace (\<lambda>_ _. False)) [\<lparr>e_offset = 0, e_delete = 0, e_insert = ''hello''\<rparr>,
       \<lparr>e_offset = 1, e_delete = 3, e_insert = ''ipp''\<rparr>] ?g = (Inr (), g')"
    "gap_text g' = apply_edits [] [\<lparr>e_offset = 0, e_delete = 0, e_insert = ''hello''\<rparr>,
       \<lparr>e_offset = 1, e_delete = 3, e_insert = ''ipp''\<rparr>]"
    using precommitted_sequence_succeeds [of ?g _ "\<lambda>_ _. False"] unfolding t by blast
  moreover from this(2) have "gap_text g' = ''hippo''" by (simp add: apply_edit_def)
  ultimately show ?thesis by blast
qed

end
