(* ===== verification/Edit_Utf8.thy ===== *)
theory Edit_Utf8
  imports Cosmix_Prelude
begin

text \<open>
  UTF-8 as the editor's text layer uses it (\<^verbatim>\<open>cosmix-edit-core/src/text.rs\<close>): the byte
  classifiers of that file, the standard library's \<^verbatim>\<open>from_utf8\<close>, \<^verbatim>\<open>valid_up_to\<close> and
  \<^verbatim>\<open>chars\<close> after the table of well-formed byte sequences of the Unicode standard.  A
  \<^verbatim>\<open>char\<close> of HOL is a byte.  The lemmas show that well-formed strings are exactly the
  concatenations of scalars, that the split is unique, that char boundaries are the positions
  whose byte is no continuation byte, and what a cut through a scalar looks like.
\<close>

section \<open>Definitions\<close>

definition byte :: "char \<Rightarrow> nat" where
  "byte c = of_char c"

definition newline :: char where
  "newline = CHR 0x0A"

text \<open>\<^verbatim>\<open>b & 0xc0 == 0x80\<close>: the two top bits are \<^verbatim>\<open>10\<close>.\<close>

definition is_continuation :: "char \<Rightarrow> bool" where
  "is_continuation b \<longleftrightarrow> byte b div 64 = 2"

definition utf8_len :: "char \<Rightarrow> nat" where
  "utf8_len lead =
     (if byte lead \<le> 0x7f then 1
      else if 0xc0 \<le> byte lead \<and> byte lead \<le> 0xdf then 2
      else if 0xe0 \<le> byte lead \<and> byte lead \<le> 0xef then 3
      else 4)"

definition count_newlines :: "string \<Rightarrow> nat" where
  "count_newlines s = length (filter (\<lambda>b. b = newline) s)"

text \<open>The length a leading byte announces, 0 for a byte that cannot lead.\<close>

definition lead_len :: "char \<Rightarrow> nat" where
  "lead_len b =
     (if byte b \<le> 0x7f then 1
      else if 0xc2 \<le> byte b \<and> byte b \<le> 0xdf then 2
      else if 0xe0 \<le> byte b \<and> byte b \<le> 0xef then 3
      else if 0xf0 \<le> byte b \<and> byte b \<le> 0xf4 then 4
      else 0)"

text \<open>The restrictions on the second byte: no overlong forms, no surrogates, nothing above
  U+10FFFF.\<close>

definition second_ok :: "char \<Rightarrow> char \<Rightarrow> bool" where
  "second_ok b0 b1 \<longleftrightarrow>
     (if byte b0 = 0xe0 then 0xa0 \<le> byte b1
      else if byte b0 = 0xed then byte b1 \<le> 0x9f
      else if byte b0 = 0xf0 then 0x90 \<le> byte b1
      else if byte b0 = 0xf4 then byte b1 \<le> 0x8f
      else True)"

definition utf8_char :: "string \<Rightarrow> bool" where
  "utf8_char c = (case c of [] \<Rightarrow> False
     | b # bs \<Rightarrow> lead_len b = length c \<and> list_all is_continuation bs
                 \<and> (bs = [] \<or> second_ok b (hd bs)))"

definition first_scalar :: "string \<Rightarrow> string option" where
  "first_scalar s = (case s of [] \<Rightarrow> None
     | b # _ \<Rightarrow> let c = take (lead_len b) s in if utf8_char c then Some c else None)"

lemma first_scalar_Some: "first_scalar s = Some c \<Longrightarrow> utf8_char c \<and> c \<noteq> [] \<and> (\<exists>r. s = c @ r)"
proof (cases s)
  case (Cons b bs)
  assume "first_scalar s = Some c"
  then have c: "c = take (lead_len b) s" and u: "utf8_char c"
    using Cons by (auto simp: first_scalar_def Let_def split: if_splits)
  from c have "s = c @ drop (lead_len b) s" by simp
  moreover from u have "c \<noteq> []" by (auto simp: utf8_char_def)
  ultimately show ?thesis using u by blast
qed (simp add: first_scalar_def)

text \<open>The scalars up to the first ill-formed byte (\<^verbatim>\<open>chars\<close> on a valid string).\<close>

function scalars :: "string \<Rightarrow> string list" where
  "scalars s = (case first_scalar s of None \<Rightarrow> [] | Some c \<Rightarrow> c # scalars (drop (length c) s))"
  by auto
termination
  by (relation "measure length") (auto dest!: first_scalar_Some)

declare scalars.simps [simp del]

definition valid_up_to :: "string \<Rightarrow> nat" where
  "valid_up_to s = length (concat (scalars s))"

definition from_utf8 :: "string \<Rightarrow> bool" where
  "from_utf8 s \<longleftrightarrow> valid_up_to s = length s"

definition char_count :: "string \<Rightarrow> nat" where
  "char_count s = length (scalars s)"

section \<open>Scalars\<close>

lemma utf8_char_nonempty: "utf8_char c \<Longrightarrow> c \<noteq> []"
  by (auto simp: utf8_char_def)

lemma utf8_char_length: "utf8_char c \<Longrightarrow> length c \<le> 4"
  by (auto simp: utf8_char_def lead_len_def split: list.splits if_splits)

lemma utf8_char_hd: "utf8_char c \<Longrightarrow> \<not> is_continuation (hd c) \<and> lead_len (hd c) = length c"
  by (auto simp: utf8_char_def lead_len_def is_continuation_def split: list.splits if_splits)

lemma utf8_char_tl: "utf8_char c \<Longrightarrow> list_all is_continuation (tl c)"
  by (auto simp: utf8_char_def split: list.splits)

lemma utf8_len_lead: "0 < lead_len b \<Longrightarrow> utf8_len b = lead_len b"
  by (auto simp: utf8_len_def lead_len_def split: if_splits)

lemma first_scalar_append [simp]: "utf8_char c \<Longrightarrow> first_scalar (c @ r) = Some c"
  using utf8_char_hd [of c]
  by (cases c) (auto simp: first_scalar_def Let_def dest: utf8_char_nonempty)

lemma scalars_Nil [simp]: "scalars [] = []"
  by (simp add: scalars.simps first_scalar_def)

lemma scalars_char [simp]: "utf8_char c \<Longrightarrow> scalars (c @ r) = c # scalars r"
  by (subst scalars.simps) simp

lemma scalars_concat [simp]:
  "list_all utf8_char cs \<Longrightarrow> scalars (concat cs @ r) = cs @ scalars r"
  by (induction cs) auto

lemma scalars_prefix: "list_all utf8_char (scalars s) \<and> (\<exists>r. s = concat (scalars s) @ r)"
proof (induction s rule: scalars.induct)
  case (1 s)
  show ?case
  proof (cases "first_scalar s")
    case None
    then show ?thesis by (simp add: scalars.simps [of s])
  next
    case (Some c)
    then obtain r where s: "s = c @ r" and c: "utf8_char c" using first_scalar_Some by blast
    then show ?thesis using 1 [OF Some] by auto
  qed
qed

lemma from_utf8_iff: "from_utf8 s \<longleftrightarrow> (\<exists>cs. list_all utf8_char cs \<and> s = concat cs)"
proof
  assume "from_utf8 s"
  then have "s = concat (scalars s)"
    using scalars_prefix [of s] by (metis append_eq_append_conv append_Nil2 from_utf8_def valid_up_to_def)
  then show "\<exists>cs. list_all utf8_char cs \<and> s = concat cs"
    using scalars_prefix [of s] by blast
next
  assume "\<exists>cs. list_all utf8_char cs \<and> s = concat cs"
  then obtain cs where "list_all utf8_char cs" "s = concat cs" by blast
  then show "from_utf8 s"
    using scalars_concat [of cs "[]"] by (simp add: from_utf8_def valid_up_to_def)
qed

lemma from_utf8E:
  assumes "from_utf8 s"
  obtains cs where "list_all utf8_char cs" and "s = concat cs" and "scalars s = cs"
  using assms scalars_concat [of _ "[]"] by (auto simp: from_utf8_iff)

lemma from_utf8_Nil [simp]: "from_utf8 []"
  by (simp add: from_utf8_def valid_up_to_def)

lemma from_utf8_append [intro]: "from_utf8 a \<Longrightarrow> from_utf8 b \<Longrightarrow> from_utf8 (a @ b)"
  unfolding from_utf8_iff by (metis concat_append list_all_append)

lemma from_utf8_char: "utf8_char c \<Longrightarrow> from_utf8 c"
  unfolding from_utf8_iff by (intro exI [of _ "[c]"]) simp

lemma char_count_append:
  "from_utf8 a \<Longrightarrow> char_count (a @ b) = char_count a + char_count b"
  by (erule from_utf8E) (simp add: char_count_def)

lemma from_utf8_append_iff:
  assumes "from_utf8 a"
  shows "from_utf8 (a @ b) \<longleftrightarrow> from_utf8 b"
proof
  assume "from_utf8 (a @ b)"
  moreover obtain cs where "list_all utf8_char cs" "a = concat cs" using assms by (rule from_utf8E)
  ultimately show "from_utf8 b"
    by (simp add: from_utf8_def valid_up_to_def)
qed (use assms in blast)

text \<open>A proper prefix of a scalar holds no scalar.\<close>

lemma scalars_partial:
  assumes "utf8_char (p @ q)" and "q \<noteq> []"
  shows "scalars p = []"
proof (cases p)
  case (Cons b bs)
  then have "lead_len b = length p + length q" using utf8_char_hd [OF assms(1)] by simp
  then have "\<not> utf8_char p" using utf8_char_hd [of p] assms(2) Cons by auto
  then show ?thesis
    using Cons \<open>lead_len b = _\<close> by (subst scalars.simps) (simp add: first_scalar_def Let_def)
qed simp

section \<open>Char boundaries\<close>

definition boundary :: "string \<Rightarrow> nat \<Rightarrow> bool" where
  "boundary t off \<longleftrightarrow> (if off < length t then \<not> is_continuation (t ! off) else off = length t)"

lemma boundary_ends [simp]: "boundary t (length t)" "boundary [] 0"
  by (simp_all add: boundary_def)

lemma boundary_le: "boundary t off \<Longrightarrow> off \<le> length t"
  by (auto simp: boundary_def split: if_splits)

lemma boundary_split:
  assumes "from_utf8 t" and "boundary t off"
  shows "from_utf8 (take off t) \<and> from_utf8 (drop off t)"
proof -
  obtain cs where "list_all utf8_char cs" "t = concat cs" using assms(1) by (rule from_utf8E)
  then show ?thesis using assms(2)
  proof (induction cs arbitrary: t off)
    case (Cons c cs)
    show ?case
    proof (cases "off < length c")
      case True
      have "off = 0"
      proof (rule ccontr)
        assume "off \<noteq> 0"
        then have "c ! off = tl c ! (off - 1)" and "off - 1 < length (tl c)"
          using True by (simp_all add: nth_tl)
        then have "is_continuation (c ! off)"
          using utf8_char_tl [of c] Cons.prems(1) by (simp add: list_all_iff)
        then show False using Cons.prems True by (simp add: boundary_def nth_append)
      qed
      then show ?thesis using Cons.prems from_utf8_iff by (metis drop0 from_utf8_Nil take0)
    next
      case False
      have "boundary (concat cs) (off - length c)"
        using Cons.prems(2,3) False by (auto simp: boundary_def nth_append split: if_splits)
      then have "from_utf8 (take (off - length c) (concat cs)) \<and> from_utf8 (drop (off - length c) (concat cs))"
        using Cons.IH Cons.prems(1) by simp
      then show ?thesis using Cons.prems(1,2) False from_utf8_char by auto
    qed
  qed (auto simp: boundary_def)
qed

lemma from_utf8_hd: "from_utf8 s \<Longrightarrow> s \<noteq> [] \<Longrightarrow> \<not> is_continuation (hd s)"
proof (erule from_utf8E)
  fix cs
  assume "s \<noteq> []" "list_all utf8_char cs" "s = concat cs"
  then show ?thesis
    using utf8_char_hd utf8_char_nonempty by (cases cs) (auto simp: hd_append)
qed

lemma split_boundary: "from_utf8 b \<Longrightarrow> boundary (a @ b) (length a)"
  using from_utf8_hd [of b] by (auto simp: boundary_def nth_append hd_conv_nth)

lemma boundary_iff:
  assumes "from_utf8 t" and "off \<le> length t"
  shows "boundary t off \<longleftrightarrow> from_utf8 (take off t) \<and> from_utf8 (drop off t)"
  using boundary_split [OF assms(1)] split_boundary [of "drop off t" "take off t"] assms(2) by auto

lemma slice_from_utf8:
  assumes "from_utf8 t" and "boundary t a" and "boundary t b" and "a \<le> b"
  shows "from_utf8 (slice t a b)"
proof -
  have "take b t = take a t @ slice t a b"
    using assms(4) by (simp add: take_then_slice)
  then show ?thesis
    using boundary_split [OF assms(1) assms(2)] boundary_split [OF assms(1) assms(3)]
      from_utf8_append_iff [of "take a t" "slice t a b"] by simp
qed

text \<open>Splicing well-formed text in at boundaries keeps the text well formed.\<close>

lemma splice_from_utf8:
  "from_utf8 t \<Longrightarrow> boundary t a \<Longrightarrow> boundary t b \<Longrightarrow> from_utf8 ins \<Longrightarrow>
     from_utf8 (take a t @ ins @ drop b t)"
  using boundary_split by blast

section \<open>Cutting through a scalar\<close>

lemma cut_scalars:
  assumes "from_utf8 (a @ b)"
  obtains cs p q r where "a = concat cs @ p" and "list_all utf8_char cs" and "b = q @ r"
    and "from_utf8 r" and "p = [] \<and> q = [] \<or> p \<noteq> [] \<and> q \<noteq> [] \<and> utf8_char (p @ q)"
proof -
  obtain cs where "list_all utf8_char cs" "a @ b = concat cs" using assms by (rule from_utf8E)
  then have "\<exists>ds p q r. a = concat ds @ p \<and> list_all utf8_char ds \<and> b = q @ r \<and> from_utf8 r
     \<and> (p = [] \<and> q = [] \<or> p \<noteq> [] \<and> q \<noteq> [] \<and> utf8_char (p @ q))"
  proof (induction cs arbitrary: a)
    case Nil
    then show ?case by (intro exI [of _ "[]"]) simp
  next
    case (Cons c cs)
    then have ab: "a @ b = c @ concat cs" and c: "utf8_char c" and v: "from_utf8 (concat cs)"
      by (auto simp: from_utf8_iff)
    consider (whole) u where "a = c @ u" "u @ b = concat cs"
      | (cut) u where "a @ u = c" "b = u @ concat cs" "u \<noteq> []"
      using ab by (cases "length c \<le> length a") (auto simp: append_eq_append_conv2)
    then show ?case
    proof cases
      case whole
      then obtain ds p q r where "u = concat ds @ p" "list_all utf8_char ds" "b = q @ r" "from_utf8 r"
        "p = [] \<and> q = [] \<or> p \<noteq> [] \<and> q \<noteq> [] \<and> utf8_char (p @ q)"
        using Cons.IH [of u] Cons.prems by auto
      then show ?thesis using whole c by (intro exI [of _ "c # ds"] exI [of _ p] exI [of _ q] exI [of _ r]) simp
    next
      case cut
      show ?thesis
      proof (cases "a = []")
        case True
        then show ?thesis using cut v c from_utf8_char
          by (intro exI [of _ "[]"] exI [of _ b]) (auto intro!: exI [of _ "[]"])
      next
        case False
        then have "a = concat [] @ a \<and> list_all utf8_char [] \<and> b = u @ concat cs \<and> from_utf8 (concat cs)
          \<and> (a = [] \<and> u = [] \<or> a \<noteq> [] \<and> u \<noteq> [] \<and> utf8_char (a @ u))"
          using cut v c by simp
        then show ?thesis by blast
      qed
    qed
  qed
  then show thesis using that by blast
qed

end
