(* ===== verification/Edit_Types.thy ===== *)
theory Edit_Types
  imports Edit_Utf8 Cosmix_Str
begin

text \<open>
  The vocabulary of the edit core: refusals (\<^verbatim>\<open>error.rs\<close>), limits (\<^verbatim>\<open>limits.rs\<close>),
  positions and ranges (\<^verbatim>\<open>pos.rs\<close>) and origins (\<^verbatim>\<open>origin.rs\<close>).  A refusal keeps its
  code, its reason and its numeric or textual context; the human-readable message is left out.
  The host the core runs on (address space, memory commits, heap growth) is the record
  \<open>host\<close>, an argument of every operation that asks it for something.
\<close>

section \<open>Refusals\<close>

datatype error_code =
    InvalidArgument | NotFound | Conflict | ResourceLimit | IoError | UnknownVerb | Forbidden | Internal

datatype wire_value = WNum nat | WStr string

record core_error =
  ce_code :: error_code
  ce_reason :: "string option"
  ce_context :: "(string \<times> wire_value) list"

definition core_error_new :: "error_code \<Rightarrow> string \<Rightarrow> core_error" where
  "core_error_new code reason = \<lparr>ce_code = code, ce_reason = Some reason, ce_context = []\<rparr>"

definition with_context :: "core_error \<Rightarrow> string \<Rightarrow> wire_value \<Rightarrow> core_error" where
  "with_context err key v = err\<lparr>ce_context := ce_context err @ [(key, v)]\<rparr>"

definition oom :: core_error where
  "oom = core_error_new ResourceLimit ''out_of_memory''"

definition overflow :: core_error where
  "overflow = core_error_new ResourceLimit ''too_large''"

definition internal :: core_error where
  "internal = \<lparr>ce_code = Internal, ce_reason = None, ce_context = []\<rparr>"

definition invalid :: "string \<Rightarrow> core_error" where
  "invalid reason = core_error_new InvalidArgument reason"

definition limit :: core_error where
  "limit = core_error_new ResourceLimit ''limit''"

section \<open>Limits\<close>

definition MIB :: nat where "MIB = 1024 * 1024"
definition MAX_BUFFER_BYTES :: nat where "MAX_BUFFER_BYTES = 64 * MIB"
definition MAX_LINES :: nat where "MAX_LINES = 2000000"
definition MAX_REQUEST_TEXT_BYTES :: nat where "MAX_REQUEST_TEXT_BYTES = MIB"
definition MAX_OPS_PER_TXN :: nat where "MAX_OPS_PER_TXN = 10000"
definition LOG_MAX_ENTRIES :: nat where "LOG_MAX_ENTRIES = 100000"
definition LOG_MAX_TEXT_BYTES :: nat where "LOG_MAX_TEXT_BYTES = 32 * MIB"
definition MAX_ANCHORS :: nat where "MAX_ANCHORS = 1024"
definition MAX_SELECTION_ORIGINS :: nat where "MAX_SELECTION_ORIGINS = 64"
definition MAX_SELECTIONS_PER_ORIGIN :: nat where "MAX_SELECTIONS_PER_ORIGIN = 16"
definition LABEL_MAX :: nat where "LABEL_MAX = 64"

definition too_large :: core_error where
  "too_large = with_context (core_error_new ResourceLimit ''too_large'') ''limit'' (WNum MAX_BUFFER_BYTES)"

definition too_many_lines :: core_error where
  "too_many_lines = with_context (core_error_new ResourceLimit ''too_many_lines'') ''limit'' (WNum MAX_LINES)"

section \<open>Positions\<close>

record point =
  pt_offset :: nat
  pt_line :: nat
  pt_col :: nat

datatype named_pos = Start | End

datatype pos_spec =
    Offset nat
  | Named named_pos
  | LineCol nat "nat option"
  | PosAnchor string

datatype range_spec =
    Offsets nat nat
  | Span pos_spec pos_spec
  | Lines nat nat
  | RangeAnchor string
  | AllText

section \<open>Origins\<close>

datatype origin_kind = Human | Agent | Tool

datatype origin = Origin (o_kind: origin_kind) (o_label: string)

record via =
  v_from :: "string option"
  v_broker_origin :: string
  v_broker_peer :: "string option"
  v_broker_service :: "string option"

definition is_ascii_alphanumeric :: "char \<Rightarrow> bool" where
  "is_ascii_alphanumeric c \<longleftrightarrow>
     (48 \<le> byte c \<and> byte c \<le> 57) \<or> (65 \<le> byte c \<and> byte c \<le> 90) \<or> (97 \<le> byte c \<and> byte c \<le> 122)"

definition is_valid_label :: "string \<Rightarrow> bool" where
  "is_valid_label label \<longleftrightarrow> label \<noteq> [] \<and> length label \<le> LABEL_MAX
     \<and> list_all (\<lambda>b. is_ascii_alphanumeric b \<or> b \<in> set ''._@/+-'') label"

text \<open>\<^verbatim>\<open>while !label.is_char_boundary(cut) { cut -= 1 }\<close>\<close>

fun boundary_back :: "string \<Rightarrow> nat \<Rightarrow> nat" where
  "boundary_back s 0 = 0"
| "boundary_back s (Suc n) = (if boundary s (Suc n) then Suc n else boundary_back s n)"

definition truncate_label :: "string \<Rightarrow> string \<Rightarrow> string" where
  "truncate_label label hash8 =
     (if length label \<le> LABEL_MAX then label
      else take (boundary_back label 55) label @ ''+'' @ hash8)"

definition kind_name :: "origin_kind \<Rightarrow> string" where
  "kind_name k = (case k of Human \<Rightarrow> ''human'' | Agent \<Rightarrow> ''agent'' | Tool \<Rightarrow> ''tool'')"

definition origin_to_string :: "origin \<Rightarrow> string" where
  "origin_to_string o' = kind_name (o_kind o') @ '':'' @ o_label o'"

definition origin_from_str :: "string \<Rightarrow> (core_error, origin) result" where
  "origin_from_str s =
     (let bad = core_error_new InvalidArgument ''bad_origin'' in
      and_then (ok_or bad (split_once (CHR '':'') s)) (\<lambda>(kind, label).
      and_then (if kind = ''human'' then Inr Human
                else if kind = ''agent'' then Inr Agent
                else if kind = ''tool'' then Inr Tool
                else Inl bad) (\<lambda>k.
      if \<not> is_valid_label label then Inl bad else Inr (Origin k label))))"

section \<open>The host\<close>

text \<open>Whether the address space can be reserved, whether a commit from one size to another is
  granted, whether a vector of a given length can grow by so many entries.\<close>

record host =
  h_map :: bool
  h_commit :: "nat \<Rightarrow> nat \<Rightarrow> bool"
  h_alloc :: "nat \<Rightarrow> nat \<Rightarrow> bool"

section \<open>Origins are ordered\<close>

text \<open>The derived \<^verbatim>\<open>Ord\<close> compares the kind, then the label byte by byte.\<close>

definition kind_rank :: "origin_kind \<Rightarrow> nat" where
  "kind_rank k = (case k of Human \<Rightarrow> 0 | Agent \<Rightarrow> 1 | Tool \<Rightarrow> 2)"

definition origin_key :: "origin \<Rightarrow> nat list" where
  "origin_key o' = kind_rank (o_kind o') # map byte (o_label o')"

section \<open>Lemmas\<close>

lemma byte_inject [simp]: "byte a = byte b \<longleftrightarrow> a = b"
  by (simp add: byte_def)

lemma origin_key_inject: "origin_key a = origin_key b \<longleftrightarrow> a = b"
proof
  assume "origin_key a = origin_key b"
  then have "kind_rank (o_kind a) = kind_rank (o_kind b)" "map byte (o_label a) = map byte (o_label b)"
    by (simp_all add: origin_key_def)
  moreover have "inj byte" by (auto intro: injI)
  ultimately have "o_kind a = o_kind b" "o_label a = o_label b"
    by (auto simp: kind_rank_def split: origin_kind.splits dest: map_injective)
  then show "a = b" by (simp add: origin.expand)
qed simp

instantiation origin :: linorder
begin

definition less_eq_origin :: "origin \<Rightarrow> origin \<Rightarrow> bool" where
  "less_eq_origin a b \<longleftrightarrow> origin_key a \<le> origin_key b"

definition less_origin :: "origin \<Rightarrow> origin \<Rightarrow> bool" where
  "less_origin a b \<longleftrightarrow> origin_key a < origin_key b"

instance
  by standard (auto simp: less_eq_origin_def less_origin_def origin_key_inject [symmetric])

end

lemma boundary_back_spec:
  "boundary s 0 \<Longrightarrow> boundary s (boundary_back s n) \<and> boundary_back s n \<le> n"
  by (induction n) (auto intro: le_SucI)

text \<open>Printing a well-formed origin and parsing it back gives the origin, and whatever
  parses prints back to the same text and has a valid label; an origin with an invalid label
  never comes out of the parser.\<close>

theorem origin_roundtrip:
  "(origin_from_str s = Inr o' \<longleftrightarrow> s = origin_to_string o' \<and> is_valid_label (o_label o'))"
proof
  assume "origin_from_str s = Inr o'"
  then show "s = origin_to_string o' \<and> is_valid_label (o_label o')"
    by (cases o') (auto simp: origin_from_str_def result_simps Let_def origin_to_string_def kind_name_def
        split_once_Some split: if_splits)
next
  assume a: "s = origin_to_string o' \<and> is_valid_label (o_label o')"
  have "split_once (CHR '':'') (kind_name (o_kind o') @ CHR '':'' # o_label o')
      = Some (kind_name (o_kind o'), o_label o')"
    by (cases "o_kind o'") (auto simp: kind_name_def split_once_Some)
  then show "origin_from_str s = Inr o'"
    using a by (cases "o_kind o'"; cases o') (simp_all add: origin_from_str_def origin_to_string_def
        Let_def kind_name_def)
qed

end
