(* ===== verification/Edit_Text.thy ===== *)
theory Edit_Text
  imports Edit_Gap Edit_Types
begin

text \<open>
  Text storage (\<^verbatim>\<open>cosmix-edit-core/src/text.rs\<close>): the gap buffer with its line index, the
  chunked reader that reassembles scalars split by the gap, positions as line and column, and
  the two-phase application of an edit sequence.  \<open>text_bytes\<close> is the abstract text,
  \<open>text_inv\<close> says that it is valid UTF-8 within the limits and that the index holds exactly the
  starts of its lines.  The lemmas show that the index stays exact under every splice, that the
  simulation of phase 1 predicts phase 2, that phase 2 cannot fail and commits no memory, and
  that line/column positions and offsets convert back and forth.
\<close>

section \<open>State\<close>

record text_store =
  t_gap :: gap_buffer
  t_starts :: "nat list"

record prepared =
  p_sequence :: "edit list"
  p_peak_len :: nat
  p_peak_lines :: nat
  p_final_len :: nat
  p_final_lines :: nat

record simulation =
  s_required_commit :: nat
  s_peak_len :: nat
  s_peak_lines :: nat
  s_final_len :: nat
  s_final_lines :: nat
  s_max_insert_lines :: nat

definition as_u32 :: "nat \<Rightarrow> nat" where
  "as_u32 n = n mod 2 ^ 32"

section \<open>Loading\<close>

fun lines_fwd_fallback :: "string \<Rightarrow> nat \<Rightarrow> nat \<Rightarrow> nat \<Rightarrow> nat \<times> nat" where
  "lines_fwd_fallback [] pos line stop = (pos, line)"
| "lines_fwd_fallback (c # cs) pos line stop =
     (if line < stop
      then if c = newline
           then if line + 1 = stop then (pos + 1, line + 1)
                else lines_fwd_fallback cs (pos + 1) (line + 1) stop
           else lines_fwd_fallback cs (pos + 1) line stop
      else (pos, line))"

definition lines_fwd :: "string \<Rightarrow> nat \<Rightarrow> nat \<Rightarrow> nat \<Rightarrow> nat \<times> nat" where
  "lines_fwd haystack offset line stop =
     (let it = min offset (length haystack) in lines_fwd_fallback (drop it haystack) it line stop)"

definition text_new :: "host \<Rightarrow> (core_error, text_store) result" where
  "text_new h =
     and_then (map_err (\<lambda>_. oom) (gap_new (h_map h) False))
       (\<lambda>g. Inr \<lparr>t_gap = g, t_starts = [0]\<rparr>)"

lemma lines_fwd_fallback_pos: "pos \<le> fst (lines_fwd_fallback cs pos line stop)"
  by (induction cs pos line stop rule: lines_fwd_fallback.induct) (auto simp: order.trans [OF le_SucI])

lemma lines_fwd_fallback_step:
  "lines_fwd_fallback cs pos 0 1 = (next, found) \<Longrightarrow> found \<noteq> 0 \<Longrightarrow> pos < next"
  using lines_fwd_fallback_pos [of "pos + 1" "tl cs" 0 1]
  by (cases cs) (auto split: if_splits)

lemma lines_fwd_step:
  "lines_fwd bytes off 0 1 = (next, found) \<Longrightarrow> found \<noteq> 0 \<Longrightarrow> off < length bytes \<Longrightarrow> off < next"
  using lines_fwd_fallback_step [of "drop off bytes" off] by (auto simp: lines_fwd_def)

text \<open>The scan for line starts that \<open>from_text\<close> and \<open>append\<close> share: \<open>already\<close> lines are indexed
  before, offsets are shifted by \<open>base\<close>.\<close>

function scan_starts ::
  "host \<Rightarrow> string \<Rightarrow> nat \<Rightarrow> nat \<Rightarrow> nat \<Rightarrow> nat list \<Rightarrow> (core_error, nat list) result" where
  "scan_starts h bytes base already off starts =
     (if off < length bytes then
        let (next, found) = lines_fwd bytes off 0 1 in
        if found = 0 then Inr starts
        else if already + length starts \<ge> MAX_LINES then Inl too_many_lines
        else if \<not> h_alloc h (length starts) 1 then Inl oom
        else scan_starts h bytes base already next (starts @ [as_u32 (base + next)])
      else Inr starts)"
  by auto
termination
  by (relation "measure (\<lambda>(h, bytes, base, already, off, starts). length bytes - off)")
    (simp, clarsimp simp del: One_nat_def, metis diff_less_mono2 lines_fwd_step neq0_conv)

declare scan_starts.simps [simp del]

definition from_text :: "host \<Rightarrow> string \<Rightarrow> (core_error, text_store) result" where
  "from_text h txt' =
     (if length txt' > MAX_BUFFER_BYTES then Inl too_large
      else and_then (scan_starts h txt' 0 0 0 [0]) (\<lambda>starts.
           and_then (text_new h) (\<lambda>t.
             case gap_replace (h_commit h) 0 0 txt' (t_gap t) of
               (Inl _, _) \<Rightarrow> Inl oom
             | (Inr _, g) \<Rightarrow> Inr (t\<lparr>t_gap := g, t_starts := starts\<rparr>))))"

definition text_len :: "text_store \<Rightarrow> nat" where
  "text_len t = g_text_length (t_gap t)"

definition text_append :: "host \<Rightarrow> string \<Rightarrow> text_store \<Rightarrow> (core_error, unit) result \<times> text_store" where
  "text_append h txt' t =
     (let base = text_len t;
          total = base + length txt'
      in if total > MAX_BUFFER_BYTES then (Inl too_large, t)
         else case scan_starts h txt' base (length (t_starts t)) 0 [] of
             Inl e \<Rightarrow> (Inl e, t)
           | Inr starts \<Rightarrow>
               if \<not> h_alloc h (length (t_starts t)) (length starts) then (Inl oom, t)
               else case gap_replace (h_commit h) base base txt' (t_gap t) of
                   (Inl _, g) \<Rightarrow> (Inl oom, t\<lparr>t_gap := g\<rparr>)
                 | (Inr _, g) \<Rightarrow> (Inr (), t\<lparr>t_gap := g, t_starts := t_starts t @ starts\<rparr>))"

section \<open>Lines and boundaries\<close>

definition line_count :: "text_store \<Rightarrow> nat" where
  "line_count t = length (t_starts t)"

definition get :: "'a list \<Rightarrow> nat \<Rightarrow> 'a option" where
  "get xs i = (if i < length xs then Some (xs ! i) else None)"

definition line_start :: "text_store \<Rightarrow> nat \<Rightarrow> nat option" where
  "line_start t line = Option.bind (checked_sub line 1) (get (t_starts t))"

definition line_end :: "text_store \<Rightarrow> nat \<Rightarrow> nat option" where
  "line_end t line =
     Option.bind (line_start t line) (\<lambda>_.
       Some (case get (t_starts t) line of Some next \<Rightarrow> next - 1 | None \<Rightarrow> text_len t))"

definition line_range :: "text_store \<Rightarrow> nat \<Rightarrow> range option" where
  "line_range t line =
     Option.bind (line_start t line) (\<lambda>s. Option.bind (line_end t line) (\<lambda>e. Some (s, e)))"

definition chunk_at :: "text_store \<Rightarrow> nat \<Rightarrow> string" where
  "chunk_at t offset = (if offset \<ge> text_len t then [] else read_forward offset (t_gap t))"

definition byte_at :: "text_store \<Rightarrow> nat \<Rightarrow> char option" where
  "byte_at t offset =
     (if offset \<ge> text_len t then None else get (read_forward offset (t_gap t)) 0)"

definition is_char_boundary :: "text_store \<Rightarrow> nat \<Rightarrow> bool" where
  "is_char_boundary t offset =
     (case byte_at t offset of
        Some b \<Rightarrow> \<not> is_continuation b
      | None \<Rightarrow> offset = text_len t)"

definition line_index_of :: "text_store \<Rightarrow> nat \<Rightarrow> nat" where
  "line_index_of t offset = partition_point (\<lambda>s. s \<le> offset) (t_starts t) - 1"

definition newlines_in :: "text_store \<Rightarrow> nat \<Rightarrow> nat \<Rightarrow> nat" where
  "newlines_in t a b =
     partition_point (\<lambda>s. s \<le> b) (t_starts t) - partition_point (\<lambda>s. s \<le> a) (t_starts t)"

definition starts_in :: "text_store \<Rightarrow> nat \<Rightarrow> nat \<Rightarrow> nat list" where
  "starts_in t a b =
     (let lo = partition_point (\<lambda>s. s \<le> a) (t_starts t);
          hi = partition_point (\<lambda>s. s \<le> b) (t_starts t)
      in slice (t_starts t) lo hi)"

section \<open>Reading whole scalars\<close>

text \<open>One round of the loop of \<open>for_each_str\<close> after the chunk \<open>rest\<close> was read.  The visitor \<open>f\<close>
  maps its state and answers whether to go on; \<open>Inl\<close> is the early return.\<close>

definition visit_tail ::
  "(string \<Rightarrow> 'a \<Rightarrow> 'a \<times> bool) \<Rightarrow> string \<Rightarrow> 'a \<Rightarrow> 'a + (string \<times> 'a)" where
  "visit_tail f rest st =
     (let n = valid_up_to rest;
          valid = take n rest;
          tail = drop n rest;
          (st, go) = (if valid \<noteq> [] then f valid st else (st, True))
      in if go then Inr (take (min (length tail) 4) tail, st) else Inl st)"

text \<open>\<^verbatim>\<open>want - carry_len\<close> wraps when the carried bytes are no prefix of a scalar, which needs a
  range that starts inside one; copying past the four carried bytes panics, the value \<open>None\<close>.\<close>

definition visit_chunk ::
  "(string \<Rightarrow> 'a \<Rightarrow> 'a \<times> bool) \<Rightarrow> string \<Rightarrow> string \<Rightarrow> 'a \<Rightarrow> ('a + (string \<times> 'a)) option" where
  "visit_chunk f carry rest st =
     (if carry \<noteq> [] then
        let want = utf8_len (hd carry);
            n = (if length carry \<le> want then min (want - length carry) (length rest) else length rest)
        in if length carry + n > 4 then None
           else
             let carry = carry @ take n rest;
                 rest = drop n rest
             in Some (if length carry < want then Inr (carry, st)
                else let (st, go) = (if from_utf8 carry then f carry st else (st, True))
                     in if go then visit_tail f rest st else Inl st)
      else Some (visit_tail f rest st))"

text \<open>The loop; \<open>None\<close> when it does not return, be it a panic or an endless loop.\<close>

partial_function (option) visit_loop ::
  "(nat \<Rightarrow> string) \<Rightarrow> nat \<Rightarrow> (string \<Rightarrow> 'a \<Rightarrow> 'a \<times> bool) \<Rightarrow> nat \<Rightarrow> string \<Rightarrow> 'a \<Rightarrow> 'a option" where
  [code]: "visit_loop rd end' f off carry st =
     (if off < end' then
        let chunk = rd off;
            rest = take (min (length chunk) (end' - off)) chunk
        in Option.bind (visit_chunk f carry rest st) (\<lambda>r. case r of
             Inl st \<Rightarrow> Some st
           | Inr (carry, st) \<Rightarrow> visit_loop rd end' f (off + length rest) carry st)
      else Some st)"

definition for_each_str ::
  "text_store \<Rightarrow> range \<Rightarrow> (string \<Rightarrow> 'a \<Rightarrow> 'a \<times> bool) \<Rightarrow> 'a \<Rightarrow> 'a option" where
  "for_each_str t r f st =
     (let end' = min (snd r) (text_len t);
          off = min (fst r) end'
      in visit_loop (\<lambda>o'. read_forward o' (t_gap t)) end' f off [] st)"

definition text_read :: "text_store \<Rightarrow> range \<Rightarrow> string \<Rightarrow> string option" where
  "text_read t r out = for_each_str t r (\<lambda>s out. (out @ s, True)) out"

definition to_string_lossless :: "text_store \<Rightarrow> string option" where
  "to_string_lossless t = text_read t (0, text_len t) []"

definition text_point :: "text_store \<Rightarrow> nat \<Rightarrow> point option" where
  "text_point t offset =
     (let offset = min offset (text_len t);
          li = line_index_of t offset;
          start = t_starts t ! li
      in map_option (\<lambda>col. \<lparr>pt_offset = offset, pt_line = li + 1, pt_col = col\<rparr>)
           (for_each_str t (start, offset) (\<lambda>s col. (col + char_count s, True)) 1))"

text \<open>The visitor of \<open>line_col_offset\<close>: \<open>remaining\<close> scalars to skip, \<open>off\<close> reached so far, over the
  \<^verbatim>\<open>char_indices\<close> of a piece.\<close>

fun col_visit :: "string list \<Rightarrow> nat \<Rightarrow> nat \<times> nat \<Rightarrow> (nat \<times> nat) \<times> bool" where
  "col_visit [] i (remaining, off) = ((remaining, off + i), 0 < remaining)"
| "col_visit (c # cs) i (remaining, off) =
     (if remaining = 0 then ((remaining, off + i), False)
      else col_visit cs (i + length c) (remaining - 1, off))"

text \<open>The outer option is the loop's return, the inner one the function's result.\<close>

definition line_col_offset :: "text_store \<Rightarrow> nat \<Rightarrow> nat \<Rightarrow> nat option option" where
  "line_col_offset t line col =
     (case (line_start t line, line_end t line) of
        (Some start, Some end') \<Rightarrow>
          if col = 0 then Some None
          else if col - 1 = 0 then Some (Some start)
          else map_option (\<lambda>(remaining, off). if remaining = 0 then Some off else None)
                 (for_each_str t (start, end') (\<lambda>s. col_visit (scalars s) 0) (col - 1, start))
      | _ \<Rightarrow> Some None)"

text \<open>\<^verbatim>\<open>contiguous\<close>: the gap moves to the end, the whole text is one chunk.\<close>

definition contiguous_text :: "host \<Rightarrow> text_store \<Rightarrow> string \<times> text_store" where
  "contiguous_text h t =
     (let g = snd (allocate_gap (h_commit h) (text_len t) 0 0 (t_gap t));
          bytes = read_forward 0 g
      in (if from_utf8 bytes then bytes else [], t\<lparr>t_gap := g\<rparr>))"

section \<open>Two-phase application\<close>

definition sim_step ::
  "text_store \<Rightarrow> nat \<times> nat \<times> nat \<times> simulation \<Rightarrow> edit \<Rightarrow> (core_error, nat \<times> nat \<times> nat \<times> simulation) result" where
  "sim_step t st e =
     (case st of (prev_offset, len, lines, sim) \<Rightarrow>
        and_then (ok_or overflow (checked_add (e_offset e) (e_delete e))) (\<lambda>end'.
        if end' > prev_offset \<or> end' > text_len t then Inl internal
        else if \<not> is_char_boundary t (e_offset e) \<or> \<not> is_char_boundary t end' then Inl internal
        else
        and_then (ok_or overflow (checked_sub len (e_delete e))) (\<lambda>after_delete.
        and_then (if e_insert e = [] then Inr sim
                  else and_then (ok_or overflow (commit_needed after_delete (length (e_insert e))))
                         (\<lambda>need. Inr (sim\<lparr>s_required_commit := max (s_required_commit sim) need\<rparr>))) (\<lambda>sim.
        and_then (ok_or overflow (checked_add after_delete (length (e_insert e)))) (\<lambda>len.
        let ins_lines = count_newlines (e_insert e);
            sim = sim\<lparr>s_max_insert_lines := max (s_max_insert_lines sim) ins_lines\<rparr> in
        and_then (ok_or overflow (Option.bind (checked_sub lines (newlines_in t (e_offset e) end'))
                                    (\<lambda>l. checked_add l ins_lines))) (\<lambda>lines.
        Inr (e_offset e, len, lines,
             sim\<lparr>s_peak_len := max (s_peak_len sim) len,
                 s_peak_lines := max (s_peak_lines sim) lines\<rparr>)))))))"

definition simulate :: "text_store \<Rightarrow> edit list \<Rightarrow> (core_error, simulation) result" where
  "simulate t sequence =
     (let len = text_len t;
          lines = line_count t;
          sim = \<lparr>s_required_commit = 0, s_peak_len = len, s_peak_lines = lines,
                 s_final_len = len, s_final_lines = lines, s_max_insert_lines = 0\<rparr>
      in and_then (try_fold (sim_step t) (u64_max, len, lines, sim) sequence) (\<lambda>(_, len, lines, sim).
         let sim = sim\<lparr>s_final_len := len, s_final_lines := lines\<rparr>
         in if s_peak_len sim > MAX_BUFFER_BYTES then Inl too_large
            else if s_peak_lines sim > MAX_LINES then Inl too_many_lines
            else Inr sim))"

definition text_prepare ::
  "host \<Rightarrow> edit list \<Rightarrow> text_store \<Rightarrow> (core_error, prepared) result \<times> text_store" where
  "text_prepare h sequence t =
     (case simulate t sequence of
        Inl e \<Rightarrow> (Inl e, t)
      | Inr sim \<Rightarrow>
          (case ensure_commit (h_commit h) (s_required_commit sim) (t_gap t) of
             (Inl _, g) \<Rightarrow> (Inl oom, t\<lparr>t_gap := g\<rparr>)
           | (Inr _, g) \<Rightarrow>
               let t = t\<lparr>t_gap := g\<rparr>
               in if \<not> h_alloc h (length (t_starts t)) (s_peak_lines sim - length (t_starts t)) then (Inl oom, t)
                  else if \<not> h_alloc h 0 (s_max_insert_lines sim) then (Inl oom, t)
                  else (Inr \<lparr>p_sequence = sequence, p_peak_len = s_peak_len sim,
                             p_peak_lines = s_peak_lines sim, p_final_len = s_final_len sim,
                             p_final_lines = s_final_lines sim\<rparr>, t)))"

fun insert_starts :: "nat \<Rightarrow> string \<Rightarrow> nat list" where
  "insert_starts pos [] = []"
| "insert_starts pos (b # bs) =
     (if b = newline then as_u32 (pos + 1) # insert_starts (pos + 1) bs else insert_starts (pos + 1) bs)"

definition splice_lines :: "nat \<Rightarrow> nat \<Rightarrow> string \<Rightarrow> nat list \<Rightarrow> nat list" where
  "splice_lines offset end' ins starts =
     (let scratch = insert_starts offset ins;
          lo = partition_point (\<lambda>s. s \<le> offset) starts;
          hi = partition_point (\<lambda>s. s \<le> end') starts;
          old_len = length starts;
          removed = hi - lo;
          added = length scratch;
          new_len = old_len - removed + added;
          moved = (if added > removed
                   then mem_move (starts @ replicate (new_len - old_len) 0) hi (lo + added) (old_len - hi)
                   else take new_len (mem_move starts hi (lo + added) (old_len - hi)));
          copied = take lo moved @ scratch @ drop (lo + added) moved;
          delete = end' - offset
      in take (lo + added) copied
         @ map (\<lambda>s. as_u32 (s - delete + length ins)) (drop (lo + added) copied))"

text \<open>\<open>None\<close> is the panic of the assertion.\<close>

fun commit_edits :: "host \<Rightarrow> edit list \<Rightarrow> text_store \<Rightarrow> text_store option" where
  "commit_edits h [] t = Some t"
| "commit_edits h (e # es) t =
     (let end' = e_offset e + e_delete e
      in case gap_replace (h_commit h) (e_offset e) end' (e_insert e) (t_gap t) of
           (Inl _, _) \<Rightarrow> None
         | (Inr _, g) \<Rightarrow>
             commit_edits h es
               (t\<lparr>t_gap := g, t_starts := splice_lines (e_offset e) end' (e_insert e) (t_starts t)\<rparr>))"

definition text_commit :: "host \<Rightarrow> prepared \<Rightarrow> text_store \<Rightarrow> text_store option" where
  "text_commit h p t = commit_edits h (p_sequence p) t"

section \<open>Abstract text and invariant\<close>

definition text_bytes :: "text_store \<Rightarrow> string" where
  "text_bytes t = gap_text (t_gap t)"

fun starts_from :: "nat \<Rightarrow> string \<Rightarrow> nat list" where
  "starts_from pos [] = []"
| "starts_from pos (b # bs) =
     (if b = newline then (pos + 1) # starts_from (pos + 1) bs else starts_from (pos + 1) bs)"

definition line_starts :: "string \<Rightarrow> nat list" where
  "line_starts s = 0 # starts_from 0 s"

definition text_inv :: "text_store \<Rightarrow> bool" where
  "text_inv t \<longleftrightarrow> store_inv (t_gap t) \<and> from_utf8 (text_bytes t)
     \<and> length (text_bytes t) \<le> MAX_BUFFER_BYTES
     \<and> t_starts t = line_starts (text_bytes t) \<and> length (t_starts t) \<le> MAX_LINES"

section \<open>Line starts\<close>

lemma starts_from_append:
  "starts_from pos (a @ b) = starts_from pos a @ starts_from (pos + length a) b"
  by (induction a arbitrary: pos) auto

lemma starts_from_bounds: "x \<in> set (starts_from pos s) \<Longrightarrow> pos < x \<and> x \<le> pos + length s"
  by (induction s arbitrary: pos) (fastforce split: if_splits)+

lemma starts_from_shift: "starts_from (pos + n) s = map (\<lambda>x. x + n) (starts_from pos s)"
  by (induction s arbitrary: pos) (auto simp flip: add_Suc)

lemma length_starts_from: "length (starts_from pos s) = count_newlines s"
  by (induction s arbitrary: pos) (auto simp: count_newlines_def)

lemma length_line_starts: "length (line_starts s) = Suc (count_newlines s)"
  by (simp add: line_starts_def length_starts_from)

lemma count_newlines_append [simp]: "count_newlines (a @ b) = count_newlines a + count_newlines b"
  by (simp add: count_newlines_def)

lemma insert_starts_eq: "pos + length s < 2 ^ 32 \<Longrightarrow> insert_starts pos s = starts_from pos s"
  by (induction s arbitrary: pos) (auto simp: as_u32_def)

lemma sorted_starts_from: "sorted_wrt (<) (starts_from pos s)"
  by (induction s arbitrary: pos) (auto dest: starts_from_bounds)

lemma line_starts_append:
  "line_starts (a @ b) = line_starts a @ starts_from (length a) b"
  by (simp add: line_starts_def starts_from_append)

lemma partition_point_append:
  assumes "\<And>x. x \<in> set xs \<Longrightarrow> P x" and "\<And>y. y \<in> set ys \<Longrightarrow> \<not> P y"
  shows "partition_point P (xs @ ys) = length xs"
proof -
  have "takeWhile P xs = xs" using assms(1) by simp
  moreover have "takeWhile P ys = []" using assms(2) by (cases ys) auto
  ultimately show ?thesis using assms(1) by (simp add: partition_point_def takeWhile_append2)
qed

lemma line_starts_point:
  "partition_point (\<lambda>s. s \<le> length a) (line_starts (a @ b)) = Suc (count_newlines a)"
proof -
  have "partition_point (\<lambda>s. s \<le> length a) (line_starts a @ starts_from (length a) b) = length (line_starts a)"
    by (rule partition_point_append) (auto simp: line_starts_def dest: starts_from_bounds)
  then show ?thesis by (simp add: line_starts_append length_line_starts)
qed

lemma line_starts_point_take:
  "off \<le> length s \<Longrightarrow> partition_point (\<lambda>x. x \<le> off) (line_starts s) = Suc (count_newlines (take off s))"
  using line_starts_point [of "take off s" "drop off s"] by simp

text \<open>The in-place splice of the index is the splice of the line starts.\<close>

lemma splice_lines_list:
  assumes "partition_point (\<lambda>s. s \<le> off) (P @ Q @ S) = length P"
    and "partition_point (\<lambda>s. s \<le> end') (P @ Q @ S) = length P + length Q"
  shows "splice_lines off end' ins (P @ Q @ S) =
    P @ insert_starts off ins @ map (\<lambda>s. as_u32 (s - (end' - off) + length ins)) S"
proof -
  define A a where "A = insert_starts off ins" and "a = length A"
  define moved where "moved = (if a > length Q
      then mem_move ((P @ Q @ S) @ replicate (length P + a + length S - length (P @ Q @ S)) 0)
             (length P + length Q) (length P + a) (length S)
      else take (length P + a + length S) (mem_move (P @ Q @ S) (length P + length Q) (length P + a) (length S)))"
  have "\<exists>W. moved = W @ S \<and> length W = length P + a \<and> take (length P) W = P"
  proof (cases "a > length Q")
    case True
    then show ?thesis
      by (intro exI [of _ "take (length P + a) (P @ Q @ S @ replicate (a - length Q) 0)"])
        (simp add: moved_def mem_move_def slice_def)
  next
    case False
    then show ?thesis
      by (intro exI [of _ "take (length P + a) (P @ Q @ S)"]) (simp add: moved_def mem_move_def slice_def)
  qed
  then obtain W where W: "moved = W @ S" "length W = length P + a" "take (length P) W = P" by blast
  have "splice_lines off end' ins (P @ Q @ S) =
      (let copied = take (length P) moved @ A @ drop (length P + a) moved
       in take (length P + a) copied @ map (\<lambda>s. as_u32 (s - (end' - off) + length ins)) (drop (length P + a) copied))"
  proof -
    have n: "length (P @ Q @ S) - length Q + a = length P + a + length S"
      "length (P @ Q @ S) - (length P + length Q) = length S" "length P + length Q - length P = length Q"
      by simp_all
    show ?thesis
      unfolding splice_lines_def Let_def assms A_def [symmetric] a_def [symmetric] n moved_def ..
  qed
  then show ?thesis using W by (simp add: a_def A_def)
qed

lemma splice_line_starts:
  assumes "off \<le> end'" and "end' \<le> length s" and "length (take off s @ ins @ drop end' s) < 2 ^ 32"
  shows "splice_lines off end' ins (line_starts s) = line_starts (take off s @ ins @ drop end' s)"
proof -
  define A D B where "A = take off s" and "D = slice s off end'" and "B = drop end' s"
  have s: "s = A @ D @ B" and len: "length A = off" "length D = end' - off"
    using assms(1,2) slice_then_drop [OF assms(1), of s] by (auto simp: A_def D_def B_def slice_simps)
  define P Q S where "P = line_starts A" and "Q = starts_from off D" and "S = starts_from end' B"
  have starts: "line_starts s = P @ Q @ S"
    using assms(1) by (simp add: s P_def Q_def S_def line_starts_append starts_from_append len)
  have "partition_point (\<lambda>x. x \<le> off) (P @ Q @ S) = length P"
    unfolding starts [symmetric] s using line_starts_point [of A "D @ B"] by (simp add: len P_def length_line_starts)
  moreover have "partition_point (\<lambda>x. x \<le> end') (P @ Q @ S) = length P + length Q"
    unfolding starts [symmetric] s using line_starts_point [of "A @ D" B] assms(1)
    by (simp add: len P_def Q_def length_line_starts length_starts_from)
  moreover have "insert_starts off ins = starts_from off ins"
    using assms by (intro insert_starts_eq) simp
  moreover have "map (\<lambda>x. as_u32 (x - (end' - off) + length ins)) S = starts_from (off + length ins) B"
  proof -
    have "S = map (\<lambda>x. x + end') (starts_from 0 B)"
      using starts_from_shift [of 0 end' B] by (simp add: S_def)
    moreover have "starts_from (off + length ins) B = map (\<lambda>x. x + (off + length ins)) (starts_from 0 B)"
      using starts_from_shift [of 0 "off + length ins" B] by simp
    moreover have "as_u32 (x + end' - (end' - off) + length ins) = x + (off + length ins)"
      if "x \<in> set (starts_from 0 B)" for x
      using starts_from_bounds [OF that] assms by (auto simp: as_u32_def B_def)
    ultimately show ?thesis by simp
  qed
  ultimately have "splice_lines off end' ins (P @ Q @ S) = P @ starts_from off ins @ starts_from (off + length ins) B"
    by (simp add: splice_lines_list)
  then show ?thesis
    by (simp add: starts line_starts_append starts_from_append len P_def A_def [symmetric] B_def [symmetric])
qed

section \<open>The accessors on a well-formed text\<close>

lemma text_invD:
  assumes "text_inv t"
  shows "store_inv (t_gap t)" "gap_inv (t_gap t)" "from_utf8 (text_bytes t)"
    "length (text_bytes t) \<le> MAX_BUFFER_BYTES" "t_starts t = line_starts (text_bytes t)"
    "text_len t = length (text_bytes t)" "line_count t = Suc (count_newlines (text_bytes t))"
    "Suc (count_newlines (text_bytes t)) \<le> MAX_LINES"
  using assms
  by (auto simp: text_inv_def store_inv_def text_len_def text_bytes_def length_gap_text line_count_def
      length_line_starts)

lemma is_char_boundary_iff:
  assumes "text_inv t"
  shows "is_char_boundary t off \<longleftrightarrow> boundary (text_bytes t) off"
proof -
  have g: "store_inv (t_gap t)" and l: "text_len t = length (text_bytes t)"
    using text_invD [OF assms] by simp_all
  have "get (read_forward off (t_gap t)) 0 = Some (text_bytes t ! off)" if "off < length (text_bytes t)"
    using gap.first_byte [OF g] gap.read_progress [OF g] that
    by (simp add: get_def text_bytes_def hd_conv_nth)
  then show ?thesis by (simp add: is_char_boundary_def byte_at_def l boundary_def)
qed

lemma count_newlines_slice:
  "a \<le> b \<Longrightarrow> count_newlines (take b s) = count_newlines (take a s) + count_newlines (slice s a b)"
  by (simp flip: take_then_slice [of a b s])

lemma newlines_in_eq:
  assumes "text_inv t" and "a \<le> b" and "b \<le> length (text_bytes t)"
  shows "newlines_in t a b = count_newlines (slice (text_bytes t) a b)"
proof -
  have "t_starts t = line_starts (text_bytes t)" using assms(1) by (rule text_invD)
  then show ?thesis
    using assms(2,3) by (simp add: newlines_in_def line_starts_point_take count_newlines_slice)
qed

section \<open>The chunked reader\<close>

text \<open>What the visitor sees: the pieces in order until it stops.\<close>

fun feed :: "(string \<Rightarrow> 'a \<Rightarrow> 'a \<times> bool) \<Rightarrow> string list \<Rightarrow> 'a \<Rightarrow> 'a \<times> bool" where
  "feed f [] st = (st, True)"
| "feed f (p # ps) st = (case f p st of (st', go) \<Rightarrow> if go then feed f ps st' else (st', False))"

lemma feed_append:
  "feed f (ps @ qs) st = (case feed f ps st of (st', go) \<Rightarrow> if go then feed f qs st' else (st', False))"
  by (induction ps arbitrary: st) (auto split: prod.splits)

text \<open>\<open>carry\<close> is the beginning of a scalar that the bytes \<open>r\<close> to come complete.\<close>

definition pending :: "string \<Rightarrow> string \<Rightarrow> bool" where
  "pending carry r \<longleftrightarrow> (if carry = [] then from_utf8 r
     else \<exists>q r'. q \<noteq> [] \<and> utf8_char (carry @ q) \<and> r = q @ r' \<and> from_utf8 r')"

definition pieces :: "string list \<Rightarrow> bool" where
  "pieces ps \<longleftrightarrow> list_all (\<lambda>p. p \<noteq> [] \<and> from_utf8 p) ps"

lemma pieces_simps [simp]:
  "pieces []" "pieces (p # ps) \<longleftrightarrow> p \<noteq> [] \<and> from_utf8 p \<and> pieces ps"
  "pieces (ps @ qs) \<longleftrightarrow> pieces ps \<and> pieces qs"
  by (simp_all add: pieces_def)

definition outcome :: "string \<Rightarrow> 'a \<times> bool \<Rightarrow> 'a + (string \<times> 'a)" where
  "outcome carry r = (if snd r then Inr (carry, fst r) else Inl (fst r))"

lemma visit_tail_feed:
  assumes "from_utf8 (rest @ r)"
  shows "\<exists>ps carry. concat ps @ carry = rest \<and> pieces ps \<and> pending carry r
    \<and> visit_tail f rest st = outcome carry (feed f ps st)"
proof -
  obtain cs p q r' where cut: "rest = concat cs @ p" "list_all utf8_char cs" "r = q @ r'" "from_utf8 r'"
    "p = [] \<and> q = [] \<or> p \<noteq> [] \<and> q \<noteq> [] \<and> utf8_char (p @ q)"
    using assms by (rule cut_scalars)
  have "scalars p = []" using cut(5) scalars_partial by fastforce
  then have n: "valid_up_to rest = length (concat cs)"
    using cut(1,2) by (simp add: valid_up_to_def)
  have p: "length p \<le> 4" using cut(5) utf8_char_length [of "p @ q"] by auto
  have "from_utf8 (concat cs)" using cut(2) by (auto simp: from_utf8_iff)
  moreover have "pending p r" using cut(3-5) by (auto simp: pending_def)
  moreover have "visit_tail f rest st = outcome p (feed f (if concat cs = [] then [] else [concat cs]) st)"
    using n cut(1) p by (simp add: visit_tail_def outcome_def split_beta)
  ultimately show ?thesis using cut(1)
    by (intro exI [of _ "if concat cs = [] then [] else [concat cs]"] exI [of _ p])
      (auto simp del: concat_eq_Nil_conv)
qed

lemma visit_chunk_feed:
  assumes "pending carry (rest @ r)"
  shows "\<exists>ps carry'. concat ps @ carry' = carry @ rest \<and> pieces ps \<and> pending carry' r
    \<and> visit_chunk f carry rest st = Some (outcome carry' (feed f ps st))"
proof (cases "carry = []")
  case True
  then show ?thesis using visit_tail_feed [of rest r f st] assms by (simp add: visit_chunk_def pending_def)
next
  case False
  then obtain q r' where q: "q \<noteq> []" "utf8_char (carry @ q)" "rest @ r = q @ r'" "from_utf8 r'"
    using assms by (auto simp: pending_def)
  have want: "utf8_len (hd carry) = length carry + length q" "length carry + length q \<le> 4"
    using utf8_char_hd [OF q(2)] False utf8_len_lead [of "hd carry"] utf8_char_length [OF q(2)] by simp_all
  show ?thesis
  proof (cases "length rest < length q")
    case True
    then obtain q' where "q = rest @ q'" "r = q' @ r'" "q' \<noteq> []"
      using q(3) by (auto simp: append_eq_append_conv2)
    then have "pending (carry @ rest) r" using q False by (auto simp: pending_def)
    moreover have "visit_chunk f carry rest st = Some (outcome (carry @ rest) (feed f [] st))"
      using True False want by (simp add: visit_chunk_def outcome_def Let_def)
    ultimately show ?thesis by (intro exI [of _ "[]"] exI [of _ "carry @ rest"]) simp
  next
    case enough: False
    then obtain rest' where rest': "rest = q @ rest'" "rest' @ r = r'"
      using q(3) by (auto simp: append_eq_append_conv2)
    have valid: "from_utf8 (carry @ q)" by (rule from_utf8_char) (rule q(2))
    have chunk: "visit_chunk f carry rest st =
        Some (let (st, go) = f (carry @ q) st in if go then visit_tail f rest' st else Inl st)"
      using False want rest' valid by (auto simp: visit_chunk_def Let_def split: prod.splits)
    obtain st' go where f: "f (carry @ q) st = (st', go)" by fastforce
    obtain qs d where qs: "concat qs @ d = rest'" "pieces qs" "pending d r"
      "visit_tail f rest' st' = outcome d (feed f qs st')"
      using visit_tail_feed [of rest' r f st'] rest' q(4) by auto
    have "visit_chunk f carry rest st = Some (outcome d (feed f ((carry @ q) # qs) st))"
      using chunk f qs(4) by (simp add: outcome_def)
    then show ?thesis
      using qs rest' valid False by (intro exI [of _ "(carry @ q) # qs"] exI [of _ d]) simp
  qed
qed

context byte_store
begin

lemma visit_loop_feed:
  assumes "invar s" and "end' \<le> length (content s)"
  shows "off \<le> end' \<Longrightarrow> pending carry (slice (content s) off end') \<Longrightarrow>
    \<exists>ps. concat ps = carry @ slice (content s) off end' \<and> pieces ps
      \<and> visit_loop (\<lambda>o'. read_at o' s) end' f off carry st = Some (fst (feed f ps st))"
proof (induction "end' - off" arbitrary: off carry st rule: less_induct)
  case less
  show ?case
  proof (cases "off < end'")
    case False
    then have "carry = []" using less.prems by (auto simp: pending_def slice_def split: if_splits)
    then show ?thesis using False by (intro exI [of _ "[]"]) (simp add: visit_loop.simps slice_def)
  next
    case True
    define rest where "rest = take (min (length (read_at off s)) (end' - off)) (read_at off s)"
    have "rest \<noteq> []" using read_progress [OF assms(1), of off] True assms(2) by (auto simp: rest_def)
    have len: "length rest \<le> end' - off" by (simp add: rest_def)
    have rest: "rest = slice (content s) off (off + length rest)"
    proof -
      obtain z where "drop off (content s) = read_at off s @ z" using read_prefix [OF assms(1)] by blast
      then show ?thesis by (simp add: rest_def slice_def)
    qed
    have slice: "slice (content s) off end' = rest @ slice (content s) (off + length rest) end'"
      using slice_adjacent [of off "off + length rest" end' "content s"] len True rest by simp
    obtain ps c where ps: "concat ps @ c = carry @ rest" "pieces ps"
      "pending c (slice (content s) (off + length rest) end')"
      "visit_chunk f carry rest st = Some (outcome c (feed f ps st))"
      using visit_chunk_feed [of carry rest _ f st] less.prems(2) unfolding slice by blast
    obtain qs where qs: "concat qs = c @ slice (content s) (off + length rest) end'" "pieces qs"
      "visit_loop (\<lambda>o'. read_at o' s) end' f (off + length rest) c (fst (feed f ps st))
         = Some (fst (feed f qs (fst (feed f ps st))))"
    proof -
      have "0 < length rest" using \<open>rest \<noteq> []\<close> by simp
      then have "end' - (off + length rest) < end' - off" "off + length rest \<le> end'"
        using len True by linarith+
      then show thesis using less.hyps [of "off + length rest" c "fst (feed f ps st)"] ps(3) that by blast
    qed
    have "visit_loop (\<lambda>o'. read_at o' s) end' f off carry st = Some (fst (feed f (ps @ qs) st))"
      using True ps(4) qs(3) unfolding feed_append
      by (subst visit_loop.simps) (simp add: Let_def rest_def [symmetric] outcome_def split_beta del: length_take)
    then show ?thesis using ps(1,2) qs(1,2) unfolding slice by (intro exI [of _ "ps @ qs"]) simp
  qed
qed

end

lemma for_each_str_feed:
  assumes "text_inv t" and "boundary (text_bytes t) a" and "boundary (text_bytes t) b" and "a \<le> b"
  shows "\<exists>ps. concat ps = slice (text_bytes t) a b \<and> pieces ps
    \<and> for_each_str t (a, b) f st = Some (fst (feed f ps st))"
proof -
  note inv = text_invD [OF assms(1)]
  have b: "b \<le> length (gap_text (t_gap t))"
    using boundary_le [OF assms(3)] by (simp add: text_bytes_def)
  have "pending [] (slice (gap_text (t_gap t)) a b)"
    using slice_from_utf8 [OF inv(3) assms(2-4)] by (simp add: pending_def text_bytes_def)
  from gap.visit_loop_feed [OF inv(1) b assms(4) this, of f st] show ?thesis
    using b assms(4) inv(6) by (simp add: for_each_str_def text_bytes_def)
qed

lemma feed_push: "feed (\<lambda>s out. (out @ s, True)) ps out = (out @ concat ps, True)"
  by (induction ps arbitrary: out) auto

lemma text_read_slice:
  assumes "text_inv t" and "boundary (text_bytes t) a" and "boundary (text_bytes t) b" and "a \<le> b"
  shows "text_read t (a, b) out = Some (out @ slice (text_bytes t) a b)"
  using for_each_str_feed [OF assms, of "\<lambda>s out. (out @ s, True)" out]
  by (auto simp: text_read_def feed_push)

lemma boundary_zero: "from_utf8 t \<Longrightarrow> boundary t 0"
  using split_boundary [of t "[]"] by simp

lemma to_string_lossless_eq:
  assumes "text_inv t"
  shows "to_string_lossless t = Some (text_bytes t)"
proof -
  note inv = text_invD [OF assms]
  show ?thesis
    using text_read_slice [OF assms boundary_zero [OF inv(3)] boundary_ends(1)]
    by (simp add: to_string_lossless_def inv(6) slice_def)
qed

subsection \<open>Lines and columns\<close>

lemma feed_count:
  "pieces ps \<Longrightarrow> feed (\<lambda>s col. (col + char_count s, True)) ps n = (n + char_count (concat ps), True)"
  by (induction ps arbitrary: n) (auto simp: char_count_append, simp add: char_count_def)

lemma scalars_append: "from_utf8 a \<Longrightarrow> scalars (a @ b) = scalars a @ scalars b"
  by (erule from_utf8E) simp

lemma col_visit_eq:
  "col_visit cs i (n, off) =
     (if n < length cs then ((0, off + i + length (concat (take n cs))), False)
      else ((n - length cs, off + i + length (concat cs)), length cs < n))"
  by (induction cs arbitrary: i n) (auto simp: take_Cons')

lemma concat_scalars: "from_utf8 s \<Longrightarrow> concat (scalars s) = s"
  by (erule from_utf8E) simp

lemma feed_col:
  assumes "pieces ps" and "0 < n"
  shows "fst (feed (\<lambda>s. col_visit (scalars s) 0) ps (n, off)) =
    (let cs = scalars (concat ps)
     in if n \<le> length cs then (0, off + length (concat (take n cs)))
        else (n - length cs, off + length (concat cs)))"
  using assms
proof (induction ps arbitrary: n off)
  case Nil
  then show ?case by simp
next
  case (Cons p ps)
  have p: "from_utf8 p" "concat (scalars p) = p" using Cons.prems concat_scalars by simp_all
  show ?case
  proof (cases "n \<le> length (scalars p)")
    case True
    then show ?thesis using Cons.prems p by (auto simp: col_visit_eq scalars_append)
  next
    case False
    then have "fst (feed (\<lambda>s. col_visit (scalars s) 0) (p # ps) (n, off)) =
        fst (feed (\<lambda>s. col_visit (scalars s) 0) ps (n - length (scalars p), off + length p))"
      using p by (simp add: col_visit_eq)
    also have "\<dots> = (let cs = scalars (concat (p # ps))
     in if n \<le> length cs then (0, off + length (concat (take n cs)))
        else (n - length cs, off + length (concat cs)))"
      using Cons.IH [of "n - length (scalars p)" "off + length p"] Cons.prems False p
      by (auto simp: Let_def scalars_append)
    finally show ?thesis .
  qed
qed

lemma starts_from_newline: "x \<in> set (starts_from pos s) \<Longrightarrow> pos < x \<and> s ! (x - Suc pos) = newline"
proof (induction s arbitrary: pos)
  case (Cons b bs)
  show ?case
  proof (cases "x = Suc pos")
    case True
    then have "b = newline" using Cons.prems starts_from_bounds [of x "Suc pos" bs] by (auto split: if_splits)
    then show ?thesis using True by simp
  next
    case False
    then have "x \<in> set (starts_from (Suc pos) bs)" using Cons.prems by (auto split: if_splits)
    then have *: "Suc pos < x \<and> bs ! (x - Suc (Suc pos)) = newline" using Cons.IH by simp
    then have "x - Suc pos = Suc (x - Suc (Suc pos))" by linarith
    then show ?thesis using * by simp
  qed
qed simp

lemma newline_char: "utf8_char [newline]" "\<not> is_continuation newline"
  by (simp_all add: utf8_char_def lead_len_def newline_def byte_def is_continuation_def)

lemma newline_boundary:
  assumes "from_utf8 s" and "i < length s" and "s ! i = newline"
  shows "boundary s i" and "boundary s (Suc i)"
proof -
  show b: "boundary s i" using assms newline_char by (simp add: boundary_def)
  have "from_utf8 (newline # drop (Suc i) s)"
    using boundary_split [OF assms(1) b] assms(2,3) by (simp add: Cons_nth_drop_Suc [symmetric])
  then have "from_utf8 (drop (Suc i) s)"
    using from_utf8_append_iff [OF from_utf8_char [OF newline_char(1)], of "drop (Suc i) s"] by simp
  then show "boundary s (Suc i)"
    using split_boundary [of "drop (Suc i) s" "take (Suc i) s"] assms(2) by (simp add: min_absorb2)
qed

lemma line_starts_boundary:
  assumes "from_utf8 s" and "x \<in> set (line_starts s)"
  shows "boundary s x" and "0 < x \<Longrightarrow> boundary s (x - 1)"
proof -
  have "x \<noteq> 0 \<Longrightarrow> s ! (x - 1) = newline \<and> x - 1 < length s"
    using assms(2) starts_from_newline [of x 0 s] starts_from_bounds [of x 0 s] by (auto simp: line_starts_def)
  then show "boundary s x" "0 < x \<Longrightarrow> boundary s (x - 1)"
    using newline_boundary [OF assms(1), of "x - 1"] boundary_zero [OF assms(1)] by (cases x; simp)+
qed

lemma line_bounds:
  assumes "text_inv t" and "off \<le> length (text_bytes t)"
  defines "li \<equiv> line_index_of t off"
  obtains s e where "line_start t (Suc li) = Some s" and "line_end t (Suc li) = Some e"
    and "t_starts t ! li = s" and "s \<le> off" and "off \<le> e" and "boundary (text_bytes t) s"
    and "boundary (text_bytes t) e" and "li < line_count t"
proof -
  note inv = text_invD [OF assms(1)]
  define A B where "A = take off (text_bytes t)" and "B = drop off (text_bytes t)"
  have T: "text_bytes t = A @ B" "length A = off" using assms(2) by (simp_all add: A_def B_def)
  have li: "li = count_newlines A"
    using line_starts_point_take [OF assms(2)] by (simp add: li_def line_index_of_def inv(5) A_def)
  have starts: "t_starts t = line_starts A @ starts_from off B"
    by (simp add: inv(5) T line_starts_append)
  have lt: "li < length (line_starts A)" by (simp add: li length_line_starts)
  define s where "s = t_starts t ! li"
  have "s \<in> set (line_starts A)" using lt by (simp add: s_def starts nth_append)
  then have s_le: "s \<le> off" using starts_from_bounds [of s 0 A] T(2) by (auto simp: line_starts_def)
  have mem: "x \<in> set (t_starts t) \<Longrightarrow> boundary (text_bytes t) x \<and> (0 < x \<longrightarrow> boundary (text_bytes t) (x - 1))" for x
    using line_starts_boundary [OF inv(3), of x] by (simp add: inv(5))
  have len: "li < length (t_starts t)" using lt starts by simp
  have ls: "line_start t (Suc li) = Some s"
    using len by (simp add: line_start_def checked_sub_def get_def s_def)
  obtain e where e: "line_end t (Suc li) = Some e" "off \<le> e" "boundary (text_bytes t) e"
  proof (cases "Suc li < length (t_starts t)")
    case True
    define x where "x = t_starts t ! Suc li"
    have "x \<in> set (starts_from off B)"
      using True by (auto simp: x_def starts nth_append length_line_starts li)
    then have "off < x" using starts_from_bounds by blast
    moreover have "x \<in> set (t_starts t)" using True by (simp add: x_def)
    ultimately show thesis
      using True mem [of x] ls by (intro that [of "x - 1"]) (simp_all add: line_end_def get_def x_def)
  next
    case False
    then show thesis using ls assms(2) inv(6) by (intro that [of "text_len t"]) (simp_all add: line_end_def get_def)
  qed
  show thesis
    by (rule that [OF ls e(1)]) (use s_le e mem len in \<open>simp_all add: s_def line_count_def\<close>)
qed

text \<open>A column counts the scalars from the start of the line.\<close>

lemma text_point_eq:
  assumes "text_inv t" and "boundary (text_bytes t) off"
  obtains s e where "line_start t (Suc (line_index_of t off)) = Some s"
    and "line_end t (Suc (line_index_of t off)) = Some e" and "s \<le> off" and "off \<le> e"
    and "boundary (text_bytes t) s" and "boundary (text_bytes t) e"
    and "text_point t off = Some \<lparr>pt_offset = off, pt_line = Suc (line_index_of t off),
      pt_col = 1 + char_count (slice (text_bytes t) s off)\<rparr>"
proof -
  have le: "off \<le> length (text_bytes t)" using assms(2) by (rule boundary_le)
  note len = text_invD(6) [OF assms(1)]
  obtain s e where se: "line_start t (Suc (line_index_of t off)) = Some s"
    "line_end t (Suc (line_index_of t off)) = Some e" "t_starts t ! line_index_of t off = s"
    "s \<le> off" "off \<le> e" "boundary (text_bytes t) s" "boundary (text_bytes t) e"
    using line_bounds [OF assms(1) le] .
  obtain ps where ps: "concat ps = slice (text_bytes t) s off" "pieces ps"
    "for_each_str t (s, off) (\<lambda>s col. (col + char_count s, True)) 1
       = Some (fst (feed (\<lambda>s col. (col + char_count s, True)) ps 1))"
    using for_each_str_feed [OF assms(1) se(6) assms(2) se(4),
        where f = "\<lambda>s col. (col + char_count s, True)" and st = 1] by blast
  have m: "min off (text_len t) = off" using le len by simp
  have "text_point t off = Some \<lparr>pt_offset = off, pt_line = Suc (line_index_of t off),
      pt_col = 1 + char_count (slice (text_bytes t) s off)\<rparr>"
    unfolding text_point_def Let_def m se(3) ps(3) feed_count [OF ps(2)] ps(1) by simp
  then show thesis using that se by blast
qed

lemma line_col_offset_eq:
  assumes "text_inv t" and "line_start t line = Some s" and "line_end t line = Some e"
    and "boundary (text_bytes t) s" and "boundary (text_bytes t) e" and "s \<le> e" and "0 < col"
  shows "line_col_offset t line col = Some
    (let cs = scalars (slice (text_bytes t) s e)
     in if col - 1 \<le> length cs then Some (s + length (concat (take (col - 1) cs))) else None)"
proof (cases "col = 1")
  case True
  then show ?thesis using assms by (simp add: line_col_offset_def)
next
  case False
  obtain ps where ps: "concat ps = slice (text_bytes t) s e" "pieces ps"
    "for_each_str t (s, e) (\<lambda>s. col_visit (scalars s) 0) (col - 1, s)
       = Some (fst (feed (\<lambda>s. col_visit (scalars s) 0) ps (col - 1, s)))"
    using for_each_str_feed [OF assms(1,4,5,6),
        where f = "\<lambda>s. col_visit (scalars s) 0" and st = "(col - 1, s)"] by blast
  have "0 < col - 1" using assms(7) False by simp
  note feed = feed_col [OF ps(2) this, of s, unfolded ps(1) Let_def]
  have "line_col_offset t line col = map_option (\<lambda>(remaining, off). if remaining = 0 then Some off else None)
      (Some (fst (feed (\<lambda>s. col_visit (scalars s) 0) ps (col - 1, s))))"
    unfolding line_col_offset_def assms(2,3) using \<open>0 < col - 1\<close> ps(3) by simp
  then show ?thesis unfolding feed Let_def by auto
qed

section \<open>Phase 1 predicts phase 2\<close>

text \<open>Every intermediate text of the sequence stays within the given size and line count.\<close>

fun within :: "nat \<Rightarrow> nat \<Rightarrow> string \<Rightarrow> edit list \<Rightarrow> bool" where
  "within L N s [] = (length s \<le> L \<and> Suc (count_newlines s) \<le> N)"
| "within L N s (e # es) =
     (length s \<le> L \<and> Suc (count_newlines s) \<le> N \<and> within L N (apply_edit s e) es)"

text \<open>Before step \<open>i\<close> the current text \<open>s\<close> agrees with the base text \<open>b\<close> up to \<open>p\<close>.\<close>

definition sim_base :: "string \<Rightarrow> nat \<Rightarrow> string \<Rightarrow> bool" where
  "sim_base b p s \<longleftrightarrow> p \<le> length b \<and> p \<le> length s \<and> take p s = take p b \<and> from_utf8 s \<and> boundary s p"

lemma sim_base_boundary:
  assumes "sim_base b p s" and "off \<le> p" and "boundary b off"
  shows "boundary s off"
proof (cases "off = p")
  case True
  then show ?thesis using assms(1) by (simp add: sim_base_def)
next
  case False
  then have "off < p" using assms(2) by simp
  then have "s ! off = b ! off" using assms(1) by (metis nth_take sim_base_def)
  then show ?thesis using \<open>off < p\<close> assms by (auto simp: sim_base_def boundary_def)
qed

lemma sim_base_step:
  assumes "sim_base b p s" and "e_offset e + e_delete e \<le> p" and "boundary b (e_offset e)"
    and "boundary b (e_offset e + e_delete e)" and "from_utf8 (e_insert e)"
  shows "sim_base b (e_offset e) (apply_edit s e)"
proof -
  let ?a = "e_offset e" and ?z = "e_offset e + e_delete e"
  have s: "from_utf8 s" "p \<le> length s" "p \<le> length b" "take p s = take p b"
    using assms(1) by (simp_all add: sim_base_def)
  have "boundary s ?a" "boundary s ?z"
    using assms(2) by (auto intro: sim_base_boundary [OF assms(1)] assms(3,4))
  then have v: "from_utf8 (take ?a s)" "from_utf8 (e_insert e @ drop ?z s)"
    using boundary_split [OF s(1)] assms(5) by blast+
  have "take ?a (take p s) = take ?a (take p b)" using s(4) by simp
  then have "take ?a s = take ?a b" using assms(2) by (simp add: min_absorb1)
  moreover have "boundary (take ?a s @ e_insert e @ drop ?z s) (length (take ?a s))"
    by (rule split_boundary) (rule v(2))
  ultimately show ?thesis
    using assms(2) s v by (auto simp: sim_base_def apply_edit_def min_absorb2)
qed

lemma sim_step_Inr:
  assumes "text_inv t" and "sim_base (text_bytes t) (min prev (text_len t)) s" and "from_utf8 (e_insert e)"
    and "sim_step t (prev, length s, Suc (count_newlines s), sim) e = Inr (prev', len', lines', sim')"
  shows "prev' = e_offset e \<and> e_offset e + e_delete e \<le> min prev (text_len t)
    \<and> boundary (text_bytes t) (e_offset e) \<and> boundary (text_bytes t) (e_offset e + e_delete e)
    \<and> len' = length (apply_edit s e) \<and> lines' = Suc (count_newlines (apply_edit s e))
    \<and> (e_insert e = [] \<or> (\<exists>n. commit_needed (length s - e_delete e) (length (e_insert e)) = Some n
          \<and> n \<le> s_required_commit sim'))
    \<and> s_required_commit sim \<le> s_required_commit sim'
    \<and> s_peak_len sim' = max (s_peak_len sim) len' \<and> s_peak_lines sim' = max (s_peak_lines sim) lines'"
proof -
  let ?z = "e_offset e + e_delete e" and ?b = "text_bytes t"
  note inv = text_invD [OF assms(1)]
  have z: "?z \<le> prev" "?z \<le> text_len t" and bnd: "boundary ?b (e_offset e)" "boundary ?b ?z"
    using assms(4) unfolding sim_step_def
    by (auto simp: result_simps checked_add_def is_char_boundary_iff [OF assms(1)] split: if_splits)
  have base: "?z \<le> length s" "take (min prev (text_len t)) s = take (min prev (text_len t)) ?b"
    using assms(2) z by (auto simp: sim_base_def)
  have "slice s (e_offset e) ?z = slice (take (min prev (text_len t)) s) (e_offset e) ?z"
    using z by (simp add: slice_take)
  then have "slice s (e_offset e) ?z = slice ?b (e_offset e) ?z"
    unfolding base(2) using z by (simp add: slice_take)
  then have nl: "newlines_in t (e_offset e) ?z = count_newlines (slice s (e_offset e) ?z)"
    using newlines_in_eq [OF assms(1), of "e_offset e" ?z] z inv(6) by simp
  have split: "s = take (e_offset e) s @ slice s (e_offset e) ?z @ drop ?z s"
    using slice_then_drop [of "e_offset e" ?z s] by simp
  have "count_newlines s = count_newlines (take (e_offset e) s) + count_newlines (slice s (e_offset e) ?z)
      + count_newlines (drop ?z s)"
    by (subst split) simp
  then have lines: "Suc (count_newlines (apply_edit s e)) = Suc (count_newlines s)
      - newlines_in t (e_offset e) ?z + count_newlines (e_insert e)"
    by (simp add: apply_edit_def nl)
  have len: "length (apply_edit s e) = length s - e_delete e + length (e_insert e)"
    using base(1) by (simp add: apply_edit_def)
  show ?thesis
    using assms(4) z bnd unfolding lines len
    by (auto simp: sim_step_def result_simps checked_add_def checked_sub_def Let_def
        split: if_splits Option.bind_splits)
qed

lemma sim_fold_Inr:
  assumes "text_inv t" and "try_fold (sim_step t) (prev, length s, Suc (count_newlines s), sim) es
      = Inr (prev', len', lines', sim')"
    and "sim_base (text_bytes t) (min prev (text_len t)) s" and "list_all (\<lambda>e. from_utf8 (e_insert e)) es"
    and "length s \<le> s_peak_len sim" and "Suc (count_newlines s) \<le> s_peak_lines sim"
  shows "canonical_from (min prev (text_len t)) es \<and> len' = length (apply_edits s es)
    \<and> lines' = Suc (count_newlines (apply_edits s es)) \<and> from_utf8 (apply_edits s es)
    \<and> s_required_commit sim \<le> s_required_commit sim'
    \<and> s_peak_len sim \<le> s_peak_len sim' \<and> s_peak_lines sim \<le> s_peak_lines sim'
    \<and> within (s_peak_len sim') (s_peak_lines sim') s es
    \<and> (\<forall>C. s_required_commit sim' \<le> C \<longrightarrow> steps_committed commit_needed C (length s) es)
    \<and> list_all (\<lambda>e. boundary (text_bytes t) (e_offset e) \<and> boundary (text_bytes t) (e_offset e + e_delete e)) es"
  using assms(2-6)
proof (induction es arbitrary: prev s sim)
  case Nil
  then show ?case by (simp add: sim_base_def)
next
  case (Cons e es)
  obtain prev1 len1 lines1 sim1 where
    s1: "sim_step t (prev, length s, Suc (count_newlines s), sim) e = Inr (prev1, len1, lines1, sim1)"
    and rest: "try_fold (sim_step t) (prev1, len1, lines1, sim1) es = Inr (prev', len', lines', sim')"
    using Cons.prems(1) by (auto simp: result_simps)
  have ins: "from_utf8 (e_insert e)" "list_all (\<lambda>e. from_utf8 (e_insert e)) es" using Cons.prems(3) by simp_all
  note step = sim_step_Inr [OF assms(1) Cons.prems(2) ins(1) s1]
  have e: "e_offset e + e_delete e \<le> min prev (text_len t)" "boundary (text_bytes t) (e_offset e)"
    "boundary (text_bytes t) (e_offset e + e_delete e)" "prev1 = e_offset e" "len1 = length (apply_edit s e)"
    "lines1 = Suc (count_newlines (apply_edit s e))" using step by blast+
  have m: "min (e_offset e) (text_len t) = e_offset e" using e(1) by simp
  have base: "sim_base (text_bytes t) (min (e_offset e) (text_len t)) (apply_edit s e)"
    unfolding m by (rule sim_base_step [OF Cons.prems(2) e(1-3) ins(1)])
  have fits: "e_offset e + e_delete e \<le> length s" using Cons.prems(2) e(1) by (auto simp: sim_base_def)
  then have len: "length (apply_edit s e) = length s - e_delete e + length (e_insert e)"
    by (simp add: apply_edit_def)
  have peaks: "len1 \<le> s_peak_len sim1" "lines1 \<le> s_peak_lines sim1" "s_peak_len sim \<le> s_peak_len sim1"
    "s_peak_lines sim \<le> s_peak_lines sim1" "s_required_commit sim \<le> s_required_commit sim1"
    using step by auto
  note IH = Cons.IH [OF rest [unfolded e(4-6)] base ins(2) peaks(1,2) [unfolded e(5,6)]]
  have need: "e_insert e = [] \<or> (case commit_needed (length s - e_delete e) (length (e_insert e)) of
      None \<Rightarrow> False | Some n \<Rightarrow> n \<le> C)" if "s_required_commit sim' \<le> C" for C
    using step IH that by (auto split: option.splits)
  show ?case
    using IH e(1-3) fits need peaks Cons.prems(4,5) unfolding m len by auto
qed

lemma within_mono: "within L N s es \<Longrightarrow> L \<le> L' \<Longrightarrow> N \<le> N' \<Longrightarrow> within L' N' s es"
  by (induction es arbitrary: s) auto

lemma within_last:
  "within L N s es \<Longrightarrow> length (apply_edits s es) \<le> L \<and> Suc (count_newlines (apply_edits s es)) \<le> N"
  by (induction es arbitrary: s) auto

lemma simulate_Inr:
  assumes "text_inv t" and "list_all (\<lambda>e. from_utf8 (e_insert e)) es" and "simulate t es = Inr sim"
  shows "canonical_from (length (text_bytes t)) es
    \<and> list_all (\<lambda>e. boundary (text_bytes t) (e_offset e) \<and> boundary (text_bytes t) (e_offset e + e_delete e)) es
    \<and> s_final_len sim = length (apply_edits (text_bytes t) es)
    \<and> s_final_lines sim = Suc (count_newlines (apply_edits (text_bytes t) es))
    \<and> from_utf8 (apply_edits (text_bytes t) es)
    \<and> within MAX_BUFFER_BYTES MAX_LINES (text_bytes t) es
    \<and> steps_committed commit_needed (max C (s_required_commit sim)) (length (text_bytes t)) es"
proof -
  note inv = text_invD [OF assms(1)]
  let ?s = "text_bytes t"
  let ?sim = "\<lparr>s_required_commit = 0, s_peak_len = text_len t, s_peak_lines = line_count t,
      s_final_len = text_len t, s_final_lines = line_count t, s_max_insert_lines = 0\<rparr>"
  obtain p len lines sim1 where
    f: "try_fold (sim_step t) (u64_max, length ?s, Suc (count_newlines ?s), ?sim) es = Inr (p, len, lines, sim1)"
    and sim: "sim = sim1\<lparr>s_final_len := len, s_final_lines := lines\<rparr>"
      "s_peak_len sim1 \<le> MAX_BUFFER_BYTES" "s_peak_lines sim1 \<le> MAX_LINES"
    using assms(3) by (auto simp: simulate_def result_simps Let_def inv(6,7) split: if_splits)
  have m: "min u64_max (text_len t) = length ?s"
    using inv(4,6) by (simp add: u64_max_def MAX_BUFFER_BYTES_def MIB_def)
  have base: "sim_base ?s (min u64_max (text_len t)) ?s" unfolding m using inv(3) by (simp add: sim_base_def)
  have "length ?s \<le> s_peak_len ?sim" "Suc (count_newlines ?s) \<le> s_peak_lines ?sim"
    by (simp_all add: inv(6,7))
  note fold = sim_fold_Inr [OF assms(1) f base assms(2) this, unfolded m]
  show ?thesis using fold within_mono [OF _ sim(2,3)] sim(1) by auto
qed

section \<open>Phase 2\<close>

lemma commit_edits_ok:
  assumes "store_inv (t_gap t)" and "t_starts t = line_starts (text_bytes t)"
    and "steps_committed commit_needed (g_commit (t_gap t)) (length (text_bytes t)) es"
    and "within MAX_BUFFER_BYTES N (text_bytes t) es"
  shows "\<exists>t'. commit_edits h es t = Some t' \<and> store_inv (t_gap t')
    \<and> text_bytes t' = apply_edits (text_bytes t) es \<and> t_starts t' = line_starts (text_bytes t')
    \<and> g_commit (t_gap t') = g_commit (t_gap t) \<and> g_commit_calls (t_gap t') = g_commit_calls (t_gap t)"
  using assms
proof (induction es arbitrary: t)
  case Nil
  then show ?case by simp
next
  case (Cons e es)
  let ?z = "e_offset e + e_delete e" and ?s = "text_bytes t"
  obtain g where g: "gap_replace (h_commit h) (e_offset e) ?z (e_insert e) (t_gap t) = (Inr (), g)"
    "store_inv g" "gap_text g = apply_edit ?s e" "g_commit g = g_commit (t_gap t)"
    "g_commit_calls g = g_commit_calls (t_gap t)"
    "steps_committed commit_needed (g_commit g) (length (gap_text g)) es"
    using gap.replace_step [OF Cons.prems(1) Cons.prems(3) [unfolded text_bytes_def]]
    by (auto simp: text_bytes_def)
  define t1 where "t1 = t\<lparr>t_gap := g, t_starts := splice_lines (e_offset e) ?z (e_insert e) (t_starts t)\<rparr>"
  have tb: "text_bytes t1 = apply_edit ?s e" using g(3) by (simp add: t1_def text_bytes_def)
  have "length (apply_edit ?s e) \<le> MAX_BUFFER_BYTES" using Cons.prems(4) by (cases es) simp_all
  then have "length (take (e_offset e) ?s @ e_insert e @ drop ?z ?s) < 2 ^ 32"
    by (simp add: apply_edit_def MAX_BUFFER_BYTES_def MIB_def)
  then have st: "t_starts t1 = line_starts (text_bytes t1)"
    using splice_line_starts [of "e_offset e" ?z ?s "e_insert e"] Cons.prems(2,3) tb
    by (simp add: t1_def apply_edit_def)
  have "commit_edits h (e # es) t = commit_edits h es t1"
    using g(1) by (simp add: t1_def Let_def)
  moreover have gap1: "t_gap t1 = g" by (simp add: t1_def)
  have "steps_committed commit_needed (g_commit (t_gap t1)) (length (text_bytes t1)) es"
    using g(6) by (simp add: gap1 text_bytes_def)
  moreover have "within MAX_BUFFER_BYTES N (text_bytes t1) es" using Cons.prems(4) tb by simp
  ultimately show ?case
    using Cons.IH [of t1] st g(2,4,5) unfolding gap1 by (simp add: tb)
qed

text \<open>What a successful or refused \<open>prepare\<close> leaves.\<close>

lemma text_prepare_cases:
  assumes "text_inv t" and "text_prepare h es t = (res, t')"
  shows "text_inv t' \<and> text_bytes t' = text_bytes t \<and> t_starts t' = t_starts t
    \<and> (\<forall>p. res = Inr p \<longrightarrow> p_sequence p = es \<and> (\<exists>sim. simulate t es = Inr sim
         \<and> s_required_commit sim \<le> g_commit (t_gap t')
         \<and> p_final_len p = s_final_len sim \<and> p_final_lines p = s_final_lines sim))"
proof (cases "simulate t es")
  case (Inl e)
  then show ?thesis using assms by (auto simp: text_prepare_def)
next
  case (Inr sim)
  obtain r g where e: "ensure_commit (h_commit h) (s_required_commit sim) (t_gap t) = (r, g)" by fastforce
  have keep: "store_inv g" "gap_text g = gap_text (t_gap t)" "r = Inr () \<Longrightarrow> s_required_commit sim \<le> g_commit g"
    using gap.ensure_keeps [OF text_invD(1) [OF assms(1)] e] by auto
  have t': "t' = t\<lparr>t_gap := g\<rparr>" and res: "\<And>p. res = Inr p \<Longrightarrow> r = Inr () \<and> p_sequence p = es
      \<and> p_final_len p = s_final_len sim \<and> p_final_lines p = s_final_lines sim"
    using assms(2) by (auto simp: text_prepare_def Inr e Let_def split: sum.splits if_splits)
  have "text_inv t'" using assms(1) keep(1,2) by (auto simp: text_inv_def text_bytes_def t')
  then show ?thesis using keep res Inr by (simp add: t' text_bytes_def)
qed

lemma two_phase:
  assumes "text_inv t" and "list_all (\<lambda>e. from_utf8 (e_insert e)) es" and "text_prepare h es t = (Inr p, t1)"
  shows "\<exists>t'. text_commit h p t1 = Some t' \<and> text_inv t' \<and> text_bytes t' = apply_edits (text_bytes t) es
    \<and> g_commit (t_gap t') = g_commit (t_gap t1) \<and> g_commit_calls (t_gap t') = g_commit_calls (t_gap t1)
    \<and> text_len t' = p_final_len p \<and> line_count t' = p_final_lines p"
proof -
  obtain sim where t1: "text_inv t1" "text_bytes t1 = text_bytes t" "p_sequence p = es" "simulate t es = Inr sim"
    "s_required_commit sim \<le> g_commit (t_gap t1)" "p_final_len p = s_final_len sim"
    "p_final_lines p = s_final_lines sim"
    using text_prepare_cases [OF assms(1,3)] by auto
  note sim = simulate_Inr [OF assms(1,2) t1(4), of "g_commit (t_gap t1)"]
  have steps: "steps_committed commit_needed (g_commit (t_gap t1)) (length (text_bytes t1)) es"
    using sim t1(2,5) by (simp add: max_absorb1)
  have win: "within MAX_BUFFER_BYTES MAX_LINES (text_bytes t1) es" using sim t1(2) by simp
  obtain t' where t': "commit_edits h es t1 = Some t'" "store_inv (t_gap t')"
    "text_bytes t' = apply_edits (text_bytes t) es" "t_starts t' = line_starts (text_bytes t')"
    "g_commit (t_gap t') = g_commit (t_gap t1)" "g_commit_calls (t_gap t') = g_commit_calls (t_gap t1)"
    using commit_edits_ok [OF text_invD(1,5) [OF t1(1)] steps win, of h] t1(2) by auto
  have "length (text_bytes t') \<le> MAX_BUFFER_BYTES \<and> Suc (count_newlines (text_bytes t')) \<le> MAX_LINES"
    using sim unfolding t'(3) by (metis within_last)
  then have inv: "text_inv t'" using t' sim by (simp add: text_inv_def length_line_starts)
  show ?thesis
    using t' t1 inv sim text_invD(6,7) [OF inv] by (simp add: text_commit_def)
qed

section \<open>Phase 1 refuses nothing that fits\<close>

lemma sim_step_ok:
  assumes "text_inv t" and "sim_base (text_bytes t) (min prev (text_len t)) s"
    and "e_offset e + e_delete e \<le> min prev (text_len t)" and "boundary (text_bytes t) (e_offset e)"
    and "boundary (text_bytes t) (e_offset e + e_delete e)"
    and "length s \<le> MAX_BUFFER_BYTES" and "length (apply_edit s e) \<le> MAX_BUFFER_BYTES"
    and "Suc (count_newlines (apply_edit s e)) \<le> MAX_LINES"
  shows "\<exists>r. sim_step t (prev, length s, Suc (count_newlines s), sim) e = Inr r"
proof -
  let ?z = "e_offset e + e_delete e" and ?b = "text_bytes t"
  note inv = text_invD [OF assms(1)]
  have z: "?z \<le> length s" "?z \<le> length ?b" "e_delete e \<le> length s"
    using assms(2,3) inv(6) by (auto simp: sim_base_def)
  have small: "?z \<le> u64_max" "length s - e_delete e + length (e_insert e) \<le> u64_max"
    "length (e_insert e) \<le> MAX_BUFFER_BYTES"
    using z assms(6,7) by (simp_all add: u64_max_def MAX_BUFFER_BYTES_def MIB_def apply_edit_def)
  have need: "\<exists>n. commit_needed (length s - e_delete e) (length (e_insert e)) = Some n"
  proof -
    have "align_down (length (e_insert e) + 8191) 4096 \<le> length (e_insert e) + 8191"
      by (simp add: align_down_def)
    then show ?thesis
      using small assms(6)
      by (simp add: commit_needed_def checked_add_def u64_max_def LARGE_GAP_CHUNK_def LARGE_ALLOC_CHUNK_def
          Let_def MAX_BUFFER_BYTES_def MIB_def)
  qed
  have sl: "slice s (e_offset e) ?z = slice ?b (e_offset e) ?z"
  proof -
    have "take (min prev (text_len t)) s = take (min prev (text_len t)) ?b"
      using assms(2) by (simp add: sim_base_def)
    then show ?thesis using assms(3) slice_take [of ?z "min prev (text_len t)"] by metis
  qed
  have nl: "newlines_in t (e_offset e) ?z = count_newlines (slice s (e_offset e) ?z)"
    using newlines_in_eq [OF assms(1), of "e_offset e" ?z] z sl by simp
  have "count_newlines s = count_newlines (take (e_offset e) s @ slice s (e_offset e) ?z @ drop ?z s)"
    using slice_then_drop [of "e_offset e" ?z s] by simp
  then have "newlines_in t (e_offset e) ?z \<le> count_newlines s"
    and "Suc (count_newlines s) - newlines_in t (e_offset e) ?z + count_newlines (e_insert e) \<le> u64_max"
    using assms(8) by (auto simp: nl apply_edit_def u64_max_def MAX_LINES_def)
  then show ?thesis
    using z small need assms(3-5)
    by (auto simp: sim_step_def checked_add_def checked_sub_def is_char_boundary_iff [OF assms(1)] Let_def inv(6))
qed

lemma sim_fold_ok:
  assumes "text_inv t" and "sim_base (text_bytes t) (min prev (text_len t)) s"
    and "canonical_from (min prev (text_len t)) es" and "list_all (\<lambda>e. from_utf8 (e_insert e)) es"
    and "list_all (\<lambda>e. boundary (text_bytes t) (e_offset e) \<and> boundary (text_bytes t) (e_offset e + e_delete e)) es"
    and "within MAX_BUFFER_BYTES MAX_LINES s es"
    and "s_peak_len sim \<le> MAX_BUFFER_BYTES" and "s_peak_lines sim \<le> MAX_LINES"
  shows "\<exists>p len lines sim'. try_fold (sim_step t) (prev, length s, Suc (count_newlines s), sim) es
      = Inr (p, len, lines, sim') \<and> s_peak_len sim' \<le> MAX_BUFFER_BYTES \<and> s_peak_lines sim' \<le> MAX_LINES"
  using assms(2-8)
proof (induction es arbitrary: prev s sim)
  case Nil
  then show ?case by simp
next
  case (Cons e es)
  have e: "e_offset e + e_delete e \<le> min prev (text_len t)" "boundary (text_bytes t) (e_offset e)"
    "boundary (text_bytes t) (e_offset e + e_delete e)" "from_utf8 (e_insert e)"
    "length s \<le> MAX_BUFFER_BYTES" "length (apply_edit s e) \<le> MAX_BUFFER_BYTES"
    "Suc (count_newlines (apply_edit s e)) \<le> MAX_LINES"
    using Cons.prems(2-5) by (simp_all, (cases es; simp)+)
  obtain p1 l1 n1 sim1 where s1: "sim_step t (prev, length s, Suc (count_newlines s), sim) e = Inr (p1, l1, n1, sim1)"
    using sim_step_ok [OF assms(1) Cons.prems(1) e(1-3,5-7)] by fastforce
  note step = sim_step_Inr [OF assms(1) Cons.prems(1) e(4) s1]
  have m: "min (e_offset e) (text_len t) = e_offset e" using e(1) by simp
  have base: "sim_base (text_bytes t) (min (e_offset e) (text_len t)) (apply_edit s e)"
    unfolding m by (rule sim_base_step [OF Cons.prems(1) e(1-4)])
  have r: "p1 = e_offset e" "l1 = length (apply_edit s e)" "n1 = Suc (count_newlines (apply_edit s e))"
    "s_peak_len sim1 \<le> MAX_BUFFER_BYTES" "s_peak_lines sim1 \<le> MAX_LINES"
    using step Cons.prems(6,7) e by auto
  show ?case
    using Cons.IH [OF base _ _ _ _ r(4,5)] Cons.prems(2-5) s1 unfolding r(1-3) by (simp add: m)
qed

lemma simulate_ok:
  assumes "text_inv t" and "list_all (\<lambda>e. from_utf8 (e_insert e)) es"
    and "canonical_from (length (text_bytes t)) es"
    and "list_all (\<lambda>e. boundary (text_bytes t) (e_offset e) \<and> boundary (text_bytes t) (e_offset e + e_delete e)) es"
    and "within MAX_BUFFER_BYTES MAX_LINES (text_bytes t) es"
  shows "\<exists>sim. simulate t es = Inr sim"
proof -
  note inv = text_invD [OF assms(1)]
  let ?s = "text_bytes t"
  let ?sim = "\<lparr>s_required_commit = 0, s_peak_len = length ?s, s_peak_lines = Suc (count_newlines ?s),
      s_final_len = length ?s, s_final_lines = Suc (count_newlines ?s), s_max_insert_lines = 0\<rparr>"
  have m: "min u64_max (text_len t) = length ?s"
    using inv(4,6) by (simp add: u64_max_def MAX_BUFFER_BYTES_def MIB_def)
  have "sim_base ?s (min u64_max (text_len t)) ?s" unfolding m using inv(3) by (simp add: sim_base_def)
  then obtain p len lines sim' where
    "try_fold (sim_step t) (u64_max, length ?s, Suc (count_newlines ?s), ?sim) es = Inr (p, len, lines, sim')"
    "s_peak_len sim' \<le> MAX_BUFFER_BYTES" "s_peak_lines sim' \<le> MAX_LINES"
    using sim_fold_ok [OF assms(1) _ _ assms(2,4,5), of u64_max ?sim] assms(3) inv(4,8) m by auto
  then show ?thesis by (simp add: simulate_def inv(6,7) Let_def)
qed

section \<open>Loading\<close>

lemma lines_fwd_fallback_found:
  "lines_fwd_fallback cs pos 0 1 = (nx, found) \<Longrightarrow>
     found = 0 \<and> starts_from pos cs = [] \<or>
     found = 1 \<and> nx \<le> pos + length cs \<and> starts_from pos cs = nx # starts_from nx (drop (nx - pos) cs)"
proof (induction cs arbitrary: pos)
  case (Cons c cs)
  show ?case
  proof (cases "c = newline")
    case False
    then have step: "lines_fwd_fallback cs (pos + 1) 0 1 = (nx, found)" using Cons.prems by simp
    have "pos + 1 \<le> nx" using lines_fwd_fallback_pos [of "pos + 1" cs 0 1] step by simp
    then have "nx - pos = Suc (nx - Suc pos)" by linarith
    then show ?thesis
      using Cons.IH [OF step] False by auto
  qed (use Cons.prems in auto)
qed simp

lemma scan_starts_Inr:
  assumes "scan_starts h bytes base already off starts = Inr out" and "base + length bytes < 2 ^ 32"
    and "off \<le> length bytes" and "already + length starts \<le> MAX_LINES"
  shows "out = starts @ map (\<lambda>x. base + x) (starts_from off (drop off bytes)) \<and> already + length out \<le> MAX_LINES"
  using assms
proof (induction h bytes base already off starts rule: scan_starts.induct)
  case (1 h bytes base already off starts)
  obtain nx found where lf: "lines_fwd bytes off 0 1 = (nx, found)" by fastforce
  have fb: "off < length bytes \<Longrightarrow> lines_fwd_fallback (drop off bytes) off 0 1 = (nx, found)"
    using lf by (simp add: lines_fwd_def)
  show ?case
  proof (cases "off < length bytes \<and> found \<noteq> 0")
    case False
    then show ?thesis
      using "1.prems" lines_fwd_fallback_found [OF fb] lf by (subst (asm) scan_starts.simps) (auto split: if_splits)
  next
    case True
    then have found: "nx \<le> length bytes"
        "starts_from off (drop off bytes) = nx # starts_from nx (drop nx bytes)"
      using lines_fwd_fallback_found [OF fb] lines_fwd_step [OF lf] by (auto simp: add.commute)
    have rec: "scan_starts h bytes base already nx (starts @ [as_u32 (base + nx)]) = Inr out"
      and le: "already + length starts < MAX_LINES" "h_alloc h (length starts) 1"
      using "1.prems"(1) True lf
      unfolding scan_starts.simps [of h bytes base already off starts] by (auto split: if_splits)
    have "as_u32 (base + nx) = base + nx" using found(1) "1.prems"(2) by (simp add: as_u32_def)
    then show ?thesis
      using "1.IH" [OF _ refl lf [symmetric] _ _ _ rec "1.prems"(2) found(1)] True le found(2) by auto
  qed
qed

lemma empty_text:
  "text_new h = Inr t \<Longrightarrow> text_inv t \<and> text_bytes t = []"
  by (auto simp: text_new_def gap_new_def result_simps text_inv_def store_inv_def gap_inv_def text_bytes_def
      gap_text_def slice_def line_starts_def MAX_LINES_def LARGE_CAPACITY_def split: if_splits)

lemma from_text_Inr:
  assumes "from_text h s = Inr t" and "from_utf8 s"
  shows "text_inv t \<and> text_bytes t = s"
proof -
  obtain starts t0 g where len: "length s \<le> MAX_BUFFER_BYTES"
    and scan: "scan_starts h s 0 0 0 [0] = Inr starts" and new: "text_new h = Inr t0"
    and rep: "gap_replace (h_commit h) 0 0 s (t_gap t0) = (Inr (), g)"
    and t: "t = t0\<lparr>t_gap := g, t_starts := starts\<rparr>"
  proof -
    obtain starts t0 where l: "length s \<le> MAX_BUFFER_BYTES" and sc: "scan_starts h s 0 0 0 [0] = Inr starts"
      and n: "text_new h = Inr t0"
      and c: "(case gap_replace (h_commit h) 0 0 s (t_gap t0) of (Inl _, _) \<Rightarrow> Inl oom
         | (Inr _, g) \<Rightarrow> Inr (t0\<lparr>t_gap := g, t_starts := starts\<rparr>)) = Inr t"
      using assms(1) by (auto simp only: from_text_def result_simps not_less split: if_splits)
    obtain r g where rg: "gap_replace (h_commit h) 0 0 s (t_gap t0) = (r, g)" by fastforce
    show thesis using that [OF l sc n] c rg by (cases r) auto
  qed
  note t0 = empty_text [OF new]
  have "starts = line_starts s \<and> length starts \<le> MAX_LINES"
    using scan_starts_Inr [OF scan] len
    by (auto simp: MAX_BUFFER_BYTES_def MIB_def MAX_LINES_def line_starts_def)
  moreover have "store_inv g \<and> gap_text g = s"
    using gap.replace_ok [OF text_invD(1) _ _ rep] t0 by (simp add: text_bytes_def)
  ultimately show ?thesis using len assms(2) by (auto simp: text_inv_def text_bytes_def t)
qed

lemma text_append_cases:
  assumes "text_inv t" and "from_utf8 s" and "text_append h s t = (res, t')"
  shows "text_inv t' \<and> text_bytes t' = (if is_ok res then text_bytes t @ s else text_bytes t)"
proof -
  note inv = text_invD [OF assms(1)]
  obtain r g where rep: "gap_replace (h_commit h) (text_len t) (text_len t) s (t_gap t) = (r, g)" by fastforce
  consider "t' = t" "\<not> is_ok res" | "t' = t\<lparr>t_gap := g\<rparr>" "\<not> is_ok res" "r \<noteq> Inr ()"
    | starts where "length (text_bytes t) + length s \<le> MAX_BUFFER_BYTES"
        "scan_starts h s (text_len t) (length (t_starts t)) 0 [] = Inr starts" "r = Inr ()" "is_ok res"
        "t' = t\<lparr>t_gap := g, t_starts := t_starts t @ starts\<rparr>"
    using assms(3) rep inv(6)
    by (auto simp: text_append_def Let_def split: if_splits sum.splits prod.splits)
  then show ?thesis
  proof cases
    case 1
    then show ?thesis using assms(1) by simp
  next
    case 2
    obtain e where "r = Inl e" using 2(3) by (cases r) auto
    then have "store_inv g \<and> gap_text g = gap_text (t_gap t)"
      using gap.replace_err [OF inv(1), of "h_commit h"] rep by blast
    then show ?thesis using 2 assms(1) by (auto simp: text_inv_def text_bytes_def)
  next
    case 3
    have "length (t_starts t) \<le> MAX_LINES" using inv(5,8) by (simp add: length_line_starts)
    then have "starts = map (\<lambda>x. length (text_bytes t) + x) (starts_from 0 s) \<and> length (t_starts t) + length starts \<le> MAX_LINES"
      using scan_starts_Inr [OF 3(2)] 3(1) inv(6) by (auto simp: MAX_BUFFER_BYTES_def MIB_def)
    moreover have "starts_from (length (text_bytes t)) s = map (\<lambda>x. length (text_bytes t) + x) (starts_from 0 s)"
      using starts_from_shift [of 0 "length (text_bytes t)" s] by (simp add: add.commute)
    moreover have "store_inv g \<and> gap_text g = text_bytes t @ s"
      using gap.replace_ok [OF inv(1), of "text_len t" "text_len t" "h_commit h" s g] rep 3(3) inv(6)
      by (simp add: text_bytes_def)
    ultimately show ?thesis
      using 3 inv assms(2) by (auto simp: text_inv_def text_bytes_def line_starts_append)
  qed
qed

lemma contiguous_text_eq:
  assumes "text_inv t"
  shows "contiguous_text h t = (text_bytes t, snd (contiguous_text h t))
    \<and> text_inv (snd (contiguous_text h t)) \<and> text_bytes (snd (contiguous_text h t)) = text_bytes t"
proof -
  note inv = text_invD [OF assms]
  obtain L M R X where l: "layout (t_gap t) L M R X" using gap_inv_layout [OF inv(2)] .
  have tl: "g_text_length (t_gap t) = length (L @ R)" and tx: "text_bytes t = L @ R"
    using l layout_text [OF l] by (simp_all add: layout_def text_bytes_def)
  obtain res g where a: "allocate_gap (h_commit h) (text_len t) 0 0 (t_gap t) = (res, g)" by fastforce
  have c: "allocate_commit (h_commit h) 0 0 (t_gap t) = (Inr (), t_gap t)"
    by (simp add: allocate_commit_def Let_def)
  then have "res = Inr ()" using a by (auto simp: allocate_gap_def Let_def)
  then obtain M' X' where l': "layout g (L @ R) M' [] X'" and large: "g_large g = g_large (t_gap t)"
    using allocate_gap_layout [OF l a] by (auto simp: text_len_def tl)
  have "store_inv g" "gap_text g = text_bytes t"
    using layout_inv [OF l'] layout_text [OF l'] large inv(1) by (simp_all add: store_inv_def tx)
  moreover have "read_forward 0 g = text_bytes t"
    using read_forward_layout [OF l', of 0] by (auto simp: tx)
  moreover have "contiguous_text h t = (if from_utf8 (read_forward 0 g) then read_forward 0 g else [], t\<lparr>t_gap := g\<rparr>)"
    by (simp add: contiguous_text_def a Let_def)
  ultimately show ?thesis using assms inv(3) by (auto simp: text_inv_def text_bytes_def)
qed

section \<open>A sample text\<close>

text \<open>Three scalars and a line break with the gap inside the two-byte scalar, and a host that
  grants everything.\<close>

definition sample_text :: text_store where
  "sample_text = \<lparr>t_gap = \<lparr>g_mem = [CHR ''h'', CHR 0xC3, CHR 0x00, CHR 0x00, CHR 0xA9, CHR 0x0A, CHR ''x''],
     g_reserve = LARGE_CAPACITY, g_text_length = 5, g_gap_off = 2, g_gap_len = 2, g_generation = 0,
     g_commit_calls = 0, g_large = True\<rparr>, t_starts = [0, 4]\<rparr>"

definition generous :: host where
  "generous = \<lparr>h_map = True, h_commit = (\<lambda>_ _. True), h_alloc = (\<lambda>_ _. True)\<rparr>"

lemma sample_bytes: "text_bytes sample_text = [CHR ''h'', CHR 0xC3, CHR 0xA9, CHR 0x0A, CHR ''x'']"
  by (simp add: sample_text_def text_bytes_def gap_text_def slice_def)

lemma sample_utf8: "from_utf8 [CHR ''h'', CHR 0xC3, CHR 0xA9, CHR 0x0A, CHR ''x'']"
  unfolding from_utf8_iff
  by (rule exI [of _ "[''h'', [CHR 0xC3, CHR 0xA9], [CHR 0x0A], ''x'']"])
    (simp add: utf8_char_def lead_len_def second_ok_def byte_def is_continuation_def)

lemma sample_inv: "text_inv sample_text"
  unfolding text_inv_def sample_bytes
  by (simp add: sample_utf8 sample_text_def store_inv_def gap_inv_def LARGE_CAPACITY_def MAX_BUFFER_BYTES_def
      MIB_def MAX_LINES_def line_starts_def newline_def)

lemma sample_boundary:
  "boundary (text_bytes sample_text) off \<longleftrightarrow> off \<in> {0, 1, 3, 4, 5}"
  unfolding sample_bytes boundary_def
  by (auto simp: is_continuation_def byte_def nth_Cons split: nat.splits)

lemma sample_simulate:
  "simulate sample_text [\<lparr>e_offset = 1, e_delete = 2, e_insert = []\<rparr>] =
     Inr \<lparr>s_required_commit = 0, s_peak_len = 5, s_peak_lines = 2, s_final_len = 3, s_final_lines = 2,
       s_max_insert_lines = 0\<rparr>"
  using is_char_boundary_iff [OF sample_inv] sample_boundary
  by (simp add: simulate_def sim_step_def text_len_def line_count_def sample_text_def checked_add_def
      checked_sub_def u64_max_def newlines_in_def partition_point_def count_newlines_def MAX_BUFFER_BYTES_def
      MIB_def MAX_LINES_def)

section \<open>Properties\<close>

text \<open>Two-phase application. Whatever the host answers, phase 1 leaves the text, its bytes and its
  line index as they were; when it succeeds, phase 2 runs to the end without the panic of its
  assertion, performs the whole edit sequence, keeps the text valid UTF-8 with an exact line index
  within the limits, commits no memory, and reaches the length and line count phase 1 announced.\<close>

theorem two_phase_apply:
  assumes "text_inv t" and "list_all (\<lambda>e. from_utf8 (e_insert e)) es" and "text_prepare h es t = (res, t1)"
  shows "text_inv t1 \<and> text_bytes t1 = text_bytes t \<and> t_starts t1 = t_starts t
    \<and> (case res of Inl _ \<Rightarrow> True | Inr p \<Rightarrow>
        \<exists>t'. text_commit h p t1 = Some t' \<and> text_inv t' \<and> text_bytes t' = apply_edits (text_bytes t) es
          \<and> g_commit_calls (t_gap t') = g_commit_calls (t_gap t1)
          \<and> text_len t' = p_final_len p \<and> line_count t' = p_final_lines p)"
proof (cases res)
  case (Inl e)
  then show ?thesis using text_prepare_cases [OF assms(1,3)] by simp
next
  case (Inr p)
  then show ?thesis
    using text_prepare_cases [OF assms(1,3)] two_phase [OF assms(1,2)] assms(3) by fastforce
qed

theorem two_phase_apply_witness:
  "\<exists>p t1 t'. text_prepare generous [\<lparr>e_offset = 1, e_delete = 2, e_insert = []\<rparr>] sample_text = (Inr p, t1)
    \<and> text_commit generous p t1 = Some t' \<and> text_inv t' \<and> text_bytes t' = [CHR ''h'', CHR 0x0A, CHR ''x'']"
proof -
  let ?es = "[\<lparr>e_offset = 1, e_delete = 2, e_insert = []\<rparr>]"
  obtain p t1 where prep: "text_prepare generous ?es sample_text = (Inr p, t1)"
    using sample_simulate by (simp add: text_prepare_def ensure_commit_def generous_def)
  have valid: "list_all (\<lambda>e. from_utf8 (e_insert e)) ?es" by simp
  show ?thesis
    using two_phase_apply [OF sample_inv valid prep] prep by (auto simp: sample_bytes apply_edit_def)
qed

text \<open>Phase 1 accepts exactly the sequences that are canonical for the text, lie on char
  boundaries, and whose every intermediate text stays within the byte and line limits.\<close>

theorem simulate_accepts_iff:
  assumes "text_inv t" and "list_all (\<lambda>e. from_utf8 (e_insert e)) es"
  shows "is_ok (simulate t es) \<longleftrightarrow>
    canonical_from (length (text_bytes t)) es
    \<and> list_all (\<lambda>e. boundary (text_bytes t) (e_offset e) \<and> boundary (text_bytes t) (e_offset e + e_delete e)) es
    \<and> within MAX_BUFFER_BYTES MAX_LINES (text_bytes t) es"
  using simulate_Inr [OF assms] simulate_ok [OF assms] by (auto simp: is_ok_iff)

theorem simulate_accepts_iff_witness:
  "is_ok (simulate sample_text [\<lparr>e_offset = 4, e_delete = 1, e_insert = ''ab''\<rparr>, \<lparr>e_offset = 1, e_delete = 2, e_insert = []\<rparr>])
   \<and> \<not> is_ok (simulate sample_text [\<lparr>e_offset = 2, e_delete = 0, e_insert = ''ab''\<rparr>])"
proof -
  have ab: "from_utf8 ''ab''"
    unfolding from_utf8_iff by (rule exI [of _ "[''a'', ''b'']"]) (simp add: utf8_char_def lead_len_def byte_def)
  have "within MAX_BUFFER_BYTES MAX_LINES (text_bytes sample_text)
      [\<lparr>e_offset = 4, e_delete = 1, e_insert = ''ab''\<rparr>, \<lparr>e_offset = 1, e_delete = 2, e_insert = []\<rparr>]"
    by (simp add: sample_bytes apply_edit_def MAX_BUFFER_BYTES_def MIB_def MAX_LINES_def count_newlines_def)
  then show ?thesis
    using simulate_accepts_iff [OF sample_inv, of "[\<lparr>e_offset = 4, e_delete = 1, e_insert = ''ab''\<rparr>, \<lparr>e_offset = 1, e_delete = 2, e_insert = []\<rparr>]"]
      simulate_accepts_iff [OF sample_inv, of "[\<lparr>e_offset = 2, e_delete = 0, e_insert = ''ab''\<rparr>]"] ab sample_boundary
    by (simp add: sample_bytes)
qed

text \<open>The in-place splice of the line index is exact: applied to the line starts of a text it
  gives the line starts of the edited text, for every edit inside the text whose result is shorter
  than 4 GiB.\<close>

theorem splice_lines_exact:
  assumes "off \<le> end'" and "end' \<le> length s" and "off + length ins + (length s - end') < 2 ^ 32"
  shows "splice_lines off end' ins (line_starts s) = line_starts (take off s @ ins @ drop end' s)"
  using assms by (intro splice_line_starts) simp_all

theorem splice_lines_exact_witness:
  "splice_lines 1 3 [newline, newline] (line_starts [CHR ''a'', newline, CHR ''b'', newline]) = [0, 2, 3, 4]"
  using splice_lines_exact [of 1 3 "[CHR ''a'', newline, CHR ''b'', newline]" "[newline, newline]"]
  by (simp add: line_starts_def newline_def)

text \<open>Reading a range whose ends are char boundaries returns, and appends exactly the bytes of
  the range, although a scalar may be split by the gap.\<close>

theorem read_returns_slice:
  assumes "text_inv t" and "boundary (text_bytes t) a" and "boundary (text_bytes t) b" and "a \<le> b"
  shows "text_read t (a, b) out = Some (out @ slice (text_bytes t) a b)"
  using assms by (rule text_read_slice)

theorem read_returns_slice_witness:
  "text_read sample_text (1, 4) ''>'' = Some [CHR ''>'', CHR 0xC3, CHR 0xA9, CHR 0x0A]"
  using read_returns_slice [OF sample_inv, of 1 4 "''>''"] sample_boundary
  by (simp add: sample_bytes slice_def)

text \<open>Every char boundary has a line and a column, and resolving them gives the offset back.\<close>

theorem point_roundtrip:
  assumes "text_inv t" and "boundary (text_bytes t) off"
  shows "\<exists>line col. text_point t off = Some \<lparr>pt_offset = off, pt_line = line, pt_col = col\<rparr>
    \<and> 1 \<le> line \<and> line \<le> line_count t \<and> 1 \<le> col \<and> line_col_offset t line col = Some (Some off)"
proof -
  let ?b = "text_bytes t" and ?li = "line_index_of t off"
  obtain s e where se: "line_start t (Suc ?li) = Some s" "line_end t (Suc ?li) = Some e" "s \<le> off" "off \<le> e"
    "boundary ?b s" "boundary ?b e"
    and pt: "text_point t off = Some \<lparr>pt_offset = off, pt_line = Suc ?li, pt_col = 1 + char_count (slice ?b s off)\<rparr>"
    using text_point_eq [OF assms] .
  have le: "s \<le> e" using se by simp
  have v: "from_utf8 (slice ?b s off)"
    by (rule slice_from_utf8 [OF text_invD(3) [OF assms(1)] se(5) assms(2) se(3)])
  have "slice ?b s e = slice ?b s off @ slice ?b off e" using slice_adjacent [OF se(3,4), of ?b] by simp
  then have cs: "scalars (slice ?b s e) = scalars (slice ?b s off) @ scalars (slice ?b off e)"
    using scalars_append [OF v] by simp
  have "length (slice ?b s off) = off - s"
    using boundary_le [OF assms(2)] by (simp add: slice_def)
  then have "line_col_offset t (Suc ?li) (1 + char_count (slice ?b s off)) = Some (Some off)"
    using line_col_offset_eq [OF assms(1) se(1,2,5,6) le, of "1 + char_count (slice ?b s off)"] concat_scalars [OF v] se(3)
    by (simp add: cs char_count_def)
  moreover have "Suc ?li \<le> line_count t"
    using se(1) by (auto simp: line_start_def get_def checked_sub_def line_count_def split: if_splits)
  ultimately show ?thesis using pt by auto
qed

theorem point_roundtrip_witness:
  "\<exists>line col. text_point sample_text 3 = Some \<lparr>pt_offset = 3, pt_line = line, pt_col = col\<rparr>
    \<and> line_col_offset sample_text line col = Some (Some 3)"
  using point_roundtrip [OF sample_inv, of 3] sample_boundary by auto

text \<open>Loading and appending. A load that succeeds holds exactly the given bytes with an exact line
  index within the limits; an append that succeeds extends the text by the given bytes, one that
  fails leaves it as it was.\<close>

theorem load_and_append:
  assumes "from_utf8 s" and "from_utf8 extra" and "from_text h s = Inr t" and "text_append h extra t = (res, t')"
  shows "text_inv t \<and> text_bytes t = s \<and> text_inv t'
    \<and> text_bytes t' = (if is_ok res then s @ extra else s) \<and> to_string_lossless t' = Some (text_bytes t')"
  using from_text_Inr [OF assms(3,1)] text_append_cases [OF _ assms(2,4)] to_string_lossless_eq [of t'] by auto


theorem load_and_append_witness:
  "\<exists>t t'. from_text generous [] = Inr t \<and> text_append generous [] t = (Inr (), t')
    \<and> to_string_lossless t' = Some []"
proof -
  define t where "t = \<lparr>t_gap = \<lparr>g_mem = [], g_reserve = LARGE_CAPACITY, g_text_length = 0, g_gap_off = 0,
      g_gap_len = 0, g_generation = 1, g_commit_calls = 0, g_large = True\<rparr>, t_starts = [0]\<rparr>"
  have load: "from_text generous [] = Inr t"
    by (simp add: from_text_def scan_starts.simps text_new_def gap_new_def generous_def gap_replace_def
        allocate_gap_def allocate_commit_def write_gap_def commit_gap_def t_def)
  obtain t' where app: "text_append generous [] t = (Inr (), t')"
    by (simp add: text_append_def scan_starts.simps generous_def gap_replace_def text_len_def
        allocate_gap_def allocate_commit_def write_gap_def commit_gap_def t_def)
  from load_and_append [OF from_utf8_Nil from_utf8_Nil load app] load app show ?thesis by auto
qed
end
