(* ===== verification/Edit_Anchor.thy ===== *)
theory Edit_Anchor
  imports Edit_Text
begin

text \<open>
  Anchors and selections (\<^verbatim>\<open>cosmix-edit-core/src/anchor.rs\<close>): points that follow the text
  through edits with a bias, named point and range anchors, selections.  The lemmas show which
  bytes a mapped point keeps on its sides, that mapping keeps the order of points and char
  boundaries, and that a range anchor keeps its bytes under an edit outside it.
\<close>

section \<open>Definitions\<close>

datatype bias = Before | After

record anchor =
  a_offset :: nat
  a_bias :: bias
  a_collapsed_rev :: "nat option"

record named_anchor =
  na_name :: string
  na_start :: anchor
  na_end :: "anchor option"

record anchor_spec =
  as_at :: "pos_spec option"
  as_range :: "range_spec option"
  as_bias :: "bias option"

record selection =
  sel_anchor :: nat
  sel_head :: nat

definition map_point :: "nat \<Rightarrow> bias \<Rightarrow> edit \<Rightarrow> nat \<times> bool" where
  "map_point a bias ed =
     (let p = e_offset ed; dd = e_delete ed; ii = length (e_insert ed) in
      if a < p \<or> (dd = 0 \<and> a > p) then (if a < p then (a, False) else (a + ii, False))
      else if a = p then (case bias of Before \<Rightarrow> (a, False) | After \<Rightarrow> (a + ii, False))
      else if a < p + dd then (p, True)
      else (a - dd + ii, False))"

fun map_through :: "nat \<Rightarrow> bias \<Rightarrow> edit list \<Rightarrow> nat \<times> bool" where
  "map_through a bias [] = (a, False)"
| "map_through a bias (e # es) =
     (let (n, c) = map_point a bias e; (a', c') = map_through n bias es in (a', c \<or> c'))"

definition collapse :: "bool \<Rightarrow> nat \<Rightarrow> anchor \<Rightarrow> anchor" where
  "collapse c rev' a = (if c then a\<lparr>a_collapsed_rev := Some rev'\<rparr> else a)"

definition named_anchor_map :: "edit list \<Rightarrow> nat \<Rightarrow> named_anchor \<Rightarrow> named_anchor" where
  "named_anchor_map edits rev' na =
     (case na_end na of
        None \<Rightarrow>
          let (o', c) = map_through (a_offset (na_start na)) (a_bias (na_start na)) edits
          in na\<lparr>na_start := collapse c rev' ((na_start na)\<lparr>a_offset := o'\<rparr>)\<rparr>
      | Some end' \<Rightarrow>
          let empty = a_offset (na_start na) = a_offset end';
              (sb, eb) = (if empty then (Before, Before) else (After, Before));
              (s, sc) = map_through (a_offset (na_start na)) sb edits;
              (e, ec) = map_through (a_offset end') eb edits
          in na\<lparr>na_start := collapse sc rev' ((na_start na)\<lparr>a_offset := min s e\<rparr>),
                na_end := Some (collapse ec rev' (end'\<lparr>a_offset := e\<rparr>))\<rparr>)"

definition selection_map :: "edit list \<Rightarrow> bias \<Rightarrow> selection \<Rightarrow> selection" where
  "selection_map edits bias s =
     \<lparr>sel_anchor = fst (map_through (sel_anchor s) bias edits),
      sel_head = fst (map_through (sel_head s) bias edits)\<rparr>"

definition is_valid_name :: "string \<Rightarrow> bool" where
  "is_valid_name name \<longleftrightarrow> name \<noteq> [] \<and> length name \<le> 64
     \<and> list_all (\<lambda>b. is_ascii_alphanumeric b \<or> b \<in> set ''._-'') name"

section \<open>One step\<close>

lemma map_point_cases:
  obtains (Left) "a \<le> e_offset ed" "map_point a bias ed = (a, False)" "a = e_offset ed \<Longrightarrow> bias = Before"
  | (At) "a = e_offset ed" "bias = After" "map_point a bias ed = (a + length (e_insert ed), False)"
  | (Inside) "e_offset ed < a" "a < e_offset ed + e_delete ed" "map_point a bias ed = (e_offset ed, True)"
  | (Right) "e_offset ed < a" "e_offset ed + e_delete ed \<le> a"
      "map_point a bias ed = (a - e_delete ed + length (e_insert ed), False)"
proof -
  consider "a < e_offset ed" | "a = e_offset ed" | "e_offset ed < a" "a < e_offset ed + e_delete ed"
    | "e_offset ed < a" "e_offset ed + e_delete ed \<le> a" by linarith
  then show thesis
  proof cases
    case 1
    then show thesis by (intro Left) (simp_all add: map_point_def Let_def)
  next
    case 2
    then show thesis by (cases bias) (auto intro: Left At simp: map_point_def Let_def)
  next
    case 3
    then show thesis by (intro Inside) (simp_all add: map_point_def Let_def)
  next
    case 4
    then show thesis by (intro Right) (simp_all add: map_point_def Let_def)
  qed
qed

text \<open>With bias \<open>After\<close> a point at the start of a replaced span can pass one inside the span.\<close>

lemma map_point_mono: "a \<le> b \<Longrightarrow> fst (map_point a Before ed) \<le> fst (map_point b Before ed)"
  by (rule map_point_cases [of a ed Before]; rule map_point_cases [of b ed Before]) auto

lemma map_through_fst_Cons: "fst (map_through a bias (e # es)) = fst (map_through (fst (map_point a bias e)) bias es)"
  by (simp add: split_beta)

lemma map_through_mono: "a \<le> b \<Longrightarrow> fst (map_through a Before es) \<le> fst (map_through b Before es)"
proof (induction es arbitrary: a b)
  case (Cons e es)
  then show ?case using map_point_mono unfolding map_through_fst_Cons by blast
qed simp

text \<open>A step on char boundaries of the current text.\<close>

definition step_ok :: "string \<Rightarrow> edit \<Rightarrow> bool" where
  "step_ok t e \<longleftrightarrow> boundary t (e_offset e) \<and> boundary t (e_offset e + e_delete e) \<and> from_utf8 (e_insert e)"

fun steps_ok :: "string \<Rightarrow> edit list \<Rightarrow> bool" where
  "steps_ok t [] = True"
| "steps_ok t (e # es) = (step_ok t e \<and> steps_ok (apply_edit t e) es)"

lemma step_ok_parts:
  assumes "from_utf8 t" and "step_ok t e"
  shows "from_utf8 (take (e_offset e) t)" "from_utf8 (drop (e_offset e + e_delete e) t)"
    "e_offset e + e_delete e \<le> length t" "from_utf8 (apply_edit t e)"
  using assms boundary_split [OF assms(1)] boundary_le
  by (auto simp: step_ok_def apply_edit_def)

lemma map_point_boundary:
  assumes "from_utf8 t" and "step_ok t e" and "boundary t a"
  shows "boundary (apply_edit t e) (fst (map_point a bias e))"
proof -
  note parts = step_ok_parts [OF assms(1,2)]
  let ?p = "e_offset e" and ?z = "e_offset e + e_delete e" and ?t = "apply_edit t e"
  have ins: "from_utf8 (e_insert e)" using assms(2) by (simp add: step_ok_def)
  have at_p: "boundary ?t ?p"
    using split_boundary [of "e_insert e @ drop ?z t" "take ?p t"] parts ins by (auto simp: apply_edit_def)
  have after: "boundary ?t (?p + length (e_insert e))"
    using split_boundary [of "drop ?z t" "take ?p t @ e_insert e"] parts by (simp add: apply_edit_def)
  show ?thesis
  proof (cases rule: map_point_cases [of a e bias])
    case Left
    then show ?thesis
      using at_p assms(3) parts(3) by (cases "a = ?p") (auto simp: boundary_def apply_edit_def nth_append)
  next
    case At
    then show ?thesis using after by simp
  next
    case Inside
    then show ?thesis using at_p by simp
  next
    case Right
    have "?t ! (a - e_delete e + length (e_insert e)) = t ! a" if "a < length t"
    proof -
      have "?t = (take ?p t @ e_insert e) @ drop ?z t" by (simp add: apply_edit_def)
      moreover have "a - e_delete e + length (e_insert e) = length (take ?p t @ e_insert e) + (a - ?z)"
        using Right parts(3) by simp
      moreover have "drop ?z t ! (a - ?z) = t ! a" using parts(3) Right(2) by simp
      ultimately show ?thesis by (simp only: nth_append_length_plus)
    qed
    moreover have "length ?t = length t - e_delete e + length (e_insert e)"
      using parts(3) by (simp add: apply_edit_def)
    ultimately show ?thesis using Right assms(3) boundary_le [OF assms(3)] by (auto simp: boundary_def split: if_splits)
  qed
qed

lemma map_through_boundary:
  "from_utf8 t \<Longrightarrow> steps_ok t es \<Longrightarrow> boundary t a \<Longrightarrow>
     boundary (apply_edits t es) (fst (map_through a bias es))"
proof (induction es arbitrary: t a)
  case (Cons e es)
  then show ?case
    using map_point_boundary [of t e a bias] step_ok_parts(4) [of t e]
    unfolding map_through_fst_Cons by simp
qed simp

text \<open>A canonical sequence on boundaries of the base text is on boundaries at every step.\<close>

lemma canonical_steps_ok:
  assumes "sim_base b p s" and "canonical_from p es"
    and "list_all (\<lambda>e. boundary b (e_offset e) \<and> boundary b (e_offset e + e_delete e)) es"
    and "list_all (\<lambda>e. from_utf8 (e_insert e)) es"
  shows "steps_ok s es"
  using assms
proof (induction es arbitrary: p s)
  case (Cons e es)
  have e: "e_offset e + e_delete e \<le> p" "boundary b (e_offset e)" "boundary b (e_offset e + e_delete e)"
    "from_utf8 (e_insert e)" using Cons.prems by simp_all
  then have "step_ok s e"
    using sim_base_boundary [OF Cons.prems(1)] by (auto simp: step_ok_def)
  then show ?case using Cons.IH [OF sim_base_step [OF Cons.prems(1) e]] Cons.prems by simp
qed simp

lemma base_steps_ok:
  assumes "from_utf8 t" and "canonical_from (length t) es"
    and "list_all (\<lambda>e. boundary t (e_offset e) \<and> boundary t (e_offset e + e_delete e)) es"
    and "list_all (\<lambda>e. from_utf8 (e_insert e)) es"
  shows "steps_ok t es"
  using canonical_steps_ok [OF _ assms(2-4)] assms(1) by (simp add: sim_base_def)

text \<open>The offsets of a named anchor and of a selection.\<close>

definition anchor_in :: "string \<Rightarrow> named_anchor \<Rightarrow> bool" where
  "anchor_in t na \<longleftrightarrow> boundary t (a_offset (na_start na))
     \<and> (case na_end na of None \<Rightarrow> True
        | Some e \<Rightarrow> boundary t (a_offset e) \<and> a_offset (na_start na) \<le> a_offset e)"

definition selection_in :: "string \<Rightarrow> selection \<Rightarrow> bool" where
  "selection_in t s \<longleftrightarrow> boundary t (sel_anchor s) \<and> boundary t (sel_head s)"

lemma collapse_offset [simp]: "a_offset (collapse c rev' a) = a_offset a"
  by (simp add: collapse_def)

lemma named_anchor_map_in:
  assumes "from_utf8 t" and "steps_ok t es" and "anchor_in t na"
  shows "anchor_in (apply_edits t es) (named_anchor_map es rev' na)"
  using assms map_through_boundary [OF assms(1,2)]
  by (auto simp: anchor_in_def named_anchor_map_def Let_def split_beta min_def split: option.splits)

lemma selection_map_in:
  assumes "from_utf8 t" and "steps_ok t es" and "selection_in t s"
  shows "selection_in (apply_edits t es) (selection_map es bias s)"
  using assms map_through_boundary [OF assms(1,2)] by (simp add: selection_in_def selection_map_def)

section \<open>Properties\<close>

text \<open>A point mapped through an edit stays inside the text, on a char boundary, and keeps its
  side: a point before the edit keeps every byte on its left, a point behind it every byte on its
  right; only a point strictly inside the deleted span collapses, and it collapses to the span's
  start.  Mapping with
  bias \<^verbatim>\<open>Before\<close> never reorders two points.\<close>

theorem map_point_tracks_text:
  assumes "from_utf8 t" and "step_ok t e" and "boundary t a" and "a \<le> b"
  shows "boundary (apply_edit t e) (fst (map_point a bias e))
    \<and> (snd (map_point a bias e) \<longleftrightarrow> e_offset e < a \<and> a < e_offset e + e_delete e)
    \<and> (snd (map_point a bias e) \<longrightarrow> fst (map_point a bias e) = e_offset e)
    \<and> (a < e_offset e \<or> a = e_offset e \<and> bias = Before \<longrightarrow>
        take (fst (map_point a bias e)) (apply_edit t e) = take a t)
    \<and> (e_offset e + e_delete e \<le> a \<and> (e_offset e < a \<or> bias = After) \<longrightarrow>
        drop (fst (map_point a bias e)) (apply_edit t e) = drop a t)
    \<and> fst (map_point a Before e) \<le> fst (map_point b Before e)"
proof -
  have b: "boundary (apply_edit t e) (fst (map_point a bias e))" by (rule map_point_boundary [OF assms(1-3)])
  have m: "fst (map_point a Before e) \<le> fst (map_point b Before e)" by (rule map_point_mono [OF assms(4)])
  have z: "e_offset e + e_delete e \<le> length t" by (rule step_ok_parts [OF assms(1,2)])
  show ?thesis
    by (rule map_point_cases [of a e bias])
      (use b m z in \<open>auto simp: apply_edit_def min_def\<close>)
qed

theorem map_point_tracks_text_witness:
  "take (fst (map_point 1 Before \<lparr>e_offset = 1, e_delete = 1, e_insert = ''xy''\<rparr>)) ''axyc'' = ''a''
   \<and> drop (fst (map_point 2 Before \<lparr>e_offset = 1, e_delete = 1, e_insert = ''xy''\<rparr>)) ''axyc'' = ''c''"
proof -
  have v: "from_utf8 ''abc''" "from_utf8 ''xy''"
    unfolding from_utf8_iff
    by (rule exI [of _ "[''a'', ''b'', ''c'']"], simp add: utf8_char_def lead_len_def byte_def,
        rule exI [of _ "[''x'', ''y'']"], simp add: utf8_char_def lead_len_def byte_def)
  have ok: "step_ok ''abc'' \<lparr>e_offset = 1, e_delete = 1, e_insert = ''xy''\<rparr>"
    using v by (simp add: step_ok_def boundary_def is_continuation_def byte_def)
  have "boundary ''abc'' 1" "boundary ''abc'' 2" by (simp_all add: boundary_def is_continuation_def byte_def)
  then show ?thesis
    using map_point_tracks_text [OF v(1) ok, of 1 1 Before] map_point_tracks_text [OF v(1) ok, of 2 2 Before]
    by (simp add: apply_edit_def map_point_def)
qed

text \<open>A non-empty range anchor is not expanded and loses nothing when an edit lies outside it, the
  edges included: text inserted at its start or at its end stays outside, and the range still denotes
  the same bytes.\<close>

theorem range_anchor_keeps_bytes:
  assumes "na_end na = Some z" and "a_offset (na_start na) < a_offset z" and "a_offset z \<le> length t"
    and "e_offset ed + e_delete ed \<le> length t"
    and "e_offset ed + e_delete ed \<le> a_offset (na_start na) \<or> a_offset z \<le> e_offset ed"
  shows "\<exists>z'. na_end (named_anchor_map [ed] rev' na) = Some z'
    \<and> slice (apply_edit t ed) (a_offset (na_start (named_anchor_map [ed] rev' na))) (a_offset z')
        = slice t (a_offset (na_start na)) (a_offset z)"
proof -
  let ?s = "a_offset (na_start na)" and ?e = "a_offset z"
  have in_t: "in_text (length t) ed" using assms(4) by (simp add: in_text_def)
  have map: "\<exists>z'. na_end (named_anchor_map [ed] rev' na) = Some z' \<and> a_offset z' = fst (map_point ?e Before ed)
     \<and> a_offset (na_start (named_anchor_map [ed] rev' na)) = min (fst (map_point ?s After ed)) (fst (map_point ?e Before ed))"
    using assms(1,2) by (simp add: named_anchor_map_def split_beta)
  from assms(5) show ?thesis
  proof
    assume left: "e_offset ed + e_delete ed \<le> ?s"
    then have "map_point ?s After ed = (?s - e_delete ed + length (e_insert ed), False)"
      "map_point ?e Before ed = (?e - e_delete ed + length (e_insert ed), False)"
      using assms(2) by (auto simp: map_point_def Let_def)
    then show ?thesis
      using map apply_edit_slice_right [OF in_t left, of ?e] assms(2) by auto
  next
    assume right: "?e \<le> e_offset ed"
    then have "map_point ?s After ed = (?s, False)" "map_point ?e Before ed = (?e, False)"
      using assms(2) by (auto simp: map_point_def Let_def)
    then show ?thesis
      using map apply_edit_slice_left [OF in_t right, of ?s] assms(2) by auto
  qed
qed

theorem range_anchor_keeps_bytes_witness:
  "\<exists>z'. na_end (named_anchor_map [\<lparr>e_offset = 1, e_delete = 0, e_insert = ''XY''\<rparr>] 7
        \<lparr>na_name = ''r'', na_start = \<lparr>a_offset = 1, a_bias = After, a_collapsed_rev = None\<rparr>,
          na_end = Some \<lparr>a_offset = 3, a_bias = Before, a_collapsed_rev = None\<rparr>\<rparr>) = Some z'
     \<and> a_offset z' = 5"
  using range_anchor_keeps_bytes [of "\<lparr>na_name = ''r'', na_start = \<lparr>a_offset = 1, a_bias = After, a_collapsed_rev = None\<rparr>,
          na_end = Some \<lparr>a_offset = 3, a_bias = Before, a_collapsed_rev = None\<rparr>\<rparr>"
      "\<lparr>a_offset = 3, a_bias = Before, a_collapsed_rev = None\<rparr>" "''abcd''"
      "\<lparr>e_offset = 1, e_delete = 0, e_insert = ''XY''\<rparr>" 7]
  by (simp add: named_anchor_map_def map_point_def collapse_def)

end
