(* ===== verification/Cosmix_Map.thy ===== *)
theory Cosmix_Map
  imports Cosmix_Prelude
begin

text \<open>
  Rust's \<^verbatim>\<open>BTreeMap\<close>: an association list in ascending key order, so that iteration is the
  map's iteration.  The locale \<open>ordered_map\<close> is the interface the components rely on; the
  association lists are its interpretation.
\<close>

type_synonym ('k, 'v) bmap = "('k \<times> 'v) list"

definition bm_get :: "('k, 'v) bmap \<Rightarrow> 'k \<Rightarrow> 'v option" where
  "bm_get m k = map_of m k"

fun bm_insert :: "'k::linorder \<Rightarrow> 'v \<Rightarrow> ('k, 'v) bmap \<Rightarrow> ('k, 'v) bmap" where
  "bm_insert k v [] = [(k, v)]"
| "bm_insert k v ((k', v') # m) =
     (if k < k' then (k, v) # (k', v') # m
      else if k = k' then (k, v) # m
      else (k', v') # bm_insert k v m)"

definition bm_remove :: "'k \<Rightarrow> ('k, 'v) bmap \<Rightarrow> ('k, 'v) bmap" where
  "bm_remove k m = filter (\<lambda>(k', _). k' \<noteq> k) m"

definition bm_contains :: "('k, 'v) bmap \<Rightarrow> 'k \<Rightarrow> bool" where
  "bm_contains m k = (bm_get m k \<noteq> None)"

definition bm_map_values :: "('k \<Rightarrow> 'v \<Rightarrow> 'w) \<Rightarrow> ('k, 'v) bmap \<Rightarrow> ('k, 'w) bmap" where
  "bm_map_values f m = map (\<lambda>(k, v). (k, f k v)) m"

definition bm_retain :: "('k \<Rightarrow> 'v \<Rightarrow> bool) \<Rightarrow> ('k, 'v) bmap \<Rightarrow> ('k, 'v) bmap" where
  "bm_retain p m = filter (\<lambda>(k, v). p k v) m"

definition bm_inv :: "('k::linorder, 'v) bmap \<Rightarrow> bool" where
  "bm_inv m \<longleftrightarrow> sorted_wrt (<) (map fst m)"

section \<open>The interface\<close>

locale ordered_map =
  fixes lookup :: "'m \<Rightarrow> 'k::linorder \<Rightarrow> 'v option"
    and upd :: "'k \<Rightarrow> 'v \<Rightarrow> 'm \<Rightarrow> 'm"
    and remove :: "'k \<Rightarrow> 'm \<Rightarrow> 'm"
    and size_of :: "'m \<Rightarrow> nat"
    and invar :: "'m \<Rightarrow> bool"
  assumes upd_invar: "invar m \<Longrightarrow> invar (upd k v m)"
    and remove_invar: "invar m \<Longrightarrow> invar (remove k m)"
    and lookup_upd: "invar m \<Longrightarrow> lookup (upd k v m) = (lookup m)(k \<mapsto> v)"
    and lookup_remove: "invar m \<Longrightarrow> lookup (remove k m) = (lookup m)(k := None)"
    and size_lookup: "invar m \<Longrightarrow> size_of m = card (dom (lookup m)) \<and> finite (dom (lookup m))"
begin

lemma size_upd:
  "invar m \<Longrightarrow> size_of (upd k v m) = (if lookup m k = None then Suc (size_of m) else size_of m)"
  using size_lookup [of m] size_lookup [of "upd k v m"] upd_invar [of m k v]
  by (auto simp: lookup_upd card_insert_if domIff insert_absorb)

lemma size_remove_le: "invar m \<Longrightarrow> size_of (remove k m) \<le> size_of m"
  using size_lookup [of m] size_lookup [of "remove k m"] remove_invar [of m k]
  by (auto simp: lookup_remove card_Diff_subset_Int intro: card_mono)

text \<open>A table that admits a new key only below its limit never exceeds it.\<close>

lemma size_upd_limit:
  "invar m \<Longrightarrow> size_of m \<le> n \<Longrightarrow> lookup m k \<noteq> None \<or> size_of m < n \<Longrightarrow> size_of (upd k v m) \<le> n"
  by (auto simp: size_upd)

end

section \<open>Association lists implement it\<close>

lemma set_bm_insert: "set (bm_insert k v m) \<subseteq> insert (k, v) (set m)"
  by (induction m) (auto split: if_splits)

lemma fst_set_bm_insert: "set (map fst (bm_insert k v m)) = insert k (set (map fst m))"
  by (induction k v m rule: bm_insert.induct) (simp_all add: insert_commute)

lemma bm_inv_insert: "bm_inv m \<Longrightarrow> bm_inv (bm_insert k v m)"
proof (induction m)
  case (Cons p m)
  obtain k' v' where p: "p = (k', v')" by (cases p)
  show ?case
    using Cons fst_set_bm_insert [of k v m] by (auto simp: p bm_inv_def simp del: set_map)
qed (simp add: bm_inv_def)

lemma bm_get_insert: "bm_get (bm_insert k v m) = (bm_get m)(k \<mapsto> v)"
  unfolding bm_get_def by (induction m) (auto simp: fun_eq_iff)

lemma bm_inv_remove: "bm_inv m \<Longrightarrow> bm_inv (bm_remove k m)"
  by (simp add: bm_inv_def bm_remove_def sorted_wrt_map sorted_wrt_filter)

lemma bm_get_remove: "bm_get (bm_remove k m) = (bm_get m)(k := None)"
  unfolding bm_get_def bm_remove_def by (induction m) (auto simp: fun_eq_iff)

lemma bm_inv_map_values [simp]: "bm_inv (bm_map_values f m) = bm_inv m"
  by (simp add: bm_inv_def bm_map_values_def comp_def split_beta)

lemma bm_get_map_values: "bm_get (bm_map_values f m) k = map_option (f k) (bm_get m k)"
  unfolding bm_get_def bm_map_values_def by (induction m) auto

lemma bm_inv_retain: "bm_inv m \<Longrightarrow> bm_inv (bm_retain p m)"
  by (simp add: bm_inv_def bm_retain_def sorted_wrt_map sorted_wrt_filter)

lemma bm_inv_distinct: "bm_inv m \<Longrightarrow> distinct (map fst m)"
  unfolding bm_inv_def using strict_sorted_iff by auto

lemma bm_get_retain:
  "bm_inv m \<Longrightarrow> bm_get (bm_retain p m) k = (case bm_get m k of None \<Rightarrow> None | Some v \<Rightarrow> if p k v then Some v else None)"
proof -
  assume "bm_inv m"
  then have "distinct (map fst m)" by (rule bm_inv_distinct)
  then show ?thesis
    unfolding bm_get_def bm_retain_def
  proof (induction m)
    case (Cons a m)
    have "k \<notin> fst ` set m \<Longrightarrow> map_of (filter (\<lambda>(k, v). p k v) m) k = None"
      by (auto simp: map_of_eq_None_iff)
    then show ?case using Cons by (cases a) (auto simp: map_of_eq_None_iff)
  qed simp
qed

interpretation bm: ordered_map bm_get bm_insert bm_remove length bm_inv
proof unfold_locales
  fix m :: "('k::linorder \<times> 'v) list"
  assume "bm_inv m"
  then have "distinct (map fst m)" by (rule bm_inv_distinct)
  then show "length m = card (dom (bm_get m)) \<and> finite (dom (bm_get m))"
    unfolding bm_get_def dom_map_of_conv_image_fst by (metis distinct_card finite_imageI finite_set length_map set_map)
qed (simp_all add: bm_inv_insert bm_inv_remove bm_get_insert bm_get_remove)


section \<open>Sums over the entries\<close>

definition bm_sum :: "('k \<Rightarrow> 'v \<Rightarrow> nat) \<Rightarrow> ('k, 'v) bmap \<Rightarrow> nat" where
  "bm_sum f m = sum_list (map (\<lambda>(k, v). f k v) m)"

definition bm_share :: "('k \<Rightarrow> 'v \<Rightarrow> nat) \<Rightarrow> ('k, 'v) bmap \<Rightarrow> 'k \<Rightarrow> nat" where
  "bm_share f m k = (case bm_get m k of None \<Rightarrow> 0 | Some v \<Rightarrow> f k v)"

lemma bm_inv_Cons: "bm_inv ((k, v) # m) \<longleftrightarrow> bm_inv m \<and> (\<forall>k'\<in>fst ` set m. k < k')"
  by (auto simp: bm_inv_def)

lemma bm_get_below: "\<forall>k'\<in>fst ` set m. k < k' \<Longrightarrow> bm_get m k = None"
  for k :: "'k::linorder" and m :: "('k, 'v) bmap"
  unfolding bm_get_def by (force simp: map_of_eq_None_iff)

lemma bm_sum_insert:
  "bm_inv m \<Longrightarrow> bm_sum f (bm_insert k v m) + bm_share f m k = bm_sum f m + f k v"
proof (induction m)
  case (Cons p m)
  obtain k' v' where p: "p = (k', v')" by (cases p)
  have m: "bm_inv m" "\<forall>x\<in>fst ` set m. k' < x" using Cons.prems by (simp_all add: p bm_inv_Cons)
  consider "k < k'" | "k = k'" | "k' < k" by fastforce
  then show ?case
  proof cases
    case 1
    then have "bm_get (p # m) k = None" using m p by (intro bm_get_below) auto
    then show ?thesis using 1 by (simp add: p bm_sum_def bm_share_def)
  next
    case 2
    then show ?thesis by (simp add: p bm_sum_def bm_share_def bm_get_def)
  next
    case 3
    then have "k \<noteq> k'" by simp
    then have "bm_share f (p # m) k = bm_share f m k" by (simp add: p bm_share_def bm_get_def)
    moreover have "bm_insert k v (p # m) = p # bm_insert k v m" using 3 by (auto simp: p)
    ultimately show ?thesis using Cons.IH [OF m(1)] by (simp add: p bm_sum_def)
  qed
qed (simp add: bm_sum_def bm_share_def bm_get_def)

lemma bm_sum_remove: "bm_inv m \<Longrightarrow> bm_sum f (bm_remove k m) + bm_share f m k = bm_sum f m"
proof (induction m)
  case (Cons p m)
  obtain k' v' where p: "p = (k', v')" by (cases p)
  have m: "bm_inv m" "\<forall>x\<in>fst ` set m. k' < x" using Cons.prems by (simp_all add: p bm_inv_Cons)
  show ?case
  proof (cases "k = k'")
    case True
    have "bm_remove k' m = m"
      using m(2) by (auto simp: bm_remove_def intro!: filter_True)
    then show ?thesis using True by (simp add: p bm_sum_def bm_share_def bm_get_def bm_remove_def)
  next
    case False
    then have "bm_share f (p # m) k = bm_share f m k" "bm_remove k (p # m) = p # bm_remove k m"
      by (simp_all add: p bm_share_def bm_get_def bm_remove_def)
    then show ?thesis using Cons.IH [OF m(1)] by (simp add: p bm_sum_def)
  qed
qed (simp add: bm_sum_def bm_share_def bm_get_def bm_remove_def)

lemma bm_sum_mono: "(\<And>k v. (k, v) \<in> set m \<Longrightarrow> f k v \<le> g k v) \<Longrightarrow> bm_sum f m \<le> bm_sum g m"
  unfolding bm_sum_def by (induction m) (auto simp: add_mono)

lemma bm_sum_1 [simp]: "bm_sum (\<lambda>_ _. 1) m = length m"
  by (induction m) (auto simp: bm_sum_def)

lemma length_filter_bm_sum: "length (filter (\<lambda>(k, v). P k v) m) = bm_sum (\<lambda>k v. if P k v then 1 else 0) m"
  by (induction m) (auto simp: bm_sum_def)

lemma bm_share_le_sum: "bm_inv m \<Longrightarrow> bm_share f m k \<le> bm_sum f m"
  using bm_sum_remove [of m f k] by linarith

end
