(* ===== verification/Edit_History.thy ===== *)
theory Edit_History
  imports Edit_Anchor Cosmix_Map
begin

text \<open>
  The op log (\<^verbatim>\<open>cosmix-edit-core/src/history.rs\<close>): log entries, undo lanes, retention.
  The log keeps a contiguous suffix of revisions.  The lemmas show that pushing keeps the
  suffix contiguous, within both retention limits, with an exact byte count and no group that
  reaches behind the suffix, and that the entries after a revision are found by index.
\<close>

section \<open>Definitions\<close>

type_synonym group = "nat \<times> nat"

datatype entry_kind = EditEntry | UndoEntry group | RedoEntry group | ReloadEntry

record log_entry =
  le_rev :: nat
  le_origin :: origin
  le_lane :: origin
  le_kind :: entry_kind
  le_edits :: "edit list"
  le_deleted :: "string list"
  le_via :: via
  le_op_id :: "string option"
  le_time_ms :: nat

record lane =
  l_undo :: "group list"
  l_redo :: "group list"

record op_log =
  ol_entries :: "log_entry list"
  ol_lanes :: "(origin, lane) bmap"
  ol_text_bytes :: nat
  ol_base :: nat

definition empty_lane :: lane where
  "empty_lane = \<lparr>l_undo = [], l_redo = []\<rparr>"

definition empty_log :: op_log where
  "empty_log = \<lparr>ol_entries = [], ol_lanes = [], ol_text_bytes = 0, ol_base = 0\<rparr>"

definition entry_text_bytes :: "log_entry \<Rightarrow> nat" where
  "entry_text_bytes e =
     sum_list (map (\<lambda>x. length (e_insert x)) (le_edits e)) + sum_list (map length (le_deleted e))"

text \<open>The trimming loop: what is kept, the byte count, the base, whether anything went.\<close>

fun trim_entries ::
  "log_entry list \<Rightarrow> nat \<Rightarrow> nat \<Rightarrow> bool \<Rightarrow> log_entry list \<times> nat \<times> nat \<times> bool" where
  "trim_entries [] bytes base trimmed = ([], bytes, base, trimmed)"
| "trim_entries (old # rest) bytes base trimmed =
     (if length (old # rest) > LOG_MAX_ENTRIES \<or> bytes > LOG_MAX_TEXT_BYTES
      then trim_entries rest (bytes - entry_text_bytes old) (le_rev old) True
      else (old # rest, bytes, base, trimmed))"

definition retain_groups :: "nat \<Rightarrow> lane \<Rightarrow> lane" where
  "retain_groups base l =
     \<lparr>l_undo = filter (\<lambda>g. fst g > base) (l_undo l), l_redo = filter (\<lambda>g. fst g > base) (l_redo l)\<rparr>"

definition log_push :: "log_entry \<Rightarrow> op_log \<Rightarrow> nat option \<times> op_log" where
  "log_push entry log =
     (let (entries, bytes, base, trimmed) =
            trim_entries (ol_entries log @ [entry]) (ol_text_bytes log + entry_text_bytes entry) (ol_base log) False;
          log = log\<lparr>ol_entries := entries, ol_text_bytes := bytes, ol_base := base\<rparr>
      in if \<not> trimmed then (None, log)
         else (Some base,
               log\<lparr>ol_lanes := bm_retain (\<lambda>_ l. l_undo l \<noteq> [] \<or> l_redo l \<noteq> [])
                     (bm_map_values (\<lambda>_. retain_groups base) (ol_lanes log))\<rparr>))"

definition log_after :: "nat \<Rightarrow> op_log \<Rightarrow> log_entry list" where
  "log_after rev' log =
     (let skip = (case ol_entries log of
                    [] \<Rightarrow> 0
                  | first # _ \<Rightarrow> saturating_add rev' 1 - le_rev first)
      in drop (min skip (length (ol_entries log))) (ol_entries log))"

definition log_since :: "nat \<Rightarrow> nat \<Rightarrow> op_log \<Rightarrow> log_entry list" where
  "log_since since_rev n log = take n (log_after since_rev log)"

definition oldest_rev :: "op_log \<Rightarrow> nat" where
  "oldest_rev log = ol_base log"

section \<open>Invariant\<close>

definition groups_in :: "nat \<Rightarrow> nat \<Rightarrow> lane \<Rightarrow> bool" where
  "groups_in base rev' l \<longleftrightarrow>
     (\<forall>g\<in>set (l_undo l) \<union> set (l_redo l). base < fst g \<and> fst g \<le> snd g \<and> snd g \<le> rev')"

lemma groups_in_mono: "groups_in base r l \<Longrightarrow> groups_in base (Suc r) l"
  unfolding groups_in_def by (blast intro: le_SucI)

definition suffix_inv :: "nat \<Rightarrow> op_log \<Rightarrow> bool" where
  "suffix_inv rev' log \<longleftrightarrow>
     ol_base log \<le> rev' \<and> map le_rev (ol_entries log) = [Suc (ol_base log)..<Suc rev']
     \<and> ol_text_bytes log = sum_list (map entry_text_bytes (ol_entries log))
     \<and> ol_text_bytes log \<le> LOG_MAX_TEXT_BYTES \<and> length (ol_entries log) \<le> LOG_MAX_ENTRIES"

definition lanes_inv :: "nat \<Rightarrow> op_log \<Rightarrow> bool" where
  "lanes_inv rev' log \<longleftrightarrow>
     bm_inv (ol_lanes log) \<and> (\<forall>(o', l)\<in>set (ol_lanes log). groups_in (ol_base log) rev' l)"

definition log_inv :: "nat \<Rightarrow> op_log \<Rightarrow> bool" where
  "log_inv rev' log \<longleftrightarrow> suffix_inv rev' log \<and> lanes_inv rev' log"

lemmas log_inv_defs = log_inv_def suffix_inv_def lanes_inv_def

lemma empty_log_inv: "log_inv 0 empty_log"
  by (simp add: log_inv_defs empty_log_def bm_inv_def)

lemma trim_entries_spec:
  assumes "trim_entries es bytes base tr = (es', bytes', base', tr')"
    and "map le_rev es = [Suc base..<Suc base + length es]"
    and "bytes = sum_list (map entry_text_bytes es)"
  shows "\<exists>gone. es = gone @ es' \<and> base' = base + length gone \<and> tr' = (tr \<or> gone \<noteq> [])
    \<and> bytes' = sum_list (map entry_text_bytes es') \<and> bytes' \<le> LOG_MAX_TEXT_BYTES
    \<and> length es' \<le> LOG_MAX_ENTRIES"
  using assms
proof (induction es bytes base tr rule: trim_entries.induct)
  case (1 bytes base trimmed)
  then show ?case by (simp add: LOG_MAX_TEXT_BYTES_def)
next
  case (2 old rest bytes base trimmed)
  show ?case
  proof (cases "length (old # rest) > LOG_MAX_ENTRIES \<or> bytes > LOG_MAX_TEXT_BYTES")
    case True
    have head: "le_rev old = Suc base" "map le_rev rest = [Suc (Suc base)..<Suc (Suc base) + length rest]"
      using "2.prems"(2) by (simp_all add: upt_conv_Cons del: upt_Suc)
    obtain gone where "rest = gone @ es'" "base' = le_rev old + length gone" "tr'"
      "bytes' = sum_list (map entry_text_bytes es')" "bytes' \<le> LOG_MAX_TEXT_BYTES" "length es' \<le> LOG_MAX_ENTRIES"
      using "2.IH" [OF True] "2.prems" True head by auto
    then show ?thesis using head by (intro exI [of _ "old # gone"]) simp
  next
    case False
    then show ?thesis using "2.prems" by (intro exI [of _ "[]"]) auto
  qed
qed

lemma upt_append_tail:
  assumes "map f (a @ b) = [m..<n]"
  shows "map f b = [m + length a..<n]"
proof -
  have "map f b = drop (length a) (map f (a @ b))" by simp
  also have "\<dots> = [m + length a..<n]" unfolding assms by (simp add: drop_upt)
  finally show ?thesis .
qed

lemma trim_entries_id:
  "length es \<le> LOG_MAX_ENTRIES \<Longrightarrow> bytes \<le> LOG_MAX_TEXT_BYTES \<Longrightarrow> trim_entries es bytes base tr = (es, bytes, base, tr)"
  by (cases es) auto

lemma log_push_spec:
  assumes "suffix_inv rev' log" and "lanes_inv (Suc rev') log" and "le_rev entry = Suc rev'"
    and "log_push entry log = (res, log')"
  obtains gone where "ol_entries log @ [entry] = gone @ ol_entries log'"
    and "ol_base log' = ol_base log + length gone" and "log_inv (Suc rev') log'"
    and "res = (if gone = [] then None else Some (ol_base log'))"
    and "gone = [] \<Longrightarrow> ol_lanes log' = ol_lanes log"
    and "length (ol_entries log) < LOG_MAX_ENTRIES \<and> ol_text_bytes log + entry_text_bytes entry \<le> LOG_MAX_TEXT_BYTES
      \<Longrightarrow> gone = []"
proof -
  let ?all = "ol_entries log @ [entry]"
  obtain es bytes base tr where
    tr: "trim_entries ?all (ol_text_bytes log + entry_text_bytes entry) (ol_base log) False = (es, bytes, base, tr)"
    by (metis prod_cases4)
  have inv: "ol_base log \<le> rev'" "map le_rev (ol_entries log) = [Suc (ol_base log)..<Suc rev']"
    "ol_text_bytes log = sum_list (map entry_text_bytes (ol_entries log))"
    using assms(1) by (simp_all add: suffix_inv_def)
  then have len: "length (ol_entries log) = rev' - ol_base log"
    by (metis diff_Suc_Suc length_map length_upt)
  have revs: "map le_rev ?all = [Suc (ol_base log)..<Suc (Suc rev')]"
    using inv(1,2) assms(3) by simp
  have n: "Suc (Suc rev') = Suc (ol_base log) + length ?all" using len inv(1) by simp
  obtain gone where g: "?all = gone @ es" "base = ol_base log + length gone" "tr = (gone \<noteq> [])"
    "bytes = sum_list (map entry_text_bytes es)" "bytes \<le> LOG_MAX_TEXT_BYTES" "length es \<le> LOG_MAX_ENTRIES"
    using trim_entries_spec [OF tr revs [unfolded n]] inv(3) by auto
  have revs': "map le_rev es = [Suc base..<Suc (Suc rev')]"
    using upt_append_tail [OF revs [unfolded g(1)]] g(2) by (simp del: upt_Suc)
  have base: "base \<le> Suc rev'"
  proof -
    have "length gone \<le> length ?all" by (simp add: g(1))
    then show ?thesis using len inv(1) g(2) by simp
  qed
  define lanes where "lanes = bm_retain (\<lambda>_ l. l_undo l \<noteq> [] \<or> l_redo l \<noteq> [])
      (bm_map_values (\<lambda>_. retain_groups base) (ol_lanes log))"
  have bm: "bm_inv lanes" using assms(2) by (simp add: lanes_def bm_inv_retain lanes_inv_def)
  have lanes_groups: "\<forall>(o', l)\<in>set lanes. groups_in base (Suc rev') l"
  proof (clarify)
    fix o' l
    assume "(o', l) \<in> set lanes"
    then obtain l0 where "(o', l0) \<in> set (ol_lanes log)" and l: "l = retain_groups base l0"
      by (auto simp: lanes_def bm_retain_def bm_map_values_def)
    then have "groups_in (ol_base log) (Suc rev') l0" using assms(2) by (auto simp: lanes_inv_def)
    then show "groups_in base (Suc rev') l" by (auto simp: l retain_groups_def groups_in_def)
  qed
  have log': "log' = (if gone = [] then log\<lparr>ol_entries := es, ol_text_bytes := bytes, ol_base := base\<rparr>
      else log\<lparr>ol_entries := es, ol_text_bytes := bytes, ol_base := base, ol_lanes := lanes\<rparr>)"
    and res: "res = (if gone = [] then None else Some base)"
    using assms(4) g(3) by (auto simp: log_push_def tr Let_def lanes_def)
  have "log_inv (Suc rev') log'"
    using base revs' g assms(2) bm lanes_groups by (simp add: log' log_inv_defs del: upt_Suc)
  moreover have "gone = []"
    if "length (ol_entries log) < LOG_MAX_ENTRIES \<and> ol_text_bytes log + entry_text_bytes entry \<le> LOG_MAX_TEXT_BYTES"
  proof -
    have "es = ?all" using tr trim_entries_id [of ?all] that by simp
    then show ?thesis using g(1) by simp
  qed
  ultimately show thesis
    using that [of gone] g(1,2) res by (simp add: log')
qed

text \<open>The entries after a revision are the ones with a larger revision number.\<close>

lemma filter_upt_gt: "filter (\<lambda>x. r < x) [m..<n] = drop (Suc r - m) [m..<n]"
  by (induction n) (auto simp: drop_upt not_less)

lemma drop_map_filter:
  assumes "map f xs = [m..<n]"
  shows "drop (Suc r - m) xs = filter (\<lambda>x. r < f x) xs"
  using assms
proof (induction xs arbitrary: m)
  case (Cons x xs)
  have x: "f x = m" and xs: "map f xs = [Suc m..<n]"
    using Cons.prems upt_eq_Cons_conv [of m n "f x" "map f xs"] by auto
  show ?case
  proof (cases "r < m")
    case True
    have "f ` set xs = {Suc m..<n}" using arg_cong [OF xs, of set] by simp
    then have "f y \<in> {Suc m..<n}" if "y \<in> set xs" for y using that by blast
    then have "\<forall>y\<in>set xs. r < f y" using True by fastforce
    then show ?thesis using True x by simp
  next
    case False
    then show ?thesis using Cons.IH [OF xs] x by (simp add: Suc_diff_le)
  qed
qed simp

lemma log_after_filter:
  assumes "log_inv cur log" and "cur < u64_max" and "r \<le> cur"
  shows "log_after r log = filter (\<lambda>e. r < le_rev e) (ol_entries log)"
proof (cases "ol_entries log")
  case Nil
  then show ?thesis by (simp add: log_after_def)
next
  case (Cons first rest)
  have revs: "map le_rev (ol_entries log) = [Suc (ol_base log)..<Suc cur]"
    using assms(1) by (simp add: log_inv_defs)
  then have "le_rev first = Suc (ol_base log)"
    using Cons upt_eq_Cons_conv [of "Suc (ol_base log)" "Suc cur" "le_rev first" "map le_rev rest"] by simp
  moreover have "saturating_add r 1 = Suc r" using assms(2,3) by (simp add: saturating_add_def)
  ultimately have "log_after r log = drop (Suc r - Suc (ol_base log)) (ol_entries log)"
    using Cons by (simp add: log_after_def Let_def drop_Cons' min_def)
  then show ?thesis using drop_map_filter [OF revs] by simp
qed

section \<open>A history that replays\<close>

text \<open>\<open>replays t es t'\<close>: every entry is a canonical transaction on char boundaries of the text before
  it, records the text it removed, and the entries lead from \<open>t\<close> to \<open>t'\<close>.\<close>

definition entry_ok :: "string \<Rightarrow> log_entry \<Rightarrow> bool" where
  "entry_ok t e \<longleftrightarrow> canonical_from (length t) (le_edits e)
     \<and> list_all (\<lambda>x. boundary t (e_offset x) \<and> boundary t (e_offset x + e_delete x) \<and> from_utf8 (e_insert x)) (le_edits e)
     \<and> le_deleted e = deleted_texts t (le_edits e)"

fun replays :: "string \<Rightarrow> log_entry list \<Rightarrow> string \<Rightarrow> bool" where
  "replays t [] t' = (t = t')"
| "replays t (e # es) t' = (entry_ok t e \<and> replays (apply_edits t (le_edits e)) es t')"

lemma replays_append:
  "replays t (a @ b) t' \<longleftrightarrow> (\<exists>s. replays t a s \<and> replays s b t')"
  by (induction a arbitrary: t) auto

lemma entry_ok_steps:
  "from_utf8 t \<Longrightarrow> entry_ok t e \<Longrightarrow> steps_ok t (le_edits e)"
  by (rule base_steps_ok) (auto simp: entry_ok_def list_all_iff)

lemma steps_ok_utf8: "from_utf8 t \<Longrightarrow> steps_ok t es \<Longrightarrow> from_utf8 (apply_edits t es)"
  by (induction es arbitrary: t) (auto dest: step_ok_parts(4))

lemma replays_utf8: "replays t es t' \<Longrightarrow> from_utf8 t \<Longrightarrow> from_utf8 t'"
  by (induction es arbitrary: t) (auto dest: entry_ok_steps steps_ok_utf8)

lemma steps_ok_in_text: "from_utf8 t \<Longrightarrow> steps_ok t es \<Longrightarrow> all_in_text t es"
  by (induction es arbitrary: t) (auto dest: step_ok_parts simp: in_text_def)

lemma all_in_text_append:
  "all_in_text t (a @ b) \<longleftrightarrow> all_in_text t a \<and> all_in_text (apply_edits t a) b"
  by (induction a arbitrary: t) auto

lemma replays_edits:
  "replays t es t' \<Longrightarrow> from_utf8 t \<Longrightarrow>
     all_in_text t (concat (map le_edits es)) \<and> apply_edits t (concat (map le_edits es)) = t'"
proof (induction es arbitrary: t)
  case (Cons e es)
  then have ok: "steps_ok t (le_edits e)" by (auto intro: entry_ok_steps)
  have app: "apply_edits t (a @ b) = apply_edits (apply_edits t a) b" for a b :: "edit list"
    by (simp add: apply_edits_def)
  show ?case
    using Cons.IH [of "apply_edits t (le_edits e)"] Cons.prems steps_ok_utf8 [OF Cons.prems(2) ok]
      steps_ok_in_text [OF Cons.prems(2) ok] by (simp add: all_in_text_append app)
qed simp

section \<open>Properties\<close>

text \<open>Retention. Pushing the next revision keeps a contiguous suffix of revisions ending in it, an
  exact count of the stored text, both retention limits, and no undo or redo group that reaches
  behind the suffix; it reports the new oldest revision exactly when something was trimmed.\<close>

theorem log_push_retains:
  assumes "log_inv rev' log" and "le_rev entry = Suc rev'" and "log_push entry log = (res, log')"
  shows "log_inv (Suc rev') log'
    \<and> (\<exists>gone. ol_entries log @ [entry] = gone @ ol_entries log'
        \<and> ol_base log' = ol_base log + length gone
        \<and> res = (if gone = [] then None else Some (ol_base log')))"
proof -
  have "lanes_inv (Suc rev') log"
    using assms(1) groups_in_mono unfolding log_inv_def lanes_inv_def by blast
  then obtain gone where "ol_entries log @ [entry] = gone @ ol_entries log'"
    "ol_base log' = ol_base log + length gone" "log_inv (Suc rev') log'"
    "res = (if gone = [] then None else Some (ol_base log'))"
    using log_push_spec [OF _ _ assms(2,3)] assms(1) by (auto simp: log_inv_def)
  then show ?thesis by blast
qed

theorem log_push_retains_witness:
  "fst (log_push \<lparr>le_rev = 1, le_origin = Origin Human ''a'', le_lane = Origin Human ''a'', le_kind = EditEntry,
      le_edits = [], le_deleted = [], le_via = \<lparr>v_from = None, v_broker_origin = ''local'', v_broker_peer = None,
      v_broker_service = None\<rparr>, le_op_id = None, le_time_ms = 0\<rparr> empty_log) = None"
proof -
  let ?e = "\<lparr>le_rev = 1, le_origin = Origin Human ''a'', le_lane = Origin Human ''a'', le_kind = EditEntry,
      le_edits = [], le_deleted = [], le_via = \<lparr>v_from = None, v_broker_origin = ''local'', v_broker_peer = None,
      v_broker_service = None\<rparr>, le_op_id = None, le_time_ms = 0\<rparr>"
  obtain res log' where p: "log_push ?e empty_log = (res, log')" by fastforce
  then have "res = None"
    using log_push_retains [OF empty_log_inv _ p]
    by (auto simp: log_push_def empty_log_def entry_text_bytes_def LOG_MAX_ENTRIES_def LOG_MAX_TEXT_BYTES_def)
  then show ?thesis using p by simp
qed

text \<open>The index arithmetic that finds the entries after a revision returns exactly the retained
  entries with a larger revision, in order.\<close>

theorem log_after_exact:
  assumes "log_inv cur log" and "cur < u64_max" and "r \<le> cur"
  shows "log_after r log = filter (\<lambda>e. r < le_rev e) (ol_entries log)"
  using assms by (rule log_after_filter)

theorem log_after_exact_witness: "log_after 0 empty_log = []"
  using log_after_exact [OF empty_log_inv, of 0] by (simp add: u64_max_def empty_log_def)

end
