(* ===== verification/Cosmix_Pat.thy ===== *)
theory Cosmix_Pat
  imports Cosmix_Str
begin

text \<open>
  The operations of Rust's \<^verbatim>\<open>str\<close> on patterns of several bytes, \<^verbatim>\<open>lines\<close>, the whitespace tests on
  whole characters and the unsigned \<^verbatim>\<open>parse\<close>, with the laws the bus and the mesh theories rest on: when a
  pattern splits a string, that the lines of a joined list of lines are that list, that trimming is
  idempotent.
\<close>

section \<open>Definitions\<close>

definition strip_prefix :: "string \<Rightarrow> string \<Rightarrow> string option" where
  "strip_prefix p s = (if prefix p s then Some (drop (length p) s) else None)"

definition strip_suffix :: "string \<Rightarrow> string \<Rightarrow> string option" where
  "strip_suffix p s = (if suffix p s then Some (take (length s - length p) s) else None)"

lemma strip_prefix_take: "strip_prefix p s = (if take (length p) s = p then Some (drop (length p) s) else None)"
  by (metis append_eq_conv_conj prefix_def strip_prefix_def)

text \<open>\<^verbatim>\<open>split_once(pat)\<close>: the first occurrence from the left.\<close>

fun split_once_at :: "string \<Rightarrow> string \<Rightarrow> (string \<times> string) option" where
  "split_once_at p [] = (if p = [] then Some ([], []) else None)"
| "split_once_at p (c # s) =
     (if prefix p (c # s) then Some ([], drop (length p) (c # s))
      else case split_once_at p s of None \<Rightarrow> None | Some (a, b) \<Rightarrow> Some (c # a, b))"

text \<open>\<^verbatim>\<open>lines\<close> ends a line at a line feed and drops one carriage return before it; what follows the
  last line feed is a line unless it is empty, and keeps its carriage return.\<close>

definition strip_cr :: "string \<Rightarrow> string" where
  "strip_cr l = (case strip_suffix [CHR 0x0D] l of None \<Rightarrow> l | Some l' \<Rightarrow> l')"

function str_lines :: "string \<Rightarrow> string list" where
  "str_lines s =
     (if s = [] then []
      else case split_once (CHR 0x0A) s of
             None \<Rightarrow> [s]
           | Some (l, r) \<Rightarrow> strip_cr l # str_lines r)"
  by auto
termination
  by (relation "measure length") (auto simp: split_once_Some)

declare str_lines.simps [simp del]

text \<open>Tests of \<^verbatim>\<open>char::is_whitespace\<close> on the first character and on any character.\<close>

definition starts_with_space :: "string \<Rightarrow> bool" where
  "starts_with_space s \<longleftrightarrow> list_ex (\<lambda>w. prefix w s) white_space"

fun contains_space :: "string \<Rightarrow> bool" where
  "contains_space [] = False"
| "contains_space (c # s) \<longleftrightarrow> starts_with_space (c # s) \<or> contains_space s"

text \<open>\<^verbatim>\<open>parse\<close> of an unsigned integer of the given maximum: an optional plus sign, then at least one
  digit, every step checked against overflow.\<close>

definition digit_value :: "char \<Rightarrow> nat" where
  "digit_value c = of_char c - 48"

fun parse_digits :: "nat \<Rightarrow> nat \<Rightarrow> string \<Rightarrow> nat option" where
  "parse_digits m acc [] = Some acc"
| "parse_digits m acc (c # s) =
     (if \<not> is_ascii_digit c then None
      else if m < acc * 10 + digit_value c then None
      else parse_digits m (acc * 10 + digit_value c) s)"

definition parse_unsigned :: "nat \<Rightarrow> string \<Rightarrow> nat option" where
  "parse_unsigned m s =
     (let d = (case s of [] \<Rightarrow> [] | c # t \<Rightarrow> if c = CHR ''+'' then t else s)
      in if d = [] then None else parse_digits m 0 d)"

text \<open>The decimal text of a number.\<close>

fun nat_text :: "nat \<Rightarrow> string" where
  "nat_text n = (if n < 10 then [char_of (48 + n)] else nat_text (n div 10) @ [char_of (48 + n mod 10)])"

declare nat_text.simps [simp del]

lemma nat_text_digits: "nat_text n \<noteq> [] \<and> list_all is_ascii_digit (nat_text n)"
proof (induction n rule: nat_text.induct)
  case (1 n)
  have digit: "is_ascii_digit (char_of (48 + k))" if "k < 10" for k :: nat
    using that by (simp add: is_ascii_digit_def less_eq_char_def)
  show ?case
    using 1 digit [of n] digit [of "n mod 10"] by (subst (1 2) nat_text.simps) auto
qed

lemma nat_text_reads: "foldl (\<lambda>acc c. acc * 10 + digit_value c) 0 (nat_text n) = n"
proof (induction n rule: nat_text.induct)
  case (1 n)
  have digit: "digit_value (char_of (48 + k)) = k" if "k < 10" for k
    using that by (simp add: digit_value_def take_bit_eq_mod)
  show ?case using 1 digit [of n] digit [of "n mod 10"] by (subst nat_text.simps) auto
qed

lemma nat_text_inject: "nat_text m = nat_text n \<longleftrightarrow> m = n"
  by (metis nat_text_reads)

section \<open>Splitting at a pattern\<close>

lemma sep_unique:
  fixes c :: char
  assumes "c \<notin> set a" "c \<notin> set a'" "a @ c # b = a' @ c # b'"
  shows "a = a' \<and> b = b'"
  using assms split_once_Some [of c "a @ c # b"] by (metis option.inject prod.inject)

lemma split_once_at_Some:
  "split_once_at p s = Some (a, b) \<longleftrightarrow> s = a @ p @ b \<and> (\<forall>x y. s = x @ p @ y \<longrightarrow> length a \<le> length x)"
proof (induction s arbitrary: a)
  case Nil
  then show ?case by (auto simp: prefix_def)
next
  case (Cons c s)
  show ?case
  proof (cases "prefix p (c # s)")
    case True
    then obtain y where y: "c # s = p @ y" by (auto simp: prefix_def)
    then have "drop (length p) (c # s) = y" by (metis append_eq_conv_conj)
    then have "split_once_at p (c # s) = Some ([], y)" using True by simp
    moreover have "(c # s = a @ p @ b \<and> (\<forall>u v. c # s = u @ p @ v \<longrightarrow> length a \<le> length u)) \<longleftrightarrow> a = [] \<and> b = y"
      using y by (metis append_self_conv2 le_zero_eq length_0_conv list.size(3) same_append_eq zero_le)
    ultimately show ?thesis by auto
  next
    case False
    then have nx: "c # s = x @ p @ y \<Longrightarrow> x \<noteq> []" for x y by auto
    have step: "(\<exists>x' y. s = x' @ p @ y \<and> x = c # x') \<longleftrightarrow> (\<exists>y. c # s = x @ p @ y)" for x
      using nx [of x] by (cases x) auto
    show ?thesis
    proof (cases a)
      case Nil
      then show ?thesis using False nx [of "[]" b] by (auto split: option.splits)
    next
      case (Cons c' a')
      have "(\<forall>x y. c # s = x @ p @ y \<longrightarrow> Suc (length a') \<le> length x) \<longleftrightarrow>
            (\<forall>x y. s = x @ p @ y \<longrightarrow> length a' \<le> length x)"
      proof (intro iffI allI impI)
        fix x y
        assume "\<forall>x y. c # s = x @ p @ y \<longrightarrow> Suc (length a') \<le> length x" "s = x @ p @ y"
        then have "Suc (length a') \<le> length (c # x)" by (metis append_Cons)
        then show "length a' \<le> length x" by simp
      next
        fix x y
        assume A: "\<forall>x y. s = x @ p @ y \<longrightarrow> length a' \<le> length x" "c # s = x @ p @ y"
        then obtain x' where "x = c # x'" "s = x' @ p @ y" using nx [OF A(2)] by (cases x) auto
        then show "Suc (length a') \<le> length x" using A(1) by auto
      qed
      moreover have "split_once_at p (c # s) = Some (a, b) \<longleftrightarrow> c' = c \<and> split_once_at p s = Some (a', b)"
        using False Cons by (auto split: option.splits)
      ultimately show ?thesis using Cons Cons.IH [of a'] by auto
    qed
  qed
qed

lemma split_once_at_None: "split_once_at p s = None \<longleftrightarrow> \<not> sublist p s"
proof (induction s)
  case Nil
  then show ?case by simp
next
  case (Cons c s)
  then show ?case by (auto simp: sublist_Cons_right split: option.splits)
qed

section \<open>Lines\<close>

lemma str_lines_Nil [simp]: "str_lines [] = []"
  by (simp add: str_lines.simps)

lemma str_lines_append:
  "CHR 0x0A \<notin> set l \<Longrightarrow> str_lines (l @ CHR 0x0A # r) = strip_cr l # str_lines r"
  by (subst str_lines.simps) (simp add: split_once_Some [THEN iffD2])

lemma str_lines_last: "CHR 0x0A \<notin> set l \<Longrightarrow> l \<noteq> [] \<Longrightarrow> str_lines l = [l]"
  by (subst str_lines.simps) (simp add: split_once_None [THEN iffD2])

lemma strip_cr_id: "\<not> suffix [CHR 0x0D] l \<Longrightarrow> strip_cr l = l"
  by (simp add: strip_cr_def strip_suffix_def)

lemma set_strip_cr: "set (strip_cr l) \<subseteq> set l"
  by (auto simp: strip_cr_def strip_suffix_def dest: in_set_takeD split: option.splits if_splits)

lemma str_lines_no_newline: "l \<in> set (str_lines s) \<Longrightarrow> CHR 0x0A \<notin> set l"
proof (induction s arbitrary: l rule: str_lines.induct)
  case (1 s)
  show ?case
  proof (cases "s = [] \<or> split_once (CHR 0x0A) s = None")
    case True
    then have "str_lines s = (if s = [] then [] else [s])" by (subst str_lines.simps) auto
    then show ?thesis using 1(2) True by (auto simp: split_once_None split: if_splits)
  next
    case False
    then obtain a r where ar: "split_once (CHR 0x0A) s = Some (a, r)" "s \<noteq> []" by auto
    then have "str_lines s = strip_cr a # str_lines r" by (subst str_lines.simps) simp
    then show ?thesis using 1 ar set_strip_cr [of a] by (auto simp: split_once_Some)
  qed
qed

text \<open>Lines joined by line feeds, none of which ends in a carriage return, come back.\<close>

lemma str_lines_join:
  assumes "\<forall>l\<in>set ls. l \<noteq> [] \<and> CHR 0x0A \<notin> set l \<and> \<not> suffix [CHR 0x0D] l"
  shows "str_lines (join_with (CHR 0x0A) ls) = ls"
  using assms
  by (induction "CHR 0x0A" ls rule: join_with.induct)
    (simp_all add: str_lines_last str_lines_append strip_cr_id)

section \<open>Trimming\<close>

lemma strip_words_stuck:
  "strip_words ws s = s' \<Longrightarrow> w \<in> set ws \<Longrightarrow> w \<noteq> [] \<Longrightarrow> \<not> prefix w s'"
proof (induction ws s rule: strip_words.induct)
  case (2 ws c s)
  then show ?case by (auto simp: find_None_iff split: option.splits)
qed auto

lemma strip_words_id: "\<forall>w\<in>set ws. w \<noteq> [] \<longrightarrow> \<not> prefix w s \<Longrightarrow> strip_words ws s = s"
  by (cases s) (auto split: option.splits simp: find_Some_iff)

lemma strip_words_fixed:
  "strip_words ws s = s \<longleftrightarrow> (\<forall>w\<in>set ws. w \<noteq> [] \<longrightarrow> \<not> prefix w s)"
  using strip_words_id strip_words_stuck by blast

lemma white_space_ne: "w \<in> set white_space \<Longrightarrow> w \<noteq> []"
  by (auto simp: white_space_def)

lemma trim_start_fixed: "trim_start s = s \<longleftrightarrow> (\<forall>w\<in>set white_space. \<not> prefix w s)"
  unfolding trim_start_def strip_words_fixed using white_space_ne by blast

lemma trim_end_fixed: "trim_end s = s \<longleftrightarrow> (\<forall>w\<in>set white_space. \<not> suffix w s)"
proof -
  have "trim_end s = s \<longleftrightarrow> strip_words (map rev white_space) (rev s) = rev s"
    unfolding trim_end_def by (metis rev_rev_ident)
  also have "\<dots> \<longleftrightarrow> (\<forall>w\<in>set white_space. \<not> suffix w s)"
    unfolding strip_words_fixed using white_space_ne by (auto simp: suffix_to_prefix)
  finally show ?thesis .
qed

lemma trim_end_trim_end [simp]: "trim_end (trim_end s) = trim_end s"
proof -
  have "\<not> suffix w (trim_end s)" if "w \<in> set white_space" for w
    using strip_words_stuck [of "map rev white_space" "rev s" "rev (trim_end s)" "rev w"] that white_space_ne
    by (auto simp: trim_end_def suffix_to_prefix)
  then show ?thesis by (simp add: trim_end_fixed)
qed

lemma prefix_trim_end: "prefix (trim_end s) s"
  unfolding trim_end_def using suffix_strip_words [of "map rev white_space" "rev s"]
  by (simp add: suffix_to_prefix)

lemma trim_trim [simp]: "trim (trim s) = trim s"
proof -
  let ?t = "trim_end (trim_start s)"
  have "\<not> prefix w ?t" if "w \<in> set white_space" for w
  proof
    assume "prefix w ?t"
    then have "prefix w (trim_start s)" using prefix_trim_end prefix_order.trans by blast
    then show False
      using strip_words_stuck [of white_space s _ w] that white_space_ne by (auto simp: trim_start_def)
  qed
  then have "trim_start ?t = ?t" by (simp add: trim_start_fixed)
  then show ?thesis by (simp add: trim_def)
qed

lemma trim_fixed:
  "trim s = s \<longleftrightarrow> (\<forall>w\<in>set white_space. \<not> prefix w s) \<and> (\<forall>w\<in>set white_space. \<not> suffix w s)"
proof
  assume t: "trim s = s"
  have "suffix (trim_start s) s" by (simp add: trim_start_def suffix_strip_words)
  moreover have "prefix s (trim_start s)" using t prefix_trim_end [of "trim_start s"] by (simp add: trim_def)
  ultimately have "trim_start s = s"
    by (metis prefix_length_le suffix_length_le le_antisym suffix_order.antisym suffix_take prefix_order.antisym append_eq_append_conv append_self_conv2 suffix_def)
  with t show "(\<forall>w\<in>set white_space. \<not> prefix w s) \<and> (\<forall>w\<in>set white_space. \<not> suffix w s)"
    by (simp add: trim_def flip: trim_start_fixed trim_end_fixed)
qed (simp add: trim_def flip: trim_start_fixed trim_end_fixed)

lemma trim_end_newline: "trim_end (s @ [CHR 0x0A]) = trim_end s"
proof -
  have "rev (s @ [CHR 0x0A]) = CHR 0x0A # rev s" by simp
  moreover have "find (\<lambda>w. w \<noteq> [] \<and> prefix w (CHR 0x0A # t)) (map rev white_space) = Some [CHR 0x0A]" for t
    by (simp add: white_space_def)
  ultimately show ?thesis by (simp add: trim_end_def)
qed

lemma trim_end_Nil [simp]: "trim_end [] = []"
  by (simp add: trim_end_def)

end
