(* ===== verification/Edit_Buffer.thy ===== *)
theory Edit_Buffer
  imports Edit_History Cosmix_Pat
begin

text \<open>
  The buffer (\<^verbatim>\<open>cosmix-edit-core/src/buffer.rs\<close>) without undo: position and range resolution,
  transaction resolution with compare-and-set and rebase, the view of the text after a sequence
  that resolves a cursor, the two-phase commit with anchors, selections, log and lanes, reload,
  selections, named anchors, loading and saving.  A failure is a refusal of the code, a panic, or
  a loop that does not return; the lemmas show that the last two never happen on a well-formed
  buffer, that refusals change nothing observable, and what each success does.
\<close>

section \<open>Data\<close>

datatype failure = Refuse core_error | Panic | Hang

datatype eol = Lf | Crlf | Mixed | NoEol

record file_meta =
  fm_bom :: bool
  fm_eol :: eol

datatype op_spec = InsertOp pos_spec string | DeleteOp range_spec | ReplaceOp range_spec string

datatype cas = Latest | ExpectRev nat | BaseRev nat

record txn_request =
  tr_ops :: "op_spec list"
  tr_cas :: cas
  tr_coalesce :: bool
  tr_cursor :: "pos_spec option"
  tr_op_id :: "string option"

record applied =
  ap_rev :: nat
  ap_base_rev :: nat
  ap_kind :: entry_kind
  ap_edits :: "edit list"
  ap_changed :: "range list"
  ap_rebased :: bool
  ap_op_id :: "string option"
  ap_inserted_bytes :: nat
  ap_deleted_bytes :: nat
  ap_history_trimmed_to :: "nat option"

datatype lane_sel = Own | AllLanes | LaneOf origin

record buffer =
  b_text :: text_store
  b_log :: op_log
  b_rev :: nat
  b_saved_rev :: "nat option"
  b_anchors :: "named_anchor list"
  b_selections :: "(origin, selection list) bmap"

record resolved =
  r_s :: nat
  r_e :: nat
  r_text :: string
  r_idx :: nat

record commit_req =
  c_origin :: origin
  c_lane :: origin
  c_kind :: entry_kind
  c_via :: via
  c_now_ms :: nat
  c_op_id :: "string option"
  c_coalesce :: bool
  c_cursor :: "pos_spec option"
  c_rebased :: bool

text \<open>Lifting of refusals, loops and assertions into \<open>failure\<close>.\<close>

definition refuse :: "(core_error, 'a) result \<Rightarrow> (failure, 'a) result" where
  "refuse r = map_err Refuse r"

definition returns :: "'a option \<Rightarrow> (failure, 'a) result" where
  "returns r = ok_or Hang r"

section \<open>Small helpers\<close>

definition contiguous :: "edit \<Rightarrow> edit \<Rightarrow> bool" where
  "contiguous prev next' =
     (let pure_insert = (\<lambda>e. e_delete e = 0 \<and> e_insert e \<noteq> []);
          pure_delete = (\<lambda>e. e_delete e > 0 \<and> e_insert e = [])
      in if pure_insert prev \<and> pure_insert next' then e_offset next' = e_offset prev + length (e_insert prev)
         else if pure_delete prev \<and> pure_delete next'
         then e_offset next' + e_delete next' = e_offset prev \<or> e_offset next' = e_offset prev
         else False)"

definition check_overlap :: "resolved list \<Rightarrow> (failure, unit) result" where
  "check_overlap items =
     (case first_overlap (map (\<lambda>r. (r_s r, r_e r)) items) of
        Some _ \<Rightarrow> Inl (Refuse (invalid ''overlap_in_txn''))
      | None \<Rightarrow> Inr ())"

definition canonical_order :: "resolved list \<Rightarrow> resolved list" where
  "canonical_order items =
     sort_by (\<lambda>a b. canonical_cmp (r_s a, r_e a, r_idx a) (r_s b, r_e b, r_idx b)) items"

definition resolved_edit :: "resolved \<Rightarrow> edit" where
  "resolved_edit r = \<lparr>e_offset = r_s r, e_delete = r_e r - r_s r, e_insert = r_text r\<rparr>"

section \<open>Constructors, load and save\<close>

definition with_text :: "text_store \<Rightarrow> buffer" where
  "with_text t = \<lparr>b_text = t, b_log = empty_log, b_rev = 0, b_saved_rev = None, b_anchors = [],
     b_selections = []\<rparr>"

definition buffer_new :: "host \<Rightarrow> (core_error, buffer) result" where
  "buffer_new h = and_then (text_new h) (\<lambda>t. Inr (with_text t))"

definition BOM :: string where
  "BOM = [CHR 0xEF, CHR 0xBB, CHR 0xBF]"

fun count_crlf :: "string \<Rightarrow> nat" where
  "count_crlf (a # b # s) = (if a = CHR 0x0D \<and> b = newline then Suc (count_crlf s) else count_crlf (b # s))"
| "count_crlf _ = 0"

definition from_bytes :: "host \<Rightarrow> string \<Rightarrow> (core_error, buffer \<times> file_meta) result" where
  "from_bytes h bytes =
     (let (bom, body) = (case strip_prefix BOM bytes of Some rest \<Rightarrow> (True, rest) | None \<Rightarrow> (False, bytes))
      in if \<not> from_utf8 body
         then Inl (with_context (invalid ''not_utf8'') ''offset''
                (WNum (valid_up_to body + (if bom then length BOM else 0))))
         else and_then (from_text h body) (\<lambda>t.
           let lf = count_newlines body;
               crlf = count_crlf body;
               eol = (if lf = 0 then NoEol else if lf = crlf then Crlf else if crlf = 0 then Lf else Mixed)
           in Inr (with_text t, \<lparr>fm_bom = bom, fm_eol = eol\<rparr>)))"

definition to_bytes :: "file_meta \<Rightarrow> buffer \<Rightarrow> (failure, string) result" where
  "to_bytes meta b =
     and_then (returns (to_string_lossless (b_text b)))
       (\<lambda>s. Inr ((if fm_bom meta then BOM else []) @ s))"

definition buf_len :: "buffer \<Rightarrow> nat" where
  "buf_len b = text_len (b_text b)"

definition mark_saved :: "buffer \<Rightarrow> buffer" where
  "mark_saved b = b\<lparr>b_saved_rev := Some (b_rev b)\<rparr>"

definition is_dirty :: "buffer \<Rightarrow> bool" where
  "is_dirty b = (b_saved_rev b \<noteq> Some (b_rev b))"

section \<open>Resolving positions\<close>

definition check_offset :: "buffer \<Rightarrow> nat \<Rightarrow> (failure, nat) result" where
  "check_offset b o' =
     (if o' > buf_len b
      then Inl (Refuse (with_context (with_context (invalid ''offset_out_of_range'') ''offset'' (WNum o'))
                          ''bytes'' (WNum (buf_len b))))
      else if \<not> is_char_boundary (b_text b) o'
      then Inl (Refuse (with_context (invalid ''not_char_boundary'') ''offset'' (WNum o')))
      else Inr o')"

definition check_line :: "buffer \<Rightarrow> nat \<Rightarrow> (failure, unit) result" where
  "check_line b line =
     (if line = 0 \<or> line > line_count (b_text b)
      then Inl (Refuse (with_context (with_context (invalid ''line_out_of_range'') ''line'' (WNum line))
                          ''lines'' (WNum (line_count (b_text b)))))
      else Inr ())"

definition find_anchor :: "buffer \<Rightarrow> string \<Rightarrow> named_anchor option" where
  "find_anchor b name = find (\<lambda>a. na_name a = name) (b_anchors b)"

definition unknown_anchor :: "string \<Rightarrow> failure" where
  "unknown_anchor name =
     Refuse (with_context (core_error_new NotFound ''unknown_anchor'') ''name'' (WStr name))"

definition col_error :: "nat \<Rightarrow> nat \<Rightarrow> failure" where
  "col_error line col =
     Refuse (with_context (with_context (invalid ''col_out_of_range'') ''line'' (WNum line)) ''col'' (WNum col))"

definition resolve_pos :: "buffer \<Rightarrow> pos_spec \<Rightarrow> (failure, nat) result" where
  "resolve_pos b p =
     (case p of
        Offset o' \<Rightarrow> check_offset b o'
      | Named Start \<Rightarrow> Inr 0
      | Named End \<Rightarrow> Inr (buf_len b)
      | LineCol line col \<Rightarrow>
          and_then (check_line b line) (\<lambda>_.
          let col = (case col of None \<Rightarrow> 1 | Some c \<Rightarrow> c) in
          and_then (returns (line_col_offset (b_text b) line col)) (\<lambda>r.
          ok_or (col_error line col) r))
      | PosAnchor name \<Rightarrow>
          ok_or (unknown_anchor name) (map_option (\<lambda>a. a_offset (na_start a)) (find_anchor b name)))"

definition ordered :: "nat \<Rightarrow> nat \<Rightarrow> (failure, range) result" where
  "ordered s e = (if s > e then Inl (Refuse (invalid ''bad_args'')) else Inr (s, e))"

definition resolve_range :: "buffer \<Rightarrow> range_spec \<Rightarrow> (failure, range) result" where
  "resolve_range b r =
     (case r of
        Offsets s e \<Rightarrow>
          and_then (check_offset b s) (\<lambda>s. and_then (check_offset b e) (\<lambda>e. ordered s e))
      | Span start end' \<Rightarrow>
          and_then (resolve_pos b start) (\<lambda>s. and_then (resolve_pos b end') (\<lambda>e. ordered s e))
      | Lines x y \<Rightarrow>
          and_then (check_line b x) (\<lambda>_.
          and_then (check_line b y) (\<lambda>_.
          if x > y then Inl (Refuse (with_context (invalid ''line_out_of_range'') ''line'' (WNum x)))
          else
            let s = (case line_start (b_text b) x of Some s \<Rightarrow> s | None \<Rightarrow> 0);
                e = (case line_start (b_text b) (y + 1) of Some e \<Rightarrow> e | None \<Rightarrow> buf_len b)
            in Inr (s, e)))
      | RangeAnchor name \<Rightarrow>
          and_then (ok_or (unknown_anchor name) (find_anchor b name)) (\<lambda>a.
            Inr (a_offset (na_start a),
                 case na_end a of None \<Rightarrow> a_offset (na_start a) | Some e \<Rightarrow> a_offset e))
      | AllText \<Rightarrow> Inr (0, buf_len b))"

section \<open>Resolving a transaction\<close>

definition conflict :: "buffer \<Rightarrow> string \<Rightarrow> core_error" where
  "conflict b reason = with_context (core_error_new Conflict reason) ''rev'' (WNum (b_rev b))"

definition offsets_only :: "op_spec \<Rightarrow> bool" where
  "offsets_only op =
     (case op of
        InsertOp at _ \<Rightarrow> (case at of Offset _ \<Rightarrow> True | _ \<Rightarrow> False)
      | DeleteOp rng \<Rightarrow> (case rng of Offsets _ _ \<Rightarrow> True | _ \<Rightarrow> False)
      | ReplaceOp rng _ \<Rightarrow> (case rng of Offsets _ _ \<Rightarrow> True | _ \<Rightarrow> False))"

text \<open>The compare-and-set check: the revision to rebase from, if any.\<close>

definition check_cas :: "buffer \<Rightarrow> cas \<Rightarrow> (failure, nat option) result" where
  "check_cas b cas =
     (case cas of
        Latest \<Rightarrow> Inr None
      | ExpectRev r \<Rightarrow> if r \<noteq> b_rev b then Inl (Refuse (conflict b ''stale_rev'')) else Inr None
      | BaseRev r \<Rightarrow>
          if r > b_rev b
          then Inl (Refuse (with_context (invalid ''base_rev_in_future'') ''rev'' (WNum (b_rev b))))
          else if r < oldest_rev (b_log b)
          then Inl (Refuse (with_context (conflict b ''history_trimmed'') ''oldest_rev'' (WNum (oldest_rev (b_log b)))))
          else Inr (if r < b_rev b then Some r else None))"

definition resolve_op :: "buffer \<Rightarrow> nat \<times> op_spec \<Rightarrow> (failure, resolved) result" where
  "resolve_op b iop =
     (case snd iop of
        InsertOp at text \<Rightarrow>
          and_then (resolve_pos b at) (\<lambda>p. Inr \<lparr>r_s = p, r_e = p, r_text = text, r_idx = fst iop\<rparr>)
      | DeleteOp rng \<Rightarrow>
          and_then (resolve_range b rng) (\<lambda>r. Inr \<lparr>r_s = fst r, r_e = snd r, r_text = [], r_idx = fst iop\<rparr>)
      | ReplaceOp rng text \<Rightarrow>
          and_then (resolve_range b rng) (\<lambda>r. Inr \<lparr>r_s = fst r, r_e = snd r, r_text = text, r_idx = fst iop\<rparr>))"

text \<open>The length of the text at an older revision, from the net size of every later entry.\<close>

definition hist_len :: "buffer \<Rightarrow> nat \<Rightarrow> int" where
  "hist_len b r =
     foldl (\<lambda>n e. n + (int (e_delete e) - int (length (e_insert e)))) (int (buf_len b))
       (concat (map le_edits (log_after r (b_log b))))"

definition base_op :: "nat \<times> op_spec \<Rightarrow> (failure, resolved) result" where
  "base_op iop =
     (case snd iop of
        InsertOp (Offset p) text \<Rightarrow> Inr \<lparr>r_s = p, r_e = p, r_text = text, r_idx = fst iop\<rparr>
      | DeleteOp (Offsets s e) \<Rightarrow> Inr \<lparr>r_s = s, r_e = e, r_text = [], r_idx = fst iop\<rparr>
      | ReplaceOp (Offsets s e) text \<Rightarrow> Inr \<lparr>r_s = s, r_e = e, r_text = text, r_idx = fst iop\<rparr>
      | _ \<Rightarrow> Inl Panic)"

definition check_base_op :: "int \<Rightarrow> resolved \<Rightarrow> (failure, resolved) result" where
  "check_base_op hist_len' r =
     (if int (r_e r) > hist_len' \<or> int (r_s r) > hist_len'
      then Inl (Refuse (with_context (invalid ''offset_out_of_range'') ''offset'' (WNum (max (r_s r) (r_e r)))))
      else if r_s r > r_e r then Inl (Refuse (invalid ''bad_args''))
      else Inr r)"

definition rebase_entry ::
  "buffer \<Rightarrow> range \<Rightarrow> log_entry \<Rightarrow> (failure, range) result" where
  "rebase_entry b r entry =
     map_err (\<lambda>_. Refuse (with_context (with_context (conflict b ''overlap'') ''intervening_rev'' (WNum (le_rev entry)))
                   ''intervening_origin'' (WStr (origin_to_string (le_origin entry)))))
       (transform_edits r (le_edits entry) ThroughFirst)"

definition rebase_item :: "buffer \<Rightarrow> nat \<Rightarrow> resolved \<Rightarrow> (failure, resolved) result" where
  "rebase_item b from' item =
     and_then (try_fold (rebase_entry b) (r_s item, r_e item) (log_after from' (b_log b))) (\<lambda>r.
     and_then (check_offset b (fst r)) (\<lambda>_.
     and_then (check_offset b (snd r)) (\<lambda>_.
     Inr (item\<lparr>r_s := fst r, r_e := snd r\<rparr>))))"

definition resolve_items :: "buffer \<Rightarrow> txn_request \<Rightarrow> nat option \<Rightarrow> (failure, resolved list) result" where
  "resolve_items b req rebase_from =
     (case rebase_from of
        None \<Rightarrow>
          and_then (try_map (resolve_op b) (enumerate 0 (tr_ops req))) (\<lambda>items.
          and_then (check_overlap items) (\<lambda>_. Inr items))
      | Some r \<Rightarrow>
          and_then (try_map (\<lambda>iop. and_then (base_op iop) (check_base_op (hist_len b r))) (enumerate 0 (tr_ops req))) (\<lambda>items.
          and_then (check_overlap items) (\<lambda>_.
          try_map (rebase_item b r) items)))"

definition resolve_txn :: "buffer \<Rightarrow> txn_request \<Rightarrow> (failure, resolved list) result" where
  "resolve_txn b req =
     (if tr_ops req = [] then Inl (Refuse (invalid ''bad_args''))
      else if (case tr_cas req of BaseRev _ \<Rightarrow> \<not> list_all offsets_only (tr_ops req) | _ \<Rightarrow> False)
      then Inl (Refuse (invalid ''base_rev_needs_offsets''))
      else
        and_then (check_cas b (tr_cas req)) (\<lambda>rebase_from.
        and_then (resolve_items b req rebase_from) (\<lambda>items.
        if length (tr_ops req) > MAX_OPS_PER_TXN
        then Inl (Refuse (with_context limit ''limit'' (WNum MAX_OPS_PER_TXN)))
        else if sum_list (map (\<lambda>r. length (r_text r)) items) > MAX_REQUEST_TEXT_BYTES
        then Inl (Refuse (with_context (core_error_new ResourceLimit ''too_large'') ''limit'' (WNum MAX_REQUEST_TEXT_BYTES)))
        else Inr items)))"

section \<open>The text after a sequence\<close>

datatype seg = BaseSeg nat nat | InsSeg string

fun seg_len :: "seg \<Rightarrow> nat" where
  "seg_len (BaseSeg a z) = z - a"
| "seg_len (InsSeg s) = length s"

record post_view =
  pv_segs :: "(nat \<times> seg) list"
  pv_len :: nat

definition push_seg :: "seg \<Rightarrow> post_view \<Rightarrow> post_view" where
  "push_seg seg v =
     (let n = seg_len seg
      in if n > 0 then \<lparr>pv_segs = pv_segs v @ [(pv_len v, seg)], pv_len = pv_len v + n\<rparr> else v)"

fun push_edits :: "nat \<Rightarrow> edit list \<Rightarrow> nat \<Rightarrow> post_view \<Rightarrow> post_view" where
  "push_edits pos [] len v = push_seg (BaseSeg pos len) v"
| "push_edits pos (e # es) len v =
     push_edits (e_offset e + e_delete e) es len
       (push_seg (InsSeg (e_insert e)) (push_seg (BaseSeg pos (e_offset e)) v))"

definition post_view_new :: "text_store \<Rightarrow> edit list \<Rightarrow> post_view" where
  "post_view_new t seq = push_edits 0 (rev seq) (text_len t) \<lparr>pv_segs = [], pv_len = 0\<rparr>"

definition post_boundary :: "text_store \<Rightarrow> post_view \<Rightarrow> nat \<Rightarrow> bool" where
  "post_boundary t v o' =
     (if o' \<ge> pv_len v then o' = pv_len v
      else
        let i = partition_point (\<lambda>(start, _). start \<le> o') (pv_segs v) - 1;
            (start, seg) = pv_segs v ! i
        in case seg of
             BaseSeg a _ \<Rightarrow> is_char_boundary t (a + (o' - start))
           | InsSeg s \<Rightarrow> boundary s (o' - start))"

text \<open>The scan of an inserted segment: the newline that starts the wanted line, or how many
  line starts are still wanted.\<close>

fun ins_scan :: "string \<Rightarrow> nat \<Rightarrow> nat \<Rightarrow> nat + nat" where
  "ins_scan [] j want = Inl want"
| "ins_scan (b # bs) j want =
     (if b = newline
      then if want - 1 = 0 then Inr (j + 1) else ins_scan bs (j + 1) (want - 1)
      else ins_scan bs (j + 1) want)"

fun segs_line_start :: "text_store \<Rightarrow> (nat \<times> seg) list \<Rightarrow> nat \<Rightarrow> nat option" where
  "segs_line_start t [] want = None"
| "segs_line_start t ((start, BaseSeg a z) # segs) want =
     (let starts = starts_in t a z
      in if length starts \<ge> want then Some (start + (starts ! (want - 1) - a))
         else segs_line_start t segs (want - length starts))"
| "segs_line_start t ((start, InsSeg s) # segs) want =
     (case ins_scan s 0 want of
        Inr j \<Rightarrow> Some (start + j)
      | Inl want \<Rightarrow> segs_line_start t segs want)"

definition post_line_start :: "text_store \<Rightarrow> post_view \<Rightarrow> nat \<Rightarrow> nat option" where
  "post_line_start t v line =
     (if line = 1 then Some 0 else segs_line_start t (pv_segs v) (line - 1))"

text \<open>The step over scalars: \<open>(remaining, off)\<close>, and whether to go on.\<close>

fun cols_visit :: "string list \<Rightarrow> nat \<times> nat \<Rightarrow> (nat \<times> nat) \<times> bool" where
  "cols_visit [] st = (st, True)"
| "cols_visit (c # cs) (remaining, off) =
     (if c = [newline] then ((remaining, off), False)
      else if remaining - 1 > 0 then cols_visit cs (remaining - 1, off + length c)
      else ((remaining - 1, off + length c), False))"

fun segs_after_cols ::
  "text_store \<Rightarrow> nat \<Rightarrow> (nat \<times> seg) list \<Rightarrow> nat \<times> nat \<Rightarrow> (nat \<times> nat) option" where
  "segs_after_cols t from' [] st = Some st"
| "segs_after_cols t from' ((start, seg) # segs) st =
     (if start + seg_len seg \<le> from' then segs_after_cols t from' segs st
      else
        let local = from' - start in
        case seg of
          BaseSeg a z \<Rightarrow>
            Option.bind (for_each_str t (a + local, z)
                (\<lambda>s (st, _). let (st, go) = cols_visit (scalars s) st in ((st, go), go)) (st, True))
              (\<lambda>(st, go). if go then segs_after_cols t from' segs st else Some st)
        | InsSeg s \<Rightarrow>
            (case cols_visit (scalars (drop local s)) st of
               (st, go) \<Rightarrow> if go then segs_after_cols t from' segs st else Some st))"

definition post_after_cols :: "text_store \<Rightarrow> post_view \<Rightarrow> nat \<Rightarrow> nat \<Rightarrow> nat option option" where
  "post_after_cols t v from' cols =
     (if cols = 0 then Some (Some from')
      else map_option (\<lambda>(remaining, off). if remaining = 0 then Some off else None)
             (segs_after_cols t from' (pv_segs v) (cols, from')))"

definition resolve_post :: "buffer \<Rightarrow> pos_spec \<Rightarrow> edit list \<Rightarrow> nat \<Rightarrow> (failure, nat) result" where
  "resolve_post b p seq final_lines =
     (let t = b_text b; view = post_view_new t seq in
      case p of
        Offset o' \<Rightarrow>
          if o' > pv_len view then Inl (Refuse (with_context (invalid ''offset_out_of_range'') ''offset'' (WNum o')))
          else if \<not> post_boundary t view o'
          then Inl (Refuse (with_context (invalid ''not_char_boundary'') ''offset'' (WNum o')))
          else Inr o'
      | Named Start \<Rightarrow> Inr 0
      | Named End \<Rightarrow> Inr (pv_len view)
      | LineCol line col \<Rightarrow>
          if line = 0 \<or> line > final_lines
          then Inl (Refuse (with_context (invalid ''line_out_of_range'') ''line'' (WNum line)))
          else
            let col = (case col of None \<Rightarrow> 1 | Some c \<Rightarrow> c);
                start = (case post_line_start t view line of Some s \<Rightarrow> s | None \<Rightarrow> pv_len view)
            in and_then (returns (post_after_cols t view start (col - 1))) (\<lambda>r.
                 ok_or (col_error line col) (Option.bind r (\<lambda>o'. if col \<ge> 1 then Some o' else None)))
      | PosAnchor name \<Rightarrow>
          and_then (ok_or (unknown_anchor name) (find_anchor b name)) (\<lambda>a.
            Inr (a_offset (na_start (named_anchor_map seq (b_rev b + 1) a)))))"

section \<open>Commit\<close>

definition read_deleted :: "buffer \<Rightarrow> resolved \<Rightarrow> (failure, string) result" where
  "read_deleted b r = returns (text_read (b_text b) (r_s r, r_e r) [])"

definition commit_cursor ::
  "buffer \<Rightarrow> commit_req \<Rightarrow> edit list \<Rightarrow> nat \<Rightarrow> (failure, nat option) result" where
  "commit_cursor b c seq final_lines =
     (case c_cursor c of
        None \<Rightarrow> Inr None
      | Some p \<Rightarrow>
          and_then (resolve_post b p seq final_lines) (\<lambda>at.
          if \<not> bm_contains (b_selections b) (c_origin c) \<and> length (b_selections b) \<ge> MAX_SELECTION_ORIGINS
          then Inl (Refuse (with_context limit ''limit'' (WNum MAX_SELECTION_ORIGINS)))
          else Inr (Some at)))"

text \<open>Validation before phase 1: the sequence, the texts it removes, the cursor.  Pure.\<close>

definition commit_plan ::
  "buffer \<Rightarrow> resolved list \<Rightarrow> commit_req \<Rightarrow> (failure, edit list \<times> string list \<times> nat option) result" where
  "commit_plan b items c =
     (let items = canonical_order items in
      and_then (try_map (read_deleted b) items) (\<lambda>deleted.
      let seq = map resolved_edit items in
      and_then (refuse (simulate (b_text b) seq)) (\<lambda>sim.
      and_then (commit_cursor b c seq (s_final_lines sim)) (\<lambda>cursor.
      Inr (seq, deleted, cursor)))))"

definition or_default :: "origin \<Rightarrow> op_log \<Rightarrow> op_log \<times> lane" where
  "or_default o' log =
     (case bm_get (ol_lanes log) o' of
        Some l \<Rightarrow> (log, l)
      | None \<Rightarrow> (log\<lparr>ol_lanes := bm_insert o' empty_lane (ol_lanes log)\<rparr>, empty_lane))"

text \<open>Phase 1: memory for text, line index, log and lane stacks.\<close>

definition commit_reserve ::
  "host \<Rightarrow> edit list \<Rightarrow> origin \<Rightarrow> buffer \<Rightarrow> (failure, prepared) result \<times> buffer" where
  "commit_reserve h seq lane_key b =
     (case text_prepare h seq (b_text b) of
        (Inl e, t) \<Rightarrow> (Inl (Refuse e), b\<lparr>b_text := t\<rparr>)
      | (Inr prepared, t) \<Rightarrow>
          let b = b\<lparr>b_text := t\<rparr> in
          if \<not> h_alloc h (length (ol_entries (b_log b))) 1 then (Inl (Refuse oom), b)
          else
            let (log, l) = or_default lane_key (b_log b); b = b\<lparr>b_log := log\<rparr> in
            if \<not> h_alloc h (length (l_undo l)) 1 then (Inl (Refuse oom), b)
            else if \<not> h_alloc h (length (l_redo l)) 1 then (Inl (Refuse oom), b)
            else (Inr prepared, b))"

definition commit_coalesced :: "buffer \<Rightarrow> commit_req \<Rightarrow> edit list \<Rightarrow> bool" where
  "commit_coalesced b c seq =
     (c_coalesce c \<and> c_kind c = EditEntry \<and> length seq = 1
      \<and> (case bm_get (ol_lanes (b_log b)) (c_lane c) of
           None \<Rightarrow> False
         | Some l \<Rightarrow> l_undo l \<noteq> [] \<and> snd (last (l_undo l)) = b_rev b)
      \<and> ol_entries (b_log b) \<noteq> []
      \<and> (let prev = last (ol_entries (b_log b))
         in le_rev prev = b_rev b \<and> le_kind prev = EditEntry \<and> le_lane prev = c_lane c
            \<and> length (le_edits prev) = 1 \<and> contiguous (hd (le_edits prev)) (hd seq)))"

definition lane_record :: "entry_kind \<Rightarrow> bool \<Rightarrow> nat \<Rightarrow> lane \<Rightarrow> lane" where
  "lane_record kind coalesced new_rev l =
     (case kind of
        UndoEntry _ \<Rightarrow> \<lparr>l_undo = butlast (l_undo l), l_redo = l_redo l @ [(new_rev, new_rev)]\<rparr>
      | RedoEntry _ \<Rightarrow> \<lparr>l_undo = l_undo l @ [(new_rev, new_rev)], l_redo = butlast (l_redo l)\<rparr>
      | _ \<Rightarrow> \<lparr>l_undo = (if l_undo l \<noteq> [] \<and> coalesced
                       then butlast (l_undo l) @ [(fst (last (l_undo l)), new_rev)]
                       else l_undo l @ [(new_rev, new_rev)]),
             l_redo = []\<rparr>)"

definition changed_ranges :: "edit list \<Rightarrow> range list" where
  "changed_ranges seq = sort_key fst (filter (\<lambda>r. \<not> fst r \<ge> snd r) (post_ranges seq))"

text \<open>Phase 2, after the text was committed.\<close>

definition commit_record ::
  "edit list \<Rightarrow> string list \<Rightarrow> nat option \<Rightarrow> commit_req \<Rightarrow> text_store \<Rightarrow> buffer \<Rightarrow> applied \<times> buffer" where
  "commit_record seq deleted cursor c t b =
     (let base_rev = b_rev b;
          new_rev = base_rev + 1;
          anchors = map (named_anchor_map seq new_rev) (b_anchors b);
          sels = bm_map_values (\<lambda>o' ss. let bias = (if o' = c_origin c then After else Before)
                                        in map (selection_map seq bias) ss) (b_selections b);
          sels = (case cursor of None \<Rightarrow> sels
                  | Some at \<Rightarrow> bm_insert (c_origin c) [\<lparr>sel_anchor = at, sel_head = at\<rparr>] sels);
          coalesced = commit_coalesced b c seq;
          (log, l) = or_default (c_lane c) (b_log b);
          log = log\<lparr>ol_lanes := bm_insert (c_lane c) (lane_record (c_kind c) coalesced new_rev l) (ol_lanes log)\<rparr>;
          entry = \<lparr>le_rev = new_rev, le_origin = c_origin c, le_lane = c_lane c, le_kind = c_kind c,
                   le_edits = seq, le_deleted = deleted, le_via = c_via c, le_op_id = c_op_id c,
                   le_time_ms = c_now_ms c\<rparr>;
          (trimmed, log) = log_push entry log
      in (\<lparr>ap_rev = new_rev, ap_base_rev = base_rev, ap_kind = c_kind c, ap_edits = seq,
           ap_changed = changed_ranges seq, ap_rebased = c_rebased c, ap_op_id = c_op_id c,
           ap_inserted_bytes = sum_list (map (\<lambda>e. length (e_insert e)) seq),
           ap_deleted_bytes = sum_list (map e_delete seq), ap_history_trimmed_to = trimmed\<rparr>,
          b\<lparr>b_text := t, b_log := log, b_rev := new_rev, b_anchors := anchors, b_selections := sels\<rparr>))"

definition commit_txn ::
  "host \<Rightarrow> resolved list \<Rightarrow> commit_req \<Rightarrow> buffer \<Rightarrow> (failure, applied) result \<times> buffer" where
  "commit_txn h items c b =
     (case commit_plan b items c of
        Inl f \<Rightarrow> (Inl f, b)
      | Inr (seq, deleted, cursor) \<Rightarrow>
          (case commit_reserve h seq (c_lane c) b of
             (Inl f, b) \<Rightarrow> (Inl f, b)
           | (Inr prepared, b) \<Rightarrow>
               (case text_commit h prepared (b_text b) of
                  None \<Rightarrow> (Inl Panic, b)
                | Some t \<Rightarrow> let (ap, b) = commit_record seq deleted cursor c t b in (Inr ap, b))))"

definition buffer_apply ::
  "host \<Rightarrow> txn_request \<Rightarrow> origin \<Rightarrow> via \<Rightarrow> nat \<Rightarrow> buffer \<Rightarrow> (failure, applied) result \<times> buffer" where
  "buffer_apply h req who via now_ms b =
     (case resolve_txn b req of
        Inl f \<Rightarrow> (Inl f, b)
      | Inr items \<Rightarrow>
          commit_txn h items
            \<lparr>c_origin = who, c_lane = who, c_kind = EditEntry, c_via = via, c_now_ms = now_ms,
             c_op_id = tr_op_id req, c_coalesce = tr_coalesce req, c_cursor = tr_cursor req,
             c_rebased = (case tr_cas req of BaseRev r \<Rightarrow> r < b_rev b | _ \<Rightarrow> False)\<rparr> b)"

definition cost_of :: "buffer \<Rightarrow> resolved list \<Rightarrow> (failure, nat) result" where
  "cost_of b items =
     (let seq = map resolved_edit (canonical_order items) in
      and_then (refuse (simulate (b_text b) seq)) (\<lambda>sim.
      Inr ((s_peak_len sim - buf_len b) + sum_list (map (\<lambda>e. length (e_insert e) + e_delete e) seq))))"

definition apply_cost :: "buffer \<Rightarrow> txn_request \<Rightarrow> (failure, nat) result" where
  "apply_cost b req = and_then (resolve_txn b req) (cost_of b)"

section \<open>Reload\<close>

fun common_prefix :: "string \<Rightarrow> string \<Rightarrow> nat" where
  "common_prefix (a # as) (b # bs) = (if a = b then Suc (common_prefix as bs) else 0)"
| "common_prefix _ _ = 0"

text \<open>\<^verbatim>\<open>while !cur.is_char_boundary(n) || !new.is_char_boundary(n) { n -= 1 }\<close>, and its
  mirror image from the ends.\<close>

fun back_prefix :: "string \<Rightarrow> string \<Rightarrow> nat \<Rightarrow> nat option" where
  "back_prefix cur new 0 = (if boundary cur 0 \<and> boundary new 0 then Some 0 else None)"
| "back_prefix cur new (Suc n) =
     (if boundary cur (Suc n) \<and> boundary new (Suc n) then Some (Suc n) else back_prefix cur new n)"

fun back_suffix :: "string \<Rightarrow> string \<Rightarrow> nat \<Rightarrow> nat option" where
  "back_suffix cur new 0 = (if boundary cur (length cur) \<and> boundary new (length new) then Some 0 else None)"
| "back_suffix cur new (Suc n) =
     (if boundary cur (length cur - Suc n) \<and> boundary new (length new - Suc n)
      then Some (Suc n) else back_suffix cur new n)"

definition reload_item :: "string \<Rightarrow> string \<Rightarrow> (failure, resolved option) result" where
  "reload_item cur new =
     and_then (ok_or Panic (back_prefix cur new (common_prefix cur new))) (\<lambda>pre.
     if pre = length cur \<and> pre = length new then Inr None
     else
       let room = min (length cur) (length new) - pre in
       and_then (ok_or Panic (back_suffix cur new
           (min room (common_prefix (rev cur) (rev new))))) (\<lambda>suf.
       Inr (Some \<lparr>r_s = pre, r_e = length cur - suf, r_text = slice new pre (length new - suf), r_idx = 0\<rparr>)))"

definition disk :: origin where
  "disk = Origin Tool ''disk''"

definition reload_minimal ::
  "host \<Rightarrow> string \<Rightarrow> via \<Rightarrow> nat \<Rightarrow> buffer \<Rightarrow> (failure, applied option) result \<times> buffer" where
  "reload_minimal h new via now_ms b =
     (let (cur, t) = contiguous_text h (b_text b); b = b\<lparr>b_text := t\<rparr> in
      case reload_item cur new of
        Inl f \<Rightarrow> (Inl f, b)
      | Inr None \<Rightarrow> (Inr None, b)
      | Inr (Some item) \<Rightarrow>
          (case commit_txn h [item]
              \<lparr>c_origin = disk, c_lane = disk, c_kind = ReloadEntry, c_via = via, c_now_ms = now_ms,
               c_op_id = None, c_coalesce = False, c_cursor = None, c_rebased = False\<rparr> b of
             (Inl f, b) \<Rightarrow> (Inl f, b)
           | (Inr ap, b) \<Rightarrow> (Inr (Some ap), b)))"

section \<open>Selections and anchors\<close>

definition set_selections ::
  "origin \<Rightarrow> selection list \<Rightarrow> buffer \<Rightarrow> (failure, unit) result \<times> buffer" where
  "set_selections who sels b =
     (if length sels > MAX_SELECTIONS_PER_ORIGIN
      then (Inl (Refuse (with_context limit ''limit'' (WNum MAX_SELECTIONS_PER_ORIGIN))), b)
      else case try_map (\<lambda>s. and_then (check_offset b (sel_anchor s)) (\<lambda>_. check_offset b (sel_head s))) sels of
          Inl f \<Rightarrow> (Inl f, b)
        | Inr _ \<Rightarrow>
            if sels = [] then (Inr (), b\<lparr>b_selections := bm_remove who (b_selections b)\<rparr>)
            else if \<not> bm_contains (b_selections b) who \<and> length (b_selections b) \<ge> MAX_SELECTION_ORIGINS
            then (Inl (Refuse (with_context limit ''limit'' (WNum MAX_SELECTION_ORIGINS))), b)
            else (Inr (), b\<lparr>b_selections := bm_insert who sels (b_selections b)\<rparr>))"

definition make_anchor :: "buffer \<Rightarrow> string \<Rightarrow> anchor_spec \<Rightarrow> (failure, named_anchor) result" where
  "make_anchor b name spec =
     (case (as_at spec, as_range spec) of
        (Some at, None) \<Rightarrow>
          and_then (resolve_pos b at) (\<lambda>o'.
            Inr \<lparr>na_name = name,
                 na_start = \<lparr>a_offset = o', a_bias = (case as_bias spec of None \<Rightarrow> Before | Some x \<Rightarrow> x),
                             a_collapsed_rev = None\<rparr>,
                 na_end = None\<rparr>)
      | (None, Some rng) \<Rightarrow>
          and_then (resolve_range b rng) (\<lambda>r.
            Inr \<lparr>na_name = name,
                 na_start = \<lparr>a_offset = fst r, a_bias = After, a_collapsed_rev = None\<rparr>,
                 na_end = Some \<lparr>a_offset = snd r, a_bias = Before, a_collapsed_rev = None\<rparr>\<rparr>)
      | _ \<Rightarrow> Inl (Refuse (invalid ''bad_args'')))"

fun replace_first :: "('a \<Rightarrow> bool) \<Rightarrow> 'a \<Rightarrow> 'a list \<Rightarrow> 'a list option" where
  "replace_first p y [] = None"
| "replace_first p y (x # xs) = (if p x then Some (y # xs) else map_option ((#) x) (replace_first p y xs))"

definition anchor_set ::
  "string \<Rightarrow> anchor_spec \<Rightarrow> buffer \<Rightarrow> (failure, unit) result \<times> buffer" where
  "anchor_set name spec b =
     (if \<not> is_valid_name name then (Inl (Refuse (invalid ''bad_name'')), b)
      else case make_anchor b name spec of
          Inl f \<Rightarrow> (Inl f, b)
        | Inr anchor \<Rightarrow>
            (case replace_first (\<lambda>a. na_name a = name) anchor (b_anchors b) of
               Some anchors \<Rightarrow> (Inr (), b\<lparr>b_anchors := anchors\<rparr>)
             | None \<Rightarrow>
                 if length (b_anchors b) \<ge> MAX_ANCHORS
                 then (Inl (Refuse (with_context limit ''limit'' (WNum MAX_ANCHORS))), b)
                 else (Inr (), b\<lparr>b_anchors := b_anchors b @ [anchor]\<rparr>)))"

definition anchor_clear :: "string \<Rightarrow> buffer \<Rightarrow> bool \<times> buffer" where
  "anchor_clear name b =
     (let anchors = filter (\<lambda>a. na_name a \<noteq> name) (b_anchors b)
      in (length anchors \<noteq> length (b_anchors b), b\<lparr>b_anchors := anchors\<rparr>))"

end
