(* ===== verification/Edit_Post.thy ===== *)
theory Edit_Post
  imports Edit_Buffer
begin

text \<open>
  The view of the text after a sequence (\<^verbatim>\<open>PostView\<close> in \<^verbatim>\<open>buffer.rs\<close>) is the text after the
  sequence: its segments concatenate to it, its char boundaries, line starts and column walk are
  those of that text, and so a cursor resolves before phase 1 to what it would resolve to in the
  committed text.
\<close>

section \<open>Segments\<close>

fun seg_text :: "string \<Rightarrow> seg \<Rightarrow> string" where
  "seg_text s (BaseSeg a z) = slice s a z"
| "seg_text s (InsSeg i) = i"

fun seg_ok :: "string \<Rightarrow> seg \<Rightarrow> bool" where
  "seg_ok s (BaseSeg a z) = (a \<le> z \<and> boundary s a \<and> boundary s z)"
| "seg_ok s (InsSeg i) = from_utf8 i"

fun segs_at :: "string \<Rightarrow> nat \<Rightarrow> (nat \<times> seg) list \<Rightarrow> bool" where
  "segs_at s n [] = True"
| "segs_at s n ((start, seg) # segs) =
     (start = n \<and> 0 < seg_len seg \<and> seg_ok s seg \<and> segs_at s (n + seg_len seg) segs)"

definition segs_text :: "string \<Rightarrow> (nat \<times> seg) list \<Rightarrow> string" where
  "segs_text s segs = concat (map (\<lambda>(_, seg). seg_text s seg) segs)"

definition view_of :: "string \<Rightarrow> post_view \<Rightarrow> string \<Rightarrow> bool" where
  "view_of s v p \<longleftrightarrow> segs_at s 0 (pv_segs v) \<and> segs_text s (pv_segs v) = p \<and> pv_len v = length p"

lemma segs_text_simps [simp]:
  "segs_text s [] = []" "segs_text s ((n, g) # segs) = seg_text s g @ segs_text s segs"
  by (simp_all add: segs_text_def)

lemma seg_text_length: "seg_ok s g \<Longrightarrow> length (seg_text s g) = seg_len g"
  by (cases g) (auto dest: boundary_le simp: slice_def)

lemma seg_text_utf8: "from_utf8 s \<Longrightarrow> seg_ok s g \<Longrightarrow> from_utf8 (seg_text s g)"
  by (cases g) (auto intro: slice_from_utf8)

lemma segs_text_utf8: "from_utf8 s \<Longrightarrow> segs_at s n segs \<Longrightarrow> from_utf8 (segs_text s segs)"
  by (induction segs arbitrary: n) (auto intro!: from_utf8_append seg_text_utf8)

lemma segs_at_snoc:
  "segs_at s n (segs @ [(m, g)]) \<longleftrightarrow>
     segs_at s n segs \<and> m = n + length (segs_text s segs) \<and> 0 < seg_len g \<and> seg_ok s g"
  by (induction segs arbitrary: n) (auto simp: seg_text_length)

lemma push_seg_view:
  assumes "view_of s v p" and "seg_ok s g"
  shows "view_of s (push_seg g v) (p @ seg_text s g)"
proof (cases "0 < seg_len g")
  case True
  then show ?thesis
    using assms seg_text_length [OF assms(2)]
    by (auto simp: push_seg_def view_of_def Let_def segs_at_snoc segs_text_def)
next
  case False
  then have "seg_text s g = []" using seg_text_length [OF assms(2)] by simp
  then show ?thesis using assms False by (simp add: push_seg_def Let_def)
qed

lemma push_edits_view:
  assumes "view_of s v p" and "reading_from pos es" and "boundary s pos"
    and "list_all (\<lambda>e. boundary s (e_offset e) \<and> boundary s (e_offset e + e_delete e) \<and> from_utf8 (e_insert e)) es"
  shows "view_of s (push_edits pos es (length s) v) (p @ splice_edits pos s es)"
  using assms
proof (induction es arbitrary: pos v p)
  case Nil
  have "seg_ok s (BaseSeg pos (length s))" using Nil.prems(3) boundary_le by simp
  from push_seg_view [OF Nil.prems(1) this] show ?case by (simp add: slice_def)
next
  case (Cons e es)
  have e: "pos \<le> e_offset e" "boundary s (e_offset e)" "from_utf8 (e_insert e)"
    using Cons.prems(2,4) by simp_all
  have "view_of s (push_seg (BaseSeg pos (e_offset e)) v) (p @ slice s pos (e_offset e))"
    using push_seg_view [OF Cons.prems(1), of "BaseSeg pos (e_offset e)"] e Cons.prems(3) by simp
  then have "view_of s (push_seg (InsSeg (e_insert e)) (push_seg (BaseSeg pos (e_offset e)) v))
      (p @ slice s pos (e_offset e) @ e_insert e)"
    using push_seg_view [of s _ _ "InsSeg (e_insert e)"] e(3) by fastforce
  from Cons.IH [OF this] Cons.prems(2,4) show ?case by simp
qed

definition sequence_ok :: "string \<Rightarrow> edit list \<Rightarrow> bool" where
  "sequence_ok s seq \<longleftrightarrow> canonical_from (length s) seq
     \<and> list_all (\<lambda>e. boundary s (e_offset e) \<and> boundary s (e_offset e + e_delete e) \<and> from_utf8 (e_insert e)) seq"

lemma sequence_ok_steps: "from_utf8 s \<Longrightarrow> sequence_ok s seq \<Longrightarrow> steps_ok s seq"
  by (rule base_steps_ok) (auto simp: sequence_ok_def list_all_iff)

lemma sequence_ok_utf8: "from_utf8 s \<Longrightarrow> sequence_ok s seq \<Longrightarrow> from_utf8 (apply_edits s seq)"
  by (rule steps_ok_utf8 [OF _ sequence_ok_steps])

lemma post_view_of:
  assumes "text_inv t" and "sequence_ok (text_bytes t) seq"
  shows "view_of (text_bytes t) (post_view_new t seq) (apply_edits (text_bytes t) seq)"
proof -
  let ?s = "text_bytes t"
  note inv = text_invD [OF assms(1)]
  have "view_of ?s \<lparr>pv_segs = [], pv_len = 0\<rparr> []" by (simp add: view_of_def)
  moreover have can: "canonical_from (length ?s) seq" using assms(2) by (simp add: sequence_ok_def)
  ultimately have "view_of ?s (push_edits 0 (rev seq) (length ?s) \<lparr>pv_segs = [], pv_len = 0\<rparr>) (splice_edits 0 ?s (rev seq))"
    using push_edits_view [of ?s "\<lparr>pv_segs = [], pv_len = 0\<rparr>" "[]" 0 "rev seq"] canonical_reading [OF can]
      boundary_zero [OF inv(3)] assms(2) by (simp add: sequence_ok_def list_all_iff)
  then show ?thesis
    using canonical_splice [OF can] by (simp add: post_view_new_def inv(6))
qed

section \<open>Boundaries\<close>

lemma segs_find:
  assumes "segs_at s n segs" and "n \<le> o'" and "o' < n + length (segs_text s segs)"
  shows "\<exists>as m g bs. segs = as @ (m, g) # bs \<and> partition_point (\<lambda>(start, _). start \<le> o') segs = Suc (length as)
    \<and> m \<le> o' \<and> o' < m + seg_len g \<and> seg_ok s g
    \<and> segs_text s segs ! (o' - n) = seg_text s g ! (o' - m)"
  using assms
proof (induction segs arbitrary: n)
  case (Cons p segs)
  obtain g where p: "p = (n, g)" and g: "0 < seg_len g" "seg_ok s g" and rest: "segs_at s (n + seg_len g) segs"
    using Cons.prems(1) by (cases p) auto
  show ?case
  proof (cases "o' < n + seg_len g")
    case True
    have "partition_point (\<lambda>(start, _). start \<le> o') segs = 0"
      using rest True by (cases segs) (auto simp: partition_point_def)
    then have "partition_point (\<lambda>(start, _). start \<le> o') (p # segs) = Suc (length [])"
      using Cons.prems(2) by (simp add: p partition_point_def)
    then show ?thesis
      using True Cons.prems(2) g seg_text_length [OF g(2)]
      by (intro exI [of _ "[]"] exI [of _ n] exI [of _ g] exI [of _ segs]) (auto simp: p nth_append)
  next
    case False
    then obtain as m g' bs where IH: "segs = as @ (m, g') # bs"
      "partition_point (\<lambda>(start, _). start \<le> o') segs = Suc (length as)" "m \<le> o'" "o' < m + seg_len g'" "seg_ok s g'"
      "segs_text s segs ! (o' - (n + seg_len g)) = seg_text s g' ! (o' - m)"
      using Cons.IH [OF rest] Cons.prems(3) seg_text_length [OF g(2)] by (auto simp: p)
    have "segs_text s (p # segs) ! (o' - n) = segs_text s segs ! (o' - (n + seg_len g))"
      using False Cons.prems(2) seg_text_length [OF g(2)] by (auto simp: p nth_append)
    then show ?thesis
      using IH Cons.prems(2) by (intro exI [of _ "p # as"] exI [of _ m] exI [of _ g'] exI [of _ bs])
        (auto simp: p partition_point_def)
  qed
qed simp

lemma post_boundary_iff:
  assumes "text_inv t" and "view_of (text_bytes t) v p"
  shows "post_boundary t v o' \<longleftrightarrow> boundary p o'"
proof (cases "o' < length p")
  case True
  let ?s = "text_bytes t"
  have v: "segs_at ?s 0 (pv_segs v)" "segs_text ?s (pv_segs v) = p" "pv_len v = length p"
    using assms(2) by (simp_all add: view_of_def)
  obtain as m g bs where f: "pv_segs v = as @ (m, g) # bs"
    "partition_point (\<lambda>(start, _). start \<le> o') (pv_segs v) = Suc (length as)"
    "m \<le> o'" "o' < m + seg_len g" "seg_ok ?s g" "p ! o' = seg_text ?s g ! (o' - m)"
    using segs_find [OF v(1), of o'] True v(2) by auto
  have "post_boundary t v o' = (case g of BaseSeg a _ \<Rightarrow> is_char_boundary t (a + (o' - m)) | InsSeg i \<Rightarrow> boundary i (o' - m))"
    using True v(3) f(1,2) by (simp add: post_boundary_def Let_def)
  also have "\<dots> = (\<not> is_continuation (seg_text ?s g ! (o' - m)))"
  proof (cases g)
    case (BaseSeg a z)
    then have "a + (o' - m) < length ?s" "slice ?s a z ! (o' - m) = ?s ! (a + (o' - m))"
      using f(3-5) boundary_le [of ?s z] by (auto simp: slice_def)
    then show ?thesis using BaseSeg is_char_boundary_iff [OF assms(1)] by (simp add: boundary_def)
  next
    case (InsSeg i)
    then show ?thesis using f(3,4) by (auto simp: boundary_def)
  qed
  also have "\<dots> = boundary p o'" using True f(6) by (simp add: boundary_def)
  finally show ?thesis .
next
  case False
  then show ?thesis using assms(2) by (auto simp: post_boundary_def boundary_def view_of_def)
qed

section \<open>Lines\<close>

lemma ins_scan_eq:
  "0 < want \<Longrightarrow> ins_scan s j want =
     (if want \<le> length (starts_from j s) then Inr (starts_from j s ! (want - 1))
      else Inl (want - length (starts_from j s)))"
proof (induction s arbitrary: j want)
  case (Cons b bs)
  then show ?case by (cases "want - 1") (auto simp: nth_Cons')
qed simp

lemma starts_in_eq:
  assumes "text_inv t" and "a \<le> z" and "z \<le> length (text_bytes t)"
  shows "starts_in t a z = starts_from a (slice (text_bytes t) a z)"
proof -
  let ?s = "text_bytes t"
  define A D B where "A = take a ?s" and "D = slice ?s a z" and "B = drop z ?s"
  have s: "?s = A @ D @ B" and len: "length A = a" "length D = z - a"
    using assms(2,3) slice_then_drop [OF assms(2), of ?s] by (auto simp: A_def D_def B_def slice_simps)
  have lo: "partition_point (\<lambda>x. x \<le> a) (t_starts t) = length (line_starts A)"
    using line_starts_point_take [of a ?s] assms text_invD(5) [OF assms(1)] by (simp add: A_def length_line_starts)
  have hi: "partition_point (\<lambda>x. x \<le> z) (t_starts t) = length (line_starts A) + length (starts_from a D)"
    using line_starts_point_take [of z ?s] assms text_invD(5) [OF assms(1)] count_newlines_slice [of a z ?s]
    by (simp add: A_def D_def length_line_starts length_starts_from)
  have "t_starts t = line_starts A @ starts_from a D @ starts_from z B"
    using text_invD(5) [OF assms(1)] assms(2) by (simp add: s line_starts_append starts_from_append len)
  then show ?thesis
    unfolding starts_in_def lo hi Let_def by (simp add: slice_def D_def)
qed

lemma get_append: "get (xs @ ys) i = (if i < length xs then Some (xs ! i) else get ys (i - length xs))"
  by (auto simp: get_def nth_append)

lemma segs_line_start_eq:
  assumes "text_inv t" and "segs_at (text_bytes t) n segs" and "0 < want"
  shows "segs_line_start t segs want = get (starts_from n (segs_text (text_bytes t) segs)) (want - 1)"
  using assms(2,3)
proof (induction segs arbitrary: n want)
  case Nil
  then show ?case by (simp add: get_def)
next
  case (Cons p segs)
  let ?s = "text_bytes t"
  obtain g where p: "p = (n, g)" and g: "0 < seg_len g" "seg_ok ?s g" and rest: "segs_at ?s (n + seg_len g) segs"
    using Cons.prems(1) by (cases p) auto
  let ?x = "starts_from n (seg_text ?s g)"
  have all: "starts_from n (segs_text ?s (p # segs)) = ?x @ starts_from (n + seg_len g) (segs_text ?s segs)"
    using seg_text_length [OF g(2)] by (simp add: p starts_from_append)
  have IH: "\<not> want \<le> length ?x \<Longrightarrow> segs_line_start t segs (want - length ?x) =
      get (starts_from (n + seg_len g) (segs_text ?s segs)) (want - 1 - length ?x)"
    using Cons.IH [OF rest, of "want - length ?x"] by (simp add: diff_right_commute [of want])
  have "segs_line_start t (p # segs) want =
      (if want \<le> length ?x then Some (?x ! (want - 1)) else segs_line_start t segs (want - length ?x))"
  proof (cases g)
    case (BaseSeg a z)
    have st: "starts_in t a z = starts_from a (slice ?s a z)"
      using starts_in_eq [OF assms(1), of a z] g(2) boundary_le [of ?s z] by (simp add: BaseSeg)
    have shift: "starts_from a (slice ?s a z) = map (\<lambda>x. x + a) (starts_from 0 (slice ?s a z))"
      "?x = map (\<lambda>x. x + n) (starts_from 0 (slice ?s a z))"
      using starts_from_shift [of 0 a "slice ?s a z"] starts_from_shift [of 0 n "slice ?s a z"]
      by (simp_all add: BaseSeg)
    show ?thesis
      using Cons.prems(2) by (simp add: p BaseSeg st shift [unfolded BaseSeg seg_text.simps] Let_def add.commute)
  next
    case (InsSeg i)
    have shift: "?x = map (\<lambda>x. x + n) (starts_from 0 i)"
      using starts_from_shift [of 0 n i] by (simp add: InsSeg)
    show ?thesis
      using Cons.prems(2) by (simp add: p InsSeg ins_scan_eq shift [unfolded InsSeg seg_text.simps] add.commute)
  qed
  then show ?case unfolding all get_append using IH Cons.prems(2) by auto
qed

lemma post_line_start_eq:
  assumes "text_inv t" and "view_of (text_bytes t) v p" and "0 < line"
  shows "post_line_start t v line = get (line_starts p) (line - 1)"
proof (cases "line = 1")
  case True
  then show ?thesis by (simp add: post_line_start_def get_def line_starts_def)
next
  case False
  then show ?thesis
    using segs_line_start_eq [OF assms(1), of 0 "pv_segs v" "line - 1"] assms(2,3)
    by (auto simp: post_line_start_def view_of_def get_def line_starts_def nth_Cons')
qed

section \<open>Columns\<close>

lemma cols_visit_append:
  "cols_visit (xs @ ys) st = (case cols_visit xs st of (st', go) \<Rightarrow> if go then cols_visit ys st' else (st', False))"
  by (induction xs st rule: cols_visit.induct) auto

lemma cols_visit_eq:
  "0 < n \<Longrightarrow> cols_visit cs (n, off) =
     (let ls = takeWhile (\<lambda>c. c \<noteq> [newline]) cs
      in if n \<le> length ls then ((0, off + length (concat (take n ls))), False)
         else ((n - length ls, off + length (concat ls)), length ls = length cs))"
proof (induction cs arbitrary: n off)
  case (Cons c cs)
  show ?case
  proof (cases "c = [newline] \<or> n = 1")
    case True
    then show ?thesis using Cons.prems by (auto simp: take_Cons')
  next
    case False
    then have "cols_visit (c # cs) (n, off) = cols_visit cs (n - 1, off + length c)" using Cons.prems by simp
    also have "\<dots> = (let ls = takeWhile (\<lambda>c. c \<noteq> [newline]) cs
      in if n - 1 \<le> length ls then ((0, off + length c + length (concat (take (n - 1) ls))), False)
         else ((n - 1 - length ls, off + length c + length (concat ls)), length ls = length cs))"
      using Cons.IH [of "n - 1" "off + length c"] Cons.prems False by simp
    finally show ?thesis using False Cons.prems by (auto simp: Let_def take_Cons')
  qed
qed simp

lemma feed_cols:
  "pieces ps \<Longrightarrow> fst (feed (\<lambda>s (st, _). let (st, go) = cols_visit (scalars s) st in ((st, go), go)) ps (st, True))
     = cols_visit (scalars (concat ps)) st"
proof (induction ps arbitrary: st)
  case (Cons p ps)
  obtain st' go where c: "cols_visit (scalars p) st = (st', go)" by fastforce
  then show ?case using Cons by (simp add: scalars_append cols_visit_append)
qed simp

lemma utf8_drop_inner:
  assumes "from_utf8 a" and "from_utf8 (drop k (a @ b))" and "k < length a"
  shows "boundary a k"
proof -
  have "drop k (a @ b) \<noteq> []" using assms(3) by simp
  then have "\<not> is_continuation (hd (drop k (a @ b)))" using from_utf8_hd [OF assms(2)] by blast
  moreover have "hd (drop k (a @ b)) = a ! k" using assms(3) by (simp add: hd_append hd_drop_conv_nth)
  ultimately show ?thesis using assms(3) by (simp add: boundary_def)
qed

lemma base_seg_visit:
  assumes "text_inv t" and "a \<le> z" and "boundary (text_bytes t) z" and "local < z - a"
    and "boundary (slice (text_bytes t) a z) local"
  shows "for_each_str t (a + local, z)
      (\<lambda>s (st, _). let (st, go) = cols_visit (scalars s) st in ((st, go), go)) (st, True)
    = Some (cols_visit (scalars (drop local (slice (text_bytes t) a z))) st)"
proof -
  let ?s = "text_bytes t"
  have z: "z \<le> length ?s" using assms(3) by (rule boundary_le)
  have le: "a + local \<le> z" using assms(4) by simp
  have "slice ?s a z ! local = ?s ! (a + local)" "local < length (slice ?s a z)"
    using assms(4) z by (simp_all add: slice_def)
  then have "boundary ?s (a + local)" using assms(2,4,5) z by (auto simp: boundary_def)
  then obtain ps where ps: "concat ps = slice ?s (a + local) z" "pieces ps"
    "for_each_str t (a + local, z)
      (\<lambda>s (st, _). let (st, go) = cols_visit (scalars s) st in ((st, go), go)) (st, True)
     = Some (fst (feed (\<lambda>s (st, _). let (st, go) = cols_visit (scalars s) st in ((st, go), go)) ps (st, True)))"
    using for_each_str_feed [OF assms(1) _ assms(3) le,
        of "\<lambda>s (st, _). let (st, go) = cols_visit (scalars s) st in ((st, go), go)" "(st, True)"] by blast
  have "slice ?s (a + local) z = drop local (slice ?s a z)"
    by (simp add: slice_def drop_take add.commute)
  then show ?thesis using ps(3) feed_cols [OF ps(2), of st] ps(1) by simp
qed

lemma segs_after_cols_eq:
  assumes "text_inv t" and "segs_at (text_bytes t) n segs"
    and "from_utf8 (drop (from' - n) (segs_text (text_bytes t) segs))"
  shows "segs_after_cols t from' segs st =
    Some (fst (cols_visit (scalars (drop (from' - n) (segs_text (text_bytes t) segs))) st))"
  using assms(2,3)
proof (induction segs arbitrary: n st)
  case Nil
  then show ?case by simp
next
  case (Cons p segs)
  let ?s = "text_bytes t"
  have utf8: "from_utf8 ?s" using text_invD(3) [OF assms(1)] .
  obtain g where p: "p = (n, g)" and g: "0 < seg_len g" "seg_ok ?s g" and rest: "segs_at ?s (n + seg_len g) segs"
    using Cons.prems(1) by (cases p) auto
  note len = seg_text_length [OF g(2)]
  have tv: "from_utf8 (seg_text ?s g)" and rv: "from_utf8 (segs_text ?s segs)"
    using seg_text_utf8 [OF utf8 g(2)] segs_text_utf8 [OF utf8 rest] .
  show ?case
  proof (cases "n + seg_len g \<le> from'")
    case True
    then have "drop (from' - n) (segs_text ?s (p # segs)) = drop (from' - (n + seg_len g)) (segs_text ?s segs)"
      using len by (simp add: p)
    then show ?thesis using Cons.IH [OF rest, of st] Cons.prems(2) True by (simp add: p)
  next
    case False
    let ?k = "from' - n"
    have k: "?k < length (seg_text ?s g)" using False len g(1) by simp
    have bnd: "boundary (seg_text ?s g) ?k"
      using utf8_drop_inner [OF tv _ k] Cons.prems(2) by (simp add: p)
    have split: "drop ?k (segs_text ?s (p # segs)) = drop ?k (seg_text ?s g) @ segs_text ?s segs"
      using k by (simp add: p)
    have sc: "scalars (drop ?k (seg_text ?s g) @ segs_text ?s segs) =
        scalars (drop ?k (seg_text ?s g)) @ scalars (segs_text ?s segs)"
      using boundary_split [OF tv bnd] scalars_append by blast
    have IH: "segs_after_cols t from' segs st = Some (fst (cols_visit (scalars (segs_text ?s segs)) st))" for st
      using Cons.IH [OF rest, of st] False rv by simp
    obtain st' go where c: "cols_visit (scalars (drop ?k (seg_text ?s g))) st = (st', go)" by fastforce
    have "segs_after_cols t from' (p # segs) st = (if go then segs_after_cols t from' segs st' else Some st')"
    proof (cases g)
      case (BaseSeg a z)
      then show ?thesis
        using base_seg_visit [OF assms(1), of a z ?k st] g k bnd c False len
        by (simp add: p Let_def)
    next
      case (InsSeg i)
      then show ?thesis using c False by (simp add: p Let_def)
    qed
    then show ?thesis unfolding split sc cols_visit_append using c IH by simp
  qed
qed

lemma post_after_cols_eq:
  assumes "text_inv t" and "view_of (text_bytes t) v p" and "boundary p from'" and "from_utf8 p"
  shows "post_after_cols t v from' cols = Some
    (let ls = takeWhile (\<lambda>c. c \<noteq> [newline]) (scalars (drop from' p))
     in if cols \<le> length ls then Some (from' + length (concat (take cols ls))) else None)"
proof (cases "cols = 0")
  case True
  then show ?thesis by (simp add: post_after_cols_def)
next
  case False
  have "from_utf8 (drop from' p)" using boundary_split [OF assms(4,3)] by simp
  then have "segs_after_cols t from' (pv_segs v) (cols, from') = Some (fst (cols_visit (scalars (drop from' p)) (cols, from')))"
    using segs_after_cols_eq [OF assms(1), of 0 "pv_segs v" from'] assms(2) by (simp add: view_of_def)
  then show ?thesis using False by (simp add: post_after_cols_def cols_visit_eq Let_def)
qed

section \<open>The lines of a text\<close>

lemma starts_from_mem:
  "i < length s \<Longrightarrow> s ! i = newline \<Longrightarrow> pos + Suc i \<in> set (starts_from pos s)"
proof (induction s arbitrary: pos i)
  case (Cons b bs)
  show ?case
  proof (cases i)
    case (Suc j)
    then show ?thesis using Cons.IH [of j "Suc pos"] Cons.prems by (auto split: if_splits)
  qed (use Cons.prems in simp)
qed simp

lemma sorted_line_starts: "sorted_wrt (<) (line_starts s)"
  using sorted_starts_from [of 0 s] by (auto simp: line_starts_def dest: starts_from_bounds)

lemma line_starts_le: "x \<in> set (line_starts s) \<Longrightarrow> x \<le> length s"
  by (auto simp: line_starts_def dest: starts_from_bounds)

text \<open>A line by its number: its start, its end, no line break in between, one behind it unless it is
  the last.\<close>

lemma line_by_number:
  assumes "text_inv t" and "0 < line" and "line \<le> line_count t"
  obtains s e where "line_start t line = Some s" and "line_end t line = Some e" and "s \<le> e"
    and "get (line_starts (text_bytes t)) (line - 1) = Some s"
    and "boundary (text_bytes t) s" and "boundary (text_bytes t) e"
    and "newline \<notin> set (slice (text_bytes t) s e)"
    and "e = length (text_bytes t) \<or> e < length (text_bytes t) \<and> text_bytes t ! e = newline"
proof -
  let ?b = "text_bytes t" and ?xs = "line_starts (text_bytes t)"
  note inv = text_invD [OF assms(1)]
  have len: "line_count t = length ?xs" by (simp add: inv(7) length_line_starts)
  have i: "line - 1 < length ?xs" using assms(2,3) len by simp
  define s where "s = ?xs ! (line - 1)"
  have smem: "s \<in> set ?xs" using i by (simp add: s_def)
  have ls: "line_start t line = Some s"
    using assms(2) i by (simp add: line_start_def checked_sub_def get_def inv(5) s_def)
  define e where "e = (if line < length ?xs then ?xs ! line - 1 else length ?b)"
  have le: "line_end t line = Some e" using ls by (simp add: line_end_def get_def inv(5,6) e_def)
  have next_gt: "line < length ?xs \<Longrightarrow> s < ?xs ! line"
    using sorted_wrt_nth_less [OF sorted_line_starts, of "line - 1" line ?b] assms(2) by (simp add: s_def)
  have mem: "line < length ?xs \<Longrightarrow> ?xs ! line \<in> set ?xs" by simp
  have se: "s \<le> e" using next_gt line_starts_le [OF smem] by (auto simp: e_def)
  have behind: "e = length ?b \<or> e < length ?b \<and> ?b ! e = newline"
  proof (cases "line < length ?xs")
    case True
    then have "?xs ! line \<in> set (starts_from 0 ?b)" using mem next_gt by (auto simp: line_starts_def)
    then show ?thesis using starts_from_newline [of "?xs ! line" 0 ?b] starts_from_bounds [of "?xs ! line" 0 ?b] True
      by (auto simp: e_def)
  qed (simp add: e_def)
  have "boundary ?b e"
    using line_starts_boundary(2) [OF inv(3) mem] next_gt by (auto simp: e_def)
  moreover have "newline \<notin> set (slice ?b s e)"
  proof
    assume "newline \<in> set (slice ?b s e)"
    then obtain j where j: "j < e - s" "s + j < length ?b" "?b ! (s + j) = newline"
      by (auto simp: slice_def in_set_conv_nth)
    then have "Suc (s + j) \<in> set ?xs" using starts_from_mem [of "s + j" ?b 0] by (simp add: line_starts_def)
    then obtain k where k: "k < length ?xs" "?xs ! k = Suc (s + j)" by (auto simp: in_set_conv_nth)
    have "line - 1 < k"
      using sorted_wrt_nth_less [OF sorted_line_starts, of k "line - 1" ?b] i k(2) s_def
      by (metis Suc_n_not_le_n le_add1 le_trans less_imp_le_nat linorder_neqE_nat order_refl)
    then have "?xs ! line \<le> ?xs ! k"
      using sorted_wrt_nth_less [OF sorted_line_starts, of line k ?b] k(1) assms(2)
      by (cases "k = line") (auto intro: less_imp_le)
    moreover have "line < length ?xs" using \<open>line - 1 < k\<close> k(1) assms(2) by simp
    ultimately show False using j(1) k(2) by (simp add: e_def)
  qed
  moreover have "boundary ?b s" using line_starts_boundary(1) [OF inv(3) smem] .
  ultimately show thesis
    using that [OF ls le se] i behind by (simp add: get_def s_def)
qed

lemma newline_notin_scalars:
  assumes "newline \<notin> set s"
  shows "[newline] \<notin> set (scalars s)"
proof
  assume "[newline] \<in> set (scalars s)"
  then have "newline \<in> set (concat (scalars s))" by (auto intro!: bexI [of _ "[newline]"])
  moreover obtain r where "s = concat (scalars s) @ r" using scalars_prefix by blast
  ultimately show False using assms by (metis Un_iff set_append)
qed

lemma line_scalars:
  assumes "from_utf8 b" and "boundary b s" and "boundary b e" and "s \<le> e" and "newline \<notin> set (slice b s e)"
    and "e = length b \<or> e < length b \<and> b ! e = newline"
  shows "scalars (slice b s e) = takeWhile (\<lambda>c. c \<noteq> [newline]) (scalars (drop s b))"
proof -
  have v: "from_utf8 (slice b s e)" by (rule slice_from_utf8 [OF assms(1-4)])
  have split: "drop s b = slice b s e @ drop e b" using slice_then_drop [OF assms(4), of b] by simp
  have tail: "takeWhile (\<lambda>c. c \<noteq> [newline]) (scalars (drop e b)) = []"
  proof (cases "e = length b")
    case False
    then have "drop e b = [newline] @ drop (Suc e) b" using assms(6) by (simp add: Cons_nth_drop_Suc [symmetric])
    then show ?thesis using scalars_char [OF newline_char(1), of "drop (Suc e) b"] by simp
  qed simp
  have "\<forall>c\<in>set (scalars (slice b s e)). c \<noteq> [newline]" using newline_notin_scalars [OF assms(5)] by auto
  then show ?thesis unfolding split scalars_append [OF v] using tail by (simp add: takeWhile_append2)
qed

section \<open>A cursor resolves as in the committed text\<close>

text \<open>The refusal a position earns, context aside.\<close>

definition same_answer :: "(failure, nat) result \<Rightarrow> (failure, nat) result \<Rightarrow> bool" where
  "same_answer x y \<longleftrightarrow> (case (x, y) of
      (Inr a, Inr b) \<Rightarrow> a = b
    | (Inl (Refuse a), Inl (Refuse b)) \<Rightarrow> ce_code a = ce_code b \<and> ce_reason a = ce_reason b
    | _ \<Rightarrow> False)"

lemma line_col_resolve:
  assumes "text_inv t" and "text_inv t'" and "sequence_ok (text_bytes t) seq"
    and "text_bytes t' = apply_edits (text_bytes t) seq"
    and "0 < line" and "line \<le> line_count t'" and "0 < col"
  shows "\<exists>s. post_line_start t (post_view_new t seq) line = Some s
    \<and> post_after_cols t (post_view_new t seq) s (col - 1) = line_col_offset t' line col"
proof -
  let ?v = "post_view_new t seq" and ?p = "text_bytes t'"
  have view: "view_of (text_bytes t) ?v ?p" using post_view_of [OF assms(1,3)] assms(4) by simp
  obtain s e where l: "line_start t' line = Some s" "line_end t' line = Some e" "s \<le> e"
    "get (line_starts ?p) (line - 1) = Some s" "boundary ?p s" "boundary ?p e" "newline \<notin> set (slice ?p s e)"
    "e = length ?p \<or> e < length ?p \<and> ?p ! e = newline"
    using line_by_number [OF assms(2,5,6)] .
  have start: "post_line_start t ?v line = Some s"
    using post_line_start_eq [OF assms(1) view assms(5)] l(4) by simp
  note utf8 = text_invD(3) [OF assms(2)]
  have "post_after_cols t ?v s (col - 1) = line_col_offset t' line col"
    using post_after_cols_eq [OF assms(1) view l(5) utf8, of "col - 1"]
      line_col_offset_eq [OF assms(2) l(1,2,5,6,3) assms(7)]
      line_scalars [OF utf8 l(5,6,3,7,8)] by simp
  then show ?thesis using start by blast
qed

lemma named_anchor_map_name [simp]: "na_name (named_anchor_map es r a) = na_name a"
  by (simp add: named_anchor_map_def split_beta Let_def split: option.splits)

lemma find_map_names:
  "find (\<lambda>a. na_name a = name) (map (named_anchor_map es r) as) =
     map_option (named_anchor_map es r) (find (\<lambda>a. na_name a = name) as)"
  by (induction as) auto

lemma line_col_offset_some:
  assumes "text_inv t" and "0 < line" and "line \<le> line_count t"
  shows "\<exists>r. line_col_offset t line col = Some r \<and> (\<forall>o'. r = Some o' \<longrightarrow> boundary (text_bytes t) o')
    \<and> (col = 0 \<longrightarrow> r = None)"
proof -
  let ?b = "text_bytes t"
  obtain s e where l: "line_start t line = Some s" "line_end t line = Some e" "s \<le> e" "boundary ?b s" "boundary ?b e"
    using line_by_number [OF assms] by metis
  show ?thesis
  proof (cases "col = 0")
    case True
    then show ?thesis using l by (simp add: line_col_offset_def)
  next
    case False
    let ?cs = "scalars (slice ?b s e)"
    note utf8 = text_invD(3) [OF assms(1)]
    have v: "from_utf8 (slice ?b s e)" by (rule slice_from_utf8 [OF utf8 l(4,5,3)])
    have "boundary ?b (s + length (concat (take n ?cs)))" for n
    proof -
      have "list_all utf8_char (drop n ?cs)" using scalars_prefix [of "slice ?b s e"] by (auto simp: list_all_iff dest: in_set_dropD)
      then have "from_utf8 (concat (drop n ?cs))" by (auto simp: from_utf8_iff)
      moreover have "from_utf8 (drop e ?b)" using boundary_split [OF utf8 l(5)] by simp
      ultimately have tail: "from_utf8 (concat (drop n ?cs) @ drop e ?b)" by blast
      have "concat (take n ?cs) @ concat (drop n ?cs) = slice ?b s e"
        using concat_scalars [OF v] by (simp flip: concat_append)
      then have "?b = (take s ?b @ concat (take n ?cs)) @ (concat (drop n ?cs) @ drop e ?b)"
        using slice_then_drop [OF l(3), of ?b] by (metis append.assoc append_take_drop_id)
      moreover have "length (take s ?b @ concat (take n ?cs)) = s + length (concat (take n ?cs))"
        using boundary_le [OF l(4)] by simp
      ultimately show ?thesis using split_boundary [OF tail] by metis
    qed
    then show ?thesis
      using line_col_offset_eq [OF assms(1) l(1,2,4,5,3), of col] False by (simp add: Let_def)
  qed
qed

lemma resolve_pos_line_col:
  assumes "text_inv (b_text b)" and "0 < line" and "line \<le> line_count (b_text b)"
  shows "resolve_pos b (LineCol line col) =
    (let c = (case col of None \<Rightarrow> 1 | Some c \<Rightarrow> c) in
     if c = 0 then Inl (col_error line c)
     else ok_or (col_error line c) (the (line_col_offset (b_text b) line c)))"
proof -
  define c where "c = (case col of None \<Rightarrow> 1 | Some c \<Rightarrow> c)"
  obtain r where r: "line_col_offset (b_text b) line c = Some r" "c = 0 \<longrightarrow> r = None"
    using line_col_offset_some [OF assms, of c] by blast
  have "resolve_pos b (LineCol line col) = ok_or (col_error line c) r"
    using assms(2,3) r(1) by (simp add: resolve_pos_def check_line_def returns_def c_def Let_def)
  then show ?thesis using r by (auto simp: Let_def c_def [symmetric])
qed

lemma resolve_post_line_col:
  assumes "text_inv (b_text b)" and "text_inv t'" and "sequence_ok (text_bytes (b_text b)) seq"
    and "text_bytes t' = apply_edits (text_bytes (b_text b)) seq"
    and "0 < line" and "line \<le> line_count t'"
  shows "resolve_post b (LineCol line col) seq (line_count t') =
    (let c = (case col of None \<Rightarrow> 1 | Some c \<Rightarrow> c) in
     if c = 0 then Inl (col_error line c)
     else ok_or (col_error line c) (the (line_col_offset t' line c)))"
proof -
  define c where "c = (case col of None \<Rightarrow> 1 | Some c \<Rightarrow> c)"
  let ?v = "post_view_new (b_text b) seq"
  have post: "resolve_post b (LineCol line col) seq (line_count t') =
      and_then (returns (post_after_cols (b_text b) ?v
          (case post_line_start (b_text b) ?v line of Some s \<Rightarrow> s | None \<Rightarrow> pv_len ?v) (c - 1)))
        (\<lambda>r. ok_or (col_error line c) (Option.bind r (\<lambda>o'. if c \<ge> 1 then Some o' else None)))"
    using assms(5,6) by (simp add: resolve_post_def Let_def c_def)
  show ?thesis
  proof (cases "c = 0")
    case True
    then show ?thesis unfolding post c_def [symmetric]
      by (simp add: Let_def post_after_cols_def returns_def)
  next
    case False
    obtain s where s: "post_line_start (b_text b) ?v line = Some s"
      "post_after_cols (b_text b) ?v s (c - 1) = line_col_offset t' line c"
      using line_col_resolve [OF assms, of c] False by auto
    moreover obtain r where "line_col_offset t' line c = Some r"
      using line_col_offset_some [OF assms(2,5,6), of c] by blast
    moreover have "Option.bind r (\<lambda>o'. if 1 \<le> c then Some o' else None) = r"
      using False by (cases r) auto
    ultimately show ?thesis unfolding post c_def [symmetric] using False by (simp add: Let_def returns_def)
  qed
qed

lemma resolve_post_same_answer:
  assumes "text_inv (b_text b)" and "text_inv (b_text b')" and "sequence_ok (text_bytes (b_text b)) seq"
    and "text_bytes (b_text b') = apply_edits (text_bytes (b_text b)) seq"
    and "b_anchors b' = map (named_anchor_map seq (b_rev b + 1)) (b_anchors b)"
  shows "same_answer (resolve_post b p seq (line_count (b_text b'))) (resolve_pos b' p)"
proof (cases p)
  case (Offset o')
  have view: "view_of (text_bytes (b_text b)) (post_view_new (b_text b) seq) (text_bytes (b_text b'))"
    using post_view_of [OF assms(1,3)] assms(4) by simp
  then show ?thesis
    using post_boundary_iff [OF assms(1) view] is_char_boundary_iff [OF assms(2)] text_invD(6) [OF assms(2)]
    by (simp add: Offset same_answer_def resolve_post_def resolve_pos_def check_offset_def buf_len_def view_of_def
        with_context_def invalid_def Let_def)
next
  case (Named n)
  have "view_of (text_bytes (b_text b)) (post_view_new (b_text b) seq) (text_bytes (b_text b'))"
    using post_view_of [OF assms(1,3)] assms(4) by simp
  then show ?thesis
    using text_invD(6) [OF assms(2)]
    by (cases n) (simp_all add: Named same_answer_def resolve_post_def resolve_pos_def buf_len_def view_of_def Let_def)
next
  case (LineCol line col)
  show ?thesis
  proof (cases "0 < line \<and> line \<le> line_count (b_text b')")
    case True
    then have "resolve_post b p seq (line_count (b_text b')) = resolve_pos b' p"
      using resolve_post_line_col [OF assms(1,2,3,4), of line col] resolve_pos_line_col [OF assms(2), of line col]
      by (simp add: LineCol Let_def)
    moreover have "resolve_pos b' p = Inl f \<Longrightarrow> \<exists>e. f = Refuse e" for f
      using resolve_pos_line_col [OF assms(2), of line col] True
      by (auto simp: LineCol col_error_def Let_def split: if_splits elim!: ok_or.elims)
    ultimately show ?thesis by (cases "resolve_pos b' p") (auto simp: same_answer_def)
  next
    case False
    then show ?thesis
      by (auto simp: LineCol same_answer_def resolve_post_def resolve_pos_def check_line_def with_context_def
          invalid_def Let_def)
  qed
next
  case (PosAnchor name)
  show ?thesis
    using find_map_names [of name seq "b_rev b + 1" "b_anchors b"]
    by (cases "find (\<lambda>a. na_name a = name) (b_anchors b)")
      (simp_all add: PosAnchor same_answer_def resolve_post_def resolve_pos_def find_anchor_def assms(5)
        unknown_anchor_def Let_def)
qed

text \<open>A cursor given in post-edit coordinates is resolved before anything is applied, through the
  segment view; for every position form the answer (the offset, or the refusal code and reason) is
  the one the committed buffer would give.\<close>

theorem cursor_resolves_as_committed:
  assumes "text_inv (b_text b)" and "text_inv (b_text b')" and "sequence_ok (text_bytes (b_text b)) seq"
    and "text_bytes (b_text b') = apply_edits (text_bytes (b_text b)) seq"
    and "b_anchors b' = map (named_anchor_map seq (b_rev b + 1)) (b_anchors b)"
  shows "same_answer (resolve_post b p seq (line_count (b_text b'))) (resolve_pos b' p)"
  using assms by (rule resolve_post_same_answer)

theorem cursor_resolves_as_committed_witness:
  "resolve_post (with_text sample_text) (LineCol 2 None) [\<lparr>e_offset = 1, e_delete = 2, e_insert = []\<rparr>] 2 = Inr 2"
proof -
  define t' where "t' = \<lparr>t_gap = \<lparr>g_mem = [CHR ''h'', CHR 0x0A, CHR ''x''], g_reserve = LARGE_CAPACITY,
    g_text_length = 3, g_gap_off = 3, g_gap_len = 0, g_generation = 0, g_commit_calls = 0, g_large = True\<rparr>,
    t_starts = [0, 2]\<rparr>"
  let ?seq = "[\<lparr>e_offset = 1, e_delete = 2, e_insert = []\<rparr>]"
  have bytes: "text_bytes t' = [CHR ''h'', CHR 0x0A, CHR ''x'']"
    by (simp add: t'_def text_bytes_def gap_text_def slice_def)
  have "from_utf8 [CHR ''h'', CHR 0x0A, CHR ''x'']"
    unfolding from_utf8_iff
    by (rule exI [of _ "[''h'', [CHR 0x0A], ''x'']"]) (simp add: utf8_char_def lead_len_def byte_def)
  then have inv: "text_inv t'"
    unfolding text_inv_def bytes
    by (simp add: t'_def store_inv_def gap_inv_def LARGE_CAPACITY_def MAX_BUFFER_BYTES_def MIB_def MAX_LINES_def
        line_starts_def newline_def)
  have seq: "sequence_ok (text_bytes sample_text) ?seq"
    using sample_boundary by (simp add: sequence_ok_def sample_bytes)
  have "same_answer (resolve_post (with_text sample_text) (LineCol 2 None) ?seq (line_count t'))
      (resolve_pos (with_text t') (LineCol 2 None))"
    using cursor_resolves_as_committed [of "with_text sample_text" "with_text t'" ?seq] sample_inv inv seq
    by (simp add: with_text_def sample_bytes bytes apply_edit_def)
  moreover have "resolve_pos (with_text t') (LineCol 2 None) = Inr 2"
    by (simp add: resolve_pos_def check_line_def with_text_def line_count_def t'_def line_col_offset_def
        line_start_def line_end_def get_def checked_sub_def returns_def)
  moreover have "line_count t' = 2" by (simp add: line_count_def t'_def)
  ultimately show ?thesis
    by (auto simp: same_answer_def split: sum.splits failure.splits)
qed

end
