(* ===== verification/Edit_Commit.thy ===== *)
theory Edit_Commit
  imports Edit_Post
begin

text \<open>
  Correctness of the buffer's transactions.  \<open>buffer_inv\<close> says that the text is well formed, the
  log a replayable suffix of its history, and every anchor and selection on a char boundary.  The
  lemmas show that resolution yields ranges on char boundaries, that a commit either refuses
  without an observable change or performs exactly the resolved substitutions, and that every
  operation keeps the invariant.
\<close>

section \<open>Invariant\<close>

definition selections_ok :: "string \<Rightarrow> (origin, selection list) bmap \<Rightarrow> bool" where
  "selections_ok s m \<longleftrightarrow> bm_inv m \<and> length m \<le> MAX_SELECTION_ORIGINS
     \<and> (\<forall>(o', ss)\<in>set m. length ss \<le> MAX_SELECTIONS_PER_ORIGIN \<and> list_all (selection_in s) ss)"

definition anchors_ok :: "string \<Rightarrow> named_anchor list \<Rightarrow> bool" where
  "anchors_ok s as \<longleftrightarrow> length as \<le> MAX_ANCHORS \<and> distinct (map na_name as) \<and> list_all (anchor_in s) as"

definition history_ok :: "op_log \<Rightarrow> string \<Rightarrow> bool" where
  "history_ok log s \<longleftrightarrow> (\<exists>s0. from_utf8 s0 \<and> replays s0 (ol_entries log) s)"

definition buffer_inv :: "buffer \<Rightarrow> bool" where
  "buffer_inv b \<longleftrightarrow> text_inv (b_text b) \<and> log_inv (b_rev b) (b_log b)
     \<and> history_ok (b_log b) (text_bytes (b_text b))
     \<and> anchors_ok (text_bytes (b_text b)) (b_anchors b)
     \<and> selections_ok (text_bytes (b_text b)) (b_selections b)
     \<and> (\<forall>r. b_saved_rev b = Some r \<longrightarrow> r \<le> b_rev b)"

abbreviation content :: "buffer \<Rightarrow> string" where
  "content b \<equiv> text_bytes (b_text b)"

lemma buffer_invD:
  assumes "buffer_inv b"
  shows "text_inv (b_text b)" "log_inv (b_rev b) (b_log b)" "history_ok (b_log b) (content b)"
    "anchors_ok (content b) (b_anchors b)" "selections_ok (content b) (b_selections b)"
    "from_utf8 (content b)" "buf_len b = length (content b)" "b_saved_rev b = Some r \<Longrightarrow> r \<le> b_rev b"
  using assms text_invD [of "b_text b"] by (simp_all add: buffer_inv_def buf_len_def)

text \<open>What a refusal must leave alone: everything but spare memory, the position of the gap and
  lanes without groups.\<close>

definition visible_lanes :: "op_log \<Rightarrow> (origin, lane) bmap" where
  "visible_lanes log = bm_retain (\<lambda>_ l. l_undo l \<noteq> [] \<or> l_redo l \<noteq> []) (ol_lanes log)"

definition unchanged :: "buffer \<Rightarrow> buffer \<Rightarrow> bool" where
  "unchanged b b' \<longleftrightarrow> content b' = content b \<and> t_starts (b_text b') = t_starts (b_text b)
     \<and> b_rev b' = b_rev b \<and> b_saved_rev b' = b_saved_rev b \<and> b_anchors b' = b_anchors b
     \<and> b_selections b' = b_selections b \<and> ol_entries (b_log b') = ol_entries (b_log b)
     \<and> ol_text_bytes (b_log b') = ol_text_bytes (b_log b) \<and> ol_base (b_log b') = ol_base (b_log b)
     \<and> visible_lanes (b_log b') = visible_lanes (b_log b)"

lemma unchanged_refl [simp]: "unchanged b b"
  by (simp add: unchanged_def)

definition refusal :: "failure \<Rightarrow> bool" where
  "refusal f \<longleftrightarrow> (\<exists>e. f = Refuse e)"

lemma refusal_Refuse [simp]: "refusal (Refuse e)"
  by (simp add: refusal_def)

section \<open>Resolution\<close>

definition positions_inv :: "buffer \<Rightarrow> bool" where
  "positions_inv b \<longleftrightarrow> text_inv (b_text b) \<and> anchors_ok (content b) (b_anchors b)"

lemma buffer_positions: "buffer_inv b \<Longrightarrow> positions_inv b"
  by (simp add: buffer_inv_def positions_inv_def)

lemma positions_invD:
  assumes "positions_inv b"
  shows "text_inv (b_text b)" "from_utf8 (content b)" "buf_len b = length (content b)"
  using assms text_invD [of "b_text b"] by (simp_all add: positions_inv_def buf_len_def)

lemma check_offset_Inr: "positions_inv b \<Longrightarrow> check_offset b o' = Inr x \<longleftrightarrow> x = o' \<and> boundary (content b) o'"
  using is_char_boundary_iff [OF positions_invD(1), of b o'] positions_invD(3) [of b] boundary_le [of "content b" o']
  by (auto simp: check_offset_def)

lemma check_offset_Inl: "check_offset b o' = Inl f \<Longrightarrow> refusal f"
  by (auto simp: check_offset_def split: if_splits)

lemma find_anchor_in:
  assumes "positions_inv b" and "find_anchor b name = Some a"
  shows "anchor_in (content b) a"
  using assms
  by (auto simp: positions_inv_def find_anchor_def anchors_ok_def list_all_iff find_Some_iff)

lemma resolve_pos_ok:
  assumes "positions_inv b"
  shows "(\<forall>x. resolve_pos b p = Inr x \<longrightarrow> boundary (content b) x) \<and> (\<forall>f. resolve_pos b p = Inl f \<longrightarrow> refusal f)"
proof (cases p)
  case (Offset o')
  then show ?thesis using check_offset_Inr [OF assms] check_offset_Inl by (auto simp: resolve_pos_def)
next
  case (Named n)
  then show ?thesis
    using boundary_zero [OF positions_invD(2) [OF assms]] positions_invD(3) [OF assms] by (cases n) (auto simp: resolve_pos_def)
next
  case (LineCol line col)
  show ?thesis
  proof (cases "0 < line \<and> line \<le> line_count (b_text b)")
    case True
    note eq = resolve_pos_line_col [OF positions_invD(1) [OF assms], of line col]
    show ?thesis
      using eq line_col_offset_some [OF positions_invD(1) [OF assms], of line "case col of None \<Rightarrow> 1 | Some c \<Rightarrow> c"] True
      by (auto simp: LineCol col_error_def Let_def split: if_splits elim!: ok_or.elims)
  next
    case False
    then show ?thesis by (auto simp: LineCol resolve_pos_def check_line_def)
  qed
next
  case (PosAnchor name)
  show ?thesis
    using find_anchor_in [OF assms, of name]
    by (cases "find_anchor b name") (auto simp: PosAnchor resolve_pos_def unknown_anchor_def anchor_in_def)
qed

definition range_ok :: "buffer \<Rightarrow> nat \<Rightarrow> nat \<Rightarrow> bool" where
  "range_ok b s e \<longleftrightarrow> s \<le> e \<and> boundary (content b) s \<and> boundary (content b) e"

lemma resolve_lines_ok:
  assumes "buffer_inv b" and "resolve_range b (Lines x y) = Inr (s, e)"
  shows "range_ok b s e"
proof -
  note t = buffer_invD(1) [OF assms(1)]
  have xy: "0 < x" "x \<le> y" "y \<le> line_count (b_text b)"
    and se: "s = (case line_start (b_text b) x of Some s \<Rightarrow> s | None \<Rightarrow> 0)"
      "e = (case line_start (b_text b) (y + 1) of Some e \<Rightarrow> e | None \<Rightarrow> buf_len b)"
    using assms(2) by (auto simp: resolve_range_def check_line_def result_simps Let_def split: if_splits)
  obtain s' where x: "line_start (b_text b) x = Some s'" "get (line_starts (content b)) (x - 1) = Some s'"
    "boundary (content b) s'"
    using line_by_number [OF t, of x] xy by auto
  show ?thesis
  proof (cases "y + 1 \<le> line_count (b_text b)")
    case True
    then obtain e' where y: "line_start (b_text b) (y + 1) = Some e'" "get (line_starts (content b)) y = Some e'"
      "boundary (content b) e'"
      using line_by_number [OF t, of "y + 1"] by auto
    have "s' \<le> e'"
      using sorted_wrt_nth_less [OF sorted_line_starts, of "x - 1" y "content b"] x(2) y(2) xy
      by (auto simp: get_def split: if_splits intro: less_imp_le)
    then show ?thesis using x y se by (simp add: range_ok_def)
  next
    case False
    then have "line_start (b_text b) (y + 1) = None" by (simp add: line_start_def checked_sub_def get_def line_count_def)
    then show ?thesis using x se buffer_invD(7) [OF assms(1)] boundary_le [OF x(3)] by (simp add: range_ok_def)
  qed
qed

lemma resolve_range_ok:
  assumes "buffer_inv b"
  shows "(\<forall>s e. resolve_range b r = Inr (s, e) \<longrightarrow> range_ok b s e) \<and> (\<forall>f. resolve_range b r = Inl f \<longrightarrow> refusal f)"
proof (cases r)
  case (Offsets s e)
  then show ?thesis using check_offset_Inr [OF buffer_positions [OF assms]] check_offset_Inl
    by (auto simp: resolve_range_def result_simps ordered_def range_ok_def split: if_splits)
next
  case (Span p q)
  then show ?thesis using resolve_pos_ok [OF buffer_positions [OF assms], of p] resolve_pos_ok [OF buffer_positions [OF assms], of q]
    by (auto simp: resolve_range_def result_simps ordered_def range_ok_def split: if_splits)
next
  case (Lines x y)
  have "refusal f" if "resolve_range b (Lines x y) = Inl f" for f
    using that by (auto simp: resolve_range_def check_line_def result_simps Let_def split: if_splits)
  then show ?thesis using resolve_lines_ok [OF assms] Lines by blast
next
  case (RangeAnchor name)
  show ?thesis
    using find_anchor_in [OF buffer_positions [OF assms], of name]
    by (cases "find_anchor b name")
      (auto simp: RangeAnchor resolve_range_def unknown_anchor_def anchor_in_def range_ok_def split: option.splits)
next
  case AllText
  then show ?thesis
    using boundary_zero [OF buffer_invD(6) [OF assms]] buffer_invD(7) [OF assms]
    by (auto simp: resolve_range_def range_ok_def)
qed

text \<open>The texts of a request are Rust strings, so valid UTF-8.\<close>

fun op_text :: "op_spec \<Rightarrow> string" where
  "op_text (InsertOp _ text) = text"
| "op_text (DeleteOp _) = []"
| "op_text (ReplaceOp _ text) = text"

definition item_ok :: "buffer \<Rightarrow> resolved \<Rightarrow> bool" where
  "item_ok b r \<longleftrightarrow> range_ok b (r_s r) (r_e r) \<and> from_utf8 (r_text r)"

lemma resolve_op_ok:
  assumes "buffer_inv b" and "from_utf8 (op_text (snd iop))"
  shows "(\<forall>x. resolve_op b iop = Inr x \<longrightarrow> item_ok b x \<and> r_idx x = fst iop) \<and> (\<forall>f. resolve_op b iop = Inl f \<longrightarrow> refusal f)"
proof (cases "snd iop")
  case (InsertOp p x)
  then show ?thesis using resolve_pos_ok [OF buffer_positions [OF assms(1)], of p] assms(2)
    by (auto simp: resolve_op_def result_simps item_ok_def range_ok_def)
next
  case (DeleteOp r)
  then show ?thesis using resolve_range_ok [OF assms(1), of r]
    by (auto simp: resolve_op_def result_simps item_ok_def)
next
  case (ReplaceOp r x)
  then show ?thesis using resolve_range_ok [OF assms(1), of r] assms(2)
    by (auto simp: resolve_op_def result_simps item_ok_def)
qed

lemma check_overlap_Inr:
  assumes "check_overlap items = Inr u" and "list_all (item_ok b) items"
  shows "sorted_wrt (\<lambda>x y. \<not> ranges_overlap (r_s x, r_e x) (r_s y, r_e y)) items"
proof -
  have "first_overlap (map (\<lambda>r. (r_s r, r_e r)) items) = None"
    using assms(1) by (auto simp: check_overlap_def split: option.splits)
  moreover have "\<forall>(s, e)\<in>set (map (\<lambda>r. (r_s r, r_e r)) items). s \<le> e"
    using assms(2) by (auto simp: list_all_iff item_ok_def range_ok_def)
  ultimately show ?thesis using first_overlap_None by (auto simp: sorted_wrt_map)
qed

lemma check_overlap_Inl: "check_overlap items = Inl f \<Longrightarrow> refusal f"
  by (auto simp: check_overlap_def split: option.splits)

lemma try_map_all:
  assumes "\<And>x. x \<in> set xs \<Longrightarrow> (\<forall>y. f x = Inr y \<longrightarrow> P y) \<and> (\<forall>e. f x = Inl e \<longrightarrow> Q e)"
  shows "(\<forall>ys. try_map f xs = Inr ys \<longrightarrow> list_all P ys) \<and> (\<forall>e. try_map f xs = Inl e \<longrightarrow> Q e)"
  using assms
proof (induction xs)
  case (Cons x xs)
  have "(\<forall>y. f x = Inr y \<longrightarrow> P y) \<and> (\<forall>e. f x = Inl e \<longrightarrow> Q e)" by (rule Cons.prems) simp
  moreover have "(\<forall>ys. try_map f xs = Inr ys \<longrightarrow> list_all P ys) \<and> (\<forall>e. try_map f xs = Inl e \<longrightarrow> Q e)"
    by (rule Cons.IH) (rule Cons.prems, simp)
  ultimately show ?case by (auto simp: result_simps)
qed simp

lemma nth_mem_eq: "xs ! i = x \<Longrightarrow> i < length xs \<Longrightarrow> x \<in> set xs"
  by auto

lemma enumerate_snd: "p \<in> set (enumerate n xs) \<Longrightarrow> snd p \<in> set xs"
  by (auto simp: in_set_enumerate_eq intro!: nth_mem_eq [of xs "fst p - n"])

lemma try_fold_fails:
  assumes "try_fold f acc xs = Inl e" and "\<And>a x e. x \<in> set xs \<Longrightarrow> f a x = Inl e \<Longrightarrow> Q e"
  shows "Q e"
  using assms by (induction xs arbitrary: acc) (auto simp: result_simps)

lemma transform_edits_ordered:
  assumes "transform_edits r es prio = Inr r'" and "fst r \<le> snd r"
  shows "fst r' \<le> snd r'"
  using assms(1) unfolding transform_edits_def
proof (rule try_fold_invariant [where I = "\<lambda>r. fst r \<le> snd r"])
  fix a x b
  assume a: "fst a \<le> snd a" "transform_range a x prio = Inr b"
  show "fst b \<le> snd b" by (rule transform_range_cases [OF a(2,1)]) (use a(1) in auto)
qed (rule assms(2))

lemma rebase_item_ok:
  assumes "buffer_inv b" and "from_utf8 (r_text r)" and "r_s r \<le> r_e r"
  shows "(\<forall>x. rebase_item b from' r = Inr x \<longrightarrow> item_ok b x) \<and> (\<forall>f. rebase_item b from' r = Inl f \<longrightarrow> refusal f)"
proof -
  have len: "fst rg \<le> snd rg" if "try_fold (rebase_entry b) (r_s r, r_e r) es = Inr rg" for es rg
    using that
    by (rule try_fold_invariant [where I = "\<lambda>rg. fst rg \<le> snd rg"])
      (use assms(3) transform_edits_ordered in \<open>auto simp: rebase_entry_def\<close>)
  have fails: "refusal f" if "try_fold (rebase_entry b) (r_s r, r_e r) es = Inl f" for es f
    using that by (rule try_fold_fails) (auto simp: rebase_entry_def elim!: map_err.elims)
  show ?thesis
    using len fails assms(2) check_offset_Inr [OF buffer_positions [OF assms(1)]] check_offset_Inl
    by (auto simp: rebase_item_def result_simps item_ok_def range_ok_def)
qed

lemma base_op_ok:
  assumes "offsets_only (snd iop)" and "from_utf8 (op_text (snd iop))"
  shows "(\<forall>x. and_then (base_op iop) (check_base_op n) = Inr x \<longrightarrow> from_utf8 (r_text x) \<and> r_s x \<le> r_e x)
    \<and> (\<forall>f. and_then (base_op iop) (check_base_op n) = Inl f \<longrightarrow> refusal f)"
  using assms
  by (auto simp: base_op_def check_base_op_def offsets_only_def result_simps
      split: op_spec.splits pos_spec.splits range_spec.splits if_splits)

lemma check_cas_Inl: "check_cas b c = Inl f \<Longrightarrow> refusal f"
  by (auto simp: check_cas_def split: cas.splits if_splits)

lemma check_cas_Some: "check_cas b c = Inr (Some r) \<Longrightarrow> c = BaseRev r \<and> r < b_rev b \<and> oldest_rev (b_log b) \<le> r"
  by (auto simp: check_cas_def split: cas.splits if_splits)

lemma resolve_items_ok:
  assumes "buffer_inv b" and "list_all (\<lambda>op. from_utf8 (op_text op)) (tr_ops req)"
    and "rebase \<noteq> None \<Longrightarrow> list_all offsets_only (tr_ops req)"
  shows "(\<forall>items. resolve_items b req rebase = Inr items \<longrightarrow> list_all (item_ok b) items)
    \<and> (\<forall>f. resolve_items b req rebase = Inl f \<longrightarrow> refusal f)"
proof (cases rebase)
  case None
  have "(\<forall>ys. try_map (resolve_op b) (enumerate 0 (tr_ops req)) = Inr ys \<longrightarrow> list_all (item_ok b) ys)
      \<and> (\<forall>e. try_map (resolve_op b) (enumerate 0 (tr_ops req)) = Inl e \<longrightarrow> refusal e)"
    using resolve_op_ok [OF assms(1)] assms(2) enumerate_snd
    by (intro try_map_all) (fastforce simp: list_all_iff)
  then show ?thesis using check_overlap_Inl by (auto simp: None resolve_items_def result_simps)
next
  case (Some r)
  let ?f = "\<lambda>iop. and_then (base_op iop) (check_base_op (hist_len b r))"
  have first: "(\<forall>ys. try_map ?f (enumerate 0 (tr_ops req)) = Inr ys \<longrightarrow> list_all (\<lambda>x. from_utf8 (r_text x) \<and> r_s x \<le> r_e x) ys)
      \<and> (\<forall>e. try_map ?f (enumerate 0 (tr_ops req)) = Inl e \<longrightarrow> refusal e)"
    using base_op_ok assms(2,3) Some enumerate_snd by (intro try_map_all) (fastforce simp: list_all_iff)
  have second: "(\<forall>ys. try_map (rebase_item b r) items = Inr ys \<longrightarrow> list_all (item_ok b) ys)
      \<and> (\<forall>e. try_map (rebase_item b r) items = Inl e \<longrightarrow> refusal e)"
    if "list_all (\<lambda>x. from_utf8 (r_text x) \<and> r_s x \<le> r_e x) items" for items
    using rebase_item_ok [OF assms(1)] that by (intro try_map_all) (auto simp: list_all_iff)
  show ?thesis
    using first second check_overlap_Inl by (auto simp: Some resolve_items_def result_simps)
qed

lemma resolve_txn_ok:
  assumes "buffer_inv b" and "list_all (\<lambda>op. from_utf8 (op_text op)) (tr_ops req)"
  shows "(\<forall>items. resolve_txn b req = Inr items \<longrightarrow> list_all (item_ok b) items)
    \<and> (\<forall>f. resolve_txn b req = Inl f \<longrightarrow> refusal f)"
proof -
  have items: "(\<forall>items. resolve_items b req rebase = Inr items \<longrightarrow> list_all (item_ok b) items)
    \<and> (\<forall>f. resolve_items b req rebase = Inl f \<longrightarrow> refusal f)"
    if "check_cas b (tr_cas req) = Inr rebase"
      "\<not> (case tr_cas req of BaseRev _ \<Rightarrow> \<not> list_all offsets_only (tr_ops req) | _ \<Rightarrow> False)" for rebase
  proof (rule resolve_items_ok [OF assms])
    assume "rebase \<noteq> None"
    then obtain r where "rebase = Some r" by blast
    then have "tr_cas req = BaseRev r" using check_cas_Some that(1) by simp
    then show "list_all offsets_only (tr_ops req)" using that(2) by simp
  qed
  show ?thesis
    unfolding resolve_txn_def
    by (cases "tr_ops req = [] \<or> (case tr_cas req of BaseRev _ \<Rightarrow> \<not> list_all offsets_only (tr_ops req) | _ \<Rightarrow> False)")
      (use items check_cas_Inl in \<open>auto simp: result_simps split: if_splits\<close>)
qed

section \<open>Planning a commit\<close>

lemma canonical_order_items: "list_all P (canonical_order items) \<longleftrightarrow> list_all P items"
  by (simp add: canonical_order_def list_all_iff set_sort_by)

lemma resolved_edit_end: "r_s r \<le> r_e r \<Longrightarrow> e_offset (resolved_edit r) + e_delete (resolved_edit r) = r_e r"
  by (simp add: resolved_edit_def)

lemma read_deleted_all:
  assumes "buffer_inv b" and "list_all (item_ok b) items"
  shows "try_map (read_deleted b) items = Inr (deleted_texts (content b) (map resolved_edit items))"
proof -
  have "read_deleted b r = Inr (slice (content b) (r_s r) (r_e r))" if "r \<in> set items" for r
    using that assms text_read_slice [OF buffer_invD(1) [OF assms(1)], of "r_s r" "r_e r" "[]"]
    by (auto simp: list_all_iff item_ok_def range_ok_def read_deleted_def returns_def)
  then have "try_map (read_deleted b) items = Inr (map (\<lambda>r. slice (content b) (r_s r) (r_e r)) items)"
    by (rule try_map_eq_InrI)
  also have "map (\<lambda>r. slice (content b) (r_s r) (r_e r)) items = deleted_texts (content b) (map resolved_edit items)"
    using assms(2) by (auto simp: deleted_texts_def list_all_iff item_ok_def range_ok_def resolved_edit_def)
  finally show ?thesis .
qed

text \<open>A text store for any text within the limits.\<close>

lemma text_exists:
  assumes "from_utf8 p" and "length p \<le> MAX_BUFFER_BYTES" and "Suc (count_newlines p) \<le> MAX_LINES"
  obtains t where "text_inv t" and "text_bytes t = p"
proof
  let ?t = "\<lparr>t_gap = \<lparr>g_mem = p, g_reserve = LARGE_CAPACITY, g_text_length = length p, g_gap_off = 0, g_gap_len = 0,
     g_generation = 0, g_commit_calls = 0, g_large = True\<rparr>, t_starts = line_starts p\<rparr>"
  show bytes: "text_bytes ?t = p" by (simp add: text_bytes_def gap_text_def slice_def)
  show "text_inv ?t"
    unfolding text_inv_def bytes using assms
    by (simp add: store_inv_def gap_inv_def LARGE_CAPACITY_def MAX_BUFFER_BYTES_def MIB_def length_line_starts)
qed

lemma simulate_sequence_ok:
  assumes "text_inv t" and "list_all (\<lambda>e. from_utf8 (e_insert e)) seq" and "simulate t seq = Inr sim"
  shows "sequence_ok (text_bytes t) seq" and "s_final_lines sim = Suc (count_newlines (apply_edits (text_bytes t) seq))"
    and "length (apply_edits (text_bytes t) seq) \<le> MAX_BUFFER_BYTES"
    and "Suc (count_newlines (apply_edits (text_bytes t) seq)) \<le> MAX_LINES"
    and "from_utf8 (apply_edits (text_bytes t) seq)"
  using simulate_Inr [OF assms, of 0] assms(2) within_last
  by (auto simp: sequence_ok_def list_all_iff)

lemma anchors_ok_map:
  assumes "from_utf8 s" and "steps_ok s seq" and "anchors_ok s as"
  shows "anchors_ok (apply_edits s seq) (map (named_anchor_map seq r) as)"
  using assms named_anchor_map_in [OF assms(1,2)]
  by (auto simp: anchors_ok_def list_all_iff comp_def)

lemma resolve_post_ok:
  assumes "positions_inv b" and "list_all (\<lambda>e. from_utf8 (e_insert e)) seq" and "simulate (b_text b) seq = Inr sim"
  shows "(\<forall>x. resolve_post b p seq (s_final_lines sim) = Inr x \<longrightarrow> boundary (apply_edits (content b) seq) x)
    \<and> (\<forall>f. resolve_post b p seq (s_final_lines sim) = Inl f \<longrightarrow> refusal f)"
proof -
  note inv = positions_invD [OF assms(1)]
  note sim = simulate_sequence_ok [OF inv(1) assms(2,3)]
  obtain t' where t': "text_inv t'" "text_bytes t' = apply_edits (content b) seq"
    using text_exists [OF sim(5,3,4)] .
  define b' where "b' = b\<lparr>b_text := t', b_anchors := map (named_anchor_map seq (b_rev b + 1)) (b_anchors b)\<rparr>"
  have "positions_inv b'"
    using t' assms(1) anchors_ok_map [OF inv(2) sequence_ok_steps [OF inv(2) sim(1)]]
    by (simp add: positions_inv_def b'_def)
  note pos = resolve_pos_ok [OF this, of p]
  have lines: "line_count (b_text b') = s_final_lines sim"
    using text_invD(7) [OF t'(1)] t'(2) sim(2) by (simp add: b'_def)
  have "same_answer (resolve_post b p seq (line_count (b_text b'))) (resolve_pos b' p)"
    using t' inv(1) sim(1) by (intro resolve_post_same_answer) (simp_all add: b'_def)
  then show ?thesis
    using pos t'(2) unfolding lines
    by (auto simp: same_answer_def b'_def split: sum.splits failure.splits)
qed

lemma commit_cursor_ok:
  assumes "buffer_inv b" and "list_all (\<lambda>e. from_utf8 (e_insert e)) seq" and "simulate (b_text b) seq = Inr sim"
  shows "(\<forall>x. commit_cursor b c seq (s_final_lines sim) = Inr x \<longrightarrow>
      (\<forall>at. x = Some at \<longrightarrow> boundary (apply_edits (content b) seq) at
        \<and> (bm_get (b_selections b) (c_origin c) \<noteq> None \<or> length (b_selections b) < MAX_SELECTION_ORIGINS)))
    \<and> (\<forall>f. commit_cursor b c seq (s_final_lines sim) = Inl f \<longrightarrow> refusal f)"
proof (cases "c_cursor c")
  case None
  then show ?thesis by (simp add: commit_cursor_def)
next
  case (Some p)
  then show ?thesis
    using resolve_post_ok [OF buffer_positions [OF assms(1)] assms(2,3), of p]
    by (auto simp: commit_cursor_def result_simps bm_contains_def split: if_splits)
qed

definition plan_ok :: "buffer \<Rightarrow> resolved list \<Rightarrow> commit_req \<Rightarrow> edit list \<Rightarrow> string list \<Rightarrow> nat option \<Rightarrow> bool" where
  "plan_ok b items c seq deleted cursor \<longleftrightarrow>
     seq = map resolved_edit (canonical_order items) \<and> deleted = deleted_texts (content b) seq
     \<and> sequence_ok (content b) seq
     \<and> (\<forall>at. cursor = Some at \<longrightarrow> boundary (apply_edits (content b) seq) at
        \<and> (bm_get (b_selections b) (c_origin c) \<noteq> None \<or> length (b_selections b) < MAX_SELECTION_ORIGINS))"

lemma commit_plan_ok:
  assumes "buffer_inv b" and "list_all (item_ok b) items"
  shows "(\<forall>seq deleted cursor. commit_plan b items c = Inr (seq, deleted, cursor) \<longrightarrow> plan_ok b items c seq deleted cursor)
    \<and> (\<forall>f. commit_plan b items c = Inl f \<longrightarrow> refusal f)"
proof -
  let ?items = "canonical_order items" and ?seq = "map resolved_edit (canonical_order items)"
  have ok: "list_all (item_ok b) ?items" using assms(2) by (simp add: canonical_order_items)
  have ins: "list_all (\<lambda>e. from_utf8 (e_insert e)) ?seq"
    using ok by (auto simp: list_all_iff item_ok_def resolved_edit_def)
  have eq: "commit_plan b items c = and_then (refuse (simulate (b_text b) ?seq)) (\<lambda>sim.
      and_then (commit_cursor b c ?seq (s_final_lines sim)) (\<lambda>cursor.
      Inr (?seq, deleted_texts (content b) ?seq, cursor)))"
    using read_deleted_all [OF assms(1) ok] by (simp add: commit_plan_def Let_def)
  show ?thesis
  proof (cases "simulate (b_text b) ?seq")
    case (Inl e)
    then show ?thesis by (simp add: eq refuse_def)
  next
    case (Inr sim)
    note cur = commit_cursor_ok [OF assms(1) ins Inr, of c]
    have seq: "sequence_ok (content b) ?seq" by (rule simulate_sequence_ok(1) [OF buffer_invD(1) [OF assms(1)] ins Inr])
    show ?thesis
    proof (cases "commit_cursor b c ?seq (s_final_lines sim)")
      case (Inl f)
      then show ?thesis using cur Inr by (simp add: eq refuse_def)
    next
      case cursor: (Inr cursor)
      have "plan_ok b items c ?seq (deleted_texts (content b) ?seq) cursor"
        using cur cursor seq unfolding plan_ok_def by blast
      then show ?thesis using Inr cursor by (simp add: eq refuse_def)
    qed
  qed
qed

section \<open>Phase 1\<close>

lemma retain_insert_absent:
  "\<not> p k v \<Longrightarrow> bm_get m k = None \<Longrightarrow> bm_retain p (bm_insert k v m) = bm_retain p m"
  unfolding bm_retain_def bm_get_def by (induction k v m rule: bm_insert.induct) auto

lemma lanes_inv_insert:
  assumes "lanes_inv r log" and "groups_in (ol_base log) r l"
  shows "lanes_inv r (log\<lparr>ol_lanes := bm_insert k l (ol_lanes log)\<rparr>)"
proof -
  have "groups_in (ol_base log) r l'" if "(o', l') \<in> set (bm_insert k l (ol_lanes log))" for o' l'
    using that set_bm_insert [of k l "ol_lanes log"] assms by (auto simp: lanes_inv_def)
  then show ?thesis using assms(1) by (auto simp: lanes_inv_def bm_inv_insert)
qed

lemma or_default_spec:
  assumes "or_default o' log = (log', l)"
  shows "visible_lanes log' = visible_lanes log \<and> ol_entries log' = ol_entries log
    \<and> ol_text_bytes log' = ol_text_bytes log \<and> ol_base log' = ol_base log
    \<and> (lanes_inv r log \<longrightarrow> lanes_inv r log' \<and> groups_in (ol_base log) r l)
    \<and> l = (case bm_get (ol_lanes log) o' of None \<Rightarrow> empty_lane | Some l \<Rightarrow> l)
    \<and> bm_get (ol_lanes log') = (bm_get (ol_lanes log))(o' \<mapsto> l)"
proof (cases "bm_get (ol_lanes log) o'")
  case None
  then have "visible_lanes log' = visible_lanes log"
    using assms retain_insert_absent [of "\<lambda>_ l. l_undo l \<noteq> [] \<or> l_redo l \<noteq> []" o' empty_lane]
    by (auto simp: or_default_def visible_lanes_def empty_lane_def)
  moreover have "lanes_inv r log \<Longrightarrow> lanes_inv r log'"
    using assms None lanes_inv_insert [of r log empty_lane o']
    by (auto simp: or_default_def groups_in_def empty_lane_def)
  ultimately show ?thesis
    using assms None by (auto simp: or_default_def groups_in_def empty_lane_def bm_get_insert)
next
  case (Some l0)
  then have "(o', l0) \<in> set (ol_lanes log)" unfolding bm_get_def by (rule map_of_SomeD)
  then show ?thesis
    using assms Some by (auto simp: or_default_def lanes_inv_def fun_eq_iff)
qed

text \<open>The buffer after phase 1: spare memory and possibly an empty lane.\<close>

definition reserved :: "buffer \<Rightarrow> buffer \<Rightarrow> bool" where
  "reserved b b' \<longleftrightarrow> unchanged b b' \<and> text_inv (b_text b') \<and> lanes_inv (b_rev b) (b_log b')
     \<and> (\<forall>o'. bm_get (ol_lanes (b_log b')) o' = bm_get (ol_lanes (b_log b)) o'
           \<or> bm_get (ol_lanes (b_log b)) o' = None \<and> bm_get (ol_lanes (b_log b')) o' = Some empty_lane)"

lemma commit_reserve_ok:
  assumes "buffer_inv b" and "sequence_ok (content b) seq" and "commit_reserve h seq o' b = (res, b')"
  shows "reserved b b' \<and> (\<forall>f. res = Inl f \<longrightarrow> refusal f)
    \<and> (\<forall>p. res = Inr p \<longrightarrow> text_prepare h seq (b_text b) = (Inr p, b_text b'))"
proof -
  note inv = buffer_invD [OF assms(1)]
  obtain r t where prep: "text_prepare h seq (b_text b) = (r, t)" by fastforce
  have t: "text_inv t" "text_bytes t = content b" "t_starts t = t_starts (b_text b)"
    using text_prepare_cases [OF inv(1) prep] by auto
  have lanes: "lanes_inv (b_rev b) (b_log b)" using inv(2) by (simp add: log_inv_def)
  obtain log l where od: "or_default o' (b_log b) = (log, l)" by fastforce
  note ods = or_default_spec [OF od, of "b_rev b"]
  have get: "bm_get (ol_lanes log) x = bm_get (ol_lanes (b_log b)) x
     \<or> bm_get (ol_lanes (b_log b)) x = None \<and> bm_get (ol_lanes log) x = Some empty_lane" for x
    using ods by (auto split: option.splits)
  have r1: "reserved b (b\<lparr>b_text := t\<rparr>)" and r2: "reserved b (b\<lparr>b_text := t, b_log := log\<rparr>)"
    using t ods lanes get by (auto simp: reserved_def unchanged_def)
  show ?thesis
    using assms(3) prep r1 r2 od
    by (auto simp: commit_reserve_def Let_def split: sum.splits if_splits)
qed

section \<open>Phase 2\<close>

definition new_entry :: "buffer \<Rightarrow> commit_req \<Rightarrow> edit list \<Rightarrow> log_entry" where
  "new_entry b c seq =
     \<lparr>le_rev = Suc (b_rev b), le_origin = c_origin c, le_lane = c_lane c, le_kind = c_kind c, le_edits = seq,
      le_deleted = deleted_texts (content b) seq, le_via = c_via c, le_op_id = c_op_id c, le_time_ms = c_now_ms c\<rparr>"

definition lane_of :: "buffer \<Rightarrow> origin \<Rightarrow> lane" where
  "lane_of b o' = (case bm_get (ol_lanes (b_log b)) o' of None \<Rightarrow> empty_lane | Some l \<Rightarrow> l)"

text \<open>What a successful commit does.\<close>

definition committed :: "buffer \<Rightarrow> resolved list \<Rightarrow> commit_req \<Rightarrow> applied \<Rightarrow> buffer \<Rightarrow> bool" where
  "committed b items c ap b' \<longleftrightarrow>
     (let seq = map resolved_edit (canonical_order items) in
      sequence_ok (content b) seq \<and> content b' = apply_edits (content b) seq
      \<and> b_rev b' = Suc (b_rev b) \<and> b_saved_rev b' = b_saved_rev b
      \<and> ap_rev ap = b_rev b' \<and> ap_base_rev ap = b_rev b \<and> ap_kind ap = c_kind c \<and> ap_edits ap = seq
      \<and> ap_changed ap = changed_ranges seq
      \<and> b_anchors b' = map (named_anchor_map seq (Suc (b_rev b))) (b_anchors b)
      \<and> (\<exists>gone. ol_entries (b_log b) @ [new_entry b c seq] = gone @ ol_entries (b_log b')
           \<and> ap_history_trimmed_to ap = (if gone = [] then None else Some (ol_base (b_log b')))
           \<and> ol_base (b_log b') = ol_base (b_log b) + length gone
           \<and> (length (ol_entries (b_log b)) < LOG_MAX_ENTRIES
               \<and> ol_text_bytes (b_log b) + entry_text_bytes (new_entry b c seq) \<le> LOG_MAX_TEXT_BYTES \<longrightarrow> gone = [])
           \<and> (gone = [] \<longrightarrow> lane_of b' (c_lane c) =
                lane_record (c_kind c) (commit_coalesced b c seq) (Suc (b_rev b)) (lane_of b (c_lane c)))))"

lemma lane_record_groups:
  assumes "groups_in base r l" and "base \<le> r"
  shows "groups_in base (Suc r) (lane_record kind co (Suc r) l)"
proof -
  have m: "groups_in base (Suc r) l" using assms(1) by (rule groups_in_mono)
  have old: "g \<in> set (l_undo l) \<or> g \<in> set (l_redo l) \<Longrightarrow> base < fst g \<and> fst g \<le> snd g \<and> snd g \<le> Suc r" for g
    using m by (auto simp: groups_in_def)
  have last: "base < fst (last (l_undo l)) \<and> fst (last (l_undo l)) \<le> Suc r" if "l_undo l \<noteq> []"
    using old [of "last (l_undo l)"] last_in_set [OF that] by linarith
  show ?thesis
    unfolding groups_in_def
  proof
    fix g
    assume "g \<in> set (l_undo (lane_record kind co (Suc r) l)) \<union> set (l_redo (lane_record kind co (Suc r) l))"
    then have "g = (Suc r, Suc r) \<or> g \<in> set (l_undo l) \<or> g \<in> set (l_redo l)
        \<or> l_undo l \<noteq> [] \<and> g = (fst (last (l_undo l)), Suc r)"
      by (auto simp: lane_record_def split: entry_kind.splits if_splits dest: in_set_butlastD)
    then show "base < fst g \<and> fst g \<le> snd g \<and> snd g \<le> Suc r" using assms(2) old [of g] last by auto
  qed
qed

lemma commit_coalesced_reserved:
  assumes "reserved b b1"
  shows "commit_coalesced b1 c seq = commit_coalesced b c seq"
proof -
  have "bm_get (ol_lanes (b_log b1)) (c_lane c) = bm_get (ol_lanes (b_log b)) (c_lane c)
     \<or> bm_get (ol_lanes (b_log b)) (c_lane c) = None \<and> bm_get (ol_lanes (b_log b1)) (c_lane c) = Some empty_lane"
    and "ol_entries (b_log b1) = ol_entries (b_log b)" "b_rev b1 = b_rev b"
    using assms unfolding reserved_def unchanged_def by blast+
  then show ?thesis
    unfolding commit_coalesced_def by (auto simp: empty_lane_def split: option.splits)
qed

lemma lane_of_reserved: "reserved b b1 \<Longrightarrow> lane_of b1 o' = lane_of b o'"
  unfolding reserved_def lane_of_def by (metis option.simps(4) option.simps(5))

lemma selections_ok_map:
  assumes "from_utf8 s" and "steps_ok s seq" and "selections_ok s m"
  shows "selections_ok (apply_edits s seq) (bm_map_values (\<lambda>o' ss. map (selection_map seq (f o')) ss) m)"
proof -
  have "list_all (selection_in (apply_edits s seq)) (map (selection_map seq bias) ss)"
    if "list_all (selection_in s) ss" for bias ss
    using that selection_map_in [OF assms(1,2)] by (simp add: list_all_iff)
  then show ?thesis
    using assms(3) by (auto simp: selections_ok_def) (auto simp: bm_map_values_def)
qed

lemma selections_ok_insert:
  assumes "selections_ok s m" and "list_all (selection_in s) ss" and "length ss \<le> MAX_SELECTIONS_PER_ORIGIN"
    and "bm_get m o' \<noteq> None \<or> length m < MAX_SELECTION_ORIGINS"
  shows "selections_ok s (bm_insert o' ss m)"
proof -
  have inv: "bm_inv m" "length m \<le> MAX_SELECTION_ORIGINS" using assms(1) by (simp_all add: selections_ok_def)
  have "length x \<le> MAX_SELECTIONS_PER_ORIGIN \<and> list_all (selection_in s) x" if "(k, x) \<in> set (bm_insert o' ss m)" for k x
    using that set_bm_insert [of o' ss m] assms(1-3) by (auto simp: selections_ok_def)
  then show ?thesis
    using bm.size_upd_limit [OF inv assms(4), of ss] bm_inv_insert [OF inv(1)] by (auto simp: selections_ok_def)
qed

lemma commit_record_ok:
  assumes b: "buffer_inv b" and res: "reserved b b1" and plan: "plan_ok b items c seq deleted cursor"
    and t: "text_inv t" "text_bytes t = apply_edits (content b) seq"
    and rec: "commit_record seq deleted cursor c t b1 = (ap, b')"
  shows "buffer_inv b' \<and> committed b items c ap b'"
proof -
  note inv = buffer_invD [OF b]
  have un: "unchanged b b1" and lanes1: "lanes_inv (b_rev b) (b_log b1)" using res by (simp_all add: reserved_def)
  have seq: "seq = map resolved_edit (canonical_order items)" "sequence_ok (content b) seq"
    "deleted = deleted_texts (content b) seq" using plan unfolding plan_ok_def by blast+
  have steps: "steps_ok (content b) seq" by (rule sequence_ok_steps [OF inv(6) seq(2)])
  obtain log l where od: "or_default (c_lane c) (b_log b1) = (log, l)" by fastforce
  note ods = or_default_spec [OF od, of "b_rev b"]
  have base_le: "ol_base (b_log b) \<le> b_rev b" using inv(2) by (simp add: log_inv_defs)
  have l: "l = lane_of b (c_lane c)" using ods lane_of_reserved [OF res] by (simp add: lane_of_def)
  define rl where "rl = lane_record (c_kind c) (commit_coalesced b c seq) (Suc (b_rev b)) l"
  define log2 where "log2 = log\<lparr>ol_lanes := bm_insert (c_lane c) rl (ol_lanes log)\<rparr>"
  have suffix: "suffix_inv (b_rev b) log2"
    using inv(2) un ods by (simp add: log_inv_defs unchanged_def log2_def)
  have gl: "groups_in (ol_base (b_log b)) (b_rev b) l" and lb: "ol_base log = ol_base (b_log b)"
    using ods lanes1 un unfolding unchanged_def by auto
  have "groups_in (ol_base log) (Suc (b_rev b)) rl"
    unfolding rl_def lb by (rule lane_record_groups [OF gl base_le])
  moreover have "lanes_inv (Suc (b_rev b)) log"
    using ods lanes1 groups_in_mono unfolding lanes_inv_def by blast
  ultimately have lanes2: "lanes_inv (Suc (b_rev b)) log2" unfolding log2_def by (rule lanes_inv_insert [rotated])
  obtain trimmed log3 where push: "log_push (new_entry b c seq) log2 = (trimmed, log3)" by fastforce
  have rev1: "le_rev (new_entry b c seq) = Suc (b_rev b)" by (simp add: new_entry_def)
  obtain gone where gone: "ol_entries log2 @ [new_entry b c seq] = gone @ ol_entries log3"
    "ol_base log3 = ol_base log2 + length gone" "log_inv (Suc (b_rev b)) log3"
    "trimmed = (if gone = [] then None else Some (ol_base log3))" "gone = [] \<Longrightarrow> ol_lanes log3 = ol_lanes log2"
    "length (ol_entries log2) < LOG_MAX_ENTRIES \<and> ol_text_bytes log2 + entry_text_bytes (new_entry b c seq) \<le> LOG_MAX_TEXT_BYTES
      \<Longrightarrow> gone = []"
    by (rule log_push_spec [OF suffix lanes2 rev1 push]) blast
  have log2: "ol_entries log2 = ol_entries (b_log b)" "ol_base log2 = ol_base (b_log b)"
    "ol_text_bytes log2 = ol_text_bytes (b_log b)"
    using ods un by (simp_all add: log2_def unchanged_def)
  define sels where "sels = bm_map_values (\<lambda>o' ss. map (selection_map seq (if o' = c_origin c then After else Before)) ss) (b_selections b)"
  define sels2 where "sels2 = (case cursor of None \<Rightarrow> sels | Some at \<Rightarrow> bm_insert (c_origin c) [\<lparr>sel_anchor = at, sel_head = at\<rparr>] sels)"
  have b': "b' = b1\<lparr>b_text := t, b_log := log3, b_rev := Suc (b_rev b),
      b_anchors := map (named_anchor_map seq (Suc (b_rev b))) (b_anchors b), b_selections := sels2\<rparr>"
    and ap: "ap_rev ap = Suc (b_rev b)" "ap_base_rev ap = b_rev b" "ap_kind ap = c_kind c" "ap_edits ap = seq"
      "ap_changed ap = changed_ranges seq" "ap_history_trimmed_to ap = trimmed"
    using rec un od push seq(3) commit_coalesced_reserved [OF res]
    by (cases cursor; auto simp: commit_record_def Let_def unchanged_def rl_def log2_def new_entry_def sels_def sels2_def)+
  have hist: "history_ok log3 (text_bytes t)"
  proof -
    obtain s0 where s0: "from_utf8 s0" "replays s0 (ol_entries (b_log b)) (content b)"
      using inv(3) by (auto simp: history_ok_def)
    have "entry_ok (content b) (new_entry b c seq)" using seq(2) by (simp add: entry_ok_def new_entry_def sequence_ok_def)
    then have "replays s0 (gone @ ol_entries log3) (text_bytes t)"
      using s0(2) t(2) unfolding gone(1) [symmetric] log2 replays_append by (auto simp: new_entry_def)
    then show ?thesis using s0(1) replays_utf8 unfolding replays_append history_ok_def by blast
  qed
  have sel1: "selections_ok (text_bytes t) sels"
    unfolding t(2) sels_def by (rule selections_ok_map [OF inv(6) steps inv(5)])
  have sel2: "selections_ok (text_bytes t) sels2"
  proof (cases cursor)
    case None
    then show ?thesis using sel1 by (simp add: sels2_def)
  next
    case (Some at)
    then have "boundary (text_bytes t) at"
      "bm_get sels (c_origin c) \<noteq> None \<or> length sels < MAX_SELECTION_ORIGINS"
      using plan t(2) unfolding plan_ok_def sels_def by (auto simp: bm_get_map_values) (simp add: bm_map_values_def)
    then show ?thesis
      using selections_ok_insert [OF sel1] by (simp add: sels2_def Some selection_in_def MAX_SELECTIONS_PER_ORIGIN_def)
  qed
  have "buffer_inv b'"
    using t gone(3) hist sel2 anchors_ok_map [OF inv(6) steps inv(4)] un inv(8)
    by (auto simp: buffer_inv_def b' unchanged_def intro: le_SucI)
  moreover have "lane_of b' (c_lane c) = rl" if "gone = []"
    using gone(5) [OF that] by (simp add: lane_of_def b' log2_def bm_get_insert)
  then have "committed b items c ap b'"
    unfolding committed_def Let_def seq(1) [symmetric]
    using seq(2) t(2) ap gone(1,2,4,6) un log2 l by (auto simp: b' unchanged_def rl_def)
  ultimately show ?thesis by blast
qed

lemma reserved_inv:
  assumes "buffer_inv b" and "reserved b b1"
  shows "buffer_inv b1"
proof -
  have un: "unchanged b b1" and r: "text_inv (b_text b1)" "lanes_inv (b_rev b) (b_log b1)"
    using assms(2) by (simp_all add: reserved_def)
  have e: "content b1 = content b" "ol_entries (b_log b1) = ol_entries (b_log b)" "b_rev b1 = b_rev b"
    "b_anchors b1 = b_anchors b" "b_selections b1 = b_selections b" "ol_base (b_log b1) = ol_base (b_log b)"
    "ol_text_bytes (b_log b1) = ol_text_bytes (b_log b)" "b_saved_rev b1 = b_saved_rev b"
    using un by (simp_all add: unchanged_def)
  show ?thesis
    using assms(1) r unfolding buffer_inv_def history_ok_def log_inv_def suffix_inv_def e by simp
qed

lemma commit_txn_spec:
  assumes "buffer_inv b" and "list_all (item_ok b) items" and "commit_txn h items c b = (res, b')"
  shows "buffer_inv b' \<and> (case res of
      Inl f \<Rightarrow> refusal f \<and> unchanged b b'
    | Inr ap \<Rightarrow> committed b items c ap b')"
proof (cases "commit_plan b items c")
  case (Inl f)
  then show ?thesis using assms(1,3) commit_plan_ok [OF assms(1,2), of c] by (auto simp: commit_txn_def)
next
  case (Inr x)
  obtain seq deleted cursor where x: "x = (seq, deleted, cursor)" by (cases x)
  have plan: "plan_ok b items c seq deleted cursor" using commit_plan_ok [OF assms(1,2), of c] Inr x by blast
  have seq: "sequence_ok (content b) seq" using plan unfolding plan_ok_def by blast
  have ins: "list_all (\<lambda>e. from_utf8 (e_insert e)) seq" using seq by (auto simp: sequence_ok_def list_all_iff)
  obtain r b1 where rsv: "commit_reserve h seq (c_lane c) b = (r, b1)" by fastforce
  note ok = commit_reserve_ok [OF assms(1) seq rsv]
  have res: "reserved b b1" using ok by blast
  show ?thesis
  proof (cases r)
    case (Inl f)
    then show ?thesis using assms(3) Inr x rsv ok reserved_inv [OF assms(1) res]
      by (auto simp: commit_txn_def reserved_def)
  next
    case p: (Inr p)
    obtain t where t: "text_commit h p (b_text b1) = Some t" "text_inv t" "text_bytes t = apply_edits (content b) seq"
      using two_phase [OF buffer_invD(1) [OF assms(1)] ins, of h p "b_text b1"] ok p by auto
    obtain ap b2 where rec: "commit_record seq deleted cursor c t b1 = (ap, b2)" by fastforce
    have "res = Inr ap" "b' = b2" using assms(3) Inr x rsv p t(1) rec by (auto simp: commit_txn_def)
    then show ?thesis using commit_record_ok [OF assms(1) res plan t(2,3) rec] by simp
  qed
qed

end
