(* ===== verification/Edit_Apply.thy ===== *)
theory Edit_Apply
  imports Edit_Commit "HOL-Library.Multiset"
begin

text \<open>
  The properties of the buffer's mutating operations other than undo: applying a request, rebasing
  a request that names an older revision, reloading from disk, loading and saving, selections and
  named anchors.
\<close>

section \<open>Applying a request\<close>

lemma mset_insert_by: "mset (insert_by cmp x xs) = add_mset x (mset xs)"
  by (induction xs) auto

lemma mset_canonical_order: "mset (canonical_order items) = mset items"
  unfolding canonical_order_def by (induction items) (simp_all add: mset_insert_by)

abbreviation texts_utf8 :: "txn_request \<Rightarrow> bool" where
  "texts_utf8 req \<equiv> list_all (\<lambda>op. from_utf8 (op_text op)) (tr_ops req)"

lemma buffer_apply_spec:
  assumes "buffer_inv b" and "texts_utf8 req" and "buffer_apply h req who via now b = (res, b')"
  shows "buffer_inv b' \<and> (case res of
      Inl f \<Rightarrow> refusal f \<and> unchanged b b'
    | Inr ap \<Rightarrow> \<exists>items c. resolve_txn b req = Inr items \<and> list_all (item_ok b) items
        \<and> committed b items c ap b' \<and> c_lane c = who \<and> c_kind c = EditEntry \<and> c_coalesce c = tr_coalesce req
        \<and> c_origin c = who)"
proof (cases "resolve_txn b req")
  case (Inl f)
  then show ?thesis using assms resolve_txn_ok [OF assms(1,2)] by (auto simp: buffer_apply_def)
next
  case (Inr items)
  have ok: "list_all (item_ok b) items" using resolve_txn_ok [OF assms(1,2)] Inr by blast
  define c where "c = \<lparr>c_origin = who, c_lane = who, c_kind = EditEntry, c_via = via, c_now_ms = now,
             c_op_id = tr_op_id req, c_coalesce = tr_coalesce req, c_cursor = tr_cursor req,
             c_rebased = (case tr_cas req of BaseRev r \<Rightarrow> r < b_rev b | _ \<Rightarrow> False)\<rparr>"
  have "commit_txn h items c b = (res, b')" using assms(3) Inr by (simp add: buffer_apply_def c_def)
  note spec = commit_txn_spec [OF assms(1) ok this]
  show ?thesis
  proof (cases res)
    case (Inr ap)
    then have "committed b items c ap b'" using spec by simp
    moreover have "c_lane c = who \<and> c_kind c = EditEntry \<and> c_coalesce c = tr_coalesce req \<and> c_origin c = who"
      by (simp add: c_def)
    ultimately show ?thesis using spec Inr \<open>resolve_txn b req = Inr items\<close> ok by auto
  qed (use spec in simp)
qed

lemma committed_content:
  assumes "committed b items c ap b'"
  shows "content b' = splice_edits 0 (content b) (rev (map resolved_edit (canonical_order items)))"
    and "b_rev b' = Suc (b_rev b)" and "ap_rev ap = Suc (b_rev b)" and "b_saved_rev b' = b_saved_rev b"
    and "ap_edits ap = map resolved_edit (canonical_order items)"
proof -
  let ?seq = "map resolved_edit (canonical_order items)"
  have "canonical_from (length (content b)) ?seq" "content b' = apply_edits (content b) ?seq"
    using assms by (simp_all add: committed_def Let_def sequence_ok_def)
  then show "content b' = splice_edits 0 (content b) (rev ?seq)" by (simp add: canonical_splice)
  show "b_rev b' = Suc (b_rev b)" "ap_rev ap = Suc (b_rev b)" "b_saved_rev b' = b_saved_rev b" "ap_edits ap = ?seq"
    using assms by (simp_all add: committed_def Let_def)
qed

lemma committed_dirty: "buffer_inv b \<Longrightarrow> committed b items c ap b' \<Longrightarrow> is_dirty b'"
  using buffer_invD(8) [of b "Suc (b_rev b)"] committed_content(2,4) [of b items c ap b'] by (auto simp: is_dirty_def)

text \<open>C12: Applying a request on a well-formed buffer never panics and never loops.  A refusal changes
  nothing observable.  A success replaces all resolved ranges of the old text simultaneously, each
  item of the request once, moves to the next revision, reports exactly the edits it made and
  leaves the buffer dirty; the invariant holds in either case.\<close>

theorem apply_exact:
  assumes "buffer_inv b" and "texts_utf8 req" and "buffer_apply h req who via now b = (res, b')"
  shows "buffer_inv b' \<and> (case res of
      Inl f \<Rightarrow> (\<exists>e. f = Refuse e) \<and> unchanged b b'
    | Inr ap \<Rightarrow> \<exists>items ord. resolve_txn b req = Inr items \<and> mset ord = mset items
        \<and> content b' = splice_edits 0 (content b) (rev (map resolved_edit ord))
        \<and> b_rev b' = Suc (b_rev b) \<and> ap_rev ap = b_rev b' \<and> ap_edits ap = map resolved_edit ord \<and> is_dirty b')"
proof (cases res)
  case (Inl f)
  then show ?thesis using buffer_apply_spec [OF assms] by (auto simp: refusal_def)
next
  case (Inr ap)
  then obtain items c where items: "resolve_txn b req = Inr items" "committed b items c ap b'"
    using buffer_apply_spec [OF assms] by auto
  moreover have "mset (canonical_order items) = mset items" by (rule mset_canonical_order)
  ultimately show ?thesis
    using Inr buffer_apply_spec [OF assms] committed_content [OF items(2)] committed_dirty [OF assms(1) items(2)] by auto
qed

definition sample_buffer :: buffer where
  "sample_buffer = with_text sample_text"

lemma with_text_inv: "text_inv t \<Longrightarrow> buffer_inv (with_text t)"
  using text_invD(3) [of t] empty_log_inv
  by (auto simp: buffer_inv_def with_text_def history_ok_def anchors_ok_def selections_ok_def bm_inv_def
      empty_log_def)

lemma sample_buffer_inv: "buffer_inv sample_buffer"
  unfolding sample_buffer_def by (rule with_text_inv [OF sample_inv])

definition sample_request :: txn_request where
  "sample_request = \<lparr>tr_ops = [DeleteOp (Offsets 1 3)], tr_cas = ExpectRev 0, tr_coalesce = False,
     tr_cursor = None, tr_op_id = None\<rparr>"

definition sample_via :: via where
  "sample_via = \<lparr>v_from = None, v_broker_origin = ''local'', v_broker_peer = None, v_broker_service = None\<rparr>"

definition sample_item :: resolved where
  "sample_item = \<lparr>r_s = 1, r_e = 3, r_text = [], r_idx = 0\<rparr>"

lemma sample_resolve: "resolve_txn sample_buffer sample_request = Inr [sample_item]"
  using is_char_boundary_iff [OF sample_inv] sample_boundary text_invD(6) [OF sample_inv]
  by (simp add: resolve_txn_def sample_request_def check_cas_def sample_buffer_def with_text_def resolve_items_def
      resolve_op_def resolve_range_def check_offset_def buf_len_def ordered_def check_overlap_def first_overlap_def
      sample_bytes MAX_OPS_PER_TXN_def MAX_REQUEST_TEXT_BYTES_def MIB_def sample_item_def)

lemma sample_plan:
  assumes "c_cursor c = None"
  shows "commit_plan sample_buffer [sample_item] c = Inr ([resolved_edit sample_item], [[CHR 0xC3, CHR 0xA9]], None)"
proof -
  have "is_ok (simulate (b_text sample_buffer) [resolved_edit sample_item])"
    using sample_simulate by (simp add: sample_buffer_def with_text_def resolved_edit_def sample_item_def)
  moreover have "read_deleted sample_buffer sample_item = Inr [CHR 0xC3, CHR 0xA9]"
    using text_read_slice [OF sample_inv, of 1 3 "[]"] sample_boundary
    by (simp add: read_deleted_def returns_def sample_buffer_def with_text_def sample_bytes slice_def sample_item_def)
  ultimately show ?thesis
    using assms by (auto simp: commit_plan_def canonical_order_def commit_cursor_def refuse_def Let_def is_ok_iff)
qed

lemma sample_reserve: "\<exists>p b'. commit_reserve generous [resolved_edit sample_item] who sample_buffer = (Inr p, b')"
  using sample_simulate
  by (simp add: commit_reserve_def text_prepare_def sample_buffer_def with_text_def resolved_edit_def sample_item_def
      generous_def ensure_commit_def Let_def split: prod.splits)

lemma sample_txn:
  assumes "c_cursor c = None" and "commit_txn generous [sample_item] c sample_buffer = (res, b')"
  shows "(\<exists>ap. res = Inr ap) \<or> res = Inl Panic"
proof -
  obtain p b1 where "commit_reserve generous [resolved_edit sample_item] (c_lane c) sample_buffer = (Inr p, b1)"
    using sample_reserve by blast
  then show ?thesis
    using assms(2) sample_plan [OF assms(1)] by (auto simp: commit_txn_def split: option.splits prod.splits)
qed

lemma sample_commit:
  obtains ap b' where "buffer_apply generous sample_request who via now sample_buffer = (Inr ap, b')"
    and "content b' = [CHR ''h'', CHR 0x0A, CHR ''x'']"
proof -
  obtain res b' where run: "buffer_apply generous sample_request who via now sample_buffer = (res, b')" by fastforce
  have texts: "texts_utf8 sample_request" by (simp add: sample_request_def)
  note spec = buffer_apply_spec [OF sample_buffer_inv texts run]
  have "(\<exists>ap. res = Inr ap) \<or> res = Inl Panic"
    using run unfolding buffer_apply_def sample_resolve
    by (simp add: sample_request_def) (erule sample_txn [rotated], simp)
  then obtain ap where ap: "res = Inr ap" using spec by (auto simp: refusal_def)
  then obtain c where "committed sample_buffer [sample_item] c ap b'" using spec sample_resolve by auto
  from committed_content(1) [OF this] have "content b' = [CHR ''h'', CHR 0x0A, CHR ''x'']"
    by (simp add: sample_item_def canonical_order_def resolved_edit_def sample_buffer_def with_text_def
        sample_bytes slice_def)
  then show thesis using that run ap by blast
qed

theorem apply_exact_witness:
  "\<exists>ap b'. buffer_apply generous sample_request (Origin Human ''a'') sample_via 7 sample_buffer = (Inr ap, b')
    \<and> content b' = [CHR ''h'', CHR 0x0A, CHR ''x''] \<and> buffer_inv b' \<and> b_rev b' = 1 \<and> is_dirty b'"
proof -
  obtain ap b' where run: "buffer_apply generous sample_request (Origin Human ''a'') sample_via 7 sample_buffer = (Inr ap, b')"
    and c: "content b' = [CHR ''h'', CHR 0x0A, CHR ''x'']" by (rule sample_commit)
  have "texts_utf8 sample_request" by (simp add: sample_request_def)
  from apply_exact [OF sample_buffer_inv this run] show ?thesis
    using run c by (auto simp: sample_buffer_def with_text_def)
qed

section \<open>Rebasing a stale request\<close>

lemma and_then_assoc: "and_then (and_then m f) g = and_then m (\<lambda>x. and_then (f x) g)"
  by (cases m) auto

lemma transform_edits_append:
  "transform_edits r (a @ b) prio = and_then (transform_edits r a prio) (\<lambda>r. transform_edits r b prio)"
  unfolding transform_edits_def by (induction a arbitrary: r) (simp_all add: and_then_assoc)

lemma rebase_entries:
  assumes "try_fold (rebase_entry b) r es = Inr r'"
  shows "transform_edits r (concat (map le_edits es)) ThroughFirst = Inr r'"
  using assms
proof (induction es arbitrary: r)
  case (Cons e es)
  then obtain r1 where step: "rebase_entry b r e = Inr r1" and rest: "try_fold (rebase_entry b) r1 es = Inr r'"
    by (auto simp: result_simps)
  have r1: "transform_edits r (le_edits e) ThroughFirst = Inr r1"
    using step by (auto simp: rebase_entry_def elim: map_err.elims)
  show ?case using Cons.IH [OF rest] r1 by (simp add: transform_edits_append)
qed (simp add: transform_edits_def)

lemma foldl_sum: "foldl (\<lambda>n e. n + f e) a es = a + sum_list (map f es)" for a :: int
  by (induction es arbitrary: a) auto

lemma edits_length:
  "all_in_text t es \<Longrightarrow>
     int (length (apply_edits t es)) + (\<Sum>e\<leftarrow>es. int (e_delete e) - int (length (e_insert e))) = int (length t)"
proof (induction es arbitrary: t)
  case (Cons e es)
  then have "in_text (length t) e" "all_in_text (apply_edit t e) es" by auto
  moreover from this have "int (length (apply_edit t e)) + (int (e_delete e) - int (length (e_insert e))) = int (length t)"
    by (auto simp: length_apply_edit in_text_def)
  ultimately show ?case using Cons.IH [of "apply_edit t e"] by simp
qed simp

definition op_range :: "op_spec \<Rightarrow> range option" where
  "op_range op = (case op of
       InsertOp (Offset p) _ \<Rightarrow> Some (p, p)
     | DeleteOp (Offsets s e) \<Rightarrow> Some (s, e)
     | ReplaceOp (Offsets s e) _ \<Rightarrow> Some (s, e)
     | _ \<Rightarrow> None)"

definition same_bytes :: "string \<Rightarrow> string \<Rightarrow> op_spec \<Rightarrow> resolved \<Rightarrow> bool" where
  "same_bytes old cur op r \<longleftrightarrow> (\<exists>s e. op_range op = Some (s, e) \<and> s \<le> e \<and> e \<le> length old
     \<and> r_e r - r_s r = e - s \<and> r_e r \<le> length cur \<and> slice cur (r_s r) (r_e r) = slice old s e
     \<and> r_text r = op_text op)"

lemma hist_len_old:
  assumes "buffer_inv b" and "replays old (log_after r (b_log b)) (content b)" and "from_utf8 old"
  shows "hist_len b r = int (length old)"
  using edits_length replays_edits [OF assms(2,3)] buffer_invD(7) [OF assms(1)]
  unfolding hist_len_def foldl_sum by fastforce

lemma rebase_item_bytes:
  assumes "buffer_inv b" and old: "replays old (log_after r (b_log b)) (content b)" "from_utf8 old"
    and base: "and_then (base_op iop) (check_base_op (hist_len b r)) = Inr x" and item: "rebase_item b r x = Inr y"
  shows "same_bytes old (content b) (snd iop) y"
proof -
  have len: "hist_len b r = int (length old)" by (rule hist_len_old [OF assms(1-3)])
  have x: "op_range (snd iop) = Some (r_s x, r_e x)" "r_s x \<le> r_e x" "r_e x \<le> length old" "r_text x = op_text (snd iop)"
    using base unfolding len
    by (auto simp: result_simps base_op_def check_base_op_def op_range_def
        split: op_spec.splits pos_spec.splits range_spec.splits if_splits)
  obtain rg where rg: "try_fold (rebase_entry b) (r_s x, r_e x) (log_after r (b_log b)) = Inr rg"
    and y: "y = x\<lparr>r_s := fst rg, r_e := snd rg\<rparr>"
    using item by (auto simp: rebase_item_def result_simps)
  show ?thesis
    using transform_edits_text [OF rebase_entries [OF rg], of old] replays_edits [OF old] x y
    by (auto simp: same_bytes_def)
qed

lemma try_map_all2:
  assumes "try_map f xs = Inr ys" and "\<And>x y. x \<in> set xs \<Longrightarrow> f x = Inr y \<Longrightarrow> P x y"
  shows "list_all2 P xs ys"
  using assms by (induction xs arbitrary: ys) (auto simp: result_simps)

lemma list_all2_trans':
  assumes "list_all2 P xs ys" and "list_all2 Q ys zs" and "\<And>x y z. P x y \<Longrightarrow> Q y z \<Longrightarrow> R x z"
  shows "list_all2 R xs zs"
  using assms(1,2) by (rule list_all2_trans [rotated]) (rule assms(3))

lemma list_all2_enumerate: "list_all2 (\<lambda>p y. P (snd p) y) (enumerate n xs) ys \<longleftrightarrow> list_all2 P xs ys"
  by (induction xs arbitrary: n ys) (auto simp: list_all2_Cons1)

lemma history_suffix:
  assumes "buffer_inv b" and "b_rev b < u64_max" and "r \<le> b_rev b"
  obtains old where "from_utf8 old" "replays old (log_after r (b_log b)) (content b)"
    and "log_after r (b_log b) = filter (\<lambda>e. r < le_rev e) (ol_entries (b_log b))"
proof -
  note inv = buffer_invD [OF assms(1)]
  obtain s0 where s0: "from_utf8 s0" "replays s0 (ol_entries (b_log b)) (content b)"
    using inv(3) by (auto simp: history_ok_def)
  have "map le_rev (ol_entries (b_log b)) = [Suc (ol_base (b_log b))..<Suc (b_rev b)]"
    using inv(2) by (simp add: log_inv_defs)
  from drop_map_filter [OF this, of r] log_after_filter [OF inv(2) assms(2,3)]
  have eq: "log_after r (b_log b) = drop (Suc r - Suc (ol_base (b_log b))) (ol_entries (b_log b))" by simp
  have "replays s0 (take (Suc r - Suc (ol_base (b_log b))) (ol_entries (b_log b)) @ log_after r (b_log b)) (content b)"
    using s0(2) unfolding eq by simp
  then obtain old where old: "replays s0 (take (Suc r - Suc (ol_base (b_log b))) (ol_entries (b_log b))) old"
    "replays old (log_after r (b_log b)) (content b)" unfolding replays_append by blast
  show thesis
    using that [OF replays_utf8 [OF old(1) s0(1)] old(2) log_after_filter [OF inv(2) assms(2,3)]] .
qed

text \<open>C26: A request that names an older revision \<open>r\<close> and is accepted is moved, not reinterpreted: there is a
  text from which the retained entries after \<open>r\<close> lead to the current one (the text at \<open>r\<close>), every
  offset range of the request lies in it, and the resolved item covers the same bytes in the
  current text, with the request's replacement.\<close>

theorem stale_request_keeps_bytes:
  assumes "buffer_inv b" and "b_rev b < u64_max" and "tr_cas req = BaseRev r" and "r < b_rev b"
    and "resolve_txn b req = Inr items"
  shows "\<exists>old. from_utf8 old \<and> replays old (filter (\<lambda>e. r < le_rev e) (ol_entries (b_log b))) (content b)
    \<and> list_all2 (same_bytes old (content b)) (tr_ops req) items"
proof -
  obtain old where old: "from_utf8 old" "replays old (log_after r (b_log b)) (content b)"
    and after: "log_after r (b_log b) = filter (\<lambda>e. r < le_rev e) (ol_entries (b_log b))"
    using history_suffix [OF assms(1,2) less_imp_le [OF assms(4)]] .
  obtain base where base: "try_map (\<lambda>iop. and_then (base_op iop) (check_base_op (hist_len b r))) (enumerate 0 (tr_ops req)) = Inr base"
    and items: "try_map (rebase_item b r) base = Inr items"
    using assms(3-5) by (auto simp: resolve_txn_def resolve_items_def check_cas_def result_simps split: if_splits)
  have "list_all2 (\<lambda>p y. same_bytes old (content b) (snd p) y) (enumerate 0 (tr_ops req)) items"
    by (rule list_all2_trans' [OF try_map_all2 [OF base] try_map_all2 [OF items]])
      (use rebase_item_bytes [OF assms(1) old(2,1)] in blast)+
  then show ?thesis using old after by (auto simp: list_all2_enumerate)
qed

definition edited_text :: text_store where
  "edited_text = \<lparr>t_gap = \<lparr>g_mem = [CHR ''h'', CHR 0x0A, CHR ''x''], g_reserve = LARGE_CAPACITY, g_text_length = 3,
     g_gap_off = 1, g_gap_len = 0, g_generation = 1, g_commit_calls = 0, g_large = True\<rparr>, t_starts = [0, 2]\<rparr>"

definition edited_entry :: log_entry where
  "edited_entry = \<lparr>le_rev = 1, le_origin = Origin Human ''a'', le_lane = Origin Human ''a'', le_kind = EditEntry,
     le_edits = [resolved_edit sample_item], le_deleted = [[CHR 0xC3, CHR 0xA9]], le_via = sample_via,
     le_op_id = None, le_time_ms = 7\<rparr>"

text \<open>The sample text after its accented letter was deleted.\<close>

definition edited_buffer :: buffer where
  "edited_buffer = \<lparr>b_text = edited_text,
     b_log = \<lparr>ol_entries = [edited_entry], ol_lanes = [(Origin Human ''a'', \<lparr>l_undo = [(1, 1)], l_redo = []\<rparr>)],
       ol_text_bytes = 2, ol_base = 0\<rparr>,
     b_rev = 1, b_saved_rev = Some 0, b_anchors = [], b_selections = []\<rparr>"

lemma edited_bytes: "text_bytes edited_text = [CHR ''h'', CHR 0x0A, CHR ''x'']"
  by (simp add: edited_text_def text_bytes_def gap_text_def slice_def)

lemma edited_replays: "replays (content sample_buffer) [edited_entry] (content edited_buffer)"
  using sample_boundary
  by (simp add: entry_ok_def edited_entry_def resolved_edit_def sample_item_def deleted_texts_def slice_def
      sample_bytes edited_bytes edited_buffer_def sample_buffer_def with_text_def apply_edit_def)

lemma edited_utf8: "from_utf8 [CHR ''h'', CHR 0x0A, CHR ''x'']"
  unfolding from_utf8_iff
  by (rule exI [of _ "[''h'', [CHR 0x0A], ''x'']"]) (simp add: utf8_char_def lead_len_def second_ok_def byte_def)

lemma edited_text_inv: "text_inv edited_text"
  unfolding text_inv_def edited_bytes
  by (simp add: edited_utf8 edited_text_def store_inv_def gap_inv_def LARGE_CAPACITY_def MAX_BUFFER_BYTES_def
      MIB_def MAX_LINES_def line_starts_def newline_def)

lemma edited_buffer_inv: "buffer_inv edited_buffer"
proof -
  have "history_ok (b_log edited_buffer) (content edited_buffer)"
    unfolding history_ok_def using edited_replays sample_utf8
    by (intro exI [of _ "content sample_buffer"]) (simp add: edited_buffer_def sample_buffer_def with_text_def sample_bytes)
  moreover have "log_inv 1 (b_log edited_buffer)"
    by (simp add: edited_buffer_def log_inv_defs edited_entry_def entry_text_bytes_def groups_in_def bm_inv_def lanes_inv_def
       resolved_edit_def sample_item_def LOG_MAX_TEXT_BYTES_def MIB_def LOG_MAX_ENTRIES_def)
  ultimately show ?thesis
    using edited_text_inv by (simp add: buffer_inv_def edited_buffer_def anchors_ok_def selections_ok_def bm_inv_def)
qed

definition stale_request :: txn_request where
  "stale_request = \<lparr>tr_ops = [DeleteOp (Offsets 4 5)], tr_cas = BaseRev 0, tr_coalesce = False,
     tr_cursor = None, tr_op_id = None\<rparr>"

lemma edited_boundary: "boundary (text_bytes edited_text) off \<longleftrightarrow> off \<le> 3"
  unfolding edited_bytes boundary_def
  by (auto simp: is_continuation_def byte_def nth_Cons split: nat.splits)

lemma stale_resolve:
  "resolve_txn edited_buffer stale_request = Inr [\<lparr>r_s = 2, r_e = 3, r_text = [], r_idx = 0\<rparr>]"
  using is_char_boundary_iff [OF edited_text_inv] edited_boundary text_invD(6) [OF edited_text_inv]
  by (simp add: resolve_txn_def stale_request_def check_cas_def edited_buffer_def offsets_only_def resolve_items_def
      base_op_def check_base_op_def hist_len_def log_after_def edited_entry_def saturating_add_def u64_max_def
      resolved_edit_def sample_item_def rebase_item_def rebase_entry_def transform_edits_def transform_range_def
      transform_raw_def raw_of_def oldest_rev_def check_offset_def buf_len_def check_overlap_def first_overlap_def
      edited_bytes MAX_OPS_PER_TXN_def MAX_REQUEST_TEXT_BYTES_def MIB_def)

theorem stale_request_keeps_bytes_witness:
  "\<exists>old. replays old (ol_entries (b_log edited_buffer)) (content edited_buffer)
    \<and> same_bytes old (content edited_buffer) (DeleteOp (Offsets 4 5)) \<lparr>r_s = 2, r_e = 3, r_text = [], r_idx = 0\<rparr>"
  using stale_request_keeps_bytes [OF edited_buffer_inv _ _ _ stale_resolve, of 0]
  by (auto simp: edited_buffer_def edited_entry_def stale_request_def u64_max_def)

end
