(* ===== verification/Edit_Reload.thy ===== *)
theory Edit_Reload
  imports Edit_Apply
begin

text \<open>
  Reloading a buffer with a new text (\<^verbatim>\<open>Buffer::reload_minimal\<close>), loading and saving
  (\<^verbatim>\<open>from_bytes\<close>, \<^verbatim>\<open>to_bytes\<close>), and the operations on selections and named anchors: what each
  does, that refusals change nothing, and that the buffer invariant is kept.
\<close>

section \<open>Common prefix and suffix\<close>

lemma common_prefix_le: "common_prefix a b \<le> length a \<and> common_prefix a b \<le> length b"
  by (induction a b rule: common_prefix.induct) auto

lemma common_prefix_take: "take (common_prefix a b) a = take (common_prefix a b) b"
  by (induction a b rule: common_prefix.induct) auto

lemma common_prefix_max: "take n a = take n b \<Longrightarrow> n \<le> length a \<Longrightarrow> n \<le> length b \<Longrightarrow> n \<le> common_prefix a b"
proof (induction a b arbitrary: n rule: common_prefix.induct)
  case (1 x xs y ys)
  then show ?case by (cases n) auto
qed auto

lemma common_suffix_drop:
  assumes "n \<le> common_prefix (rev a) (rev b)"
  shows "drop (length a - n) a = drop (length b - n) b"
proof -
  have "take n (rev a) = take n (rev b)"
    using arg_cong [OF common_prefix_take [of "rev a" "rev b"], of "take n"] assms by (simp add: min_def)
  then show ?thesis by (simp add: take_rev)
qed

lemma common_suffix_max:
  assumes "drop (length a - n) a = drop (length b - n) b" and "n \<le> length a" and "n \<le> length b"
  shows "n \<le> common_prefix (rev a) (rev b)"
  using assms by (intro common_prefix_max) (simp_all add: take_rev)

lemma back_prefix_max:
  assumes "boundary cur 0" and "boundary new 0"
  shows "\<exists>m. back_prefix cur new n = Some m \<and> m \<le> n \<and> boundary cur m \<and> boundary new m
    \<and> (\<forall>k \<le> n. boundary cur k \<and> boundary new k \<longrightarrow> k \<le> m)"
proof (induction n)
  case (Suc n)
  then show ?case by (auto simp: le_Suc_eq)
qed (use assms in auto)

lemma back_suffix_max:
  "\<exists>m. back_suffix cur new n = Some m \<and> m \<le> n \<and> boundary cur (length cur - m) \<and> boundary new (length new - m)
    \<and> (\<forall>k \<le> n. boundary cur (length cur - k) \<and> boundary new (length new - k) \<longrightarrow> k \<le> m)"
proof (induction n)
  case (Suc n)
  then show ?case by (auto simp: le_Suc_eq)
qed auto

text \<open>A suffix of valid text, cut at a boundary of one text, is cut at a boundary of the other.\<close>

lemma shared_suffix_boundary:
  assumes "from_utf8 a" and "boundary a p" and "drop p a = drop q b" and "q \<le> length b"
  shows "boundary b q"
proof -
  have "from_utf8 (drop q b)" using boundary_split [OF assms(1,2)] assms(3) by simp
  then show ?thesis using split_boundary [of "drop q b" "take q b"] assms(4) by simp
qed

section \<open>The minimal replacement\<close>

text \<open>Replacing bytes \<open>s\<close> to \<open>e\<close> of \<open>cur\<close> by \<open>x\<close> gives \<open>new\<close>.\<close>

definition rewrites_to :: "string \<Rightarrow> string \<Rightarrow> nat \<Rightarrow> nat \<Rightarrow> string \<Rightarrow> bool" where
  "rewrites_to cur new s e x \<longleftrightarrow> s \<le> e \<and> boundary cur s \<and> boundary cur e \<and> from_utf8 x
     \<and> take s cur @ x @ drop e cur = new"

lemma rewrites_split:
  assumes "from_utf8 cur" and "rewrites_to cur new s e x"
  shows "take s cur = take s new" and "drop e cur = drop (length new - (length cur - e)) new"
    and "s + (length cur - e) \<le> length new" and "e \<le> length cur"
    and "boundary new s" and "boundary new (length new - (length cur - e))"
proof -
  note r = assms(2) [unfolded rewrites_to_def]
  have e: "e \<le> length cur" and s: "s \<le> length cur" using r boundary_le by auto
  then show "e \<le> length cur" by simp
  have len: "length new = s + length x + (length cur - e)" using r s by auto
  then show "s + (length cur - e) \<le> length new" by simp
  show "take s cur = take s new" using r s by auto
  have new: "new = (take s cur @ x) @ drop e cur" using r by simp
  show "drop e cur = drop (length new - (length cur - e)) new"
    using new s e len by simp
  have utf: "from_utf8 (take s cur)" "from_utf8 (drop e cur)" using boundary_split [OF assms(1)] r by blast+
  show "boundary new s"
    using split_boundary [of "x @ drop e cur" "take s cur"] utf r s by auto
  show "boundary new (length new - (length cur - e))"
    using split_boundary [OF utf(2), of "take s cur @ x"] new s e len by simp
qed

lemma reload_suffix:
  assumes "from_utf8 cur" "from_utf8 new" and pre: "boundary cur pre" "boundary new pre" "take pre cur = take pre new"
    and room: "room = min (length cur) (length new) - pre"
    and suf: "back_suffix cur new (min room (common_prefix (rev cur) (rev new))) = Some suf"
  shows "pre + suf \<le> min (length cur) (length new) \<and> boundary cur (length cur - suf) \<and> boundary new (length new - suf)
    \<and> drop (length cur - suf) cur = drop (length new - suf) new"
    and "rewrites_to cur new s e x \<Longrightarrow> s \<le> pre \<Longrightarrow> s + (length cur - e) \<le> pre + suf"
proof -
  let ?cs = "common_prefix (rev cur) (rev new)"
  have pl: "pre \<le> length cur" "pre \<le> length new" using pre boundary_le by auto
  have m: "suf \<le> min room ?cs" "boundary cur (length cur - suf)" "boundary new (length new - suf)"
    and mx: "\<And>k. k \<le> min room ?cs \<Longrightarrow> boundary cur (length cur - k) \<Longrightarrow> boundary new (length new - k) \<Longrightarrow> k \<le> suf"
    using back_suffix_max [of cur new "min room ?cs"] suf by auto
  show "pre + suf \<le> min (length cur) (length new) \<and> boundary cur (length cur - suf) \<and> boundary new (length new - suf)
      \<and> drop (length cur - suf) cur = drop (length new - suf) new"
    using m pl room common_suffix_drop [of suf cur new] by auto
  assume rw: "rewrites_to cur new s e x" and s: "s \<le> pre"
  note rs = rewrites_split [OF assms(1) rw]
  have be: "boundary cur e" and se: "s \<le> e" using rw by (simp_all add: rewrites_to_def)
  let ?n = "length cur - e"
  have n_cs: "?n \<le> ?cs" using common_suffix_max [of cur ?n new] rs by simp
  have n_min: "s + ?n \<le> min (length cur) (length new)" using rs(3,4) se by simp
  show "s + ?n \<le> pre + suf"
  proof (cases "room \<le> ?cs")
    case True
    have eq: "drop (length cur - room) cur = drop (length new - room) new" using common_suffix_drop [OF True] .
    have "boundary cur (length cur - room) \<and> boundary new (length new - room)"
    proof (cases "length cur \<le> length new")
      case True
      then have "length cur - room = pre" using room pl by simp
      then show ?thesis using shared_suffix_boundary [OF assms(1) pre(1), of "length new - room" new] eq pre(1) by simp
    next
      case False
      then have "length new - room = pre" using room pl by simp
      then show ?thesis using shared_suffix_boundary [OF assms(2) pre(2), of "length cur - room" cur] eq pre(2) by simp
    qed
    then have "room \<le> suf" using mx True by simp
    then show ?thesis using n_min room pl by linarith
  next
    case False
    show ?thesis
    proof (cases "?n \<le> room")
      case le: True
      then have "?n \<le> suf" using mx [of ?n] n_cs rs(4,6) be by simp
      then show ?thesis using s by simp
    next
      case False
      then show ?thesis using \<open>\<not> room \<le> ?cs\<close> n_cs by simp
    qed
  qed
qed

lemma reload_item_ok:
  assumes "from_utf8 cur" "from_utf8 new"
  shows "(reload_item cur new = Inr None \<and> cur = new)
    \<or> (\<exists>item. reload_item cur new = Inr (Some item) \<and> cur \<noteq> new \<and> rewrites_to cur new (r_s item) (r_e item) (r_text item)
        \<and> (\<forall>s e x. rewrites_to cur new s e x \<longrightarrow> r_e item - r_s item \<le> e - s))"
proof -
  let ?cp = "common_prefix cur new"
  obtain pre where pre: "back_prefix cur new ?cp = Some pre" "pre \<le> ?cp" "boundary cur pre" "boundary new pre"
    and mx: "\<And>k. k \<le> ?cp \<Longrightarrow> boundary cur k \<Longrightarrow> boundary new k \<Longrightarrow> k \<le> pre"
    using back_prefix_max [OF boundary_zero boundary_zero, OF assms, of ?cp] by blast
  have tk: "take pre cur = take pre new"
    using arg_cong [OF common_prefix_take [of cur new], of "take pre"] pre(2) by (simp add: min_def)
  show ?thesis
  proof (cases "pre = length cur \<and> pre = length new")
    case True
    then show ?thesis using tk pre(1) by (simp add: reload_item_def)
  next
    case False
    define room where "room = min (length cur) (length new) - pre"
    obtain suf where suf: "back_suffix cur new (min room (common_prefix (rev cur) (rev new))) = Some suf"
      using back_suffix_max by blast
    note rs = reload_suffix [OF assms pre(3,4) tk room_def suf]
    let ?item = "\<lparr>r_s = pre, r_e = length cur - suf, r_text = slice new pre (length new - suf), r_idx = 0\<rparr>"
    have item: "reload_item cur new = Inr (Some ?item)"
      using False pre(1) suf by (auto simp: reload_item_def Let_def room_def)
    have "pre \<le> length new - suf" using rs(1) by linarith
    then have split: "new = take pre new @ slice new pre (length new - suf) @ drop (length new - suf) new"
      by (simp add: slice_then_drop)
    have "rewrites_to cur new pre (length cur - suf) (slice new pre (length new - suf))"
      using rs(1) pre tk split slice_from_utf8 [OF assms(2) pre(4), of "length new - suf"]
      by (auto simp: rewrites_to_def)
    moreover have "length cur - suf - pre \<le> e - s" if "rewrites_to cur new s e x" for s e x
    proof -
      note sp = rewrites_split [OF assms(1) that]
      have se: "s \<le> e" "boundary cur s" using that by (simp_all add: rewrites_to_def)
      have "s \<le> ?cp" using common_prefix_max [OF sp(1)] se sp(3,4) by simp
      then have "s \<le> pre" using mx se(2) sp(5) by blast
      then show ?thesis using rs(2) [OF that] sp(4) se(1) by linarith
    qed
    moreover have "cur \<noteq> new"
    proof
      assume "cur = new"
      then have "?cp = length cur" using common_prefix_max [of "length cur" cur new] common_prefix_le [of cur new] by simp
      then show False using False mx [of "length cur"] \<open>cur = new\<close> boundary_le [OF pre(3)] by simp
    qed
    ultimately show ?thesis using item by auto
  qed
qed

lemma unchanged_trans: "unchanged a b \<Longrightarrow> unchanged b c \<Longrightarrow> unchanged a c"
  unfolding unchanged_def by simp

lemma contiguous_buffer:
  assumes "buffer_inv b" and "contiguous_text h (b_text b) = (cur, t)"
  shows "cur = content b" and "unchanged b (b\<lparr>b_text := t\<rparr>)" and "buffer_inv (b\<lparr>b_text := t\<rparr>)"
proof -
  have c: "cur = content b" "text_inv t" "text_bytes t = content b" "t_starts t = t_starts (b_text b)"
    using contiguous_text_eq [OF buffer_invD(1) [OF assms(1)], of h] assms(2)
    by (auto simp: contiguous_text_def Let_def)
  show "cur = content b" "unchanged b (b\<lparr>b_text := t\<rparr>)" using c by (simp_all add: unchanged_def)
  show "buffer_inv (b\<lparr>b_text := t\<rparr>)" using c assms(1) by (simp add: buffer_inv_def)
qed

lemma reload_spec:
  assumes "buffer_inv b" and "from_utf8 new" and "reload_minimal h new via now b = (res, b')"
  shows "buffer_inv b' \<and> (case res of
      Inl f \<Rightarrow> refusal f \<and> unchanged b b'
    | Inr None \<Rightarrow> content b = new \<and> unchanged b b'
    | Inr (Some ap) \<Rightarrow> \<exists>item c. content b \<noteq> new \<and> rewrites_to (content b) new (r_s item) (r_e item) (r_text item)
        \<and> (\<forall>s e x. rewrites_to (content b) new s e x \<longrightarrow> r_e item - r_s item \<le> e - s)
        \<and> committed (b\<lparr>b_text := snd (contiguous_text h (b_text b))\<rparr>) [item] c ap b'
        \<and> c_kind c = ReloadEntry)"
proof -
  obtain cur t where ct: "contiguous_text h (b_text b) = (cur, t)" by fastforce
  note cb = contiguous_buffer [OF assms(1) ct]
  note inv = buffer_invD [OF assms(1)]
  have cont: "content (b\<lparr>b_text := t\<rparr>) = content b" using cb(2) by (simp add: unchanged_def)
  show ?thesis
  proof (cases "content b = new")
    case True
    then have "reload_item (content b) new = Inr None" using reload_item_ok [OF inv(6) assms(2)] by auto
    then show ?thesis using assms(3) ct cb True by (auto simp: reload_minimal_def)
  next
    case False
    then obtain item where item: "reload_item (content b) new = Inr (Some item)"
      "rewrites_to (content b) new (r_s item) (r_e item) (r_text item)"
      "\<forall>s e x. rewrites_to (content b) new s e x \<longrightarrow> r_e item - r_s item \<le> e - s"
      using reload_item_ok [OF inv(6) assms(2)] by blast
    define c where "c = \<lparr>c_origin = disk, c_lane = disk, c_kind = ReloadEntry, c_via = via, c_now_ms = now,
               c_op_id = None, c_coalesce = False, c_cursor = None, c_rebased = False\<rparr>"
    obtain r b2 where run: "commit_txn h [item] c (b\<lparr>b_text := t\<rparr>) = (r, b2)" by fastforce
    have ok: "list_all (item_ok (b\<lparr>b_text := t\<rparr>)) [item]"
      using item(2) cont by (simp add: item_ok_def range_ok_def rewrites_to_def)
    note spec = commit_txn_spec [OF cb(3) ok run]
    have "b' = b2" "res = (case r of Inl f \<Rightarrow> Inl f | Inr ap \<Rightarrow> Inr (Some ap))"
      using assms(3) ct item(1) cb(1) run by (auto simp: reload_minimal_def c_def split: sum.splits)
    moreover have "c_kind c = ReloadEntry" by (simp add: c_def)
    ultimately show ?thesis
      using spec False item(2,3) ct unchanged_trans [OF cb(2), of b2] by (cases r) auto
  qed
qed

text \<open>Reloading never panics and either refuses without an observable change or leaves exactly the new
  text.  It does nothing, and reports nothing, exactly when the texts agree; otherwise it commits
  one revision with one edit, whose replaced span is the shortest among all single replacements
  on char boundaries that turn the old text into the new one.\<close>

theorem reload_is_minimal:
  assumes "buffer_inv b" and "from_utf8 new" and "reload_minimal h new via now b = (res, b')"
  shows "buffer_inv b' \<and> (case res of
      Inl f \<Rightarrow> (\<exists>e. f = Refuse e) \<and> unchanged b b'
    | Inr None \<Rightarrow> content b = new \<and> unchanged b b'
    | Inr (Some ap) \<Rightarrow> content b \<noteq> new \<and> content b' = new \<and> b_rev b' = Suc (b_rev b)
        \<and> (\<exists>ed. ap_edits ap = [ed] \<and> (\<forall>s e x. rewrites_to (content b) new s e x \<longrightarrow> e_delete ed \<le> e - s)))"
proof -
  note spec = reload_spec [OF assms]
  show ?thesis
  proof (cases "\<exists>ap. res = Inr (Some ap)")
    case True
    then obtain ap item c where ap: "res = Inr (Some ap)" and ne: "content b \<noteq> new"
      and rw: "rewrites_to (content b) new (r_s item) (r_e item) (r_text item)"
      and mn: "\<forall>s e x. rewrites_to (content b) new s e x \<longrightarrow> r_e item - r_s item \<le> e - s"
      and com: "committed (b\<lparr>b_text := snd (contiguous_text h (b_text b))\<rparr>) [item] c ap b'"
      using spec by auto
    obtain cur t where ct: "contiguous_text h (b_text b) = (cur, t)" by fastforce
    have "text_bytes t = content b" using contiguous_buffer(2) [OF assms(1) ct] by (simp add: unchanged_def)
    moreover have "r_s item \<le> length (content b)" using rw boundary_le by (auto simp: rewrites_to_def)
    ultimately have "content b' = new"
      using committed_content(1) [OF com] rw ct
      by (simp add: rewrites_to_def canonical_order_def resolved_edit_def slice_def)
    then show ?thesis
      using spec ap ne mn committed_content(2,5) [OF com] by (auto simp: canonical_order_def resolved_edit_def)
  next
    case False
    then show ?thesis using spec by (auto simp: refusal_def split: sum.splits option.splits)
  qed
qed

theorem reload_is_minimal_witness:
  "\<exists>b'. reload_minimal generous (content sample_buffer) sample_via 3 sample_buffer = (Inr None, b')
    \<and> buffer_inv b' \<and> content sample_buffer = [CHR ''h'', CHR 0xC3, CHR 0xA9, CHR 0x0A, CHR ''x''] \<and> unchanged sample_buffer b'"
proof -
  have u: "from_utf8 (content sample_buffer)" by (rule buffer_invD(6) [OF sample_buffer_inv])
  obtain res b' where run: "reload_minimal generous (content sample_buffer) sample_via 3 sample_buffer = (res, b')"
    by fastforce
  obtain cur t where ct: "contiguous_text generous (b_text sample_buffer) = (cur, t)" by fastforce
  have "reload_item (content sample_buffer) (content sample_buffer) = Inr None"
    using reload_item_ok [OF u u] by auto
  then have "res = Inr None"
    using run ct contiguous_buffer(1) [OF sample_buffer_inv ct] by (simp add: reload_minimal_def)
  then show ?thesis
    using run reload_is_minimal [OF sample_buffer_inv u run] by (simp add: sample_buffer_def with_text_def sample_bytes)
qed

section \<open>Loading and saving\<close>

lemma from_bytes_spec:
  assumes "from_bytes h bytes = Inr (b, meta)"
  shows "buffer_inv b \<and> bytes = (if fm_bom meta then BOM else []) @ content b \<and> b_rev b = 0 \<and> b_saved_rev b = None"
proof -
  obtain bom body where sp: "(case strip_prefix BOM bytes of Some rest \<Rightarrow> (True, rest) | None \<Rightarrow> (False, bytes)) = (bom, body)"
    by fastforce
  have bytes: "bytes = (if bom then BOM else []) @ body"
    using sp append_take_drop_id [of "length BOM" bytes, symmetric]
    by (auto simp: strip_prefix_take simp del: append_take_drop_id split: option.splits if_splits)
  obtain t where "from_utf8 body" and t: "from_text h body = Inr t" and b: "b = with_text t" "fm_bom meta = bom"
    using assms sp by (auto simp: from_bytes_def Let_def result_simps split: if_splits)
  then have "text_inv t" "text_bytes t = body" using from_text_Inr [OF t] by simp_all
  then show ?thesis using bytes b with_text_inv [of t] by (simp add: with_text_def)
qed

text \<open>Loading then saving gives the file back byte for byte, a byte-order mark included.  The loaded buffer
  is well formed, at revision 0 and dirty until it is marked saved, and saving marks it clean.\<close>

theorem load_save_roundtrip:
  assumes "from_bytes h bytes = Inr (b, meta)"
  shows "buffer_inv b \<and> to_bytes meta b = Inr bytes \<and> b_rev b = 0 \<and> is_dirty b
    \<and> \<not> is_dirty (mark_saved b) \<and> buffer_inv (mark_saved b)"
proof -
  note spec = from_bytes_spec [OF assms]
  have "to_string_lossless (b_text b) = Some (content b)"
    using to_string_lossless_eq buffer_invD(1) spec by blast
  then show ?thesis
    using spec by (auto simp: to_bytes_def returns_def is_dirty_def mark_saved_def buffer_inv_def)
qed

lemma load_bom:
  obtains b meta where "from_bytes generous BOM = Inr (b, meta)" and "fm_bom meta"
proof -
  obtain t where "from_text generous [] = Inr t"
    by (simp add: from_text_def scan_starts.simps text_new_def gap_new_def generous_def gap_replace_def
        allocate_gap_def allocate_commit_def write_gap_def commit_gap_def)
  then show thesis using that by (auto simp: from_bytes_def strip_prefix_take Let_def)
qed

theorem load_save_roundtrip_witness:
  "\<exists>b meta. from_bytes generous BOM = Inr (b, meta) \<and> fm_bom meta \<and> to_bytes meta b = Inr BOM \<and> buffer_inv b"
proof -
  obtain b meta where load: "from_bytes generous BOM = Inr (b, meta)" "fm_bom meta" by (rule load_bom)
  from load_save_roundtrip [OF load(1)] load show ?thesis by blast
qed

section \<open>Selections and anchors\<close>

lemma buffer_inv_selections:
  "buffer_inv b \<Longrightarrow> selections_ok (content b) m \<Longrightarrow> buffer_inv (b\<lparr>b_selections := m\<rparr>)"
  by (simp add: buffer_inv_def)

lemma buffer_inv_anchors:
  "buffer_inv b \<Longrightarrow> anchors_ok (content b) as \<Longrightarrow> buffer_inv (b\<lparr>b_anchors := as\<rparr>)"
  by (simp add: buffer_inv_def)

lemma check_selections:
  assumes "buffer_inv b"
    and "try_map (\<lambda>s. and_then (check_offset b (sel_anchor s)) (\<lambda>_. check_offset b (sel_head s))) sels = r"
  shows "case r of Inl f \<Rightarrow> refusal f | Inr _ \<Rightarrow> list_all (selection_in (content b)) sels"
proof (cases r)
  case (Inl f)
  have "refusal e" if "and_then (check_offset b x) (\<lambda>_. check_offset b y) = Inl e" for x y e
    using that check_offset_Inl by (cases "check_offset b x") auto
  then have "(\<forall>ys. r = Inr ys \<longrightarrow> list_all (\<lambda>_. True) ys) \<and> (\<forall>e. r = Inl e \<longrightarrow> refusal e)"
    unfolding assms(2) [symmetric] by (intro try_map_all) simp
  then show ?thesis using Inl by simp
next
  case (Inr ys)
  have "list_all2 (\<lambda>s _. selection_in (content b) s) sels ys"
    using check_offset_Inr [OF buffer_positions [OF assms(1)]]
    by (intro try_map_all2 [OF assms(2) [unfolded Inr]]) (auto simp: result_simps selection_in_def)
  then show ?thesis using Inr by (simp add: list_all2_conv_all_nth list_all_length)
qed

lemma selections_ok_remove: "selections_ok s m \<Longrightarrow> selections_ok s (bm_remove o' m)"
  using bm.size_remove_le [of m o'] bm_inv_remove [of m o'] by (auto simp: selections_ok_def) (auto simp: bm_remove_def)

lemma set_selections_ok:
  assumes "buffer_inv b" and "set_selections who sels b = (res, b')"
  shows "buffer_inv b' \<and> (case res of
      Inl f \<Rightarrow> (\<exists>e. f = Refuse e) \<and> b' = b
    | Inr _ \<Rightarrow> list_all (selection_in (content b)) sels \<and> b' = b\<lparr>b_selections := b_selections b'\<rparr>
        \<and> bm_get (b_selections b') = (bm_get (b_selections b))(who := (if sels = [] then None else Some sels)))"
proof -
  note inv = buffer_invD(5) [OF assms(1)]
  obtain r where r: "try_map (\<lambda>s. and_then (check_offset b (sel_anchor s)) (\<lambda>_. check_offset b (sel_head s))) sels = r"
    by blast
  note chk = check_selections [OF assms(1) r]
  consider (refuse) f where "res = Inl f" "b' = b" "refusal f"
    | (remove) ys where "res = Inr ()" "r = Inr ys" "sels = []" "b' = b\<lparr>b_selections := bm_remove who (b_selections b)\<rparr>"
    | (insert) ys where "res = Inr ()" "r = Inr ys" "sels \<noteq> []" "length sels \<le> MAX_SELECTIONS_PER_ORIGIN"
        "b' = b\<lparr>b_selections := bm_insert who sels (b_selections b)\<rparr>"
        "bm_get (b_selections b) who \<noteq> None \<or> length (b_selections b) < MAX_SELECTION_ORIGINS"
    using assms(2) chk r by (auto simp: set_selections_def bm_contains_def split: if_splits sum.splits)
  then show ?thesis
  proof cases
    case refuse
    then show ?thesis using assms(1) by (simp add: refusal_def)
  next
    case remove
    have "selections_ok (content b) (bm_remove who (b_selections b))" by (rule selections_ok_remove [OF inv])
    then show ?thesis using remove assms(1) buffer_inv_selections bm_get_remove by auto
  next
    case insert
    then have "selections_ok (content b) (bm_insert who sels (b_selections b))"
      using chk by (intro selections_ok_insert [OF inv]) auto
    then show ?thesis using insert chk assms(1) buffer_inv_selections bm_get_insert by auto
  qed
qed

text \<open>Setting an origin's selections is refused, with nothing changed, unless every offset is a char
  boundary and the limits hold; on success that origin's selections are exactly the given ones
  (none for an empty list), every other origin keeps its own, and the invariant is kept.\<close>

theorem set_selections_exact:
  assumes "buffer_inv b" and "set_selections who sels b = (res, b')"
  shows "buffer_inv b' \<and> (case res of
      Inl f \<Rightarrow> (\<exists>e. f = Refuse e) \<and> b' = b
    | Inr _ \<Rightarrow> list_all (selection_in (content b)) sels \<and> b' = b\<lparr>b_selections := b_selections b'\<rparr>
        \<and> bm_get (b_selections b') = (bm_get (b_selections b))(who := (if sels = [] then None else Some sels)))"
  using assms by (rule set_selections_ok)

theorem set_selections_exact_witness:
  "\<exists>b'. set_selections (Origin Human ''a'') [\<lparr>sel_anchor = 1, sel_head = 3\<rparr>] sample_buffer = (Inr (), b') \<and> buffer_inv b'
    \<and> bm_get (b_selections b') (Origin Human ''a'') = Some [\<lparr>sel_anchor = 1, sel_head = 3\<rparr>]"
proof -
  obtain b' where run: "set_selections (Origin Human ''a'') [\<lparr>sel_anchor = 1, sel_head = 3\<rparr>] sample_buffer = (Inr (), b')"
    using is_char_boundary_iff [OF sample_inv] sample_boundary text_invD(6) [OF sample_inv]
    by (simp add: set_selections_def check_offset_def buf_len_def sample_buffer_def with_text_def sample_bytes
        MAX_SELECTIONS_PER_ORIGIN_def MAX_SELECTION_ORIGINS_def bm_contains_def bm_get_def)
  from set_selections_exact [OF sample_buffer_inv run] run show ?thesis by simp
qed

lemma replace_first_spec:
  "(replace_first p y xs = None \<and> find p xs = None)
    \<or> (\<exists>us x vs. xs = us @ x # vs \<and> p x \<and> list_all (\<lambda>u. \<not> p u) us \<and> replace_first p y xs = Some (us @ y # vs))"
proof (induction xs)
  case (Cons x xs)
  show ?case
  proof (cases "p x")
    case True
    then show ?thesis by (intro disjI2 exI [of _ "[]"] exI [of _ x] exI [of _ xs]) simp
  next
    case False
    from Cons show ?thesis
    proof (elim disjE exE conjE)
      fix us z vs
      assume "xs = us @ z # vs" "p z" "list_all (\<lambda>u. \<not> p u) us" "replace_first p y xs = Some (us @ y # vs)"
      then show ?thesis using False by (intro disjI2 exI [of _ "x # us"] exI [of _ z] exI [of _ vs]) simp
    qed (use False in simp)
  qed
qed simp

lemma make_anchor_ok:
  assumes "buffer_inv b"
  shows "case make_anchor b name spec of Inl f \<Rightarrow> refusal f | Inr a \<Rightarrow> na_name a = name \<and> anchor_in (content b) a"
proof -
  note p = resolve_pos_ok [OF buffer_positions [OF assms]] and r = resolve_range_ok [OF assms]
  show ?thesis
    using p [of "the (as_at spec)"] r [of "the (as_range spec)"]
    by (cases "as_at spec"; cases "as_range spec")
      (auto simp: make_anchor_def result_simps anchor_in_def range_ok_def split: sum.splits)
qed

lemma find_map_of_names:
  assumes "distinct (map na_name as)"
  shows "find (\<lambda>a. na_name a = n) as = map_of (map (\<lambda>a. (na_name a, a)) as) n"
  using assms by (induction as) auto

lemma length_filter_neq: "length (filter P xs) \<noteq> length xs \<longleftrightarrow> (\<exists>x\<in>set xs. \<not> P x)"
proof (cases "\<exists>x\<in>set xs. \<not> P x")
  case True
  then show ?thesis using length_filter_less [of _ xs P] by fastforce
next
  case False
  then have "filter P xs = xs" by (simp add: filter_id_conv)
  then show ?thesis using False by simp
qed

lemma anchor_clear_ok:
  assumes "buffer_inv b" and "anchor_clear name b = (found, b')"
  shows "buffer_inv b' \<and> find_anchor b' name = None \<and> (\<forall>n. n \<noteq> name \<longrightarrow> find_anchor b' n = find_anchor b n)
    \<and> found = (find_anchor b name \<noteq> None)"
proof -
  define as where "as = filter (\<lambda>a. na_name a \<noteq> name) (b_anchors b)"
  have b': "b' = b\<lparr>b_anchors := as\<rparr>" and found: "found = (length as \<noteq> length (b_anchors b))"
    using assms(2) by (auto simp: anchor_clear_def Let_def as_def)
  have "anchors_ok (content b) as"
    using buffer_invD(4) [OF assms(1)] le_trans [OF length_filter_le [of "\<lambda>a. na_name a \<noteq> name" "b_anchors b"]]
    unfolding as_def anchors_ok_def by (simp add: list_all_iff distinct_map_filter)
  then have "buffer_inv b'" using buffer_inv_anchors [OF assms(1)] by (simp add: b')
  moreover have "find_anchor b' name = None"
    by (auto simp: find_anchor_def b' as_def find_None_iff)
  moreover have other: "n \<noteq> name \<longrightarrow> find (\<lambda>a. na_name a = n) (filter (\<lambda>a. na_name a \<noteq> name) as') = find (\<lambda>a. na_name a = n) as'"
    for n and as' :: "named_anchor list" by (induction as') auto
  have "\<forall>n. n \<noteq> name \<longrightarrow> find_anchor b' n = find_anchor b n"
    unfolding find_anchor_def b' as_def using other by simp
  moreover have "found = (find_anchor b name \<noteq> None)"
    unfolding found as_def length_filter_neq find_anchor_def by (auto simp: find_None_iff)
  ultimately show ?thesis by blast
qed

lemma anchors_ok_replace:
  assumes "anchors_ok s (us @ x # vs)" and "na_name y = na_name x" and "anchor_in s y"
  shows "anchors_ok s (us @ y # vs)"
  using assms by (auto simp: anchors_ok_def list_all_iff)

lemma anchors_ok_append:
  assumes "anchors_ok s as" and "find (\<lambda>a. na_name a = na_name y) as = None" and "anchor_in s y" and "length as < MAX_ANCHORS"
  shows "anchors_ok s (as @ [y])"
  using assms by (auto simp: anchors_ok_def list_all_iff find_None_iff image_iff)

lemma anchor_set_ok:
  assumes "buffer_inv b" and "anchor_set name spec b = (res, b')"
  shows "buffer_inv b' \<and> (case res of
      Inl f \<Rightarrow> (\<exists>e. f = Refuse e) \<and> b' = b
    | Inr _ \<Rightarrow> is_valid_name name \<and> b' = b\<lparr>b_anchors := b_anchors b'\<rparr>
        \<and> (\<exists>a. make_anchor b name spec = Inr a \<and> anchor_in (content b) a \<and> find_anchor b' name = Some a)
        \<and> (\<forall>n. n \<noteq> name \<longrightarrow> find_anchor b' n = find_anchor b n))"
proof -
  note ok = buffer_invD(4) [OF assms(1)]
  let ?p = "\<lambda>a. na_name a = name"
  have app: "find p (us @ vs) = (case find p us of None \<Rightarrow> find p vs | Some x \<Rightarrow> Some x)"
    for p :: "named_anchor \<Rightarrow> bool" and us vs by (induction us) auto
  consider (refuse) e where "res = Inl (Refuse e)" "b' = b"
    | (made) a where "is_valid_name name" "make_anchor b name spec = Inr a" "na_name a = name" "anchor_in (content b) a"
    using assms(2) make_anchor_ok [OF assms(1), of name spec]
    by (auto simp: anchor_set_def refusal_def split: if_splits sum.splits)
  then show ?thesis
  proof cases
    case refuse
    then show ?thesis using assms(1) by simp
  next
    case made
    from replace_first_spec [of ?p a "b_anchors b"] show ?thesis
    proof (elim disjE exE conjE)
      assume none: "replace_first ?p a (b_anchors b) = None" "find ?p (b_anchors b) = None"
      show ?thesis
      proof (cases "length (b_anchors b) \<ge> MAX_ANCHORS")
        case True
        then show ?thesis using assms none made by (auto simp: anchor_set_def)
      next
        case False
        then have r: "res = Inr ()" "b' = b\<lparr>b_anchors := b_anchors b @ [a]\<rparr>"
          using assms(2) none made by (auto simp: anchor_set_def)
        have "anchors_ok (content b) (b_anchors b @ [a])"
          using anchors_ok_append [OF ok] none(2) made False by simp
        then show ?thesis
          using r made none(2) buffer_inv_anchors [OF assms(1)] by (auto simp: find_anchor_def app split: option.splits)
      qed
    next
      fix us x vs
      assume rep: "b_anchors b = us @ x # vs" "?p x" "list_all (\<lambda>u. \<not> ?p u) us"
        "replace_first ?p a (b_anchors b) = Some (us @ a # vs)"
      then have r: "res = Inr ()" "b' = b\<lparr>b_anchors := us @ a # vs\<rparr>"
        using assms(2) made by (auto simp: anchor_set_def)
      have "anchors_ok (content b) (us @ a # vs)" using anchors_ok_replace [of _ us x vs a] ok rep made by simp
      moreover have "find ?p us = None" using rep(3) by (auto simp: find_None_iff list_all_iff)
      ultimately show ?thesis
        using r made rep(1,2) buffer_inv_anchors [OF assms(1)] by (auto simp: find_anchor_def app split: option.splits)
    qed
  qed
qed

text \<open>Setting a named anchor is refused, with nothing changed, for a bad name, a position that does not
  resolve, or a full table.  On success the name denotes an anchor on char boundaries, every other
  name denotes what it did before, and the invariant is kept: names stay unique and the table
  within its limit.  Clearing a name removes exactly it and says whether it was there.\<close>

theorem anchor_set_exact:
  assumes "buffer_inv b" and "anchor_set name spec b = (res, b')"
  shows "buffer_inv b' \<and> (case res of
      Inl f \<Rightarrow> (\<exists>e. f = Refuse e) \<and> b' = b
    | Inr _ \<Rightarrow> is_valid_name name \<and> b' = b\<lparr>b_anchors := b_anchors b'\<rparr>
        \<and> (\<exists>a. make_anchor b name spec = Inr a \<and> anchor_in (content b) a \<and> find_anchor b' name = Some a)
        \<and> (\<forall>n. n \<noteq> name \<longrightarrow> find_anchor b' n = find_anchor b n))
    \<and> (\<forall>n. find_anchor (snd (anchor_clear name b')) n = (if n = name then None else find_anchor b' n))
    \<and> buffer_inv (snd (anchor_clear name b'))
    \<and> fst (anchor_clear name b') = (find_anchor b' name \<noteq> None)"
  using anchor_set_ok [OF assms] anchor_clear_ok [of b' name] by (cases "anchor_clear name b'") auto

theorem anchor_set_exact_witness:
  "\<exists>b'. anchor_set ''mark'' \<lparr>as_at = None, as_range = Some (Offsets 1 3), as_bias = None\<rparr> sample_buffer = (Inr (), b')
    \<and> buffer_inv b' \<and> find_anchor b' ''mark'' \<noteq> None \<and> fst (anchor_clear ''mark'' b')"
proof -
  have v: "is_valid_name ''mark''" by (simp add: is_valid_name_def is_ascii_alphanumeric_def byte_def)
  obtain b' where run: "anchor_set ''mark'' \<lparr>as_at = None, as_range = Some (Offsets 1 3), as_bias = None\<rparr> sample_buffer = (Inr (), b')"
    using is_char_boundary_iff [OF sample_inv] sample_boundary text_invD(6) [OF sample_inv] v
    by (simp add: anchor_set_def make_anchor_def resolve_range_def check_offset_def ordered_def buf_len_def
        sample_buffer_def with_text_def sample_bytes MAX_ANCHORS_def)
  from anchor_set_exact [OF sample_buffer_inv run] run show ?thesis by auto
qed

end
