(* ===== verification/Edit_Undo.thy ===== *)
theory Edit_Undo
  imports Edit_Reload
begin

text \<open>
  Undo and redo (\<^verbatim>\<open>Buffer::undo_redo\<close> and what it calls in \<^verbatim>\<open>cosmix-edit-core/src/buffer.rs\<close>): the
  composition of the inverses of a group's entries, the history an undo is transformed through
  with cancelled undo and redo pairs removed, lane selection, the conflict checks.  A payload
  travels with every raw edit of a member; the debug assertion on the lane of the members is not
  part of the release build that is modelled.
\<close>

section \<open>Composing the inverses of a group\<close>

record 'p composed =
  cp_range :: range
  cp_payload :: 'p
  cp_member :: nat

text \<open>One item through the edits of a newer member, with the side of every edit.\<close>

fun through_sides :: "range \<Rightarrow> raw_edit list \<Rightarrow> (overlap, range \<times> bool list) result" where
  "through_sides r [] = Inr (r, [])"
| "through_sides r (ed # eds) =
     and_then (transform_raw r ed ThroughFirst) (\<lambda>(r, left).
     and_then (through_sides r eds) (\<lambda>(r, sides). Inr (r, left # sides)))"

definition shift_item ::
  "nat \<Rightarrow> raw_edit list \<Rightarrow> 'p composed \<Rightarrow> (nat \<times> nat, 'p composed \<times> bool list) result" where
  "shift_item rev' edits it =
     map_err (\<lambda>_. (cp_member it, rev'))
       (and_then (through_sides (cp_range it) edits) (\<lambda>(r, sides). Inr (it\<lparr>cp_range := r\<rparr>, sides)))"

text \<open>Whether the newer member's item comes first; both covering text at one start is an overlap.\<close>

definition take_new :: "nat \<Rightarrow> 'p composed \<times> bool list \<Rightarrow> nat \<times> 'p composed \<Rightarrow> (nat \<times> nat, bool) result" where
  "take_new rev' old new =
     (let o' = cp_range (fst old); n = cp_range (snd new) in
      if fst o' \<noteq> fst n then Inr (fst n < fst o')
      else case (fst o' \<ge> snd o', fst n \<ge> snd n) of
          (True, True) \<Rightarrow> Inr (snd old ! fst new)
        | (True, False) \<Rightarrow> Inr False
        | (False, True) \<Rightarrow> Inr True
        | (False, False) \<Rightarrow> Inl (cp_member (fst old), rev'))"

fun merge_items ::
  "nat \<Rightarrow> ('p composed \<times> bool list) list \<Rightarrow> (nat \<times> 'p composed) list \<Rightarrow> (nat \<times> nat, 'p composed list) result" where
  "merge_items rev' [] news = Inr (map snd news)"
| "merge_items rev' olds [] = Inr (map fst olds)"
| "merge_items rev' (old # olds) (new # news) =
     and_then (take_new rev' old new) (\<lambda>tn.
       if tn then and_then (merge_items rev' (old # olds) news) (\<lambda>items. Inr (snd new # items))
       else and_then (merge_items rev' olds (new # news)) (\<lambda>items. Inr (fst old # items)))"

definition member_items :: "nat \<Rightarrow> (raw_edit \<times> 'p) list \<Rightarrow> (nat \<times> 'p composed) list" where
  "member_items rev' edits =
     rev (enumerate 0 (map (\<lambda>(r, p). \<lparr>cp_range = r, cp_payload = p, cp_member = rev'\<rparr>)
       (zip (post_ranges_raw (map fst edits)) (map snd edits))))"

definition compose_member ::
  "'p composed list \<Rightarrow> nat \<times> (raw_edit \<times> 'p) list \<Rightarrow> (nat \<times> nat, 'p composed list) result" where
  "compose_member items m =
     (let (rev', edits) = m in
      and_then (try_map (shift_item rev' (map fst edits)) items) (\<lambda>olds.
      merge_items rev' olds (member_items rev' edits)))"

definition compose_members ::
  "(nat \<times> (raw_edit \<times> 'p) list) list \<Rightarrow> (nat \<times> nat, 'p composed list) result" where
  "compose_members members = try_fold compose_member [] members"

section \<open>Cancelling pairs\<close>

record red =
  rd_entry :: log_entry
  rd_edits :: "raw_edit list"

definition raw_range :: "raw_edit \<Rightarrow> range" where
  "raw_range e = (re_p e, re_p e + re_dd e)"

definition transform_raws :: "range \<Rightarrow> raw_edit list \<Rightarrow> priority \<Rightarrow> (overlap, range) result" where
  "transform_raws r eds prio = try_fold (\<lambda>r ed. and_then (transform_raw r ed prio) (\<lambda>x. Inr (fst x))) r eds"

text \<open>One entry of \<open>rest\<close>: its edits without the group, and the group's inverse after the entry.\<close>

definition exclude_entry ::
  "(range \<times> nat) list \<Rightarrow> red \<Rightarrow> (overlap, (range \<times> nat) list \<times> red) result" where
  "exclude_entry ivs s =
     (let seq = map (\<lambda>(r, len). \<lparr>re_p = fst r, re_dd = snd r - fst r, re_ii = len\<rparr>) (rev ivs) in
      and_then (try_map (\<lambda>ed. and_then (transform_raws (raw_range ed) seq SelfFirst)
          (\<lambda>r. Inr \<lparr>re_p = fst r, re_dd = re_dd ed, re_ii = re_ii ed\<rparr>)) (rd_edits s)) (\<lambda>edits.
      and_then (try_map (\<lambda>(r, len). and_then (transform_raws r (rd_edits s) ThroughFirst) (\<lambda>r. Inr (r, len))) ivs) (\<lambda>ivs.
      Inr (ivs, \<lparr>rd_entry = rd_entry s, rd_edits = edits\<rparr>))))"

fun exclude_rest :: "(range \<times> nat) list \<Rightarrow> red list \<Rightarrow> (overlap, red list) result" where
  "exclude_rest ivs [] = Inr []"
| "exclude_rest ivs (s # rest) =
     and_then (exclude_entry ivs s) (\<lambda>(ivs, s).
     and_then (exclude_rest ivs rest) (\<lambda>out. Inr (s # out)))"

definition exclude :: "red list \<Rightarrow> red list \<Rightarrow> red list option" where
  "exclude members rest =
     (case compose_members (map (\<lambda>r. (le_rev (rd_entry r), map (\<lambda>e. (e, re_dd e)) (rd_edits r))) members) of
        Inl _ \<Rightarrow> None
      | Inr items \<Rightarrow>
          (case exclude_rest (map (\<lambda>c. (cp_range c, cp_payload c)) items) rest of
             Inl _ \<Rightarrow> None
           | Inr out \<Rightarrow> Some out))"

fun position :: "('a \<Rightarrow> bool) \<Rightarrow> 'a list \<Rightarrow> nat option" where
  "position p [] = None"
| "position p (x # xs) = (if p x then Some 0 else map_option Suc (position p xs))"

definition raw_red :: "log_entry \<Rightarrow> red" where
  "raw_red e = \<lparr>rd_entry = e, rd_edits = map raw_of (le_edits e)\<rparr>"

text \<open>What is left when the undo or redo of the entries \<open>a\<close> to \<open>b\<close> cancels against them.\<close>

definition cancel :: "group \<Rightarrow> red list \<Rightarrow> red list option" where
  "cancel of' red =
     (let (a, b) = of'; n = saturating_add (b - a) 1 in
      Option.bind (position (\<lambda>r. le_rev (rd_entry r) = a) red) (\<lambda>pos.
        let end' = saturating_add pos n;
            whole = (end' \<le> length red
              \<and> list_all (\<lambda>(r, rev'). le_rev (rd_entry r) = rev') (zip (slice red pos end') [a..<Suc b]))
        in if whole
           then map_option (\<lambda>rest. take pos red @ rest) (exclude (slice red pos end') (drop end' red))
           else None))"

definition reduce_step :: "red list \<Rightarrow> log_entry \<Rightarrow> red list" where
  "reduce_step red entry =
     (let kept = red @ [raw_red entry] in
      case le_kind entry of
        UndoEntry of' \<Rightarrow> (case cancel of' red of Some red \<Rightarrow> red | None \<Rightarrow> kept)
      | RedoEntry of' \<Rightarrow> (case cancel of' red of Some red \<Rightarrow> red | None \<Rightarrow> kept)
      | _ \<Rightarrow> kept)"

definition reduced_after :: "buffer \<Rightarrow> nat \<Rightarrow> red list" where
  "reduced_after b last' = foldl reduce_step [] (log_after last' (b_log b))"

section \<open>Lanes and conflicts\<close>

definition stack_top :: "bool \<Rightarrow> lane \<Rightarrow> group option" where
  "stack_top redo l = (let s = (if redo then l_redo l else l_undo l) in if s = [] then None else Some (last s))"

definition lane_top :: "buffer \<Rightarrow> bool \<Rightarrow> origin \<Rightarrow> group option" where
  "lane_top b redo o' = Option.bind (bm_get (ol_lanes (b_log b)) o') (stack_top redo)"

text \<open>\<^verbatim>\<open>Iterator::max_by_key\<close>: the last of the largest.\<close>

definition max_by_key :: "('a \<Rightarrow> nat) \<Rightarrow> 'a list \<Rightarrow> 'a option" where
  "max_by_key key xs =
     foldl (\<lambda>best x. case best of None \<Rightarrow> Some x | Some y \<Rightarrow> if key y \<le> key x then Some x else Some y) None xs"

definition pick_lane :: "buffer \<Rightarrow> lane_sel \<Rightarrow> origin \<Rightarrow> bool \<Rightarrow> (failure, origin) result" where
  "pick_lane b sel caller redo =
     (let lane = (case sel of
            Own \<Rightarrow> caller
          | LaneOf o' \<Rightarrow> o'
          | AllLanes \<Rightarrow>
              (case max_by_key fst (List.map_filter (\<lambda>o'. map_option (\<lambda>g. (snd g, o')) (lane_top b redo o'))
                  (map fst (ol_lanes (b_log b)))) of
                 Some (_, o') \<Rightarrow> o'
               | None \<Rightarrow> caller))
      in if lane_top b redo lane = None
         then
           let lane_name = (case sel of AllLanes \<Rightarrow> ''*'' | _ \<Rightarrow> origin_to_string lane)
           in Inl (Refuse (with_context (with_context
                (core_error_new NotFound (if redo then ''nothing_to_redo'' else ''nothing_to_undo''))
                ''lane'' (WStr lane_name)) ''rev'' (WNum (b_rev b))))
         else Inr lane)"

definition undo_conflict :: "buffer \<Rightarrow> origin \<Rightarrow> log_entry option \<Rightarrow> failure" where
  "undo_conflict b lane entry =
     (let err = conflict b ''undo_conflict'';
          err = (case entry of
              Some e \<Rightarrow> with_context (with_context err ''intervening_rev'' (WNum (le_rev e)))
                 ''intervening_origin'' (WStr (origin_to_string (le_origin e)))
            | None \<Rightarrow> err)
      in Refuse (with_context err ''lane'' (WStr (origin_to_string lane))))"

definition buffer_entry :: "buffer \<Rightarrow> nat \<Rightarrow> log_entry option" where
  "buffer_entry b rev' =
     (case log_after (rev' - 1) (b_log b) of
        [] \<Rightarrow> None
      | e # _ \<Rightarrow> if le_rev e = rev' then Some e else None)"

section \<open>The inverse of a group in current coordinates\<close>

record undo_item =
  ui_range :: range
  ui_restore :: string
  ui_expect :: string
  ui_member :: nat

definition group_members :: "buffer \<Rightarrow> group \<Rightarrow> (nat \<times> (raw_edit \<times> string \<times> string) list) list" where
  "group_members b g =
     map (\<lambda>e. (le_rev e, map (\<lambda>(i, ed). (raw_of ed, deleted_at (le_deleted e) i, e_insert ed)) (enumerate 0 (le_edits e))))
       (takeWhile (\<lambda>e. le_rev e \<le> snd g) (log_after (fst g - 1) (b_log b)))"

definition through_red :: "buffer \<Rightarrow> origin \<Rightarrow> undo_item list \<Rightarrow> red \<Rightarrow> (failure, undo_item list) result" where
  "through_red b lane items r =
     try_map (\<lambda>it. and_then (map_err (\<lambda>_. undo_conflict b lane (Some (rd_entry r)))
         (transform_raws (ui_range it) (rd_edits r) ThroughFirst)) (\<lambda>rg. Inr (it\<lparr>ui_range := rg\<rparr>))) items"

fun overlap_free :: "nat \<Rightarrow> range list \<Rightarrow> bool" where
  "overlap_free max_e [] = True"
| "overlap_free max_e (r # rs) =
     (\<not> fst r < max_e \<and> overlap_free (if fst r < snd r then snd r else max_e) rs)"

definition check_expect :: "buffer \<Rightarrow> origin \<Rightarrow> undo_item \<Rightarrow> (failure, unit) result" where
  "check_expect b lane it =
     and_then (returns (text_read (b_text b) (ui_range it) [])) (\<lambda>buf.
     if buf \<noteq> ui_expect it then Inl (undo_conflict b lane None) else Inr ())"

definition compose_inverse :: "buffer \<Rightarrow> group \<Rightarrow> origin \<Rightarrow> (failure, undo_item list) result" where
  "compose_inverse b g lane =
     (if fst g \<le> oldest_rev (b_log b)
      then Inl (Refuse (with_context (conflict b ''history_trimmed'') ''oldest_rev'' (WNum (oldest_rev (b_log b)))))
      else
        and_then (map_err (\<lambda>(member, rev'). undo_conflict b lane (buffer_entry b rev'))
            (compose_members (group_members b g))) (\<lambda>composed.
        let items = map (\<lambda>c. \<lparr>ui_range = cp_range c, ui_restore = fst (cp_payload c), ui_expect = snd (cp_payload c),
              ui_member = cp_member c\<rparr>) composed in
        and_then (try_fold (through_red b lane) items (reduced_after b (snd g))) (\<lambda>items.
        if \<not> overlap_free 0 (map ui_range items) then Inl (undo_conflict b lane None)
        else and_then (try_map (check_expect b lane) items) (\<lambda>_. Inr items))))"

definition undo_plan :: "buffer \<Rightarrow> lane_sel \<Rightarrow> origin \<Rightarrow> bool \<Rightarrow> (failure, origin \<times> group \<times> resolved list) result" where
  "undo_plan b sel caller redo =
     and_then (pick_lane b sel caller redo) (\<lambda>lane.
     and_then (ok_or Panic (lane_top b redo lane)) (\<lambda>g.
     and_then (compose_inverse b g lane) (\<lambda>items.
     Inr (lane, g, map (\<lambda>(idx, it). \<lparr>r_s = fst (ui_range it), r_e = snd (ui_range it), r_text = ui_restore it, r_idx = idx\<rparr>)
       (enumerate 0 items)))))"

definition undo_redo ::
  "host \<Rightarrow> lane_sel \<Rightarrow> origin \<Rightarrow> via \<Rightarrow> nat \<Rightarrow> bool \<Rightarrow> string option \<Rightarrow> buffer \<Rightarrow> (failure, applied) result \<times> buffer" where
  "undo_redo h sel caller via now_ms redo op_id b =
     (case undo_plan b sel caller redo of
        Inl f \<Rightarrow> (Inl f, b)
      | Inr (lane, g, items) \<Rightarrow>
          commit_txn h items
            \<lparr>c_origin = caller, c_lane = lane, c_kind = (if redo then RedoEntry g else UndoEntry g), c_via = via,
             c_now_ms = now_ms, c_op_id = op_id, c_coalesce = False, c_cursor = None, c_rebased = False\<rparr> b)"

definition buffer_undo :: "host \<Rightarrow> lane_sel \<Rightarrow> origin \<Rightarrow> via \<Rightarrow> nat \<Rightarrow> buffer \<Rightarrow> (failure, applied) result \<times> buffer" where
  "buffer_undo h lane caller via now_ms b = undo_redo h lane caller via now_ms False None b"

definition buffer_redo :: "host \<Rightarrow> lane_sel \<Rightarrow> origin \<Rightarrow> via \<Rightarrow> nat \<Rightarrow> buffer \<Rightarrow> (failure, applied) result \<times> buffer" where
  "buffer_redo h lane caller via now_ms b = undo_redo h lane caller via now_ms True None b"

definition undo_cost :: "buffer \<Rightarrow> lane_sel \<Rightarrow> origin \<Rightarrow> bool \<Rightarrow> (failure, nat) result" where
  "undo_cost b lane caller redo = and_then (undo_plan b lane caller redo) (\<lambda>(_, _, items). cost_of b items)"

end
