(* ===== verification/Edit_Session.thy ===== *)
theory Edit_Session
  imports Edit_Undo
begin

text \<open>
  Correctness of undo and redo.  In general: a failed undo leaves the buffer as it was, a
  successful one is a commit that keeps the invariant.  For one origin that edits, undoes and
  redoes without interleaved edits of others and without coalescing, the buffer refines the
  textbook undo machine: a stack of earlier texts, the current text, a stack of undone texts.
\<close>

section \<open>Well-formed inverse items\<close>

definition item_wf :: "('p \<Rightarrow> bool) \<Rightarrow> 'p composed \<Rightarrow> bool" where
  "item_wf Q c \<longleftrightarrow> fst (cp_range c) \<le> snd (cp_range c) \<and> Q (cp_payload c)"

lemma transform_raw_ordered:
  "transform_raw r th prio = Inr (r', left) \<Longrightarrow> fst r \<le> snd r \<Longrightarrow> fst r' \<le> snd r'"
  by (erule (1) transform_raw_cases) auto

lemma through_sides_ordered:
  "through_sides r eds = Inr (r', sides) \<Longrightarrow> fst r \<le> snd r \<Longrightarrow> fst r' \<le> snd r'"
  by (induction eds arbitrary: r sides) (auto simp: result_simps dest: transform_raw_ordered)

lemma shift_item_wf: "shift_item rv eds it = Inr (it', sides) \<Longrightarrow> item_wf Q it \<Longrightarrow> item_wf Q it'"
  by (auto simp: shift_item_def item_wf_def result_simps elim!: map_err.elims dest: through_sides_ordered)

lemma shift_through_ordered: "fst r \<le> snd r \<Longrightarrow> fst (shift_through r es) \<le> snd (shift_through r es)"
proof (induction es arbitrary: r)
  case (Cons e es)
  show ?case
  proof (cases "transform_raw r e ThroughFirst")
    case (Inl o')
    then show ?thesis using Cons by (cases o') simp
  next
    case (Inr x)
    obtain r' left where x: "x = (r', left)" by (cases x)
    then have "fst r' \<le> snd r'" using transform_raw_ordered Inr Cons.prems by blast
    then show ?thesis using Cons.IH Inr x by simp
  qed
qed simp

lemma post_ranges_raw_ordered: "r \<in> set (post_ranges_raw es) \<Longrightarrow> fst r \<le> snd r"
  by (induction es) (auto simp: shift_through_ordered)

lemma member_items_wf:
  assumes "\<forall>p\<in>snd ` set edits. Q p"
  shows "\<forall>c\<in>snd ` set (member_items rv edits). item_wf Q c"
proof
  fix c
  assume "c \<in> snd ` set (member_items rv edits)"
  then have "c \<in> set (map (\<lambda>(r, p). \<lparr>cp_range = r, cp_payload = p, cp_member = rv\<rparr>)
      (zip (post_ranges_raw (map fst edits)) (map snd edits)))"
    unfolding member_items_def using enumerate_snd by (metis (no_types, lifting) imageE set_rev)
  then obtain r p where c: "c = \<lparr>cp_range = r, cp_payload = p, cp_member = rv\<rparr>"
    and z: "(r, p) \<in> set (zip (post_ranges_raw (map fst edits)) (map snd edits))" by auto
  then show "item_wf Q c"
    using assms post_ranges_raw_ordered [OF set_zip_leftD [OF z]] set_zip_rightD [OF z] by (auto simp: item_wf_def)
qed

lemma merge_items_set:
  "merge_items rv olds news = Inr items \<Longrightarrow> set items \<subseteq> fst ` set olds \<union> snd ` set news"
proof (induction rv olds news arbitrary: items rule: merge_items.induct)
  case (3 rv old olds new news)
  then obtain tn where tn: "take_new rv old new = Inr tn" by (auto simp: result_simps)
  show ?case
  proof (cases tn)
    case True
    then obtain rest where rest: "merge_items rv (old # olds) news = Inr rest" "items = snd new # rest"
      using 3(3) tn by (auto simp: result_simps)
    then show ?thesis using 3(1) [OF True rest(1)] by auto
  next
    case False
    then obtain rest where rest: "merge_items rv olds (new # news) = Inr rest" "items = fst old # rest"
      using 3(3) tn by (auto simp: result_simps)
    then show ?thesis using 3(2) [OF False rest(1)] by auto
  qed
qed auto

lemma compose_members_wf:
  assumes "compose_members ms = Inr items" and "\<forall>m\<in>set ms. \<forall>p\<in>snd ` set (snd m). Q p"
  shows "list_all (item_wf Q) items"
proof -
  have step: "list_all (item_wf Q) b"
    if wf: "list_all (item_wf Q) a" and run: "compose_member a m = Inr b" and pl: "\<forall>p\<in>snd ` set (snd m). Q p" for a m b
  proof -
    obtain rv edits where m: "m = (rv, edits)" by (cases m)
    obtain olds where olds: "try_map (shift_item rv (map fst edits)) a = Inr olds"
      "merge_items rv olds (member_items rv edits) = Inr b"
      using run by (auto simp: compose_member_def m result_simps)
    have "(\<forall>ys. try_map (shift_item rv (map fst edits)) a = Inr ys \<longrightarrow> list_all (\<lambda>y. item_wf Q (fst y)) ys)
        \<and> (\<forall>e. try_map (shift_item rv (map fst edits)) a = Inl e \<longrightarrow> True)"
      using wf by (intro try_map_all) (auto simp: list_all_iff dest: shift_item_wf)
    then have "\<forall>c\<in>fst ` set olds. item_wf Q c" using olds(1) by (auto simp: list_all_iff)
    moreover have "\<forall>c\<in>snd ` set (member_items rv edits). item_wf Q c"
      using member_items_wf pl m by simp
    ultimately show ?thesis using merge_items_set [OF olds(2)] by (auto simp: list_all_iff)
  qed
  have "list_all (item_wf Q) items" if "try_fold compose_member acc ms = Inr items" "list_all (item_wf Q) acc"
    "\<forall>m\<in>set ms. \<forall>p\<in>snd ` set (snd m). Q p" for acc
    using that
  proof (induction ms arbitrary: acc)
    case (Cons m ms)
    then obtain a where "compose_member acc m = Inr a" "try_fold compose_member a ms = Inr items"
      by (auto simp: result_simps)
    then show ?case using Cons step [of acc m a] by simp
  qed simp
  then show ?thesis using assms by (simp add: compose_members_def)
qed

lemma transform_raws_ordered:
  assumes "transform_raws r eds prio = Inr r'" and "fst r \<le> snd r"
  shows "fst r' \<le> snd r'"
  using assms(1) unfolding transform_raws_def
proof (rule try_fold_invariant [where I = "\<lambda>r. fst r \<le> snd r"])
  show "fst b \<le> snd b" if "fst a \<le> snd a" "and_then (transform_raw a x prio) (\<lambda>x. Inr (fst x)) = Inr b" for a x b
    using that transform_raw_ordered by (cases "transform_raw a x prio") (simp, metis and_then.simps(2) prod.collapse sum.inject(2))
qed (rule assms(2))

definition undo_wf :: "undo_item \<Rightarrow> bool" where
  "undo_wf it \<longleftrightarrow> fst (ui_range it) \<le> snd (ui_range it) \<and> from_utf8 (ui_restore it)"

lemma through_red_wf:
  assumes "list_all undo_wf items" and "through_red b lane items r = Inr items'"
  shows "list_all undo_wf items'"
proof -
  have "(\<forall>ys. through_red b lane items r = Inr ys \<longrightarrow> list_all undo_wf ys)
      \<and> (\<forall>e. through_red b lane items r = Inl e \<longrightarrow> True)"
    unfolding through_red_def
  proof (rule try_map_all)
    fix it
    assume "it \<in> set items"
    then have wf: "fst (ui_range it) \<le> snd (ui_range it)" "from_utf8 (ui_restore it)"
      using assms(1) by (auto simp: list_all_iff undo_wf_def)
    show "(\<forall>y. and_then (map_err (\<lambda>_. undo_conflict b lane (Some (rd_entry r)))
         (transform_raws (ui_range it) (rd_edits r) ThroughFirst)) (\<lambda>rg. Inr (it\<lparr>ui_range := rg\<rparr>)) = Inr y \<longrightarrow> undo_wf y)
      \<and> (\<forall>e. and_then (map_err (\<lambda>_. undo_conflict b lane (Some (rd_entry r)))
         (transform_raws (ui_range it) (rd_edits r) ThroughFirst)) (\<lambda>rg. Inr (it\<lparr>ui_range := rg\<rparr>)) = Inl e \<longrightarrow> True)"
      using wf transform_raws_ordered [OF _ wf(1)]
      by (cases "transform_raws (ui_range it) (rd_edits r) ThroughFirst") (auto simp: undo_wf_def)
  qed
  then show ?thesis using assms(2) by simp
qed

lemma log_entries_utf8:
  assumes "buffer_inv b" and "e \<in> set (ol_entries (b_log b))"
  shows "from_utf8 (deleted_at (le_deleted e) i)"
proof -
  obtain s0 where s0: "from_utf8 s0" "replays s0 (ol_entries (b_log b)) (content b)"
    using buffer_invD(3) [OF assms(1)] by (auto simp: history_ok_def)
  obtain pre post where "ol_entries (b_log b) = pre @ e # post" using split_list [OF assms(2)] by blast
  then obtain s where s: "replays s0 pre s" "entry_ok s e" using s0(2) by (auto simp: replays_append)
  have "from_utf8 s" by (rule replays_utf8 [OF s(1) s0(1)])
  then show ?thesis
    using s(2) slice_from_utf8 by (auto simp: deleted_at_def entry_ok_def deleted_texts_def list_all_iff)
qed

lemma log_after_subset: "set (log_after r log) \<subseteq> set (ol_entries log)"
  by (simp add: log_after_def Let_def set_drop_subset)

lemma group_members_utf8:
  assumes "buffer_inv b"
  shows "\<forall>m\<in>set (group_members b g). \<forall>p\<in>snd ` set (snd m). from_utf8 (fst p)"
  using log_entries_utf8 [OF assms] log_after_subset
  by (fastforce simp: group_members_def dest!: set_takeWhileD)

lemma compose_inverse_wf:
  assumes "buffer_inv b" and "compose_inverse b g lane = Inr items"
  shows "list_all undo_wf items"
proof -
  obtain composed where c: "compose_members (group_members b g) = Inr composed"
    and f: "try_fold (through_red b lane) (map (\<lambda>c. \<lparr>ui_range = cp_range c, ui_restore = fst (cp_payload c),
         ui_expect = snd (cp_payload c), ui_member = cp_member c\<rparr>) composed) (reduced_after b (snd g)) = Inr items"
    using assms(2) by (auto simp: compose_inverse_def result_simps Let_def split: if_splits elim!: map_err.elims)
  have "list_all (item_wf (\<lambda>p. from_utf8 (fst p))) composed"
    by (rule compose_members_wf [OF c group_members_utf8 [OF assms(1)]])
  then have "list_all undo_wf (map (\<lambda>c. \<lparr>ui_range = cp_range c, ui_restore = fst (cp_payload c),
      ui_expect = snd (cp_payload c), ui_member = cp_member c\<rparr>) composed)"
    by (auto simp: list_all_iff item_wf_def undo_wf_def)
  then show ?thesis
    by (rule try_fold_invariant [where I = "list_all undo_wf", OF f]) (rule through_red_wf)
qed

section \<open>Undo in general\<close>

text \<open>Items whose sequence phase 1 accepted lie on char boundaries.\<close>

lemma planned_items_ok:
  assumes "buffer_inv b" and "commit_plan b items c = Inr x"
    and "list_all (\<lambda>r. r_s r \<le> r_e r \<and> from_utf8 (r_text r)) items"
  shows "list_all (item_ok b) items"
proof -
  let ?seq = "map resolved_edit (canonical_order items)"
  obtain sim where sim: "simulate (b_text b) ?seq = Inr sim"
    using assms(2) by (auto simp: commit_plan_def result_simps refuse_def Let_def elim!: map_err.elims)
  have ord: "list_all (\<lambda>r. r_s r \<le> r_e r \<and> from_utf8 (r_text r)) (canonical_order items)"
    using assms(3) canonical_order_items by blast
  then have "list_all (\<lambda>e. from_utf8 (e_insert e)) ?seq" by (auto simp: list_all_iff resolved_edit_def)
  then have "sequence_ok (content b) ?seq"
    using simulate_sequence_ok(1) [OF buffer_invD(1) [OF assms(1)] _ sim] by blast
  then have "list_all (item_ok b) (canonical_order items)"
    using ord by (auto simp: sequence_ok_def list_all_iff item_ok_def range_ok_def resolved_edit_def)
  then show ?thesis by (simp add: canonical_order_items)
qed

lemma commit_txn_any:
  assumes "buffer_inv b" and "list_all (\<lambda>r. r_s r \<le> r_e r \<and> from_utf8 (r_text r)) items"
    and "commit_txn h items c b = (res, b')"
  shows "buffer_inv b' \<and> (case res of
      Inl f \<Rightarrow> unchanged b b'
    | Inr ap \<Rightarrow> committed b items c ap b' \<and> list_all (item_ok b) items)"
proof (cases "commit_plan b items c")
  case (Inl f)
  then show ?thesis using assms by (auto simp: commit_txn_def)
next
  case (Inr x)
  have "list_all (item_ok b) items" by (rule planned_items_ok [OF assms(1) Inr assms(2)])
  then show ?thesis using commit_txn_spec [OF assms(1) _ assms(3)] by (auto split: sum.splits)
qed

lemma check_expect_all:
  "try_map (check_expect b lane) items = Inr us \<Longrightarrow>
     list_all (\<lambda>it. text_read (b_text b) (ui_range it) [] = Some (ui_expect it)) items"
  by (induction items arbitrary: us)
    (auto simp: check_expect_def result_simps returns_def split: if_splits elim!: ok_or.elims)

lemma undo_plan_parts:
  assumes "undo_plan b sel caller redo = Inr (lane, g, rs)"
  obtains items where "pick_lane b sel caller redo = Inr lane" "lane_top b redo lane = Some g"
    "compose_inverse b g lane = Inr items"
    "rs = map (\<lambda>(idx, it). \<lparr>r_s = fst (ui_range it), r_e = snd (ui_range it), r_text = ui_restore it, r_idx = idx\<rparr>)
       (enumerate 0 items)"
  using assms by (auto simp: undo_plan_def result_simps elim!: ok_or.elims)

lemma undo_redo_spec:
  assumes "buffer_inv b" and "undo_redo h sel caller via now redo op b = (res, b')"
  shows "buffer_inv b' \<and> (case res of
      Inl f \<Rightarrow> unchanged b b'
    | Inr ap \<Rightarrow> \<exists>lane g items rs c. undo_plan b sel caller redo = Inr (lane, g, rs)
        \<and> compose_inverse b g lane = Inr items \<and> lane_top b redo lane = Some g
        \<and> committed b rs c ap b' \<and> list_all (item_ok b) rs
        \<and> c_lane c = lane \<and> c_origin c = caller \<and> c_kind c = (if redo then RedoEntry g else UndoEntry g)
        \<and> \<not> c_coalesce c)"
proof (cases "undo_plan b sel caller redo")
  case (Inl f)
  then show ?thesis using assms by (auto simp: undo_redo_def)
next
  case (Inr x)
  obtain lane g rs where x: "x = (lane, g, rs)" by (cases x)
  from undo_plan_parts [OF Inr [unfolded x]] obtain items where items: "lane_top b redo lane = Some g"
    "compose_inverse b g lane = Inr items"
    "rs = map (\<lambda>(idx, it). \<lparr>r_s = fst (ui_range it), r_e = snd (ui_range it), r_text = ui_restore it, r_idx = idx\<rparr>)
       (enumerate 0 items)" .
  define c where "c = \<lparr>c_origin = caller, c_lane = lane, c_kind = (if redo then RedoEntry g else UndoEntry g), c_via = via,
             c_now_ms = now, c_op_id = op, c_coalesce = False, c_cursor = None, c_rebased = False\<rparr>"
  have run: "commit_txn h rs c b = (res, b')" using assms(2) Inr x by (simp add: undo_redo_def c_def)
  have "list_all (\<lambda>r. r_s r \<le> r_e r \<and> from_utf8 (r_text r)) rs"
    using compose_inverse_wf [OF assms(1) items(2)] enumerate_snd
    unfolding items(3) by (fastforce simp: list_all_iff undo_wf_def)
  note any = commit_txn_any [OF assms(1) this run]
  show ?thesis
  proof (cases res)
    case (Inr ap)
    have "c_lane c = lane \<and> c_origin c = caller \<and> c_kind c = (if redo then RedoEntry g else UndoEntry g) \<and> \<not> c_coalesce c"
      by (simp add: c_def)
    then show ?thesis using any Inr items \<open>undo_plan b sel caller redo = Inr x\<close> x by auto
  qed (use any in simp)
qed

section \<open>Undoing the newest entry\<close>

lemma boundary_append:
  assumes "boundary a off" and "from_utf8 r"
  shows "boundary (a @ r) off"
proof (cases "off = length a")
  case True
  then show ?thesis using split_boundary [OF assms(2), of a] by simp
next
  case False
  then have "off < length a" using boundary_le [OF assms(1)] by simp
  then show ?thesis using assms(1) by (simp add: boundary_def nth_append)
qed

text \<open>The spans an entry left in the text start and end on char boundaries.\<close>

lemma post_ranges_boundary:
  assumes "from_utf8 t" and "canonical_from b es" and "boundary t b"
    and "list_all (\<lambda>e. boundary t (e_offset e) \<and> boundary t (e_offset e + e_delete e) \<and> from_utf8 (e_insert e)) es"
  shows "from_utf8 (apply_edits (take b t) es)
    \<and> (\<forall>r\<in>set (post_ranges es). boundary (apply_edits (take b t) es) (fst r) \<and> boundary (apply_edits (take b t) es) (snd r))"
  using assms(2-)
proof (induction es arbitrary: b)
  case Nil
  then show ?case using boundary_split [OF assms(1)] by (simp add: post_ranges_def)
next
  case (Cons e es)
  let ?P = "apply_edits (take (e_offset e) t) es" and ?D = "drop (e_offset e + e_delete e) (take b t)"
  have off: "e_offset e + e_delete e \<le> b" "canonical_from (e_offset e) es" using Cons.prems by auto
  have bl: "b \<le> length t" using Cons.prems(2) by (rule boundary_le)
  have eq: "apply_edits (take b t) (e # es) = ?P @ e_insert e @ ?D"
    using canonical_Cons [of b e es "take b t"] Cons.prems off bl by (simp add: min_def)
  have IH: "from_utf8 ?P" "\<forall>r\<in>set (post_ranges es). boundary ?P (fst r) \<and> boundary ?P (snd r)"
    using Cons.IH [OF off(2)] Cons.prems by auto
  have D: "from_utf8 ?D"
    using slice_from_utf8 [OF assms(1), of "e_offset e + e_delete e" b] Cons.prems off by (simp add: slice_def drop_take)
  have tail: "from_utf8 (e_insert e @ ?D)" using D Cons.prems by auto
  have "boundary (?P @ e_insert e @ ?D) (length ?P)" by (rule split_boundary [OF tail])
  moreover have "boundary (?P @ e_insert e @ ?D) (length ?P + length (e_insert e))"
    using split_boundary [OF D, of "?P @ e_insert e"] by simp
  ultimately show ?case
    using post_ranges_Cons [OF Cons.prems(1) bl] IH tail boundary_append unfolding eq by auto
qed

definition exact_items :: "string \<Rightarrow> log_entry \<Rightarrow> undo_item list" where
  "exact_items u e = map (\<lambda>(rg, ed). \<lparr>ui_range = rg, ui_restore = slice u (e_offset ed) (e_offset ed + e_delete ed),
     ui_expect = e_insert ed, ui_member = le_rev e\<rparr>) (rev (zip (post_ranges (le_edits e)) (le_edits e)))"

lemma compose_single:
  "compose_members [(rv, edits)] = Inr (rev (map (\<lambda>(r, p). \<lparr>cp_range = r, cp_payload = p, cp_member = rv\<rparr>)
     (zip (post_ranges_raw (map fst edits)) (map snd edits))))"
  by (simp add: compose_members_def compose_member_def member_items_def flip: rev_map)

lemma entry_payloads:
  assumes "le_deleted e = deleted_texts u (le_edits e)"
  shows "map (\<lambda>(i, ed). (raw_of ed, deleted_at (le_deleted e) i, e_insert ed)) (enumerate 0 (le_edits e)) =
     map (\<lambda>ed. (raw_of ed, slice u (e_offset ed) (e_offset ed + e_delete ed), e_insert ed)) (le_edits e)"
  using assms by (intro nth_equalityI) (simp_all add: nth_enumerate_eq deleted_at_def deleted_texts_def)

lemma reading_overlap_free:
  assumes "reading_from pos es" and "m \<le> pos"
  shows "overlap_free m (map (\<lambda>e. (e_offset e, e_offset e + e_delete e)) es)"
  using assms by (induction es arbitrary: pos m) auto

lemma inverse_ranges:
  assumes "canonical_from (length u) (le_edits e)"
  shows "map ui_range (exact_items u e) = map (\<lambda>e. (e_offset e, e_offset e + e_delete e)) (inverse_edits u (le_edits e))"
proof -
  have "(fst (post_ranges (le_edits e) ! i), snd (post_ranges (le_edits e) ! i)) = post_ranges (le_edits e) ! i
      \<and> fst (post_ranges (le_edits e) ! i) \<le> snd (post_ranges (le_edits e) ! i)" if "i < length (le_edits e)" for i
    using post_ranges_text [OF assms order_refl that] by simp
  then have "map fst (zip (post_ranges (le_edits e)) (le_edits e)) =
      map (\<lambda>x. (e_offset x, e_offset x + e_delete x)) (map item_edit (zip (post_ranges (le_edits e)) (deleted_texts u (le_edits e))))"
    by (intro nth_equalityI) (simp_all add: item_edit_def deleted_texts_def)
  then show ?thesis
    by (simp add: exact_items_def inverse_edits_def comp_def split_beta rev_map [symmetric])
qed

lemma exact_items_expected:
  assumes "text_inv t" and "entry_ok u e" and "from_utf8 u" and "text_bytes t = apply_edits u (le_edits e)"
    and "it \<in> set (exact_items u e)"
  shows "text_read t (ui_range it) [] = Some (ui_expect it)"
proof -
  have ok: "canonical_from (length u) (le_edits e)"
    "list_all (\<lambda>x. boundary u (e_offset x) \<and> boundary u (e_offset x + e_delete x) \<and> from_utf8 (e_insert x)) (le_edits e)"
    using assms(2) by (simp_all add: entry_ok_def)
  obtain i where i: "i < length (le_edits e)" "ui_range it = post_ranges (le_edits e) ! i" "ui_expect it = e_insert (le_edits e ! i)"
    using assms(5) by (auto simp: exact_items_def set_zip)
  have "post_ranges (le_edits e) ! i \<in> set (post_ranges (le_edits e))" using i by simp
  then have "boundary (text_bytes t) (fst (ui_range it))" "boundary (text_bytes t) (snd (ui_range it))"
    using post_ranges_boundary [OF assms(3) ok(1) boundary_ends(1) ok(2)] i assms(4) by auto
  then show ?thesis
    using text_read_slice [OF assms(1), of "fst (ui_range it)" "snd (ui_range it)" "[]"]
      post_ranges_text [OF ok(1) order_refl i(1)] i assms(4) by simp
qed

lemma compose_inverse_exact:
  assumes "buffer_inv b" and "oldest_rev (b_log b) < le_rev e" and "entry_ok u e" and "from_utf8 u"
    and "content b = apply_edits u (le_edits e)" and "reduced_after b (le_rev e) = []"
    and "takeWhile (\<lambda>x. le_rev x \<le> le_rev e) (log_after (le_rev e - 1) (b_log b)) = [e]"
  shows "compose_inverse b (le_rev e, le_rev e) lane = Inr (exact_items u e)"
proof -
  have ok: "canonical_from (length u) (le_edits e)" "le_deleted e = deleted_texts u (le_edits e)"
    using assms(3) by (simp_all add: entry_ok_def)
  define cs where "cs = rev (map (\<lambda>(r, p). \<lparr>cp_range = r, cp_payload = p, cp_member = le_rev e\<rparr>)
      (zip (post_ranges (le_edits e)) (map (\<lambda>ed. (slice u (e_offset ed) (e_offset ed + e_delete ed), e_insert ed)) (le_edits e))))"
  have "compose_members (group_members b (le_rev e, le_rev e)) = Inr cs"
    using assms(7) by (simp add: group_members_def entry_payloads [OF ok(2)] compose_single post_ranges_def comp_def cs_def)
  moreover have "map (\<lambda>c. \<lparr>ui_range = cp_range c, ui_restore = fst (cp_payload c), ui_expect = snd (cp_payload c), ui_member = cp_member c\<rparr>) cs
      = exact_items u e"
    by (simp add: cs_def exact_items_def rev_map zip_map2 split_beta comp_def)
  moreover have "overlap_free 0 (map ui_range (exact_items u e))"
    unfolding inverse_ranges [OF ok(1)]
    using invert_restores_prefix [OF ok(1) order_refl] reading_overlap_free by blast
  moreover have "try_map (check_expect b lane) (exact_items u e) = Inr (map (\<lambda>_. ()) (exact_items u e))"
    using exact_items_expected [OF buffer_invD(1) [OF assms(1)] assms(3-5)]
    by (intro try_map_eq_InrI) (simp add: check_expect_def returns_def)
  ultimately show ?thesis
    using assms(2,6) unfolding compose_inverse_def by (simp add: Let_def del: map_map)
qed

definition undo_resolved :: "undo_item list \<Rightarrow> resolved list" where
  "undo_resolved items = map (\<lambda>(idx, it). \<lparr>r_s = fst (ui_range it), r_e = snd (ui_range it), r_text = ui_restore it, r_idx = idx\<rparr>)
     (enumerate 0 items)"

lemma canonical_cmp_reading:
  "s \<le> e \<Longrightarrow> e \<le> s' \<Longrightarrow> i < j \<Longrightarrow> canonical_cmp (s, e, i) (s', e', j) = Greater"
  by (auto simp: canonical_cmp_def nat_cmp_def bool_cmp_def)

lemma length_exact_items [simp]: "length (exact_items u e) = length (le_edits e)"
  by (simp add: exact_items_def)

lemma undo_sequence:
  assumes "canonical_from (length u) (le_edits e)"
  shows "map resolved_edit (canonical_order (undo_resolved (exact_items u e))) = rev (inverse_edits u (le_edits e))"
proof -
  let ?items = "exact_items u e" and ?inv = "inverse_edits u (le_edits e)"
  have len: "length ?inv = length ?items" by (simp add: inverse_edits_def deleted_texts_def)
  have rg: "ui_range (?items ! i) = (e_offset (?inv ! i), e_offset (?inv ! i) + e_delete (?inv ! i))"
    if "i < length ?items" for i
    using arg_cong [OF inverse_ranges [OF assms], of "\<lambda>l. l ! i"] that len by simp
  have "sorted_wrt (\<lambda>x y. e_offset x + e_delete x \<le> e_offset y) ?inv"
    using invert_restores_prefix [OF assms order_refl] by (auto simp: reading_from_iff)
  then have "sorted_wrt (\<lambda>a b. canonical_cmp (r_s a, r_e a, r_idx a) (r_s b, r_e b, r_idx b) = Greater) (undo_resolved ?items)"
    unfolding sorted_wrt_iff_nth_less
    by (auto simp: undo_resolved_def nth_enumerate_eq rg len intro!: canonical_cmp_reading)
  then have "canonical_order (undo_resolved ?items) = rev (undo_resolved ?items)"
    unfolding canonical_order_def by (rule sort_by_descending)
  moreover have "map resolved_edit (undo_resolved ?items) = ?inv"
  proof (rule nth_equalityI)
    fix i
    assume "i < length (map resolved_edit (undo_resolved ?items))"
    then have i: "i < length (le_edits e)" by (simp add: undo_resolved_def)
    then have "ui_restore (?items ! i) = e_insert (?inv ! i)"
      by (simp add: exact_items_def inverse_edits_def rev_nth deleted_texts_def item_edit_def)
    then show "map resolved_edit (undo_resolved ?items) ! i = ?inv ! i"
      using rg [of i] i by (simp add: undo_resolved_def nth_enumerate_eq resolved_edit_def)
  qed (simp add: undo_resolved_def len)
  ultimately show ?thesis by (simp flip: rev_map)
qed

section \<open>The textbook undo machine\<close>

text \<open>Earlier texts and undone texts, newest first, around the current text.\<close>

record undo_machine =
  um_past :: "string list"
  um_now :: string
  um_future :: "string list"

definition um_edit :: "string \<Rightarrow> undo_machine \<Rightarrow> undo_machine" where
  "um_edit t m = \<lparr>um_past = um_now m # um_past m, um_now = t, um_future = []\<rparr>"

definition um_undo :: "undo_machine \<Rightarrow> undo_machine option" where
  "um_undo m = (case um_past m of
      [] \<Rightarrow> None
    | t # past \<Rightarrow> Some \<lparr>um_past = past, um_now = t, um_future = um_now m # um_future m\<rparr>)"

definition um_redo :: "undo_machine \<Rightarrow> undo_machine option" where
  "um_redo m = (case um_future m of
      [] \<Rightarrow> None
    | t # future \<Rightarrow> Some \<lparr>um_past = um_now m # um_past m, um_now = t, um_future = future\<rparr>)"

text \<open>A stack of texts is realised by log entries: the newest leads from the first text to the current
  one, and so on down.\<close>

fun chain :: "string list \<Rightarrow> log_entry list \<Rightarrow> string \<Rightarrow> bool" where
  "chain [] [] t = True"
| "chain (u # us) (e # es) t = (from_utf8 u \<and> entry_ok u e \<and> apply_edits u (le_edits e) = t \<and> chain us es u)"
| "chain _ _ t = False"

definition entries_after :: "buffer \<Rightarrow> nat \<Rightarrow> log_entry list" where
  "entries_after b r = filter (\<lambda>e. r < le_rev e) (ol_entries (b_log b))"

text \<open>What an undo of an entry of the stack is transformed through: exactly the entries above it.\<close>

definition stack_reduces :: "buffer \<Rightarrow> log_entry list \<Rightarrow> bool" where
  "stack_reduces b es \<longleftrightarrow> (\<forall>above e below. es = above @ e # below \<longrightarrow>
     foldl reduce_step [] (entries_after b (le_rev e)) = map raw_red (rev above))"

definition stack_groups :: "log_entry list \<Rightarrow> group list" where
  "stack_groups es = rev (map (\<lambda>e. (le_rev e, le_rev e)) es)"

text \<open>The refinement relation seen from the stack an operation takes from (\<open>xs\<close>: the past for an undo, the
  future for a redo) and the one it gives to (\<open>ys\<close>).\<close>

definition refines_dir ::
  "origin \<Rightarrow> buffer \<Rightarrow> bool \<Rightarrow> string list \<Rightarrow> string list \<Rightarrow> log_entry list \<Rightarrow> log_entry list \<Rightarrow> bool" where
  "refines_dir who b redo xs ys xe ye \<longleftrightarrow> chain xs xe (content b) \<and> chain ys ye (content b)
     \<and> lane_of b who = (if redo then \<lparr>l_undo = stack_groups ye, l_redo = stack_groups xe\<rparr>
                        else \<lparr>l_undo = stack_groups xe, l_redo = stack_groups ye\<rparr>)
     \<and> set (xe @ ye) \<subseteq> set (ol_entries (b_log b)) \<and> distinct (map le_rev (xe @ ye))
     \<and> stack_reduces b xe \<and> stack_reduces b ye"

definition refines :: "origin \<Rightarrow> buffer \<Rightarrow> undo_machine \<Rightarrow> bool" where
  "refines who b m \<longleftrightarrow> content b = um_now m \<and> (\<exists>ue re. refines_dir who b False (um_past m) (um_future m) ue re)"

lemma refines_dir_swap: "refines_dir who b redo xs ys xe ye \<longleftrightarrow> refines_dir who b (\<not> redo) ys xs ye xe"
  unfolding refines_dir_def by auto

lemma log_window:
  assumes "buffer_inv b" and "b_rev b < u64_max" and "e \<in> set (ol_entries (b_log b))"
  shows "takeWhile (\<lambda>x. le_rev x \<le> le_rev e) (log_after (le_rev e - 1) (b_log b)) = [e]"
    and "oldest_rev (b_log b) < le_rev e" and "le_rev e \<le> b_rev b"
    and "reduced_after b (le_rev e) = foldl reduce_step [] (entries_after b (le_rev e))"
proof -
  note inv = buffer_invD(2) [OF assms(1)]
  have revs: "map le_rev (ol_entries (b_log b)) = [Suc (ol_base (b_log b))..<Suc (b_rev b)]"
    using inv by (simp add: log_inv_defs)
  have "le_rev e \<in> set [Suc (ol_base (b_log b))..<Suc (b_rev b)]" using assms(3) unfolding revs [symmetric] by simp
  then have range: "ol_base (b_log b) < le_rev e" "le_rev e \<le> b_rev b" by auto
  then show "oldest_rev (b_log b) < le_rev e" "le_rev e \<le> b_rev b" by (simp_all add: oldest_rev_def)
  obtain pre post where es: "ol_entries (b_log b) = pre @ e # post" using split_list [OF assms(3)] by blast
  have "sorted_wrt (<) (map le_rev (ol_entries (b_log b)))" unfolding revs by (rule sorted_wrt_upt)
  then have ord: "\<forall>x\<in>set pre. le_rev x < le_rev e" "\<forall>x\<in>set post. le_rev e < le_rev x"
    unfolding es by (auto simp: sorted_wrt_append sorted_wrt_map)
  have "filter (\<lambda>x. le_rev e - 1 < le_rev x) pre = []" using ord(1) by (auto simp: filter_empty_conv)
  moreover have "filter (\<lambda>x. le_rev e - 1 < le_rev x) post = post" using ord(2) by (auto simp: filter_id_conv)
  moreover have "0 < le_rev e" using range(1) by simp
  ultimately have "log_after (le_rev e - 1) (b_log b) = e # post"
    using log_after_filter [OF inv assms(2), of "le_rev e - 1"] range(2) by (simp add: es)
  moreover have "takeWhile (\<lambda>x. le_rev x \<le> le_rev e) post = []" using ord(2) by (cases post) auto
  ultimately show "takeWhile (\<lambda>x. le_rev x \<le> le_rev e) (log_after (le_rev e - 1) (b_log b)) = [e]" by simp
  show "reduced_after b (le_rev e) = foldl reduce_step [] (entries_after b (le_rev e))"
    using log_after_filter [OF inv assms(2) range(2)] by (simp add: reduced_after_def entries_after_def)
qed

lemma position_none: "(\<forall>x\<in>set xs. \<not> p x) \<Longrightarrow> position p xs = None"
  by (induction xs) auto

lemma position_last: "(\<forall>x\<in>set xs. \<not> p x) \<Longrightarrow> p y \<Longrightarrow> position p (xs @ [y]) = Some (length xs)"
  by (induction xs) auto

lemma raw_red_revs: "r \<notin> le_rev ` set es \<Longrightarrow> \<forall>x\<in>set (map raw_red es). \<not> le_rev (rd_entry x) = r"
  by (auto simp: raw_red_def)

lemma cancel_none: "r \<notin> le_rev ` set es \<Longrightarrow> cancel (r, r) (map raw_red es) = None"
  using position_none [OF raw_red_revs] by (simp add: cancel_def Let_def)

lemma cancel_last:
  assumes "le_rev e \<notin> le_rev ` set es" and "length es < u64_max"
  shows "cancel (le_rev e, le_rev e) (map raw_red es @ [raw_red e]) = Some (map raw_red es)"
proof -
  have "position (\<lambda>r. le_rev (rd_entry r) = le_rev e) (map raw_red es @ [raw_red e]) = Some (length es)"
    using position_last [OF raw_red_revs [OF assms(1)], of "raw_red e"] by (simp add: raw_red_def)
  moreover have "exclude [raw_red e] [] = Some []" by (simp add: exclude_def compose_single)
  moreover have "slice (map raw_red es @ [raw_red e]) (length es) (Suc (length es)) = [raw_red e]"
    by (simp add: slice_def)
  ultimately show ?thesis
    using assms(2) by (simp add: cancel_def Let_def saturating_add_def raw_red_def)
qed

lemma reduce_cancel:
  assumes "le_kind entry = (if redo then RedoEntry (le_rev e, le_rev e) else UndoEntry (le_rev e, le_rev e))"
    and "le_rev e \<notin> le_rev ` set es" and "length es < u64_max"
  shows "reduce_step (map raw_red es @ [raw_red e]) entry = map raw_red es"
  using cancel_last [OF assms(2,3)] assms(1) by (simp add: reduce_step_def)

lemma reduce_keep:
  assumes "le_kind entry = EditEntry
      \<or> r \<notin> le_rev ` set es \<and> le_kind entry = (if redo then RedoEntry (r, r) else UndoEntry (r, r))"
  shows "reduce_step (map raw_red es) entry = map raw_red (es @ [entry])"
  using cancel_none [of r es] assms by (auto simp: reduce_step_def)

section \<open>One step of the refinement\<close>

text \<open>The log after a commit that trimmed nothing.\<close>

lemma committed_log:
  assumes "committed b items c ap b'" and "ap_history_trimmed_to ap = None"
  shows "ol_entries (b_log b') = ol_entries (b_log b) @ [new_entry b c (map resolved_edit (canonical_order items))]"
    and "lane_of b' (c_lane c) = lane_record (c_kind c) (commit_coalesced b c (map resolved_edit (canonical_order items)))
      (Suc (b_rev b)) (lane_of b (c_lane c))"
proof -
  obtain gone where "ol_entries (b_log b) @ [new_entry b c (map resolved_edit (canonical_order items))] = gone @ ol_entries (b_log b')"
    "gone = []"
    and lane: "gone = [] \<longrightarrow> lane_of b' (c_lane c) = lane_record (c_kind c)
      (commit_coalesced b c (map resolved_edit (canonical_order items))) (Suc (b_rev b)) (lane_of b (c_lane c))"
    using assms unfolding committed_def Let_def by (metis option.distinct(1))
  then show "ol_entries (b_log b') = ol_entries (b_log b) @ [new_entry b c (map resolved_edit (canonical_order items))]"
    and "lane_of b' (c_lane c) = lane_record (c_kind c) (commit_coalesced b c (map resolved_edit (canonical_order items)))
      (Suc (b_rev b)) (lane_of b (c_lane c))" by simp_all
qed

lemma committed_entry_ok:
  assumes "committed b items c ap b'"
  shows "entry_ok (content b) (new_entry b c (map resolved_edit (canonical_order items)))"
    and "apply_edits (content b) (le_edits (new_entry b c (map resolved_edit (canonical_order items)))) = content b'"
  using assms by (simp_all add: committed_def Let_def entry_ok_def new_entry_def sequence_ok_def)

lemma entries_after_push:
  assumes "ol_entries (b_log b') = ol_entries (b_log b) @ [e]" and "r < le_rev e"
  shows "entries_after b' r = entries_after b r @ [e]"
  using assms by (simp add: entries_after_def)

lemma entries_after_newest:
  assumes "ol_entries (b_log b') = ol_entries (b_log b) @ [e]" and "\<forall>x\<in>set (ol_entries (b_log b)). le_rev x < le_rev e"
  shows "entries_after b' (le_rev e) = []"
  using assms by (fastforce simp: entries_after_def filter_empty_conv)

lemma stack_push:
  assumes "stack_reduces b es" and log: "ol_entries (b_log b') = ol_entries (b_log b) @ [e]"
    and new: "\<forall>x\<in>set (ol_entries (b_log b)). le_rev x < le_rev e" and sub: "set es \<subseteq> set (ol_entries (b_log b))"
    and kind: "le_kind e = EditEntry \<or> r \<notin> le_rev ` set es \<and> le_kind e = (if redo then RedoEntry (r, r) else UndoEntry (r, r))"
  shows "stack_reduces b' (e # es)"
  unfolding stack_reduces_def
proof (intro allI impI)
  fix above x below
  assume split: "e # es = above @ x # below"
  show "foldl reduce_step [] (entries_after b' (le_rev x)) = map raw_red (rev above)"
  proof (cases above)
    case Nil
    then show ?thesis using split entries_after_newest [OF log new] by simp
  next
    case (Cons y above')
    then have es: "es = above' @ x # below" and y: "y = e" using split by auto
    have red: "foldl reduce_step [] (entries_after b (le_rev x)) = map raw_red (rev above')"
      using assms(1) es unfolding stack_reduces_def by blast
    have "le_rev x < le_rev e" using new sub es by auto
    then have "foldl reduce_step [] (entries_after b' (le_rev x)) = reduce_step (map raw_red (rev above')) e"
      using entries_after_push [OF log] red by simp
    also have "\<dots> = map raw_red (rev above' @ [e])"
      by (rule reduce_keep [where r = r and redo = redo]) (use kind es in auto)
    finally show ?thesis using Cons y by simp
  qed
qed

lemma stack_pop:
  assumes "stack_reduces b (e0 # es)" and log: "ol_entries (b_log b') = ol_entries (b_log b) @ [e]"
    and new: "\<forall>x\<in>set (ol_entries (b_log b)). le_rev x < le_rev e" and sub: "set es \<subseteq> set (ol_entries (b_log b))"
    and kind: "le_kind e = (if redo then RedoEntry (le_rev e0, le_rev e0) else UndoEntry (le_rev e0, le_rev e0))"
    and dist: "le_rev e0 \<notin> le_rev ` set es" and len: "length es < u64_max"
  shows "stack_reduces b' es"
  unfolding stack_reduces_def
proof (intro allI impI)
  fix above x below
  assume es: "es = above @ x # below"
  then have "e0 # es = (e0 # above) @ x # below" by simp
  then have "foldl reduce_step [] (entries_after b (le_rev x)) = map raw_red (rev (e0 # above))"
    using assms(1) unfolding stack_reduces_def by blast
  then have red: "foldl reduce_step [] (entries_after b (le_rev x)) = map raw_red (rev above) @ [raw_red e0]" by simp
  have "le_rev x < le_rev e" using new sub es by auto
  then have "foldl reduce_step [] (entries_after b' (le_rev x)) = reduce_step (map raw_red (rev above) @ [raw_red e0]) e"
    using entries_after_push [OF log] red by simp
  also have "\<dots> = map raw_red (rev above)"
    by (rule reduce_cancel [OF kind]) (use dist len es in auto)
  finally show "foldl reduce_step [] (entries_after b' (le_rev x)) = map raw_red (rev above)" .
qed

lemma refines_dir_length:
  assumes "buffer_inv b" and "refines_dir who b redo xs ys xe ye"
  shows "length xe < u64_max"
proof -
  have "distinct (xe @ ye)" and sub: "set (xe @ ye) \<subseteq> set (ol_entries (b_log b))"
    using assms(2) distinct_map by (auto simp: refines_dir_def)
  then have "length (xe @ ye) = card (set (xe @ ye))" by (simp only: distinct_card)
  also have "\<dots> \<le> card (set (ol_entries (b_log b)))" using sub by (intro card_mono) simp_all
  also have "\<dots> \<le> length (ol_entries (b_log b))" by (rule card_length)
  also have "\<dots> \<le> LOG_MAX_ENTRIES" using buffer_invD(2) [OF assms(1)] by (simp add: log_inv_defs)
  finally show ?thesis by (simp add: LOG_MAX_ENTRIES_def u64_max_def)
qed

lemma log_revs_bound: "buffer_inv b \<Longrightarrow> x \<in> set (ol_entries (b_log b)) \<Longrightarrow> le_rev x < Suc (b_rev b)"
proof -
  assume inv: "buffer_inv b" and x: "x \<in> set (ol_entries (b_log b))"
  have "map le_rev (ol_entries (b_log b)) = [Suc (ol_base (b_log b))..<Suc (b_rev b)]"
    using buffer_invD(2) [OF inv] by (simp add: log_inv_defs)
  then have "le_rev x \<in> set [Suc (ol_base (b_log b))..<Suc (b_rev b)]" using x by (metis image_eqI list.set_map)
  then show ?thesis by (simp del: upt_Suc)
qed

lemma stack_top_of:
  assumes "lane_of b who = (if redo then \<lparr>l_undo = stack_groups ye, l_redo = stack_groups (e # xe)\<rparr>
                        else \<lparr>l_undo = stack_groups (e # xe), l_redo = stack_groups ye\<rparr>)"
  shows "lane_top b redo who = Some (le_rev e, le_rev e)"
proof -
  obtain l where "bm_get (ol_lanes (b_log b)) who = Some l" "lane_of b who = l"
    using assms by (auto simp: lane_of_def empty_lane_def stack_groups_def split: option.splits if_splits)
  then show ?thesis
    using assms by (cases redo) (auto simp: lane_top_def stack_top_def stack_groups_def Let_def)
qed

lemma dir_plan:
  assumes "buffer_inv b" and "b_rev b < u64_max" and dir: "refines_dir who b redo (x # xs) ys (e # xe) ye"
  shows "undo_plan b Own who redo = Inr (who, (le_rev e, le_rev e), undo_resolved (exact_items x e))"
    and "list_all (item_ok b) (undo_resolved (exact_items x e))"
proof -
  have e: "e \<in> set (ol_entries (b_log b))" and ok: "from_utf8 x" "entry_ok x e" "apply_edits x (le_edits e) = content b"
    and red: "stack_reduces b (e # xe)"
    using dir by (auto simp: refines_dir_def)
  note win = log_window [OF assms(1,2) e]
  have "e # xe = [] @ e # xe" by simp
  then have "foldl reduce_step [] (entries_after b (le_rev e)) = []"
    using red unfolding stack_reduces_def by fastforce
  then have comp: "compose_inverse b (le_rev e, le_rev e) who = Inr (exact_items x e)"
    using compose_inverse_exact [OF assms(1) win(2) ok(2,1)] ok(3) win(1,4) by simp
  have tops: "lane_top b redo who = Some (le_rev e, le_rev e)"
    by (rule stack_top_of) (use dir in \<open>simp add: refines_dir_def\<close>)
  show "undo_plan b Own who redo = Inr (who, (le_rev e, le_rev e), undo_resolved (exact_items x e))"
    by (simp add: undo_plan_def pick_lane_def tops comp undo_resolved_def)
  have can: "canonical_from (length x) (le_edits e)"
    and bnd: "list_all (\<lambda>y. boundary x (e_offset y) \<and> boundary x (e_offset y + e_delete y) \<and> from_utf8 (e_insert y)) (le_edits e)"
    using ok(2) by (simp_all add: entry_ok_def)
  have post: "\<forall>r\<in>set (post_ranges (le_edits e)). boundary (content b) (fst r) \<and> boundary (content b) (snd r)"
    using post_ranges_boundary [OF ok(1) can boundary_ends(1) bnd] ok(3) by simp
  have "fst (ui_range it) \<le> snd (ui_range it) \<and> from_utf8 (ui_restore it)
      \<and> boundary (content b) (fst (ui_range it)) \<and> boundary (content b) (snd (ui_range it))"
    if it: "it \<in> set (exact_items x e)" for it
  proof -
    have "undo_wf it" using compose_inverse_wf [OF assms(1) comp] it by (simp add: list_all_iff)
    moreover have "ui_range it \<in> set (post_ranges (le_edits e))"
      using it by (auto simp: exact_items_def dest: set_zip_leftD)
    ultimately show ?thesis using post by (simp add: undo_wf_def)
  qed
  then show "list_all (item_ok b) (undo_resolved (exact_items x e))"
    using enumerate_snd unfolding undo_resolved_def
    by (fastforce simp: list_all_iff item_ok_def range_ok_def)
qed

lemma dir_step:
  assumes "buffer_inv b" and "b_rev b < u64_max" and dir: "refines_dir who b redo (x # xs) ys (e # xe) ye"
    and run: "undo_redo h Own who via now redo op b = (res, b')"
  shows "buffer_inv b' \<and> (case res of
      Inl f \<Rightarrow> refusal f \<and> unchanged b b'
    | Inr ap \<Rightarrow> content b' = x \<and> b_rev b' = Suc (b_rev b)
        \<and> (ap_history_trimmed_to ap = None \<longrightarrow> (\<exists>new. refines_dir who b' redo xs (content b # ys) xe (new # ye))))"
proof -
  define c where "c = \<lparr>c_origin = who, c_lane = who,
     c_kind = (if redo then RedoEntry (le_rev e, le_rev e) else UndoEntry (le_rev e, le_rev e)), c_via = via,
     c_now_ms = now, c_op_id = op, c_coalesce = False, c_cursor = None, c_rebased = False\<rparr>"
  let ?items = "undo_resolved (exact_items x e)" and ?seq = "rev (inverse_edits x (le_edits e))"
  note plan = dir_plan [OF assms(1-3)]
  have txn: "commit_txn h ?items c b = (res, b')" using run plan(1) by (simp add: undo_redo_def c_def)
  note spec = commit_txn_spec [OF assms(1) plan(2) txn]
  have ok: "from_utf8 x" "entry_ok x e" "apply_edits x (le_edits e) = content b"
    using dir by (auto simp: refines_dir_def)
  have can: "canonical_from (length x) (le_edits e)" using ok(2) by (simp add: entry_ok_def)
  show ?thesis
  proof (cases res)
    case (Inl f)
    then show ?thesis using spec by simp
  next
    case (Inr ap)
    then have com: "committed b ?items c ap b'" and inv': "buffer_inv b'" using spec by auto
    have seq: "map resolved_edit (canonical_order ?items) = ?seq" by (rule undo_sequence [OF can])
    have restored: "content b' = x"
      using committed_content(1) [OF com] invert_restores_prefix [OF can order_refl] ok(3) unfolding seq by simp
    have "\<exists>new. refines_dir who b' redo xs (content b # ys) xe (new # ye)" if trim: "ap_history_trimmed_to ap = None"
    proof
      let ?new = "new_entry b c ?seq"
      have log: "ol_entries (b_log b') = ol_entries (b_log b) @ [?new]"
        and lane: "lane_of b' who = lane_record (c_kind c) (commit_coalesced b c ?seq) (Suc (b_rev b)) (lane_of b who)"
        using committed_log [OF com trim] unfolding seq by (simp_all add: c_def)
      have newest: "\<forall>y\<in>set (ol_entries (b_log b)). le_rev y < le_rev ?new"
        using log_revs_bound [OF assms(1)] by (simp add: new_entry_def)
      have kind: "le_kind ?new = (if redo then RedoEntry (le_rev e, le_rev e) else UndoEntry (le_rev e, le_rev e))"
        by (simp add: new_entry_def c_def)
      have d: "distinct (map le_rev ((e # xe) @ ye))" "set ((e # xe) @ ye) \<subseteq> set (ol_entries (b_log b))"
        "stack_reduces b (e # xe)" "stack_reduces b ye" "chain xs xe x" "chain ys ye (content b)"
        "lane_of b who = (if redo then \<lparr>l_undo = stack_groups ye, l_redo = stack_groups (e # xe)\<rparr>
                        else \<lparr>l_undo = stack_groups (e # xe), l_redo = stack_groups ye\<rparr>)"
        using dir by (simp_all add: refines_dir_def)
      have len: "length xe < u64_max" using refines_dir_length [OF assms(1) dir] by simp
      have "stack_reduces b' xe" by (rule stack_pop [OF d(3) log newest _ kind _ len]) (use d in auto)
      moreover have "stack_reduces b' (?new # ye)"
        by (rule stack_push [OF d(4) log newest, where r = "le_rev e" and redo = redo]) (use d kind in auto)
      moreover have "chain (content b # ys) (?new # ye) (content b')"
        using committed_entry_ok [OF com] buffer_invD(6) [OF assms(1)] d(6) unfolding seq by simp
      moreover have "lane_of b' who = (if redo then \<lparr>l_undo = stack_groups (?new # ye), l_redo = stack_groups xe\<rparr>
                        else \<lparr>l_undo = stack_groups xe, l_redo = stack_groups (?new # ye)\<rparr>)"
        using lane d(7) by (simp add: lane_record_def c_def stack_groups_def new_entry_def)
      moreover have "le_rev y < le_rev ?new" if "y \<in> set (xe @ ye)" for y
        by (rule bspec [OF newest]) (use that d(2) in auto)
      then have "distinct (map le_rev (xe @ ?new # ye))" using d(1) by fastforce
      ultimately show "refines_dir who b' redo xs (content b # ys) xe (?new # ye)"
        using d(2,5) log restored by (auto simp: refines_dir_def)
    qed
    then show ?thesis using Inr inv' restored committed_content(2) [OF com] by simp
  qed
qed

lemma unchanged_lane:
  assumes "buffer_inv b" and "buffer_inv b'" and "unchanged b b'"
  shows "lane_of b' o' = lane_of b o'"
proof -
  have lane: "lane_of x o' = (case bm_get (visible_lanes (b_log x)) o' of None \<Rightarrow> empty_lane | Some l \<Rightarrow> l)"
    if "buffer_inv x" for x
  proof -
    have "bm_inv (ol_lanes (b_log x))" using buffer_invD(2) [OF that] by (simp add: log_inv_defs)
    from bm_get_retain [OF this] show ?thesis
      by (auto simp: lane_of_def visible_lanes_def empty_lane_def split: option.splits)
  qed
  have "visible_lanes (b_log b') = visible_lanes (b_log b)" using assms(3) by (simp add: unchanged_def)
  then show ?thesis using lane [OF assms(1)] lane [OF assms(2)] by simp
qed

lemma refines_unchanged:
  assumes "buffer_inv b" and "buffer_inv b'" and "unchanged b b'" and "refines who b m"
  shows "refines who b' m"
proof -
  have same: "content b' = content b" "ol_entries (b_log b') = ol_entries (b_log b)" "lane_of b' who = lane_of b who"
    using assms(3) unchanged_lane [OF assms(1-3)] by (simp_all add: unchanged_def)
  have "refines_dir who b' = refines_dir who b"
    unfolding refines_dir_def stack_reduces_def entries_after_def same fun_eq_iff by simp
  then show ?thesis using assms(4) same(1) unfolding refines_def by simp
qed

lemma refines_edit:
  assumes "buffer_inv b" and "texts_utf8 req" and "\<not> tr_coalesce req" and "refines who b m"
    and run: "buffer_apply h req who via now b = (Inr ap, b')" and trim: "ap_history_trimmed_to ap = None"
  shows "refines who b' (um_edit (content b') m)"
proof -
  obtain ue re where dir: "refines_dir who b False (um_past m) (um_future m) ue re" and now: "content b = um_now m"
    using assms(4) by (auto simp: refines_def)
  obtain items c where com: "committed b items c ap b'" and c: "c_lane c = who" "c_kind c = EditEntry" "\<not> c_coalesce c"
    using buffer_apply_spec [OF assms(1,2) run] assms(3) by auto
  let ?seq = "map resolved_edit (canonical_order items)"
  let ?new = "new_entry b c ?seq"
  have log: "ol_entries (b_log b') = ol_entries (b_log b) @ [?new]"
    and lane: "lane_of b' who = lane_record (c_kind c) (commit_coalesced b c ?seq) (Suc (b_rev b)) (lane_of b who)"
    using committed_log [OF com trim] c by simp_all
  have newest: "\<forall>y\<in>set (ol_entries (b_log b)). le_rev y < le_rev ?new"
    using log_revs_bound [OF assms(1)] by (simp add: new_entry_def)
  have d: "set ue \<subseteq> set (ol_entries (b_log b))" "stack_reduces b ue" "distinct (map le_rev ue)"
    "chain (um_past m) ue (content b)" "l_undo (lane_of b who) = stack_groups ue"
    using dir by (auto simp: refines_dir_def)
  have "stack_reduces b' (?new # ue)"
    by (rule stack_push [OF d(2) log newest d(1), where r = 0 and redo = False]) (simp add: new_entry_def c)
  moreover have "chain (content b # um_past m) (?new # ue) (content b')"
    using committed_entry_ok [OF com] buffer_invD(6) [OF assms(1)] d(4) by simp
  moreover have "lane_of b' who = \<lparr>l_undo = stack_groups (?new # ue), l_redo = stack_groups []\<rparr>"
    using lane d(5) c by (simp add: lane_record_def commit_coalesced_def stack_groups_def new_entry_def)
  moreover have "le_rev y < le_rev ?new" if "y \<in> set ue" for y
    by (rule bspec [OF newest]) (use that d(1) in auto)
  then have "distinct (map le_rev (?new # ue))" using d(3) by fastforce
  moreover have "stack_reduces b' []" by (simp add: stack_reduces_def)
  ultimately have "refines_dir who b' False (content b # um_past m) [] (?new # ue) []"
    using d(1) log by (auto simp: refines_dir_def)
  then show ?thesis using now by (auto simp: refines_def um_edit_def)
qed

lemma chain_Cons: "chain (x # xs) es t \<Longrightarrow> \<exists>e es'. es = e # es'"
  by (cases es) auto

lemma refines_undo_redo:
  assumes "buffer_inv b" and "b_rev b < u64_max" and "refines who b m"
    and "undo_redo h Own who via now redo op b = (res, b')" and "(if redo then um_redo m else um_undo m) = Some m'"
  shows "buffer_inv b' \<and> (case res of
      Inl f \<Rightarrow> refusal f \<and> unchanged b b'
    | Inr ap \<Rightarrow> content b' = um_now m' \<and> (ap_history_trimmed_to ap = None \<longrightarrow> refines who b' m'))"
proof -
  obtain ue re where dir: "refines_dir who b False (um_past m) (um_future m) ue re" and now: "content b = um_now m"
    using assms(3) by (auto simp: refines_def)
  show ?thesis
  proof (cases redo)
    case True
    then obtain x xs where m: "um_future m = x # xs" "m' = \<lparr>um_past = um_now m # um_past m, um_now = x, um_future = xs\<rparr>"
      using assms(5) by (auto simp: um_redo_def split: list.splits)
    have "chain (x # xs) re (content b)" using dir m(1) by (simp add: refines_dir_def)
    then obtain e re' where re: "re = e # re'" using chain_Cons by blast
    have "refines_dir who b True (x # xs) (um_past m) (e # re') ue"
      using dir refines_dir_swap [of who b False] m(1) re by simp
    from dir_step [OF assms(1,2) this, of h via now op res b'] show ?thesis
      using assms(4) True m(2) now refines_dir_swap [of who b' True] by (auto simp: refines_def split: sum.splits)
  next
    case False
    then obtain x xs where m: "um_past m = x # xs" "m' = \<lparr>um_past = xs, um_now = x, um_future = um_now m # um_future m\<rparr>"
      using assms(5) by (auto simp: um_undo_def split: list.splits)
    have "chain (x # xs) ue (content b)" using dir m(1) by (simp add: refines_dir_def)
    then obtain e ue' where ue: "ue = e # ue'" using chain_Cons by blast
    from dir_step [OF assms(1,2) dir [unfolded m(1) ue], of h via now op res b'] show ?thesis
      using assms(4) False m(2) now by (auto simp: refines_def split: sum.splits)
  qed
qed

lemma refines_nothing:
  assumes "refines who b m" and "(if redo then um_redo m else um_undo m) = None"
  shows "\<exists>e. undo_redo h Own who via now redo op b = (Inl (Refuse e), b)"
proof -
  obtain ue re where dir: "refines_dir who b False (um_past m) (um_future m) ue re"
    using assms(1) by (auto simp: refines_def)
  then have "(if redo then l_redo (lane_of b who) else l_undo (lane_of b who)) = []"
    using assms(2) by (cases redo; cases ue; cases re) (auto simp: refines_dir_def um_redo_def um_undo_def stack_groups_def split: list.splits)
  then have "lane_top b redo who = None"
    by (auto simp: lane_top_def lane_of_def stack_top_def Let_def split: option.splits if_splits)
  then show ?thesis by (simp add: undo_redo_def undo_plan_def pick_lane_def)
qed

lemma refines_plan:
  assumes "buffer_inv b" and "b_rev b < u64_max" and "refines who b m"
    and "(if redo then um_redo m else um_undo m) \<noteq> None"
  shows "is_ok (undo_plan b Own who redo)"
proof -
  obtain ue re where dir: "refines_dir who b False (um_past m) (um_future m) ue re"
    using assms(3) by (auto simp: refines_def)
  obtain x xs ys e xe ye where "refines_dir who b redo (x # xs) ys (e # xe) ye"
  proof (cases redo)
    case True
    then obtain x xs where m: "um_future m = x # xs" using assms(4) by (auto simp: um_redo_def split: list.splits)
    then have "chain (x # xs) re (content b)" using dir by (simp add: refines_dir_def)
    then show thesis
      using that dir refines_dir_swap [of who b False] m chain_Cons True by (metis (full_types))
  next
    case False
    then obtain x xs where m: "um_past m = x # xs" using assms(4) by (auto simp: um_undo_def split: list.splits)
    then have "chain (x # xs) ue (content b)" using dir by (simp add: refines_dir_def)
    then show thesis using that dir m chain_Cons False by metis
  qed
  from dir_plan(1) [OF assms(1,2) this] show ?thesis by simp
qed

lemma undo_items_found:
  assumes "buffer_inv b" and "compose_inverse b g lane = Inr items" and "list_all (item_ok b) (undo_resolved items)"
    and "it \<in> set items"
  shows "slice (content b) (fst (ui_range it)) (snd (ui_range it)) = ui_expect it"
proof -
  obtain us where "try_map (check_expect b lane) items = Inr us"
    using assms(2) by (auto simp: compose_inverse_def result_simps Let_def split: if_splits)
  from check_expect_all [OF this] have rd: "text_read (b_text b) (ui_range it) [] = Some (ui_expect it)"
    using assms(4) by (simp add: list_all_iff)
  obtain i where "i < length items" "items ! i = it" using assms(4) by (metis in_set_conv_nth)
  then have "item_ok b \<lparr>r_s = fst (ui_range it), r_e = snd (ui_range it), r_text = ui_restore it, r_idx = i\<rparr>"
    using assms(3) by (auto simp: undo_resolved_def list_all_length nth_enumerate_eq)
  then show ?thesis
    using text_read_slice [OF buffer_invD(1) [OF assms(1)], of "fst (ui_range it)" "snd (ui_range it)" "[]"] rd
    by (simp add: item_ok_def range_ok_def)
qed

section \<open>Sessions\<close>

definition um_step :: "bool \<Rightarrow> undo_machine \<Rightarrow> undo_machine option" where
  "um_step redo m = (if redo then um_redo m else um_undo m)"

text \<open>One origin opens a buffer in which it has nothing to undo, then edits without coalescing, undoes
  and redoes its own lane, with or without success, while the retained history suffices.\<close>

inductive session :: "origin \<Rightarrow> buffer \<Rightarrow> undo_machine \<Rightarrow> bool" for who where
  session_open: "buffer_inv b \<Longrightarrow> lane_of b who = empty_lane \<Longrightarrow>
     session who b \<lparr>um_past = [], um_now = content b, um_future = []\<rparr>"
| session_edit: "session who b m \<Longrightarrow> texts_utf8 req \<Longrightarrow> \<not> tr_coalesce req \<Longrightarrow>
     buffer_apply h req who via now b = (Inr ap, b') \<Longrightarrow> ap_history_trimmed_to ap = None \<Longrightarrow>
     session who b' (um_edit (content b') m)"
| session_edit_refused: "session who b m \<Longrightarrow> texts_utf8 req \<Longrightarrow>
     buffer_apply h req who via now b = (Inl f, b') \<Longrightarrow> session who b' m"
| session_undo: "session who b m \<Longrightarrow> b_rev b < u64_max \<Longrightarrow> um_step redo m = Some m' \<Longrightarrow>
     undo_redo h Own who via now redo op b = (Inr ap, b') \<Longrightarrow> ap_history_trimmed_to ap = None \<Longrightarrow>
     session who b' m'"
| session_undo_refused: "session who b m \<Longrightarrow>
     undo_redo h Own who via now redo op b = (Inl f, b') \<Longrightarrow> session who b' m"

lemma session_refines: "session who b m \<Longrightarrow> buffer_inv b \<and> refines who b m"
proof (induction rule: session.induct)
  case (session_open b)
  then have "refines_dir who b False [] [] [] []"
    by (simp add: refines_dir_def stack_groups_def stack_reduces_def empty_lane_def)
  then show ?case using session_open by (auto simp: refines_def)
next
  case (session_edit b m req h via now ap b')
  then show ?case
    using refines_edit [of b req who m h via now ap b'] buffer_apply_spec [of b req h who via now "Inr ap" b'] by simp
next
  case (session_edit_refused b m req h via now f b')
  then show ?case
    using buffer_apply_spec [of b req h who via now "Inl f" b'] refines_unchanged [of b b' who m] by simp
next
  case (session_undo b m redo m' h via now op ap b')
  then show ?case
    using refines_undo_redo [of b who m h via now redo op "Inr ap" b' m'] by (simp add: um_step_def)
next
  case (session_undo_refused b m h via now redo op f b')
  then show ?case
    using undo_redo_spec [of b h Own who via now redo op "Inl f" b'] refines_unchanged [of b b' who m] by simp
qed

section \<open>Properties\<close>

text \<open>C5: Refinement of the textbook undo machine.  Along every session of one origin the buffer stays well
  formed and its text is the current text of the machine that pushes the text on an edit and moves
  texts between the past and the future on undo and redo, so undoing back and redoing forth
  revisits exactly the same texts.\<close>

theorem session_refines_undo_machine:
  assumes "session who b m"
  shows "buffer_inv b \<and> content b = um_now m"
  using session_refines [OF assms] by (simp add: refines_def)

text \<open>C19: In such a session an undo (or redo) with something to undo plans exactly the inverse of the newest
  entry of the lane: it never reports a conflict, panics or loops.  It refuses only without an
  observable change, for a resource limit, and otherwise the text is the machine's; with nothing
  to undo it refuses and changes nothing at all.\<close>

theorem undo_restores:
  assumes "session who b m" and "b_rev b < u64_max" and "undo_redo h Own who via now redo op b = (res, b')"
  shows "case um_step redo m of
      None \<Rightarrow> (\<exists>e. res = Inl (Refuse e)) \<and> b' = b
    | Some m' \<Rightarrow> buffer_inv b' \<and> is_ok (undo_plan b Own who redo) \<and> (case res of
          Inl f \<Rightarrow> (\<exists>e. f = Refuse e) \<and> unchanged b b'
        | Inr ap \<Rightarrow> content b' = um_now m')"
proof (cases "um_step redo m")
  case None
  then show ?thesis
    using refines_nothing [of who b m redo h via now op] session_refines [OF assms(1)] assms(3) by (auto simp: um_step_def)
next
  case (Some m')
  have inv: "buffer_inv b" "refines who b m" using session_refines [OF assms(1)] by simp_all
  have "is_ok (undo_plan b Own who redo)"
    by (rule refines_plan [OF inv(1) assms(2) inv(2)]) (use Some in \<open>simp add: um_step_def\<close>)
  moreover have "(if redo then um_redo m else um_undo m) = Some m'" using Some by (simp add: um_step_def)
  from refines_undo_redo [OF inv(1) assms(2) inv(2) assms(3) this]
  have "buffer_inv b' \<and> (case res of Inl f \<Rightarrow> (\<exists>e. f = Refuse e) \<and> unchanged b b' | Inr ap \<Rightarrow> content b' = um_now m')"
    by (auto simp: refusal_def split: sum.splits)
  ultimately show ?thesis using Some by simp
qed

text \<open>Undo and redo in general, with the edits of any number of origins in between: a failure leaves the
  buffer unchanged and well formed; a success commits exactly the composed inverse, every item of
  which found the text it was going to remove in place, as the next revision.\<close>

theorem undo_commits_checked_inverse:
  assumes "buffer_inv b" and "undo_redo h sel caller via now redo op b = (res, b')"
  shows "buffer_inv b' \<and> (case res of
      Inl f \<Rightarrow> unchanged b b'
    | Inr ap \<Rightarrow> \<exists>lane g items. lane_top b redo lane = Some g \<and> compose_inverse b g lane = Inr items
        \<and> list_all (\<lambda>it. slice (content b) (fst (ui_range it)) (snd (ui_range it)) = ui_expect it) items
        \<and> content b' = splice_edits 0 (content b) (rev (map resolved_edit (canonical_order (undo_resolved items))))
        \<and> b_rev b' = Suc (b_rev b) \<and> ap_edits ap = map resolved_edit (canonical_order (undo_resolved items)))"
proof (cases res)
  case (Inl f)
  then show ?thesis using undo_redo_spec [OF assms] by simp
next
  case (Inr ap)
  then obtain lane g items rs c where p: "undo_plan b sel caller redo = Inr (lane, g, rs)"
    "compose_inverse b g lane = Inr items" "lane_top b redo lane = Some g" "committed b rs c ap b'" "list_all (item_ok b) rs"
    using undo_redo_spec [OF assms] by auto
  have rs: "rs = undo_resolved items"
    using undo_plan_parts [OF p(1)] p(2,3) by (metis sum.inject(2) undo_resolved_def)
  have items: "slice (content b) (fst (ui_range it)) (snd (ui_range it)) = ui_expect it" if it: "it \<in> set items" for it
    using undo_items_found [OF assms(1) p(2) p(5) [unfolded rs] it] .
  have "buffer_inv b'" using undo_redo_spec [OF assms] by blast
  moreover have "\<exists>lane g items. lane_top b redo lane = Some g \<and> compose_inverse b g lane = Inr items
        \<and> list_all (\<lambda>it. slice (content b) (fst (ui_range it)) (snd (ui_range it)) = ui_expect it) items
        \<and> content b' = splice_edits 0 (content b) (rev (map resolved_edit (canonical_order (undo_resolved items))))
        \<and> b_rev b' = Suc (b_rev b) \<and> ap_edits ap = map resolved_edit (canonical_order (undo_resolved items))"
    using items p(2,3) committed_content(1,2,5) [OF p(4)] unfolding rs list_all_iff
    by (intro exI [of _ lane] exI [of _ g] exI [of _ items]) simp
  ultimately show ?thesis using Inr by simp
qed

section \<open>Witnesses\<close>

abbreviation user :: origin where
  "user \<equiv> Origin Human ''a''"

abbreviation sample_machine :: undo_machine where
  "sample_machine \<equiv> \<lparr>um_past = [content sample_buffer], um_now = [CHR ''h'', CHR 0x0A, CHR ''x''], um_future = []\<rparr>"

lemma sample_session:
  obtains b where "session user b sample_machine" and "b_rev b = 1"
proof -
  obtain ap b where run: "buffer_apply generous sample_request user sample_via 7 sample_buffer = (Inr ap, b)"
    and c: "content b = [CHR ''h'', CHR 0x0A, CHR ''x'']" by (rule sample_commit)
  have texts: "texts_utf8 sample_request" and nc: "\<not> tr_coalesce sample_request" by (simp_all add: sample_request_def)
  obtain c where com: "committed sample_buffer [sample_item] c ap b"
    using buffer_apply_spec [OF sample_buffer_inv texts run] sample_resolve by auto
  have "entry_text_bytes (new_entry sample_buffer c (map resolved_edit (canonical_order [sample_item]))) = 2"
    by (simp add: entry_text_bytes_def new_entry_def canonical_order_def resolved_edit_def sample_item_def
        deleted_texts_def sample_buffer_def with_text_def sample_bytes slice_def)
  then have "ap_history_trimmed_to ap = None"
    using com unfolding committed_def Let_def
    by (auto simp: sample_buffer_def with_text_def empty_log_def LOG_MAX_ENTRIES_def LOG_MAX_TEXT_BYTES_def MIB_def)
  moreover have "lane_of sample_buffer user = empty_lane"
    by (simp add: lane_of_def sample_buffer_def with_text_def empty_log_def bm_get_def)
  note session_open [OF sample_buffer_inv this]
  ultimately have "session user b (um_edit (content b) \<lparr>um_past = [], um_now = content sample_buffer, um_future = []\<rparr>)"
    using session_edit [OF _ texts nc run] by blast
  moreover have "b_rev b = 1" using committed_content(2) [OF com] by (simp add: sample_buffer_def with_text_def)
  ultimately show thesis using that c by (simp add: um_edit_def)
qed

theorem session_refines_undo_machine_witness:
  "\<exists>b. session user b sample_machine \<and> buffer_inv b \<and> content b = [CHR ''h'', CHR 0x0A, CHR ''x'']"
proof -
  obtain b where b: "session user b sample_machine" by (rule sample_session)
  from session_refines_undo_machine [OF b] b show ?thesis by auto
qed

theorem undo_restores_witness:
  "\<exists>b. session user b sample_machine
    \<and> (case undo_redo generous Own user sample_via 9 False None b of
         (Inl f, b') \<Rightarrow> unchanged b b'
       | (Inr ap, b') \<Rightarrow> content b' = content sample_buffer)"
proof -
  obtain b where b: "session user b sample_machine" "b_rev b = 1" by (rule sample_session)
  obtain res b' where run: "undo_redo generous Own user sample_via 9 False None b = (res, b')" by fastforce
  have "b_rev b < u64_max" using b(2) by (simp add: u64_max_def)
  from undo_restores [OF b(1) this run] b(1) run show ?thesis
    by (intro exI [of _ b]) (auto simp: um_step_def um_undo_def split: sum.splits)
qed

theorem undo_commits_checked_inverse_witness:
  "case undo_redo generous AllLanes user sample_via 9 False None edited_buffer of
     (Inl f, b') \<Rightarrow> unchanged edited_buffer b'
   | (Inr ap, b') \<Rightarrow> buffer_inv b' \<and> b_rev b' = 2"
proof -
  obtain res b' where run: "undo_redo generous AllLanes user sample_via 9 False None edited_buffer = (res, b')" by fastforce
  from undo_commits_checked_inverse [OF edited_buffer_inv run] run show ?thesis
    by (auto simp: edited_buffer_def split: sum.splits)
qed

end
