(* ===== verification/Edit_Machine.thy ===== *)
theory Edit_Machine
  imports Edit_Session
begin

text \<open>
  The buffer as a state machine: every buffer a host can reach by loading a file or opening an
  empty buffer and then calling the public operations in any order, with any host memory
  behaviour, any number of origins and any refusals in between, is well formed.
\<close>

inductive reachable :: "buffer \<Rightarrow> bool" where
  reach_new: "buffer_new h = Inr b \<Longrightarrow> reachable b"
| reach_load: "from_bytes h bytes = Inr (b, meta) \<Longrightarrow> reachable b"
| reach_apply: "reachable b \<Longrightarrow> texts_utf8 req \<Longrightarrow> buffer_apply h req who via now b = (res, b') \<Longrightarrow> reachable b'"
| reach_undo: "reachable b \<Longrightarrow> undo_redo h sel who via now redo op b = (res, b') \<Longrightarrow> reachable b'"
| reach_reload: "reachable b \<Longrightarrow> from_utf8 new \<Longrightarrow> reload_minimal h new via now b = (res, b') \<Longrightarrow> reachable b'"
| reach_select: "reachable b \<Longrightarrow> set_selections who sels b = (res, b') \<Longrightarrow> reachable b'"
| reach_anchor: "reachable b \<Longrightarrow> anchor_set name spec b = (res, b') \<Longrightarrow> reachable b'"
| reach_clear: "reachable b \<Longrightarrow> anchor_clear name b = (found, b') \<Longrightarrow> reachable b'"
| reach_saved: "reachable b \<Longrightarrow> reachable (mark_saved b)"

lemma set_selections_inv: "buffer_inv b \<Longrightarrow> set_selections who sels b = (res, b') \<Longrightarrow> buffer_inv b'"
  using set_selections_ok by blast

lemma buffer_new_inv: "buffer_new h = Inr b \<Longrightarrow> buffer_inv b"
  using empty_text with_text_inv by (auto simp: buffer_new_def result_simps)

lemma reachable_inv: "reachable b \<Longrightarrow> buffer_inv b"
proof (induction rule: reachable.induct)
  case (reach_new h b)
  then show ?case by (rule buffer_new_inv)
next
  case (reach_load h bytes b meta)
  then show ?case using from_bytes_spec by blast
next
  case (reach_apply b req h who via now res b')
  then show ?case using buffer_apply_spec by blast
next
  case (reach_undo b h sel who via now redo op res b')
  then show ?case using undo_redo_spec by blast
next
  case (reach_reload b new h via now res b')
  then show ?case using reload_spec by blast
next
  case (reach_select b who sels res b')
  then show ?case using set_selections_inv by blast
next
  case (reach_anchor b name spec res b')
  then show ?case using anchor_set_ok by blast
next
  case (reach_clear b name found b')
  then show ?case using anchor_clear_ok by blast
next
  case (reach_saved b)
  then show ?case by (simp add: mark_saved_def buffer_inv_def)
qed

text \<open>C1: The buffer invariant.  Every reachable buffer holds valid UTF-8 within the byte and line limits
  with an exact line index, a log of contiguous revisions that ends in the current one, replays to
  the current text and stays within the retention limits, and anchors and selections on char
  boundaries within their limits.\<close>

theorem reachable_well_formed:
  assumes "reachable b"
  shows "from_utf8 (content b) \<and> length (content b) \<le> MAX_BUFFER_BYTES
    \<and> t_starts (b_text b) = line_starts (content b) \<and> length (t_starts (b_text b)) \<le> MAX_LINES
    \<and> map le_rev (ol_entries (b_log b)) = [Suc (ol_base (b_log b))..<Suc (b_rev b)]
    \<and> (\<exists>old. replays old (ol_entries (b_log b)) (content b))
    \<and> length (ol_entries (b_log b)) \<le> LOG_MAX_ENTRIES \<and> ol_text_bytes (b_log b) \<le> LOG_MAX_TEXT_BYTES
    \<and> list_all (anchor_in (content b)) (b_anchors b) \<and> distinct (map na_name (b_anchors b))
    \<and> (\<forall>o' ss. bm_get (b_selections b) o' = Some ss \<longrightarrow> list_all (selection_in (content b)) ss)"
proof -
  have b: "buffer_inv b" using assms by (rule reachable_inv)
  note inv = buffer_invD [OF b] and t = text_invD [OF buffer_invD(1) [OF b]]
  have "length (content b) \<le> MAX_BUFFER_BYTES" "length (t_starts (b_text b)) \<le> MAX_LINES"
    using inv(1) unfolding text_inv_def by blast+
  moreover have "\<forall>o' ss. bm_get (b_selections b) o' = Some ss \<longrightarrow> list_all (selection_in (content b)) ss"
    using inv(5) by (auto simp: selections_ok_def bm_get_def dest: map_of_SomeD)
  ultimately show ?thesis
    using inv t by (auto simp: log_inv_defs history_ok_def anchors_ok_def)
qed

theorem reachable_well_formed_witness:
  "\<exists>b meta. from_bytes generous BOM = Inr (b, meta) \<and> reachable (mark_saved b) \<and> from_utf8 (content (mark_saved b))"
proof -
  obtain b meta where load: "from_bytes generous BOM = Inr (b, meta)" by (rule load_bom)
  then have "reachable (mark_saved b)" by (intro reach_saved reach_load)
  from reachable_well_formed [OF this] load this show ?thesis by blast
qed

end
