(* ===== verification/Interact_Rate.thy ===== *)
theory Interact_Rate
  imports Cosmix_Map Cosmix_Str Complex_Main
begin

text \<open>
  The token-bucket rate limiter of the interaction broker (\<^verbatim>\<open>cosmix-interaction-broker/src/ratelimit.rs\<close>).
  Token counts are exact rationals where the code has \<^verbatim>\<open>f64\<close>; the timestamps are \<^verbatim>\<open>u64\<close> milliseconds, on
  which the code only compares, takes maxima and subtracts with saturation, which is subtraction of
  naturals.  The hash map of buckets is an ordered map: the code's result does not depend on iteration order, since
  retention filters and eviction takes the minimum of a total order on (last use, name).
\<close>

record rate_config =
  capacity :: rat
  refill_per_sec :: rat

record bucket =
  tokens :: rat
  last_ms :: nat

record rate_limiter =
  config :: rate_config
  global_config :: rate_config
  global :: bucket
  buckets :: "(string, bucket) bmap"

definition BUCKET_IDLE_TTL_MS :: nat where
  "BUCKET_IDLE_TTL_MS = 15 * 60 * 1000"

definition MAX_BUCKETS :: nat where
  "MAX_BUCKETS = 4096"

definition DEFAULT_GLOBAL_RATE :: rate_config where
  "DEFAULT_GLOBAL_RATE = \<lparr>capacity = 30, refill_per_sec = 5\<rparr>"

definition default_rate :: rate_config where
  "default_rate = \<lparr>capacity = 5, refill_per_sec = 1\<rparr>"

definition new_with_global :: "rate_config \<Rightarrow> rate_config \<Rightarrow> rate_limiter" where
  "new_with_global cfg gcfg =
     \<lparr>config = cfg, global_config = gcfg, global = \<lparr>tokens = capacity gcfg, last_ms = 0\<rparr>, buckets = []\<rparr>"

definition limiter_new :: "rate_config \<Rightarrow> rate_limiter" where
  "limiter_new cfg = new_with_global cfg DEFAULT_GLOBAL_RATE"

definition refill :: "bucket \<Rightarrow> rate_config \<Rightarrow> nat \<Rightarrow> bucket" where
  "refill b cfg now =
     (let elapsed_ms = now - last_ms b;
          replenished = (of_nat elapsed_ms / 1000) * refill_per_sec cfg
      in \<lparr>tokens = min (tokens b + replenished) (capacity cfg), last_ms = max (last_ms b) now\<rparr>)"

definition older_bucket :: "string \<times> bucket \<Rightarrow> string \<times> bucket \<Rightarrow> bool" where
  "older_bucket l r \<longleftrightarrow>
     last_ms (snd l) < last_ms (snd r) \<or> last_ms (snd l) = last_ms (snd r) \<and> fst l < fst r"

fun oldest_bucket :: "(string \<times> bucket) list \<Rightarrow> (string \<times> bucket) option" where
  "oldest_bucket [] = None"
| "oldest_bucket (b # bs) =
     (case oldest_bucket bs of
        None \<Rightarrow> Some b
      | Some o' \<Rightarrow> Some (if older_bucket o' b then o' else b))"

definition retain_fresh :: "nat \<Rightarrow> (string, bucket) bmap \<Rightarrow> (string, bucket) bmap" where
  "retain_fresh now bs = bm_retain (\<lambda>_ b. now - last_ms b \<le> BUCKET_IDLE_TTL_MS) bs"

definition make_room :: "string \<Rightarrow> (string, bucket) bmap \<Rightarrow> (string, bucket) bmap" where
  "make_room origin bs =
     (if \<not> bm_contains bs origin \<and> length bs \<ge> MAX_BUCKETS
      then case oldest_bucket bs of None \<Rightarrow> bs | Some (name, _) \<Rightarrow> bm_remove name bs
      else bs)"

definition or_insert_bucket :: "string \<Rightarrow> bucket \<Rightarrow> (string, bucket) bmap \<Rightarrow> bucket" where
  "or_insert_bucket origin fresh bs = (case bm_get bs origin of None \<Rightarrow> fresh | Some b \<Rightarrow> b)"

definition try_consume :: "rate_limiter \<Rightarrow> string \<Rightarrow> nat \<Rightarrow> bool \<times> rate_limiter" where
  "try_consume l origin now =
     (let bs = make_room origin (retain_fresh now (buckets l));
          ob = refill (or_insert_bucket origin \<lparr>tokens = capacity (config l), last_ms = now\<rparr> bs) (config l) now;
          gb = refill (global l) (global_config l) now
      in if tokens ob \<ge> 1 \<and> tokens gb \<ge> 1
         then (True, l\<lparr>global := gb\<lparr>tokens := tokens gb - 1\<rparr>,
                        buckets := bm_insert origin (ob\<lparr>tokens := tokens ob - 1\<rparr>) bs\<rparr>)
         else (False, l\<lparr>global := gb, buckets := bm_insert origin ob bs\<rparr>))"

definition limiter_forget :: "rate_limiter \<Rightarrow> string \<Rightarrow> rate_limiter" where
  "limiter_forget l origin = l\<lparr>buckets := bm_remove origin (buckets l)\<rparr>"

text \<open>A run of attempts, in order, with the verdict of each.\<close>

fun run_attempts :: "rate_limiter \<Rightarrow> (string \<times> nat) list \<Rightarrow> bool list \<times> rate_limiter" where
  "run_attempts l [] = ([], l)"
| "run_attempts l ((origin, now) # as) =
     (let (ok, l') = try_consume l origin now; (oks, l'') = run_attempts l' as in (ok # oks, l''))"

definition granted :: "string set \<Rightarrow> (string \<times> nat) list \<Rightarrow> bool list \<Rightarrow> nat" where
  "granted os as oks = length (filter (\<lambda>((origin, _), ok). ok \<and> origin \<in> os) (zip as oks))"

section \<open>The invariant\<close>

definition config_ok :: "rate_config \<Rightarrow> bool" where
  "config_ok cfg \<longleftrightarrow> 0 \<le> capacity cfg \<and> 0 \<le> refill_per_sec cfg"

definition bucket_ok :: "rate_config \<Rightarrow> bucket \<Rightarrow> bool" where
  "bucket_ok cfg b \<longleftrightarrow> 0 \<le> tokens b \<and> tokens b \<le> capacity cfg"

definition limiter_inv :: "rate_limiter \<Rightarrow> bool" where
  "limiter_inv l \<longleftrightarrow>
     config_ok (config l) \<and> config_ok (global_config l)
     \<and> bucket_ok (global_config l) (global l)
     \<and> bm_inv (buckets l) \<and> length (buckets l) \<le> MAX_BUCKETS
     \<and> (\<forall>(name, b) \<in> set (buckets l). bucket_ok (config l) b)"

lemma refill_last [simp]: "last_ms (refill b cfg now) = max (last_ms b) now"
  by (simp add: refill_def Let_def)

lemma refill_tokens:
  "tokens (refill b cfg now) = min (tokens b + of_nat (now - last_ms b) / 1000 * refill_per_sec cfg) (capacity cfg)"
  by (simp add: refill_def Let_def)

lemma refill_ok: "config_ok cfg \<Longrightarrow> bucket_ok cfg b \<Longrightarrow> bucket_ok cfg (refill b cfg now)"
  by (auto simp: bucket_ok_def config_ok_def refill_tokens)

text \<open>A clock that is behind the bucket's high-water mark changes nothing.\<close>

lemma refill_past: "bucket_ok cfg b \<Longrightarrow> now \<le> last_ms b \<Longrightarrow> refill b cfg now = b"
  by (cases b) (simp add: bucket_ok_def refill_def Let_def)

lemma refill_wait:
  assumes "0 \<le> tokens b" "1000 \<le> of_nat (now - last_ms b) * refill_per_sec cfg" "1 \<le> capacity cfg"
  shows "1 \<le> tokens (refill b cfg now)"
  using assms unfolding refill_tokens times_divide_eq_left by linarith

lemma oldest_bucket_in: "oldest_bucket bs = Some b \<Longrightarrow> b \<in> set bs"
  by (induction bs arbitrary: b) (auto split: option.splits if_splits)

lemma oldest_bucket_None [simp]: "oldest_bucket bs = None \<longleftrightarrow> bs = []"
  by (cases bs) (auto split: option.splits)

text \<open>Eviction removes the least recently used bucket.\<close>

lemma oldest_bucket_min:
  "oldest_bucket bs = Some b \<Longrightarrow> x \<in> set bs \<Longrightarrow> last_ms (snd b) \<le> last_ms (snd x)"
proof (induction bs arbitrary: b x)
  case (Cons y bs)
  show ?case
  proof (cases "oldest_bucket bs")
    case None
    then show ?thesis using Cons.prems by simp
  next
    case (Some z)
    then have "\<forall>x\<in>set bs. last_ms (snd z) \<le> last_ms (snd x)" using Cons.IH by blast
    then show ?thesis
      using Cons.prems Some by (fastforce simp: older_bucket_def split: if_splits)
  qed
qed simp

lemma set_bm_remove: "set (bm_remove k m) \<subseteq> set m"
  by (auto simp: bm_remove_def)

lemma set_bm_retain: "set (bm_retain p m) \<subseteq> set m"
  by (auto simp: bm_retain_def)

lemma bm_get_in: "bm_get m k = Some v \<Longrightarrow> (k, v) \<in> set m"
  unfolding bm_get_def by (rule map_of_SomeD)

lemma bm_get_Some_iff: "bm_inv m \<Longrightarrow> bm_get m k = Some v \<longleftrightarrow> (k, v) \<in> set m"
  unfolding bm_get_def by (simp add: bm_inv_distinct map_of_eq_Some_iff)

lemma length_bm_remove_in:
  "bm_inv m \<Longrightarrow> (k, v) \<in> set m \<Longrightarrow> length (bm_remove k m) < length m"
  unfolding bm_remove_def by (induction m) (auto simp: bm_inv_def length_filter_less intro: le_imp_less_Suc)

lemma make_room_props:
  assumes "bm_inv bs" "length bs \<le> MAX_BUCKETS"
  shows "bm_inv (make_room o' bs)" "set (make_room o' bs) \<subseteq> set bs"
    "bm_contains (make_room o' bs) o' \<or> length (make_room o' bs) < MAX_BUCKETS"
proof -
  let ?full = "\<not> bm_contains bs o' \<and> length bs \<ge> MAX_BUCKETS"
  show "bm_inv (make_room o' bs)" "set (make_room o' bs) \<subseteq> set bs"
    using assms set_bm_remove [of _ bs] by (auto simp: make_room_def bm_inv_remove split: option.splits)
  show "bm_contains (make_room o' bs) o' \<or> length (make_room o' bs) < MAX_BUCKETS"
  proof (cases ?full)
    case True
    then have "bs \<noteq> []" using assms by (auto simp: MAX_BUCKETS_def)
    then obtain n b where o: "oldest_bucket bs = Some (n, b)"
      by (metis oldest_bucket_None option.exhaust surj_pair)
    then have "length (bm_remove n bs) < length bs"
      using length_bm_remove_in [OF assms(1)] oldest_bucket_in by blast
    then show ?thesis using True o assms by (simp add: make_room_def)
  next
    case False
    then show ?thesis by (auto simp: make_room_def)
  qed
qed

lemma length_make_room: "length (make_room o' bs) \<le> length bs"
  by (auto simp: make_room_def bm_remove_def split: option.split)

lemma length_bm_insert:
  "bm_inv m \<Longrightarrow> length (bm_insert k v m) = (if bm_get m k = None then Suc (length m) else length m)"
  by (rule bm.size_upd)


lemma retain_fresh_props:
  assumes "bm_inv bs"
  shows "bm_inv (retain_fresh now bs)" "set (retain_fresh now bs) \<subseteq> set bs"
    "length (retain_fresh now bs) \<le> length bs"
  using bm_inv_retain [OF assms] by (auto simp: retain_fresh_def bm_retain_def)

text \<open>The table after retention and eviction, and the bucket the attempt is charged to.\<close>

definition table_for :: "rate_limiter \<Rightarrow> string \<Rightarrow> nat \<Rightarrow> (string, bucket) bmap" where
  "table_for l origin now = make_room origin (retain_fresh now (buckets l))"

definition charged :: "rate_limiter \<Rightarrow> string \<Rightarrow> nat \<Rightarrow> bucket" where
  "charged l origin now =
     refill (or_insert_bucket origin \<lparr>tokens = capacity (config l), last_ms = now\<rparr> (table_for l origin now))
       (config l) now"

lemma table_for_props:
  assumes "limiter_inv l"
  shows "bm_inv (table_for l o' now)" "set (table_for l o' now) \<subseteq> set (buckets l)"
    "bm_contains (table_for l o' now) o' \<or> length (table_for l o' now) < MAX_BUCKETS"
    "length (table_for l o' now) \<le> MAX_BUCKETS"
proof -
  let ?r = "retain_fresh now (buckets l)"
  have i: "bm_inv (buckets l)" "length (buckets l) \<le> MAX_BUCKETS"
    using assms by (simp_all add: limiter_inv_def)
  note r = retain_fresh_props [OF i(1), of now]
  have len: "length ?r \<le> MAX_BUCKETS" using r(3) i(2) by (rule le_trans)
  note m = make_room_props [OF r(1) len, of o']
  show "bm_inv (table_for l o' now)" "set (table_for l o' now) \<subseteq> set (buckets l)"
    "bm_contains (table_for l o' now) o' \<or> length (table_for l o' now) < MAX_BUCKETS"
    using m r(2) by (auto simp: table_for_def)
  show "length (table_for l o' now) \<le> MAX_BUCKETS"
    using le_trans [OF length_make_room len] by (simp add: table_for_def)
qed

lemma charged_ok:
  assumes "limiter_inv l"
  shows "bucket_ok (config l) (charged l o' now)"
proof -
  have "bucket_ok (config l) (or_insert_bucket o' \<lparr>tokens = capacity (config l), last_ms = now\<rparr> (table_for l o' now))"
    using assms table_for_props(2) [OF assms, of o' now]
    by (auto simp: or_insert_bucket_def limiter_inv_def bucket_ok_def config_ok_def
        split: option.split dest!: bm_get_in)
  then show ?thesis
    using assms by (simp add: charged_def refill_ok limiter_inv_def)
qed

text \<open>The outcome of an attempt: granted exactly when both budgets hold a whole token, and only then is
  one taken from each.\<close>

lemma try_consume_alt:
  "try_consume l origin now =
     (let ob = charged l origin now; gb = refill (global l) (global_config l) now;
          ok = (1 \<le> tokens ob \<and> 1 \<le> tokens gb); spent = (if ok then 1 else 0)
      in (ok, l\<lparr>global := gb\<lparr>tokens := tokens gb - spent\<rparr>,
                buckets := bm_insert origin (ob\<lparr>tokens := tokens ob - spent\<rparr>) (table_for l origin now)\<rparr>))"
  unfolding try_consume_def Let_def charged_def table_for_def by simp

lemma bucket_ok_spend:
  "bucket_ok cfg b \<Longrightarrow> s = 0 \<or> s = 1 \<and> 1 \<le> tokens b \<Longrightarrow> bucket_ok cfg (b\<lparr>tokens := tokens b - s\<rparr>)"
  by (auto simp: bucket_ok_def)

lemma try_consume_inv:
  assumes "limiter_inv l" "try_consume l o' now = (ok, l')"
  shows "limiter_inv l'" "config l' = config l" "global_config l' = global_config l"
proof -
  let ?ob = "charged l o' now" and ?gb = "refill (global l) (global_config l) now"
  let ?s = "if ok then 1 else 0 :: rat"
  have ok: "ok \<longleftrightarrow> 1 \<le> tokens ?ob \<and> 1 \<le> tokens ?gb"
    and l': "l' = l\<lparr>global := ?gb\<lparr>tokens := tokens ?gb - ?s\<rparr>,
      buckets := bm_insert o' (?ob\<lparr>tokens := tokens ?ob - ?s\<rparr>) (table_for l o' now)\<rparr>"
    using assms(2) by (auto simp: try_consume_alt Let_def)
  show "config l' = config l" "global_config l' = global_config l" by (simp_all add: l')
  note t = table_for_props [OF assms(1), of o' now]
  have g: "bucket_ok (global_config l) ?gb"
    using assms(1) by (simp add: limiter_inv_def refill_ok)
  have "length (bm_insert o' (?ob\<lparr>tokens := tokens ?ob - ?s\<rparr>) (table_for l o' now)) \<le> MAX_BUCKETS"
    using t by (intro bm.size_upd_limit) (auto simp: bm_contains_def)
  moreover have "bucket_ok (config l) b"
    if "(n, b) \<in> set (bm_insert o' (?ob\<lparr>tokens := tokens ?ob - ?s\<rparr>) (table_for l o' now))" for n b
  proof -
    have "b = ?ob\<lparr>tokens := tokens ?ob - ?s\<rparr> \<or> (n, b) \<in> set (buckets l)"
      using that set_bm_insert t(2) by fastforce
    then show ?thesis
      using bucket_ok_spend [OF charged_ok [OF assms(1)], of ?s] assms(1) ok
      by (auto simp: limiter_inv_def)
  qed
  moreover have "bucket_ok (global_config l) (?gb\<lparr>tokens := tokens ?gb - ?s\<rparr>)"
    using g ok by (intro bucket_ok_spend) auto
  ultimately show "limiter_inv l'"
    using assms(1) t(1) unfolding l' limiter_inv_def by (auto simp: bm_inv_insert)
qed

lemma limiter_new_inv:
  "config_ok cfg \<Longrightarrow> config_ok gcfg \<Longrightarrow> limiter_inv (new_with_global cfg gcfg)"
  by (simp add: limiter_inv_def new_with_global_def bucket_ok_def config_ok_def bm_inv_def)

lemma limiter_forget_inv: "limiter_inv l \<Longrightarrow> limiter_inv (limiter_forget l o')"
  using set_bm_remove [of o' "buckets l"] bm.size_remove_le [of "buckets l" o']
  by (auto simp: limiter_inv_def limiter_forget_def bm_inv_remove)

section \<open>The aggregate budget\<close>

definition per_ms :: "rate_config \<Rightarrow> rat" where
  "per_ms cfg = refill_per_sec cfg / 1000"

lemma global_step:
  assumes "try_consume l o' now = (ok, l')" "limiter_inv l"
  shows "tokens (global l') + (if ok then 1 else 0)
    \<le> tokens (global l) + of_nat (last_ms (global l') - last_ms (global l)) * per_ms (global_config l)"
    "last_ms (global l') = max (last_ms (global l)) now"
proof -
  have l': "global l' = (refill (global l) (global_config l) now)
      \<lparr>tokens := tokens (refill (global l) (global_config l) now) - (if ok then 1 else 0)\<rparr>"
    using assms by (auto simp: try_consume_alt Let_def)
  have diff: "max (last_ms (global l)) now - last_ms (global l) = now - last_ms (global l)" by linarith
  show "last_ms (global l') = max (last_ms (global l)) now" by (simp add: l')
  show "tokens (global l') + (if ok then 1 else 0)
    \<le> tokens (global l) + of_nat (last_ms (global l') - last_ms (global l)) * per_ms (global_config l)"
    unfolding l' using diff by (simp add: refill_tokens per_ms_def)
qed


lemma run_attempts_inv:
  "limiter_inv l \<Longrightarrow> run_attempts l as = (oks, l') \<Longrightarrow>
     limiter_inv l' \<and> config l' = config l \<and> global_config l' = global_config l
     \<and> last_ms (global l) \<le> last_ms (global l') \<and> length oks = length as"
proof (induction as arbitrary: l oks)
  case (Cons a as)
  obtain o' now where a: "a = (o', now)" by fastforce
  obtain ok l1 where t: "try_consume l o' now = (ok, l1)" by fastforce
  obtain oks1 where r: "run_attempts l1 as = (oks1, l')" "oks = ok # oks1"
    using Cons.prems(2) by (auto simp: a t split: prod.splits)
  note i = try_consume_inv [OF Cons.prems(1) t]
  show ?case using Cons.IH [OF i(1) r(1)] i r(2) global_step(2) [OF t Cons.prems(1)] by auto
qed auto

lemma granted_Cons:
  "granted os ((o', now) # as) (ok # oks) = (if ok \<and> o' \<in> os then 1 else 0) + granted os as oks"
  by (simp add: granted_def)

lemma granted_Nil [simp]: "granted os [] oks = 0"
  by (simp add: granted_def)

text \<open>
  A budget pays for the admissions of the watched origins: it is never negative, each admission costs
  a token, and it grows no faster than its rate on the limiter's high-water clock.
\<close>

locale admission_budget =
  fixes watched :: "string set"
    and good :: "rate_limiter \<Rightarrow> (string \<times> nat) list \<Rightarrow> bool"
    and budget :: "rate_limiter \<Rightarrow> rat"
    and rate :: "rate_limiter \<Rightarrow> rat"
  assumes good_inv: "good l as \<Longrightarrow> limiter_inv l"
    and good_step: "good l ((o', now) # as) \<Longrightarrow> try_consume l o' now = (ok, l') \<Longrightarrow> good l' as"
    and rate_step: "good l ((o', now) # as) \<Longrightarrow> try_consume l o' now = (ok, l') \<Longrightarrow> rate l' = rate l"
    and budget_step: "good l ((o', now) # as) \<Longrightarrow> try_consume l o' now = (ok, l') \<Longrightarrow>
      budget l' + (if ok \<and> o' \<in> watched then 1 else 0)
        \<le> budget l + of_nat (last_ms (global l') - last_ms (global l)) * rate l"
    and budget_nonneg: "good l as \<Longrightarrow> 0 \<le> budget l"
begin

lemma run_budget:
  "good l as \<Longrightarrow> run_attempts l as = (oks, l') \<Longrightarrow>
     budget l' + of_nat (granted watched as oks)
       \<le> budget l + of_nat (last_ms (global l') - last_ms (global l)) * rate l
     \<and> 0 \<le> budget l'"
proof (induction as arbitrary: l oks)
  case Nil
  then show ?case using budget_nonneg by simp
next
  case (Cons a as)
  obtain o' now where a: "a = (o', now)" by fastforce
  obtain ok l1 where t: "try_consume l o' now = (ok, l1)" by fastforce
  obtain oks1 where r: "run_attempts l1 as = (oks1, l')" "oks = ok # oks1"
    using Cons.prems(2) by (auto simp: a t split: prod.splits)
  note g = Cons.prems(1) [unfolded a]
  have i: "limiter_inv l" "limiter_inv l1"
    using good_inv g good_step [OF g t] by blast+
  have "last_ms (global l) \<le> last_ms (global l1)" "last_ms (global l1) \<le> last_ms (global l')"
    using global_step(2) [OF t i(1)] run_attempts_inv [OF i(2) r(1)] by auto
  then have "last_ms (global l') - last_ms (global l)
      = (last_ms (global l1) - last_ms (global l)) + (last_ms (global l') - last_ms (global l1))" by simp
  then have "(of_nat (last_ms (global l') - last_ms (global l)) :: rat) * rate l
      = of_nat (last_ms (global l1) - last_ms (global l)) * rate l
        + of_nat (last_ms (global l') - last_ms (global l1)) * rate l"
    by (metis of_nat_add distrib_right)
  then show ?case
    using Cons.IH [OF good_step [OF g t] r(1)] budget_step [OF g t] rate_step [OF g t]
    by (auto simp: a r(2) granted_Cons)
qed

lemma run_granted:
  "good l as \<Longrightarrow> run_attempts l as = (oks, l') \<Longrightarrow>
     of_nat (granted watched as oks)
       \<le> budget l + of_nat (last_ms (global l') - last_ms (global l)) * rate l"
  using run_budget [of l as oks l'] by linarith

end


section \<open>The budget of one origin\<close>

text \<open>What an origin could spend at the limiter's high-water time.\<close>

definition origin_budget :: "string \<Rightarrow> rate_limiter \<Rightarrow> rat" where
  "origin_budget o' l =
     (case bm_get (buckets l) o' of
        None \<Rightarrow> capacity (config l)
      | Some b \<Rightarrow> min (capacity (config l))
          (tokens b + of_nat (last_ms (global l) - last_ms b) * per_ms (config l)))"

text \<open>
  The conditions under which buckets are never lost before they are full again: the idle window
  refills a bucket, the clock does not run backwards, and no more than the allowed number of origins is
  active.
\<close>

definition steady :: "rate_limiter \<Rightarrow> (string \<times> nat) list \<Rightarrow> bool" where
  "steady l as \<longleftrightarrow> limiter_inv l
     \<and> capacity (config l) \<le> of_nat BUCKET_IDLE_TTL_MS * per_ms (config l)
     \<and> (\<forall>(n, b) \<in> set (buckets l). last_ms b \<le> last_ms (global l))
     \<and> sorted_wrt (\<le>) (last_ms (global l) # map snd as)
     \<and> card (fst ` set (buckets l) \<union> fst ` set as) \<le> MAX_BUCKETS"

lemma bm_contains_iff: "bm_contains m k \<longleftrightarrow> k \<in> fst ` set m"
  by (simp add: bm_contains_def bm_get_def map_of_eq_None_iff)

lemma steady_table:
  assumes "steady l ((o', now) # as)"
  shows "table_for l o' now = retain_fresh now (buckets l)"
proof -
  let ?r = "retain_fresh now (buckets l)"
  have inv: "bm_inv (buckets l)" using assms by (simp add: steady_def limiter_inv_def)
  have "bm_contains ?r o' \<or> length ?r < MAX_BUCKETS"
  proof (rule disjCI)
    assume "\<not> length ?r < MAX_BUCKETS"
    moreover have "length ?r = card (fst ` set ?r)"
      using retain_fresh_props(1) [OF inv] by (metis bm_inv_distinct distinct_card length_map set_map)
    moreover have "insert o' (fst ` set ?r) \<subseteq> fst ` set (buckets l) \<union> fst ` set ((o', now) # as)"
      using retain_fresh_props(2) [OF inv, of now] by auto
    then have "card (insert o' (fst ` set ?r)) \<le> card (fst ` set (buckets l) \<union> fst ` set ((o', now) # as))"
      by (intro card_mono) auto
    then have "card (insert o' (fst ` set ?r)) \<le> MAX_BUCKETS"
      using assms by (simp add: steady_def)
    ultimately show "bm_contains ?r o'"
      by (auto simp: bm_contains_iff card_insert_if split: if_splits)
  qed
  then show ?thesis by (auto simp: table_for_def make_room_def)
qed


text \<open>What an origin could spend at time \<open>now\<close>, from the bucket it has or a fresh one.\<close>

definition budget_at :: "string \<Rightarrow> rate_limiter \<Rightarrow> nat \<Rightarrow> rat" where
  "budget_at o' l now =
     (case bm_get (buckets l) o' of
        None \<Rightarrow> capacity (config l)
      | Some b \<Rightarrow> min (capacity (config l)) (tokens b + of_nat (now - last_ms b) * per_ms (config l)))"

lemma steady_bucket:
  assumes "steady l as" "bm_get (buckets l) o' = Some b"
  shows "bucket_ok (config l) b" "last_ms b \<le> last_ms (global l)"
  using assms bm_get_in [OF assms(2)] by (auto simp: steady_def limiter_inv_def)

lemma steady_rate: "steady l as \<Longrightarrow> 0 \<le> per_ms (config l)"
  by (simp add: steady_def limiter_inv_def config_ok_def per_ms_def)

text \<open>A bucket idle for longer than the window is full, so forgetting it changes no budget.\<close>

lemma idle_full:
  assumes "steady l as" "bm_get (buckets l) o' = Some b" "\<not> now - last_ms b \<le> BUCKET_IDLE_TTL_MS"
  shows "budget_at o' l now = capacity (config l)"
proof -
  have "capacity (config l) \<le> of_nat BUCKET_IDLE_TTL_MS * per_ms (config l)"
    using assms(1) by (simp add: steady_def)
  also have "\<dots> \<le> of_nat (now - last_ms b) * per_ms (config l)"
    using assms(3) steady_rate [OF assms(1)] by (intro mult_right_mono) auto
  finally show ?thesis
    using steady_bucket [OF assms(1,2)] assms(2) by (simp add: budget_at_def bucket_ok_def)
qed

lemma retained_budget:
  assumes "steady l as"
  shows "(case bm_get (retain_fresh now (buckets l)) o' of
       None \<Rightarrow> capacity (config l)
     | Some b \<Rightarrow> min (capacity (config l)) (tokens b + of_nat (now - last_ms b) * per_ms (config l)))
   = budget_at o' l now"
proof -
  have inv: "bm_inv (buckets l)" using assms by (simp add: steady_def limiter_inv_def)
  show ?thesis
    using idle_full [OF assms, of o' _ now]
    by (auto simp: retain_fresh_def bm_get_retain [OF inv] budget_at_def split: option.split)
qed

lemma charged_budget:
  assumes "steady l ((o', now) # as)"
  shows "tokens (charged l o' now) = budget_at o' l now" "last_ms (charged l o' now) = now"
proof -
  have now: "last_ms (global l) \<le> now" using assms by (simp add: steady_def)
  have inv: "bm_inv (buckets l)" using assms by (simp add: steady_def limiter_inv_def)
  let ?b = "bm_get (retain_fresh now (buckets l)) o'"
  have "tokens (charged l o' now) = (case ?b of None \<Rightarrow> capacity (config l)
     | Some b \<Rightarrow> min (capacity (config l)) (tokens b + of_nat (now - last_ms b) * per_ms (config l)))"
    unfolding charged_def steady_table [OF assms]
    by (auto simp: or_insert_bucket_def refill_tokens per_ms_def min.commute split: option.split)
  then show "tokens (charged l o' now) = budget_at o' l now" using retained_budget [OF assms] by simp
  have "last_ms b \<le> now" if "?b = Some b" for b
    using that steady_bucket(2) [OF assms, of o' b] now
    by (auto simp: retain_fresh_def bm_get_retain [OF inv] split: option.splits if_splits)
  then show "last_ms (charged l o' now) = now"
    unfolding charged_def steady_table [OF assms] by (auto simp: or_insert_bucket_def split: option.split)
qed

lemma budget_at_grows:
  assumes "steady l as" "last_ms (global l) \<le> now"
  shows "budget_at o' l now \<le> origin_budget o' l + of_nat (now - last_ms (global l)) * per_ms (config l)"
proof (cases "bm_get (buckets l) o'")
  case None
  then show ?thesis using steady_rate [OF assms(1)] by (simp add: budget_at_def origin_budget_def)
next
  case (Some b)
  let ?G = "last_ms (global l)"
  have "now - last_ms b = (?G - last_ms b) + (now - ?G)"
    using steady_bucket(2) [OF assms(1) Some] assms(2) by simp
  then have "(of_nat (now - last_ms b) :: rat) * per_ms (config l)
      = of_nat (?G - last_ms b) * per_ms (config l) + of_nat (now - ?G) * per_ms (config l)"
    by (metis of_nat_add distrib_right)
  moreover have "0 \<le> of_nat (now - ?G) * per_ms (config l)" using steady_rate [OF assms(1)] by simp
  ultimately show ?thesis unfolding budget_at_def origin_budget_def Some option.case by linarith
qed

lemma steady_result:
  assumes "steady l ((o', now) # as)" "try_consume l o' now = (ok, l')"
  shows "last_ms (global l') = now" "config l' = config l"
    "buckets l' = bm_insert o' \<lparr>tokens = budget_at o' l now - (if ok then 1 else 0), last_ms = now\<rparr>
       (retain_fresh now (buckets l))"
proof -
  have i: "limiter_inv l" and now: "last_ms (global l) \<le> now" using assms(1) by (simp_all add: steady_def)
  show "last_ms (global l') = now" using global_step(2) [OF assms(2) i] now by simp
  show "config l' = config l" by (rule try_consume_inv(2) [OF i assms(2)])
  have "buckets l' = bm_insert o' ((charged l o' now)\<lparr>tokens := tokens (charged l o' now) - (if ok then 1 else 0)\<rparr>)
      (table_for l o' now)"
    using assms(2) by (auto simp: try_consume_alt Let_def)
  moreover have "(charged l o' now)\<lparr>tokens := x\<rparr> = \<lparr>tokens = x, last_ms = now\<rparr>" for x
    using charged_budget(2) [OF assms(1)] by (cases "charged l o' now") simp
  ultimately show "buckets l' = bm_insert o' \<lparr>tokens = budget_at o' l now - (if ok then 1 else 0), last_ms = now\<rparr>
       (retain_fresh now (buckets l))"
    using charged_budget(1) [OF assms(1)] steady_table [OF assms(1)] by simp
qed

lemma steady_step:
  assumes "steady l ((o', now) # as)" "try_consume l o' now = (ok, l')"
  shows "steady l' as"
proof -
  let ?b = "\<lparr>tokens = budget_at o' l now - (if ok then 1 else 0), last_ms = now\<rparr>"
  note r = steady_result [OF assms]
  have i: "limiter_inv l" and now: "last_ms (global l) \<le> now"
    and srt: "sorted_wrt (\<le>) (now # map snd as)"
    using assms(1) by (auto simp: steady_def)
  have inv: "bm_inv (buckets l)" using i by (simp add: limiter_inv_def)
  have sub: "set (buckets l') \<subseteq> insert (o', ?b) (set (buckets l))"
    using set_bm_insert [of o' ?b] retain_fresh_props(2) [OF inv, of now] unfolding r(3) by blast
  have "last_ms b \<le> now" if "(n, b) \<in> set (buckets l')" for n b
  proof -
    have "b = ?b \<or> (n, b) \<in> set (buckets l)" using that sub by auto
    then show ?thesis using assms(1) now by (auto simp: steady_def)
  qed
  moreover have "card (fst ` set (buckets l') \<union> fst ` set as)
      \<le> card (fst ` set (buckets l) \<union> fst ` set ((o', now) # as))"
    using sub by (intro card_mono) auto
  moreover have "\<dots> \<le> MAX_BUCKETS" using assms(1) by (simp only: steady_def)
  ultimately show ?thesis
    using assms(1) srt r(1,2) try_consume_inv(1) [OF i assms(2)] unfolding steady_def by auto
qed

lemma origin_budget_step:
  assumes "steady l ((o', now) # as)" "try_consume l o' now = (ok, l')"
  shows "origin_budget w l' + (if ok \<and> o' \<in> {w} then 1 else 0)
    \<le> origin_budget w l + of_nat (last_ms (global l') - last_ms (global l)) * per_ms (config l)"
proof -
  note r = steady_result [OF assms]
  have now: "last_ms (global l) \<le> now" using assms(1) by (simp add: steady_def)
  have "origin_budget w l' + (if ok \<and> o' \<in> {w} then 1 else 0) \<le> budget_at w l now"
  proof (cases "w = o'")
    case True
    then show ?thesis by (simp add: origin_budget_def r bm_get_insert)
  next
    case False
    then show ?thesis
      using retained_budget [OF assms(1), of now w] unfolding origin_budget_def r bm_get_insert by simp
  qed
  then show ?thesis using budget_at_grows [OF assms(1) now, of w] r(1) by simp
qed

interpretation per_origin: admission_budget "{w}" steady "origin_budget w" "\<lambda>l. per_ms (config l)" for w
proof unfold_locales
  show "0 \<le> origin_budget w l" if "steady l as" for l as
    using that steady_bucket(1) [OF that, of w] steady_rate [OF that]
    by (auto simp: origin_budget_def bucket_ok_def steady_def limiter_inv_def config_ok_def split: option.split)
  show "limiter_inv l" if "steady l as" for l as using that by (simp add: steady_def)
qed (fact steady_step, metis steady_result(2), fact origin_budget_step)


section \<open>What the limiter guarantees\<close>

definition sample_limiter :: rate_limiter where
  "sample_limiter = new_with_global \<lparr>capacity = 1, refill_per_sec = 1\<rparr> \<lparr>capacity = 2, refill_per_sec = 1\<rparr>"

lemma sample_limiter_inv: "limiter_inv sample_limiter"
  unfolding sample_limiter_def by (rule limiter_new_inv) (simp_all add: config_ok_def)

definition sample_attempts :: "(string \<times> nat) list" where
  "sample_attempts = [(''a'', 0), (''a'', 0), (''b'', 0), (''c'', 0), (''a'', 1000)]"

lemmas limiter_eval =
  sample_limiter_def sample_attempts_def new_with_global_def try_consume_def retain_fresh_def make_room_def
  or_insert_bucket_def refill_def bm_retain_def bm_contains_def bm_get_def BUCKET_IDLE_TTL_MS_def MAX_BUCKETS_def

lemma sample_run:
  "fst (run_attempts sample_limiter sample_attempts) = [True, False, True, False, True]"
  "last_ms (global (snd (run_attempts sample_limiter sample_attempts))) = 1000"
  by (simp_all add: limiter_eval Let_def)



text \<open>While the clock does not run backwards, no more than 4096 origins are active and the idle window
  is long enough to refill a bucket, the attempts granted to one origin are at most its burst plus its
  rate times the elapsed time, whatever the other origins do: neither retention nor eviction hands
  an origin a budget it has spent.\<close>

theorem origin_bounded:
  assumes "steady l as" "run_attempts l as = (oks, l')"
  shows "of_nat (granted {w} as oks)
      \<le> capacity (config l)
        + of_nat (last_ms (global l') - last_ms (global l)) / 1000 * refill_per_sec (config l)"
proof -
  have "origin_budget w l \<le> capacity (config l)"
    by (auto simp: origin_budget_def split: option.split)
  then show ?thesis using per_origin.run_granted [OF assms, of w] by (simp add: per_ms_def)
qed

theorem origin_bounded_witness:
  "granted {''a''} sample_attempts (fst (run_attempts sample_limiter sample_attempts)) = 2
   \<and> (2 :: rat) \<le> 1 + of_nat 1000 / 1000 * 1"
proof -
  have "steady sample_limiter sample_attempts"
    using sample_limiter_inv
    by (simp add: steady_def sample_limiter_def new_with_global_def sample_attempts_def per_ms_def
        BUCKET_IDLE_TTL_MS_def MAX_BUCKETS_def card_insert_if)
  then show ?thesis
    using origin_bounded [OF _ surjective_pairing, of sample_limiter sample_attempts "''a''"]
    unfolding sample_run by (simp add: granted_def sample_attempts_def sample_limiter_def new_with_global_def)
qed

text \<open>An origin is never starved: when both capacities allow a token and, on the aggregate bucket and on
  the origin's own, a token's worth of time has passed since its last use, the attempt is granted.\<close>

theorem attempt_after_wait:
  assumes "limiter_inv l" "1 \<le> capacity (config l)" "1 \<le> capacity (global_config l)"
    "1000 \<le> of_nat (now - last_ms (global l)) * refill_per_sec (global_config l)"
    "\<And>b. bm_get (buckets l) o' = Some b \<Longrightarrow> 1000 \<le> of_nat (now - last_ms b) * refill_per_sec (config l)"
  shows "fst (try_consume l o' now)"
proof -
  have inv: "bm_inv (buckets l)" and g: "0 \<le> tokens (global l)"
    using assms(1) by (simp_all add: limiter_inv_def bucket_ok_def)
  have "1 \<le> tokens (charged l o' now)"
  proof (cases "bm_get (table_for l o' now) o'")
    case None
    then show ?thesis using assms(2) by (simp add: charged_def or_insert_bucket_def refill_tokens)
  next
    case (Some b)
    then have b: "(o', b) \<in> set (buckets l)"
      using table_for_props(2) [OF assms(1), of o' now] bm_get_in [OF Some] by blast
    then have "0 \<le> tokens b" using assms(1) by (auto simp: limiter_inv_def bucket_ok_def)
    moreover have "1000 \<le> of_nat (now - last_ms b) * refill_per_sec (config l)"
      using assms(5) b inv by (simp add: bm_get_Some_iff)
    ultimately show ?thesis
      unfolding charged_def or_insert_bucket_def Some option.case by (intro refill_wait assms(2))
  qed
  moreover have "1 \<le> tokens (refill (global l) (global_config l) now)"
    by (intro refill_wait assms(3,4) g)
  ultimately show ?thesis by (simp add: try_consume_alt Let_def)
qed

theorem attempt_after_wait_witness:
  "fst (try_consume (snd (run_attempts sample_limiter [(''a'', 0), (''a'', 0)])) ''a'' 1000)"
proof (rule attempt_after_wait)
  show "limiter_inv (snd (run_attempts sample_limiter [(''a'', 0), (''a'', 0)]))"
    using run_attempts_inv [OF sample_limiter_inv surjective_pairing] by blast
qed (auto simp: limiter_eval Let_def split: if_splits)

end
