(* ===== verification/Interact_Schema.thy ===== *)
theory Interact_Schema
  imports Cosmix_Str
begin

text \<open>
  The notification half of the interaction schema (\<^verbatim>\<open>cosmix-interaction-schema/src/lib.rs\<close>): the request and
  record types, structural validation of a request, the byte accounting and the two bus grammars.  The JSON
  encoding is serde's and is not modelled.  \<open>usize\<close> lengths are naturals; the additions of
  \<open>retained_bytes\<close> saturate as in the code.
\<close>

datatype urgency = Low | Normal | Critical

datatype icon_ref = Lucide string | Emoji string

record dispatch =
  d_service :: string
  d_verb :: string

record notify_action =
  act_key :: string
  act_label :: string
  on_invoke :: "dispatch option"

record notify_request =
  req_summary :: string
  req_body :: "string option"
  req_urgency :: urgency
  req_category :: "string option"
  req_icon :: "icon_ref option"
  req_dedupe_key :: "string option"
  req_timeout_ms :: "nat option"
  req_actions :: "notify_action list"

datatype interaction_handle = InteractionHandle (as_str: string)

type_synonym notify_handle = interaction_handle

text \<open>Handles are ordered by their strings.\<close>

instantiation interaction_handle :: linorder
begin

definition less_eq_interaction_handle :: "interaction_handle \<Rightarrow> interaction_handle \<Rightarrow> bool" where
  "less_eq_interaction_handle a b \<longleftrightarrow> as_str a \<le> as_str b"

definition less_interaction_handle :: "interaction_handle \<Rightarrow> interaction_handle \<Rightarrow> bool" where
  "less_interaction_handle a b \<longleftrightarrow> as_str a < as_str b"

instance
  by standard (auto simp: less_eq_interaction_handle_def less_interaction_handle_def interaction_handle.expand)

end

datatype notify_state = Queued | Shown | Dismissed | Expired | ActionInvoked | NotifyFailed

definition notify_is_terminal :: "notify_state \<Rightarrow> bool" where
  "notify_is_terminal s \<longleftrightarrow> s \<in> {Dismissed, Expired, ActionInvoked, NotifyFailed}"

record notify_record =
  nr_handle :: notify_handle
  nr_origin :: string
  nr_state :: notify_state
  created_at_ms :: nat
  nr_summary :: string
  effective_urgency :: urgency
  urgency_override :: "urgency option"
  nr_dedupe_key :: "string option"

datatype validation_error =
    EmptySummary
  | TooManyActions nat nat
  | EmptyActionKey nat
  | DuplicateActionKey string
  | EmptyDispatchTarget nat
  | InvalidDispatchIdentifier nat string string
  | FieldTooLong string "nat option" nat nat
  | RequestTooLarge nat nat

definition validation_code :: "validation_error \<Rightarrow> string" where
  "validation_code e = (case e of
     FieldTooLong _ _ _ _ \<Rightarrow> ''validation_field_too_long''
   | RequestTooLarge _ _ \<Rightarrow> ''validation_request_too_large''
   | _ \<Rightarrow> ''validation_error'')"

definition MAX_ACTIONS :: nat where "MAX_ACTIONS = 3"
definition MAX_SUMMARY_BYTES :: nat where "MAX_SUMMARY_BYTES = 512"
definition MAX_BODY_BYTES :: nat where "MAX_BODY_BYTES = 8 * 1024"
definition MAX_ACTION_LABEL_BYTES :: nat where "MAX_ACTION_LABEL_BYTES = 128"
definition MAX_KEY_BYTES :: nat where "MAX_KEY_BYTES = 128"
definition MAX_CATEGORY_BYTES :: nat where "MAX_CATEGORY_BYTES = 128"
definition MAX_REQUEST_BYTES :: nat where "MAX_REQUEST_BYTES = 16 * 1024"

definition notify_new :: "string \<Rightarrow> notify_request" where
  "notify_new s = \<lparr>req_summary = s, req_body = None, req_urgency = Normal, req_category = None, req_icon = None,
     req_dedupe_key = None, req_timeout_ms = None, req_actions = []\<rparr>"

section \<open>The grammars\<close>

definition is_bus_service_name :: "string \<Rightarrow> bool" where
  "is_bus_service_name bytes \<longleftrightarrow>
     2 \<le> length bytes \<and> length bytes \<le> 31
     \<and> is_ascii_lowercase (bytes ! 0)
     \<and> list_all (\<lambda>b. is_ascii_lowercase b \<or> is_ascii_digit b \<or> b = CHR ''-'') (drop 1 bytes)"

definition command_segment :: "string \<Rightarrow> bool" where
  "command_segment segment \<longleftrightarrow> (case segment of
     [] \<Rightarrow> False
   | b # bs \<Rightarrow> is_ascii_lowercase b \<and> list_all (\<lambda>c. is_ascii_lowercase c \<or> is_ascii_digit c) bs)"

definition is_bus_command_name :: "string \<Rightarrow> bool" where
  "is_bus_command_name v = (case split_once (CHR ''.'') v of
     None \<Rightarrow> False
   | Some (srv, command) \<Rightarrow>
       if CHR ''.'' \<in> set command \<or> \<not> is_bus_service_name srv then False
       else list_all command_segment (split_on (CHR ''-'') command))"

section \<open>Validation\<close>

definition validate_len :: "string \<Rightarrow> nat option \<Rightarrow> string \<Rightarrow> nat \<Rightarrow> (validation_error, unit) result" where
  "validate_len field index v mx =
     (if length v > mx then Inl (FieldTooLong field index (length v) mx) else Inr ())"

definition validate_opt :: "string \<Rightarrow> string option \<Rightarrow> nat \<Rightarrow> (validation_error, unit) result" where
  "validate_opt field v mx = (case v of None \<Rightarrow> Inr () | Some s \<Rightarrow> validate_len field None s mx)"

fun icon_key :: "icon_ref \<Rightarrow> string" where
  "icon_key (Lucide k) = k"
| "icon_key (Emoji k) = k"

definition validate_dispatch :: "nat \<Rightarrow> dispatch \<Rightarrow> (validation_error, unit) result" where
  "validate_dispatch index d =
     (if trim (d_service d) = [] \<or> trim (d_verb d) = [] then Inl (EmptyDispatchTarget index)
      else if \<not> is_bus_service_name (d_service d) then Inl (InvalidDispatchIdentifier index ''service'' (d_service d))
      else if \<not> is_bus_command_name (d_verb d) then Inl (InvalidDispatchIdentifier index ''verb'' (d_verb d))
      else Inr ())"

fun validate_actions :: "string list \<Rightarrow> nat \<Rightarrow> notify_action list \<Rightarrow> (validation_error, unit) result" where
  "validate_actions seen index [] = Inr ()"
| "validate_actions seen index (a # as) =
     (if trim (act_key a) = [] then Inl (EmptyActionKey index)
      else and_then (validate_len ''key'' (Some index) (act_key a) MAX_KEY_BYTES) (\<lambda>_.
           and_then (validate_len ''label'' (Some index) (act_label a) MAX_ACTION_LABEL_BYTES) (\<lambda>_.
           if act_key a \<in> set seen then Inl (DuplicateActionKey (act_key a))
           else and_then (case on_invoke a of None \<Rightarrow> Inr () | Some d \<Rightarrow> validate_dispatch index d) (\<lambda>_.
                validate_actions (seen @ [act_key a]) (index + 1) as))))"

definition opt_len :: "string option \<Rightarrow> nat" where
  "opt_len v = (case v of None \<Rightarrow> 0 | Some s \<Rightarrow> length s)"

definition action_bytes :: "nat \<Rightarrow> notify_action \<Rightarrow> nat" where
  "action_bytes bytes a =
     (let bytes = saturating_add (saturating_add bytes (length (act_key a))) (length (act_label a))
      in case on_invoke a of
           None \<Rightarrow> bytes
         | Some d \<Rightarrow> saturating_add (saturating_add bytes (length (d_service d))) (length (d_verb d)))"

definition retained_bytes :: "notify_request \<Rightarrow> nat" where
  "retained_bytes r =
     (let bytes = length (req_summary r);
          bytes = saturating_add bytes (opt_len (req_body r));
          bytes = saturating_add bytes (opt_len (req_category r));
          bytes = saturating_add bytes (opt_len (req_dedupe_key r));
          bytes = saturating_add bytes (opt_len (map_option icon_key (req_icon r)))
      in foldl action_bytes bytes (req_actions r))"

definition validate_request :: "notify_request \<Rightarrow> (validation_error, unit) result" where
  "validate_request r =
     (if trim (req_summary r) = [] then Inl EmptySummary
      else and_then (validate_len ''summary'' None (req_summary r) MAX_SUMMARY_BYTES) (\<lambda>_.
           and_then (validate_opt ''body'' (req_body r) MAX_BODY_BYTES) (\<lambda>_.
           and_then (validate_opt ''category'' (req_category r) MAX_CATEGORY_BYTES) (\<lambda>_.
           and_then (validate_opt ''icon key'' (map_option icon_key (req_icon r)) MAX_KEY_BYTES) (\<lambda>_.
           and_then (validate_opt ''dedupe_key'' (req_dedupe_key r) MAX_KEY_BYTES) (\<lambda>_.
           if length (req_actions r) > MAX_ACTIONS
           then Inl (TooManyActions (length (req_actions r)) MAX_ACTIONS)
           else and_then (validate_actions [] 0 (req_actions r)) (\<lambda>_.
                let got = retained_bytes r
                in if got > MAX_REQUEST_BYTES then Inl (RequestTooLarge got MAX_REQUEST_BYTES)
                   else Inr ())))))))"


section \<open>What validation decides\<close>

text \<open>The content of a request in bytes, without the width of the counter.\<close>

definition action_size :: "notify_action \<Rightarrow> nat" where
  "action_size a = length (act_key a) + length (act_label a)
     + (case on_invoke a of None \<Rightarrow> 0 | Some d \<Rightarrow> length (d_service d) + length (d_verb d))"

definition request_size :: "notify_request \<Rightarrow> nat" where
  "request_size r = length (req_summary r) + opt_len (req_body r) + opt_len (req_category r)
     + opt_len (req_dedupe_key r) + opt_len (map_option icon_key (req_icon r))
     + sum_list (map action_size (req_actions r))"

definition dispatch_wf :: "dispatch \<Rightarrow> bool" where
  "dispatch_wf d \<longleftrightarrow> trim (d_service d) \<noteq> [] \<and> trim (d_verb d) \<noteq> []
     \<and> is_bus_service_name (d_service d) \<and> is_bus_command_name (d_verb d)"

definition action_wf :: "notify_action \<Rightarrow> bool" where
  "action_wf a \<longleftrightarrow> trim (act_key a) \<noteq> [] \<and> length (act_key a) \<le> MAX_KEY_BYTES
     \<and> length (act_label a) \<le> MAX_ACTION_LABEL_BYTES
     \<and> (\<forall>d. on_invoke a = Some d \<longrightarrow> dispatch_wf d)"

definition request_wf :: "notify_request \<Rightarrow> bool" where
  "request_wf r \<longleftrightarrow> trim (req_summary r) \<noteq> [] \<and> length (req_summary r) \<le> MAX_SUMMARY_BYTES
     \<and> opt_len (req_body r) \<le> MAX_BODY_BYTES \<and> opt_len (req_category r) \<le> MAX_CATEGORY_BYTES
     \<and> opt_len (map_option icon_key (req_icon r)) \<le> MAX_KEY_BYTES \<and> opt_len (req_dedupe_key r) \<le> MAX_KEY_BYTES
     \<and> length (req_actions r) \<le> MAX_ACTIONS
     \<and> list_all action_wf (req_actions r) \<and> distinct (map act_key (req_actions r))
     \<and> request_size r \<le> MAX_REQUEST_BYTES"

text \<open>The field a length error speaks of.\<close>

definition field_value :: "notify_request \<Rightarrow> string \<Rightarrow> nat option \<Rightarrow> string option" where
  "field_value r field index = (case index of
     None \<Rightarrow>
       if field = ''summary'' then Some (req_summary r)
       else if field = ''body'' then req_body r
       else if field = ''category'' then req_category r
       else if field = ''icon key'' then map_option icon_key (req_icon r)
       else if field = ''dedupe_key'' then req_dedupe_key r
       else None
   | Some i \<Rightarrow>
       if i < length (req_actions r) then
         if field = ''key'' then Some (act_key (req_actions r ! i))
         else if field = ''label'' then Some (act_label (req_actions r ! i))
         else None
       else None)"

text \<open>What each error asserts about the request.\<close>

fun describes :: "notify_request \<Rightarrow> validation_error \<Rightarrow> bool" where
  "describes r EmptySummary \<longleftrightarrow> trim (req_summary r) = []"
| "describes r (TooManyActions got mx) \<longleftrightarrow> got = length (req_actions r) \<and> mx = MAX_ACTIONS \<and> mx < got"
| "describes r (EmptyActionKey i) \<longleftrightarrow> i < length (req_actions r) \<and> trim (act_key (req_actions r ! i)) = []"
| "describes r (DuplicateActionKey k) \<longleftrightarrow>
     (\<exists>i j. i < j \<and> j < length (req_actions r) \<and> act_key (req_actions r ! i) = k \<and> act_key (req_actions r ! j) = k)"
| "describes r (EmptyDispatchTarget i) \<longleftrightarrow> i < length (req_actions r)
     \<and> (\<exists>d. on_invoke (req_actions r ! i) = Some d \<and> (trim (d_service d) = [] \<or> trim (d_verb d) = []))"
| "describes r (InvalidDispatchIdentifier i field v) \<longleftrightarrow> i < length (req_actions r)
     \<and> (\<exists>d. on_invoke (req_actions r ! i) = Some d
          \<and> (field = ''service'' \<and> v = d_service d \<and> \<not> is_bus_service_name v
             \<or> field = ''verb'' \<and> v = d_verb d \<and> \<not> is_bus_command_name v))"
| "describes r (FieldTooLong field index got mx) \<longleftrightarrow> mx < got
     \<and> (\<exists>v. field_value r field index = Some v \<and> length v = got)"
| "describes r (RequestTooLarge got mx) \<longleftrightarrow> mx = MAX_REQUEST_BYTES \<and> mx < got
     \<and> got = min (request_size r) u64_max"

lemma saturating_chain: "saturating_add (min a u64_max) b = min (a + b) u64_max"
  by (simp add: saturating_add_def)

lemma saturating_start: "a \<le> u64_max \<Longrightarrow> saturating_add a b = min (a + b) u64_max"
  by (simp add: saturating_add_def)

lemma action_bytes_min: "action_bytes (min n u64_max) a = min (n + action_size a) u64_max"
  by (simp add: action_bytes_def action_size_def saturating_chain Let_def add.assoc split: option.split)

lemma foldl_action_bytes: "foldl action_bytes (min n u64_max) as = min (n + sum_list (map action_size as)) u64_max"
  by (induction as arbitrary: n) (simp_all add: action_bytes_min add.assoc)

lemma retained_bytes_size:
  "length (req_summary r) \<le> u64_max \<Longrightarrow> retained_bytes r = min (request_size r) u64_max"
  by (simp add: retained_bytes_def request_size_def Let_def saturating_start saturating_chain foldl_action_bytes)

lemma validate_len_cases:
  "validate_len field index v mx = Inr () \<longleftrightarrow> length v \<le> mx"
  "validate_len field index v mx = Inl e \<longleftrightarrow> mx < length v \<and> e = FieldTooLong field index (length v) mx"
  by (auto simp: validate_len_def)

lemma validate_opt_cases:
  "validate_opt field v mx = Inr () \<longleftrightarrow> opt_len v \<le> mx"
  "validate_opt field v mx = Inl e \<longleftrightarrow> (\<exists>s. v = Some s \<and> mx < length s \<and> e = FieldTooLong field None (length s) mx)"
  by (auto simp: validate_opt_def opt_len_def validate_len_cases split: option.split)

lemma validate_dispatch_ok: "validate_dispatch i d = Inr () \<longleftrightarrow> dispatch_wf d"
  by (simp add: validate_dispatch_def dispatch_wf_def)

lemma and_then_unit: "and_then m (\<lambda>_. k) = Inr () \<longleftrightarrow> m = Inr () \<and> k = Inr ()" for m :: "('e, unit) result"
  by (cases m) auto

lemma and_then_err: "and_then m (\<lambda>_. k) = Inl e \<longleftrightarrow> m = Inl e \<or> m = Inr () \<and> k = Inl e" for m :: "('e, unit) result"
  by (cases m) auto

lemma validate_actions_ok:
  "validate_actions seen i as = Inr () \<longleftrightarrow>
     list_all action_wf as \<and> distinct (map act_key as) \<and> set seen \<inter> act_key ` set as = {}"
  by (induction as arbitrary: seen i)
    (auto simp: and_then_unit validate_len_cases action_wf_def validate_dispatch_ok split: option.split)

lemma request_too_large: "min (request_size r) u64_max \<le> MAX_REQUEST_BYTES \<longleftrightarrow> request_size r \<le> MAX_REQUEST_BYTES"
  by (auto simp: MAX_REQUEST_BYTES_def u64_max_def min_le_iff_disj)

lemma short_summary_bytes:
  "length (req_summary r) \<le> MAX_SUMMARY_BYTES \<Longrightarrow> retained_bytes r = min (request_size r) u64_max"
  by (rule retained_bytes_size) (simp add: MAX_SUMMARY_BYTES_def u64_max_def)

lemma validate_request_ok: "validate_request r = Inr () \<longleftrightarrow> request_wf r"
proof (cases "length (req_summary r) \<le> MAX_SUMMARY_BYTES")
  case True
  then show ?thesis
    using short_summary_bytes [OF True] request_too_large [of r]
    by (auto simp: validate_request_def and_then_unit validate_len_cases validate_opt_cases Let_def
        validate_actions_ok request_wf_def not_less)
next
  case False
  then show ?thesis by (auto simp: validate_request_def and_then_unit validate_len_cases request_wf_def)
qed

text \<open>Errors in the actions: \<open>pre\<close> are the actions already accepted.\<close>

lemma validate_actions_describes:
  assumes "validate_actions (map act_key pre) (length pre) as = Inl e" "req_actions r = pre @ as"
  shows "describes r e"
  using assms
proof (induction as arbitrary: pre)
  case (Cons a as)
  let ?i = "length pre"
  have at: "?i < length (req_actions r)" "req_actions r ! ?i = a" using Cons.prems(2) by simp_all
  show ?case
  proof (cases "trim (act_key a) = []")
    case False
    note step = Cons.prems(1) [unfolded validate_actions.simps if_not_P [OF False] and_then_err]
    from step show ?thesis
    proof (elim disjE conjE)
      assume dup: "(if act_key a \<in> set (map act_key pre) then Inl (DuplicateActionKey (act_key a))
          else and_then (case on_invoke a of None \<Rightarrow> Inr () | Some d \<Rightarrow> validate_dispatch ?i d)
            (\<lambda>_. validate_actions (map act_key pre @ [act_key a]) (?i + 1) as)) = Inl e"
      show ?thesis
      proof (cases "act_key a \<in> set (map act_key pre)")
        case True
        then obtain j where j: "j < ?i" "act_key (pre ! j) = act_key a" by (auto simp: in_set_conv_nth)
        then have "act_key (req_actions r ! j) = act_key a" using Cons.prems(2) by (simp add: nth_append)
        then have "describes r (DuplicateActionKey (act_key a))"
          using j(1) at unfolding describes.simps by blast
        moreover have "e = DuplicateActionKey (act_key a)" using dup True by simp
        ultimately show ?thesis by simp
      next
        case False
        then consider d where "on_invoke a = Some d" "validate_dispatch ?i d = Inl e"
          | "validate_actions (map act_key (pre @ [a])) (length (pre @ [a])) as = Inl e"
          using dup by (auto simp: and_then_err split: option.splits)
        then show ?thesis
        proof cases
          case 1
          then show ?thesis using at by (auto simp: validate_dispatch_def split: if_splits)
        next
          case 2
          then show ?thesis using Cons.IH [of "pre @ [a]"] Cons.prems(2) by simp
        qed
      qed
    qed (use at in \<open>auto simp: field_value_def validate_len_cases\<close>)
  qed (use Cons.prems(1) at in auto)
qed simp

lemma validate_request_describes:
  assumes "validate_request r = Inl e"
  shows "describes r e"
proof -
  have opt: "describes r e" if "validate_opt field v mx = Inl e" "field_value r field None = v" for field v mx
    using that by (auto simp: validate_opt_cases)
  show ?thesis
  proof (cases "trim (req_summary r) = []")
    case False
    note step = assms [unfolded validate_request_def if_not_P [OF False] and_then_err]
    from step show ?thesis
    proof (elim disjE conjE)
      assume len: "validate_len ''summary'' None (req_summary r) MAX_SUMMARY_BYTES = Inr ()"
      assume rest: "(if length (req_actions r) > MAX_ACTIONS
           then Inl (TooManyActions (length (req_actions r)) MAX_ACTIONS)
           else and_then (validate_actions [] 0 (req_actions r)) (\<lambda>_.
                let got = retained_bytes r
                in if got > MAX_REQUEST_BYTES then Inl (RequestTooLarge got MAX_REQUEST_BYTES)
                   else Inr ())) = Inl e"
      show ?thesis
      proof (cases "validate_actions [] 0 (req_actions r) = Inl e")
        case True
        then show ?thesis using validate_actions_describes [of "[]" "req_actions r" e r] by simp
      next
        case False
        then show ?thesis
          using rest short_summary_bytes [of r] len
          by (auto simp: and_then_err Let_def validate_len_cases split: if_splits)
      qed
    qed (auto intro: opt simp: field_value_def validate_len_cases)
  qed (use assms in \<open>simp add: validate_request_def\<close>)
qed

text \<open>The bus grammars, declaratively.\<close>

definition service_char :: "char \<Rightarrow> bool" where
  "service_char c \<longleftrightarrow> is_ascii_lowercase c \<or> is_ascii_digit c \<or> c = CHR ''-''"

lemma service_name_shape:
  "is_bus_service_name v \<longleftrightarrow>
     (\<exists>c cs. v = c # cs \<and> is_ascii_lowercase c \<and> (\<forall>x\<in>set cs. service_char x) \<and> 1 \<le> length cs \<and> length cs \<le> 30)"
  by (cases v) (auto simp: is_bus_service_name_def service_char_def list_all_iff)

lemma service_name_no_dot: "is_bus_service_name v \<Longrightarrow> CHR ''.'' \<notin> set v"
  by (fastforce simp: service_name_shape service_char_def is_ascii_lowercase_def is_ascii_digit_def less_eq_char_def)

lemma segment_chars:
  "command_segment w \<Longrightarrow> w \<noteq> [] \<and> CHR ''.'' \<notin> set w \<and> CHR ''-'' \<notin> set w"
  by (auto simp: command_segment_def list_all_iff is_ascii_lowercase_def is_ascii_digit_def less_eq_char_def
      split: list.splits)

lemma command_name_grammar:
  "is_bus_command_name v \<longleftrightarrow>
     (\<exists>srv ws. v = srv @ CHR ''.'' # join_with (CHR ''-'') ws \<and> is_bus_service_name srv
        \<and> ws \<noteq> [] \<and> list_all command_segment ws)"
proof
  assume "is_bus_command_name v"
  then obtain srv cmd where s: "split_once (CHR ''.'') v = Some (srv, cmd)" "is_bus_service_name srv"
    and "list_all command_segment (split_on (CHR ''-'') cmd)"
    by (auto simp: is_bus_command_name_def split: option.splits if_splits)
  then show "\<exists>srv ws. v = srv @ CHR ''.'' # join_with (CHR ''-'') ws \<and> is_bus_service_name srv
        \<and> ws \<noteq> [] \<and> list_all command_segment ws"
    by (intro exI [of _ srv] exI [of _ "split_on (CHR ''-'') cmd"]) (auto simp: split_once_Some)
next
  assume "\<exists>srv ws. v = srv @ CHR ''.'' # join_with (CHR ''-'') ws \<and> is_bus_service_name srv
        \<and> ws \<noteq> [] \<and> list_all command_segment ws"
  then obtain srv ws where v: "v = srv @ CHR ''.'' # join_with (CHR ''-'') ws" "is_bus_service_name srv"
    "ws \<noteq> []" "list_all command_segment ws" by blast
  then have "CHR ''.'' \<notin> set (join_with (CHR ''-'') ws)"
    using set_join_with [of "CHR ''-''" ws] segment_chars by (fastforce simp: list_all_iff)
  moreover have "split_once (CHR ''.'') v = Some (srv, join_with (CHR ''-'') ws)"
    using v service_name_no_dot by (simp add: split_once_Some)
  moreover have "split_on (CHR ''-'') (join_with (CHR ''-'') ws) = ws"
    using v(3,4) segment_chars by (intro split_join) (auto simp: list_all_iff)
  ultimately show "is_bus_command_name v" using v by (simp add: is_bus_command_name_def)
qed

text \<open>Validation accepts exactly the requests that satisfy the declarative contract -- a summary with
  a visible character, every field within its byte limit, at most three actions with distinct visible keys whose
  dispatch targets parse, and total content within the request limit -- and every error it reports
  instead names a defect the request has.  The verb of an accepted dispatch is a service name, a dot and
  hyphen-separated lowercase words.\<close>

theorem validate_exact:
  "(case validate_request r of Inr _ \<Rightarrow> request_wf r | Inl e \<Rightarrow> \<not> request_wf r \<and> describes r e)
   \<and> (\<forall>v. is_bus_command_name v \<longleftrightarrow>
        (\<exists>srv ws. v = srv @ CHR ''.'' # join_with (CHR ''-'') ws \<and> is_bus_service_name srv
           \<and> ws \<noteq> [] \<and> list_all command_segment ws))"
proof (intro conjI allI)
  show "case validate_request r of Inr _ \<Rightarrow> request_wf r | Inl e \<Rightarrow> \<not> request_wf r \<and> describes r e"
    using validate_request_ok [of r] validate_request_describes [of r] by (auto split: sum.split)
qed (rule command_name_grammar)

end
