(* ===== verification/Interact_Notify.thy ===== *)
theory Interact_Notify
  imports Interact_Rate Interact_Schema "HOL-Library.Product_Lexorder"
begin

text \<open>
  The notification broker (\<^verbatim>\<open>cosmix-interaction-broker/src/origin.rs\<close>, \<^verbatim>\<open>dedupe.rs\<close>, \<^verbatim>\<open>lib.rs\<close>): provenance labels, the
  dedupe table and the decision on one request.  The clock, the fresh handle and the service registry
  are injected by the caller, as in the code.
\<close>

section \<open>Provenance\<close>

definition ANONYMOUS :: string where "ANONYMOUS = ''anonymous''"

definition RESERVED_LABELS :: "string list" where
  "RESERVED_LABELS = [''system'', ''cosmix'', ''root'']"

definition is_reserved :: "string \<Rightarrow> bool" where
  "is_reserved l \<longleftrightarrow> list_ex (\<lambda>r. eq_ignore_ascii_case r (trim l)) RESERVED_LABELS"

record origin_policy =
  allowlist :: "(string, string) bmap"

definition policy_v1 :: origin_policy where
  "policy_v1 = \<lparr>allowlist = []\<rparr>"

definition grant_reserved :: "origin_policy \<Rightarrow> string \<Rightarrow> string \<Rightarrow> bool \<times> origin_policy" where
  "grant_reserved p identity l =
     (if \<not> is_reserved l then (False, p)
      else (True, p\<lparr>allowlist := bm_insert identity l (allowlist p)\<rparr>))"

definition may_present_as :: "origin_policy \<Rightarrow> string \<Rightarrow> string \<Rightarrow> bool" where
  "may_present_as p identity l = (if \<not> is_reserved l then True else bm_get (allowlist p) identity = Some l)"

definition resolve_origin :: "origin_policy \<Rightarrow> string option \<Rightarrow> string" where
  "resolve_origin p from = (case from of
     None \<Rightarrow> ANONYMOUS
   | Some s \<Rightarrow>
       if trim s = [] then ANONYMOUS
       else if is_reserved (trim s) \<and> \<not> may_present_as p (trim s) (trim s) then ANONYMOUS
       else trim s)"

section \<open>Dedupe table\<close>

record dedupe_table =
  by_key :: "(string \<times> string, notify_handle) bmap"

definition dedupe_new :: dedupe_table where
  "dedupe_new = \<lparr>by_key = []\<rparr>"

definition dedupe_lookup :: "dedupe_table \<Rightarrow> string \<Rightarrow> string \<Rightarrow> notify_handle option" where
  "dedupe_lookup t origin k = bm_get (by_key t) (origin, k)"

definition dedupe_record ::
    "dedupe_table \<Rightarrow> string \<Rightarrow> string \<Rightarrow> notify_handle \<Rightarrow> notify_handle option \<times> dedupe_table" where
  "dedupe_record t origin k h =
     (bm_get (by_key t) (origin, k), t\<lparr>by_key := bm_insert (origin, k) h (by_key t)\<rparr>)"

definition forget_handle :: "dedupe_table \<Rightarrow> notify_handle \<Rightarrow> bool \<times> dedupe_table" where
  "forget_handle t h =
     (let kept = bm_retain (\<lambda>_ h'. h' \<noteq> h) (by_key t)
      in (length kept \<noteq> length (by_key t), t\<lparr>by_key := kept\<rparr>))"

section \<open>The broker\<close>

record caller =
  from_id :: "string option"
  is_remote :: bool

datatype reject_reason =
    Invalid validation_error
  | UnregisteredDispatch nat string

datatype notify_decision =
    Deliver notify_record "notify_handle option"
  | Throttled string
  | Rejected reject_reason

record notify_broker =
  origin_pol :: origin_policy
  rate :: rate_limiter
  dedupe :: dedupe_table

definition broker_new :: "origin_policy \<Rightarrow> rate_config \<Rightarrow> notify_broker" where
  "broker_new p cfg = \<lparr>origin_pol = p, rate = limiter_new cfg, dedupe = dedupe_new\<rparr>"

definition broker_v1 :: notify_broker where
  "broker_v1 = \<lparr>origin_pol = policy_v1, rate = limiter_new default_rate, dedupe = dedupe_new\<rparr>"

fun dispatch_targets :: "nat \<Rightarrow> notify_action list \<Rightarrow> (string \<Rightarrow> bool) \<Rightarrow> (reject_reason, unit) result" where
  "dispatch_targets index [] registered = Inr ()"
| "dispatch_targets index (a # as) registered =
     (case on_invoke a of
        Some d \<Rightarrow> if \<not> registered (d_service d) then Inl (UnregisteredDispatch index (d_service d))
                  else dispatch_targets (index + 1) as registered
      | None \<Rightarrow> dispatch_targets (index + 1) as registered)"

definition validate_dispatch_targets :: "notify_request \<Rightarrow> (string \<Rightarrow> bool) \<Rightarrow> (reject_reason, unit) result" where
  "validate_dispatch_targets req registered = dispatch_targets 0 (req_actions req) registered"

definition clamp_override :: "caller \<Rightarrow> notify_request \<Rightarrow> urgency option" where
  "clamp_override c req = (if is_remote c \<and> req_urgency req = Critical then Some Normal else None)"

definition accept_queued ::
    "notify_broker \<Rightarrow> notify_request \<Rightarrow> caller \<Rightarrow> nat \<Rightarrow> notify_handle \<Rightarrow> notify_decision \<times> notify_broker" where
  "accept_queued b req c now fresh =
     (case validate_request req of
        Inl e \<Rightarrow> (Rejected (Invalid e), b)
      | Inr _ \<Rightarrow>
          let origin = resolve_origin (origin_pol b) (from_id c);
              existing = (case req_dedupe_key req of None \<Rightarrow> None | Some k \<Rightarrow> dedupe_lookup (dedupe b) origin k);
              (ok, rl) = try_consume (rate b) origin now;
              b = b\<lparr>rate := rl\<rparr>
          in if \<not> ok then (Throttled origin, b)
             else
               let override = clamp_override c req;
                   handle = (case existing of None \<Rightarrow> fresh | Some h \<Rightarrow> h);
                   b = (case req_dedupe_key req of
                          None \<Rightarrow> b
                        | Some k \<Rightarrow> b\<lparr>dedupe := snd (dedupe_record (dedupe b) origin k handle)\<rparr>)
               in (Deliver
                     \<lparr>nr_handle = handle, nr_origin = origin, nr_state = Queued, created_at_ms = now,
                      nr_summary = req_summary req,
                      effective_urgency = (case override of None \<Rightarrow> req_urgency req | Some u \<Rightarrow> u),
                      urgency_override = override, nr_dedupe_key = req_dedupe_key req\<rparr>
                     existing, b))"

definition accept ::
    "notify_broker \<Rightarrow> notify_request \<Rightarrow> caller \<Rightarrow> nat \<Rightarrow> notify_handle \<Rightarrow> (string \<Rightarrow> bool)
       \<Rightarrow> notify_decision \<times> notify_broker" where
  "accept b req c now fresh registered =
     (case validate_request req of
        Inl e \<Rightarrow> (Rejected (Invalid e), b)
      | Inr _ \<Rightarrow>
          (case validate_dispatch_targets req registered of
             Inl reason \<Rightarrow> (Rejected reason, b)
           | Inr _ \<Rightarrow> accept_queued b req c now fresh))"

definition broker_try_consume :: "notify_broker \<Rightarrow> string \<Rightarrow> nat \<Rightarrow> bool \<times> notify_broker" where
  "broker_try_consume b origin now =
     (let (ok, rl) = try_consume (rate b) origin now in (ok, b\<lparr>rate := rl\<rparr>))"

definition retire :: "notify_broker \<Rightarrow> notify_handle \<Rightarrow> notify_broker" where
  "retire b h = b\<lparr>dedupe := snd (forget_handle (dedupe b) h)\<rparr>"


section \<open>Provenance cannot be forged\<close>

lemma anonymous_not_reserved: "\<not> is_reserved ANONYMOUS"
  by (simp add: is_reserved_def ANONYMOUS_def RESERVED_LABELS_def trim_def trim_end_def trim_start_def
      white_space_def eq_ignore_ascii_case_def ascii_lower_def is_ascii_uppercase_def less_eq_char_def)

lemma resolve_origin_label:
  "resolve_origin p from = ANONYMOUS
   \<or> (\<exists>s. from = Some s \<and> trim s \<noteq> [] \<and> resolve_origin p from = trim s
        \<and> (is_reserved (trim s) \<longrightarrow> bm_get (allowlist p) (trim s) = Some (trim s)))"
  by (auto simp: resolve_origin_def may_present_as_def split: option.split)

lemma resolve_v1_not_reserved: "\<not> is_reserved (resolve_origin policy_v1 from)"
  using resolve_origin_label [of policy_v1 "from"] anonymous_not_reserved
  by (auto simp: policy_v1_def bm_get_def)

section \<open>The decision on one request\<close>

lemma dispatch_targets_err:
  "dispatch_targets n as registered = Inl e \<Longrightarrow>
     \<exists>i d. i < length as \<and> on_invoke (as ! i) = Some d \<and> \<not> registered (d_service d)
       \<and> e = UnregisteredDispatch (n + i) (d_service d)
       \<and> (\<forall>j<i. \<forall>d'. on_invoke (as ! j) = Some d' \<longrightarrow> registered (d_service d'))"
proof (induction as arbitrary: n)
  case (Cons a as)
  show ?case
  proof (cases "\<exists>d. on_invoke a = Some d \<and> \<not> registered (d_service d)")
    case True
    then show ?thesis using Cons.prems by (intro exI [of _ 0]) auto
  next
    case False
    then have "dispatch_targets (n + 1) as registered = Inl e"
      using Cons.prems by (auto split: option.splits if_splits)
    from Cons.IH [OF this] obtain i d where
      "i < length as" "on_invoke (as ! i) = Some d" "\<not> registered (d_service d)"
      "e = UnregisteredDispatch (n + 1 + i) (d_service d)"
      "\<forall>j<i. \<forall>d'. on_invoke (as ! j) = Some d' \<longrightarrow> registered (d_service d')" by blast
    then show ?thesis
      using False by (intro exI [of _ "Suc i"] exI [of _ d]) (auto simp: less_Suc_eq_0_disj)
  qed
qed simp

lemma dispatch_targets_ok:
  "dispatch_targets n as registered = Inr () \<longleftrightarrow>
     (\<forall>a\<in>set as. \<forall>d. on_invoke a = Some d \<longrightarrow> registered (d_service d))"
  by (induction as arbitrary: n) (auto split: option.split)

definition targets_registered :: "notify_request \<Rightarrow> (string \<Rightarrow> bool) \<Rightarrow> bool" where
  "targets_registered req registered \<longleftrightarrow>
     (\<forall>a\<in>set (req_actions req). \<forall>d. on_invoke a = Some d \<longrightarrow> registered (d_service d))"

definition slot_of :: "notify_broker \<Rightarrow> notify_request \<Rightarrow> caller \<Rightarrow> notify_handle option" where
  "slot_of b req c = (case req_dedupe_key req of
     None \<Rightarrow> None
   | Some k \<Rightarrow> dedupe_lookup (dedupe b) (resolve_origin (origin_pol b) (from_id c)) k)"

text \<open>The record an accepted request becomes.\<close>

definition record_of :: "notify_broker \<Rightarrow> notify_request \<Rightarrow> caller \<Rightarrow> nat \<Rightarrow> notify_handle \<Rightarrow> notify_record" where
  "record_of b req c now fresh =
     \<lparr>nr_handle = (case slot_of b req c of None \<Rightarrow> fresh | Some h \<Rightarrow> h),
      nr_origin = resolve_origin (origin_pol b) (from_id c), nr_state = Queued, created_at_ms = now,
      nr_summary = req_summary req,
      effective_urgency = (if is_remote c \<and> req_urgency req = Critical then Normal else req_urgency req),
      urgency_override = (if is_remote c \<and> req_urgency req = Critical then Some Normal else None),
      nr_dedupe_key = req_dedupe_key req\<rparr>"

lemma accept_queued_cases:
  "accept_queued b req c now fresh =
     (case validate_request req of
        Inl e \<Rightarrow> (Rejected (Invalid e), b)
      | Inr _ \<Rightarrow>
          let origin = resolve_origin (origin_pol b) (from_id c);
              rl = snd (try_consume (rate b) origin now)
          in if fst (try_consume (rate b) origin now)
             then (Deliver (record_of b req c now fresh) (slot_of b req c),
                   b\<lparr>rate := rl,
                      dedupe := (case req_dedupe_key req of
                         None \<Rightarrow> dedupe b
                       | Some k \<Rightarrow> dedupe b\<lparr>by_key :=
                           bm_insert (origin, k) (nr_handle (record_of b req c now fresh)) (by_key (dedupe b))\<rparr>)\<rparr>)
             else (Throttled origin, b\<lparr>rate := rl\<rparr>))"
  by (auto simp: accept_queued_def Let_def record_of_def slot_of_def clamp_override_def dedupe_record_def
      split: sum.split prod.split option.split)


section \<open>Runs of the broker\<close>

datatype broker_event =
    Notify notify_request caller nat notify_handle
  | Mutate string nat
  | Retire notify_handle

text \<open>The records delivered by a run, in order, and the final broker.\<close>

fun broker_run :: "notify_broker \<Rightarrow> broker_event list \<Rightarrow> notify_record list \<times> notify_broker" where
  "broker_run b [] = ([], b)"
| "broker_run b (Notify req c now fresh # evs) =
     (let (d, b') = accept_queued b req c now fresh; (rs, b'') = broker_run b' evs
      in (case d of Deliver r _ \<Rightarrow> r # rs | _ \<Rightarrow> rs, b''))"
| "broker_run b (Mutate origin now # evs) = broker_run (snd (broker_try_consume b origin now)) evs"
| "broker_run b (Retire h # evs) = broker_run (retire b h) evs"

fun minted :: "broker_event list \<Rightarrow> notify_handle list" where
  "minted [] = []"
| "minted (Notify _ _ _ h # evs) = h # minted evs"
| "minted (_ # evs) = minted evs"

definition same_slot :: "notify_record \<Rightarrow> notify_record \<Rightarrow> bool" where
  "same_slot r r' \<longleftrightarrow> nr_origin r = nr_origin r' \<and> nr_dedupe_key r = nr_dedupe_key r' \<and> nr_dedupe_key r \<noteq> None"

definition isolated :: "notify_record list \<Rightarrow> bool" where
  "isolated rs \<longleftrightarrow> sorted_wrt (\<lambda>r r'. nr_handle r = nr_handle r' \<longrightarrow> same_slot r r') rs"

text \<open>Every slot of the dedupe table was filled by a delivery to that slot.\<close>

definition slots_from :: "notify_record list \<Rightarrow> notify_broker \<Rightarrow> bool" where
  "slots_from rs b \<longleftrightarrow> (\<forall>((origin, k), h) \<in> set (by_key (dedupe b)).
     \<exists>r\<in>set rs. nr_handle r = h \<and> nr_origin r = origin \<and> nr_dedupe_key r = Some k)"

lemma isolated_pair:
  "isolated rs \<Longrightarrow> r \<in> set rs \<Longrightarrow> r' \<in> set rs \<Longrightarrow> nr_handle r = nr_handle r' \<Longrightarrow> r = r' \<or> same_slot r r'"
proof (induction rs)
  case (Cons x rs)
  have "isolated rs" and x: "\<And>y. y \<in> set rs \<Longrightarrow> nr_handle x = nr_handle y \<Longrightarrow> same_slot x y"
    using Cons.prems(1) by (simp_all add: isolated_def)
  moreover have "same_slot y x = same_slot x y" for y unfolding same_slot_def by metis
  ultimately show ?case using Cons.IH Cons.prems(2-4) unfolding set_ConsD by (metis set_ConsD)
qed simp

lemma isolated_snoc:
  "isolated (rs @ [r]) \<longleftrightarrow> isolated rs \<and> (\<forall>x\<in>set rs. nr_handle x = nr_handle r \<longrightarrow> same_slot x r)"
  by (simp add: isolated_def sorted_wrt_append)

lemma accept_queued_slots:
  assumes "accept_queued b req c now fresh = (d, b')" "isolated ds" "slots_from ds b"
    "fresh \<notin> nr_handle ` set ds"
  defines "new \<equiv> (case d of Deliver r _ \<Rightarrow> [r] | _ \<Rightarrow> [])"
  shows "isolated (ds @ new) \<and> slots_from (ds @ new) b'
    \<and> nr_handle ` set new \<subseteq> insert fresh (nr_handle ` set ds)"
proof (cases "\<exists>r e. d = Deliver r e")
  case False
  then have "new = []" by (auto simp: new_def split: notify_decision.split)
  moreover have "dedupe b' = dedupe b"
    using assms(1) False by (auto simp: accept_queued_cases Let_def split: sum.splits if_splits)
  ultimately show ?thesis using assms(2,3) by (simp add: slots_from_def)
next
  case True
  let ?r = "record_of b req c now fresh"
  let ?o = "resolve_origin (origin_pol b) (from_id c)"
  have dd: "d = Deliver ?r (slot_of b req c)"
    and b': "by_key (dedupe b') = (case req_dedupe_key req of None \<Rightarrow> by_key (dedupe b)
      | Some k \<Rightarrow> bm_insert (?o, k) (nr_handle ?r) (by_key (dedupe b)))"
    using assms(1) True
    by (cases "req_dedupe_key req"; simp add: accept_queued_cases Let_def split: sum.splits if_splits; auto)+
  have d: "new = [?r]" by (simp add: new_def dd)
  have tab: "set (by_key (dedupe b')) \<subseteq> set (by_key (dedupe b)) \<union>
      (case req_dedupe_key req of None \<Rightarrow> {} | Some k \<Rightarrow> {((?o, k), nr_handle ?r)})"
    using set_bm_insert [of _ "nr_handle ?r" "by_key (dedupe b)"]
    unfolding b' by (cases "req_dedupe_key req") auto
  have r: "nr_origin ?r = ?o" "nr_dedupe_key ?r = req_dedupe_key req" by (simp_all add: record_of_def)
  have slots: "slots_from (ds @ new) b'"
    using tab assms(3) r d unfolding slots_from_def by (fastforce split: option.splits)
  show ?thesis
  proof (cases "slot_of b req c")
    case None
    then have "nr_handle ?r = fresh" by (simp add: record_of_def)
    then show ?thesis
      using slots assms(2,4) d by (auto simp: isolated_def sorted_wrt_append)
  next
    case (Some h)
    then obtain k where k: "req_dedupe_key req = Some k" "((?o, k), h) \<in> set (by_key (dedupe b))"
      by (auto simp: slot_of_def dedupe_lookup_def dest: bm_get_in split: option.splits)
    then obtain r0 where r0: "r0 \<in> set ds" "nr_handle r0 = h" "nr_origin r0 = ?o" "nr_dedupe_key r0 = Some k"
      using assms(3) unfolding slots_from_def by fast
    have h: "nr_handle ?r = h" using Some by (simp add: record_of_def)
    have "same_slot r ?r" if "r \<in> set ds" "nr_handle r = h" for r
      using isolated_pair [OF assms(2) that(1) r0(1)] that(2) r0 r k(1) by (auto simp: same_slot_def)
    then have "\<forall>r\<in>set ds. nr_handle r = nr_handle ?r \<longrightarrow> same_slot r ?r" unfolding h by blast
    then have "isolated (ds @ new)" unfolding d isolated_snoc by (rule conjI [OF assms(2)])
    moreover have "nr_handle ?r \<in> nr_handle ` set ds" using imageI [OF r0(1), of nr_handle] unfolding r0(2) h .
    ultimately show ?thesis using slots d by simp
  qed
qed

lemma retire_slots: "slots_from ds b \<Longrightarrow> slots_from ds (retire b h)"
  unfolding slots_from_def retire_def forget_handle_def Let_def by (auto simp: bm_retain_def)

lemma mutate_slots: "slots_from ds (snd (broker_try_consume b o' now)) = slots_from ds b"
  by (simp add: slots_from_def broker_try_consume_def split: prod.split)

lemma broker_run_isolated:
  assumes "broker_run b evs = (rs, b')" "isolated ds" "slots_from ds b"
    "distinct (minted evs)" "nr_handle ` set ds \<inter> set (minted evs) = {}"
  shows "isolated (ds @ rs)"
  using assms
proof (induction b evs arbitrary: ds rs rule: broker_run.induct)
  case (2 b req c now fresh evs)
  obtain d b1 where a: "accept_queued b req c now fresh = (d, b1)" by fastforce
  obtain rs1 where run: "broker_run b1 evs = (rs1, b')"
    and rs: "rs = (case d of Deliver r _ \<Rightarrow> [r] | _ \<Rightarrow> []) @ rs1"
    using "2.prems"(1) by (auto simp: a split: prod.splits notify_decision.splits)
  let ?new = "case d of Deliver r _ \<Rightarrow> [r] | _ \<Rightarrow> []"
  have fresh: "fresh \<notin> nr_handle ` set ds" using "2.prems"(5) by auto
  note step = accept_queued_slots [OF a "2.prems"(2,3) fresh]
  have "nr_handle ` set (ds @ ?new) \<inter> set (minted evs) = {}"
    using step "2.prems"(4,5) by (simp add: image_Un) blast
  then show ?case
    using "2.IH" [OF a [symmetric] refl run, of "ds @ ?new"] step "2.prems"(4) rs by simp
qed (auto simp: retire_slots mutate_slots)


section \<open>What the broker guarantees\<close>

text \<open>The decision on a notification, on every branch.  A rejection changes nothing and is true of the
  request: structurally invalid, or its first action with an unregistered target.  A throttled request
  is valid but found no token, and leaves the dedupe table alone.  A delivery carries the broker-stamped
  origin and time, a remote caller's urgency clamped below critical, and the handle that already occupies
  the caller's dedupe slot if there is one; afterwards exactly that slot holds the handle.\<close>

theorem accept_exact:
  "case accept b req c now fresh registered of (d, b') \<Rightarrow>
   let origin = resolve_origin (origin_pol b) (from_id c); ok = fst (try_consume (rate b) origin now) in
   (case d of
      Rejected (Invalid e) \<Rightarrow> b' = b \<and> \<not> request_wf req \<and> describes req e
    | Rejected (UnregisteredDispatch i srv) \<Rightarrow> b' = b \<and> request_wf req \<and> i < length (req_actions req)
        \<and> (\<exists>d. on_invoke (req_actions req ! i) = Some d \<and> d_service d = srv \<and> \<not> registered srv)
    | Throttled who \<Rightarrow> request_wf req \<and> targets_registered req registered \<and> \<not> ok \<and> who = origin
        \<and> dedupe b' = dedupe b \<and> origin_pol b' = origin_pol b
    | Deliver r replaces \<Rightarrow> request_wf req \<and> targets_registered req registered \<and> ok
        \<and> replaces = slot_of b req c \<and> r = record_of b req c now fresh
        \<and> \<not> (is_remote c \<and> effective_urgency r = Critical)
        \<and> origin_pol b' = origin_pol b
        \<and> (\<forall>w k. dedupe_lookup (dedupe b') w k =
             (if w = origin \<and> req_dedupe_key req = Some k then Some (nr_handle r)
              else dedupe_lookup (dedupe b) w k)))"
proof -
  let ?o = "resolve_origin (origin_pol b) (from_id c)"
  consider (inv) e where "validate_request req = Inl e"
    | (unreg) e where "validate_request req = Inr ()" "validate_dispatch_targets req registered = Inl e"
    | (valid) "validate_request req = Inr ()" "validate_dispatch_targets req registered = Inr ()"
    by (metis (full_types) old.unit.exhaust sum.exhaust)
  then show ?thesis
  proof cases
    case inv
    then have "\<not> request_wf req" "describes req e"
      using validate_request_ok [of req] validate_request_describes [of req e] by auto
    then show ?thesis by (simp add: accept_def inv)
  next
    case unreg
    have "request_wf req" using unreg(1) validate_request_ok by blast
    moreover obtain i d where "i < length (req_actions req)" "on_invoke (req_actions req ! i) = Some d"
      "\<not> registered (d_service d)" "e = UnregisteredDispatch i (d_service d)"
      using dispatch_targets_err [of 0 "req_actions req" registered e] unreg(2)
      by (auto simp: validate_dispatch_targets_def)
    ultimately show ?thesis by (simp add: accept_def unreg)
  next
    case valid
    have wf: "request_wf req" "targets_registered req registered"
      using valid validate_request_ok
      by (auto simp: validate_dispatch_targets_def targets_registered_def dispatch_targets_ok)
    show ?thesis
    proof (cases "fst (try_consume (rate b) ?o now)")
      case True
      have urg: "\<not> (is_remote c \<and> effective_urgency (record_of b req c now fresh) = Critical)"
        by (simp add: record_of_def)
      have look: "dedupe_lookup (case req_dedupe_key req of None \<Rightarrow> dedupe b
            | Some k \<Rightarrow> dedupe b\<lparr>by_key := bm_insert (?o, k) h (by_key (dedupe b))\<rparr>) w k =
          (if w = ?o \<and> req_dedupe_key req = Some k then Some h else dedupe_lookup (dedupe b) w k)" for w k h
        by (auto simp: dedupe_lookup_def bm_get_insert split: option.split)
      show ?thesis
        using wf True urg by (simp add: accept_def valid accept_queued_cases Let_def look)
    next
      case False
      then show ?thesis using wf by (simp add: accept_def valid accept_queued_cases Let_def)
    qed
  qed
qed

text \<open>Provenance cannot be forged.  The stamped origin is "anonymous" or the caller's trimmed registered
  identity; it is a reserved label (in any case, with any surrounding white space) only where the
  allowlist grants that identity that very label, and never under the version 1 policy.\<close>

theorem origin_not_forged:
  "(resolve_origin p from = ANONYMOUS
    \<or> (\<exists>s. from = Some s \<and> trim s \<noteq> [] \<and> resolve_origin p from = trim s
        \<and> (is_reserved (trim s) \<longrightarrow> bm_get (allowlist p) (trim s) = Some (trim s))))
   \<and> \<not> is_reserved (resolve_origin policy_v1 from)"
  using resolve_origin_label resolve_v1_not_reserved by blast

theorem origin_not_forged_witness:
  "is_reserved '' RooT '' \<and> resolve_origin policy_v1 (Some '' RooT '') = ANONYMOUS
   \<and> resolve_origin policy_v1 (Some '' musicd '') = ''musicd''
   \<and> \<not> is_reserved (resolve_origin policy_v1 (Some '' RooT ''))"
proof -
  have "is_reserved '' RooT ''" "resolve_origin policy_v1 (Some '' RooT '') = ANONYMOUS"
    "resolve_origin policy_v1 (Some '' musicd '') = ''musicd''"
    by code_simp+
  then show ?thesis using origin_not_forged [of policy_v1 "Some '' RooT ''"] by blast
qed

text \<open>Callers cannot touch each other's notifications.  In every run of the broker whose fresh handles
  are pairwise distinct, two deliveries carry the same handle only if they have the same origin and
  the same dedupe key; a notification without a key is never replaced.\<close>

theorem notifications_isolated:
  assumes "broker_run (broker_new p cfg) evs = (rs, b')" "distinct (minted evs)"
    "i < j" "j < length rs" "nr_handle (rs ! i) = nr_handle (rs ! j)"
  shows "nr_origin (rs ! i) = nr_origin (rs ! j) \<and> nr_dedupe_key (rs ! i) = nr_dedupe_key (rs ! j)
    \<and> nr_dedupe_key (rs ! i) \<noteq> None"
proof -
  have "isolated ([] @ rs)"
    by (rule broker_run_isolated [OF assms(1)])
      (use assms(2) in \<open>simp_all add: isolated_def slots_from_def broker_new_def dedupe_new_def\<close>)
  then show ?thesis
    using assms(3-5) by (auto simp: isolated_def same_slot_def dest: sorted_wrt_nth_less)
qed

definition sample_note :: "string \<Rightarrow> notify_request" where
  "sample_note s = notify_new s\<lparr>req_dedupe_key := Some ''k''\<rparr>"

lemma sample_note_valid: "s = ''a'' \<or> s = ''b'' \<Longrightarrow> validate_request (sample_note s) = Inr ()"
proof -
  have "trim ''a'' = ''a''" "trim ''b'' = ''b''" by code_simp+
  then show "s = ''a'' \<or> s = ''b'' \<Longrightarrow> ?thesis"
    unfolding validate_request_ok
    by (auto simp: request_wf_def sample_note_def notify_new_def opt_len_def request_size_def MAX_SUMMARY_BYTES_def
        MAX_KEY_BYTES_def MAX_REQUEST_BYTES_def)
qed

lemma sample_note_key [simp]: "req_dedupe_key (sample_note s) = Some ''k''"
  by (simp add: sample_note_def)

definition sample_caller :: caller where
  "sample_caller = \<lparr>from_id = Some ''x'', is_remote = False\<rparr>"

lemma sample_caller_origin: "resolve_origin policy_v1 (from_id sample_caller) = ''x''"
  by code_simp

definition sample_events :: "broker_event list" where
  "sample_events =
     [Notify (sample_note ''a'') sample_caller 0 (InteractionHandle ''1''),
      Notify (sample_note ''b'') sample_caller 0 (InteractionHandle ''2'')]"

lemma sample_run_events:
  "map nr_handle (fst (broker_run (broker_new policy_v1 default_rate) sample_events)) = [InteractionHandle ''1'', InteractionHandle ''1'']"
  by (simp add: sample_events_def accept_queued_cases sample_note_valid sample_caller_origin broker_new_def
      limiter_new_def default_rate_def DEFAULT_GLOBAL_RATE_def dedupe_new_def record_of_def slot_of_def
      dedupe_lookup_def limiter_eval Let_def)

theorem notifications_isolated_witness:
  "\<exists>rs b'. broker_run (broker_new policy_v1 default_rate) sample_events = (rs, b') \<and> length rs = 2
     \<and> nr_handle (rs ! 0) = nr_handle (rs ! 1) \<and> nr_origin (rs ! 0) = nr_origin (rs ! 1)
     \<and> nr_dedupe_key (rs ! 0) = nr_dedupe_key (rs ! 1)"
proof -
  obtain rs b' where run: "broker_run (broker_new policy_v1 default_rate) sample_events = (rs, b')" by fastforce
  have hs: "map nr_handle rs = [InteractionHandle ''1'', InteractionHandle ''1'']" using sample_run_events run by simp
  then have len: "length rs = 2" by (metis length_map length_Cons list.size(3) numeral_2_eq_2)
  have "nr_handle (rs ! 0) = nr_handle (rs ! 1)"
    using hs len by (metis nth_map nth_Cons_0 nth_Cons_Suc One_nat_def lessI pos2 numeral_2_eq_2)
  moreover have "distinct (minted sample_events)" by (simp add: sample_events_def)
  ultimately show ?thesis
    using notifications_isolated [OF run, of 0 1] run len by auto
qed

end
