(* ===== verification/Interact_DialogSchema.thy ===== *)
theory Interact_DialogSchema
  imports Cosmix_Str
begin

text \<open>
  The \<^verbatim>\<open>dialog.v1\<close> contract (\<^verbatim>\<open>cosmix-interaction-schema/src/dialog.rs\<close>): requests, results, their structural
  validation and byte accounting.  Field names in errors are the code's literals.  \<^verbatim>\<open>i32\<close> values are integers
  (the code widens to \<^verbatim>\<open>i64\<close> before it subtracts), lengths are naturals, \<^verbatim>\<open>chars().count()\<close> counts the bytes
  that are not UTF-8 continuation bytes.
\<close>

section \<open>Data\<close>

datatype dialog_error =
    Empty string
  | TooLong string nat
  | TooMany string nat
  | InvalidKey string string
  | DuplicateKey string string
  | MultipleDefaults
  | MultipleCancelActions
  | DestructiveDefault
  | UnknownDefaultKey string
  | DisabledDefaultKey string
  | InvalidProgress
  | InvalidSlider
  | InvalidSaveName
  | InvalidExtension string
  | InvalidDeadline
  | ResultKindMismatch
  | UnknownResultKey string
  | DisabledResultKey string
  | DuplicateResultKey string
  | DialogTooLarge nat nat
  | ResultTooLarge nat nat

datatype dialog_severity = SevInfo | SevSuccess | SevWarning | SevError

record dialog_common =
  dc_title :: string
  dc_message :: "string option"
  dc_severity :: dialog_severity

datatype dialog_role = RoleAccept | RoleCancel | RoleDestructive | RoleAuxiliary

record dialog_action =
  da_key :: string
  da_label :: string
  da_role :: dialog_role
  da_is_default :: bool

record dialog_item =
  di_key :: string
  di_label :: string
  di_description :: "string option"
  di_enabled :: bool

record dialog_input =
  in_initial :: "string option"
  in_max_chars :: nat
  in_required :: bool
  in_multiline :: bool

datatype progress_value = Indeterminate | Determinate nat nat

record dialog_filter =
  df_label :: string
  df_extensions :: "string list"

datatype dialog_request =
    MessageReq dialog_common "string option"
  | ConfirmReq dialog_common "dialog_action list"
  | PromptReq dialog_common dialog_input
  | ChoiceReq dialog_common "dialog_item list" "string option"
  | MultiChoiceReq dialog_common "dialog_item list" "string list"
  | ProgressReq dialog_common progress_value bool
  | FileOpenReq dialog_common "string option" "dialog_filter list" bool
  | FileSaveReq dialog_common "string option" "dialog_filter list" "string option" "string option"
  | DirSelectReq dialog_common "string option"
  | SliderReq dialog_common int int int int
  | TextViewReq dialog_common string bool

datatype progress_completion = Succeeded | CompletionCancelled | CompletionFailed string

datatype dialog_value =
    MessageVal
  | ConfirmVal string
  | PromptVal string
  | ChoiceVal string
  | MultiChoiceVal "string list"
  | ProgressVal progress_completion
  | FileOpenVal "string list"
  | FileSaveVal string
  | DirSelectVal string
  | SliderVal int
  | TextViewVal

record dialog_open_request =
  or_dialog :: dialog_request
  or_deadline_ms :: "nat option"

record progress_patch =
  pp_message :: "string option"
  pp_progress :: "progress_value option"

datatype dialog_state =
  DQueued | Presenting | Presented | CancelRequested | Resolved | Cancelled | DExpired | DFailed

definition dialog_terminal :: "dialog_state \<Rightarrow> bool" where
  "dialog_terminal s \<longleftrightarrow> s \<in> {Resolved, Cancelled, DExpired, DFailed}"

definition MIN_DIALOG_DEADLINE_MS :: nat where "MIN_DIALOG_DEADLINE_MS = 300000"
definition DIALOG_RAW_INGRESS_CAP :: nat where "DIALOG_RAW_INGRESS_CAP = 16 * 1024"
definition MAX_DIALOG_REQUEST_BYTES :: nat where "MAX_DIALOG_REQUEST_BYTES = DIALOG_RAW_INGRESS_CAP"
definition MAX_DIALOG_RESULT_BYTES :: nat where "MAX_DIALOG_RESULT_BYTES = DIALOG_RAW_INGRESS_CAP"
definition MAX_DIALOG_TITLE_BYTES :: nat where "MAX_DIALOG_TITLE_BYTES = 512"
definition MAX_DIALOG_MESSAGE_BYTES :: nat where "MAX_DIALOG_MESSAGE_BYTES = 8 * 1024"
definition MAX_DIALOG_DETAILS_BYTES :: nat where "MAX_DIALOG_DETAILS_BYTES = 8 * 1024"
definition MAX_DIALOG_TEXT_VIEW_BYTES :: nat where "MAX_DIALOG_TEXT_VIEW_BYTES = 12 * 1024"
definition MAX_DIALOG_LABEL_BYTES :: nat where "MAX_DIALOG_LABEL_BYTES = 128"
definition MAX_DIALOG_KEY_BYTES :: nat where "MAX_DIALOG_KEY_BYTES = 128"
definition MAX_DIALOG_PATH_BYTES :: nat where "MAX_DIALOG_PATH_BYTES = 4 * 1024"
definition MAX_DIALOG_PROMPT_INITIAL_BYTES :: nat where "MAX_DIALOG_PROMPT_INITIAL_BYTES = 4 * 1024"
definition MAX_DIALOG_PROMPT_CHARS :: nat where "MAX_DIALOG_PROMPT_CHARS = 4096"
definition MAX_DIALOG_ITEMS :: nat where "MAX_DIALOG_ITEMS = 256"
definition MAX_DIALOG_PATHS :: nat where "MAX_DIALOG_PATHS = 256"
definition MAX_DIALOG_ACTIONS :: nat where "MAX_DIALOG_ACTIONS = 3"
definition MAX_DIALOG_FILTERS :: nat where "MAX_DIALOG_FILTERS = 16"
definition MAX_DIALOG_EXTENSIONS_PER_FILTER :: nat where "MAX_DIALOG_EXTENSIONS_PER_FILTER = 32"

type_synonym check = "(dialog_error, unit) result"

section \<open>Field checks\<close>

definition dlg_len :: "string \<Rightarrow> string \<Rightarrow> nat \<Rightarrow> check" where
  "dlg_len field v mx = (if length v > mx then Inl (TooLong field mx) else Inr ())"

definition dlg_optional_len :: "string \<Rightarrow> string option \<Rightarrow> nat \<Rightarrow> check" where
  "dlg_optional_len field v mx = (case v of None \<Rightarrow> Inr () | Some s \<Rightarrow> dlg_len field s mx)"

definition dlg_non_empty_len :: "string \<Rightarrow> string \<Rightarrow> nat \<Rightarrow> check" where
  "dlg_non_empty_len field v mx = (if v = [] then Inl (Empty field) else dlg_len field v mx)"

definition dlg_count :: "string \<Rightarrow> nat \<Rightarrow> nat \<Rightarrow> check" where
  "dlg_count field actual mx = (if actual > mx then Inl (TooMany field mx) else Inr ())"

definition dlg_optional_path :: "string \<Rightarrow> string option \<Rightarrow> check" where
  "dlg_optional_path field v =
     (case v of None \<Rightarrow> Inr () | Some s \<Rightarrow> dlg_non_empty_len field s MAX_DIALOG_PATH_BYTES)"

definition key_byte :: "char \<Rightarrow> bool" where
  "key_byte b \<longleftrightarrow> is_ascii_lowercase b \<or> is_ascii_uppercase b \<or> is_ascii_digit b \<or> b \<in> set ''._-''"

definition dlg_key :: "string \<Rightarrow> string \<Rightarrow> check" where
  "dlg_key field k =
     (if k = [] \<or> length k > MAX_DIALOG_KEY_BYTES \<or> \<not> list_all (\<lambda>b. of_char b < (128::nat)) k \<or> \<not> list_all key_byte k
      then Inl (InvalidKey field k) else Inr ())"

definition ext_byte :: "char \<Rightarrow> bool" where
  "ext_byte b \<longleftrightarrow> is_ascii_lowercase b \<or> is_ascii_digit b \<or> b \<in> set ''+-''"

definition dlg_extension :: "string \<Rightarrow> check" where
  "dlg_extension e =
     (if e = [] \<or> hd e = CHR ''.'' \<or> \<not> list_all ext_byte e then Inl (InvalidExtension e) else Inr ())"

definition chars_count :: "string \<Rightarrow> nat" where
  "chars_count s = length (filter (\<lambda>b. \<not> (128 \<le> (of_char b :: nat) \<and> of_char b < (192 :: nat))) s)"

definition dlg_common :: "dialog_common \<Rightarrow> check" where
  "dlg_common c =
     and_then (dlg_non_empty_len ''title'' (dc_title c) MAX_DIALOG_TITLE_BYTES)
       (\<lambda>_. dlg_optional_len ''message'' (dc_message c) MAX_DIALOG_MESSAGE_BYTES)"

section \<open>Checks of the request parts\<close>

fun dlg_action_loop :: "string set \<Rightarrow> nat \<Rightarrow> nat \<Rightarrow> dialog_action list \<Rightarrow> (dialog_error, nat \<times> nat) result" where
  "dlg_action_loop ks defaults cancels [] = Inr (defaults, cancels)"
| "dlg_action_loop ks defaults cancels (a # as) =
     and_then (dlg_key ''actions'' (da_key a)) (\<lambda>_.
     and_then (dlg_non_empty_len ''action.label'' (da_label a) MAX_DIALOG_LABEL_BYTES) (\<lambda>_.
     if da_key a \<in> ks then Inl (DuplicateKey ''actions'' (da_key a))
     else if da_is_default a \<and> da_role a = RoleDestructive then Inl DestructiveDefault
     else dlg_action_loop (insert (da_key a) ks)
            (if da_is_default a then defaults + 1 else defaults)
            (if da_role a = RoleCancel then cancels + 1 else cancels) as))"

definition dlg_actions :: "dialog_action list \<Rightarrow> check" where
  "dlg_actions as =
     and_then (dlg_count ''actions'' (length as) MAX_DIALOG_ACTIONS) (\<lambda>_.
     if as = [] then Inl (Empty ''actions'')
     else and_then (dlg_action_loop {} 0 0 as) (\<lambda>(defaults, cancels).
       if defaults > 1 then Inl MultipleDefaults
       else if cancels > 1 then Inl MultipleCancelActions
       else Inr ()))"

definition dlg_input :: "dialog_input \<Rightarrow> check" where
  "dlg_input i =
     (if in_max_chars i = 0 \<or> in_max_chars i > MAX_DIALOG_PROMPT_CHARS
      then Inl (TooLong ''max_chars'' MAX_DIALOG_PROMPT_CHARS)
      else case in_initial i of
        None \<Rightarrow> Inr ()
      | Some s \<Rightarrow>
          and_then (dlg_len ''input.initial'' s MAX_DIALOG_PROMPT_INITIAL_BYTES) (\<lambda>_.
          if chars_count s > in_max_chars i then Inl (TooLong ''input.initial'' (in_max_chars i)) else Inr ()))"

fun dlg_item_loop :: "string set \<Rightarrow> dialog_item list \<Rightarrow> check" where
  "dlg_item_loop ks [] = Inr ()"
| "dlg_item_loop ks (i # is) =
     and_then (dlg_key ''items'' (di_key i)) (\<lambda>_.
     and_then (dlg_non_empty_len ''item.label'' (di_label i) MAX_DIALOG_LABEL_BYTES) (\<lambda>_.
     and_then (dlg_optional_len ''item.description'' (di_description i) MAX_DIALOG_MESSAGE_BYTES) (\<lambda>_.
     if di_key i \<in> ks then Inl (DuplicateKey ''items'' (di_key i))
     else dlg_item_loop (insert (di_key i) ks) is)))"

definition dlg_items :: "dialog_item list \<Rightarrow> check" where
  "dlg_items is =
     and_then (dlg_count ''items'' (length is) MAX_DIALOG_ITEMS) (\<lambda>_.
     if is = [] then Inl (Empty ''items'') else dlg_item_loop {} is)"

definition dlg_initial_key :: "dialog_item list \<Rightarrow> string \<Rightarrow> check" where
  "dlg_initial_key is k = (case find (\<lambda>i. di_key i = k) is of
     None \<Rightarrow> Inl (UnknownDefaultKey k)
   | Some i \<Rightarrow> if \<not> di_enabled i then Inl (DisabledDefaultKey k) else Inr ())"

definition dlg_result_choice :: "dialog_item list \<Rightarrow> string \<Rightarrow> check" where
  "dlg_result_choice is k = (case find (\<lambda>i. di_key i = k) is of
     None \<Rightarrow> Inl (UnknownResultKey k)
   | Some i \<Rightarrow> if \<not> di_enabled i then Inl (DisabledResultKey k) else Inr ())"

fun dlg_initial_loop :: "dialog_item list \<Rightarrow> string set \<Rightarrow> string list \<Rightarrow> check" where
  "dlg_initial_loop is ks [] = Inr ()"
| "dlg_initial_loop is ks (k # rest) =
     and_then (dlg_initial_key is k) (\<lambda>_.
     if k \<in> ks then Inl (DuplicateKey ''initial'' k) else dlg_initial_loop is (insert k ks) rest)"

fun dlg_result_loop :: "dialog_item list \<Rightarrow> string set \<Rightarrow> string list \<Rightarrow> check" where
  "dlg_result_loop is ks [] = Inr ()"
| "dlg_result_loop is ks (k # rest) =
     and_then (dlg_result_choice is k) (\<lambda>_.
     if k \<in> ks then Inl (DuplicateResultKey k) else dlg_result_loop is (insert k ks) rest)"

fun dlg_progress :: "progress_value \<Rightarrow> check" where
  "dlg_progress Indeterminate = Inr ()"
| "dlg_progress (Determinate current tot) =
     (if tot = 0 \<or> current > tot then Inl InvalidProgress else Inr ())"

definition dlg_slider :: "int \<Rightarrow> int \<Rightarrow> int \<Rightarrow> int \<Rightarrow> check" where
  "dlg_slider mn mx step v =
     (if mn \<ge> mx \<or> step \<le> 0 \<or> v < mn \<or> v > mx then Inl InvalidSlider
      else if (v - mn) mod step \<noteq> 0 then Inl InvalidSlider
      else Inr ())"

definition dlg_save_name :: "string \<Rightarrow> check" where
  "dlg_save_name name =
     (if name = [] \<or> name = ''.'' \<or> name = ''..'' \<or> CHR ''/'' \<in> set name \<or> CHR 0x5C \<in> set name
      then Inl InvalidSaveName
      else dlg_len ''suggested_name'' name MAX_DIALOG_PATH_BYTES)"

fun dlg_extension_loop :: "string set \<Rightarrow> string list \<Rightarrow> check" where
  "dlg_extension_loop es [] = Inr ()"
| "dlg_extension_loop es (e # rest) =
     and_then (dlg_extension e) (\<lambda>_.
     if e \<in> es then Inl (DuplicateKey ''filter.extensions'' e) else dlg_extension_loop (insert e es) rest)"

fun dlg_filter_loop :: "string set \<Rightarrow> dialog_filter list \<Rightarrow> (dialog_error, string set) result" where
  "dlg_filter_loop all [] = Inr all"
| "dlg_filter_loop all (f # fs) =
     and_then (dlg_non_empty_len ''filter.label'' (df_label f) MAX_DIALOG_LABEL_BYTES) (\<lambda>_.
     and_then (dlg_count ''filter.extensions'' (length (df_extensions f)) MAX_DIALOG_EXTENSIONS_PER_FILTER) (\<lambda>_.
     if df_extensions f = [] then Inl (Empty ''filter.extensions'')
     else and_then (dlg_extension_loop {} (df_extensions f)) (\<lambda>_.
            dlg_filter_loop (all \<union> set (df_extensions f)) fs)))"

definition dlg_filters :: "dialog_filter list \<Rightarrow> string option \<Rightarrow> check" where
  "dlg_filters fs dflt =
     and_then (dlg_count ''filters'' (length fs) MAX_DIALOG_FILTERS) (\<lambda>_.
     and_then (dlg_filter_loop {} fs) (\<lambda>all.
     case dflt of
       None \<Rightarrow> Inr ()
     | Some e \<Rightarrow> and_then (dlg_extension e) (\<lambda>_.
         if e \<notin> all then Inl (UnknownDefaultKey e) else Inr ())))"

section \<open>Requests\<close>

fun request_common :: "dialog_request \<Rightarrow> dialog_common" where
  "request_common (MessageReq c _) = c"
| "request_common (ConfirmReq c _) = c"
| "request_common (PromptReq c _) = c"
| "request_common (ChoiceReq c _ _) = c"
| "request_common (MultiChoiceReq c _ _) = c"
| "request_common (ProgressReq c _ _) = c"
| "request_common (FileOpenReq c _ _ _) = c"
| "request_common (FileSaveReq c _ _ _ _) = c"
| "request_common (DirSelectReq c _) = c"
| "request_common (SliderReq c _ _ _ _) = c"
| "request_common (TextViewReq c _ _) = c"

definition str_len :: "string option \<Rightarrow> nat" where
  "str_len v = (case v of None \<Rightarrow> 0 | Some s \<Rightarrow> length s)"

definition item_bytes :: "dialog_item list \<Rightarrow> nat" where
  "item_bytes is = sum_list (map (\<lambda>i. length (di_key i) + length (di_label i) + str_len (di_description i)) is)"

definition filter_bytes :: "dialog_filter list \<Rightarrow> nat" where
  "filter_bytes fs = sum_list (map (\<lambda>f. length (df_label f) + sum_list (map length (df_extensions f))) fs)"

fun detail_bytes :: "dialog_request \<Rightarrow> nat" where
  "detail_bytes (MessageReq _ details) = str_len details"
| "detail_bytes (ConfirmReq _ as) = sum_list (map (\<lambda>a. length (da_key a) + length (da_label a)) as)"
| "detail_bytes (PromptReq _ i) = str_len (in_initial i)"
| "detail_bytes (ChoiceReq _ is initial) = item_bytes is + str_len initial"
| "detail_bytes (MultiChoiceReq _ is initial) = item_bytes is + sum_list (map length initial)"
| "detail_bytes (ProgressReq _ _ _) = 0"
| "detail_bytes (SliderReq _ _ _ _ _) = 0"
| "detail_bytes (FileOpenReq _ dir fs _) = str_len dir + filter_bytes fs"
| "detail_bytes (FileSaveReq _ dir fs name ext) = str_len dir + filter_bytes fs + str_len name + str_len ext"
| "detail_bytes (DirSelectReq _ dir) = str_len dir"
| "detail_bytes (TextViewReq _ v _) = length v"

definition dialog_retained_bytes :: "dialog_request \<Rightarrow> nat" where
  "dialog_retained_bytes r =
     length (dc_title (request_common r)) + str_len (dc_message (request_common r)) + detail_bytes r"

fun dlg_details :: "dialog_request \<Rightarrow> check" where
  "dlg_details (MessageReq _ details) = dlg_optional_len ''details'' details MAX_DIALOG_DETAILS_BYTES"
| "dlg_details (ConfirmReq _ as) = dlg_actions as"
| "dlg_details (PromptReq _ i) = dlg_input i"
| "dlg_details (ChoiceReq _ is initial) =
     and_then (dlg_items is) (\<lambda>_. case initial of None \<Rightarrow> Inr () | Some k \<Rightarrow> dlg_initial_key is k)"
| "dlg_details (MultiChoiceReq _ is initial) =
     and_then (dlg_items is) (\<lambda>_.
     and_then (dlg_count ''initial'' (length initial) MAX_DIALOG_ITEMS) (\<lambda>_. dlg_initial_loop is {} initial))"
| "dlg_details (ProgressReq _ p _) = dlg_progress p"
| "dlg_details (FileOpenReq _ dir fs _) =
     and_then (dlg_optional_path ''initial_directory'' dir) (\<lambda>_. dlg_filters fs None)"
| "dlg_details (FileSaveReq _ dir fs name ext) =
     and_then (dlg_optional_path ''initial_directory'' dir) (\<lambda>_.
     and_then (case name of None \<Rightarrow> Inr () | Some n \<Rightarrow> dlg_save_name n) (\<lambda>_. dlg_filters fs ext))"
| "dlg_details (DirSelectReq _ dir) = dlg_optional_path ''initial_directory'' dir"
| "dlg_details (SliderReq _ mn mx step v) = dlg_slider mn mx step v"
| "dlg_details (TextViewReq _ v _) = dlg_non_empty_len ''text'' v MAX_DIALOG_TEXT_VIEW_BYTES"

definition dialog_validate :: "dialog_request \<Rightarrow> check" where
  "dialog_validate r =
     and_then (dlg_common (request_common r)) (\<lambda>_.
     and_then (dlg_details r) (\<lambda>_.
     if dialog_retained_bytes r > MAX_DIALOG_REQUEST_BYTES
     then Inl (DialogTooLarge (dialog_retained_bytes r) MAX_DIALOG_REQUEST_BYTES) else Inr ()))"

definition open_validate :: "dialog_open_request \<Rightarrow> check" where
  "open_validate r =
     and_then (dialog_validate (or_dialog r)) (\<lambda>_.
     case or_deadline_ms r of
       None \<Rightarrow> Inr ()
     | Some d \<Rightarrow> if d < MIN_DIALOG_DEADLINE_MS then Inl InvalidDeadline else Inr ())"

section \<open>Results\<close>

definition patch_validate :: "progress_patch \<Rightarrow> check" where
  "patch_validate p =
     and_then (dlg_optional_len ''message'' (pp_message p) MAX_DIALOG_MESSAGE_BYTES) (\<lambda>_.
     case pp_progress p of None \<Rightarrow> Inr () | Some v \<Rightarrow> dlg_progress v)"

fun completion_validate :: "progress_completion \<Rightarrow> check" where
  "completion_validate (CompletionFailed m) = dlg_non_empty_len ''message'' m MAX_DIALOG_MESSAGE_BYTES"
| "completion_validate _ = Inr ()"

fun value_bytes :: "dialog_value \<Rightarrow> nat" where
  "value_bytes (ConfirmVal a) = length a"
| "value_bytes (PromptVal v) = length v"
| "value_bytes (ChoiceVal k) = length k"
| "value_bytes (MultiChoiceVal ks) = sum_list (map length ks)"
| "value_bytes (ProgressVal (CompletionFailed m)) = length m"
| "value_bytes (FileOpenVal ps) = sum_list (map length ps)"
| "value_bytes (FileSaveVal p) = length p"
| "value_bytes (DirSelectVal p) = length p"
| "value_bytes _ = 0"

definition value_kind :: "dialog_value \<Rightarrow> dialog_request \<Rightarrow> check" where
  "value_kind v r = (case v of
     MessageVal \<Rightarrow> (case r of MessageReq _ _ \<Rightarrow> Inr () | _ \<Rightarrow> Inl ResultKindMismatch)
   | PromptVal _ \<Rightarrow> (case r of PromptReq _ _ \<Rightarrow> Inr () | _ \<Rightarrow> Inl ResultKindMismatch)
   | ProgressVal _ \<Rightarrow> (case r of ProgressReq _ _ _ \<Rightarrow> Inr () | _ \<Rightarrow> Inl ResultKindMismatch)
   | FileOpenVal _ \<Rightarrow> (case r of FileOpenReq _ _ _ _ \<Rightarrow> Inr () | _ \<Rightarrow> Inl ResultKindMismatch)
   | FileSaveVal _ \<Rightarrow> (case r of FileSaveReq _ _ _ _ _ \<Rightarrow> Inr () | _ \<Rightarrow> Inl ResultKindMismatch)
   | DirSelectVal _ \<Rightarrow> (case r of DirSelectReq _ _ \<Rightarrow> Inr () | _ \<Rightarrow> Inl ResultKindMismatch)
   | SliderVal _ \<Rightarrow> (case r of SliderReq _ _ _ _ _ \<Rightarrow> Inr () | _ \<Rightarrow> Inl ResultKindMismatch)
   | TextViewVal \<Rightarrow> (case r of TextViewReq _ _ _ \<Rightarrow> Inr () | _ \<Rightarrow> Inl ResultKindMismatch)
   | ConfirmVal a \<Rightarrow>
       (case r of
          ConfirmReq _ as \<Rightarrow> if \<not> list_ex (\<lambda>c. da_key c = a) as then Inl (UnknownResultKey a) else Inr ()
        | _ \<Rightarrow> Inl ResultKindMismatch)
   | ChoiceVal k \<Rightarrow> (case r of ChoiceReq _ is _ \<Rightarrow> dlg_result_choice is k | _ \<Rightarrow> Inl ResultKindMismatch)
   | MultiChoiceVal ks \<Rightarrow>
       (case r of
          MultiChoiceReq _ is _ \<Rightarrow>
            and_then (dlg_count ''keys'' (length ks) MAX_DIALOG_ITEMS) (\<lambda>_. dlg_result_loop is {} ks)
        | _ \<Rightarrow> Inl ResultKindMismatch))"

fun dlg_path_loop :: "string list \<Rightarrow> check" where
  "dlg_path_loop [] = Inr ()"
| "dlg_path_loop (p # ps) =
     and_then (dlg_non_empty_len ''path'' p MAX_DIALOG_PATH_BYTES) (\<lambda>_. dlg_path_loop ps)"

fun value_content :: "dialog_value \<Rightarrow> dialog_request \<Rightarrow> check" where
  "value_content (PromptVal v) r =
     and_then (dlg_len ''text'' v MAX_DIALOG_PROMPT_INITIAL_BYTES) (\<lambda>_.
     case r of
       PromptReq _ i \<Rightarrow>
         if in_required i \<and> v = [] then Inl (Empty ''text'')
         else if chars_count v > in_max_chars i then Inl (TooLong ''text'' (in_max_chars i))
         else Inr ()
     | _ \<Rightarrow> Inr ())"
| "value_content (ProgressVal c) r = completion_validate c"
| "value_content (FileOpenVal ps) r =
     (if ps = [] then Inl (Empty ''paths'')
      else and_then (dlg_count ''paths'' (length ps) MAX_DIALOG_PATHS) (\<lambda>_.
           case r of
             FileOpenReq _ _ _ multiple \<Rightarrow>
               if \<not> multiple \<and> length ps \<noteq> 1 then Inl (TooMany ''paths'' 1) else dlg_path_loop ps
           | _ \<Rightarrow> dlg_path_loop ps))"
| "value_content (FileSaveVal p) r = dlg_non_empty_len ''path'' p MAX_DIALOG_PATH_BYTES"
| "value_content (DirSelectVal p) r = dlg_non_empty_len ''path'' p MAX_DIALOG_PATH_BYTES"
| "value_content (SliderVal v) r = (case r of SliderReq _ mn mx step _ \<Rightarrow> dlg_slider mn mx step v | _ \<Rightarrow> Inr ())"
| "value_content _ r = Inr ()"

definition validate_for :: "dialog_value \<Rightarrow> dialog_request \<Rightarrow> check" where
  "validate_for v r =
     and_then (value_kind v r) (\<lambda>_.
     and_then (value_content v r) (\<lambda>_.
     if value_bytes v > MAX_DIALOG_RESULT_BYTES
     then Inl (ResultTooLarge (value_bytes v) MAX_DIALOG_RESULT_BYTES) else Inr ()))"


section \<open>The contract, declaratively\<close>

definition within :: "string \<Rightarrow> nat \<Rightarrow> bool" where
  "within s mx \<longleftrightarrow> s \<noteq> [] \<and> length s \<le> mx"

definition common_wf :: "dialog_common \<Rightarrow> bool" where
  "common_wf c \<longleftrightarrow> within (dc_title c) MAX_DIALOG_TITLE_BYTES \<and> str_len (dc_message c) \<le> MAX_DIALOG_MESSAGE_BYTES"

definition key_wf :: "string \<Rightarrow> bool" where
  "key_wf k \<longleftrightarrow> within k MAX_DIALOG_KEY_BYTES \<and> (\<forall>b\<in>set k. key_byte b)"

definition ext_wf :: "string \<Rightarrow> bool" where
  "ext_wf e \<longleftrightarrow> e \<noteq> [] \<and> (\<forall>b\<in>set e. ext_byte b)"

definition actions_wf :: "dialog_action list \<Rightarrow> bool" where
  "actions_wf as \<longleftrightarrow> as \<noteq> [] \<and> length as \<le> MAX_DIALOG_ACTIONS \<and> distinct (map da_key as)
     \<and> (\<forall>a\<in>set as. key_wf (da_key a) \<and> within (da_label a) MAX_DIALOG_LABEL_BYTES
          \<and> \<not> (da_is_default a \<and> da_role a = RoleDestructive))
     \<and> length (filter da_is_default as) \<le> 1
     \<and> length (filter (\<lambda>a. da_role a = RoleCancel) as) \<le> 1"

definition input_wf :: "dialog_input \<Rightarrow> bool" where
  "input_wf i \<longleftrightarrow> 0 < in_max_chars i \<and> in_max_chars i \<le> MAX_DIALOG_PROMPT_CHARS
     \<and> (\<forall>s. in_initial i = Some s \<longrightarrow> length s \<le> MAX_DIALOG_PROMPT_INITIAL_BYTES \<and> chars_count s \<le> in_max_chars i)"

definition items_wf :: "dialog_item list \<Rightarrow> bool" where
  "items_wf is \<longleftrightarrow> is \<noteq> [] \<and> length is \<le> MAX_DIALOG_ITEMS \<and> distinct (map di_key is)
     \<and> (\<forall>i\<in>set is. key_wf (di_key i) \<and> within (di_label i) MAX_DIALOG_LABEL_BYTES
          \<and> str_len (di_description i) \<le> MAX_DIALOG_MESSAGE_BYTES)"

text \<open>A key that may be chosen: the first item that carries it is enabled.\<close>

definition selectable :: "dialog_item list \<Rightarrow> string \<Rightarrow> bool" where
  "selectable is k \<longleftrightarrow> (\<exists>i. find (\<lambda>i. di_key i = k) is = Some i \<and> di_enabled i)"

fun progress_wf :: "progress_value \<Rightarrow> bool" where
  "progress_wf Indeterminate = True"
| "progress_wf (Determinate current tot) \<longleftrightarrow> 0 < tot \<and> current \<le> tot"

definition slider_wf :: "int \<Rightarrow> int \<Rightarrow> int \<Rightarrow> int \<Rightarrow> bool" where
  "slider_wf mn mx step v \<longleftrightarrow> mn < mx \<and> 0 < step \<and> mn \<le> v \<and> v \<le> mx \<and> (\<exists>k\<ge>0. v = mn + k * step)"

definition filters_wf :: "dialog_filter list \<Rightarrow> string option \<Rightarrow> bool" where
  "filters_wf fs dflt \<longleftrightarrow> length fs \<le> MAX_DIALOG_FILTERS
     \<and> (\<forall>f\<in>set fs. within (df_label f) MAX_DIALOG_LABEL_BYTES
          \<and> df_extensions f \<noteq> [] \<and> length (df_extensions f) \<le> MAX_DIALOG_EXTENSIONS_PER_FILTER
          \<and> distinct (df_extensions f) \<and> (\<forall>e\<in>set (df_extensions f). ext_wf e))
     \<and> (\<forall>e. dflt = Some e \<longrightarrow> ext_wf e \<and> (\<exists>f\<in>set fs. e \<in> set (df_extensions f)))"

definition path_wf :: "string option \<Rightarrow> bool" where
  "path_wf v \<longleftrightarrow> (\<forall>s. v = Some s \<longrightarrow> within s MAX_DIALOG_PATH_BYTES)"

definition save_name_wf :: "string option \<Rightarrow> bool" where
  "save_name_wf v \<longleftrightarrow> (\<forall>s. v = Some s \<longrightarrow> within s MAX_DIALOG_PATH_BYTES \<and> s \<notin> {''.'', ''..''}
     \<and> CHR ''/'' \<notin> set s \<and> CHR 0x5C \<notin> set s)"

fun details_wf :: "dialog_request \<Rightarrow> bool" where
  "details_wf (MessageReq _ details) \<longleftrightarrow> str_len details \<le> MAX_DIALOG_DETAILS_BYTES"
| "details_wf (ConfirmReq _ as) \<longleftrightarrow> actions_wf as"
| "details_wf (PromptReq _ i) \<longleftrightarrow> input_wf i"
| "details_wf (ChoiceReq _ is initial) \<longleftrightarrow> items_wf is \<and> (\<forall>k. initial = Some k \<longrightarrow> selectable is k)"
| "details_wf (MultiChoiceReq _ is initial) \<longleftrightarrow> items_wf is \<and> length initial \<le> MAX_DIALOG_ITEMS
     \<and> distinct initial \<and> (\<forall>k\<in>set initial. selectable is k)"
| "details_wf (ProgressReq _ p _) \<longleftrightarrow> progress_wf p"
| "details_wf (FileOpenReq _ dir fs _) \<longleftrightarrow> path_wf dir \<and> filters_wf fs None"
| "details_wf (FileSaveReq _ dir fs name ext) \<longleftrightarrow> path_wf dir \<and> save_name_wf name \<and> filters_wf fs ext"
| "details_wf (DirSelectReq _ dir) \<longleftrightarrow> path_wf dir"
| "details_wf (SliderReq _ mn mx step v) \<longleftrightarrow> slider_wf mn mx step v"
| "details_wf (TextViewReq _ v _) \<longleftrightarrow> within v MAX_DIALOG_TEXT_VIEW_BYTES"

definition dialog_wf :: "dialog_request \<Rightarrow> bool" where
  "dialog_wf r \<longleftrightarrow> common_wf (request_common r) \<and> details_wf r \<and> dialog_retained_bytes r \<le> MAX_DIALOG_REQUEST_BYTES"

text \<open>The answers a request allows.\<close>

definition answers :: "dialog_request \<Rightarrow> dialog_value \<Rightarrow> bool" where
  "answers r v \<longleftrightarrow> (case r of
     MessageReq _ _ \<Rightarrow> v = MessageVal
   | ConfirmReq _ as \<Rightarrow> (\<exists>a\<in>set as. v = ConfirmVal (da_key a))
   | PromptReq _ i \<Rightarrow> (\<exists>s. v = PromptVal s \<and> length s \<le> MAX_DIALOG_PROMPT_INITIAL_BYTES
       \<and> \<not> (in_required i \<and> s = []) \<and> chars_count s \<le> in_max_chars i)
   | ChoiceReq _ is _ \<Rightarrow> (\<exists>k. v = ChoiceVal k \<and> selectable is k)
   | MultiChoiceReq _ is _ \<Rightarrow> (\<exists>ks. v = MultiChoiceVal ks \<and> length ks \<le> MAX_DIALOG_ITEMS \<and> distinct ks
       \<and> (\<forall>k\<in>set ks. selectable is k))
   | ProgressReq _ _ _ \<Rightarrow>
       (\<exists>c. v = ProgressVal c \<and> (\<forall>m. c = CompletionFailed m \<longrightarrow> within m MAX_DIALOG_MESSAGE_BYTES))
   | FileOpenReq _ _ _ multiple \<Rightarrow> (\<exists>ps. v = FileOpenVal ps \<and> ps \<noteq> [] \<and> length ps \<le> MAX_DIALOG_PATHS
       \<and> (multiple \<or> length ps = 1) \<and> (\<forall>p\<in>set ps. within p MAX_DIALOG_PATH_BYTES))
   | FileSaveReq _ _ _ _ _ \<Rightarrow> (\<exists>p. v = FileSaveVal p \<and> within p MAX_DIALOG_PATH_BYTES)
   | DirSelectReq _ _ \<Rightarrow> (\<exists>p. v = DirSelectVal p \<and> within p MAX_DIALOG_PATH_BYTES)
   | SliderReq _ mn mx step _ \<Rightarrow> (\<exists>x. v = SliderVal x \<and> slider_wf mn mx step x)
   | TextViewReq _ _ _ \<Rightarrow> v = TextViewVal)"

section \<open>The checks decide the contract\<close>

named_theorems check_ok \<open>a check of the code succeeds iff the declarative condition holds\<close>

lemma then_ok [check_ok]: "and_then m k = Inr y \<longleftrightarrow> (\<exists>x. m = Inr x \<and> k x = Inr y)"
  by (cases m) auto

lemma len_ok [check_ok]: "dlg_len field v mx = Inr u \<longleftrightarrow> length v \<le> mx"
  by (simp add: dlg_len_def)

lemma optional_len_ok [check_ok]: "dlg_optional_len field v mx = Inr u \<longleftrightarrow> str_len v \<le> mx"
  by (simp add: dlg_optional_len_def str_len_def check_ok split: option.split)

lemma non_empty_len_ok [check_ok]: "dlg_non_empty_len field v mx = Inr u \<longleftrightarrow> within v mx"
  by (simp add: dlg_non_empty_len_def within_def check_ok)

lemma count_ok [check_ok]: "dlg_count field n mx = Inr u \<longleftrightarrow> n \<le> mx"
  by (simp add: dlg_count_def)

lemma optional_path_ok [check_ok]: "dlg_optional_path field v = Inr u \<longleftrightarrow> path_wf v"
  by (simp add: dlg_optional_path_def path_wf_def check_ok split: option.split)

lemma key_byte_ascii: "key_byte b \<Longrightarrow> of_char b < (128 :: nat)"
  by (auto simp: key_byte_def is_ascii_lowercase_def is_ascii_uppercase_def is_ascii_digit_def less_eq_char_def)

lemma key_ok [check_ok]: "dlg_key field k = Inr u \<longleftrightarrow> key_wf k"
  using key_byte_ascii by (auto simp: dlg_key_def key_wf_def within_def list_all_iff)

lemma ext_byte_dot: "\<not> ext_byte (CHR ''.'')"
  by (simp add: ext_byte_def is_ascii_lowercase_def is_ascii_digit_def less_eq_char_def)

lemma extension_ok [check_ok]: "dlg_extension e = Inr u \<longleftrightarrow> ext_wf e"
  using ext_byte_dot by (cases e) (auto simp: dlg_extension_def ext_wf_def list_all_iff)

lemma common_ok [check_ok]: "dlg_common c = Inr u \<longleftrightarrow> common_wf c"
  by (simp add: dlg_common_def common_wf_def check_ok)

lemma action_loop_ok:
  "dlg_action_loop ks d c as = Inr (d', c') \<longleftrightarrow>
     distinct (map da_key as) \<and> ks \<inter> da_key ` set as = {}
     \<and> (\<forall>a\<in>set as. key_wf (da_key a) \<and> within (da_label a) MAX_DIALOG_LABEL_BYTES
          \<and> \<not> (da_is_default a \<and> da_role a = RoleDestructive))
     \<and> d' = d + length (filter da_is_default as) \<and> c' = c + length (filter (\<lambda>a. da_role a = RoleCancel) as)"
  by (induction as arbitrary: ks d c) (auto simp: check_ok)

lemma actions_ok [check_ok]: "dlg_actions as = Inr u \<longleftrightarrow> actions_wf as"
  by (auto simp: dlg_actions_def actions_wf_def check_ok action_loop_ok)

lemma input_ok [check_ok]: "dlg_input i = Inr u \<longleftrightarrow> input_wf i"
  by (auto simp: dlg_input_def input_wf_def check_ok split: option.split)

lemma item_loop_ok:
  "dlg_item_loop ks is = Inr u \<longleftrightarrow> distinct (map di_key is) \<and> ks \<inter> di_key ` set is = {}
     \<and> (\<forall>i\<in>set is. key_wf (di_key i) \<and> within (di_label i) MAX_DIALOG_LABEL_BYTES
          \<and> str_len (di_description i) \<le> MAX_DIALOG_MESSAGE_BYTES)"
  by (induction "is" arbitrary: ks) (auto simp: check_ok)

lemma items_ok [check_ok]: "dlg_items is = Inr u \<longleftrightarrow> items_wf is"
  by (auto simp: dlg_items_def items_wf_def check_ok item_loop_ok)

lemma initial_key_ok [check_ok]: "dlg_initial_key is k = Inr u \<longleftrightarrow> selectable is k"
  by (auto simp: dlg_initial_key_def selectable_def split: option.split)

lemma result_choice_ok [check_ok]: "dlg_result_choice is k = Inr u \<longleftrightarrow> selectable is k"
  by (auto simp: dlg_result_choice_def selectable_def split: option.split)

lemma initial_loop_ok [check_ok]:
  "dlg_initial_loop is seen ks = Inr u \<longleftrightarrow> distinct ks \<and> seen \<inter> set ks = {} \<and> (\<forall>k\<in>set ks. selectable is k)"
  by (induction ks arbitrary: seen) (auto simp: check_ok)

lemma result_loop_ok [check_ok]:
  "dlg_result_loop is seen ks = Inr u \<longleftrightarrow> distinct ks \<and> seen \<inter> set ks = {} \<and> (\<forall>k\<in>set ks. selectable is k)"
  by (induction ks arbitrary: seen) (auto simp: check_ok)

lemma progress_ok [check_ok]: "dlg_progress p = Inr u \<longleftrightarrow> progress_wf p"
  by (cases p) auto

lemma slider_ok [check_ok]: "dlg_slider mn mx step v = Inr u \<longleftrightarrow> slider_wf mn mx step v"
proof -
  have "(v - mn) mod step = 0 \<longleftrightarrow> (\<exists>k\<ge>0. v = mn + k * step)" if "0 < step" "mn \<le> v"
  proof
    assume "(v - mn) mod step = 0"
    then have "v - mn = (v - mn) div step * step" by (simp add: mod_eq_0_iff_dvd)
    moreover have "0 \<le> (v - mn) div step" using that by (simp add: pos_imp_zdiv_nonneg_iff)
    ultimately show "\<exists>k\<ge>0. v = mn + k * step" by (metis add.commute diff_add_cancel)
  qed auto
  then show ?thesis by (auto simp: dlg_slider_def slider_wf_def)
qed

lemma extension_loop_ok [check_ok]:
  "dlg_extension_loop es xs = Inr u \<longleftrightarrow> distinct xs \<and> es \<inter> set xs = {} \<and> (\<forall>e\<in>set xs. ext_wf e)"
  by (induction xs arbitrary: es) (auto simp: check_ok)

lemma filter_loop_ok:
  "dlg_filter_loop all fs = Inr all' \<longleftrightarrow>
     (\<forall>f\<in>set fs. within (df_label f) MAX_DIALOG_LABEL_BYTES
        \<and> df_extensions f \<noteq> [] \<and> length (df_extensions f) \<le> MAX_DIALOG_EXTENSIONS_PER_FILTER
        \<and> distinct (df_extensions f) \<and> (\<forall>e\<in>set (df_extensions f). ext_wf e))
     \<and> all' = all \<union> (\<Union>f\<in>set fs. set (df_extensions f))"
  by (induction fs arbitrary: all) (auto simp: check_ok)

lemma filters_ok [check_ok]: "dlg_filters fs dflt = Inr u \<longleftrightarrow> filters_wf fs dflt"
  by (cases dflt) (auto simp: dlg_filters_def filters_wf_def check_ok filter_loop_ok)

lemma save_name_ok [check_ok]:
  "(case v of None \<Rightarrow> Inr () | Some n \<Rightarrow> dlg_save_name n) = Inr u \<longleftrightarrow> save_name_wf v"
  by (auto simp: dlg_save_name_def save_name_wf_def within_def check_ok split: option.split)

lemma details_ok [check_ok]: "dlg_details r = Inr u \<longleftrightarrow> details_wf r"
  by (cases r) (auto simp: check_ok split: option.split)

lemma dialog_validate_ok [check_ok]: "dialog_validate r = Inr u \<longleftrightarrow> dialog_wf r"
  by (auto simp: dialog_validate_def dialog_wf_def check_ok)

lemma completion_ok [check_ok]:
  "completion_validate c = Inr u \<longleftrightarrow> (\<forall>m. c = CompletionFailed m \<longrightarrow> within m MAX_DIALOG_MESSAGE_BYTES)"
  by (cases c) (auto simp: check_ok)

lemma path_loop_ok [check_ok]: "dlg_path_loop ps = Inr u \<longleftrightarrow> (\<forall>p\<in>set ps. within p MAX_DIALOG_PATH_BYTES)"
  by (induction ps) (auto simp: check_ok)

lemma value_checks_ok:
  "value_kind v r = Inr () \<and> value_content v r = Inr () \<longleftrightarrow> answers r v"
  by (cases v; cases r) (auto simp: value_kind_def answers_def check_ok list_ex_iff)

lemma validate_for_ok:
  "validate_for v r = Inr u \<longleftrightarrow> answers r v \<and> value_bytes v \<le> MAX_DIALOG_RESULT_BYTES"
  using value_checks_ok [of v r] by (auto simp: validate_for_def check_ok)

text \<open>The dialog checks decide the declarative contract.  A request is accepted exactly when its title,
  texts and collections are within their limits and its parts are consistent (distinct keys, at most one default
  and one cancel action and no destructive default, defaults that can be selected, a slider value on the
  grid, extensions that are declared, a save name that is a basename).  A result is accepted exactly
  when it answers a request of its own kind -- an offered action, enabled items without repetition,
  a text within the prompt's limits, the right number of paths, a value on the slider's grid -- and fits
  the result limit.\<close>

theorem dialog_contract_exact:
  "(is_ok (dialog_validate r) \<longleftrightarrow> dialog_wf r)
   \<and> (is_ok (validate_for v r) \<longleftrightarrow> answers r v \<and> value_bytes v \<le> MAX_DIALOG_RESULT_BYTES)
   \<and> (is_ok (open_validate q) \<longleftrightarrow> dialog_wf (or_dialog q)
        \<and> (case or_deadline_ms q of None \<Rightarrow> True | Some d \<Rightarrow> MIN_DIALOG_DEADLINE_MS \<le> d))"
  by (auto simp: is_ok_iff dialog_validate_ok validate_for_ok open_validate_def check_ok split: option.split)

end
