(* ===== verification/Interact_Dialog.thy ===== *)
theory Interact_Dialog
  imports Interact_Rate Interact_Schema Interact_DialogSchema
begin

text \<open>
  The dialog broker (\<^verbatim>\<open>cosmix-interaction-broker/src/dialog.rs\<close>): lifecycle, fair queueing, presenter leases,
  deadlines and retention.  Every public operation is a function from the broker to its result and
  the broker after it.  Where the code iterates over a \<^verbatim>\<open>HashMap\<close> in an order that can be observed, the
  operation takes that order as the argument \<open>ho\<close>, a function on the list of keys; every statement
  holds for every order.  The \<^verbatim>\<open>expect\<close> calls are the outcome \<open>DPanic\<close>, and the two loops whose bound is
  not syntactic carry fuel whose exhaustion is the outcome \<open>DHang\<close>; both are proved unreachable.
\<close>

section \<open>State\<close>

record queue_limits =
  ql_total :: nat
  ql_per_origin :: nat

record retention_policy =
  rp_active :: nat
  rp_terminal :: nat
  rp_terminal_ttl_ms :: nat

record presenter_lease =
  pl_service :: string
  pl_generation :: nat
  pl_epoch :: nat

record active_attempt =
  at_generation :: nat
  at_token :: nat

record progress_snapshot =
  ps_message :: "string option"
  ps_progress :: progress_value

record dialog_record =
  dr_handle :: interaction_handle
  dr_owner_service :: string
  dr_owner_token :: string
  dr_request :: dialog_open_request
  dr_state :: dialog_state
  dr_created_at_ms :: nat
  dr_expires_at_ms :: "nat option"
  dr_terminal_at_ms :: "nat option"
  dr_attempt :: "active_attempt option"
  dr_progress :: "progress_snapshot option"
  dr_cancel_requested :: bool
  dr_ever_presented :: bool
  dr_requeues :: nat
  dr_value :: "dialog_value option"

datatype transition_cause =
    COpen | CPresent | CMarkPresented | CResolve | CFail | CCancel | CProgressUpdate | CProgressComplete
  | CProgressCancel | CReplace | CRelease | CExpire | CEvict | CWithdraw | CQuarantine

record dialog_transition =
  tr_handle :: interaction_handle
  tr_from :: "dialog_state option"
  tr_to :: "dialog_state option"
  tr_cause :: transition_cause

record dialog_broker =
  db_rate :: rate_limiter
  db_limits :: queue_limits
  db_epoch :: nat
  db_records :: "(interaction_handle, dialog_record) bmap"
  db_queues :: "(string, interaction_handle list) bmap"
  db_turns :: "string list"
  db_presenter :: "presenter_lease option"
  db_next_generation :: nat
  db_next_token :: nat
  db_retention :: retention_policy
  db_terminal_order :: "interaction_handle list"
  db_expirations :: "interaction_handle list"
  db_evictions :: "interaction_handle list"
  db_transitions :: "dialog_transition list"
  db_transition_limit :: nat
  db_overflowed :: bool

datatype dialog_broker_error =
    DInvalid dialog_error
  | RateLimited
  | QueueFull nat
  | OriginQueueFull nat
  | DuplicateHandle
  | NotFound
  | WrongOwner
  | NoPresenter
  | StaleLease
  | StaleAttempt
  | CounterExhausted
  | AlreadyTerminal
  | DeadlineExpired
  | InvalidState dialog_state
  | OwnerCannotResolve
  | ProgressPresenterResolution
  | NotProgress
  | NotCancellable

datatype dialog_failure = DErr dialog_broker_error | DPanic | DHang

type_synonym 'a attempted = "(dialog_failure, 'a) result"

type_synonym hash_order = "string list \<Rightarrow> string list"

record dialog_presentation =
  pr_handle :: interaction_handle
  pr_attempt_token :: nat
  pr_request :: dialog_open_request
  pr_progress :: "progress_snapshot option"
  pr_cancel_requested :: bool

record dialog_open_response =
  op_handle :: interaction_handle
  op_owner_token :: string
  op_state :: dialog_state

record dialog_result_response =
  rs_handle :: interaction_handle
  rs_state :: dialog_state
  rs_value :: "dialog_value option"

record gc_outcome =
  gc_expired :: "interaction_handle list"
  gc_evicted :: "interaction_handle list"

definition MAX_DIALOG_PRE_DISPLAY_REQUEUES :: nat where
  "MAX_DIALOG_PRE_DISPLAY_REQUEUES = 3"

definition DIALOG_TRANSITION_MUTATION_HEADROOM :: nat where
  "DIALOG_TRANSITION_MUTATION_HEADROOM = 2"

definition saturating_mul :: "nat \<Rightarrow> nat \<Rightarrow> nat" where
  "saturating_mul a b = min (a * b) u64_max"

definition dialog_broker_new :: "rate_limiter \<Rightarrow> queue_limits \<Rightarrow> retention_policy \<Rightarrow> dialog_broker" where
  "dialog_broker_new rl limits retention =
     (let transition_limit =
        saturating_add
          (saturating_mul
             (saturating_add (saturating_add (ql_total limits) (rp_active retention)) (rp_terminal retention)) 2)
          DIALOG_TRANSITION_MUTATION_HEADROOM
      in \<lparr>db_rate = rl, db_limits = limits, db_epoch = 0, db_records = [], db_queues = [], db_turns = [],
          db_presenter = None, db_next_generation = 1, db_next_token = 1, db_retention = retention,
          db_terminal_order = [], db_expirations = [], db_evictions = [], db_transitions = [],
          db_transition_limit = transition_limit, db_overflowed = False\<rparr>)"

definition with_instance_epoch :: "dialog_broker \<Rightarrow> nat \<Rightarrow> dialog_broker" where
  "with_instance_epoch b e = b\<lparr>db_epoch := e\<rparr>"

abbreviation the_record :: "dialog_broker \<Rightarrow> interaction_handle \<Rightarrow> dialog_record option" where
  "the_record b h \<equiv> bm_get (db_records b) h"

abbreviation put_record :: "dialog_broker \<Rightarrow> interaction_handle \<Rightarrow> dialog_record \<Rightarrow> dialog_broker" where
  "put_record b h r \<equiv> b\<lparr>db_records := bm_insert h r (db_records b)\<rparr>"

text \<open>The records in the order the hash map yields them.\<close>

definition iter_records :: "hash_order \<Rightarrow> dialog_broker \<Rightarrow> dialog_record list" where
  "iter_records ho b =
     List.map_filter (\<lambda>s. the_record b (InteractionHandle s)) (ho (map (as_str \<circ> fst) (db_records b)))"

section \<open>Journal, queues, terminal records\<close>

definition record_transition ::
    "dialog_broker \<Rightarrow> interaction_handle \<Rightarrow> dialog_state option \<Rightarrow> dialog_state option \<Rightarrow> transition_cause \<Rightarrow> dialog_broker" where
  "record_transition b h old new cause =
     (if length (db_transitions b) < db_transition_limit b
      then b\<lparr>db_transitions := db_transitions b @ [\<lparr>tr_handle = h, tr_from = old, tr_to = new, tr_cause = cause\<rparr>]\<rparr>
      else b\<lparr>db_overflowed := True\<rparr>)"

definition drain_transitions :: "dialog_broker \<Rightarrow> (dialog_transition list \<times> bool) \<times> dialog_broker" where
  "drain_transitions b =
     ((db_transitions b, db_overflowed b), b\<lparr>db_transitions := [], db_overflowed := False\<rparr>)"

definition drain_pending_report :: "dialog_broker \<Rightarrow> gc_outcome \<times> dialog_broker" where
  "drain_pending_report b =
     (\<lparr>gc_expired = db_expirations b, gc_evicted = db_evictions b\<rparr>,
      b\<lparr>db_expirations := [], db_evictions := []\<rparr>)"

abbreviation drained :: "dialog_broker \<Rightarrow> dialog_broker" where
  "drained b \<equiv> snd (drain_pending_report b)"

definition queue_of :: "dialog_broker \<Rightarrow> string \<Rightarrow> interaction_handle list" where
  "queue_of b origin = (case bm_get (db_queues b) origin of None \<Rightarrow> [] | Some q \<Rightarrow> q)"

definition queued_len :: "dialog_broker \<Rightarrow> nat" where
  "queued_len b = sum_list (map (length \<circ> snd) (db_queues b))"

definition active_state :: "dialog_state \<Rightarrow> bool" where
  "active_state s \<longleftrightarrow> s \<in> {Presenting, Presented, CancelRequested}"

definition active_len :: "dialog_broker \<Rightarrow> nat" where
  "active_len b = length (filter (\<lambda>(_, r). active_state (dr_state r)) (db_records b))"

definition enqueue :: "dialog_broker \<Rightarrow> string \<Rightarrow> interaction_handle \<Rightarrow> dialog_broker" where
  "enqueue b origin h =
     (let q = queue_of b origin
      in b\<lparr>db_turns := (if q = [] then db_turns b @ [origin] else db_turns b),
           db_queues := bm_insert origin (q @ [h]) (db_queues b)\<rparr>)"

fun dequeue_loop :: "dialog_broker \<Rightarrow> string list \<Rightarrow> nat \<Rightarrow> interaction_handle option attempted \<times> dialog_broker" where
  "dequeue_loop b [] n = (Inr None, b\<lparr>db_turns := []\<rparr>)"
| "dequeue_loop b (origin # turns) 0 = (Inl DHang, b)"
| "dequeue_loop b (origin # turns) (Suc n) =
     (case bm_get (db_queues b) origin of
        None \<Rightarrow> (Inl DPanic, b)
      | Some q \<Rightarrow>
          let rest = tl q;
              turns' = (if rest \<noteq> [] then turns @ [origin] else turns);
              b' = b\<lparr>db_queues := (if rest \<noteq> [] then bm_insert origin rest (db_queues b)
                                   else bm_remove origin (db_queues b)),
                     db_turns := turns'\<rparr>
          in case q of
               [] \<Rightarrow> dequeue_loop b' turns' n
             | h # _ \<Rightarrow>
                 (case the_record b' h of
                    Some r \<Rightarrow> if dr_state r = DQueued then (Inr (Some h), b') else dequeue_loop b' turns' n
                  | None \<Rightarrow> dequeue_loop b' turns' n))"

definition dequeue_fair :: "dialog_broker \<Rightarrow> interaction_handle option attempted \<times> dialog_broker" where
  "dequeue_fair b = dequeue_loop b (db_turns b) (Suc (queued_len b + length (db_turns b)))"

definition remove_from_queue :: "dialog_broker \<Rightarrow> interaction_handle \<Rightarrow> dialog_broker" where
  "remove_from_queue b h = (case the_record b h of
     None \<Rightarrow> b
   | Some r \<Rightarrow>
       let origin = dr_owner_service r
       in case bm_get (db_queues b) origin of
            None \<Rightarrow> b
          | Some q \<Rightarrow>
              let q' = filter (\<lambda>c. c \<noteq> h) q
              in if q' = []
                 then b\<lparr>db_queues := bm_remove origin (db_queues b),
                        db_turns := filter (\<lambda>c. c \<noteq> origin) (db_turns b)\<rparr>
                 else b\<lparr>db_queues := bm_insert origin q' (db_queues b)\<rparr>)"

definition evict_counted :: "dialog_broker \<Rightarrow> interaction_handle \<Rightarrow> dialog_record \<Rightarrow> dialog_broker" where
  "evict_counted b h r =
     (let b1 = b\<lparr>db_records := bm_remove h (db_records b)\<rparr>;
          b2 = record_transition b1 h (Some (dr_state r)) None CEvict
      in b2\<lparr>db_evictions := db_evictions b2 @ [h]\<rparr>)"

fun trim_terminal_loop :: "dialog_broker \<Rightarrow> interaction_handle list \<Rightarrow> dialog_broker" where
  "trim_terminal_loop b [] = b\<lparr>db_terminal_order := []\<rparr>"
| "trim_terminal_loop b (h # hs) =
     (if length (h # hs) > rp_terminal (db_retention b)
      then case the_record b h of
             None \<Rightarrow> trim_terminal_loop b hs
           | Some r \<Rightarrow> trim_terminal_loop (evict_counted b h r) hs
      else b\<lparr>db_terminal_order := h # hs\<rparr>)"

definition trim_terminal_count :: "dialog_broker \<Rightarrow> dialog_broker" where
  "trim_terminal_count b = trim_terminal_loop b (db_terminal_order b)"

definition transition_terminal ::
    "dialog_broker \<Rightarrow> interaction_handle \<Rightarrow> dialog_state \<Rightarrow> dialog_value option \<Rightarrow> nat \<Rightarrow> transition_cause \<Rightarrow> dialog_broker" where
  "transition_terminal b h state v now cause = (case the_record b h of
     None \<Rightarrow> b
   | Some r \<Rightarrow>
       if dialog_terminal (dr_state r) then b
       else
         let b1 = remove_from_queue b h;
             b2 = put_record b1 h (r\<lparr>dr_state := state, dr_terminal_at_ms := Some now, dr_attempt := None, dr_value := v\<rparr>);
             b3 = b2\<lparr>db_terminal_order := db_terminal_order b2 @ [h],
                     db_expirations := (if state = DExpired then db_expirations b2 @ [h] else db_expirations b2)\<rparr>;
             b4 = record_transition b3 h (Some (dr_state r)) (Some state) cause
         in trim_terminal_count b4)"

definition evict_terminal_ttl :: "dialog_broker \<Rightarrow> nat \<Rightarrow> interaction_handle list \<times> dialog_broker" where
  "evict_terminal_ttl b now =
     (let evicted = filter (\<lambda>h. case the_record b h of
            None \<Rightarrow> True
          | Some r \<Rightarrow> (case dr_terminal_at_ms r of
               None \<Rightarrow> False
             | Some ended \<Rightarrow> now - ended \<ge> rp_terminal_ttl_ms (db_retention b))) (db_terminal_order b);
          b' = fold (\<lambda>h b. case the_record b h of
                 None \<Rightarrow> b
               | Some r \<Rightarrow> record_transition (b\<lparr>db_records := bm_remove h (db_records b)\<rparr>) h (Some (dr_state r)) None CEvict)
               evicted b
      in (evicted, b'\<lparr>db_terminal_order := filter (\<lambda>h. h \<notin> set evicted) (db_terminal_order b')\<rparr>))"

definition due :: "nat \<Rightarrow> dialog_record \<Rightarrow> bool" where
  "due now r \<longleftrightarrow> \<not> dialog_terminal (dr_state r)
     \<and> (case dr_expires_at_ms r of None \<Rightarrow> False | Some deadline \<Rightarrow> now \<ge> deadline)"

definition expire_due :: "hash_order \<Rightarrow> dialog_broker \<Rightarrow> nat \<Rightarrow> dialog_broker" where
  "expire_due ho b now =
     fold (\<lambda>h b. transition_terminal b h DExpired None now CExpire)
       (map dr_handle (filter (due now) (iter_records ho b))) b"

definition maintain :: "hash_order \<Rightarrow> dialog_broker \<Rightarrow> nat \<Rightarrow> dialog_broker" where
  "maintain ho b now =
     (let b1 = expire_due ho b now; (evicted, b2) = evict_terminal_ttl b1 now
      in b2\<lparr>db_evictions := db_evictions b2 @ evicted\<rparr>)"

definition expire_handle_if_due :: "dialog_broker \<Rightarrow> interaction_handle \<Rightarrow> nat \<Rightarrow> bool \<times> dialog_broker" where
  "expire_handle_if_due b h now =
     (let d = (case the_record b h of None \<Rightarrow> False | Some r \<Rightarrow> due now r)
      in (d, if d then transition_terminal b h DExpired None now CExpire else b))"

section \<open>Authority\<close>

definition check_lease :: "dialog_broker \<Rightarrow> presenter_lease \<Rightarrow> unit attempted" where
  "check_lease b candidate = (case db_presenter b of
     None \<Rightarrow> Inl (DErr NoPresenter)
   | Some current \<Rightarrow>
       if pl_epoch candidate \<noteq> db_epoch b \<or> current \<noteq> candidate then Inl (DErr StaleLease) else Inr ())"

definition check_owner :: "dialog_broker \<Rightarrow> string \<Rightarrow> string \<Rightarrow> interaction_handle \<Rightarrow> unit attempted" where
  "check_owner b srv token h = (case the_record b h of
     None \<Rightarrow> Inl (DErr NotFound)
   | Some r \<Rightarrow> if dr_owner_service r \<noteq> srv \<or> dr_owner_token r \<noteq> token then Inl (DErr WrongOwner) else Inr ())"

definition check_current_attempt :: "dialog_broker \<Rightarrow> interaction_handle \<Rightarrow> nat \<Rightarrow> nat \<Rightarrow> unit attempted" where
  "check_current_attempt b h generation token = (case the_record b h of
     None \<Rightarrow> Inl (DErr NotFound)
   | Some r \<Rightarrow>
       if (case dr_attempt r of None \<Rightarrow> False | Some a \<Rightarrow> at_generation a = generation \<and> at_token a = token)
       then Inr () else Inl (DErr StaleAttempt))"

definition mint_presenter_generation :: "dialog_broker \<Rightarrow> nat attempted \<times> dialog_broker" where
  "mint_presenter_generation b = (case checked_add (db_next_generation b) 1 of
     None \<Rightarrow> (Inl (DErr CounterExhausted), b)
   | Some n \<Rightarrow> (Inr (db_next_generation b), b\<lparr>db_next_generation := n\<rparr>))"

definition mint_attempt_token :: "dialog_broker \<Rightarrow> nat attempted \<times> dialog_broker" where
  "mint_attempt_token b = (case checked_add (db_next_token b) 1 of
     None \<Rightarrow> (Inl (DErr CounterExhausted), b)
   | Some n \<Rightarrow> (Inr (db_next_token b), b\<lparr>db_next_token := n\<rparr>))"


section \<open>Requeueing\<close>

definition str_cmp :: "string \<Rightarrow> string \<Rightarrow> ordering" where
  "str_cmp a b = (if a < b then Less else if a = b then Equal else Greater)"

definition created_cmp :: "nat \<times> interaction_handle \<Rightarrow> nat \<times> interaction_handle \<Rightarrow> ordering" where
  "created_cmp l r = ord_then (nat_cmp (fst l) (fst r)) (str_cmp (as_str (snd l)) (as_str (snd r)))"

fun dedup_handles :: "(nat \<times> interaction_handle) list \<Rightarrow> (nat \<times> interaction_handle) list" where
  "dedup_handles (l # r # xs) = (if snd l = snd r then dedup_handles (l # xs) else l # dedup_handles (r # xs))"
| "dedup_handles xs = xs"

fun min_record :: "dialog_record list \<Rightarrow> dialog_record option" where
  "min_record [] = None"
| "min_record (r # rs) = (case min_record rs of
     None \<Rightarrow> Some r
   | Some m \<Rightarrow>
       Some (if created_cmp (dr_created_at_ms m, dr_handle m) (dr_created_at_ms r, dr_handle r) = Less then m else r))"

definition oldest_queued :: "dialog_broker \<Rightarrow> string option \<Rightarrow> interaction_handle option" where
  "oldest_queued b origin =
     map_option dr_handle
       (min_record (filter (\<lambda>r. dr_state r = DQueued \<and> (case origin of None \<Rightarrow> True | Some v \<Rightarrow> dr_owner_service r = v))
          (map snd (db_records b))))"

text \<open>The handles to requeue: known and not terminal, by age, without repetition.\<close>

definition requeue_order :: "dialog_broker \<Rightarrow> interaction_handle list \<Rightarrow> interaction_handle list" where
  "requeue_order b hs =
     map snd (dedup_handles (sort_by created_cmp
       (List.map_filter (\<lambda>h. case the_record b h of
            None \<Rightarrow> None
          | Some r \<Rightarrow> if dialog_terminal (dr_state r) then None else Some (dr_created_at_ms r, h)) hs)))"

text \<open>The pre-display budget: the attempt is closed, a never-presented dialog is charged, and one that
  has used up its budget goes to the quarantine list.\<close>

fun charge_requeues ::
    "dialog_broker \<Rightarrow> interaction_handle list
       \<Rightarrow> (interaction_handle list \<times> interaction_handle list \<times> dialog_broker) attempted" where
  "charge_requeues b [] = Inr ([], [], b)"
| "charge_requeues b (h # hs) = (case the_record b h of
     None \<Rightarrow> Inl DPanic
   | Some r \<Rightarrow>
       if \<not> dr_ever_presented r \<and> dr_requeues r \<ge> MAX_DIALOG_PRE_DISPLAY_REQUEUES
       then and_then (charge_requeues (put_record b h (r\<lparr>dr_attempt := None\<rparr>)) hs)
              (\<lambda>(el, qu, b'). Inr (el, h # qu, b'))
       else and_then
              (charge_requeues
                 (put_record b h (r\<lparr>dr_attempt := None,
                                    dr_requeues := (if dr_ever_presented r then dr_requeues r else dr_requeues r + 1)\<rparr>)) hs)
              (\<lambda>(el, qu, b'). Inr (h # el, qu, b')))"

fun count_origins :: "dialog_broker \<Rightarrow> (string, nat) bmap \<Rightarrow> interaction_handle list \<Rightarrow> (string, nat) bmap attempted" where
  "count_origins b m [] = Inr m"
| "count_origins b m (h # hs) = (case the_record b h of
     None \<Rightarrow> Inl DPanic
   | Some r \<Rightarrow>
       let o' = dr_owner_service r
       in count_origins b (bm_insert o' ((case bm_get m o' of None \<Rightarrow> 0 | Some n \<Rightarrow> n) + 1) m) hs)"

fun fail_all_queued :: "nat \<Rightarrow> dialog_broker \<Rightarrow> nat \<Rightarrow> transition_cause \<Rightarrow> dialog_broker attempted" where
  "fail_all_queued 0 b now cause = (if oldest_queued b None = None then Inr b else Inl DHang)"
| "fail_all_queued (Suc n) b now cause = (case oldest_queued b None of
     None \<Rightarrow> Inr b
   | Some c \<Rightarrow> fail_all_queued n (transition_terminal b c DFailed None now cause) now cause)"

fun trim_origin :: "nat \<Rightarrow> dialog_broker \<Rightarrow> string \<Rightarrow> nat \<Rightarrow> nat \<Rightarrow> transition_cause \<Rightarrow> dialog_broker attempted" where
  "trim_origin n b origin protected now cause =
     (if saturating_add (length (queue_of b origin)) protected > ql_per_origin (db_limits b)
      then case n of
             0 \<Rightarrow> Inl DHang
           | Suc n' \<Rightarrow> (case oldest_queued b (Some origin) of
                None \<Rightarrow> Inl DPanic
              | Some c \<Rightarrow> trim_origin n' (transition_terminal b c DFailed None now cause) origin protected now cause)
      else Inr b)"

declare trim_origin.simps [simp del]

fun trim_origins :: "dialog_broker \<Rightarrow> (string, nat) bmap \<Rightarrow> string list \<Rightarrow> nat \<Rightarrow> transition_cause \<Rightarrow> dialog_broker attempted" where
  "trim_origins b m [] now cause = Inr b"
| "trim_origins b m (origin # os) now cause = (case bm_get m origin of
     None \<Rightarrow> trim_origins b m os now cause
   | Some protected \<Rightarrow>
       and_then (trim_origin (Suc (length (db_records b))) b origin protected now cause)
         (\<lambda>b'. trim_origins b' m os now cause))"

fun trim_total :: "nat \<Rightarrow> dialog_broker \<Rightarrow> nat \<Rightarrow> nat \<Rightarrow> transition_cause \<Rightarrow> dialog_broker attempted" where
  "trim_total n b protected now cause =
     (if saturating_add (queued_len b) protected > ql_total (db_limits b)
      then case n of
             0 \<Rightarrow> Inl DHang
           | Suc n' \<Rightarrow> (case oldest_queued b None of
                None \<Rightarrow> Inl DPanic
              | Some c \<Rightarrow> trim_total n' (transition_terminal b c DFailed None now cause) protected now cause)
      else Inr b)"

declare trim_total.simps [simp del]

fun readmit ::
    "dialog_broker \<Rightarrow> nat \<Rightarrow> (string, nat) bmap \<Rightarrow> interaction_handle list \<Rightarrow> nat \<Rightarrow> transition_cause \<Rightarrow> dialog_broker attempted" where
  "readmit b accepted per_origin [] now cause = Inr b"
| "readmit b accepted per_origin (h # hs) now cause = (case the_record b h of
     None \<Rightarrow> Inl DPanic
   | Some r \<Rightarrow>
       let origin = dr_owner_service r;
           n = (case bm_get per_origin origin of None \<Rightarrow> 0 | Some n \<Rightarrow> n)
       in if accepted < ql_total (db_limits b) \<and> n < ql_per_origin (db_limits b)
          then readmit
                 (record_transition (enqueue (put_record b h (r\<lparr>dr_state := DQueued\<rparr>)) origin h)
                    h (Some (dr_state r)) (Some DQueued) cause)
                 (accepted + 1) (bm_insert origin (n + 1) per_origin) hs now cause
          else readmit (transition_terminal b h DFailed None now cause)
                 accepted (bm_insert origin n per_origin) hs now cause)"

definition over_capacity :: "dialog_broker \<Rightarrow> nat \<Rightarrow> (string, nat) bmap \<Rightarrow> bool" where
  "over_capacity b n per_origin \<longleftrightarrow>
     n > ql_total (db_limits b) \<or> (\<exists>(_, c) \<in> set per_origin. c > ql_per_origin (db_limits b))"

definition make_queue_room ::
    "hash_order \<Rightarrow> dialog_broker \<Rightarrow> nat \<Rightarrow> (string, nat) bmap \<Rightarrow> nat \<Rightarrow> transition_cause \<Rightarrow> dialog_broker attempted" where
  "make_queue_room ho b n per_origin now cause =
     (if over_capacity b n per_origin
      then fail_all_queued (length (db_records b)) b now cause
      else and_then (trim_origins b per_origin (ho (map fst per_origin)) now cause) (\<lambda>b'.
           trim_total (Suc (length (db_records b'))) b' n now cause))"

definition requeue_protected ::
    "hash_order \<Rightarrow> dialog_broker \<Rightarrow> interaction_handle list \<Rightarrow> nat \<Rightarrow> transition_cause \<Rightarrow> dialog_broker attempted" where
  "requeue_protected ho b handles now cause =
     and_then (charge_requeues b (requeue_order b handles)) (\<lambda>(eligible, quarantined, b1).
     let b2 = fold (\<lambda>h b. transition_terminal b h DFailed None now CQuarantine) quarantined b1 in
     and_then (count_origins b2 [] eligible) (\<lambda>per_origin.
     and_then (make_queue_room ho b2 (length eligible) per_origin now cause) (\<lambda>b3.
     readmit b3 0 [] eligible now cause)))"

definition requeue_generation ::
    "hash_order \<Rightarrow> dialog_broker \<Rightarrow> nat \<Rightarrow> nat \<Rightarrow> transition_cause \<Rightarrow> dialog_broker attempted" where
  "requeue_generation ho b generation now cause =
     requeue_protected ho b
       (map dr_handle
          (filter (\<lambda>r. \<not> dialog_terminal (dr_state r)
               \<and> (case dr_attempt r of None \<Rightarrow> False | Some a \<Rightarrow> at_generation a = generation))
            (iter_records ho b)))
       now cause"

section \<open>Public operations\<close>

definition initial_progress :: "dialog_request \<Rightarrow> progress_snapshot option" where
  "initial_progress r = (case r of
     ProgressReq c p _ \<Rightarrow> Some \<lparr>ps_message = dc_message c, ps_progress = p\<rparr>
   | _ \<Rightarrow> None)"

definition fresh_record ::
    "string \<Rightarrow> string \<Rightarrow> dialog_open_request \<Rightarrow> nat \<Rightarrow> interaction_handle \<Rightarrow> dialog_record" where
  "fresh_record owner token req now h =
     \<lparr>dr_handle = h, dr_owner_service = owner, dr_owner_token = token, dr_request = req, dr_state = DQueued,
      dr_created_at_ms = now, dr_expires_at_ms = map_option (saturating_add now) (or_deadline_ms req),
      dr_terminal_at_ms = None, dr_attempt = None, dr_progress = initial_progress (or_dialog req),
      dr_cancel_requested = False, dr_ever_presented = False, dr_requeues = 0, dr_value = None\<rparr>"

definition dialog_open ::
    "hash_order \<Rightarrow> dialog_broker \<Rightarrow> string \<Rightarrow> string \<Rightarrow> dialog_open_request \<Rightarrow> nat \<Rightarrow> interaction_handle
       \<Rightarrow> dialog_open_response attempted \<times> dialog_broker" where
  "dialog_open ho b owner token req now h =
     (let b0 = drained b in
      case open_validate req of
        Inl e \<Rightarrow> (Inl (DErr (DInvalid e)), b0)
      | Inr _ \<Rightarrow>
          let b1 = maintain ho b0 now in
          if bm_contains (db_records b1) h then (Inl (DErr DuplicateHandle), b1)
          else if queued_len b1 \<ge> ql_total (db_limits b1)
          then (Inl (DErr (QueueFull (ql_total (db_limits b1)))), b1)
          else if length (queue_of b1 owner) \<ge> ql_per_origin (db_limits b1)
          then (Inl (DErr (OriginQueueFull (ql_per_origin (db_limits b1)))), b1)
          else
            let (ok, rl) = try_consume (db_rate b1) owner now; b2 = b1\<lparr>db_rate := rl\<rparr>
            in if \<not> ok then (Inl (DErr RateLimited), b2)
               else
                 let b3 = put_record b2 h (fresh_record owner token req now h);
                     b4 = enqueue b3 owner h;
                     b5 = record_transition b4 h None (Some DQueued) COpen
                 in (Inr \<lparr>op_handle = h, op_owner_token = token, op_state = DQueued\<rparr>, b5))"

text \<open>An operation that fails half way leaves the broker as it was at that point; a panic or a hang
  leaves it at the last state named.\<close>

definition finish :: "dialog_broker \<Rightarrow> dialog_broker attempted \<Rightarrow> 'a attempted \<Rightarrow> 'a attempted \<times> dialog_broker" where
  "finish b r v = (case r of Inl e \<Rightarrow> (Inl e, b) | Inr b' \<Rightarrow> (v, b'))"

definition register_presenter ::
    "hash_order \<Rightarrow> dialog_broker \<Rightarrow> string \<Rightarrow> nat \<Rightarrow> presenter_lease attempted \<times> dialog_broker" where
  "register_presenter ho b srv now =
     (let b1 = maintain ho (drained b) now in
      case mint_presenter_generation b1 of
        (Inl e, b2) \<Rightarrow> (Inl e, b2)
      | (Inr generation, b2) \<Rightarrow>
          let lease = \<lparr>pl_service = srv, pl_generation = generation, pl_epoch = db_epoch b2\<rparr>;
              requeued = (case db_presenter b2 of
                 None \<Rightarrow> Inr b2
               | Some old \<Rightarrow> requeue_generation ho b2 (pl_generation old) now CReplace)
          in finish b2 (map_sum id (\<lambda>b. b\<lparr>db_presenter := Some lease\<rparr>) requeued) (Inr lease))"

definition release_presenter ::
    "hash_order \<Rightarrow> dialog_broker \<Rightarrow> presenter_lease \<Rightarrow> nat \<Rightarrow> unit attempted \<times> dialog_broker" where
  "release_presenter ho b lease now =
     (let b0 = drained b in
      case check_lease b0 lease of
        Inl e \<Rightarrow> (Inl e, b0)
      | Inr _ \<Rightarrow>
          let b1 = maintain ho b0 now
          in finish b1
               (map_sum id (\<lambda>b. b\<lparr>db_presenter := None\<rparr>) (requeue_generation ho b1 (pl_generation lease) now CRelease))
               (Inr ()))"

definition next_presentation ::
    "hash_order \<Rightarrow> dialog_broker \<Rightarrow> presenter_lease \<Rightarrow> nat \<Rightarrow> dialog_presentation option attempted \<times> dialog_broker" where
  "next_presentation ho b lease now =
     (let b0 = drained b in
      case check_lease b0 lease of
        Inl e \<Rightarrow> (Inl e, b0)
      | Inr _ \<Rightarrow>
          let b1 = maintain ho b0 now in
          if active_len b1 \<ge> rp_active (db_retention b1) then (Inr None, b1)
          else (case dequeue_fair b1 of
             (Inl e, b2) \<Rightarrow> (Inl e, b2)
           | (Inr None, b2) \<Rightarrow> (Inr None, b2)
           | (Inr (Some h), b2) \<Rightarrow>
               (case mint_attempt_token b2 of
                  (Inl e, b3) \<Rightarrow> (Inl e, b3)
                | (Inr token, b3) \<Rightarrow>
                    (case the_record b3 h of
                       None \<Rightarrow> (Inl DPanic, b3)
                     | Some r \<Rightarrow>
                         let b4 = put_record b3 h (r\<lparr>dr_state := Presenting,
                                    dr_attempt := Some \<lparr>at_generation = pl_generation lease, at_token = token\<rparr>\<rparr>)
                         in (Inr (Some \<lparr>pr_handle = h, pr_attempt_token = token, pr_request = dr_request r,
                               pr_progress = dr_progress r, pr_cancel_requested = dr_cancel_requested r\<rparr>),
                             record_transition b4 h (Some DQueued) (Some Presenting) CPresent)))))"

text \<open>The prologue the presenter's operations share: current lease, current attempt, deadline not passed.\<close>

definition presenter_guard ::
    "dialog_broker \<Rightarrow> presenter_lease \<Rightarrow> interaction_handle \<Rightarrow> nat \<Rightarrow> nat \<Rightarrow> unit attempted \<times> dialog_broker" where
  "presenter_guard b lease h token now =
     (let b0 = drained b in
      case and_then (check_lease b0 lease) (\<lambda>_. check_current_attempt b0 h (pl_generation lease) token) of
        Inl e \<Rightarrow> (Inl e, b0)
      | Inr _ \<Rightarrow>
          (case expire_handle_if_due b0 h now of
             (True, b1) \<Rightarrow> (Inl (DErr DeadlineExpired), b1)
           | (False, b1) \<Rightarrow> (Inr (), b1)))"

definition owner_guard ::
    "dialog_broker \<Rightarrow> string \<Rightarrow> string \<Rightarrow> interaction_handle \<Rightarrow> nat \<Rightarrow> unit attempted \<times> dialog_broker" where
  "owner_guard b owner token h now =
     (let b0 = drained b in
      case check_owner b0 owner token h of
        Inl e \<Rightarrow> (Inl e, b0)
      | Inr _ \<Rightarrow>
          (case expire_handle_if_due b0 h now of
             (True, b1) \<Rightarrow> (Inl (DErr DeadlineExpired), b1)
           | (False, b1) \<Rightarrow> (Inr (), b1)))"

text \<open>Run the rest of an operation on the guarded record; a missing record is the code's panic.\<close>

definition guarded ::
    "unit attempted \<times> dialog_broker \<Rightarrow> interaction_handle \<Rightarrow> (dialog_broker \<Rightarrow> dialog_record \<Rightarrow> 'a attempted \<times> dialog_broker)
       \<Rightarrow> 'a attempted \<times> dialog_broker" where
  "guarded g h body = (case g of
     (Inl e, b) \<Rightarrow> (Inl e, b)
   | (Inr _, b) \<Rightarrow> (case the_record b h of None \<Rightarrow> (Inl DPanic, b) | Some r \<Rightarrow> body b r))"

definition wrong_state :: "dialog_record \<Rightarrow> dialog_failure" where
  "wrong_state r = DErr (if dialog_terminal (dr_state r) then AlreadyTerminal else InvalidState (dr_state r))"

definition mark_presented ::
    "dialog_broker \<Rightarrow> presenter_lease \<Rightarrow> interaction_handle \<Rightarrow> nat \<Rightarrow> nat \<Rightarrow> unit attempted \<times> dialog_broker" where
  "mark_presented b lease h token now =
     guarded (presenter_guard b lease h token now) h (\<lambda>b r.
       if dr_state r \<noteq> Presenting then (Inl (wrong_state r), b)
       else
         let new = (if dr_cancel_requested r then CancelRequested else Presented)
         in (Inr (), record_transition (put_record b h (r\<lparr>dr_state := new, dr_ever_presented := True\<rparr>))
                h (Some Presenting) (Some new) CMarkPresented))"

definition resolve_rejection :: "presenter_lease \<Rightarrow> dialog_value \<Rightarrow> dialog_record \<Rightarrow> dialog_broker_error option" where
  "resolve_rejection lease v r =
     (if dr_owner_service r = pl_service lease then Some OwnerCannotResolve
      else if dialog_terminal (dr_state r) then Some AlreadyTerminal
      else if dr_state r \<notin> {Presented, CancelRequested} then Some (InvalidState (dr_state r))
      else case or_dialog (dr_request r) of
        ProgressReq _ _ _ \<Rightarrow> Some ProgressPresenterResolution
      | d \<Rightarrow> (case validate_for v d of Inl e \<Rightarrow> Some (DInvalid e) | Inr _ \<Rightarrow> None))"

definition resolve ::
    "hash_order \<Rightarrow> dialog_broker \<Rightarrow> presenter_lease \<Rightarrow> interaction_handle \<Rightarrow> nat \<Rightarrow> dialog_value \<Rightarrow> nat
       \<Rightarrow> unit attempted \<times> dialog_broker" where
  "resolve ho b lease h token v now =
     guarded (presenter_guard b lease h token now) h (\<lambda>b r.
       let b1 = put_record b h (r\<lparr>dr_attempt := None\<rparr>)
       in case resolve_rejection lease v r of
            Some e \<Rightarrow> finish b1 (requeue_protected ho b1 [h] now CResolve) (Inl (DErr e))
          | None \<Rightarrow> (Inr (), transition_terminal b1 h Resolved (Some v) now CResolve))"

definition resolve_as_owner :: "dialog_broker \<Rightarrow> string \<Rightarrow> string \<Rightarrow> interaction_handle \<Rightarrow> unit attempted" where
  "resolve_as_owner b owner token h =
     and_then (check_owner b owner token h) (\<lambda>_. Inl (DErr OwnerCannotResolve))"

definition fail_presentation ::
    "dialog_broker \<Rightarrow> presenter_lease \<Rightarrow> interaction_handle \<Rightarrow> nat \<Rightarrow> nat \<Rightarrow> unit attempted \<times> dialog_broker" where
  "fail_presentation b lease h token now =
     guarded (presenter_guard b lease h token now) h (\<lambda>b r.
       let b1 = put_record b h (r\<lparr>dr_attempt := None\<rparr>)
       in if dialog_terminal (dr_state r) then (Inl (DErr AlreadyTerminal), b1)
          else (Inr (), transition_terminal b1 h DFailed None now CFail))"

definition dialog_cancel ::
    "dialog_broker \<Rightarrow> string \<Rightarrow> string \<Rightarrow> interaction_handle \<Rightarrow> nat \<Rightarrow> unit attempted \<times> dialog_broker" where
  "dialog_cancel b owner token h now =
     guarded (owner_guard b owner token h now) h (\<lambda>b r.
       if dialog_terminal (dr_state r) then (Inl (DErr AlreadyTerminal), b)
       else (Inr (), transition_terminal b h Cancelled None now CCancel))"

definition request_progress_cancel ::
    "dialog_broker \<Rightarrow> presenter_lease \<Rightarrow> interaction_handle \<Rightarrow> nat \<Rightarrow> nat \<Rightarrow> unit attempted \<times> dialog_broker" where
  "request_progress_cancel b lease h token now =
     guarded (presenter_guard b lease h token now) h (\<lambda>b r.
       case or_dialog (dr_request r) of
         ProgressReq _ _ cancellable \<Rightarrow>
           if \<not> cancellable then (Inl (DErr NotCancellable), b)
           else if dr_state r = CancelRequested then (Inr (), b)
           else if dr_state r \<noteq> Presented then (Inl (wrong_state r), b)
           else (Inr (), record_transition
                   (put_record b h (r\<lparr>dr_state := CancelRequested, dr_cancel_requested := True\<rparr>))
                   h (Some Presented) (Some CancelRequested) CProgressCancel)
       | _ \<Rightarrow> (Inl (DErr NotProgress), b))"

definition patched :: "progress_patch \<Rightarrow> progress_snapshot \<Rightarrow> progress_snapshot" where
  "patched p s =
     \<lparr>ps_message = (case pp_message p of None \<Rightarrow> ps_message s | Some m \<Rightarrow> Some m),
      ps_progress = (case pp_progress p of None \<Rightarrow> ps_progress s | Some v \<Rightarrow> v)\<rparr>"

definition update_progress ::
    "dialog_broker \<Rightarrow> string \<Rightarrow> string \<Rightarrow> interaction_handle \<Rightarrow> progress_patch \<Rightarrow> nat \<Rightarrow> unit attempted \<times> dialog_broker" where
  "update_progress b owner token h patch now =
     (case owner_guard b owner token h now of
        (Inl e, b) \<Rightarrow> (Inl e, b)
      | (Inr _, b) \<Rightarrow>
          (case patch_validate patch of
             Inl e \<Rightarrow> (Inl (DErr (DInvalid e)), b)
           | Inr _ \<Rightarrow>
               guarded (Inr (), b) h (\<lambda>b r.
                 if dialog_terminal (dr_state r) then (Inl (DErr AlreadyTerminal), b)
                 else case dr_progress r of
                   None \<Rightarrow> (Inl (DErr NotProgress), b)
                 | Some s \<Rightarrow>
                     if (case pp_message patch of None \<Rightarrow> True | Some m \<Rightarrow> ps_message s = Some m)
                        \<and> (case pp_progress patch of None \<Rightarrow> True | Some v \<Rightarrow> ps_progress s = v)
                     then (Inr (), b)
                     else (Inr (), record_transition (put_record b h (r\<lparr>dr_progress := Some (patched patch s)\<rparr>))
                             h (Some (dr_state r)) (Some (dr_state r)) CProgressUpdate))))"

definition complete_progress ::
    "dialog_broker \<Rightarrow> string \<Rightarrow> string \<Rightarrow> interaction_handle \<Rightarrow> progress_completion \<Rightarrow> nat \<Rightarrow> unit attempted \<times> dialog_broker" where
  "complete_progress b owner token h completion now =
     (case owner_guard b owner token h now of
        (Inl e, b) \<Rightarrow> (Inl e, b)
      | (Inr _, b) \<Rightarrow>
          (case completion_validate completion of
             Inl e \<Rightarrow> (Inl (DErr (DInvalid e)), b)
           | Inr _ \<Rightarrow>
               guarded (Inr (), b) h (\<lambda>b r.
                 if dialog_terminal (dr_state r) then (Inl (DErr AlreadyTerminal), b)
                 else if dr_progress r = None then (Inl (DErr NotProgress), b)
                 else (Inr (), transition_terminal b h Resolved (Some (ProgressVal completion)) now CProgressComplete))))"

definition dialog_result ::
    "dialog_broker \<Rightarrow> string \<Rightarrow> string \<Rightarrow> interaction_handle \<Rightarrow> dialog_result_response attempted" where
  "dialog_result b owner token h =
     and_then (check_owner b owner token h) (\<lambda>_. case the_record b h of
        None \<Rightarrow> Inl DPanic
      | Some r \<Rightarrow> Inr \<lparr>rs_handle = h, rs_state = dr_state r, rs_value = dr_value r\<rparr>)"

definition min_opt :: "nat list \<Rightarrow> nat option" where
  "min_opt xs = (if xs = [] then None else Some (Min (set xs)))"

definition next_maintenance_at_ms :: "dialog_broker \<Rightarrow> nat option" where
  "next_maintenance_at_ms b =
     (let rs = map snd (db_records b);
          next_expiry = min_opt (List.map_filter dr_expires_at_ms (filter (\<lambda>r. \<not> dialog_terminal (dr_state r)) rs));
          next_eviction = min_opt (List.map_filter
            (\<lambda>r. case dr_terminal_at_ms r of None \<Rightarrow> None | Some ended \<Rightarrow> checked_add ended (rp_terminal_ttl_ms (db_retention b)))
            (filter (\<lambda>r. dialog_terminal (dr_state r)) rs))
      in case next_expiry of
           None \<Rightarrow> next_eviction
         | Some expiry \<Rightarrow> (case next_eviction of None \<Rightarrow> Some expiry | Some eviction \<Rightarrow> Some (min expiry eviction)))"

definition withdraw_owner ::
    "hash_order \<Rightarrow> dialog_broker \<Rightarrow> string \<Rightarrow> nat \<Rightarrow> interaction_handle list \<times> dialog_broker" where
  "withdraw_owner ho b owner now =
     (let b1 = maintain ho (drained b) now;
          handles = sort_by (\<lambda>l r. str_cmp (as_str l) (as_str r))
            (map dr_handle (filter (\<lambda>r. dr_owner_service r = owner \<and> \<not> dialog_terminal (dr_state r)) (iter_records ho b1)))
      in (handles, fold (\<lambda>h b. transition_terminal b h DFailed None now CWithdraw) handles b1))"

definition dialog_expire :: "hash_order \<Rightarrow> dialog_broker \<Rightarrow> nat \<Rightarrow> interaction_handle list \<times> dialog_broker" where
  "dialog_expire ho b now =
     (let b1 = expire_due ho (drained b) now in (db_expirations b1, b1\<lparr>db_expirations := []\<rparr>))"

definition dialog_gc :: "hash_order \<Rightarrow> dialog_broker \<Rightarrow> nat \<Rightarrow> gc_outcome \<times> dialog_broker" where
  "dialog_gc ho b now = drain_pending_report (maintain ho b now)"

section \<open>Defaults and read-only views\<close>

definition DEFAULT_DIALOG_QUEUE_LIMIT :: nat where
  "DEFAULT_DIALOG_QUEUE_LIMIT = 64"

definition DEFAULT_DIALOG_ORIGIN_QUEUE_LIMIT :: nat where
  "DEFAULT_DIALOG_ORIGIN_QUEUE_LIMIT = 8"

definition DEFAULT_DIALOG_ACTIVE_LIMIT :: nat where
  "DEFAULT_DIALOG_ACTIVE_LIMIT = 1"

definition DEFAULT_DIALOG_TERMINAL_LIMIT :: nat where
  "DEFAULT_DIALOG_TERMINAL_LIMIT = 256"

definition DEFAULT_DIALOG_TERMINAL_TTL_MS :: nat where
  "DEFAULT_DIALOG_TERMINAL_TTL_MS = 15 * 60 * 1000"

definition default_queue_limits :: queue_limits where
  "default_queue_limits =
     \<lparr>ql_total = DEFAULT_DIALOG_QUEUE_LIMIT, ql_per_origin = DEFAULT_DIALOG_ORIGIN_QUEUE_LIMIT\<rparr>"

definition default_retention :: retention_policy where
  "default_retention =
     \<lparr>rp_active = DEFAULT_DIALOG_ACTIVE_LIMIT, rp_terminal = DEFAULT_DIALOG_TERMINAL_LIMIT,
      rp_terminal_ttl_ms = DEFAULT_DIALOG_TERMINAL_TTL_MS\<rparr>"

definition dialog_broker_of :: "rate_limiter \<Rightarrow> queue_limits \<Rightarrow> dialog_broker" where
  "dialog_broker_of rl limits = dialog_broker_new rl limits default_retention"

definition dialog_broker_default :: dialog_broker where
  "dialog_broker_default = dialog_broker_of (limiter_new default_rate) default_queue_limits"

record dialog_snapshot =
  sn_handle :: interaction_handle
  sn_owner_service :: string
  sn_request :: dialog_open_request
  sn_state :: dialog_state
  sn_created_at_ms :: nat
  sn_expires_at_ms :: "nat option"
  sn_terminal_at_ms :: "nat option"
  sn_progress :: "progress_snapshot option"
  sn_cancel_requested :: bool
  sn_value :: "dialog_value option"

definition snapshot_from_record :: "dialog_record \<Rightarrow> dialog_snapshot" where
  "snapshot_from_record r =
     \<lparr>sn_handle = dr_handle r, sn_owner_service = dr_owner_service r, sn_request = dr_request r, sn_state = dr_state r,
      sn_created_at_ms = dr_created_at_ms r, sn_expires_at_ms = dr_expires_at_ms r,
      sn_terminal_at_ms = dr_terminal_at_ms r, sn_progress = dr_progress r,
      sn_cancel_requested = dr_cancel_requested r, sn_value = dr_value r\<rparr>"

definition dialog_snapshot_of :: "dialog_broker \<Rightarrow> interaction_handle \<Rightarrow> dialog_snapshot option" where
  "dialog_snapshot_of b h = map_option snapshot_from_record (the_record b h)"

definition terminal_len :: "dialog_broker \<Rightarrow> nat" where
  "terminal_len b = length (db_terminal_order b)"

end
