(* ===== verification/Interact_DialogInv.thy ===== *)
theory Interact_DialogInv
  imports Interact_Dialog
begin

text \<open>
  The invariant of the dialog broker and its preservation by the internal steps: terminal transitions,
  eviction, queueing and requeueing.  The set \<open>L\<close> holds the handles whose attempt has been closed while
  their requeueing is still under way.
\<close>

section \<open>The invariant\<close>

definition is_progress :: "dialog_request \<Rightarrow> bool" where
  "is_progress d \<longleftrightarrow> (case d of ProgressReq _ _ _ \<Rightarrow> True | _ \<Rightarrow> False)"

text \<open>What is true of every single record.\<close>

definition record_ok :: "dialog_broker \<Rightarrow> interaction_handle set \<Rightarrow> interaction_handle \<Rightarrow> dialog_record \<Rightarrow> bool" where
  "record_ok b L h r \<longleftrightarrow> dr_handle r = h
     \<and> (dr_attempt r \<noteq> None \<longleftrightarrow> active_state (dr_state r) \<and> h \<notin> L)
     \<and> (dr_terminal_at_ms r \<noteq> None \<longleftrightarrow> dialog_terminal (dr_state r))
     \<and> (case dr_value r of
          None \<Rightarrow> dr_state r \<noteq> Resolved
        | Some v \<Rightarrow> dr_state r = Resolved \<and> answers (or_dialog (dr_request r)) v)
     \<and> (dr_progress r \<noteq> None \<longleftrightarrow> is_progress (or_dialog (dr_request r)))
     \<and> (\<forall>a. dr_attempt r = Some a \<longrightarrow> at_token a < db_next_token b
          \<and> (\<exists>l. db_presenter b = Some l \<and> at_generation a = pl_generation l))
     \<and> dr_requeues r \<le> MAX_DIALOG_PRE_DISPLAY_REQUEUES
     \<and> dialog_wf (or_dialog (dr_request r))"

definition records_ok :: "interaction_handle set \<Rightarrow> dialog_broker \<Rightarrow> bool" where
  "records_ok L b \<longleftrightarrow> bm_inv (db_records b) \<and> (\<forall>h r. the_record b h = Some r \<longrightarrow> record_ok b L h r)"

definition in_state :: "dialog_broker \<Rightarrow> interaction_handle \<Rightarrow> dialog_state \<Rightarrow> bool" where
  "in_state b h s \<longleftrightarrow> (\<exists>r. the_record b h = Some r \<and> dr_state r = s)"

definition terminal_in :: "dialog_broker \<Rightarrow> interaction_handle \<Rightarrow> bool" where
  "terminal_in b h \<longleftrightarrow> (\<exists>r. the_record b h = Some r \<and> dialog_terminal (dr_state r))"

text \<open>The shape of the queues: no empty queue is kept, the turns are the origins with a queue.\<close>

definition queue_shape :: "dialog_broker \<Rightarrow> bool" where
  "queue_shape b \<longleftrightarrow> bm_inv (db_queues b) \<and> (\<forall>(o', q) \<in> set (db_queues b). q \<noteq> [])
     \<and> distinct (db_turns b) \<and> (\<forall>o'. o' \<in> set (db_turns b) \<longleftrightarrow> queue_of b o' \<noteq> [])
     \<and> (\<forall>o'. distinct (queue_of b o'))"

text \<open>What is queued is a queued record of that origin; as long as attempt tokens last, the converse holds.\<close>

definition queue_content :: "dialog_broker \<Rightarrow> bool" where
  "queue_content b \<longleftrightarrow>
     (\<forall>o' h. h \<in> set (queue_of b o') \<longrightarrow>
        (\<exists>r. the_record b h = Some r \<and> dr_state r = DQueued \<and> dr_owner_service r = o'))
     \<and> (db_next_token b < u64_max \<longrightarrow>
        (\<forall>h r. the_record b h = Some r \<longrightarrow> dr_state r = DQueued \<longrightarrow> h \<in> set (queue_of b (dr_owner_service r))))"

definition terminals_ok :: "dialog_broker \<Rightarrow> bool" where
  "terminals_ok b \<longleftrightarrow> distinct (db_terminal_order b) \<and> (\<forall>h. h \<in> set (db_terminal_order b) \<longleftrightarrow> terminal_in b h)
     \<and> length (db_terminal_order b) \<le> rp_terminal (db_retention b)"

definition control_ok :: "dialog_broker \<Rightarrow> bool" where
  "control_ok b \<longleftrightarrow> limiter_inv (db_rate b)
     \<and> length (db_transitions b) \<le> db_transition_limit b
     \<and> db_next_generation b \<le> u64_max \<and> db_next_token b \<le> u64_max
     \<and> ql_total (db_limits b) < u64_max \<and> ql_per_origin (db_limits b) < u64_max
     \<and> (\<forall>l. db_presenter b = Some l \<longrightarrow> pl_generation l < db_next_generation b \<and> pl_epoch l = db_epoch b)"

definition dialog_core :: "interaction_handle set \<Rightarrow> dialog_broker \<Rightarrow> bool" where
  "dialog_core L b \<longleftrightarrow> records_ok L b \<and> queue_shape b \<and> queue_content b \<and> terminals_ok b \<and> control_ok b"

definition queue_bounded :: "dialog_broker \<Rightarrow> bool" where
  "queue_bounded b \<longleftrightarrow> queued_len b \<le> ql_total (db_limits b)
     \<and> (\<forall>o'. length (queue_of b o') \<le> ql_per_origin (db_limits b))"

definition dialog_inv :: "dialog_broker \<Rightarrow> bool" where
  "dialog_inv b \<longleftrightarrow> dialog_core {} b \<and> queue_bounded b \<and> active_len b \<le> rp_active (db_retention b)"

text \<open>The fields no internal step changes.\<close>

definition frame :: "dialog_broker \<Rightarrow> rate_limiter \<times> queue_limits \<times> nat \<times> presenter_lease option \<times> nat \<times> nat
    \<times> retention_policy \<times> nat" where
  "frame b = (db_rate b, db_limits b, db_epoch b, db_presenter b, db_next_generation b, db_next_token b,
     db_retention b, db_transition_limit b)"

lemma frame_eqD:
  assumes "frame b' = frame b"
  shows "db_rate b' = db_rate b" "db_limits b' = db_limits b" "db_epoch b' = db_epoch b"
    "db_presenter b' = db_presenter b" "db_next_generation b' = db_next_generation b"
    "db_next_token b' = db_next_token b" "db_retention b' = db_retention b"
    "db_transition_limit b' = db_transition_limit b"
  using assms by (simp_all add: frame_def)

section \<open>Maps and queues\<close>

lemma queue_of_insert: "queue_of (b\<lparr>db_queues := bm_insert o' q (db_queues b)\<rparr>) = (queue_of b)(o' := q)"
  by (auto simp: queue_of_def bm_get_insert fun_eq_iff)

lemma queue_of_remove: "queue_of (b\<lparr>db_queues := bm_remove o' (db_queues b)\<rparr>) = (queue_of b)(o' := [])"
  by (auto simp: queue_of_def bm_get_remove fun_eq_iff)

lemma queue_of_cong: "db_queues b' = db_queues b \<Longrightarrow> queue_of b' = queue_of b"
  by (simp add: queue_of_def fun_eq_iff)

lemma get_queue:
  assumes "queue_shape b"
  shows "bm_get (db_queues b) o' = (if queue_of b o' = [] then None else Some (queue_of b o'))"
proof (cases "bm_get (db_queues b) o'")
  case None
  then show ?thesis by (simp add: queue_of_def)
next
  case (Some q)
  then have "q \<noteq> []" using assms bm_get_in [OF Some] by (auto simp: queue_shape_def)
  then show ?thesis using Some by (simp add: queue_of_def)
qed

lemma queued_len_sum: "queued_len b = bm_sum (\<lambda>_. length) (db_queues b)"
  unfolding queued_len_def bm_sum_def by (rule arg_cong [where f = sum_list]) auto

lemma queue_share: "bm_share (\<lambda>_. length) (db_queues b) o' = length (queue_of b o')"
  by (simp add: bm_share_def queue_of_def split: option.split)

lemma queued_len_insert:
  "bm_inv (db_queues b) \<Longrightarrow>
     queued_len (b\<lparr>db_queues := bm_insert o' q (db_queues b)\<rparr>) + length (queue_of b o') = queued_len b + length q"
  using bm_sum_insert [of "db_queues b" "\<lambda>_. length" o' q] by (simp add: queued_len_sum queue_share)

lemma queued_len_remove:
  "bm_inv (db_queues b) \<Longrightarrow>
     queued_len (b\<lparr>db_queues := bm_remove o' (db_queues b)\<rparr>) + length (queue_of b o') = queued_len b"
  using bm_sum_remove [of "db_queues b" "\<lambda>_. length" o'] by (simp add: queued_len_sum queue_share)

lemma queued_len_cong: "db_queues b' = db_queues b \<Longrightarrow> queued_len b' = queued_len b"
  by (simp add: queued_len_def)

lemma active_len_sum: "active_len b = bm_sum (\<lambda>_ r. if active_state (dr_state r) then 1 else 0) (db_records b)"
  unfolding active_len_def by (rule length_filter_bm_sum)

lemma terminal_not_active: "dialog_terminal s \<Longrightarrow> \<not> active_state s"
  by (auto simp: dialog_terminal_def active_state_def)

lemma state_cases:
  "dialog_terminal s \<or> active_state s \<or> s = DQueued"
  by (cases s) (simp_all add: dialog_terminal_def active_state_def)

lemma queued_simps [simp]: "\<not> dialog_terminal DQueued" "\<not> active_state DQueued"
  by (simp_all add: dialog_terminal_def active_state_def)

lemma state_simps [simp]:
  "dialog_terminal Resolved" "dialog_terminal Cancelled" "dialog_terminal DExpired" "dialog_terminal DFailed"
  "active_state Presenting" "active_state Presented" "active_state CancelRequested"
  "\<not> dialog_terminal Presenting" "\<not> dialog_terminal Presented" "\<not> dialog_terminal CancelRequested"
  by (simp_all add: dialog_terminal_def active_state_def)

lemma in_map_filter: "x \<in> set (List.map_filter f xs) \<longleftrightarrow> (\<exists>y\<in>set xs. f y = Some x)"
  by (induction xs) (auto simp: map_filter_simps split: option.split)

section \<open>The journal touches nothing else\<close>

lemma record_transition_fields [simp]:
  "db_records (record_transition b h old new c) = db_records b"
  "db_queues (record_transition b h old new c) = db_queues b"
  "db_turns (record_transition b h old new c) = db_turns b"
  "db_terminal_order (record_transition b h old new c) = db_terminal_order b"
  "db_expirations (record_transition b h old new c) = db_expirations b"
  "db_evictions (record_transition b h old new c) = db_evictions b"
  "db_rate (record_transition b h old new c) = db_rate b"
  "db_limits (record_transition b h old new c) = db_limits b"
  "db_epoch (record_transition b h old new c) = db_epoch b"
  "db_presenter (record_transition b h old new c) = db_presenter b"
  "db_next_generation (record_transition b h old new c) = db_next_generation b"
  "db_next_token (record_transition b h old new c) = db_next_token b"
  "db_retention (record_transition b h old new c) = db_retention b"
  "db_transition_limit (record_transition b h old new c) = db_transition_limit b"
  by (simp_all add: record_transition_def)

lemma record_transition_bound:
  "length (db_transitions b) \<le> db_transition_limit b \<Longrightarrow>
     length (db_transitions (record_transition b h old new c)) \<le> db_transition_limit b"
  by (simp add: record_transition_def)

section \<open>Eviction of terminal records\<close>

text \<open>What eviction leaves: the records outside \<open>E\<close>, the same queues, frame and journal bound.\<close>

definition evicts :: "interaction_handle set \<Rightarrow> dialog_broker \<Rightarrow> dialog_broker \<Rightarrow> bool" where
  "evicts E b b' \<longleftrightarrow> bm_inv (db_records b') \<and> the_record b' = the_record b |` (- E)
     \<and> db_queues b' = db_queues b \<and> db_turns b' = db_turns b \<and> frame b' = frame b
     \<and> (length (db_transitions b) \<le> db_transition_limit b \<longrightarrow> length (db_transitions b') \<le> db_transition_limit b)"

lemma evicts_refl: "bm_inv (db_records b) \<Longrightarrow> evicts {} b b"
  by (simp add: evicts_def restrict_map_def)

lemma evicts_trans: "evicts E b b' \<Longrightarrow> evicts F b' b'' \<Longrightarrow> evicts (E \<union> F) b b''"
  unfolding evicts_def using frame_eqD(8) [of b' b] by (simp add: Int_commute)

lemma evictsD:
  assumes "evicts E b b'"
  shows "bm_inv (db_records b')" "the_record b' = the_record b |` (- E)" "db_queues b' = db_queues b"
    "db_turns b' = db_turns b" "frame b' = frame b" "queue_of b' = queue_of b"
    "db_retention b' = db_retention b"
    "length (db_transitions b) \<le> db_transition_limit b \<Longrightarrow> length (db_transitions b') \<le> db_transition_limit b"
  using assms frame_eqD(7) [of b' b] queue_of_cong [of b' b] by (simp_all add: evicts_def)

lemma evict_one:
  assumes "bm_inv (db_records b)"
  shows "evicts {h} b (record_transition (b\<lparr>db_records := bm_remove h (db_records b)\<rparr>) h old new c)"
  using assms
  by (auto simp: evicts_def bm_inv_remove bm_get_remove frame_def restrict_map_def fun_eq_iff record_transition_def)

lemma trim_loop:
  assumes "bm_inv (db_records b)"
  shows "evicts (set (take (length T - rp_terminal (db_retention b)) T)) b (trim_terminal_loop b T)
    \<and> db_terminal_order (trim_terminal_loop b T) = drop (length T - rp_terminal (db_retention b)) T"
  using assms
proof (induction b T rule: trim_terminal_loop.induct)
  case (1 b)
  then show ?case by (simp add: evicts_def frame_def restrict_map_def)
next
  case (2 b h hs)
  let ?n = "rp_terminal (db_retention b)"
  show ?case
  proof (cases "length (h # hs) > ?n")
    case False
    then show ?thesis using 2(3) by (simp add: evicts_def frame_def restrict_map_def)
  next
    case True
    then have k: "length (h # hs) - ?n = Suc (length hs - ?n)" by simp
    let ?E = "set (take (length hs - ?n) hs)"
    show ?thesis
    proof (cases "the_record b h")
      case None
      have loop: "trim_terminal_loop b (h # hs) = trim_terminal_loop b hs" using True None by simp
      have "evicts ?E b (trim_terminal_loop b hs)
          \<and> db_terminal_order (trim_terminal_loop b hs) = drop (length hs - ?n) hs"
        by (rule "2.IH"(1) [OF True None 2(3)])
      moreover have "the_record b |` (- insert h ?E) = the_record b |` (- ?E)"
        using None by (auto simp: restrict_map_def fun_eq_iff)
      ultimately show ?thesis unfolding loop k by (simp add: evicts_def)
    next
      case (Some r)
      define b2 where "b2 = evict_counted b h r"
      have loop: "trim_terminal_loop b (h # hs) = trim_terminal_loop b2 hs"
        using True Some by (simp add: b2_def)
      have e1: "evicts {h} b b2"
        using evict_one [OF 2(3), of h "Some (dr_state r)" None CEvict]
        unfolding b2_def evict_counted_def Let_def evicts_def by (simp add: frame_def)
      then have inv2: "bm_inv (db_records b2)" and n2: "db_retention b2 = db_retention b"
        by (rule evictsD(1), rule evictsD(7))
      have "evicts ?E b2 (trim_terminal_loop b2 hs)
          \<and> db_terminal_order (trim_terminal_loop b2 hs) = drop (length hs - ?n) hs"
        by (rule "2.IH"(2) [OF True Some, folded b2_def, OF inv2, unfolded n2])
      then show ?thesis
        unfolding loop k take_Suc_Cons drop_Suc_Cons list.set(2) insert_is_Un [of h ?E]
        using evicts_trans [OF e1] by blast
    qed
  qed
qed


section \<open>Removal from the queue\<close>

lemma remove_from_queue_shape:
  assumes shape: "queue_shape b" and rec: "the_record b h = Some r"
    and only: "\<And>o'. h \<in> set (queue_of b o') \<Longrightarrow> o' = dr_owner_service r"
  shows "\<exists>q t. remove_from_queue b h = b\<lparr>db_queues := q, db_turns := t\<rparr>"
    "queue_shape (remove_from_queue b h)"
    "queue_of (remove_from_queue b h) = (\<lambda>o'. filter (\<lambda>x. x \<noteq> h) (queue_of b o'))"
proof -
  let ?o = "dr_owner_service r"
  let ?q = "filter (\<lambda>c. c \<noteq> h) (queue_of b ?o)"
  have inv: "bm_inv (db_queues b)" using shape by (simp add: queue_shape_def)
  have others: "filter (\<lambda>x. x \<noteq> h) (queue_of b o') = queue_of b o'" if "o' \<noteq> ?o" for o'
    using only [of o'] that by (auto intro!: filter_True)
  consider (none) "queue_of b ?o = []" | (empty) "queue_of b ?o \<noteq> []" "?q = []" | (rest) "queue_of b ?o \<noteq> []" "?q \<noteq> []"
    by blast
  then show "\<exists>q t. remove_from_queue b h = b\<lparr>db_queues := q, db_turns := t\<rparr>"
    "queue_shape (remove_from_queue b h)"
    "queue_of (remove_from_queue b h) = (\<lambda>o'. filter (\<lambda>x. x \<noteq> h) (queue_of b o'))"
  proof (atomize (full), cases)
    case none
    then have r: "remove_from_queue b h = b" by (simp add: remove_from_queue_def rec get_queue [OF shape] Let_def)
    have "queue_of b = (\<lambda>o'. filter (\<lambda>x. x \<noteq> h) (queue_of b o'))"
      using others none by (auto simp: fun_eq_iff) (metis filter.simps(1))
    moreover have "\<exists>q t. b = b\<lparr>db_queues := q, db_turns := t\<rparr>"
      by (rule exI [of _ "db_queues b"], rule exI [of _ "db_turns b"]) simp
    ultimately show "(\<exists>q t. remove_from_queue b h = b\<lparr>db_queues := q, db_turns := t\<rparr>)
        \<and> queue_shape (remove_from_queue b h)
        \<and> queue_of (remove_from_queue b h) = (\<lambda>o'. filter (\<lambda>x. x \<noteq> h) (queue_of b o'))"
      unfolding r using shape by blast
  next
    case empty
    let ?b = "b\<lparr>db_queues := bm_remove ?o (db_queues b), db_turns := filter (\<lambda>c. c \<noteq> ?o) (db_turns b)\<rparr>"
    have r: "remove_from_queue b h = ?b"
      using empty by (simp add: remove_from_queue_def rec get_queue [OF shape] Let_def)
    have q: "queue_of ?b = (queue_of b)(?o := [])"
      using queue_of_remove [of ?o b]
        queue_of_cong [of ?b "b\<lparr>db_queues := bm_remove ?o (db_queues b)\<rparr>"] by simp
    have "queue_of ?b = (\<lambda>o'. filter (\<lambda>x. x \<noteq> h) (queue_of b o'))"
      using others empty(2) unfolding q by (auto simp: fun_eq_iff)
    moreover have "queue_shape ?b"
      unfolding queue_shape_def q using shape set_bm_remove [of ?o "db_queues b"]
      by (auto simp: queue_shape_def bm_inv_remove)
    ultimately show "(\<exists>q t. remove_from_queue b h = b\<lparr>db_queues := q, db_turns := t\<rparr>)
        \<and> queue_shape (remove_from_queue b h)
        \<and> queue_of (remove_from_queue b h) = (\<lambda>o'. filter (\<lambda>x. x \<noteq> h) (queue_of b o'))"
      unfolding r by blast
  next
    case rest
    let ?b = "b\<lparr>db_queues := bm_insert ?o ?q (db_queues b)\<rparr>"
    have r: "remove_from_queue b h = ?b"
      using rest by (simp add: remove_from_queue_def rec get_queue [OF shape] Let_def)
    have q: "queue_of ?b = (queue_of b)(?o := ?q)" by (rule queue_of_insert)
    have "queue_of ?b = (\<lambda>o'. filter (\<lambda>x. x \<noteq> h) (queue_of b o'))"
      using others unfolding q by (auto simp: fun_eq_iff)
    moreover have "queue_shape ?b"
      unfolding queue_shape_def q using shape rest set_bm_insert [of ?o ?q "db_queues b"]
      by (auto simp: queue_shape_def bm_inv_insert)
    moreover have "?b = b\<lparr>db_queues := bm_insert ?o ?q (db_queues b), db_turns := db_turns b\<rparr>" by simp
    ultimately show "(\<exists>q t. remove_from_queue b h = b\<lparr>db_queues := q, db_turns := t\<rparr>)
        \<and> queue_shape (remove_from_queue b h)
        \<and> queue_of (remove_from_queue b h) = (\<lambda>o'. filter (\<lambda>x. x \<noteq> h) (queue_of b o'))"
      unfolding r by blast
  qed
qed

section \<open>Steps that only settle records\<close>

text \<open>A step settles when it only ends dialogs, drops queue entries and evicts.\<close>

definition settles :: "dialog_broker \<Rightarrow> dialog_broker \<Rightarrow> bool" where
  "settles b b' \<longleftrightarrow> frame b' = frame b
     \<and> (\<forall>x r'. the_record b' x = Some r' \<longrightarrow>
          (\<exists>r. the_record b x = Some r
             \<and> (r' = r \<or> \<not> dialog_terminal (dr_state r) \<and> dialog_terminal (dr_state r'))))
     \<and> (\<exists>P. \<forall>o'. queue_of b' o' = filter P (queue_of b o'))"

lemma settles_refl: "settles b b"
  unfolding settles_def by (auto intro!: exI [of _ "\<lambda>_. True"])

lemma settles_trans:
  assumes "settles b b'" "settles b' b''"
  shows "settles b b''"
proof -
  obtain P where "\<forall>o'. queue_of b' o' = filter P (queue_of b o')" using assms(1) unfolding settles_def by blast
  moreover obtain Q where "\<forall>o'. queue_of b'' o' = filter Q (queue_of b' o')" using assms(2) unfolding settles_def by blast
  ultimately have "\<forall>o'. queue_of b'' o' = filter (\<lambda>x. P x \<and> Q x) (queue_of b o')" by (simp add: conj_commute)
  then show ?thesis
    using assms unfolding settles_def by (metis (no_types, lifting))
qed

lemma settlesD:
  assumes "settles b b'"
  shows "frame b' = frame b" "db_limits b' = db_limits b" "db_retention b' = db_retention b"
    "length (queue_of b' o') \<le> length (queue_of b o')" "set (queue_of b' o') \<subseteq> set (queue_of b o')"
    "the_record b x = None \<Longrightarrow> the_record b' x = None"
proof -
  show "frame b' = frame b" "db_limits b' = db_limits b" "db_retention b' = db_retention b"
    using assms by (simp_all add: settles_def frame_def)
  obtain P where "queue_of b' o' = filter P (queue_of b o')" using assms by (auto simp: settles_def)
  then show "length (queue_of b' o') \<le> length (queue_of b o')" "set (queue_of b' o') \<subseteq> set (queue_of b o')" by auto
  show "the_record b x = None \<Longrightarrow> the_record b' x = None"
    using assms unfolding settles_def by (metis not_None_eq)
qed

lemma queued_len_set:
  assumes "bm_inv (db_queues b)"
  shows "queued_len b = (\<Sum>o'\<in>fst ` set (db_queues b). length (queue_of b o'))"
proof -
  have d: "distinct (map fst (db_queues b))" using assms by (rule bm_inv_distinct)
  have "map (length \<circ> snd) (db_queues b) = map (\<lambda>o'. length (queue_of b o')) (map fst (db_queues b))"
    by (auto simp: queue_of_def dest!: bm_get_Some_iff [OF assms, THEN iffD2])
  then show ?thesis unfolding queued_len_def using d by (simp add: sum_list_distinct_conv_sum_set del: map_map)
qed

lemma queued_len_mono:
  assumes "queue_shape b" "queue_shape b'" "\<And>o'. length (queue_of b' o') \<le> length (queue_of b o')"
  shows "queued_len b' \<le> queued_len b"
proof -
  have dom: "fst ` set (db_queues b) = {o'. queue_of b o' \<noteq> []}" if "queue_shape b" for b
    using get_queue [OF that] by (force simp: queue_of_def bm_get_def map_of_eq_None_iff split: option.splits)
  have inv: "bm_inv (db_queues b)" "bm_inv (db_queues b')" using assms by (simp_all add: queue_shape_def)
  have "queued_len b' \<le> (\<Sum>o'\<in>fst ` set (db_queues b'). length (queue_of b o'))"
    unfolding queued_len_set [OF inv(2)] by (intro sum_mono assms(3))
  also have "\<dots> \<le> queued_len b"
    unfolding queued_len_set [OF inv(1)] dom [OF assms(1)] dom [OF assms(2)]
  proof (rule sum_mono2)
    show "finite {o'. queue_of b o' \<noteq> []}" using dom [OF assms(1)] by (metis finite_imageI finite_set)
    show "{o'. queue_of b' o' \<noteq> []} \<subseteq> {o'. queue_of b o' \<noteq> []}"
      using assms(3) by (metis (mono_tags, lifting) Collect_mono le_zero_eq length_0_conv)
  qed simp
  finally show ?thesis .
qed

lemma active_len_card:
  assumes "bm_inv (db_records b)"
  shows "active_len b = card {h. \<exists>r. the_record b h = Some r \<and> active_state (dr_state r)}"
    "finite {h. \<exists>r. the_record b h = Some r \<and> active_state (dr_state r)}"
proof -
  let ?l = "filter (\<lambda>(_, r). active_state (dr_state r)) (db_records b)"
  have "distinct (map fst ?l)"
    using bm_inv_distinct [OF assms] by (induction "db_records b") (auto simp: distinct_map_filter)
  moreover have "{h. \<exists>r. the_record b h = Some r \<and> active_state (dr_state r)} = set (map fst ?l)"
    using bm_get_Some_iff [OF assms] by force
  ultimately show "active_len b = card {h. \<exists>r. the_record b h = Some r \<and> active_state (dr_state r)}"
    "finite {h. \<exists>r. the_record b h = Some r \<and> active_state (dr_state r)}"
    using distinct_card [of "map fst ?l"] by (simp_all add: active_len_def del: set_map)
qed

lemma settles_bounds:
  assumes "settles b b'" "dialog_core L b" "dialog_core L' b'"
  shows "queued_len b' \<le> queued_len b" "active_len b' \<le> active_len b" "queue_bounded b \<Longrightarrow> queue_bounded b'"
proof -
  have core: "queue_shape b" "queue_shape b'" "bm_inv (db_records b)" "bm_inv (db_records b')"
    using assms(2,3) by (auto simp: dialog_core_def records_ok_def)
  show q: "queued_len b' \<le> queued_len b" by (rule queued_len_mono [OF core(1,2) settlesD(4) [OF assms(1)]])
  have "{h. \<exists>r. the_record b' h = Some r \<and> active_state (dr_state r)}
      \<subseteq> {h. \<exists>r. the_record b h = Some r \<and> active_state (dr_state r)}"
    using assms(1) terminal_not_active unfolding settles_def by fastforce
  then show "active_len b' \<le> active_len b"
    unfolding active_len_card(1) [OF core(3)] active_len_card(1) [OF core(4)]
    by (rule card_mono [OF active_len_card(2) [OF core(3)]])
  show "queue_bounded b \<Longrightarrow> queue_bounded b'"
    using q settlesD(2,4) [OF assms(1)] unfolding queue_bounded_def by (metis le_trans)
qed


section \<open>Ending a dialog\<close>

text \<open>The value a terminal state must carry.\<close>

definition value_ok :: "dialog_record \<Rightarrow> dialog_state \<Rightarrow> dialog_value option \<Rightarrow> bool" where
  "value_ok r state v \<longleftrightarrow> dialog_terminal state
     \<and> (case v of None \<Rightarrow> state \<noteq> Resolved | Some w \<Rightarrow> state = Resolved \<and> answers (or_dialog (dr_request r)) w)"

definition ended :: "dialog_record \<Rightarrow> dialog_state \<Rightarrow> dialog_value option \<Rightarrow> nat \<Rightarrow> dialog_record" where
  "ended r state v now = r\<lparr>dr_state := state, dr_terminal_at_ms := Some now, dr_attempt := None, dr_value := v\<rparr>"

lemma ended_simps [simp]:
  "dr_state (ended r state v now) = state" "dr_value (ended r state v now) = v"
  "dr_attempt (ended r state v now) = None" "dr_terminal_at_ms (ended r state v now) = Some now"
  "dr_handle (ended r state v now) = dr_handle r" "dr_owner_service (ended r state v now) = dr_owner_service r"
  "dr_request (ended r state v now) = dr_request r" "dr_progress (ended r state v now) = dr_progress r"
  "dr_requeues (ended r state v now) = dr_requeues r" "dr_owner_token (ended r state v now) = dr_owner_token r"
  by (simp_all add: ended_def)

lemma record_ok_ended:
  "record_ok b L h r \<Longrightarrow> value_ok r state v \<Longrightarrow> record_ok b L h (ended r state v now)"
  using terminal_not_active [of state] by (auto simp: record_ok_def value_ok_def split: option.splits)

lemma transition_terminal_effect:
  fixes b :: dialog_broker and state :: dialog_state and v :: "dialog_value option" and now :: nat
    and cause :: transition_cause and h :: interaction_handle
  assumes core: "dialog_core L b" and rec: "the_record b h = Some r" and live: "\<not> dialog_terminal (dr_state r)"
  defines "b' \<equiv> transition_terminal b h state v now cause"
  defines "T \<equiv> db_terminal_order b @ [h]"
  defines "n \<equiv> length T - rp_terminal (db_retention b)"
  shows "queue_shape b'" "queue_of b' = (\<lambda>o'. filter (\<lambda>x. x \<noteq> h) (queue_of b o'))" "frame b' = frame b"
    "the_record b' = ((the_record b)(h \<mapsto> ended r state v now)) |` (- set (take n T))"
    "bm_inv (db_records b')" "db_terminal_order b' = drop n T"
    "length (db_transitions b') \<le> db_transition_limit b"
proof -
  have inv: "bm_inv (db_records b)" and shape: "queue_shape b"
    using core by (simp_all add: dialog_core_def records_ok_def)
  have only: "o' = dr_owner_service r" if "h \<in> set (queue_of b o')" for o'
    using core that rec unfolding dialog_core_def queue_content_def by (metis option.inject)
  define b1 where "b1 = remove_from_queue b h"
  note rm = remove_from_queue_shape [OF shape rec only, folded b1_def]
  obtain q t where b1: "b1 = b\<lparr>db_queues := q, db_turns := t\<rparr>" using rm(1) by blast
  define b2 where "b2 = put_record b1 h (ended r state v now)"
  define b3 where "b3 = b2\<lparr>db_terminal_order := db_terminal_order b2 @ [h],
      db_expirations := (if state = DExpired then db_expirations b2 @ [h] else db_expirations b2)\<rparr>"
  define b4 where "b4 = record_transition b3 h (Some (dr_state r)) (Some state) cause"
  have b': "b' = trim_terminal_loop b4 T"
  proof -
    have "b' = trim_terminal_count b4"
      unfolding b'_def transition_terminal_def rec option.case if_not_P [OF live] Let_def
        b4_def b3_def b2_def b1_def ended_def by (rule refl)
    moreover have "db_terminal_order b4 = T" by (simp add: b4_def b3_def b2_def b1 T_def)
    ultimately show ?thesis by (simp add: trim_terminal_count_def)
  qed
  have recs: "db_records b4 = bm_insert h (ended r state v now) (db_records b)"
    by (simp add: b4_def b3_def b2_def b1)
  have inv4: "bm_inv (db_records b4)" using inv by (simp add: recs bm_inv_insert)
  have fr: "frame b4 = frame b" by (simp add: frame_def b4_def b3_def b2_def b1)
  have ret: "db_retention b4 = db_retention b" using fr by (simp add: frame_def)
  have q4: "queue_of b4 = queue_of b1" "db_turns b4 = db_turns b1" "db_queues b4 = db_queues b1"
    by (auto simp: b4_def b3_def b2_def intro!: queue_of_cong)
  have tr: "length (db_transitions b4) \<le> db_transition_limit b4"
    using core record_transition_bound [of b3 h "Some (dr_state r)" "Some state" cause]
    by (simp add: dialog_core_def control_ok_def b4_def b3_def b2_def b1)
  note tl = trim_loop [OF inv4, of T, folded b', unfolded ret, folded n_def]
  note ev = evictsD [OF conjunct1 [OF tl]]
  show "db_terminal_order b' = drop n T" using tl by blast
  show "bm_inv (db_records b')" by (rule ev(1))
  show "the_record b' = ((the_record b)(h \<mapsto> ended r state v now)) |` (- set (take n T))"
    using ev(2) unfolding recs bm_get_insert .
  show "frame b' = frame b" using ev(5) fr by simp
  show "queue_of b' = (\<lambda>o'. filter (\<lambda>x. x \<noteq> h) (queue_of b o'))" using ev(6) q4(1) rm(3) by simp
  show "queue_shape b'"
    using rm(2) ev(3,4,6) q4 unfolding queue_shape_def by simp
  show "length (db_transitions b') \<le> db_transition_limit b"
    using ev(8) tr frame_eqD(8) [OF fr] by simp
qed


lemma transition_terminal_core:
  assumes core: "dialog_core L b" and val: "\<And>r. the_record b h = Some r \<Longrightarrow> value_ok r state v"
  shows "dialog_core L (transition_terminal b h state v now cause)
    \<and> settles b (transition_terminal b h state v now cause)
    \<and> (\<forall>r'. the_record (transition_terminal b h state v now cause) h = Some r' \<longrightarrow> dialog_terminal (dr_state r'))"
proof (cases "\<exists>r. the_record b h = Some r \<and> \<not> dialog_terminal (dr_state r)")
  case False
  then have "transition_terminal b h state v now cause = b"
    by (auto simp: transition_terminal_def split: option.split)
  then show ?thesis using core False settles_refl by auto
next
  case True
  then obtain r where rec: "the_record b h = Some r" and live: "\<not> dialog_terminal (dr_state r)" by blast
  define b' where "b' = transition_terminal b h state v now cause"
  define T where "T = db_terminal_order b @ [h]"
  define n where "n = length T - rp_terminal (db_retention b)"
  note eff = transition_terminal_effect [OF core rec live, of state v now cause, folded b'_def T_def, folded n_def]
  note fr = frame_eqD [OF eff(3)]
  have vok: "value_ok r state v" and st: "dialog_terminal state" using val [OF rec] by (auto simp: value_ok_def)
  have rok: "record_ok b L x y" if "the_record b x = Some y" for x y
    using core that by (simp add: dialog_core_def records_ok_def)
  have cong: "record_ok b' L x y = record_ok b L x y" for x y by (simp add: record_ok_def fr)
  have look: "the_record b' x = (if x \<in> set (take n T) then None else if x = h then Some (ended r state v now) else the_record b x)" for x
    by (simp add: eff(4) restrict_map_def)
  have "records_ok L b'"
    using eff(5) rok record_ok_ended [OF rok [OF rec] vok]
    by (auto simp: records_ok_def cong look split: if_splits)
  moreover have tT: "distinct T" "\<And>x. x \<in> set T \<longleftrightarrow> terminal_in b x \<or> x = h"
    using core rec live by (auto simp: dialog_core_def terminals_ok_def T_def terminal_in_def)
  have "terminals_ok b'"
  proof -
    have "x \<in> set (drop n T) \<longleftrightarrow> x \<in> set T \<and> x \<notin> set (take n T)" for x
      using tT(1) set_take_disj_set_drop_if_distinct [of T n n] append_take_drop_id [of n T]
      by (metis (no_types, lifting) Un_iff disjoint_iff le_refl set_append)
    moreover have "terminal_in b' x \<longleftrightarrow> x \<in> set T \<and> x \<notin> set (take n T)" for x
      using st tT(2) [of x] by (auto simp: terminal_in_def look)
    ultimately show ?thesis
      using tT(1) by (auto simp: terminals_ok_def eff(6) fr n_def)
  qed
  moreover have "queue_content b'"
  proof -
    have keep: "the_record b' x = Some y" if "the_record b x = Some y" "dr_state y = DQueued" "x \<noteq> h" for x y
      using that tT(2) [of x] by (auto simp: look terminal_in_def dest: in_set_takeD)
    have prior: "the_record b x = Some y" if "the_record b' x = Some y" "dr_state y = DQueued" for x y
      using that st by (auto simp: look split: if_splits)
    have "x \<noteq> h" if "the_record b' x = Some y" "dr_state y = DQueued" for x y
      using that st by (auto simp: look split: if_splits)
    note ne = this
    have qc: "queue_content b" using core by (simp add: dialog_core_def)
    show ?thesis unfolding queue_content_def eff(2) fr
    proof (intro conjI allI impI)
      fix o' x assume x: "x \<in> set (filter (\<lambda>x. x \<noteq> h) (queue_of b o'))"
      then obtain y where "the_record b x = Some y" "dr_state y = DQueued" "dr_owner_service y = o'"
        using qc unfolding queue_content_def by auto
      then show "\<exists>r. the_record b' x = Some r \<and> dr_state r = DQueued \<and> dr_owner_service r = o'"
        using keep x by auto
    next
      fix x y assume "db_next_token b < u64_max" and y: "the_record b' x = Some y" "dr_state y = DQueued"
      then have "x \<in> set (queue_of b (dr_owner_service y))"
        using qc prior [OF y] unfolding queue_content_def by blast
      then show "x \<in> set (filter (\<lambda>x. x \<noteq> h) (queue_of b (dr_owner_service y)))" using ne [OF y] by simp
    qed
  qed
  moreover have "control_ok b'" using core eff(7) by (simp add: dialog_core_def control_ok_def fr)
  ultimately have "dialog_core L b'" using eff(1) by (simp add: dialog_core_def)
  moreover have "settles b b'"
    unfolding settles_def eff(2) using eff(3) rec live st by (auto simp: look split: if_splits)
  moreover have "\<forall>r'. the_record b' h = Some r' \<longrightarrow> dialog_terminal (dr_state r')"
    using st by (auto simp: look split: if_splits)
  ultimately show ?thesis by (simp add: b'_def)
qed


lemma settles_terminal:
  "settles b b' \<Longrightarrow> (\<And>r. the_record b h = Some r \<Longrightarrow> dialog_terminal (dr_state r)) \<Longrightarrow>
     the_record b' h = Some r' \<Longrightarrow> dialog_terminal (dr_state r')"
  unfolding settles_def by metis

text \<open>Ending a list of dialogs without a value.\<close>

lemma fold_terminal:
  fixes b :: dialog_broker and now :: nat and cause :: transition_cause and hs :: "interaction_handle list"
  assumes "dialog_core L b" "dialog_terminal state" "state \<noteq> Resolved"
  defines "b' \<equiv> fold (\<lambda>h b. transition_terminal b h state None now cause) hs b"
  shows "dialog_core L b' \<and> settles b b'
    \<and> (\<forall>h\<in>set hs. \<forall>r'. the_record b' h = Some r' \<longrightarrow> dialog_terminal (dr_state r'))"
  unfolding b'_def using assms(1)
proof (induction hs arbitrary: b)
  case Nil
  then show ?case by (simp add: settles_refl)
next
  case (Cons h hs)
  let ?b = "transition_terminal b h state None now cause"
  have step: "dialog_core L ?b \<and> settles b ?b \<and> (\<forall>r'. the_record ?b h = Some r' \<longrightarrow> dialog_terminal (dr_state r'))"
    using assms(2,3) by (intro transition_terminal_core Cons.prems) (simp add: value_ok_def)
  note ih = Cons.IH [of ?b]
  show ?case
    using ih step settles_trans [of b ?b] settles_terminal [of ?b _ h] by (auto simp: fold_simps)
qed

section \<open>Maintenance\<close>

definition is_order :: "hash_order \<Rightarrow> bool" where
  "is_order ho \<longleftrightarrow> (\<forall>xs. distinct xs \<longrightarrow> distinct (ho xs) \<and> set (ho xs) = set xs)"

lemma as_str_inj: "inj as_str"
  by (metis injI interaction_handle.expand)

lemma set_iter_records:
  assumes "is_order ho" "bm_inv (db_records b)"
  shows "r \<in> set (iter_records ho b) \<longleftrightarrow> (\<exists>h. the_record b h = Some r)"
proof -
  have "distinct (map (as_str \<circ> fst) (db_records b))"
    using bm_inv_distinct [OF assms(2)] as_str_inj by (simp add: distinct_map comp_inj_on inj_on_subset)
  then have "set (ho (map (as_str \<circ> fst) (db_records b))) = as_str ` fst ` set (db_records b)"
    using assms(1) by (simp add: is_order_def image_comp)
  then have "r \<in> set (iter_records ho b) \<longleftrightarrow> (\<exists>h\<in>fst ` set (db_records b). the_record b h = Some r)"
    unfolding iter_records_def by (auto simp: in_map_filter)
  also have "\<dots> \<longleftrightarrow> (\<exists>h. the_record b h = Some r)"
    using bm_get_in [of "db_records b"] by force
  finally show ?thesis .
qed

lemma expire_due_core:
  assumes "dialog_core L b"
  shows "dialog_core L (expire_due ho b now) \<and> settles b (expire_due ho b now)"
  using fold_terminal [OF assms, of DExpired now CExpire] unfolding expire_due_def by simp

lemma expire_due_clears:
  assumes "dialog_core L b" "is_order ho" "the_record (expire_due ho b now) h = Some r"
  shows "\<not> due now r"
proof
  assume d: "due now r"
  have s: "settles b (expire_due ho b now)" using expire_due_core [OF assms(1)] by blast
  then obtain r0 where r0: "the_record b h = Some r0" "r = r0"
    using assms(3) d unfolding settles_def by (metis due_def)
  have inv: "bm_inv (db_records b)" and "dr_handle r0 = h"
    using assms(1) r0(1) by (auto simp: dialog_core_def records_ok_def record_ok_def)
  then have "h \<in> set (map dr_handle (filter (due now) (iter_records ho b)))"
    using set_iter_records [OF assms(2) inv] r0 d by force
  then have "dialog_terminal (dr_state r)"
    using fold_terminal [OF assms(1), where state = DExpired and now = now and cause = CExpire
        and hs = "map dr_handle (filter (due now) (iter_records ho b))"] assms(3)
      state_simps(3) dialog_state.distinct
    unfolding expire_due_def by blast
  then show False using d by (simp add: due_def)
qed

lemma evict_fold:
  assumes "bm_inv (db_records b)"
  defines "f \<equiv> \<lambda>h b. case the_record b h of
       None \<Rightarrow> b
     | Some r \<Rightarrow> record_transition (b\<lparr>db_records := bm_remove h (db_records b)\<rparr>) h (Some (dr_state r)) None CEvict"
  shows "evicts (set hs) b (fold f hs b) \<and> db_terminal_order (fold f hs b) = db_terminal_order b
    \<and> db_evictions (fold f hs b) = db_evictions b \<and> db_expirations (fold f hs b) = db_expirations b"
  using assms(1)
proof (induction hs arbitrary: b)
  case Nil
  then show ?case by (simp add: evicts_refl)
next
  case (Cons h hs)
  have e: "evicts {h} b (f h b)"
  proof (cases "the_record b h")
    case None
    then have "the_record b |` (- {h}) = the_record b" by (auto simp: restrict_map_def fun_eq_iff)
    then show ?thesis using None Cons.prems by (simp add: f_def evicts_def)
  next
    case (Some r)
    then show ?thesis using evict_one [OF Cons.prems] by (simp add: f_def)
  qed
  have o: "db_terminal_order (f h b) = db_terminal_order b" "db_evictions (f h b) = db_evictions b"
    "db_expirations (f h b) = db_expirations b"
    by (simp_all add: f_def split: option.split)
  show ?case
    using Cons.IH [OF evictsD(1) [OF e]] evicts_trans [OF e] o by (auto simp: fold_simps)
qed

lemma evicts_core:
  assumes core: "dialog_core L b" and ev: "evicts E b b1" and E: "\<And>h. h \<in> E \<Longrightarrow> \<not> (\<exists>r. the_record b h = Some r \<and> \<not> dialog_terminal (dr_state r))"
    and ord: "db_terminal_order b' = filter (\<lambda>h. h \<notin> E) (db_terminal_order b)"
    and same: "db_records b' = db_records b1" "db_queues b' = db_queues b1" "db_turns b' = db_turns b1"
      "frame b' = frame b1" "db_transitions b' = db_transitions b1"
  shows "dialog_core L b' \<and> settles b b'"
proof -
  note e = evictsD [OF ev]
  note fr = frame_eqD [OF trans [OF same(4) e(5)]]
  have look: "the_record b' x = (if x \<in> E then None else the_record b x)" for x
    using e(2) same(1) by (simp add: restrict_map_def)
  have q: "queue_of b' = queue_of b" using e(6) queue_of_cong [OF same(2)] by simp
  have cong: "record_ok b' L x y = record_ok b L x y" for x y by (simp add: record_ok_def fr)
  have "record_ok b' L x y" if "the_record b' x = Some y" for x y
    using that core unfolding look cong by (simp add: dialog_core_def records_ok_def split: if_splits)
  then have "records_ok L b'" using e(1) unfolding records_ok_def same(1) by blast
  moreover have "queue_shape b'"
    using core e(3,4) same(2,3) q by (simp add: dialog_core_def queue_shape_def)
  moreover have "queue_content b'"
    unfolding queue_content_def q fr
  proof (intro conjI allI impI)
    fix o' h assume "h \<in> set (queue_of b o')"
    then obtain r where "the_record b h = Some r" "dr_state r = DQueued" "dr_owner_service r = o'"
      using core unfolding dialog_core_def queue_content_def by blast
    then show "\<exists>r. the_record b' h = Some r \<and> dr_state r = DQueued \<and> dr_owner_service r = o'"
      using E [of h] by (auto simp: look)
  next
    fix h r assume "db_next_token b < u64_max" "the_record b' h = Some r" "dr_state r = DQueued"
    then show "h \<in> set (queue_of b (dr_owner_service r))"
      using core unfolding dialog_core_def queue_content_def look by (auto split: if_splits)
  qed
  moreover have "terminals_ok b'"
  proof -
    have ok: "terminals_ok b" using core by (simp add: dialog_core_def)
    then have "length (filter (\<lambda>h. h \<notin> E) (db_terminal_order b)) \<le> rp_terminal (db_retention b)"
      unfolding terminals_ok_def using length_filter_le le_trans by blast
    with ok show ?thesis by (auto simp: terminals_ok_def terminal_in_def look fr ord)
  qed
  moreover have "control_ok b'"
    using core e(8) same(5) by (simp add: dialog_core_def control_ok_def fr)
  moreover have "settles b b'"
    using trans [OF same(4) e(5)]
    unfolding settles_def q by (auto simp: look split: if_splits intro!: exI [of _ "\<lambda>_. True"])
  ultimately show ?thesis by (simp add: dialog_core_def)
qed

lemma evict_ttl_core:
  assumes "dialog_core L b" "evict_terminal_ttl b now = (ev, b')"
  shows "dialog_core L b' \<and> settles b b' \<and> set ev \<subseteq> set (db_terminal_order b)
    \<and> the_record b' = the_record b |` (- set ev)"
proof -
  define P where "P h = (case the_record b h of
       None \<Rightarrow> True
     | Some r \<Rightarrow> (case dr_terminal_at_ms r of
          None \<Rightarrow> False
        | Some e \<Rightarrow> now - e \<ge> rp_terminal_ttl_ms (db_retention b)))" for h
  define f where "f h b = (case the_record b h of
       None \<Rightarrow> b
     | Some r \<Rightarrow> record_transition (b\<lparr>db_records := bm_remove h (db_records b)\<rparr>) h (Some (dr_state r)) None CEvict)" for h b
  define b1 where "b1 = fold f ev b"
  have ev: "ev = filter P (db_terminal_order b)"
    and b': "b' = b1\<lparr>db_terminal_order := filter (\<lambda>h. h \<notin> set ev) (db_terminal_order b1)\<rparr>"
    using assms(2) unfolding evict_terminal_ttl_def Let_def P_def f_def b1_def by auto
  have inv: "bm_inv (db_records b)" using assms(1) by (simp add: dialog_core_def records_ok_def)
  note ef = evict_fold [OF inv, of ev, folded f_def, folded b1_def]
  have trm: "\<not> (\<exists>r. the_record b h = Some r \<and> \<not> dialog_terminal (dr_state r))" if "h \<in> set ev" for h
    using that assms(1) unfolding ev by (auto simp: dialog_core_def terminals_ok_def terminal_in_def)
  have "dialog_core L b' \<and> settles b b'"
    by (rule evicts_core [OF assms(1) conjunct1 [OF ef] trm]) (use ef in \<open>simp_all add: b' frame_def\<close>)
  then show ?thesis using evictsD(2) [OF conjunct1 [OF ef]] by (auto simp: b' ev)
qed

lemma core_cong:
  assumes "db_records b' = db_records b" "db_queues b' = db_queues b" "db_turns b' = db_turns b"
    "frame b' = frame b" "db_terminal_order b' = db_terminal_order b" "db_transitions b' = db_transitions b"
  shows "dialog_core L b' = dialog_core L b" "settles b b'"
proof -
  note fr = frame_eqD [OF assms(4)]
  have q: "queue_of b' = queue_of b" using assms(2) by (rule queue_of_cong)
  have "record_ok b' L = record_ok b L" by (simp add: fun_eq_iff record_ok_def fr)
  then show "dialog_core L b' = dialog_core L b"
    by (simp add: dialog_core_def records_ok_def queue_shape_def queue_content_def terminals_ok_def terminal_in_def
        control_ok_def assms q fr)
  show "settles b b'"
    using assms by (auto simp: settles_def q intro!: exI [of _ "\<lambda>_. True"])
qed

lemma maintain_core:
  assumes "dialog_core L b"
  shows "dialog_core L (maintain ho b now) \<and> settles b (maintain ho b now)"
proof -
  let ?b1 = "expire_due ho b now"
  obtain ev b2 where e: "evict_terminal_ttl ?b1 now = (ev, b2)" by fastforce
  have 1: "dialog_core L ?b1" "settles b ?b1" using expire_due_core [OF assms] by auto
  have 2: "dialog_core L b2" "settles ?b1 b2" using evict_ttl_core [OF 1(1) e] by auto
  let ?b3 = "b2\<lparr>db_evictions := db_evictions b2 @ ev\<rparr>"
  have 3: "dialog_core L ?b3" "settles b2 ?b3"
    using core_cong(1) [of ?b3 b2 L] core_cong(2) [of ?b3 b2] 2(1) by (simp_all add: frame_def)
  have "maintain ho b now = ?b3" by (simp add: maintain_def Let_def e)
  then show ?thesis using 3(1) settles_trans [OF settles_trans [OF 1(2) 2(2)] 3(2)] by simp
qed

lemma maintain_clears:
  assumes "dialog_core L b" "is_order ho" "the_record (maintain ho b now) h = Some r"
  shows "\<not> due now r"
proof -
  let ?b1 = "expire_due ho b now"
  obtain ev b2 where e: "evict_terminal_ttl ?b1 now = (ev, b2)" by fastforce
  have 1: "dialog_core L ?b1" using expire_due_core [OF assms(1)] by auto
  have "the_record ?b1 h = Some r"
    using evict_ttl_core [OF 1 e] assms(3) by (auto simp: maintain_def Let_def e restrict_map_def split: if_splits)
  then show ?thesis using expire_due_clears [OF assms(1,2)] by blast
qed

lemma drained_core: "dialog_core L (drained b) = dialog_core L b" "settles b (drained b)"
  using core_cong(1) [of "drained b" b L] core_cong(2) [of "drained b" b] by (simp_all add: drain_pending_report_def frame_def)

lemma expire_handle_core:
  assumes "dialog_core L b" "expire_handle_if_due b h now = (d, b')"
  shows "dialog_core L b' \<and> settles b b' \<and> (\<not> d \<longrightarrow> b' = b)"
  using transition_terminal_core [OF assms(1), of h DExpired None now CExpire] assms
  by (auto simp: expire_handle_if_due_def Let_def value_ok_def dialog_terminal_def settles_refl split: if_splits)


section \<open>Changing one record\<close>

lemma core_record: "dialog_core L b \<Longrightarrow> the_record b h = Some r \<Longrightarrow> record_ok b L h r"
  by (simp add: dialog_core_def records_ok_def)

lemma core_bm_inv: "dialog_core L b \<Longrightarrow> bm_inv (db_records b)"
  by (simp add: dialog_core_def records_ok_def)

lemma put_record_core:
  assumes core: "dialog_core L b" and rec: "the_record b h = Some r"
    and ok: "record_ok b L' h r'" and L: "\<And>x. x \<noteq> h \<Longrightarrow> x \<in> L' \<longleftrightarrow> x \<in> L"
    and live: "\<not> dialog_terminal (dr_state r)" "\<not> dialog_terminal (dr_state r')"
    and same: "dr_state r' = DQueued \<longleftrightarrow> dr_state r = DQueued" "dr_owner_service r' = dr_owner_service r"
  shows "dialog_core L' (put_record b h r')"
proof -
  let ?b = "put_record b h r'"
  have look: "the_record ?b = (the_record b)(h \<mapsto> r')" by (simp add: bm_get_insert fun_eq_iff)
  have q: "queue_of ?b = queue_of b" by (rule queue_of_cong) simp
  have cong: "record_ok ?b L' x y = record_ok b L' x y" for x y by (simp add: record_ok_def)
  have other: "record_ok b L' x y" if "the_record b x = Some y" "x \<noteq> h" for x y
    using core_record [OF core that(1)] L [OF that(2)] by (simp add: record_ok_def)
  have "records_ok L' ?b"
    unfolding records_ok_def look using ok other core_bm_inv [OF core]
    by (auto simp: cong bm_inv_insert split: if_splits)
  moreover have "queue_shape ?b" using core by (simp add: dialog_core_def queue_shape_def q)
  moreover have "queue_content ?b"
    unfolding queue_content_def q look
  proof (intro conjI allI impI)
    fix o' x assume x: "x \<in> set (queue_of b o')"
    then obtain y where y: "the_record b x = Some y" "dr_state y = DQueued" "dr_owner_service y = o'"
      using core unfolding dialog_core_def queue_content_def by blast
    then show "\<exists>r. ((the_record b)(h \<mapsto> r')) x = Some r \<and> dr_state r = DQueued \<and> dr_owner_service r = o'"
      using rec same by (cases "x = h") simp_all
  next
    fix x y assume "db_next_token (put_record b h r') < u64_max" and y: "((the_record b)(h \<mapsto> r')) x = Some y" "dr_state y = DQueued"
    then have tok: "db_next_token b < u64_max" by simp
    obtain y0 where "the_record b x = Some y0" "dr_state y0 = DQueued" "dr_owner_service y0 = dr_owner_service y"
      using y rec same by (cases "x = h") auto
    then show "x \<in> set (queue_of b (dr_owner_service y))"
      using core tok unfolding dialog_core_def queue_content_def by metis
  qed
  moreover have "terminals_ok ?b"
  proof -
    have "terminal_in ?b x = terminal_in b x" for x
      unfolding terminal_in_def look using rec live by auto
    then show ?thesis using core by (simp add: dialog_core_def terminals_ok_def)
  qed
  moreover have "control_ok ?b" using core by (simp add: dialog_core_def control_ok_def)
  ultimately show ?thesis by (simp add: dialog_core_def)
qed

lemma record_transition_core: "dialog_core L b \<Longrightarrow> dialog_core L (record_transition b h old new c)"
proof -
  assume core: "dialog_core L b"
  have "record_ok (record_transition b h old new c) L = record_ok b L" by (simp add: fun_eq_iff record_ok_def)
  moreover have "queue_of (record_transition b h old new c) = queue_of b" by (rule queue_of_cong) simp
  ultimately show ?thesis
    using core record_transition_bound [of b h old new c]
    by (simp add: dialog_core_def records_ok_def queue_shape_def queue_content_def terminals_ok_def terminal_in_def
        control_ok_def)
qed

lemma record_transition_queues [simp]:
  "queue_of (record_transition b h old new c) = queue_of b"
  "queued_len (record_transition b h old new c) = queued_len b"
  "active_len (record_transition b h old new c) = active_len b"
  "frame (record_transition b h old new c) = frame b"
  by (simp_all add: queue_of_def fun_eq_iff queued_len_def active_len_def frame_def)

lemma put_record_queues [simp]:
  "queue_of (put_record b h r) = queue_of b" "queued_len (put_record b h r) = queued_len b"
  "frame (put_record b h r) = frame b"
  by (simp_all add: queue_of_def fun_eq_iff queued_len_def frame_def)

lemma active_len_put:
  assumes "bm_inv (db_records b)"
  shows "active_len (put_record b h r') + (case the_record b h of None \<Rightarrow> 0 | Some r \<Rightarrow> if active_state (dr_state r) then 1 else 0)
    = active_len b + (if active_state (dr_state r') then 1 else 0)"
  using bm_sum_insert [OF assms, of "\<lambda>_ r. if active_state (dr_state r) then 1 else 0" h r']
  by (simp add: active_len_sum bm_share_def)

section \<open>Queueing\<close>

lemma enqueue_fields [simp]:
  "db_records (enqueue b o' h) = db_records b" "frame (enqueue b o' h) = frame b"
  "db_terminal_order (enqueue b o' h) = db_terminal_order b" "db_transitions (enqueue b o' h) = db_transitions b"
  "active_len (enqueue b o' h) = active_len b" "db_overflowed (enqueue b o' h) = db_overflowed b"
  "db_transition_limit (enqueue b o' h) = db_transition_limit b"
  by (simp_all add: enqueue_def Let_def frame_def active_len_def)

lemma queue_of_enqueue: "queue_of (enqueue b o' h) = (queue_of b)(o' := queue_of b o' @ [h])"
proof -
  have "queue_of (enqueue b o' h) = queue_of (b\<lparr>db_queues := bm_insert o' (queue_of b o' @ [h]) (db_queues b)\<rparr>)"
    by (rule queue_of_cong) (simp add: enqueue_def Let_def)
  then show ?thesis by (simp add: queue_of_insert)
qed

lemma queued_len_enqueue: "bm_inv (db_queues b) \<Longrightarrow> queued_len (enqueue b o' h) = Suc (queued_len b)"
  using queued_len_insert [of b o' "queue_of b o' @ [h]"]
  by (simp add: enqueue_def Let_def queued_len_def)

lemma enqueue_shape:
  assumes "queue_shape b" "\<And>o'. h \<notin> set (queue_of b o')"
  shows "queue_shape (enqueue b o' h)"
proof -
  have "set (db_queues (enqueue b o' h)) \<subseteq> insert (o', queue_of b o' @ [h]) (set (db_queues b))"
    by (simp add: enqueue_def Let_def set_bm_insert)
  then have ne: "\<forall>(x, q) \<in> set (db_queues (enqueue b o' h)). q \<noteq> []"
    using assms(1) by (fastforce simp: queue_shape_def)
  have inv: "bm_inv (db_queues (enqueue b o' h))"
    using assms(1) by (simp add: queue_shape_def enqueue_def Let_def bm_inv_insert)
  have "distinct (db_turns (enqueue b o' h))
      \<and> (\<forall>x. x \<in> set (db_turns (enqueue b o' h)) \<longleftrightarrow> queue_of (enqueue b o' h) x \<noteq> [])"
    using assms(1) by (auto simp: queue_of_enqueue) (auto simp: queue_shape_def enqueue_def Let_def split: if_splits)
  then show ?thesis
    using assms ne inv by (auto simp: queue_shape_def queue_of_enqueue)
qed

lemma enqueue_core:
  assumes core: "dialog_core L b"
    and rec: "\<And>r. the_record b h = Some r \<Longrightarrow> active_state (dr_state r)"
    and ok: "record_ok b L h r'" and st: "dr_state r' = DQueued" "dr_owner_service r' = o'"
  shows "dialog_core L (enqueue (put_record b h r') o' h)"
    "queue_of (enqueue (put_record b h r') o' h) = (queue_of b)(o' := queue_of b o' @ [h])"
    "queued_len (enqueue (put_record b h r') o' h) = Suc (queued_len b)"
    "active_len (enqueue (put_record b h r') o' h) \<le> active_len b"
proof -
  let ?p = "put_record b h r'"
  let ?b = "enqueue ?p o' h"
  have notq: "h \<notin> set (queue_of b x)" for x
    using core rec unfolding dialog_core_def queue_content_def by (metis queued_simps(2))
  show q: "queue_of ?b = (queue_of b)(o' := queue_of b o' @ [h])" by (simp add: queue_of_enqueue)
  show "queued_len ?b = Suc (queued_len b)"
    using core queued_len_enqueue [of ?p o' h] by (simp add: dialog_core_def queue_shape_def)
  show "active_len ?b \<le> active_len b"
    using active_len_put [OF core_bm_inv [OF core], of h r'] by (simp add: st)
  have look: "the_record ?b = (the_record b)(h \<mapsto> r')" by (simp add: bm_get_insert fun_eq_iff)
  have fr: "frame ?b = frame b" by simp
  note fd = frame_eqD [OF fr]
  have cong: "record_ok ?b L x y = record_ok b L x y" for x y by (simp add: record_ok_def fd)
  have "records_ok L ?b"
    unfolding records_ok_def look using core_bm_inv [OF core] core_record [OF core] ok
    by (auto simp: cong bm_inv_insert)
  moreover have "queue_shape ?b"
    using core notq by (intro enqueue_shape) (simp_all add: dialog_core_def queue_shape_def)
  moreover have "queue_content ?b"
  proof -
    have qc: "queue_content b" using core by (simp add: dialog_core_def)
    show ?thesis unfolding queue_content_def q look fd
    proof (intro conjI allI impI)
      fix x y assume "y \<in> set (((queue_of b)(o' := queue_of b o' @ [h])) x)"
      then consider "y = h" "x = o'" | "y \<in> set (queue_of b x)" by (auto split: if_splits)
      then show "\<exists>r. ((the_record b)(h \<mapsto> r')) y = Some r \<and> dr_state r = DQueued \<and> dr_owner_service r = x"
        using st qc notq [of x] unfolding queue_content_def by cases auto
    next
      fix y r assume "db_next_token b < u64_max" "((the_record b)(h \<mapsto> r')) y = Some r" "dr_state r = DQueued"
      then have "y = h \<and> r = r' \<or> y \<noteq> h \<and> y \<in> set (queue_of b (dr_owner_service r))"
        using qc unfolding queue_content_def by (metis fun_upd_apply option.inject)
      then show "y \<in> set (((queue_of b)(o' := queue_of b o' @ [h])) (dr_owner_service r))"
        using st by auto
    qed
  qed
  moreover have "terminals_ok ?b"
    using core rec st terminal_not_active unfolding dialog_core_def terminals_ok_def terminal_in_def look
    by (auto simp: fd split: if_splits)
  moreover have "control_ok ?b" using core by (simp add: dialog_core_def control_ok_def fd)
  ultimately show "dialog_core L ?b" by (simp add: dialog_core_def)
qed

text \<open>All that taking a turn relies on: every queue entry is a queued record of its origin.\<close>

definition queue_backed :: "dialog_broker \<Rightarrow> bool" where
  "queue_backed b \<longleftrightarrow> (\<forall>o' h. h \<in> set (queue_of b o') \<longrightarrow>
     (\<exists>r. the_record b h = Some r \<and> dr_state r = DQueued \<and> dr_owner_service r = o'))"

lemma core_backed: "dialog_core L b \<Longrightarrow> queue_shape b" "dialog_core L b \<Longrightarrow> queue_backed b"
  by (simp_all add: dialog_core_def queue_content_def queue_backed_def)

lemma dequeue_step:
  assumes shape: "queue_shape b" and qc: "queue_backed b"
  shows "db_turns b = [] \<Longrightarrow> dequeue_fair b = (Inr None, b)"
    and "db_turns b = o' # ts \<Longrightarrow> \<exists>h rest r b'. queue_of b o' = h # rest \<and> the_record b h = Some r
      \<and> dr_state r = DQueued \<and> dr_owner_service r = o' \<and> dequeue_fair b = (Inr (Some h), b')
      \<and> b' = b\<lparr>db_queues := db_queues b', db_turns := (if rest \<noteq> [] then ts @ [o'] else ts)\<rparr>
      \<and> queue_of b' = (queue_of b)(o' := rest) \<and> queue_shape b'"
proof -
  show "dequeue_fair b = (Inr None, b)" if "db_turns b = []"
    using that by (simp add: dequeue_fair_def)
  assume turns: "db_turns b = o' # ts"
  have "queue_of b o' \<noteq> []" using turns shape by (auto simp: queue_shape_def)
  then obtain h rest where q: "queue_of b o' = h # rest" by (cases "queue_of b o'") auto
  then obtain r where r: "the_record b h = Some r" "dr_state r = DQueued" "dr_owner_service r = o'"
    using qc unfolding queue_backed_def by (metis list.set_intros(1))
  define qs where "qs = (if rest \<noteq> [] then bm_insert o' rest (db_queues b) else bm_remove o' (db_queues b))"
  define b' where "b' = b\<lparr>db_queues := qs, db_turns := (if rest \<noteq> [] then ts @ [o'] else ts)\<rparr>"
  have "dequeue_fair b = (Inr (Some h), b')"
    using q r by (simp add: dequeue_fair_def turns get_queue [OF shape] b'_def qs_def Let_def)
  moreover have qb: "queue_of b' = (queue_of b)(o' := rest)"
  proof -
    have "queue_of b' = queue_of (b\<lparr>db_queues := qs\<rparr>)" by (rule queue_of_cong) (simp add: b'_def)
    then show ?thesis by (simp add: qs_def queue_of_insert queue_of_remove)
  qed
  moreover have "queue_shape b'"
  proof -
    have sub: "set qs \<subseteq> insert (o', rest) (set (db_queues b))" "rest = [] \<Longrightarrow> set qs \<subseteq> set (db_queues b)"
      using set_bm_insert [of o' rest "db_queues b"] set_bm_remove [of o' "db_queues b"] by (auto simp: qs_def)
    have "\<forall>(x, q) \<in> set qs. q \<noteq> []" using sub shape by (cases "rest = []") (fastforce simp: queue_shape_def)+
    moreover have "bm_inv qs" using shape by (simp add: qs_def queue_shape_def bm_inv_insert bm_inv_remove)
    moreover have "distinct rest" using shape q unfolding queue_shape_def by (metis distinct.simps(2))
    moreover have "o' \<notin> set ts" "distinct ts" "\<And>x. x \<noteq> o' \<Longrightarrow> x \<in> set ts \<longleftrightarrow> queue_of b x \<noteq> []"
      "\<And>x. distinct (queue_of b x)"
      using shape turns by (auto simp: queue_shape_def)
    ultimately show ?thesis
      unfolding queue_shape_def qb by (auto simp: b'_def)
  qed
  moreover have "b' = b\<lparr>db_queues := db_queues b', db_turns := (if rest \<noteq> [] then ts @ [o'] else ts)\<rparr>"
    by (simp add: b'_def)
  ultimately show "\<exists>h rest r b'. queue_of b o' = h # rest \<and> the_record b h = Some r
      \<and> dr_state r = DQueued \<and> dr_owner_service r = o' \<and> dequeue_fair b = (Inr (Some h), b')
      \<and> b' = b\<lparr>db_queues := db_queues b', db_turns := (if rest \<noteq> [] then ts @ [o'] else ts)\<rparr>
      \<and> queue_of b' = (queue_of b)(o' := rest) \<and> queue_shape b'"
    using q r by blast
qed

end
