(* ===== verification/Interact_DialogRequeue.thy ===== *)
theory Interact_DialogRequeue
  imports Interact_DialogInv
begin

text \<open>
  Requeueing of active dialogs: it always terminates, never panics, makes room in the queues and leaves every
  requeued dialog waiting or failed.
\<close>

section \<open>What no step may do to finished dialogs\<close>

text \<open>Terminal records never change except by eviction, and unknown handles stay unknown.\<close>

definition keeps :: "dialog_broker \<Rightarrow> dialog_broker \<Rightarrow> bool" where
  "keeps b b' \<longleftrightarrow> (\<forall>x. (the_record b x = None \<longrightarrow> the_record b' x = None)
     \<and> (\<forall>r. the_record b x = Some r \<longrightarrow> dialog_terminal (dr_state r) \<longrightarrow> the_record b' x \<in> {Some r, None}))"

lemma keeps_refl: "keeps b b"
  by (simp add: keeps_def)

lemma keeps_trans:
  assumes "keeps b b'" "keeps b' b''"
  shows "keeps b b''"
  unfolding keeps_def
proof (intro allI conjI impI)
  fix x assume "the_record b x = None"
  then show "the_record b'' x = None" using assms by (simp add: keeps_def)
next
  fix x r assume "the_record b x = Some r" "dialog_terminal (dr_state r)"
  then show "the_record b'' x \<in> {Some r, None}" using assms unfolding keeps_def by (metis insert_iff singletonD)
qed

lemma settles_keeps: "settles b b' \<Longrightarrow> keeps b b'"
  unfolding keeps_def
proof (intro allI conjI impI)
  fix x assume s: "settles b b'" and "the_record b x = None"
  then show "the_record b' x = None" by (rule settlesD(6))
next
  fix x r assume s: "settles b b'" and r: "the_record b x = Some r" "dialog_terminal (dr_state r)"
  show "the_record b' x \<in> {Some r, None}"
  proof (cases "the_record b' x")
    case (Some r')
    then show ?thesis using s r unfolding settles_def by force
  qed simp
qed

lemma keeps_put:
  "the_record b h = Some r \<Longrightarrow> \<not> dialog_terminal (dr_state r) \<Longrightarrow> keeps b (put_record b h r')"
  by (auto simp: keeps_def bm_get_insert)

lemma keeps_cong: "db_records b1 = db_records b2 \<Longrightarrow> keeps b b1 = keeps b b2"
  by (simp add: keeps_def)

text \<open>A live dialog other than the one that ends is untouched.\<close>

lemma transition_terminal_other:
  assumes "dialog_core L b" "the_record b x = Some r" "\<not> dialog_terminal (dr_state r)" "x \<noteq> h"
  shows "the_record (transition_terminal b h state v now cause) x = Some r"
proof (cases "\<exists>y. the_record b h = Some y \<and> \<not> dialog_terminal (dr_state y)")
  case False
  then have "transition_terminal b h state v now cause = b"
    by (auto simp: transition_terminal_def split: option.split)
  then show ?thesis using assms(2) by simp
next
  case True
  then obtain y where y: "the_record b h = Some y" "\<not> dialog_terminal (dr_state y)" by blast
  have "x \<notin> set (db_terminal_order b @ [h])"
    using assms by (auto simp: dialog_core_def terminals_ok_def terminal_in_def)
  then have "x \<notin> set (take n (db_terminal_order b @ [h]))" for n by (meson in_set_takeD)
  then show ?thesis
    unfolding transition_terminal_effect(4) [OF assms(1) y] restrict_map_def
    using assms(2,4) by (simp del: take_append)
qed

lemma fold_terminal_other:
  assumes "dialog_core L b" "the_record b x = Some r" "\<not> dialog_terminal (dr_state r)" "x \<notin> set hs"
    "dialog_terminal state" "state \<noteq> Resolved"
  shows "the_record (fold (\<lambda>h b. transition_terminal b h state None now cause) hs b) x = Some r"
  using assms(1,2,4)
proof (induction hs arbitrary: b)
  case (Cons h hs)
  let ?b = "transition_terminal b h state None now cause"
  have "dialog_core L ?b"
    using transition_terminal_core [OF Cons.prems(1), of h state None now cause] assms(5,6) by (simp add: value_ok_def)
  moreover have "the_record ?b x = Some r"
    using Cons.prems assms(3) by (intro transition_terminal_other) auto
  ultimately show ?case using Cons.IH Cons.prems(3) by (simp add: fold_simps)
qed simp

section \<open>Which handles are requeued\<close>

lemma dedup_distinct: "distinct (map snd xs) \<Longrightarrow> dedup_handles xs = xs"
  by (induction xs rule: dedup_handles.induct) auto

lemma requeue_order_props:
  assumes "distinct hs"
  shows "distinct (requeue_order b hs)"
    "set (requeue_order b hs) = {h \<in> set hs. \<exists>r. the_record b h = Some r \<and> \<not> dialog_terminal (dr_state r)}"
proof -
  define f where "f h = (case the_record b h of
      None \<Rightarrow> None
    | Some r \<Rightarrow> if dialog_terminal (dr_state r) then None else Some (dr_created_at_ms r, h))" for h
  let ?xs = "List.map_filter f hs"
  have snd: "snd y = h" if "f h = Some y" for h y
    using that by (auto simp: f_def split: option.splits if_splits)
  have d: "distinct (map snd ?xs)"
    using assms
  proof (induction hs)
    case (Cons h hs)
    have "h \<notin> snd ` set (List.map_filter f hs)" using Cons.prems snd by (force simp: in_map_filter)
    then show ?case using Cons snd by (auto simp: map_filter_simps split: option.split)
  qed (simp add: map_filter_simps)
  then have ds: "distinct (map snd (sort_by created_cmp ?xs))" by (simp add: distinct_map)
  have eq: "requeue_order b hs = map snd (sort_by created_cmp ?xs)"
    using dedup_distinct [OF ds] by (simp add: requeue_order_def f_def [abs_def])
  show "distinct (requeue_order b hs)" using ds eq by simp
  show "set (requeue_order b hs) = {h \<in> set hs. \<exists>r. the_record b h = Some r \<and> \<not> dialog_terminal (dr_state r)}"
    unfolding eq by (force simp: in_map_filter f_def split: option.splits if_splits)
qed

section \<open>Closing the attempts\<close>

text \<open>The state between closing and readmission: active, no attempt.\<close>

definition parked :: "dialog_broker \<Rightarrow> interaction_handle \<Rightarrow> bool" where
  "parked b h \<longleftrightarrow> (\<exists>r. the_record b h = Some r \<and> active_state (dr_state r))"

lemma parked_live: "parked b h \<Longrightarrow> the_record b h = Some r \<Longrightarrow> active_state (dr_state r) \<and> \<not> dialog_terminal (dr_state r)"
  using terminal_not_active by (auto simp: parked_def)

lemma charge_core:
  assumes "dialog_core L b" "\<And>h. h \<in> set hs \<Longrightarrow> parked b h" "distinct hs"
  shows "\<exists>el qu b'. charge_requeues b hs = Inr (el, qu, b') \<and> dialog_core (L \<union> set hs) b' \<and> keeps b b'
     \<and> queue_of b' = queue_of b \<and> queued_len b' = queued_len b \<and> active_len b' = active_len b \<and> frame b' = frame b
     \<and> set el \<union> set qu = set hs \<and> distinct el \<and> set el \<inter> set qu = {}
     \<and> length (db_records b') = length (db_records b)
     \<and> (\<forall>h. parked b' h \<longleftrightarrow> parked b h)
     \<and> (\<forall>h. h \<notin> set hs \<longrightarrow> the_record b' h = the_record b h)"
  using assms
proof (induction hs arbitrary: L b)
  case Nil
  then show ?case by (simp add: keeps_refl)
next
  case (Cons h hs)
  obtain r where r: "the_record b h = Some r" "active_state (dr_state r)" "\<not> dialog_terminal (dr_state r)"
    using Cons.prems(2) [of h] parked_live by (auto simp: parked_def)
  have ok: "record_ok b L h r" by (rule core_record [OF Cons.prems(1) r(1)])
  define poison where "poison \<longleftrightarrow> \<not> dr_ever_presented r \<and> dr_requeues r \<ge> MAX_DIALOG_PRE_DISPLAY_REQUEUES"
  define r' where "r' = (if poison then r\<lparr>dr_attempt := None\<rparr>
      else r\<lparr>dr_attempt := None, dr_requeues := (if dr_ever_presented r then dr_requeues r else dr_requeues r + 1)\<rparr>)"
  have r': "dr_state r' = dr_state r" "dr_owner_service r' = dr_owner_service r" by (auto simp: r'_def)
  have ok': "record_ok b (insert h L) h r'"
    using ok by (auto simp: record_ok_def r'_def poison_def split: option.splits)
  let ?b = "put_record b h r'"
  have core: "dialog_core (insert h L) ?b"
    by (rule put_record_core [OF Cons.prems(1) r(1) ok']) (use r r' in auto)
  have park: "parked ?b x \<longleftrightarrow> parked b x" for x using r r' by (auto simp: parked_def bm_get_insert)
  have act: "active_len ?b = active_len b"
    using active_len_put [OF core_bm_inv [OF Cons.prems(1)], of h r'] r r' by simp
  have len: "length (db_records ?b) = length (db_records b)"
    using length_bm_insert [OF core_bm_inv [OF Cons.prems(1)]] r by simp
  obtain el qu b' where ih: "charge_requeues ?b hs = Inr (el, qu, b')" "dialog_core (insert h L \<union> set hs) b'" "keeps ?b b'"
     "queue_of b' = queue_of ?b" "queued_len b' = queued_len ?b" "active_len b' = active_len ?b" "frame b' = frame ?b"
     "set el \<union> set qu = set hs" "distinct el" "set el \<inter> set qu = {}" "length (db_records b') = length (db_records ?b)"
     "\<forall>x. parked b' x \<longleftrightarrow> parked ?b x" "\<forall>x. x \<notin> set hs \<longrightarrow> the_record b' x = the_record ?b x"
    using Cons.IH [OF core] park Cons.prems(2,3) by auto
  have other: "\<forall>x. x \<notin> set (h # hs) \<longrightarrow> the_record b' x = the_record b x"
    using ih(13) by (auto simp: bm_get_insert)
  have keep: "keeps b b'" using keeps_trans [OF keeps_put [OF r(1,3)] ih(3)] .
  have nin: "h \<notin> set el \<union> set qu" using ih(8) Cons.prems(3) by simp
  have run: "charge_requeues b (h # hs) = (if poison then Inr (el, h # qu, b') else Inr (h # el, qu, b'))"
    using ih(1) r(1) unfolding r'_def by (auto simp: poison_def)
  have common: "dialog_core (L \<union> set (h # hs)) b'" "queue_of b' = queue_of b" "queued_len b' = queued_len b"
    "active_len b' = active_len b" "frame b' = frame b" "length (db_records b') = length (db_records b)"
    "\<forall>x. parked b' x \<longleftrightarrow> parked b x"
    using ih(2,4-7,11,12) act len park by auto
  show ?case
  proof (cases poison)
    case True
    then show ?thesis
      using run common keep other ih(8-10) nin by (intro exI [of _ el] exI [of _ "h # qu"] exI [of _ b']) auto
  next
    case False
    then show ?thesis
      using run common keep other ih(8-10) nin by (intro exI [of _ "h # el"] exI [of _ qu] exI [of _ b']) auto
  qed
qed


section \<open>Counting per origin\<close>

definition owner_is :: "dialog_broker \<Rightarrow> string \<Rightarrow> interaction_handle \<Rightarrow> bool" where
  "owner_is b o' h \<longleftrightarrow> (\<exists>r. the_record b h = Some r \<and> dr_owner_service r = o')"

definition count_of :: "dialog_broker \<Rightarrow> string \<Rightarrow> interaction_handle list \<Rightarrow> nat" where
  "count_of b o' hs = length (filter (owner_is b o') hs)"

abbreviation origin_tally :: "(string, nat) bmap \<Rightarrow> string \<Rightarrow> nat" where
  "origin_tally m o' \<equiv> (case bm_get m o' of None \<Rightarrow> 0 | Some n \<Rightarrow> n)"

lemma count_origins_ok:
  assumes "bm_inv m" "\<And>h. h \<in> set hs \<Longrightarrow> the_record b h \<noteq> None"
  shows "\<exists>m'. count_origins b m hs = Inr m' \<and> bm_inv m'
    \<and> (\<forall>o'. origin_tally m' o' = origin_tally m o' + count_of b o' hs)"
  using assms
proof (induction hs arbitrary: m)
  case Nil
  then show ?case by (simp add: count_of_def)
next
  case (Cons h hs)
  obtain r where r: "the_record b h = Some r" using Cons.prems(2) [of h] by auto
  let ?o = "dr_owner_service r"
  let ?m = "bm_insert ?o (origin_tally m ?o + 1) m"
  obtain m' where "count_origins b ?m hs = Inr m'" "bm_inv m'" "\<forall>o'. origin_tally m' o' = origin_tally ?m o' + count_of b o' hs"
    using Cons.IH [of ?m] Cons.prems by (auto simp: bm_inv_insert)
  then show ?case
    using r by (auto simp: Let_def bm_get_insert count_of_def owner_is_def)
qed

section \<open>Making room\<close>

definition waiting :: "dialog_broker \<Rightarrow> interaction_handle set" where
  "waiting b = {h. in_state b h DQueued}"

lemma waiting_finite:
  assumes "bm_inv (db_records b)"
  shows "finite (waiting b)" "card (waiting b) \<le> length (db_records b)"
proof -
  have sub: "waiting b \<subseteq> dom (the_record b)" by (auto simp: waiting_def in_state_def)
  note size = bm.size_lookup [OF assms]
  show "finite (waiting b)" using sub size finite_subset by blast
  show "card (waiting b) \<le> length (db_records b)" using card_mono [OF _ sub] size by simp
qed

lemma min_record_Some: "min_record rs = Some r \<Longrightarrow> r \<in> set rs"
  by (induction rs arbitrary: r) (auto split: option.splits if_splits)

lemma min_record_None [simp]: "min_record rs = None \<longleftrightarrow> rs = []"
  by (cases rs) (auto split: option.splits)

lemma records_values:
  assumes "dialog_core L b"
  shows "r \<in> set (map snd (db_records b)) \<longleftrightarrow> the_record b (dr_handle r) = Some r"
proof -
  have inv: "bm_inv (db_records b)" by (rule core_bm_inv [OF assms])
  have h: "dr_handle y = x" if "the_record b x = Some y" for x y
    using core_record [OF assms that] by (simp add: record_ok_def)
  show ?thesis
  proof
    assume "r \<in> set (map snd (db_records b))"
    then obtain x where "(x, r) \<in> set (db_records b)" by force
    then have "the_record b x = Some r" using bm_get_Some_iff [OF inv] by blast
    then show "the_record b (dr_handle r) = Some r" using h by simp
  qed (metis bm_get_in image_eqI set_map snd_conv)
qed

lemma oldest_queued_Some:
  assumes "dialog_core L b" "oldest_queued b origin = Some c"
  shows "\<exists>r. the_record b c = Some r \<and> dr_state r = DQueued \<and> (\<forall>v. origin = Some v \<longrightarrow> dr_owner_service r = v)"
proof -
  let ?P = "\<lambda>r. dr_state r = DQueued \<and> (case origin of None \<Rightarrow> True | Some v \<Rightarrow> dr_owner_service r = v)"
  obtain r where "min_record (filter ?P (map snd (db_records b))) = Some r" and c: "c = dr_handle r"
    using assms(2) unfolding oldest_queued_def by auto
  from min_record_Some [OF this(1)] have "r \<in> set (map snd (db_records b))" "?P r" by auto
  then show ?thesis using records_values [OF assms(1)] c by (auto split: option.splits)
qed

lemma oldest_queued_None:
  assumes "dialog_core L b" "oldest_queued b origin = None" "the_record b h = Some r" "dr_state r = DQueued"
  shows "\<exists>v. origin = Some v \<and> dr_owner_service r \<noteq> v"
proof -
  have "r \<in> set (map snd (db_records b))"
    using assms(3) core_record [OF assms(1,3)] records_values [OF assms(1)] by (simp add: record_ok_def)
  then show ?thesis
    using assms(2,4) by (auto simp: oldest_queued_def filter_empty_conv split: option.splits)
qed

text \<open>Failing a waiting dialog: one fewer waits, everything that is live otherwise is untouched.\<close>

definition fails_waiting :: "interaction_handle set \<Rightarrow> dialog_broker \<Rightarrow> dialog_broker \<Rightarrow> bool" where
  "fails_waiting L b b' \<longleftrightarrow> dialog_core L b' \<and> settles b b'
     \<and> (\<forall>x r. the_record b x = Some r \<longrightarrow> \<not> dialog_terminal (dr_state r) \<longrightarrow> dr_state r \<noteq> DQueued \<longrightarrow> the_record b' x = Some r)"

lemma fails_waiting_refl: "dialog_core L b \<Longrightarrow> fails_waiting L b b"
  by (simp add: fails_waiting_def settles_refl)

lemma fails_waiting_trans: "fails_waiting L b b' \<Longrightarrow> fails_waiting L b' b'' \<Longrightarrow> fails_waiting L b b''"
  unfolding fails_waiting_def using settles_trans by blast

lemma fail_one:
  fixes b :: dialog_broker and now :: nat and cause :: transition_cause
  assumes "dialog_core L b" "the_record b c = Some r" "dr_state r = DQueued"
  defines "b' \<equiv> transition_terminal b c DFailed None now cause"
  shows "fails_waiting L b b'" "card (waiting b) = Suc (card (waiting b'))"
proof -
  have core: "dialog_core L b'" "settles b b'" and c: "\<forall>r'. the_record b' c = Some r' \<longrightarrow> dialog_terminal (dr_state r')"
    using transition_terminal_core [OF assms(1), of c DFailed None now cause] by (auto simp: b'_def value_ok_def)
  show "fails_waiting L b b'"
    using core transition_terminal_other [OF assms(1)] assms(2,3) unfolding fails_waiting_def b'_def by force
  have w: "waiting b' = waiting b - {c}"
  proof (intro set_eqI iffI)
    fix x assume "x \<in> waiting b'"
    then obtain y where y: "the_record b' x = Some y" "dr_state y = DQueued" by (auto simp: waiting_def in_state_def)
    then have "the_record b x = Some y" using core(2) unfolding settles_def by force
    then show "x \<in> waiting b - {c}" using y c by (auto simp: waiting_def in_state_def)
  next
    fix x assume x: "x \<in> waiting b - {c}"
    then obtain y where y: "the_record b x = Some y" "dr_state y = DQueued" by (auto simp: waiting_def in_state_def)
    then have "the_record b' x = Some y"
      unfolding b'_def using x by (intro transition_terminal_other [OF assms(1)]) auto
    then show "x \<in> waiting b'" using y(2) by (auto simp: waiting_def in_state_def)
  qed
  moreover have "c \<in> waiting b" using assms(2,3) by (auto simp: waiting_def in_state_def)
  ultimately show "card (waiting b) = Suc (card (waiting b'))"
    using card.remove [OF waiting_finite(1) [OF core_bm_inv [OF assms(1)]], of c] by (simp only: )
qed

lemma queue_waiting:
  assumes "dialog_core L b" "h \<in> set (queue_of b o')"
  shows "\<exists>r. the_record b h = Some r \<and> dr_state r = DQueued \<and> dr_owner_service r = o'" "h \<in> waiting b"
  using assms unfolding dialog_core_def queue_content_def waiting_def in_state_def by blast+

lemma waiting_pos: "dialog_core L b \<Longrightarrow> h \<in> waiting b \<Longrightarrow> 0 < card (waiting b)"
  using waiting_finite(1) [OF core_bm_inv] by (auto simp: card_gt_0_iff)

lemma fail_all_queued_ok:
  assumes "dialog_core L b" "card (waiting b) \<le> n"
  shows "\<exists>b'. fail_all_queued n b now cause = Inr b' \<and> fails_waiting L b b' \<and> (\<forall>o'. queue_of b' o' = [])"
  using assms
proof (induction n arbitrary: b)
  case 0
  have "waiting b = {}" using 0 waiting_finite(1) [OF core_bm_inv [OF 0(1)]] by simp
  then have none: "oldest_queued b None = None"
    using oldest_queued_Some [OF 0(1), of None] by (cases "oldest_queued b None") (auto simp: waiting_def in_state_def)
  have "queue_of b o' = []" for o'
    using queue_waiting(2) [OF 0(1)] \<open>waiting b = {}\<close> by (metis empty_iff list.set_sel(1))
  then show ?case using none fails_waiting_refl [OF 0(1)] by simp
next
  case (Suc n)
  show ?case
  proof (cases "oldest_queued b None")
    case None
    have "queue_of b o' = []" for o'
      using queue_waiting(1) [OF Suc.prems(1)] oldest_queued_None [OF Suc.prems(1) None]
      by (metis list.set_sel(1) option.distinct(1))
    then show ?thesis using None fails_waiting_refl [OF Suc.prems(1)] by simp
  next
    case (Some c)
    obtain r where r: "the_record b c = Some r" "dr_state r = DQueued"
      using oldest_queued_Some [OF Suc.prems(1) Some] by blast
    let ?b = "transition_terminal b c DFailed None now cause"
    note f = fail_one [OF Suc.prems(1) r, of now cause]
    obtain b' where "fail_all_queued n ?b now cause = Inr b'" "fails_waiting L ?b b'" "\<forall>o'. queue_of b' o' = []"
      using Suc.IH [of ?b] f Suc.prems(2) by (auto simp: fails_waiting_def)
    then show ?thesis using Some f(1) fails_waiting_trans by auto
  qed
qed

lemma sat_gt: "mx < u64_max \<Longrightarrow> saturating_add a c > mx \<longleftrightarrow> a + c > mx"
  by (auto simp: saturating_add_def)

lemma core_limits: "dialog_core L b \<Longrightarrow> ql_total (db_limits b) < u64_max \<and> ql_per_origin (db_limits b) < u64_max"
  by (simp add: dialog_core_def control_ok_def)

lemma trim_origin_ok:
  assumes "dialog_core L b" "card (waiting b) \<le> n" "protected \<le> ql_per_origin (db_limits b)"
  shows "\<exists>b'. trim_origin n b o' protected now cause = Inr b' \<and> fails_waiting L b b'
    \<and> length (queue_of b' o') + protected \<le> ql_per_origin (db_limits b)"
  using assms
proof (induction n arbitrary: b)
  case 0
  have "queue_of b o' = []"
    using queue_waiting(2) [OF 0(1)] waiting_pos [OF 0(1)] 0(2) by (metis le_zero_eq list.set_sel(1) not_less0)
  then show ?case
    using 0 core_limits [OF 0(1)] fails_waiting_refl [OF 0(1)] by (simp add: trim_origin.simps sat_gt)
next
  case (Suc n)
  note lim = sat_gt [OF conjunct2 [OF core_limits [OF Suc.prems(1)]]]
  show ?case
  proof (cases "length (queue_of b o') + protected > ql_per_origin (db_limits b)")
    case False
    then show ?thesis
      using fails_waiting_refl [OF Suc.prems(1)] by (simp add: trim_origin.simps lim)
  next
    case True
    then obtain h where h: "h \<in> set (queue_of b o')"
      using Suc.prems(3) by (cases "queue_of b o'") auto
    obtain c where c: "oldest_queued b (Some o') = Some c"
      using queue_waiting(1) [OF Suc.prems(1) h] oldest_queued_None [OF Suc.prems(1), of "Some o'"]
      by (cases "oldest_queued b (Some o')") auto
    obtain r where r: "the_record b c = Some r" "dr_state r = DQueued"
      using oldest_queued_Some [OF Suc.prems(1) c] by blast
    let ?b = "transition_terminal b c DFailed None now cause"
    note f = fail_one [OF Suc.prems(1) r, of now cause]
    have lim': "db_limits ?b = db_limits b" using f(1) settlesD(2) by (auto simp: fails_waiting_def)
    obtain b' where "trim_origin n ?b o' protected now cause = Inr b'" "fails_waiting L ?b b'"
      "length (queue_of b' o') + protected \<le> ql_per_origin (db_limits b)"
      using Suc.IH [of ?b] f Suc.prems(2,3) lim' by (auto simp: fails_waiting_def)
    then show ?thesis
      using c True f(1) fails_waiting_trans by (subst trim_origin.simps) (auto simp: lim)
  qed
qed

lemma trim_origins_ok:
  assumes "dialog_core L b" "\<And>o' n. bm_get m o' = Some n \<Longrightarrow> n \<le> ql_per_origin (db_limits b)"
  shows "\<exists>b'. trim_origins b m os now cause = Inr b' \<and> fails_waiting L b b'
    \<and> (\<forall>o' n. o' \<in> set os \<longrightarrow> bm_get m o' = Some n \<longrightarrow> length (queue_of b' o') + n \<le> ql_per_origin (db_limits b))"
  using assms
proof (induction os arbitrary: b)
  case Nil
  then show ?case by (simp add: fails_waiting_refl)
next
  case (Cons x os)
  show ?case
  proof (cases "bm_get m x")
    case None
    then show ?thesis using Cons.IH [OF Cons.prems] by auto
  next
    case (Some n)
    have w: "card (waiting b) \<le> Suc (length (db_records b))"
      using waiting_finite(2) [OF core_bm_inv [OF Cons.prems(1)]] by simp
    obtain b1 where b1: "trim_origin (Suc (length (db_records b))) b x n now cause = Inr b1" "fails_waiting L b b1"
      "length (queue_of b1 x) + n \<le> ql_per_origin (db_limits b)"
      using trim_origin_ok [OF Cons.prems(1) w] Cons.prems(2) [OF Some] by blast
    have lim: "db_limits b1 = db_limits b" using b1(2) settlesD(2) by (auto simp: fails_waiting_def)
    obtain b2 where b2: "trim_origins b1 m os now cause = Inr b2" "fails_waiting L b1 b2"
      "\<forall>o' n. o' \<in> set os \<longrightarrow> bm_get m o' = Some n \<longrightarrow> length (queue_of b2 o') + n \<le> ql_per_origin (db_limits b)"
      using Cons.IH [of b1] Cons.prems(2) b1(2) unfolding lim fails_waiting_def by blast
    have "length (queue_of b2 x) \<le> length (queue_of b1 x)"
      using b2(2) settlesD(4) by (auto simp: fails_waiting_def)
    then show ?thesis
      using Some b1 b2 fails_waiting_trans by (intro exI [of _ b2]) (auto intro: le_trans)
  qed
qed

lemma trim_total_ok:
  assumes "dialog_core L b" "card (waiting b) \<le> n" "protected \<le> ql_total (db_limits b)"
  shows "\<exists>b'. trim_total n b protected now cause = Inr b' \<and> fails_waiting L b b'
    \<and> queued_len b' + protected \<le> ql_total (db_limits b)"
  using assms
proof (induction n arbitrary: b)
  case 0
  have "queue_of b o' = []" for o'
    using queue_waiting(2) [OF 0(1)] waiting_pos [OF 0(1)] 0(2) by (metis le_zero_eq list.set_sel(1) not_less0)
  then have "queued_len b = 0"
    using 0(1) queued_len_set [of b] by (simp add: dialog_core_def queue_shape_def)
  then show ?case
    using 0 core_limits [OF 0(1)] fails_waiting_refl [OF 0(1)] by (simp add: trim_total.simps sat_gt)
next
  case (Suc n)
  note lim = sat_gt [OF conjunct1 [OF core_limits [OF Suc.prems(1)]]]
  show ?case
  proof (cases "queued_len b + protected > ql_total (db_limits b)")
    case False
    then show ?thesis
      using fails_waiting_refl [OF Suc.prems(1)] by (simp add: trim_total.simps lim)
  next
    case True
    then have "queued_len b \<noteq> 0" using Suc.prems(3) by linarith
    moreover have "queued_len b = (\<Sum>o'\<in>fst ` set (db_queues b). length (queue_of b o'))"
      using Suc.prems(1) by (intro queued_len_set) (simp add: dialog_core_def queue_shape_def)
    ultimately obtain o' where "queue_of b o' \<noteq> []" by force
    then have "hd (queue_of b o') \<in> set (queue_of b o')" by simp
    from queue_waiting(1) [OF Suc.prems(1) this] obtain c where c: "oldest_queued b None = Some c"
      using oldest_queued_None [OF Suc.prems(1), of None] by (cases "oldest_queued b None") auto
    obtain r where r: "the_record b c = Some r" "dr_state r = DQueued"
      using oldest_queued_Some [OF Suc.prems(1) c] by blast
    let ?b = "transition_terminal b c DFailed None now cause"
    note f = fail_one [OF Suc.prems(1) r, of now cause]
    have lim': "db_limits ?b = db_limits b" using f(1) settlesD(2) by (auto simp: fails_waiting_def)
    obtain b' where "trim_total n ?b protected now cause = Inr b'" "fails_waiting L ?b b'"
      "queued_len b' + protected \<le> ql_total (db_limits b)"
      using Suc.IH [of ?b] f Suc.prems(2,3) lim' by (auto simp: fails_waiting_def)
    then show ?thesis
      using c True f(1) fails_waiting_trans by (subst trim_total.simps) (auto simp: lim)
  qed
qed


text \<open>Either every queue has been emptied or there is room for all that is to be readmitted.\<close>

definition room_for :: "dialog_broker \<Rightarrow> interaction_handle list \<Rightarrow> nat \<Rightarrow> (string, nat) bmap \<Rightarrow> bool" where
  "room_for b hs accepted m \<longleftrightarrow>
     (queued_len b + length hs \<le> ql_total (db_limits b)
       \<or> queued_len b \<le> accepted \<and> accepted \<le> ql_total (db_limits b))
     \<and> (\<forall>o'. length (queue_of b o') + count_of b o' hs \<le> ql_per_origin (db_limits b)
       \<or> length (queue_of b o') \<le> origin_tally m o' \<and> origin_tally m o' \<le> ql_per_origin (db_limits b))"

lemma make_queue_room_ok:
  assumes core: "dialog_core L b" and bound: "queue_bounded b" and ord: "is_order ho"
    and m: "count_origins b [] hs = Inr m" and hs: "\<And>h. h \<in> set hs \<Longrightarrow> parked b h"
  shows "\<exists>b'. make_queue_room ho b (length hs) m now cause = Inr b' \<and> fails_waiting L b b' \<and> room_for b' hs 0 []"
proof -
  have m': "bm_inv m" "\<And>o'. origin_tally m o' = count_of b o' hs"
    using count_origins_ok [of "[]" hs b] hs m by (auto simp: parked_def bm_inv_def bm_get_def)
  have cnt: "count_of b' o' hs = count_of b o' hs" if "fails_waiting L b b'" for b' o'
  proof -
    have "owner_is b' o' h = owner_is b o' h" if hin: "h \<in> set hs" for h
    proof -
      obtain r where r: "the_record b h = Some r" "active_state (dr_state r)" using hs [OF hin] by (auto simp: parked_def)
      then have "the_record b' h = Some r"
        using \<open>fails_waiting L b b'\<close> terminal_not_active unfolding fails_waiting_def
        by (metis queued_simps(2))
      then show ?thesis using r by (simp add: owner_is_def)
    qed
    then show ?thesis unfolding count_of_def by (simp cong: filter_cong)
  qed
  have w: "card (waiting b) \<le> length (db_records b)" by (rule waiting_finite(2) [OF core_bm_inv [OF core]])
  show ?thesis
  proof (cases "over_capacity b (length hs) m")
    case True
    obtain b' where b': "fail_all_queued (length (db_records b)) b now cause = Inr b'" "fails_waiting L b b'"
      "\<forall>o'. queue_of b' o' = []"
      using fail_all_queued_ok [OF core w] by blast
    have "queued_len b' = 0"
      using b'(2,3) queued_len_set [of b'] by (simp add: fails_waiting_def dialog_core_def queue_shape_def)
    then have "room_for b' hs 0 []" using b'(3) by (simp add: room_for_def bm_get_def)
    then show ?thesis using True b' by (simp add: make_queue_room_def)
  next
    case False
    then have len: "length hs \<le> ql_total (db_limits b)" by (simp add: over_capacity_def)
    have per: "n \<le> ql_per_origin (db_limits b)" if "bm_get m o' = Some n" for o' n
      using False bm_get_in [OF that] unfolding over_capacity_def by (auto simp: not_less)
    obtain b1 where b1: "trim_origins b m (ho (map fst m)) now cause = Inr b1" "fails_waiting L b b1"
      "\<forall>o' n. o' \<in> set (ho (map fst m)) \<longrightarrow> bm_get m o' = Some n \<longrightarrow> length (queue_of b1 o') + n \<le> ql_per_origin (db_limits b)"
      using trim_origins_ok [OF core, of m "ho (map fst m)" now cause] per by blast
    have core1: "dialog_core L b1" and lim1: "db_limits b1 = db_limits b"
      using b1(2) settlesD(2) by (auto simp: fails_waiting_def)
    have w1: "card (waiting b1) \<le> Suc (length (db_records b1))"
      using waiting_finite(2) [OF core_bm_inv [OF core1]] by simp
    obtain b2 where b2: "trim_total (Suc (length (db_records b1))) b1 (length hs) now cause = Inr b2"
      "fails_waiting L b1 b2" "queued_len b2 + length hs \<le> ql_total (db_limits b)"
      using trim_total_ok [OF core1 w1, of "length hs"] len lim1 by auto
    have f: "fails_waiting L b b2" using b1(2) b2(2) by (rule fails_waiting_trans)
    have lim2: "db_limits b2 = db_limits b" using f settlesD(2) by (auto simp: fails_waiting_def)
    have keys: "o' \<in> set (ho (map fst m))" if "bm_get m o' = Some n" for o' n
    proof -
      have "o' \<in> set (map fst m)" using bm_get_in [OF that] by force
      then show ?thesis using ord bm_inv_distinct [OF m'(1)] unfolding is_order_def by blast
    qed
    have "length (queue_of b2 o') + count_of b2 o' hs \<le> ql_per_origin (db_limits b)" for o'
    proof -
      have le: "length (queue_of b2 o') \<le> length (queue_of b1 o')" "length (queue_of b2 o') \<le> length (queue_of b o')"
        using b2(2) f settlesD(4) by (auto simp: fails_waiting_def)
      show ?thesis
      proof (cases "bm_get m o'")
        case None
        then have "count_of b2 o' hs = 0" using m'(2) [of o'] cnt [OF f] by simp
        then show ?thesis using le(2) bound by (simp add: queue_bounded_def) (meson le_trans)
      next
        case (Some n)
        then have "count_of b2 o' hs = n" using m'(2) [of o'] cnt [OF f] by simp
        then show ?thesis using b1(3) keys [OF Some] Some le(1) by (meson add_le_mono1 le_trans)
      qed
    qed
    then have "room_for b2 hs 0 []" using b2(3) by (simp add: room_for_def lim2)
    then show ?thesis using False b1(1) b2(1) f by (simp add: make_queue_room_def)
  qed
qed


section \<open>Readmission\<close>

text \<open>What readmission leaves of the records outside the list.\<close>

definition readmits :: "interaction_handle set \<Rightarrow> dialog_broker \<Rightarrow> dialog_broker \<Rightarrow> bool" where
  "readmits H b b' \<longleftrightarrow> keeps b b' \<and> frame b' = frame b \<and> active_len b' \<le> active_len b
     \<and> (\<forall>h\<in>H. \<not> parked b' h)
     \<and> (\<forall>x r. x \<notin> H \<longrightarrow> the_record b x = Some r \<longrightarrow> \<not> dialog_terminal (dr_state r) \<longrightarrow> the_record b' x = Some r)"

lemma settles_parked: "settles b b' \<Longrightarrow> parked b' h \<Longrightarrow> parked b h"
  unfolding settles_def parked_def using terminal_not_active by metis

lemma count_of_Cons: "count_of b o' (h # hs) = (if owner_is b o' h then 1 else 0) + count_of b o' hs"
  by (simp add: count_of_def)

lemma readmits_insert:
  assumes "readmits {h} b b1" "readmits H b1 b'" "h \<notin> H"
  shows "readmits (insert h H) b b'"
proof -
  have "\<not> parked b' h"
  proof
    assume "parked b' h"
    then obtain y where y: "the_record b' h = Some y" "active_state (dr_state y)" by (auto simp: parked_def)
    then obtain z where z: "the_record b1 h = Some z"
      using assms(2) unfolding readmits_def keeps_def by (cases "the_record b1 h") auto
    have "z = y"
      using assms(2,3) y z unfolding readmits_def keeps_def
      by (cases "dialog_terminal (dr_state z)") fastforce+
    then show False using assms(1) y z by (auto simp: readmits_def parked_def)
  qed
  then show ?thesis
    using assms(1,2) keeps_trans [of b b1 b'] unfolding readmits_def by (auto intro: le_trans)
qed

lemma room_for_Cons:
  assumes "room_for b (h # hs) accepted m" "the_record b h = Some r"
  shows "Suc (queued_len b + length hs) \<le> ql_total (db_limits b)
      \<or> queued_len b \<le> accepted \<and> accepted \<le> ql_total (db_limits b)"
    "length (queue_of b o') + count_of b o' hs \<le> ql_per_origin (db_limits b)
      \<or> length (queue_of b o') \<le> origin_tally m o' \<and> origin_tally m o' \<le> ql_per_origin (db_limits b)"
    "Suc (length (queue_of b (dr_owner_service r)) + count_of b (dr_owner_service r) hs) \<le> ql_per_origin (db_limits b)
      \<or> length (queue_of b (dr_owner_service r)) \<le> origin_tally m (dr_owner_service r)
        \<and> origin_tally m (dr_owner_service r) \<le> ql_per_origin (db_limits b)"
proof -
  have per: "length (queue_of b x) + count_of b x (h # hs) \<le> ql_per_origin (db_limits b)
      \<or> length (queue_of b x) \<le> origin_tally m x \<and> origin_tally m x \<le> ql_per_origin (db_limits b)" for x
    using assms(1) unfolding room_for_def by blast
  show "Suc (queued_len b + length hs) \<le> ql_total (db_limits b)
      \<or> queued_len b \<le> accepted \<and> accepted \<le> ql_total (db_limits b)"
    using assms(1) by (simp add: room_for_def)
  show "length (queue_of b o') + count_of b o' hs \<le> ql_per_origin (db_limits b)
      \<or> length (queue_of b o') \<le> origin_tally m o' \<and> origin_tally m o' \<le> ql_per_origin (db_limits b)"
    using per [of o'] unfolding count_of_Cons by linarith
  have "owner_is b (dr_owner_service r) h" using assms(2) by (simp add: owner_is_def)
  then show "Suc (length (queue_of b (dr_owner_service r)) + count_of b (dr_owner_service r) hs) \<le> ql_per_origin (db_limits b)
      \<or> length (queue_of b (dr_owner_service r)) \<le> origin_tally m (dr_owner_service r)
        \<and> origin_tally m (dr_owner_service r) \<le> ql_per_origin (db_limits b)"
    using per [of "dr_owner_service r"] unfolding count_of_Cons by auto
qed

lemma readmit_accept:
  fixes b :: dialog_broker and now :: nat and cause :: transition_cause
  assumes core: "dialog_core L b" and r: "the_record b h = Some r" "active_state (dr_state r)" and hL: "h \<in> L"
    and bnd: "queue_bounded b" and room: "room_for b (h # hs) accepted m"
    and free: "accepted < ql_total (db_limits b)" "origin_tally m (dr_owner_service r) < ql_per_origin (db_limits b)"
  defines "o' \<equiv> dr_owner_service r"
  defines "b1 \<equiv> record_transition (enqueue (put_record b h (r\<lparr>dr_state := DQueued\<rparr>)) o' h) h
     (Some (dr_state r)) (Some DQueued) cause"
  shows "dialog_core L b1" "queue_bounded b1" "room_for b1 hs (accepted + 1) (bm_insert o' (origin_tally m o' + 1) m)"
    "readmits {h} b b1"
proof -
  let ?r = "r\<lparr>dr_state := DQueued\<rparr>" and ?lim = "db_limits b"
  have rok: "record_ok b L h ?r"
    using core_record [OF core r(1)] r(2) hL terminal_not_active by (auto simp: record_ok_def split: option.splits)
  have act: "\<And>r. the_record b h = Some r \<Longrightarrow> active_state (dr_state r)" using r by simp
  note e = enqueue_core [OF core act rok, of o']
  show "dialog_core L b1" unfolding b1_def by (rule record_transition_core) (use e(1) o'_def in simp)
  have q: "queue_of b1 = (queue_of b)(o' := queue_of b o' @ [h])" "queued_len b1 = Suc (queued_len b)"
    "active_len b1 \<le> active_len b" using e(2-4) by (simp_all add: b1_def o'_def)
  have fr: "frame b1 = frame b" by (simp add: b1_def)
  note lim = frame_eqD(2) [OF fr]
  have look: "the_record b1 = (the_record b)(h \<mapsto> ?r)" by (simp add: b1_def bm_get_insert fun_eq_iff)
  have "owner_is b1 x = owner_is b x" for x unfolding owner_is_def fun_eq_iff look using r(1) by auto
  then have cnt: "count_of b1 x hs = count_of b x hs" for x by (simp add: count_of_def)
  note rc = room_for_Cons [OF room r(1), folded o'_def]
  have tot: "queued_len b1 \<le> ql_total ?lim"
    "queued_len b1 + length hs \<le> ql_total ?lim \<or> queued_len b1 \<le> accepted + 1 \<and> accepted + 1 \<le> ql_total ?lim"
    using rc(1) free(1) q(2) by auto
  have per: "length (queue_of b1 x) \<le> ql_per_origin ?lim
      \<and> (length (queue_of b1 x) + count_of b1 x hs \<le> ql_per_origin ?lim
         \<or> length (queue_of b1 x) \<le> origin_tally (bm_insert o' (origin_tally m o' + 1) m) x
           \<and> origin_tally (bm_insert o' (origin_tally m o' + 1) m) x \<le> ql_per_origin ?lim)" for x
  proof (cases "x = o'")
    case True
    then show ?thesis using rc(3) free(2) by (auto simp: q cnt bm_get_insert o'_def)
  next
    case False
    then show ?thesis using rc(2) [of x] bnd by (simp add: q cnt bm_get_insert queue_bounded_def)
  qed
  show "queue_bounded b1" using tot(1) per by (simp add: queue_bounded_def lim)
  show "room_for b1 hs (accepted + 1) (bm_insert o' (origin_tally m o' + 1) m)"
    using tot(2) per unfolding room_for_def lim by blast
  have "keeps b b1"
    using keeps_put [OF r(1), of ?r] r(2) terminal_not_active keeps_cong [of b1 "put_record b h ?r" b]
    by (auto simp: b1_def)
  then show "readmits {h} b b1" using fr q(3) look by (auto simp: readmits_def parked_def)
qed

lemma readmit_reject:
  fixes b :: dialog_broker and now :: nat and cause :: transition_cause
  assumes core: "dialog_core L b" and r: "the_record b h = Some r"
    and hs: "\<And>x. x \<in> set hs \<Longrightarrow> parked b x" "h \<notin> set hs"
    and bnd: "queue_bounded b" and room: "room_for b (h # hs) accepted m"
  defines "o' \<equiv> dr_owner_service r"
  defines "b1 \<equiv> transition_terminal b h DFailed None now cause"
  shows "dialog_core L b1" "queue_bounded b1" "room_for b1 hs accepted (bm_insert o' (origin_tally m o') m)"
    "readmits {h} b b1"
proof -
  have t: "dialog_core L b1" "settles b b1" "\<forall>r'. the_record b1 h = Some r' \<longrightarrow> dialog_terminal (dr_state r')"
    using transition_terminal_core [OF core, of h DFailed None now cause] by (auto simp: b1_def value_ok_def)
  show "dialog_core L b1" by (rule t(1))
  note lim = settlesD(2) [OF t(2)]
  note bounds = settles_bounds [OF t(2) core t(1)]
  show "queue_bounded b1" by (rule bounds(3) [OF bnd])
  have other: "the_record b1 x = Some y" if "x \<noteq> h" "the_record b x = Some y" "\<not> dialog_terminal (dr_state y)" for x y
    unfolding b1_def by (rule transition_terminal_other [OF core that(2,3,1)])
  have "owner_is b1 w x = owner_is b w x" if x: "x \<in> set hs" for w x
  proof -
    obtain y where y: "the_record b x = Some y" "\<not> dialog_terminal (dr_state y)"
      using hs(1) [OF x] parked_live by (auto simp: parked_def)
    moreover have "the_record b1 x = Some y" using other [OF _ y] x hs(2) by metis
    ultimately show ?thesis by (simp add: owner_is_def)
  qed
  then have cnt: "count_of b1 w hs = count_of b w hs" for w unfolding count_of_def by (simp cong: filter_cong)
  have tal: "origin_tally (bm_insert o' (origin_tally m o') m) w = origin_tally m w" for w by (simp add: bm_get_insert)
  note rc = room_for_Cons [OF room r]
  show "room_for b1 hs accepted (bm_insert o' (origin_tally m o') m)"
    unfolding room_for_def lim tal cnt
  proof (intro conjI allI)
    show "queued_len b1 + length hs \<le> ql_total (db_limits b) \<or> queued_len b1 \<le> accepted \<and> accepted \<le> ql_total (db_limits b)"
      using rc(1) bounds(1) by linarith
    fix w
    show "length (queue_of b1 w) + count_of b w hs \<le> ql_per_origin (db_limits b)
        \<or> length (queue_of b1 w) \<le> origin_tally m w \<and> origin_tally m w \<le> ql_per_origin (db_limits b)"
      using rc(2) [of w] settlesD(4) [OF t(2), of w] by linarith
  qed
  show "readmits {h} b b1"
    using settles_keeps [OF t(2)] settlesD(1) [OF t(2)] bounds(2) other t(3) terminal_not_active
    unfolding readmits_def parked_def by blast
qed

lemma readmit_ok:
  assumes "dialog_core L b" "\<And>h. h \<in> set hs \<Longrightarrow> parked b h \<and> h \<in> L" "distinct hs"
    "queue_bounded b" "room_for b hs accepted m"
  shows "\<exists>b'. readmit b accepted m hs now cause = Inr b' \<and> dialog_core L b' \<and> queue_bounded b'
    \<and> readmits (set hs) b b'"
  using assms
proof (induction hs arbitrary: b accepted m)
  case Nil
  then show ?case by (simp add: readmits_def keeps_refl)
next
  case (Cons h hs)
  obtain r where r: "the_record b h = Some r" "active_state (dr_state r)"
    using Cons.prems(2) [of h] by (auto simp: parked_def)
  have hs: "h \<notin> set hs" "distinct hs" using Cons.prems(3) by simp_all
  have continue: "\<exists>b'. readmit b1 acc m1 hs now cause = Inr b' \<and> dialog_core L b' \<and> queue_bounded b'
      \<and> readmits (set (h # hs)) b b'"
    if b1: "dialog_core L b1" "queue_bounded b1" "room_for b1 hs acc m1" "readmits {h} b b1" for b1 acc m1
  proof -
    have "parked b1 x \<and> x \<in> L" if x: "x \<in> set hs" for x
      using Cons.prems(2) [of x] x hs(1) b1(4) terminal_not_active unfolding readmits_def parked_def
      by (metis insertCI list.simps(15) singletonD)
    then obtain b' where "readmit b1 acc m1 hs now cause = Inr b'" "dialog_core L b'" "queue_bounded b'"
      "readmits (set hs) b1 b'"
      using Cons.IH [OF b1(1) _ hs(2) b1(2,3)] by blast
    then show ?thesis using readmits_insert [OF b1(4) _ hs(1)] by auto
  qed
  let ?n = "origin_tally m (dr_owner_service r)"
  show ?case
  proof (cases "accepted < ql_total (db_limits b) \<and> ?n < ql_per_origin (db_limits b)")
    case True
    have "h \<in> L" using Cons.prems(2) by simp
    from continue [OF readmit_accept [OF Cons.prems(1) r this Cons.prems(4,5)], of cause] True
    show ?thesis using r(1) by (simp add: Let_def)
  next
    case False
    have "\<And>x. x \<in> set hs \<Longrightarrow> parked b x" using Cons.prems(2) by simp
    from continue [OF readmit_reject [OF Cons.prems(1) r(1) this hs(1) Cons.prems(4,5)], of now cause]
    show ?thesis using r(1) False by (auto simp: Let_def)
  qed
qed


section \<open>Requeueing as a whole\<close>

lemma readmits_unparked: "readmits H b b' \<Longrightarrow> x \<notin> H \<Longrightarrow> \<not> parked b x \<Longrightarrow> \<not> parked b' x"
  unfolding readmits_def keeps_def parked_def using terminal_not_active
  by (cases "the_record b x") (auto, metis option.inject option.distinct(1))

lemma core_shrink:
  assumes "dialog_core L b" "\<And>h. h \<in> L \<Longrightarrow> \<not> parked b h"
  shows "dialog_core {} b"
proof -
  have "record_ok b {} h r" if "the_record b h = Some r" for h r
    using core_record [OF assms(1) that] assms(2) [of h] that by (auto simp: record_ok_def parked_def)
  then show ?thesis using assms(1) by (simp add: dialog_core_def records_ok_def)
qed

text \<open>What requeueing promises.\<close>

definition requeues :: "interaction_handle set \<Rightarrow> dialog_broker \<Rightarrow> dialog_broker \<Rightarrow> bool" where
  "requeues H b b' \<longleftrightarrow> dialog_core {} b' \<and> queue_bounded b' \<and> active_len b' \<le> active_len b \<and> frame b' = frame b
     \<and> keeps b b' \<and> (\<forall>h\<in>H. \<not> parked b' h) \<and> (\<forall>h. parked b' h \<longrightarrow> parked b h)
     \<and> (\<forall>x r. x \<notin> H \<longrightarrow> the_record b x = Some r \<longrightarrow> active_state (dr_state r) \<longrightarrow> the_record b' x = Some r)"

lemma requeue_protected_ok:
  assumes core: "dialog_core L b" and L: "L \<subseteq> set handles" and d: "distinct handles"
    and live: "\<And>h r. h \<in> set handles \<Longrightarrow> the_record b h = Some r \<Longrightarrow> \<not> dialog_terminal (dr_state r) \<Longrightarrow> active_state (dr_state r)"
    and bnd: "queue_bounded b" and ord: "is_order ho"
  shows "\<exists>b'. requeue_protected ho b handles now cause = Inr b' \<and> requeues (set handles) b b'"
proof -
  define hs where "hs = requeue_order b handles"
  note o = requeue_order_props [OF d, of b, folded hs_def]
  have hsp: "parked b h" if "h \<in> set hs" for h using that live unfolding o(2) by (auto simp: parked_def)
  have rest: "\<not> parked b h" if "h \<in> set handles" "h \<notin> set hs" for h
    using that terminal_not_active unfolding o(2) by (auto simp: parked_def)
  obtain el qu b1 where b1: "charge_requeues b hs = Inr (el, qu, b1)" "dialog_core (L \<union> set hs) b1" "keeps b b1"
     "queue_of b1 = queue_of b" "queued_len b1 = queued_len b" "active_len b1 = active_len b" "frame b1 = frame b"
     "set el \<union> set qu = set hs" "distinct el" "set el \<inter> set qu = {}" "length (db_records b1) = length (db_records b)"
     "\<forall>h. parked b1 h \<longleftrightarrow> parked b h" "\<forall>h. h \<notin> set hs \<longrightarrow> the_record b1 h = the_record b h"
    using charge_core [OF core hsp o(1)] by blast
  let ?L = "L \<union> set hs"
  have bnd1: "queue_bounded b1" using bnd b1(4,5) frame_eqD(2) [OF b1(7)] by (simp add: queue_bounded_def)
  define b2 where "b2 = fold (\<lambda>h b. transition_terminal b h DFailed None now CQuarantine) qu b1"
  have b2: "dialog_core ?L b2" "settles b1 b2" "\<And>h r. h \<in> set qu \<Longrightarrow> the_record b2 h = Some r \<Longrightarrow> dialog_terminal (dr_state r)"
    using fold_terminal [OF b1(2), where state = DFailed and now = now and cause = CQuarantine and hs = qu]
    by (auto simp: b2_def)
  have el2: "parked b2 h" if h: "h \<in> set el" for h
  proof -
    have "parked b1 h" using hsp [of h] h b1(8,12) by blast
    then obtain r where r: "the_record b1 h = Some r" "active_state (dr_state r)" by (auto simp: parked_def)
    then have "the_record b2 h = Some r"
      unfolding b2_def using h b1(10) terminal_not_active by (intro fold_terminal_other [OF b1(2)]) auto
    then show ?thesis using r by (simp add: parked_def)
  qed
  have bnd2: "queue_bounded b2" by (rule settles_bounds(3) [OF b2(2) b1(2) b2(1) bnd1])
  have "\<And>h. h \<in> set el \<Longrightarrow> the_record b2 h \<noteq> None" using el2 by (auto simp: parked_def)
  then obtain m where m: "count_origins b2 [] el = Inr m" using count_origins_ok [of "[]" el b2] by (auto simp: bm_inv_def)
  obtain b3 where b3: "make_queue_room ho b2 (length el) m now cause = Inr b3" "fails_waiting ?L b2 b3" "room_for b3 el 0 []"
    using make_queue_room_ok [OF b2(1) bnd2 ord m el2] by blast
  have core3: "dialog_core ?L b3" and s3: "settles b2 b3" using b3(2) by (simp_all add: fails_waiting_def)
  have act3: "the_record b3 x = Some r" if "the_record b2 x = Some r" "active_state (dr_state r)" for x r
    using b3(2) that terminal_not_active unfolding fails_waiting_def by (metis queued_simps(2))
  have el3: "parked b3 h \<and> h \<in> ?L" if "h \<in> set el" for h
    using el2 [OF that] act3 b1(8) that by (auto simp: parked_def)
  have bnd3: "queue_bounded b3" by (rule settles_bounds(3) [OF s3 b2(1) core3 bnd2])
  obtain b4 where b4: "readmit b3 0 [] el now cause = Inr b4" "dialog_core ?L b4" "queue_bounded b4" "readmits (set el) b3 b4"
    using readmit_ok [OF core3 el3 b1(9) bnd3 b3(3)] by blast
  have settled: "settles b1 b3" by (rule settles_trans [OF b2(2) s3])
  have un: "\<not> parked b4 h" if h: "h \<in> set handles" for h
  proof (cases "h \<in> set el")
    case True
    then show ?thesis using b4(4) by (simp add: readmits_def)
  next
    case False
    have "\<not> parked b3 h"
    proof (cases "h \<in> set qu")
      case True
      then have "\<not> parked b2 h" using b2(3) terminal_not_active by (auto simp: parked_def)
      then show ?thesis using settles_parked [OF s3] by blast
    next
      case False
      then have "\<not> parked b1 h" using rest [OF h] \<open>h \<notin> set el\<close> b1(8,12) by auto
      then show ?thesis using settles_parked [OF settled] by blast
    qed
    then show ?thesis using readmits_unparked [OF b4(4) False] by blast
  qed
  have "dialog_core {} b4"
  proof (rule core_shrink [OF b4(2)])
    fix h assume "h \<in> ?L"
    then show "\<not> parked b4 h" using un L o(2) by blast
  qed
  moreover have "keeps b b4"
    using keeps_trans [OF keeps_trans [OF b1(3) settles_keeps [OF settled]], of b4] b4(4) by (simp add: readmits_def)
  moreover have "active_len b4 \<le> active_len b"
    using b4(4) settles_bounds(2) [OF settled b1(2) core3] b1(6) by (simp add: readmits_def)
  moreover have "frame b4 = frame b"
    using b4(4) settlesD(1) [OF settled] b1(7) by (simp add: readmits_def)
  moreover have "the_record b4 x = Some r" if x: "x \<notin> set handles" "the_record b x = Some r" "active_state (dr_state r)" for x r
  proof -
    have xs: "x \<notin> set hs" using x(1) o(2) by blast
    have nt: "\<not> dialog_terminal (dr_state r)" using x(3) terminal_not_active by blast
    have "the_record b2 x = Some r"
      unfolding b2_def using xs b1(8,13) x(2) nt by (intro fold_terminal_other [OF b1(2)]) auto
    then have "the_record b3 x = Some r" using act3 x(3) by blast
    moreover have "x \<notin> set el" using xs b1(8) by blast
    ultimately show ?thesis using b4(4) nt unfolding readmits_def by blast
  qed
  moreover have "parked b h" if "parked b4 h" for h
  proof -
    have "h \<notin> set el" using b4(4) that by (auto simp: readmits_def)
    then have "parked b3 h" using readmits_unparked [OF b4(4)] that by blast
    then show ?thesis using settles_parked [OF settled] b1(12) by blast
  qed
  ultimately have "requeues (set handles) b b4" using b4(3) un by (simp add: requeues_def)
  moreover have "requeue_protected ho b handles now cause = Inr b4"
    using b1(1) m b3(1) b4(1) by (simp add: requeue_protected_def hs_def [symmetric] b2_def Let_def)
  ultimately show ?thesis by blast
qed


lemma iter_handles:
  assumes "dialog_core L b" "is_order ho"
  shows "distinct (map dr_handle (filter P (iter_records ho b)))"
    "set (map dr_handle (filter P (iter_records ho b))) = {h. \<exists>r. the_record b h = Some r \<and> P r}"
proof -
  have inv: "bm_inv (db_records b)" by (rule core_bm_inv [OF assms(1)])
  have hd: "dr_handle r = h" if "the_record b h = Some r" for h r
    using core_record [OF assms(1) that] by (simp add: record_ok_def)
  let ?ks = "ho (map (as_str \<circ> fst) (db_records b))"
  have "distinct (map (as_str \<circ> fst) (db_records b))"
    using bm_inv_distinct [OF inv] as_str_inj by (simp add: distinct_map comp_inj_on inj_on_subset)
  then have dk: "distinct ?ks" using assms(2) by (simp add: is_order_def)
  have "distinct (map dr_handle (List.map_filter (\<lambda>s. the_record b (InteractionHandle s)) ks))" if "distinct ks" for ks
    using that
  proof (induction ks)
    case (Cons k ks)
    have "InteractionHandle k \<notin> dr_handle ` set (List.map_filter (\<lambda>s. the_record b (InteractionHandle s)) ks)"
      using Cons.prems hd by (force simp: in_map_filter)
    then show ?case using Cons hd by (auto simp: map_filter_simps split: option.split)
  qed (simp add: map_filter_simps)
  then have "distinct (map dr_handle (iter_records ho b))" using dk by (simp add: iter_records_def)
  then show "distinct (map dr_handle (filter P (iter_records ho b)))" by (rule distinct_map_filter)
  show "set (map dr_handle (filter P (iter_records ho b))) = {h. \<exists>r. the_record b h = Some r \<and> P r}"
    using set_iter_records [OF assms(2) inv] hd by force
qed

lemma requeue_generation_ok:
  assumes core: "dialog_core {} b" and bnd: "queue_bounded b" and ord: "is_order ho"
  shows "\<exists>b'. requeue_generation ho b g now cause = Inr b'
    \<and> requeues {h. \<exists>r. the_record b h = Some r \<and> (\<exists>a. dr_attempt r = Some a \<and> at_generation a = g)} b b'"
proof -
  define P where "P r \<longleftrightarrow> \<not> dialog_terminal (dr_state r)
      \<and> (case dr_attempt r of None \<Rightarrow> False | Some a \<Rightarrow> at_generation a = g)" for r :: dialog_record
  define hs where "hs = map dr_handle (filter P (iter_records ho b))"
  note i = iter_handles [OF core ord, of P, folded hs_def]
  have act: "active_state (dr_state r)" if "the_record b h = Some r" "dr_attempt r \<noteq> None" for h r
    using core_record [OF core that(1)] that(2) by (simp add: record_ok_def)
  have "\<And>h r. h \<in> set hs \<Longrightarrow> the_record b h = Some r \<Longrightarrow> \<not> dialog_terminal (dr_state r) \<Longrightarrow> active_state (dr_state r)"
    unfolding i(2) using act by (auto simp: P_def split: option.splits)
  then obtain b' where "requeue_protected ho b hs now cause = Inr b'" "requeues (set hs) b b'"
    using requeue_protected_ok [OF core _ i(1) _ bnd ord] by blast
  moreover have "set hs = {h. \<exists>r. the_record b h = Some r \<and> (\<exists>a. dr_attempt r = Some a \<and> at_generation a = g)}"
    unfolding i(2) using act terminal_not_active by (fastforce simp: P_def split: option.splits)
  moreover have "requeue_generation ho b g now cause = requeue_protected ho b hs now cause"
    by (simp add: requeue_generation_def hs_def P_def [abs_def])
  ultimately show ?thesis by simp
qed

end
