(* ===== verification/Interact_DialogOps.thy ===== *)
theory Interact_DialogOps
  imports Interact_DialogRequeue
begin

text \<open>
  The public operations of the dialog broker: each keeps the invariant, never panics or hangs, and leaves
  finished dialogs alone.
\<close>

section \<open>Shared steps\<close>

definition clean :: "'a attempted \<Rightarrow> bool" where
  "clean r \<longleftrightarrow> r \<noteq> Inl DPanic \<and> r \<noteq> Inl DHang"

lemma clean_simps [simp]: "clean (Inr x)" "clean (Inl (DErr e))"
  by (simp_all add: clean_def)

lemma inv_settles:
  assumes "dialog_inv b" "dialog_core {} b'" "settles b b'"
  shows "dialog_inv b'" "keeps b b'"
proof -
  have core: "dialog_core {} b" using assms(1) by (simp add: dialog_inv_def)
  note bounds = settles_bounds [OF assms(3) core assms(2)]
  show "dialog_inv b'"
    using assms(1,2) bounds settlesD(3) [OF assms(3)] by (auto simp: dialog_inv_def)
  show "keeps b b'" by (rule settles_keeps [OF assms(3)])
qed

lemma drained_inv: "dialog_inv b \<Longrightarrow> dialog_inv (drained b)" "keeps b (drained b)"
proof -
  show "keeps b (drained b)" by (rule settles_keeps [OF drained_core(2)])
  show "dialog_inv b \<Longrightarrow> dialog_inv (drained b)"
    by (rule inv_settles(1) [OF _ _ drained_core(2)]) (simp_all add: dialog_inv_def drained_core(1))
qed

lemma maintain_inv:
  assumes "dialog_inv b"
  shows "dialog_inv (maintain ho b now)" "keeps b (maintain ho b now)"
  using inv_settles [OF assms] maintain_core [of "{}" b ho now] assms by (auto simp: dialog_inv_def)

lemma terminal_inv:
  assumes "dialog_inv b" "\<And>r. the_record b h = Some r \<Longrightarrow> value_ok r state v"
  shows "dialog_inv (transition_terminal b h state v now cause)" "keeps b (transition_terminal b h state v now cause)"
  using inv_settles [OF assms(1)] transition_terminal_core [of "{}" b h state v now cause] assms
  by (auto simp: dialog_inv_def)

lemma expire_handle_inv:
  assumes "dialog_inv b" "expire_handle_if_due b h now = (d, b')"
  shows "dialog_inv b'" "keeps b b'" "\<not> d \<Longrightarrow> b' = b"
  using inv_settles [OF assms(1)] expire_handle_core [of "{}" b h now d b'] assms by (auto simp: dialog_inv_def)

lemma requeues_inv:
  assumes "requeues H b b'" "active_len b \<le> rp_active (db_retention b)"
  shows "dialog_inv b'" "keeps b b'"
  using assms frame_eqD(7) [of b' b] by (auto simp: requeues_def dialog_inv_def)

lemma inv_core: "dialog_inv b \<Longrightarrow> dialog_core {} b"
  by (simp add: dialog_inv_def)

text \<open>Changing a live record without changing its place in the life cycle's queue.\<close>

lemma put_inv:
  assumes "dialog_inv b" "the_record b h = Some r" "record_ok b {} h r'"
    "active_state (dr_state r') = active_state (dr_state r)" "\<not> dialog_terminal (dr_state r)"
    "dr_state r' = DQueued \<longleftrightarrow> dr_state r = DQueued" "dr_owner_service r' = dr_owner_service r"
  shows "dialog_inv (put_record b h r')" "keeps b (put_record b h r')"
proof -
  have "\<not> dialog_terminal (dr_state r')" using assms(4-6) state_cases [of "dr_state r"] terminal_not_active by metis
  then have "dialog_core {} (put_record b h r')"
    using put_record_core [OF inv_core [OF assms(1)] assms(2,3)] assms(5-7) by simp
  moreover have "active_len (put_record b h r') = active_len b"
    using active_len_put [OF core_bm_inv [OF inv_core [OF assms(1)]], of h r'] assms(2,4) by simp
  ultimately show "dialog_inv (put_record b h r')"
    using assms(1) by (simp add: dialog_inv_def queue_bounded_def)
  show "keeps b (put_record b h r')" by (rule keeps_put [OF assms(2,5)])
qed

lemma record_transition_inv:
  "dialog_inv b \<Longrightarrow> dialog_inv (record_transition b h old new c)"
  "keeps b0 (record_transition b h old new c) = keeps b0 b"
  using record_transition_core [of "{}" b h old new c] keeps_cong [of "record_transition b h old new c" b b0]
  by (simp_all add: dialog_inv_def queue_bounded_def)

text \<open>Closing the attempt of an active dialog, which must then be ended or requeued.\<close>

lemma close_attempt:
  assumes "dialog_inv b" "the_record b h = Some r" "active_state (dr_state r)"
  defines "b1 \<equiv> put_record b h (r\<lparr>dr_attempt := None\<rparr>)"
  shows "dialog_core {h} b1" "queue_bounded b1" "active_len b1 \<le> rp_active (db_retention b1)" "keeps b b1"
    "the_record b1 h = Some (r\<lparr>dr_attempt := None\<rparr>)"
proof -
  have nt: "\<not> dialog_terminal (dr_state r)" using assms(3) terminal_not_active by blast
  have core: "dialog_core {} b" by (rule inv_core [OF assms(1)])
  have "record_ok b {h} h (r\<lparr>dr_attempt := None\<rparr>)"
    using core_record [OF core assms(2)] by (simp add: record_ok_def split: option.splits)
  then show "dialog_core {h} b1" unfolding b1_def by (rule put_record_core [OF core assms(2)]) (use nt in auto)
  show "queue_bounded b1" using assms(1) by (simp add: b1_def dialog_inv_def queue_bounded_def)
  show "active_len b1 \<le> rp_active (db_retention b1)"
    using assms(1) active_len_put [OF core_bm_inv [OF core], of h "r\<lparr>dr_attempt := None\<rparr>"] assms(2,3)
    by (simp add: b1_def dialog_inv_def)
  show "keeps b b1" unfolding b1_def by (rule keeps_put [OF assms(2) nt])
  show "the_record b1 h = Some (r\<lparr>dr_attempt := None\<rparr>)" by (simp add: b1_def bm_get_insert)
qed

lemma value_ok_attempt [simp]: "value_ok (r\<lparr>dr_attempt := a\<rparr>) state v = value_ok r state v"
  by (simp add: value_ok_def split: option.split)

lemma close_and_end:
  assumes "dialog_inv b" "the_record b h = Some r" "active_state (dr_state r)" "value_ok r state v"
  defines "b1 \<equiv> put_record b h (r\<lparr>dr_attempt := None\<rparr>)"
  shows "dialog_inv (transition_terminal b1 h state v now cause)" "keeps b (transition_terminal b1 h state v now cause)"
proof -
  note c = close_attempt [OF assms(1-3), folded b1_def]
  define b2 where "b2 = transition_terminal b1 h state v now cause"
  have t: "dialog_core {h} b2" "settles b1 b2" "\<forall>r'. the_record b2 h = Some r' \<longrightarrow> dialog_terminal (dr_state r')"
    using transition_terminal_core [OF c(1), of h state v now cause] assms(4) c(5) by (auto simp: b2_def)
  have core: "dialog_core {} b2"
    by (rule core_shrink [OF t(1)]) (use t(3) terminal_not_active in \<open>auto simp: parked_def\<close>)
  have "dialog_inv b2"
    using core settles_bounds [OF t(2) c(1) t(1)] c(2,3) settlesD(3) [OF t(2)] by (simp add: dialog_inv_def)
  then show "dialog_inv (transition_terminal b1 h state v now cause)" by (simp add: b2_def)
  show "keeps b (transition_terminal b1 h state v now cause)"
    using keeps_trans [OF c(4) settles_keeps [OF t(2)]] by (simp add: b2_def)
qed

section \<open>Guards\<close>

lemma presenter_guard_cases:
  assumes "dialog_inv b" "presenter_guard b lease h token now = (res, b1)"
  shows "dialog_inv b1" "keeps b b1"
    "(\<exists>e. res = Inl (DErr e)) \<or> (res = Inr () \<and> b1 = drained b \<and> db_presenter b = Some lease \<and> pl_epoch lease = db_epoch b
       \<and> (\<exists>r. the_record b1 h = Some r \<and> dr_attempt r = Some \<lparr>at_generation = pl_generation lease, at_token = token\<rparr>
            \<and> active_state (dr_state r) \<and> \<not> due now r))"
proof -
  let ?b = "drained b"
  have d: "dialog_inv ?b" "keeps b ?b" "db_presenter ?b = db_presenter b" "db_epoch ?b = db_epoch b"
    using drained_inv [of b] assms(1) by (simp_all add: drain_pending_report_def)
  obtain x b2 where e: "expire_handle_if_due ?b h now = (x, b2)" by fastforce
  note ei = expire_handle_inv [OF d(1) e]
  define c where "c = and_then (check_lease ?b lease) (\<lambda>_. check_current_attempt ?b h (pl_generation lease) token)"
  show "dialog_inv b1" "keeps b b1"
    using assms(2) d ei keeps_trans [OF d(2) ei(2)]
    by (auto simp: presenter_guard_def Let_def e split: sum.splits bool.splits)
  have errs: "\<exists>e. c = Inl (DErr e)" if "c \<noteq> Inr ()"
    using that by (auto simp: c_def check_lease_def check_current_attempt_def split: option.splits if_splits)
  show "(\<exists>e. res = Inl (DErr e)) \<or> (res = Inr () \<and> b1 = drained b \<and> db_presenter b = Some lease \<and> pl_epoch lease = db_epoch b
       \<and> (\<exists>r. the_record b1 h = Some r \<and> dr_attempt r = Some \<lparr>at_generation = pl_generation lease, at_token = token\<rparr>
            \<and> active_state (dr_state r) \<and> \<not> due now r))"
  proof (cases "c = Inr () \<and> \<not> x")
    case False
    then show ?thesis
      using assms(2) errs by (auto simp: presenter_guard_def Let_def e c_def [symmetric] split: sum.splits bool.splits)
  next
    case True
    then have "b2 = ?b" using ei(3) by blast
    obtain r a where r: "the_record ?b h = Some r" "dr_attempt r = Some a"
      "at_generation a = pl_generation lease" "at_token a = token"
      "db_presenter b = Some lease" "pl_epoch lease = db_epoch b"
      using True d(3,4)
      by (auto simp: c_def check_lease_def check_current_attempt_def split: option.splits if_splits)
    have "a = \<lparr>at_generation = pl_generation lease, at_token = token\<rparr>" using r(3,4) by (cases a) simp
    moreover have "active_state (dr_state r)"
      using core_record [OF inv_core [OF d(1)] r(1)] r(2) by (simp add: record_ok_def)
    moreover have "\<not> due now r" using e True r(1) by (auto simp: expire_handle_if_due_def Let_def)
    ultimately show ?thesis
      using assms(2) True r \<open>b2 = ?b\<close> by (auto simp: presenter_guard_def Let_def e c_def [symmetric])
  qed
qed

lemma owner_guard_cases:
  assumes "dialog_inv b" "owner_guard b owner token h now = (res, b1)"
  shows "dialog_inv b1" "keeps b b1"
    "(\<exists>e. res = Inl (DErr e)) \<or> (res = Inr () \<and> b1 = drained b
       \<and> (\<exists>r. the_record b1 h = Some r \<and> dr_owner_service r = owner \<and> dr_owner_token r = token \<and> \<not> due now r))"
proof -
  let ?b = "drained b"
  have d: "dialog_inv ?b" "keeps b ?b" using drained_inv [of b] assms(1) by simp_all
  obtain x b2 where e: "expire_handle_if_due ?b h now = (x, b2)" by fastforce
  note ei = expire_handle_inv [OF d(1) e]
  show "dialog_inv b1" "keeps b b1"
    using assms(2) d ei keeps_trans [OF d(2) ei(2)]
    by (auto simp: owner_guard_def Let_def e split: sum.splits bool.splits)
  show "(\<exists>e. res = Inl (DErr e)) \<or> (res = Inr () \<and> b1 = drained b
       \<and> (\<exists>r. the_record b1 h = Some r \<and> dr_owner_service r = owner \<and> dr_owner_token r = token \<and> \<not> due now r))"
  proof (cases "check_owner ?b owner token h = Inr () \<and> \<not> x")
    case False
    then show ?thesis
      using assms(2)
      by (auto simp: owner_guard_def Let_def e check_owner_def split: sum.splits bool.splits option.splits if_splits)
  next
    case True
    then have "b2 = ?b" using ei(3) by blast
    moreover obtain r where r: "the_record ?b h = Some r" "dr_owner_service r = owner" "dr_owner_token r = token"
      using True by (auto simp: check_owner_def split: option.splits if_splits)
    moreover have "\<not> due now r" using e True r(1) by (auto simp: expire_handle_if_due_def Let_def)
    ultimately show ?thesis
      using assms(2) True by (auto simp: owner_guard_def Let_def e)
  qed
qed


section \<open>Operations on one dialog\<close>

definition safe :: "dialog_broker \<Rightarrow> 'a attempted \<times> dialog_broker \<Rightarrow> bool" where
  "safe b out \<longleftrightarrow> dialog_inv (snd out) \<and> keeps b (snd out) \<and> clean (fst out)"

lemma safe_trans: "keeps b b1 \<Longrightarrow> safe b1 out \<Longrightarrow> safe b out"
  using keeps_trans by (auto simp: safe_def)

lemma safe_refl: "dialog_inv b \<Longrightarrow> clean r \<Longrightarrow> safe b (r, b)"
  by (simp add: safe_def keeps_refl)

lemma safe_terminal:
  "dialog_inv b \<Longrightarrow> (\<And>r. the_record b h = Some r \<Longrightarrow> value_ok r state v) \<Longrightarrow>
     safe b (Inr x, transition_terminal b h state v now cause)"
  using terminal_inv by (simp add: safe_def)

lemma guarded_presenter:
  assumes "dialog_inv b"
    and "\<And>r. b1 = drained b \<Longrightarrow> dialog_inv b1 \<Longrightarrow> the_record b1 h = Some r \<Longrightarrow> active_state (dr_state r) \<Longrightarrow>
      dr_attempt r = Some \<lparr>at_generation = pl_generation lease, at_token = token\<rparr> \<Longrightarrow>
      \<not> due now r \<Longrightarrow> safe b1 (body b1 r)"
    and "b1 = snd (presenter_guard b lease h token now)"
  shows "safe b (guarded (presenter_guard b lease h token now) h body)"
proof -
  obtain res where g: "presenter_guard b lease h token now = (res, b1)"
    using assms(3) by (metis prod.collapse)
  note c = presenter_guard_cases [OF assms(1) g]
  show ?thesis
  proof (cases "\<exists>e. res = Inl (DErr e)")
    case True
    then show ?thesis using c(1,2) by (auto simp: guarded_def g safe_def)
  next
    case False
    then obtain r where "res = Inr ()" "b1 = drained b" "the_record b1 h = Some r" "active_state (dr_state r)" "\<not> due now r"
      "dr_attempt r = Some \<lparr>at_generation = pl_generation lease, at_token = token\<rparr>"
      using c(3) by blast
    then show ?thesis
      using assms(2) [OF _ c(1)] safe_trans [OF c(2)] by (simp add: guarded_def g)
  qed
qed

lemma guarded_owner:
  assumes "dialog_inv b"
    and "\<And>r. b1 = drained b \<Longrightarrow> dialog_inv b1 \<Longrightarrow> the_record b1 h = Some r \<Longrightarrow> dr_owner_service r = owner \<Longrightarrow>
      dr_owner_token r = token \<Longrightarrow> safe b1 (body b1 r)"
    and "b1 = snd (owner_guard b owner token h now)"
  shows "safe b (guarded (owner_guard b owner token h now) h body)"
proof -
  obtain res where g: "owner_guard b owner token h now = (res, b1)"
    using assms(3) by (metis prod.collapse)
  note c = owner_guard_cases [OF assms(1) g]
  show ?thesis
  proof (cases "\<exists>e. res = Inl (DErr e)")
    case True
    then show ?thesis using c(1,2) by (auto simp: guarded_def g safe_def)
  next
    case False
    then obtain r where "res = Inr ()" "b1 = drained b" "the_record b1 h = Some r" "dr_owner_service r = owner"
      "dr_owner_token r = token"
      using c(3) by blast
    then show ?thesis
      using assms(2) [OF _ c(1)] safe_trans [OF c(2)] by (simp add: guarded_def g)
  qed
qed

lemma safe_put:
  assumes "dialog_inv b" "the_record b h = Some r" "record_ok b {} h r'"
    "active_state (dr_state r') = active_state (dr_state r)" "\<not> dialog_terminal (dr_state r)"
    "dr_state r' = DQueued \<longleftrightarrow> dr_state r = DQueued" "dr_owner_service r' = dr_owner_service r"
  shows "safe b (Inr x, record_transition (put_record b h r') h old new c)"
  using put_inv [OF assms] by (simp add: safe_def record_transition_inv)

lemma mark_presented_safe:
  assumes "dialog_inv b"
  shows "safe b (mark_presented b lease h token now)"
  unfolding mark_presented_def
proof (rule guarded_presenter [OF assms _ refl])
  fix r :: dialog_record
  let ?b = "snd (presenter_guard b lease h token now)"
  assume inv: "dialog_inv ?b" and r: "the_record ?b h = Some r" "active_state (dr_state r)"
  have ok: "record_ok ?b {} h r" by (rule core_record [OF inv_core [OF inv] r(1)])
  define new where "new = (if dr_cancel_requested r then CancelRequested else Presented)"
  have new: "active_state new" "new \<noteq> DQueued" "\<not> dialog_terminal new" by (simp_all add: new_def)
  show "safe ?b (if dr_state r \<noteq> Presenting then (Inl (wrong_state r), ?b)
      else let new = if dr_cancel_requested r then CancelRequested else Presented
           in (Inr (), record_transition (put_record ?b h (r\<lparr>dr_state := new, dr_ever_presented := True\<rparr>)) h
                 (Some Presenting) (Some new) CMarkPresented))"
  proof (cases "dr_state r = Presenting")
    case False
    then show ?thesis using safe_refl [OF inv, of "Inl (wrong_state r)"] by (simp add: wrong_state_def)
  next
    case True
    have "record_ok ?b {} h (r\<lparr>dr_state := new, dr_ever_presented := True\<rparr>)"
      using ok True new by (auto simp: record_ok_def new_def split: option.splits)
    then have "safe ?b (Inr (), record_transition (put_record ?b h (r\<lparr>dr_state := new, dr_ever_presented := True\<rparr>)) h
        (Some Presenting) (Some new) CMarkPresented)"
      by (intro safe_put [OF inv r(1)]) (use True new in auto)
    then show ?thesis using True by (simp add: new_def Let_def)
  qed
qed

lemma fail_presentation_safe:
  assumes "dialog_inv b"
  shows "safe b (fail_presentation b lease h token now)"
  unfolding fail_presentation_def
proof (rule guarded_presenter [OF assms _ refl])
  fix r :: dialog_record
  let ?b = "snd (presenter_guard b lease h token now)"
  let ?b1 = "put_record ?b h (r\<lparr>dr_attempt := None\<rparr>)"
  assume inv: "dialog_inv ?b" and r: "the_record ?b h = Some r" "active_state (dr_state r)"
  have nt: "\<not> dialog_terminal (dr_state r)" using r(2) terminal_not_active by blast
  show "safe ?b (let b1 = ?b1 in if dialog_terminal (dr_state r) then (Inl (DErr AlreadyTerminal), b1)
      else (Inr (), transition_terminal b1 h DFailed None now CFail))"
    using nt close_and_end [OF inv r, of DFailed None now CFail] by (simp add: safe_def value_ok_def)
qed


lemma resolve_rejection_None:
  assumes "resolve_rejection lease v r = None"
  shows "dr_owner_service r \<noteq> pl_service lease" "dr_state r \<in> {Presented, CancelRequested}"
    "\<not> is_progress (or_dialog (dr_request r))" "answers (or_dialog (dr_request r)) v" "value_bytes v \<le> MAX_DIALOG_RESULT_BYTES"
proof -
  have "\<not> is_progress (or_dialog (dr_request r)) \<and> validate_for v (or_dialog (dr_request r)) = Inr ()"
    using assms unfolding resolve_rejection_def is_progress_def
    by (auto split: if_splits dialog_request.splits sum.splits)
  then show "\<not> is_progress (or_dialog (dr_request r))" "answers (or_dialog (dr_request r)) v"
    "value_bytes v \<le> MAX_DIALOG_RESULT_BYTES" by (simp_all add: validate_for_ok)
  show "dr_owner_service r \<noteq> pl_service lease" "dr_state r \<in> {Presented, CancelRequested}"
    using assms by (auto simp: resolve_rejection_def split: if_splits)
qed

lemma resolve_safe:
  assumes "dialog_inv b" "is_order ho"
  shows "safe b (resolve ho b lease h token v now)"
  unfolding resolve_def
proof (rule guarded_presenter [OF assms(1) _ refl])
  fix r :: dialog_record
  let ?b = "snd (presenter_guard b lease h token now)"
  let ?b1 = "put_record ?b h (r\<lparr>dr_attempt := None\<rparr>)"
  assume inv: "dialog_inv ?b" and r: "the_record ?b h = Some r" "active_state (dr_state r)"
  note c = close_attempt [OF inv r]
  show "safe ?b (let b1 = ?b1 in case resolve_rejection lease v r of
         Some e \<Rightarrow> finish b1 (requeue_protected ho b1 [h] now CResolve) (Inl (DErr e))
       | None \<Rightarrow> (Inr (), transition_terminal b1 h Resolved (Some v) now CResolve))"
  proof (cases "resolve_rejection lease v r")
    case None
    have "value_ok r Resolved (Some v)" using resolve_rejection_None [OF None] by (simp add: value_ok_def)
    then show ?thesis using None close_and_end [OF inv r] by (simp add: safe_def)
  next
    case (Some e)
    obtain b' where b': "requeue_protected ho ?b1 [h] now CResolve = Inr b'" "requeues (set [h]) ?b1 b'"
    proof (rule exE [OF requeue_protected_ok [OF c(1) _ _ _ c(2) assms(2), of "[h]" now CResolve]])
      show "active_state (dr_state r')" if "h' \<in> set [h]" "the_record ?b1 h' = Some r'" for h' r'
        using that c(5) r(2) by auto
    qed auto
    have "dialog_inv b'" "keeps ?b1 b'" using requeues_inv [OF b'(2) c(3)] by auto
    then show ?thesis using Some b'(1) keeps_trans [OF c(4)] by (simp add: finish_def safe_def)
  qed
qed

lemma request_progress_cancel_safe:
  assumes "dialog_inv b"
  shows "safe b (request_progress_cancel b lease h token now)"
  unfolding request_progress_cancel_def
proof (rule guarded_presenter [OF assms _ refl])
  fix r :: dialog_record
  let ?b = "snd (presenter_guard b lease h token now)"
  let ?r = "r\<lparr>dr_state := CancelRequested, dr_cancel_requested := True\<rparr>"
  assume inv: "dialog_inv ?b" and r: "the_record ?b h = Some r" "active_state (dr_state r)"
  have ok: "record_ok ?b {} h r" by (rule core_record [OF inv_core [OF inv] r(1)])
  have "safe ?b (Inr (), record_transition (put_record ?b h ?r) h (Some Presented) (Some CancelRequested) CProgressCancel)"
    if "dr_state r = Presented"
    using ok that by (intro safe_put [OF inv r(1)]) (auto simp: record_ok_def split: option.splits)
  then show "safe ?b (case or_dialog (dr_request r) of
         ProgressReq _ _ cancellable \<Rightarrow>
           if \<not> cancellable then (Inl (DErr NotCancellable), ?b)
           else if dr_state r = CancelRequested then (Inr (), ?b)
           else if dr_state r \<noteq> Presented then (Inl (wrong_state r), ?b)
           else (Inr (), record_transition (put_record ?b h ?r)
                   h (Some Presented) (Some CancelRequested) CProgressCancel)
       | _ \<Rightarrow> (Inl (DErr NotProgress), ?b))"
    using safe_refl [OF inv, where 'a = unit] by (auto simp: wrong_state_def split: dialog_request.split)
qed

lemma dialog_cancel_safe:
  assumes "dialog_inv b"
  shows "safe b (dialog_cancel b owner token h now)"
  unfolding dialog_cancel_def
proof (rule guarded_owner [OF assms _ refl])
  fix r :: dialog_record
  let ?b = "snd (owner_guard b owner token h now)"
  assume inv: "dialog_inv ?b" and r: "the_record ?b h = Some r"
  show "safe ?b (if dialog_terminal (dr_state r) then (Inl (DErr AlreadyTerminal), ?b)
       else (Inr (), transition_terminal ?b h Cancelled None now CCancel))"
    using safe_refl [OF inv, where 'a = unit] safe_terminal [OF inv, of h Cancelled None "()"] by (simp add: value_ok_def)
qed

lemma update_progress_safe:
  assumes "dialog_inv b"
  shows "safe b (update_progress b owner token h patch now)"
proof -
  obtain res b1 where g: "owner_guard b owner token h now = (res, b1)" by fastforce
  note c = owner_guard_cases [OF assms g]
  show ?thesis
  proof (cases "res = Inr () \<and> patch_validate patch = Inr ()")
    case False
    then show ?thesis
      using c by (auto simp: update_progress_def g safe_def split: sum.splits)
  next
    case True
    then obtain r where r: "the_record b1 h = Some r" using c(3) by auto
    have ok: "record_ok b1 {} h r" by (rule core_record [OF inv_core [OF c(1)] r])
    have "safe b1 (Inr (), record_transition (put_record b1 h (r\<lparr>dr_progress := Some (patched patch s)\<rparr>))
        h (Some (dr_state r)) (Some (dr_state r)) CProgressUpdate)"
      if "\<not> dialog_terminal (dr_state r)" "dr_progress r = Some s" for s
      using ok that by (intro safe_put [OF c(1) r]) (auto simp: record_ok_def split: option.splits)
    then have "safe b1 (update_progress b owner token h patch now)"
      using True r safe_refl [OF c(1), where 'a = unit]
      by (auto simp: update_progress_def g guarded_def split: option.split)
    then show ?thesis by (rule safe_trans [OF c(2)])
  qed
qed

lemma complete_progress_safe:
  assumes "dialog_inv b"
  shows "safe b (complete_progress b owner token h completion now)"
proof -
  obtain res b1 where g: "owner_guard b owner token h now = (res, b1)" by fastforce
  note c = owner_guard_cases [OF assms g]
  show ?thesis
  proof (cases "res = Inr () \<and> completion_validate completion = Inr ()")
    case False
    then show ?thesis
      using c by (auto simp: complete_progress_def g safe_def split: sum.splits)
  next
    case True
    then obtain r where r: "the_record b1 h = Some r" using c(3) by auto
    have ok: "record_ok b1 {} h r" by (rule core_record [OF inv_core [OF c(1)] r])
    have "answers (or_dialog (dr_request r)) (ProgressVal completion)" if "dr_progress r \<noteq> None"
      using ok that True unfolding record_ok_def is_progress_def answers_def
      by (auto simp: completion_ok split: dialog_request.splits)
    then have "safe b1 (Inr (), transition_terminal b1 h Resolved (Some (ProgressVal completion)) now CProgressComplete)"
      if "dr_progress r \<noteq> None" using that r by (intro safe_terminal [OF c(1)]) (simp add: value_ok_def)
    then have "safe b1 (complete_progress b owner token h completion now)"
      using True r safe_refl [OF c(1), where 'a = unit] by (auto simp: complete_progress_def g guarded_def)
    then show ?thesis by (rule safe_trans [OF c(2)])
  qed
qed


section \<open>Opening\<close>

text \<open>Opening may only add the record of its own fresh handle.\<close>

definition keeps_except :: "interaction_handle set \<Rightarrow> dialog_broker \<Rightarrow> dialog_broker \<Rightarrow> bool" where
  "keeps_except H b b' \<longleftrightarrow> (\<forall>x. x \<notin> H \<longrightarrow> (the_record b x = None \<longrightarrow> the_record b' x = None)
     \<and> (\<forall>r. the_record b x = Some r \<longrightarrow> dialog_terminal (dr_state r) \<longrightarrow> the_record b' x \<in> {Some r, None}))"

lemma keeps_keeps_except: "keeps b b' \<Longrightarrow> keeps_except H b b'"
  by (simp add: keeps_def keeps_except_def)

lemma open_validate_ok: "open_validate req = Inr u \<Longrightarrow> dialog_wf (or_dialog req)"
  by (auto simp: open_validate_def check_ok)

lemma fresh_record_ok:
  assumes "dialog_wf (or_dialog req)"
  shows "record_ok b L h (fresh_record owner token req now h)"
  using assms
  by (simp add: record_ok_def fresh_record_def initial_progress_def is_progress_def split: dialog_request.split)

lemma set_rate_inv:
  assumes "dialog_inv b" "limiter_inv rl"
  shows "dialog_inv (b\<lparr>db_rate := rl\<rparr>)" "keeps b (b\<lparr>db_rate := rl\<rparr>)"
proof -
  let ?b = "b\<lparr>db_rate := rl\<rparr>"
  have q: "queue_of ?b = queue_of b" by (rule queue_of_cong) simp
  have "record_ok ?b {} = record_ok b {}" by (simp add: fun_eq_iff record_ok_def)
  then show "dialog_inv ?b"
    using assms
    by (simp add: dialog_inv_def dialog_core_def records_ok_def queue_shape_def queue_content_def terminals_ok_def
        terminal_in_def control_ok_def q queue_bounded_def queued_len_def active_len_def)
  show "keeps b ?b" by (simp add: keeps_def)
qed

lemma admit_fresh:
  fixes b :: dialog_broker and token :: string and now :: nat
  assumes inv: "dialog_inv b" and new: "the_record b h = None" and wf: "dialog_wf (or_dialog req)"
    and room: "queued_len b < ql_total (db_limits b)" "length (queue_of b owner) < ql_per_origin (db_limits b)"
  defines "b' \<equiv> record_transition (enqueue (put_record b h (fresh_record owner token req now h)) owner h) h None
      (Some DQueued) COpen"
  shows "dialog_inv b'" "keeps_except {h} b b'" "the_record b' h = Some (fresh_record owner token req now h)"
    "queue_of b' = (queue_of b)(owner := queue_of b owner @ [h])"
proof -
  let ?r = "fresh_record owner token req now h"
  have core: "dialog_core {} b" by (rule inv_core [OF inv])
  have st: "dr_state ?r = DQueued" "dr_owner_service ?r = owner" by (simp_all add: fresh_record_def)
  have none: "\<And>r. the_record b h = Some r \<Longrightarrow> active_state (dr_state r)" using new by simp
  note e = enqueue_core [OF core none fresh_record_ok [OF wf] st]
  show q: "queue_of b' = (queue_of b)(owner := queue_of b owner @ [h])" using e(2) by (simp add: b'_def)
  have c': "dialog_core {} b'" unfolding b'_def by (rule record_transition_core [OF e(1)])
  have lim: "db_limits b' = db_limits b" "db_retention b' = db_retention b"
    using frame_eqD(2,7) [of b' b] by (simp_all add: b'_def)
  have "queue_bounded b'"
    using inv room e(3) by (auto simp: queue_bounded_def q lim dialog_inv_def) (simp add: b'_def)
  moreover have "active_len b' \<le> active_len b" using e(4) by (simp add: b'_def)
  ultimately show "dialog_inv b'" using c' inv lim by (simp add: dialog_inv_def)
  have look: "the_record b' = (the_record b)(h \<mapsto> ?r)" by (simp add: b'_def bm_get_insert fun_eq_iff)
  show "the_record b' h = Some ?r" by (simp add: look)
  show "keeps_except {h} b b'" by (simp add: keeps_except_def look)
qed

text \<open>The outcomes of opening, all of them.\<close>

lemma dialog_open_cases:
  fixes b :: dialog_broker and ho :: hash_order and now :: nat
  assumes inv: "dialog_inv b"
  defines "b1 \<equiv> maintain ho (drained b) now"
  shows "case dialog_open ho b owner token req now h of
      (Inl e, b') \<Rightarrow> dialog_inv b' \<and> keeps b b' \<and> e \<notin> {DPanic, DHang}
    | (Inr resp, b') \<Rightarrow> dialog_inv b' \<and> keeps_except {h} b b' \<and> the_record b1 h = None
        \<and> dialog_wf (or_dialog req)
        \<and> the_record b' h = Some (fresh_record owner token req now h)
        \<and> queue_of b' = (queue_of b1)(owner := queue_of b1 owner @ [h])
        \<and> resp = \<lparr>op_handle = h, op_owner_token = token, op_state = DQueued\<rparr>"
proof -
  have d: "dialog_inv (drained b)" "keeps b (drained b)" using drained_inv [of b] inv by simp_all
  have m: "dialog_inv b1" "keeps b b1"
    using maintain_inv [OF d(1)] keeps_trans [OF d(2)] by (simp_all add: b1_def)
  obtain ok rl where t: "try_consume (db_rate b1) owner now = (ok, rl)" by fastforce
  have "limiter_inv (db_rate b1)" using inv_core [OF m(1)] by (simp add: dialog_core_def control_ok_def)
  then have rl: "limiter_inv rl" using try_consume_inv(1) t by blast
  define b2 where "b2 = b1\<lparr>db_rate := rl\<rparr>"
  note r = set_rate_inv [OF m(1) rl, folded b2_def]
  have same: "queued_len b2 = queued_len b1" "queue_of b2 = queue_of b1" "db_limits b2 = db_limits b1" "the_record b2 = the_record b1"
    by (auto simp: b2_def queued_len_def intro!: queue_of_cong)
  have recs: "db_records b2 = db_records b1" by (simp add: b2_def)
  have k2: "keeps b b2" using keeps_trans [OF m(2) r(2)] .
  show ?thesis
  proof (cases "open_validate req")
    case (Inl e)
    then show ?thesis using d by (simp add: dialog_open_def Let_def)
  next
    case (Inr u)
    note wf = open_validate_ok [OF Inr]
    show ?thesis
    proof (cases "bm_contains (db_records b1) h \<or> queued_len b1 \<ge> ql_total (db_limits b1)
        \<or> length (queue_of b1 owner) \<ge> ql_per_origin (db_limits b1)")
      case True
      then show ?thesis using Inr m by (auto simp: dialog_open_def Let_def b1_def)
    next
      case False
      then have new: "the_record b1 h = None" and room: "queued_len b2 < ql_total (db_limits b2)"
        "length (queue_of b2 owner) < ql_per_origin (db_limits b2)"
        by (auto simp: bm_contains_def same)
      note a = admit_fresh [OF r(1) _ wf room, of h token now]
      have ke: "keeps_except {h} b b'" if "keeps_except {h} b2 b'" for b'
        using that k2 unfolding keeps_def keeps_except_def by (metis insert_iff singletonD)
      show ?thesis
      proof (cases ok)
        case True
        then show ?thesis
          using Inr False t new wf a ke same recs
          by (simp add: dialog_open_def Let_def b1_def [symmetric] b2_def [symmetric])
      next
        case nok: False
        then show ?thesis
          using Inr False t r(1) k2
          by (simp add: dialog_open_def Let_def b1_def [symmetric] b2_def [symmetric])
      qed
    qed
  qed
qed


section \<open>The presenter's lease\<close>

lemma set_presenter_inv:
  assumes "dialog_inv b" "\<And>h. \<not> parked b h"
    "\<And>l. p = Some l \<Longrightarrow> pl_generation l < db_next_generation b \<and> pl_epoch l = db_epoch b"
  shows "dialog_inv (b\<lparr>db_presenter := p\<rparr>)" "keeps b (b\<lparr>db_presenter := p\<rparr>)"
proof -
  let ?b = "b\<lparr>db_presenter := p\<rparr>"
  have q: "queue_of ?b = queue_of b" by (rule queue_of_cong) simp
  have ok: "record_ok ?b {} h r" if "the_record b h = Some r" for h r
    using core_record [OF inv_core [OF assms(1)] that] assms(2) [of h] that by (auto simp: record_ok_def parked_def)
  then show "dialog_inv ?b"
    using assms(1,3)
    by (simp add: dialog_inv_def dialog_core_def records_ok_def queue_shape_def queue_content_def terminals_ok_def
        terminal_in_def control_ok_def q queue_bounded_def queued_len_def active_len_def)
  show "keeps b ?b" by (simp add: keeps_def)
qed

lemma parked_generation:
  assumes "dialog_inv b" "parked b h"
  shows "\<exists>l r a. db_presenter b = Some l \<and> the_record b h = Some r \<and> dr_attempt r = Some a
    \<and> at_generation a = pl_generation l"
proof -
  obtain r where r: "the_record b h = Some r" "active_state (dr_state r)" using assms(2) by (auto simp: parked_def)
  show ?thesis using core_record [OF inv_core [OF assms(1)] r(1)] r by (auto simp: record_ok_def)
qed

lemma requeue_all:
  assumes "dialog_inv b" "is_order ho" "db_presenter b = Some l"
  shows "\<exists>b'. requeue_generation ho b (pl_generation l) now cause = Inr b' \<and> dialog_inv b' \<and> keeps b b'
    \<and> (\<forall>h. \<not> parked b' h) \<and> frame b' = frame b"
proof -
  have bnd: "queue_bounded b" "active_len b \<le> rp_active (db_retention b)" using assms(1) by (simp_all add: dialog_inv_def)
  let ?H = "{h. \<exists>r. the_record b h = Some r \<and> (\<exists>a. dr_attempt r = Some a \<and> at_generation a = pl_generation l)}"
  obtain b' where b': "requeue_generation ho b (pl_generation l) now cause = Inr b'" "requeues ?H b b'"
    using requeue_generation_ok [OF inv_core [OF assms(1)] bnd(1) assms(2)] by blast
  have "\<not> parked b' h" for h
  proof
    assume "parked b' h"
    then have "parked b h" "h \<notin> ?H" using b'(2) by (auto simp: requeues_def)
    then show False using parked_generation [OF assms(1), of h] assms(3) by auto
  qed
  then show ?thesis using b' requeues_inv [OF b'(2) bnd(2)] by (auto simp: requeues_def)
qed

lemma register_presenter_safe:
  assumes "dialog_inv b" "is_order ho"
  shows "safe b (register_presenter ho b srv now)"
proof -
  define b1 where "b1 = maintain ho (drained b) now"
  have m: "dialog_inv b1" "keeps b b1"
    using maintain_inv [of "drained b" ho now] keeps_trans drained_inv [of b] assms(1) by (auto simp: b1_def)
  show ?thesis
  proof (cases "checked_add (db_next_generation b1) 1")
    case None
    then show ?thesis
      using m by (simp add: register_presenter_def b1_def [symmetric] mint_presenter_generation_def safe_def Let_def)
  next
    case (Some n)
    then have n: "n = db_next_generation b1 + 1" "n \<le> u64_max" by (auto simp: checked_add_def split: if_splits)
    define b2 where "b2 = b1\<lparr>db_next_generation := n\<rparr>"
    define lease where "lease = \<lparr>pl_service = srv, pl_generation = db_next_generation b1, pl_epoch = db_epoch b2\<rparr>"
    have k2: "keeps b1 b2" by (simp add: keeps_def b2_def)
    have i2: "dialog_inv b2"
    proof -
      have q: "queue_of b2 = queue_of b1" by (rule queue_of_cong) (simp add: b2_def)
      have "record_ok b2 {} = record_ok b1 {}" by (simp add: fun_eq_iff record_ok_def b2_def)
      then show ?thesis
        using m(1) n q unfolding dialog_inv_def dialog_core_def records_ok_def queue_shape_def queue_content_def terminals_ok_def
          terminal_in_def control_ok_def queue_bounded_def queued_len_def active_len_def b2_def by force
    qed
    define rq where "rq = (case db_presenter b2 of
        None \<Rightarrow> Inr b2 | Some old \<Rightarrow> requeue_generation ho b2 (pl_generation old) now CReplace)"
    obtain b3 where b3: "rq = Inr b3" "dialog_inv b3" "keeps b2 b3" "\<forall>h. \<not> parked b3 h" "frame b3 = frame b2"
    proof (cases "db_presenter b2")
      case None
      then have "\<not> parked b2 h" for h using parked_generation [OF i2] by auto
      then show ?thesis using that i2 keeps_refl None by (simp add: rq_def)
    next
      case (Some old)
      then show ?thesis using that requeue_all [OF i2 assms(2) Some, of now CReplace] by (auto simp: rq_def)
    qed
    note fr = frame_eqD [OF b3(5)]
    have s: "dialog_inv (b3\<lparr>db_presenter := Some lease\<rparr>)" "keeps b3 (b3\<lparr>db_presenter := Some lease\<rparr>)"
      using set_presenter_inv [OF b3(2), of "Some lease"] b3(4) n by (auto simp: lease_def fr) (auto simp: b2_def)
    have "register_presenter ho b srv now = (Inr lease, b3\<lparr>db_presenter := Some lease\<rparr>)"
      using Some b3(1)
      by (simp add: register_presenter_def b1_def [symmetric] mint_presenter_generation_def Let_def b2_def [symmetric]
          lease_def [symmetric] rq_def [symmetric] finish_def)
    then show ?thesis
      using s keeps_trans [OF keeps_trans [OF keeps_trans [OF m(2) k2] b3(3)] s(2)] by (simp add: safe_def)
  qed
qed

lemma check_lease_ok: "check_lease b lease = Inr u \<longleftrightarrow> db_presenter b = Some lease \<and> pl_epoch lease = db_epoch b"
  by (auto simp: check_lease_def split: option.split)

lemma check_lease_err: "check_lease b lease = Inl e \<Longrightarrow> e \<in> {DErr NoPresenter, DErr StaleLease}"
  by (auto simp: check_lease_def split: option.splits if_splits)

lemma release_presenter_safe:
  assumes "dialog_inv b" "is_order ho"
  shows "safe b (release_presenter ho b lease now)"
proof (cases "check_lease (drained b) lease")
  case (Inl e)
  then show ?thesis
    using drained_inv [of b] assms(1) check_lease_err [OF Inl] by (auto simp: release_presenter_def safe_def)
next
  case (Inr u)
  define b1 where "b1 = maintain ho (drained b) now"
  have m: "dialog_inv b1" "keeps b b1" "settles (drained b) b1"
    using maintain_inv [of "drained b" ho now] keeps_trans drained_inv [of b] assms(1)
      maintain_core [of "{}" "drained b" ho now] by (auto simp: b1_def dialog_inv_def)
  have "db_presenter b1 = Some lease"
    using Inr settlesD(1) [OF m(3)] by (simp add: check_lease_ok frame_def)
  then obtain b2 where b2: "requeue_generation ho b1 (pl_generation lease) now CRelease = Inr b2" "dialog_inv b2" "keeps b1 b2"
    "\<forall>h. \<not> parked b2 h"
    using requeue_all [OF m(1) assms(2)] by blast
  have s: "dialog_inv (b2\<lparr>db_presenter := None\<rparr>)" "keeps b2 (b2\<lparr>db_presenter := None\<rparr>)"
    using set_presenter_inv [OF b2(2), of None] b2(4) by auto
  show ?thesis
    using Inr b2(1) s keeps_trans [OF keeps_trans [OF m(2) b2(3)] s(2)]
    by (simp add: release_presenter_def b1_def [symmetric] Let_def finish_def safe_def)
qed


section \<open>Presentation\<close>

text \<open>Taking a dialog from the queue and presenting it, as one step.\<close>

lemma present_inv:
  assumes inv: "dialog_inv b" and slot: "active_len b < rp_active (db_retention b)"
    and lease: "db_presenter b = Some lease" and tok: "Suc (db_next_token b) \<le> u64_max"
    and q: "queue_of b o' = h # rest" and r: "the_record b h = Some r" "dr_state r = DQueued" "dr_owner_service r = o'"
    and b': "b' = b\<lparr>db_queues := db_queues b', db_turns := db_turns b'\<rparr>" "queue_of b' = (queue_of b)(o' := rest)" "queue_shape b'"
  defines "r' \<equiv> r\<lparr>dr_state := Presenting,
      dr_attempt := Some \<lparr>at_generation = pl_generation lease, at_token = db_next_token b\<rparr>\<rparr>"
  defines "b4 \<equiv> put_record (b'\<lparr>db_next_token := Suc (db_next_token b)\<rparr>) h r'"
  shows "dialog_inv b4" "keeps b b4"
proof -
  have core: "dialog_core {} b" by (rule inv_core [OF inv])
  have f: "db_records b' = db_records b" "db_terminal_order b' = db_terminal_order b" "db_transitions b' = db_transitions b"
    "db_retention b' = db_retention b" "db_limits b' = db_limits b" "db_presenter b' = db_presenter b"
    "db_rate b' = db_rate b" "db_epoch b' = db_epoch b" "db_next_generation b' = db_next_generation b"
    "db_transition_limit b' = db_transition_limit b"
    by (subst b'(1), simp)+
  have look: "the_record b4 = (the_record b)(h \<mapsto> r')" by (simp add: b4_def f bm_get_insert fun_eq_iff)
  have q4: "queue_of b4 = (queue_of b)(o' := rest)"
    using b'(2) queue_of_cong [of b4 b'] by (simp add: b4_def)
  have ok: "record_ok b4 {} x y" if "the_record b x = Some y" for x y
    using core_record [OF core that] by (auto simp: record_ok_def b4_def f less_SucI)
  have "record_ok b4 {} h r'"
    using core_record [OF core r(1)] r lease by (auto simp: record_ok_def b4_def f r'_def split: option.splits)
  then have "records_ok {} b4"
    unfolding records_ok_def look using ok core_bm_inv [OF core] by (auto simp: b4_def f bm_inv_insert)
  moreover have "queue_shape b4" using b'(3) q4 b'(2) by (simp add: queue_shape_def b4_def)
  moreover have "queue_content b4"
    unfolding queue_content_def q4 look
  proof (intro conjI allI impI)
    have dist: "h \<notin> set rest" using core q unfolding dialog_core_def queue_shape_def by (metis distinct.simps(2))
    fix x y assume y: "y \<in> set (((queue_of b)(o' := rest)) x)"
    then have "y \<in> set (queue_of b x)" using q by (auto split: if_splits)
    then obtain s where s: "the_record b y = Some s" "dr_state s = DQueued" "dr_owner_service s = x"
      using queue_waiting(1) [OF core] by blast
    moreover have "y \<noteq> h" using y s r dist by auto
    ultimately show "\<exists>r. ((the_record b)(h \<mapsto> r')) y = Some r \<and> dr_state r = DQueued \<and> dr_owner_service r = x" by simp
  next
    fix x y assume t: "db_next_token b4 < u64_max" and y: "((the_record b)(h \<mapsto> r')) x = Some y" "dr_state y = DQueued"
    have "x \<noteq> h" using y by (auto simp: r'_def)
    moreover have "db_next_token b < u64_max" using t by (simp add: b4_def)
    ultimately have "x \<in> set (queue_of b (dr_owner_service y))"
      using core y unfolding dialog_core_def queue_content_def by simp
    then show "x \<in> set (((queue_of b)(o' := rest)) (dr_owner_service y))" using q \<open>x \<noteq> h\<close> by auto
  qed
  moreover have "terminals_ok b4"
  proof -
    have "terminal_in b4 x = terminal_in b x" for x unfolding terminal_in_def look using r by (auto simp: r'_def)
    then show ?thesis using core by (simp add: dialog_core_def terminals_ok_def b4_def f)
  qed
  moreover have "control_ok b4" using core tok by (simp add: dialog_core_def control_ok_def b4_def f)
  ultimately have "dialog_core {} b4" by (simp add: dialog_core_def)
  moreover have "queue_bounded b4"
  proof -
    have shapes: "queue_shape b" "queue_shape b4" using core \<open>queue_shape b4\<close> by (simp_all add: dialog_core_def)
    have le: "length (queue_of b4 x) \<le> length (queue_of b x)" for x using q by (simp add: q4)
    have "db_limits b4 = db_limits b" by (simp add: b4_def f)
    then show ?thesis
      using inv le queued_len_mono [OF shapes le] unfolding dialog_inv_def queue_bounded_def by (metis le_trans)
  qed
  moreover have "active_len b4 \<le> rp_active (db_retention b4)"
  proof -
    have "active_len (put_record b h r') = Suc (active_len b)"
      using active_len_put [OF core_bm_inv [OF core], of h r'] r by (simp add: r'_def)
    moreover have "active_len b4 = active_len (put_record b h r')" by (simp add: active_len_def b4_def f)
    ultimately show ?thesis using slot by (simp add: b4_def f)
  qed
  ultimately show "dialog_inv b4" by (simp add: dialog_inv_def)
  show "keeps b b4" unfolding keeps_def look using r by auto
qed

text \<open>When the attempt counter is exhausted the dialog has already left its queue.\<close>

lemma dequeued_exhausted:
  assumes inv: "dialog_inv b" and tok: "db_next_token b = u64_max"
    and q: "queue_of b o' = h # rest"
    and b': "b' = b\<lparr>db_queues := db_queues b', db_turns := db_turns b'\<rparr>" "queue_of b' = (queue_of b)(o' := rest)" "queue_shape b'"
  shows "dialog_inv b'" "keeps b b'"
proof -
  have core: "dialog_core {} b" by (rule inv_core [OF inv])
  have f: "db_records b' = db_records b" "db_terminal_order b' = db_terminal_order b" "db_transitions b' = db_transitions b"
    "frame b' = frame b"
    by (subst b'(1), simp add: frame_def)+
  note fr = frame_eqD [OF f(4)]
  have "record_ok b' {} = record_ok b {}" by (simp add: fun_eq_iff record_ok_def fr)
  moreover have "queue_content b'"
    using core q tok unfolding dialog_core_def queue_content_def b'(2) fr f(1) by (auto split: if_splits)
  ultimately have "dialog_core {} b'"
    using core b'(3) by (simp add: dialog_core_def records_ok_def terminals_ok_def terminal_in_def control_ok_def f fr)
  moreover have "length (queue_of b' x) \<le> length (queue_of b x)" for x using q by (simp add: b'(2))
  then have "queue_bounded b'"
    using inv queued_len_mono [of b b'] b'(3) unfolding dialog_inv_def dialog_core_def queue_bounded_def fr by (meson le_trans)
  moreover have "active_len b' = active_len b" by (simp add: active_len_def f)
  ultimately show "dialog_inv b'" using inv by (simp add: dialog_inv_def fr)
  show "keeps b b'" by (simp add: keeps_def f)
qed

text \<open>All outcomes of asking for the next presentation.\<close>

lemma next_presentation_cases:
  fixes b :: dialog_broker and ho :: hash_order and now :: nat
  assumes inv: "dialog_inv b"
  defines "b1 \<equiv> maintain ho (drained b) now"
  shows "safe b (next_presentation ho b lease now)"
    "fst (next_presentation ho b lease now) = Inr (Some p) \<Longrightarrow>
       \<exists>o' ts rest. db_turns b1 = o' # ts \<and> queue_of b1 o' = pr_handle p # rest \<and> db_presenter b = Some lease
         \<and> db_turns (snd (next_presentation ho b lease now)) = (if rest \<noteq> [] then ts @ [o'] else ts)
         \<and> queue_of (snd (next_presentation ho b lease now)) = (queue_of b1)(o' := rest)
         \<and> pr_attempt_token p = db_next_token b1"
proof (atomize (full))
  have d: "dialog_inv (drained b)" "keeps b (drained b)" using drained_inv [of b] inv by simp_all
  have m: "dialog_inv b1" "keeps b b1" "settles (drained b) b1"
    using maintain_inv [OF d(1)] keeps_trans [OF d(2)] maintain_core [OF inv_core [OF d(1)]] by (auto simp: b1_def)
  have core: "dialog_core {} b1" by (rule inv_core [OF m(1)])
  let ?out = "next_presentation ho b lease now"
  have "safe b ?out \<and> (fst ?out = Inr (Some p) \<longrightarrow>
       (\<exists>o' ts rest. db_turns b1 = o' # ts \<and> queue_of b1 o' = pr_handle p # rest \<and> db_presenter b = Some lease
         \<and> db_turns (snd ?out) = (if rest \<noteq> [] then ts @ [o'] else ts)
         \<and> queue_of (snd ?out) = (queue_of b1)(o' := rest) \<and> pr_attempt_token p = db_next_token b1))"
  proof (cases "check_lease (drained b) lease")
    case (Inl e)
    then show ?thesis using d check_lease_err [OF Inl] by (auto simp: next_presentation_def safe_def)
  next
    case (Inr u)
    have pres: "db_presenter b = Some lease" "db_presenter b1 = Some lease"
      using Inr settlesD(1) [OF m(3)] by (simp_all add: check_lease_ok frame_def drain_pending_report_def)
    have out: "?out = (if active_len b1 \<ge> rp_active (db_retention b1) then (Inr None, b1)
          else (case dequeue_fair b1 of
             (Inl e, b2) \<Rightarrow> (Inl e, b2)
           | (Inr None, b2) \<Rightarrow> (Inr None, b2)
           | (Inr (Some h), b2) \<Rightarrow>
               (case mint_attempt_token b2 of
                  (Inl e, b3) \<Rightarrow> (Inl e, b3)
                | (Inr token, b3) \<Rightarrow>
                    (case the_record b3 h of
                       None \<Rightarrow> (Inl DPanic, b3)
                     | Some r \<Rightarrow>
                         let b4 = put_record b3 h (r\<lparr>dr_state := Presenting,
                                    dr_attempt := Some \<lparr>at_generation = pl_generation lease, at_token = token\<rparr>\<rparr>)
                         in (Inr (Some \<lparr>pr_handle = h, pr_attempt_token = token, pr_request = dr_request r,
                               pr_progress = dr_progress r, pr_cancel_requested = dr_cancel_requested r\<rparr>),
                             record_transition b4 h (Some DQueued) (Some Presenting) CPresent)))))"
      using Inr by (simp add: next_presentation_def Let_def b1_def)
    show ?thesis
    proof (cases "active_len b1 \<ge> rp_active (db_retention b1) \<or> db_turns b1 = []")
      case True
      then show ?thesis using out m(1,2) dequeue_step(1) [OF core_backed [OF core]] by (auto simp: safe_def)
    next
      case False
      then obtain o' ts where turns: "db_turns b1 = o' # ts" and slot: "active_len b1 < rp_active (db_retention b1)"
        by (cases "db_turns b1") auto
      obtain h rest r b2 where e: "queue_of b1 o' = h # rest" "the_record b1 h = Some r" "dr_state r = DQueued"
        "dr_owner_service r = o'" "dequeue_fair b1 = (Inr (Some h), b2)"
        "b2 = b1\<lparr>db_queues := db_queues b2, db_turns := (if rest \<noteq> [] then ts @ [o'] else ts)\<rparr>"
        "queue_of b2 = (queue_of b1)(o' := rest)" "queue_shape b2"
        using dequeue_step(2) [OF core_backed [OF core] turns] by blast
      have t2: "db_turns b2 = (if rest \<noteq> [] then ts @ [o'] else ts)" by (subst e(6)) simp
      have b2: "b2 = b1\<lparr>db_queues := db_queues b2, db_turns := db_turns b2\<rparr>" using e(6) t2 by simp
      have f2: "db_next_token b2 = db_next_token b1" "db_records b2 = db_records b1" by (subst b2, simp)+
      have bound: "db_next_token b1 \<le> u64_max" using core by (simp add: dialog_core_def control_ok_def)
      show ?thesis
      proof (cases "checked_add (db_next_token b2) 1")
        case None
        then have "db_next_token b1 = u64_max" using bound f2 by (auto simp: checked_add_def split: if_splits)
        note x = dequeued_exhausted [OF m(1) this e(1) b2 e(7,8)]
        show ?thesis
          using None slot e(5) x keeps_trans [OF m(2) x(2)]
          by (simp add: out mint_attempt_token_def safe_def)
      next
        case (Some n)
        then have n: "n = Suc (db_next_token b1)" "Suc (db_next_token b1) \<le> u64_max"
          using f2 by (auto simp: checked_add_def split: if_splits)
        note x = present_inv [OF m(1) slot pres(2) n(2) e(1-4) b2 e(7,8)]
        have q4: "queue_of (b2\<lparr>db_next_token := k, db_records := rs\<rparr>) = queue_of b2" for k rs
          by (rule queue_of_cong) simp
        show ?thesis
          using Some slot e(5) x keeps_trans [OF m(2) x(2)] n turns e(1,2,7) pres(1) t2 q4
          by (auto simp: out mint_attempt_token_def safe_def f2 record_transition_inv Let_def)
      qed
    qed
  qed
  then show "safe b ?out \<and> (fst ?out = Inr (Some p) \<longrightarrow>
       (\<exists>o' ts rest. db_turns b1 = o' # ts \<and> queue_of b1 o' = pr_handle p # rest \<and> db_presenter b = Some lease
         \<and> db_turns (snd ?out) = (if rest \<noteq> [] then ts @ [o'] else ts)
         \<and> queue_of (snd ?out) = (queue_of b1)(o' := rest) \<and> pr_attempt_token p = db_next_token b1))" .
qed

section \<open>The remaining operations\<close>

lemma fold_withdraw_inv:
  assumes "dialog_inv b"
  shows "dialog_inv (fold (\<lambda>h b. transition_terminal b h DFailed None now CWithdraw) hs b)"
    "keeps b (fold (\<lambda>h b. transition_terminal b h DFailed None now CWithdraw) hs b)"
  using inv_settles [OF assms] fold_terminal [OF inv_core [OF assms], of DFailed now CWithdraw hs] by auto

lemma withdraw_owner_inv:
  assumes "dialog_inv b"
  shows "dialog_inv (snd (withdraw_owner ho b owner now))" "keeps b (snd (withdraw_owner ho b owner now))"
proof -
  note m = maintain_inv [OF drained_inv(1) [OF assms], of ho now]
  note w = fold_withdraw_inv [OF m(1)]
  show "dialog_inv (snd (withdraw_owner ho b owner now))" by (simp add: withdraw_owner_def Let_def w(1))
  show "keeps b (snd (withdraw_owner ho b owner now))"
    using keeps_trans [OF drained_inv(2) keeps_trans [OF m(2) w(2)]] by (simp add: withdraw_owner_def Let_def)
qed

text \<open>Fields outside the invariant may be reset freely.\<close>

lemma reports_inv:
  "dialog_inv (b\<lparr>db_expirations := xs\<rparr>) = dialog_inv b"
  "dialog_inv (b\<lparr>db_evictions := xs\<rparr>) = dialog_inv b"
  "keeps b0 (b\<lparr>db_expirations := xs\<rparr>) = keeps b0 b"
  "keeps b0 (b\<lparr>db_evictions := xs\<rparr>) = keeps b0 b"
  by (simp_all add: dialog_inv_def core_cong(1) [of "b\<lparr>db_expirations := xs\<rparr>" b] core_cong(1) [of "b\<lparr>db_evictions := xs\<rparr>" b]
      frame_def queue_bounded_def queued_len_def active_len_def queue_of_def keeps_def)

lemma dialog_expire_inv:
  assumes "dialog_inv b"
  shows "dialog_inv (snd (dialog_expire ho b now))" "keeps b (snd (dialog_expire ho b now))"
proof -
  note d = drained_inv(1) [OF assms]
  have e: "dialog_core {} (expire_due ho (drained b) now) \<and> settles (drained b) (expire_due ho (drained b) now)"
    by (rule expire_due_core [OF inv_core [OF d]])
  note i = inv_settles [OF d conjunct1 [OF e] conjunct2 [OF e]]
  show "dialog_inv (snd (dialog_expire ho b now))" by (simp add: dialog_expire_def Let_def reports_inv i)
  show "keeps b (snd (dialog_expire ho b now))"
    using keeps_trans [OF drained_inv(2) i(2)] by (simp add: dialog_expire_def Let_def reports_inv)
qed

lemma dialog_gc_inv:
  assumes "dialog_inv b"
  shows "dialog_inv (snd (dialog_gc ho b now))" "keeps b (snd (dialog_gc ho b now))"
  using maintain_inv [OF assms, of ho now] by (simp_all add: dialog_gc_def drain_pending_report_def reports_inv)

lemma drain_transitions_inv:
  assumes "dialog_inv b"
  shows "dialog_inv (snd (drain_transitions b))" "keeps b (snd (drain_transitions b))"
proof -
  let ?b = "b\<lparr>db_transitions := [], db_overflowed := False\<rparr>"
  have "queue_of ?b = queue_of b" by (rule queue_of_cong) simp
  moreover have "record_ok ?b {} = record_ok b {}" by (simp add: fun_eq_iff record_ok_def)
  ultimately show "dialog_inv (snd (drain_transitions b))"
    using assms by (simp add: drain_transitions_def dialog_inv_def dialog_core_def records_ok_def queue_shape_def
        queue_content_def terminals_ok_def terminal_in_def control_ok_def queue_bounded_def queued_len_def active_len_def)
  show "keeps b (snd (drain_transitions b))" by (simp add: drain_transitions_def keeps_def)
qed

end
