(* ===== verification/Interact_DialogMachine.thy ===== *)
theory Interact_DialogMachine
  imports Interact_DialogOps
begin

text \<open>
  The dialog broker as a state machine: every public operation of \<open>DialogBroker\<close> is one step, the hash map may
  yield its records in a different order at each of them, and the promises of the broker hold in every state a
  sequence of calls can reach.
\<close>

section \<open>Calls\<close>

datatype dialog_call =
    COpenDialog string string dialog_open_request interaction_handle
  | CRegister string
  | CReleasePresenter presenter_lease
  | CNextPresentation presenter_lease
  | CMark presenter_lease interaction_handle nat
  | CResolveDialog presenter_lease interaction_handle nat dialog_value
  | CFailPresentation presenter_lease interaction_handle nat
  | CRequestCancel presenter_lease interaction_handle nat
  | CCancelDialog string string interaction_handle
  | CUpdate string string interaction_handle progress_patch
  | CComplete string string interaction_handle progress_completion
  | CWithdrawOwner string
  | CExpireNow
  | CGc
  | CDrain

definition failed :: "'a attempted \<times> dialog_broker \<Rightarrow> dialog_failure option \<times> dialog_broker" where
  "failed out = (case fst out of Inl e \<Rightarrow> Some e | Inr _ \<Rightarrow> None, snd out)"

fun dialog_step :: "hash_order \<Rightarrow> dialog_broker \<Rightarrow> dialog_call \<Rightarrow> nat \<Rightarrow> dialog_failure option \<times> dialog_broker" where
  "dialog_step ho b (COpenDialog owner token req h) now = failed (dialog_open ho b owner token req now h)"
| "dialog_step ho b (CRegister srv) now = failed (register_presenter ho b srv now)"
| "dialog_step ho b (CReleasePresenter lease) now = failed (release_presenter ho b lease now)"
| "dialog_step ho b (CNextPresentation lease) now = failed (next_presentation ho b lease now)"
| "dialog_step ho b (CMark lease h token) now = failed (mark_presented b lease h token now)"
| "dialog_step ho b (CResolveDialog lease h token v) now = failed (resolve ho b lease h token v now)"
| "dialog_step ho b (CFailPresentation lease h token) now = failed (fail_presentation b lease h token now)"
| "dialog_step ho b (CRequestCancel lease h token) now = failed (request_progress_cancel b lease h token now)"
| "dialog_step ho b (CCancelDialog owner token h) now = failed (dialog_cancel b owner token h now)"
| "dialog_step ho b (CUpdate owner token h patch) now = failed (update_progress b owner token h patch now)"
| "dialog_step ho b (CComplete owner token h c) now = failed (complete_progress b owner token h c now)"
| "dialog_step ho b (CWithdrawOwner owner) now = (None, snd (withdraw_owner ho b owner now))"
| "dialog_step ho b CExpireNow now = (None, snd (dialog_expire ho b now))"
| "dialog_step ho b CGc now = (None, snd (dialog_gc ho b now))"
| "dialog_step ho b CDrain now = (None, snd (drain_transitions b))"

definition opens :: "dialog_call \<Rightarrow> interaction_handle set" where
  "opens c = (case c of COpenDialog _ _ _ h \<Rightarrow> {h} | _ \<Rightarrow> {})"

inductive dialog_reach :: "dialog_broker \<Rightarrow> bool" where
  start: "limiter_inv rl \<Longrightarrow> ql_total limits < u64_max \<Longrightarrow> ql_per_origin limits < u64_max \<Longrightarrow>
    dialog_reach (with_instance_epoch (dialog_broker_new rl limits retention) epoch)"
| step: "dialog_reach b \<Longrightarrow> is_order ho \<Longrightarrow> dialog_reach (snd (dialog_step ho b c now))"

lemma failed_safe:
  assumes "safe b out"
  shows "dialog_inv (snd (failed out))" "keeps_except H b (snd (failed out))" "fst (failed out) \<notin> {Some DPanic, Some DHang}"
  using assms keeps_keeps_except by (auto simp: failed_def safe_def clean_def split: sum.splits)

text \<open>What every call promises; opening may add the record of its own handle.\<close>

lemma dialog_step_ok:
  assumes "dialog_inv b" "is_order ho"
  shows "dialog_inv (snd (dialog_step ho b c now))"
    "keeps_except (opens c) b (snd (dialog_step ho b c now))"
    "fst (dialog_step ho b c now) \<notin> {Some DPanic, Some DHang}"
proof -
  note ops = register_presenter_safe [OF assms] release_presenter_safe [OF assms] next_presentation_cases(1) [OF assms(1)]
    mark_presented_safe [OF assms(1)] resolve_safe [OF assms] fail_presentation_safe [OF assms(1)]
    request_progress_cancel_safe [OF assms(1)] dialog_cancel_safe [OF assms(1)] update_progress_safe [OF assms(1)]
    complete_progress_safe [OF assms(1)]
  note rest = withdraw_owner_inv [OF assms(1)] dialog_expire_inv [OF assms(1)] dialog_gc_inv [OF assms(1)]
    drain_transitions_inv [OF assms(1)]
  have "dialog_inv (snd (dialog_step ho b c now)) \<and> keeps_except (opens c) b (snd (dialog_step ho b c now))
    \<and> fst (dialog_step ho b c now) \<notin> {Some DPanic, Some DHang}"
  proof (cases c)
    case (COpenDialog owner token req h)
    show ?thesis
      using dialog_open_cases [OF assms(1), where ho = ho and now = now and owner = owner and token = token and req = req and h = h] keeps_keeps_except
      by (auto simp: COpenDialog failed_def opens_def split: prod.splits sum.splits)
  qed (use failed_safe [OF ops(1)] failed_safe [OF ops(2)] failed_safe [OF ops(3)] failed_safe [OF ops(4)]
      failed_safe [OF ops(5)] failed_safe [OF ops(6)] failed_safe [OF ops(7)] failed_safe [OF ops(8)]
      failed_safe [OF ops(9)] failed_safe [OF ops(10)] rest keeps_keeps_except in \<open>simp_all\<close>)
  then show "dialog_inv (snd (dialog_step ho b c now))"
    "keeps_except (opens c) b (snd (dialog_step ho b c now))"
    "fst (dialog_step ho b c now) \<notin> {Some DPanic, Some DHang}" by blast+
qed

lemma dialog_start_inv:
  assumes "limiter_inv rl" "ql_total limits < u64_max" "ql_per_origin limits < u64_max"
  shows "dialog_inv (with_instance_epoch (dialog_broker_new rl limits retention) epoch)"
  using assms by (simp add: with_instance_epoch_def dialog_broker_new_def Let_def dialog_inv_def dialog_core_def records_ok_def
      bm_get_def bm_inv_def queue_shape_def queue_of_def queue_content_def terminals_ok_def terminal_in_def control_ok_def
      queue_bounded_def queued_len_def active_len_def u64_max_def)

lemma dialog_reach_inv: "dialog_reach b \<Longrightarrow> dialog_inv b"
  by (induction rule: dialog_reach.induct) (blast intro: dialog_start_inv dialog_step_ok(1))+

section \<open>A sample run\<close>

text \<open>One dialog is opened by \<open>app\<close>, presented by \<open>desk\<close> and answered.\<close>

definition sample_limits :: queue_limits where
  "sample_limits = \<lparr>ql_total = 4, ql_per_origin = 2\<rparr>"

definition sample_retention :: retention_policy where
  "sample_retention = \<lparr>rp_active = 2, rp_terminal = 4, rp_terminal_ttl_ms = 1000\<rparr>"

definition sample_dialog :: dialog_open_request where
  "sample_dialog = \<lparr>or_dialog = MessageReq \<lparr>dc_title = ''t'', dc_message = None, dc_severity = SevInfo\<rparr> None, or_deadline_ms = None\<rparr>"

definition sample_lease :: presenter_lease where
  "sample_lease = \<lparr>pl_service = ''desk'', pl_generation = 1, pl_epoch = 7\<rparr>"

definition sample_start :: dialog_broker where
  "sample_start = with_instance_epoch (dialog_broker_new sample_limiter sample_limits sample_retention) 7"

abbreviation sample_handle :: interaction_handle where
  "sample_handle \<equiv> InteractionHandle ''h''"

lemma id_order: "is_order id"
  by (simp add: is_order_def)

lemma sample_dialog_valid: "open_validate sample_dialog = Inr ()"
  by (simp add: open_validate_def sample_dialog_def dialog_validate_def dlg_common_def dlg_non_empty_len_def dlg_len_def
      dlg_optional_len_def  dialog_retained_bytes_def str_len_def opt_len_def
      MAX_DIALOG_TITLE_BYTES_def MAX_DIALOG_REQUEST_BYTES_def DIALOG_RAW_INGRESS_CAP_def)

lemma sample_start_reach: "dialog_reach sample_start"
  unfolding sample_start_def
  by (rule dialog_reach.start) (simp_all add: sample_limiter_inv sample_limits_def u64_max_def)

definition sample_rate :: rate_limiter where
  "sample_rate = snd (try_consume sample_limiter ''app'' 0)"

lemma sample_take: "try_consume sample_limiter ''app'' 0 = (True, sample_rate)"
proof -
  have "fst (try_consume sample_limiter ''app'' 0)" by (simp add: limiter_eval Let_def)
  then show ?thesis by (simp add: sample_rate_def prod_eq_iff)
qed

text \<open>The states of the run, the journal drained after each step.\<close>

definition sample_state :: "dialog_record list \<Rightarrow> (string, interaction_handle list) bmap \<Rightarrow> string list
    \<Rightarrow> presenter_lease option \<Rightarrow> nat \<Rightarrow> nat \<Rightarrow> interaction_handle list \<Rightarrow> dialog_broker" where
  "sample_state rs qs turns p gen tok ended_ones =
     \<lparr>db_rate = sample_rate, db_limits = sample_limits, db_epoch = 7,
      db_records = map (\<lambda>r. (dr_handle r, r)) rs, db_queues = qs, db_turns = turns, db_presenter = p,
      db_next_generation = gen, db_next_token = tok, db_retention = sample_retention,
      db_terminal_order = ended_ones, db_expirations = [], db_evictions = [], db_transitions = [],
      db_transition_limit = 22, db_overflowed = False\<rparr>"

abbreviation drained_step :: "dialog_broker \<Rightarrow> dialog_call \<Rightarrow> dialog_broker" where
  "drained_step b c \<equiv> snd (dialog_step id (snd (dialog_step id b c 0)) CDrain 0)"

definition sample_record :: dialog_record where
  "sample_record = fresh_record ''app'' ''tok'' sample_dialog 0 sample_handle"

definition sample_shown :: dialog_record where
  "sample_shown = sample_record\<lparr>dr_state := Presented, dr_ever_presented := True,
     dr_attempt := Some \<lparr>at_generation = 1, at_token = 1\<rparr>\<rparr>"

lemmas broker_eval = sample_state_def failed_def Let_def drain_transitions_def
  maintain_def expire_due_def iter_records_def evict_terminal_ttl_def drain_pending_report_def
  queued_len_def queue_of_def bm_get_def bm_contains_def sample_limits_def sample_retention_def enqueue_def
  record_transition_def u64_max_def sample_record_def
  sample_lease_def sample_shown_def due_def initial_progress_def
  List.map_filter_def bm_remove_def

lemma fresh_handle [simp]: "dr_handle (fresh_record owner token req now h) = h"
  by (simp add: fresh_record_def)

lemma sample_start_eq: "sample_start = (sample_state [] [] [] None 1 1 [])\<lparr>db_rate := sample_limiter\<rparr>"
  by (simp add: sample_start_def with_instance_epoch_def dialog_broker_new_def sample_state_def sample_limits_def
      sample_retention_def saturating_add_def saturating_mul_def u64_max_def DIALOG_TRANSITION_MUTATION_HEADROOM_def)

lemma sample_open_step:
  "drained_step sample_start (COpenDialog ''app'' ''tok'' sample_dialog sample_handle) =
     sample_state [sample_record] [(''app'', [sample_handle])] [''app''] None 1 1 []"
proof -
  have "snd (dialog_step id sample_start (COpenDialog ''app'' ''tok'' sample_dialog sample_handle) 0) =
     sample_state [sample_record] [(''app'', [sample_handle])] [''app''] None 1 1 []
       \<lparr>db_transitions := [\<lparr>tr_handle = sample_handle, tr_from = None, tr_to = Some DQueued, tr_cause = COpen\<rparr>]\<rparr>"
  proof -
    have calm: "drained sample_start = sample_start" "maintain id sample_start 0 = sample_start"
      by (simp_all add: sample_start_eq broker_eval)
    have fields: "the_record sample_start sample_handle = None" "queued_len sample_start = 0" "queue_of sample_start ''app'' = []"
      "db_limits sample_start = sample_limits" "db_rate sample_start = sample_limiter"
      by (simp_all add: sample_start_eq broker_eval)
    show ?thesis
      by (simp add: dialog_open_def sample_dialog_valid sample_take calm fields sample_limits_def bm_contains_def failed_def Let_def
         del: One_nat_def) (simp add: sample_start_eq broker_eval)
  qed
  then show ?thesis by (simp add: drain_transitions_def sample_state_def)
qed

lemma sample_register_step:
  "drained_step (sample_state [sample_record] [(''app'', [sample_handle])] [''app''] None 1 1 []) (CRegister ''desk'') =
     sample_state [sample_record] [(''app'', [sample_handle])] [''app''] (Some sample_lease) 2 1 []"
  by (simp add: register_presenter_def mint_presenter_generation_def checked_add_def finish_def sample_dialog_def fresh_record_def broker_eval)

lemma sample_present_step:
  "drained_step (drained_step
     (sample_state [sample_record] [(''app'', [sample_handle])] [''app''] (Some sample_lease) 2 1 [])
       (CNextPresentation sample_lease)) (CMark sample_lease sample_handle 1) =
     sample_state [sample_shown] [] [] (Some sample_lease) 2 2 []"
  by (simp add: next_presentation_def dequeue_fair_def mint_attempt_token_def checked_add_def finish_def sample_dialog_def fresh_record_def
     check_lease_def active_len_def mark_presented_def guarded_def presenter_guard_def check_current_attempt_def
     expire_handle_if_due_def broker_eval)

lemma sample_resolve_step:
  "drained_step (sample_state [sample_shown] [] [] (Some sample_lease) 2 2 [])
     (CResolveDialog sample_lease sample_handle 1 MessageVal) =
     sample_state [ended (sample_shown\<lparr>dr_attempt := None\<rparr>) Resolved (Some MessageVal) 0] [] [] (Some sample_lease) 2 2 [sample_handle]"
  by (simp add: resolve_def guarded_def presenter_guard_def check_lease_def check_current_attempt_def expire_handle_if_due_def
      resolve_rejection_def validate_for_def value_kind_def transition_terminal_def trim_terminal_count_def
      remove_from_queue_def ended_def MAX_DIALOG_RESULT_BYTES_def DIALOG_RAW_INGRESS_CAP_def
      sample_dialog_def fresh_record_def broker_eval)

lemma drained_step_reach: "dialog_reach b \<Longrightarrow> dialog_reach (drained_step b c)"
  by (intro dialog_reach.step id_order)

lemma sample_reached:
  "dialog_reach (sample_state [sample_record] [(''app'', [sample_handle])] [''app''] (Some sample_lease) 2 1 [])"
  "dialog_reach (sample_state [sample_shown] [] [] (Some sample_lease) 2 2 [])"
  "dialog_reach (sample_state [ended (sample_shown\<lparr>dr_attempt := None\<rparr>) Resolved (Some MessageVal) 0] [] []
     (Some sample_lease) 2 2 [sample_handle])"
proof -
  note reach1 = drained_step_reach [OF sample_start_reach, of "COpenDialog ''app'' ''tok'' sample_dialog sample_handle",
      unfolded sample_open_step]
  show reach2: "dialog_reach (sample_state [sample_record] [(''app'', [sample_handle])] [''app''] (Some sample_lease) 2 1 [])"
    using drained_step_reach [OF reach1, of "CRegister ''desk''", unfolded sample_register_step] .
  note reach3 = drained_step_reach [OF drained_step_reach [OF reach2, of "CNextPresentation sample_lease"],
      of "CMark sample_lease sample_handle 1", unfolded sample_present_step]
  show "dialog_reach (sample_state [sample_shown] [] [] (Some sample_lease) 2 2 [])" by (rule reach3)
  show "dialog_reach (sample_state [ended (sample_shown\<lparr>dr_attempt := None\<rparr>) Resolved (Some MessageVal) 0] [] []
     (Some sample_lease) 2 2 [sample_handle])"
    using drained_step_reach [OF reach3, of "CResolveDialog sample_lease sample_handle 1 MessageVal",
        unfolded sample_resolve_step] .
qed

section \<open>What holds in every reachable state\<close>

lemma terminal_count:
  assumes "dialog_inv b"
  shows "card {h. terminal_in b h} \<le> rp_terminal (db_retention b)"
proof -
  have t: "terminals_ok b" using assms by (simp add: dialog_inv_def dialog_core_def)
  then have "{h. terminal_in b h} = set (db_terminal_order b)" by (auto simp: terminals_ok_def)
  then show ?thesis using t distinct_card [of "db_terminal_order b"] by (simp add: terminals_ok_def)
qed

text \<open>C3: Whatever calls presenters and owners make, in any order, at any clock value and for any iteration
  order of the hash map, the broker stays within its configured bounds -- dialogs queued in total and per origin,
  dialogs presented at once, finished dialogs retained, journal entries -- and no call of it ever panics or loops
  forever, so that every refusal is one of the documented errors.\<close>

theorem dialog_broker_bounded:
  assumes "dialog_reach b" "is_order ho"
  shows "queued_len b \<le> ql_total (db_limits b) \<and> (\<forall>o'. length (queue_of b o') \<le> ql_per_origin (db_limits b))
    \<and> active_len b \<le> rp_active (db_retention b)
    \<and> card {h. terminal_in b h} \<le> rp_terminal (db_retention b)
    \<and> length (db_transitions b) \<le> db_transition_limit b
    \<and> fst (dialog_step ho b c now) \<notin> {Some DPanic, Some DHang}"
proof -
  have inv: "dialog_inv b" by (rule dialog_reach_inv [OF assms(1)])
  then show ?thesis
    using terminal_count [OF inv] dialog_step_ok(3) [OF inv assms(2), of c now]
    by (simp add: dialog_inv_def dialog_core_def queue_bounded_def control_ok_def)
qed

theorem dialog_broker_bounded_witness:
  "queued_len sample_start \<le> 4 \<and> fst (dialog_step id sample_start (CRegister ''desk'') 0) \<notin> {Some DPanic, Some DHang}"
  using dialog_broker_bounded [OF sample_start_reach id_order, of "CRegister ''desk''" 0]
  by (simp add: sample_start_eq sample_state_def sample_limits_def)

text \<open>C18: In every reachable state each dialog is consistent: it carries an answer exactly when it is resolved, and
  that answer is one its request allows; it has a live attempt exactly while it is with the presenter, that
  attempt belongs to the presenter now registered and its token has been handed out before; it was requeued at
  most the permitted number of times; and a dialog waits in the queue of its owner, in exactly one place, if and
  only if it is in the queued state, as long as attempt tokens last.\<close>

theorem dialog_records_consistent:
  assumes "dialog_reach b" "the_record b h = Some r"
  shows "(dr_state r = Resolved \<longleftrightarrow> dr_value r \<noteq> None)
    \<and> (\<forall>v. dr_value r = Some v \<longrightarrow> answers (or_dialog (dr_request r)) v)
    \<and> (dr_attempt r \<noteq> None \<longleftrightarrow> active_state (dr_state r))
    \<and> (\<forall>a. dr_attempt r = Some a \<longrightarrow> at_token a < db_next_token b
         \<and> (\<exists>l. db_presenter b = Some l \<and> at_generation a = pl_generation l))
    \<and> dr_requeues r \<le> MAX_DIALOG_PRE_DISPLAY_REQUEUES
    \<and> (\<forall>o'. h \<in> set (queue_of b o') \<longrightarrow> dr_state r = DQueued \<and> dr_owner_service r = o' \<and> distinct (queue_of b o'))
    \<and> (db_next_token b < u64_max \<longrightarrow> dr_state r = DQueued \<longrightarrow> h \<in> set (queue_of b (dr_owner_service r)))"
proof -
  have core: "dialog_core {} b" by (rule inv_core [OF dialog_reach_inv [OF assms(1)]])
  have ok: "record_ok b {} h r" by (rule core_record [OF core assms(2)])
  have "queue_shape b" "queue_content b" using core by (simp_all add: dialog_core_def)
  then have "\<forall>o'. h \<in> set (queue_of b o') \<longrightarrow> dr_state r = DQueued \<and> dr_owner_service r = o' \<and> distinct (queue_of b o')"
    "db_next_token b < u64_max \<longrightarrow> dr_state r = DQueued \<longrightarrow> h \<in> set (queue_of b (dr_owner_service r))"
    using assms(2) by (fastforce simp: queue_shape_def queue_content_def)+
  moreover have "dr_state r = Resolved \<longleftrightarrow> dr_value r \<noteq> None" "\<forall>v. dr_value r = Some v \<longrightarrow> answers (or_dialog (dr_request r)) v"
    using ok by (auto simp: record_ok_def split: option.splits)
  ultimately show ?thesis using ok unfolding record_ok_def by simp
qed

theorem dialog_records_consistent_witness:
  "dr_value (ended (sample_shown\<lparr>dr_attempt := None\<rparr>) Resolved (Some MessageVal) 0) \<noteq> None
   \<and> answers (or_dialog sample_dialog) MessageVal"
proof -
  let ?r = "ended (sample_shown\<lparr>dr_attempt := None\<rparr>) Resolved (Some MessageVal) 0"
  have "the_record (sample_state [?r] [] [] (Some sample_lease) 2 2 [sample_handle]) sample_handle = Some ?r"
    by (simp add: sample_state_def bm_get_def ended_def sample_shown_def sample_record_def)
  from dialog_records_consistent [OF sample_reached(3) this] show ?thesis
    by (simp add: ended_def sample_shown_def sample_record_def fresh_record_def)
qed

text \<open>A finished dialog is final.  No call changes its record: afterwards the record is the same or has been
  evicted, and a call that opens a dialog under the same handle either is refused or comes after the eviction.
  A handle that is unknown stays unknown unless the call opens it.\<close>

theorem dialog_terminal_final:
  assumes "dialog_reach b" "is_order ho"
  shows "(\<forall>r. the_record b h = Some r \<longrightarrow> dialog_terminal (dr_state r) \<longrightarrow> h \<notin> opens c \<longrightarrow>
       the_record (snd (dialog_step ho b c now)) h \<in> {Some r, None})
    \<and> (the_record b h = None \<longrightarrow> h \<notin> opens c \<longrightarrow> the_record (snd (dialog_step ho b c now)) h = None)
    \<and> (\<forall>owner token req. fst (dialog_step ho b (COpenDialog owner token req h) now) = None \<longrightarrow>
         the_record (maintain ho (drained b) now) h = None
         \<and> the_record (snd (dialog_step ho b (COpenDialog owner token req h) now)) h =
             Some (fresh_record owner token req now h))"
proof -
  have inv: "dialog_inv b" by (rule dialog_reach_inv [OF assms(1)])
  have "keeps_except (opens c) b (snd (dialog_step ho b c now))" by (rule dialog_step_ok(2) [OF inv assms(2)])
  moreover have "the_record (maintain ho (drained b) now) h = None
      \<and> the_record (snd (dialog_step ho b (COpenDialog owner token req h) now)) h = Some (fresh_record owner token req now h)"
    if "fst (dialog_step ho b (COpenDialog owner token req h) now) = None" for owner token req
    using that dialog_open_cases [OF inv, where ho = ho and now = now and owner = owner and token = token and req = req and h = h]
    by (auto simp: failed_def split: prod.splits sum.splits)
  ultimately show ?thesis unfolding keeps_except_def by blast
qed

theorem dialog_terminal_final_witness:
  "the_record (snd (dialog_step id (sample_state [ended (sample_shown\<lparr>dr_attempt := None\<rparr>) Resolved (Some MessageVal) 0] [] []
     (Some sample_lease) 2 2 [sample_handle]) (CCancelDialog ''app'' ''tok'' sample_handle) 5)) sample_handle
   \<in> {Some (ended (sample_shown\<lparr>dr_attempt := None\<rparr>) Resolved (Some MessageVal) 0), None}"
proof -
  let ?r = "ended (sample_shown\<lparr>dr_attempt := None\<rparr>) Resolved (Some MessageVal) 0"
  have "the_record (sample_state [?r] [] [] (Some sample_lease) 2 2 [sample_handle]) sample_handle = Some ?r"
    "dialog_terminal (dr_state ?r)" "sample_handle \<notin> opens (CCancelDialog ''app'' ''tok'' sample_handle)"
    by (simp_all add: sample_state_def bm_get_def ended_def sample_shown_def sample_record_def opens_def)
  then show ?thesis
    using dialog_terminal_final [OF sample_reached(3) id_order, of sample_handle "CCancelDialog ''app'' ''tok'' sample_handle" 5]
    by blast
qed

section \<open>Authority\<close>

definition holds_lease :: "dialog_broker \<Rightarrow> presenter_lease \<Rightarrow> bool" where
  "holds_lease b lease \<longleftrightarrow> db_presenter b = Some lease \<and> pl_epoch lease = db_epoch b"

definition holds_attempt :: "dialog_broker \<Rightarrow> presenter_lease \<Rightarrow> interaction_handle \<Rightarrow> nat \<Rightarrow> bool" where
  "holds_attempt b lease h token \<longleftrightarrow> holds_lease b lease \<and> (\<exists>r. the_record b h = Some r
     \<and> dr_attempt r = Some \<lparr>at_generation = pl_generation lease, at_token = token\<rparr>)"

definition owns :: "dialog_broker \<Rightarrow> string \<Rightarrow> string \<Rightarrow> interaction_handle \<Rightarrow> bool" where
  "owns b owner token h \<longleftrightarrow> (\<exists>r. the_record b h = Some r \<and> dr_owner_service r = owner \<and> dr_owner_token r = token)"

text \<open>Who may make a call.\<close>

definition authorised :: "dialog_broker \<Rightarrow> dialog_call \<Rightarrow> bool" where
  "authorised b c = (case c of
     CReleasePresenter lease \<Rightarrow> holds_lease b lease
   | CNextPresentation lease \<Rightarrow> holds_lease b lease
   | CMark lease h token \<Rightarrow> holds_attempt b lease h token
   | CResolveDialog lease h token _ \<Rightarrow> holds_attempt b lease h token
   | CFailPresentation lease h token \<Rightarrow> holds_attempt b lease h token
   | CRequestCancel lease h token \<Rightarrow> holds_attempt b lease h token
   | CCancelDialog owner token h \<Rightarrow> owns b owner token h
   | CUpdate owner token h _ \<Rightarrow> owns b owner token h
   | CComplete owner token h _ \<Rightarrow> owns b owner token h
   | _ \<Rightarrow> True)"

lemma drained_fields [simp]:
  "db_presenter (drained b) = db_presenter b" "db_epoch (drained b) = db_epoch b" "db_records (drained b) = db_records b"
  by (simp_all add: drain_pending_report_def)

lemma lease_refused: "\<not> holds_lease b lease \<Longrightarrow> \<exists>e. check_lease (drained b) lease = Inl (DErr e)"
  by (auto simp: holds_lease_def check_lease_def split: option.splits)

lemma presenter_refused:
  assumes "\<not> holds_attempt b lease h token"
  shows "\<exists>e. presenter_guard b lease h token now = (Inl (DErr e), drained b)"
proof (cases "holds_lease b lease")
  case False
  then show ?thesis using lease_refused [OF False] by (auto simp: presenter_guard_def Let_def)
next
  case True
  have "\<exists>e. check_current_attempt (drained b) h (pl_generation lease) token = Inl (DErr e)"
    using assms True by (auto simp: check_current_attempt_def holds_attempt_def split: option.splits)
  moreover have "check_lease (drained b) lease = Inr ()" using True by (simp add: check_lease_def holds_lease_def)
  ultimately show ?thesis by (auto simp: presenter_guard_def Let_def)
qed

lemma owner_refused:
  assumes "\<not> owns b owner token h"
  shows "\<exists>e. owner_guard b owner token h now = (Inl (DErr e), drained b)"
  using assms by (auto simp: owner_guard_def check_owner_def owns_def Let_def split: option.splits)

text \<open>C25: Authority is checked before anything else.  A presenter call without the current lease or, where it
  names an attempt, without the attempt's current generation and token, and an owner call without the
  owner's service and token, is refused with an error and changes nothing but the two pending reports
  of the garbage collector, which every call hands over.\<close>

theorem strangers_powerless:
  assumes "\<not> authorised b c"
  shows "(\<exists>e. fst (dialog_step ho b c now) = Some (DErr e))
    \<and> snd (dialog_step ho b c now) = b\<lparr>db_expirations := [], db_evictions := []\<rparr>"
proof -
  have d: "b\<lparr>db_expirations := [], db_evictions := []\<rparr> = drained b" by (simp add: drain_pending_report_def)
  show ?thesis unfolding d
  proof (cases c)
    case (CReleasePresenter lease)
    then show "(\<exists>e. fst (dialog_step ho b c now) = Some (DErr e)) \<and> snd (dialog_step ho b c now) = drained b"
      using assms lease_refused [of b lease] by (auto simp: authorised_def failed_def release_presenter_def Let_def)
  next
    case (CNextPresentation lease)
    then show "(\<exists>e. fst (dialog_step ho b c now) = Some (DErr e)) \<and> snd (dialog_step ho b c now) = drained b"
      using assms lease_refused [of b lease] by (auto simp: authorised_def failed_def next_presentation_def Let_def)
  next
    case (CMark lease h token)
    then show "(\<exists>e. fst (dialog_step ho b c now) = Some (DErr e)) \<and> snd (dialog_step ho b c now) = drained b"
      using assms presenter_refused [of b lease h token now] by (auto simp: authorised_def failed_def mark_presented_def guarded_def)
  next
    case (CResolveDialog lease h token v)
    then show "(\<exists>e. fst (dialog_step ho b c now) = Some (DErr e)) \<and> snd (dialog_step ho b c now) = drained b"
      using assms presenter_refused [of b lease h token now] by (auto simp: authorised_def failed_def resolve_def guarded_def)
  next
    case (CFailPresentation lease h token)
    then show "(\<exists>e. fst (dialog_step ho b c now) = Some (DErr e)) \<and> snd (dialog_step ho b c now) = drained b"
      using assms presenter_refused [of b lease h token now] by (auto simp: authorised_def failed_def fail_presentation_def guarded_def)
  next
    case (CRequestCancel lease h token)
    then show "(\<exists>e. fst (dialog_step ho b c now) = Some (DErr e)) \<and> snd (dialog_step ho b c now) = drained b"
      using assms presenter_refused [of b lease h token now]
      by (auto simp: authorised_def failed_def request_progress_cancel_def guarded_def)
  next
    case (CCancelDialog owner token h)
    then show "(\<exists>e. fst (dialog_step ho b c now) = Some (DErr e)) \<and> snd (dialog_step ho b c now) = drained b"
      using assms owner_refused [of b owner token h now] by (auto simp: authorised_def failed_def dialog_cancel_def guarded_def)
  next
    case (CUpdate owner token h patch)
    then show "(\<exists>e. fst (dialog_step ho b c now) = Some (DErr e)) \<and> snd (dialog_step ho b c now) = drained b"
      using assms owner_refused [of b owner token h now] by (auto simp: authorised_def failed_def update_progress_def)
  next
    case (CComplete owner token h completion)
    then show "(\<exists>e. fst (dialog_step ho b c now) = Some (DErr e)) \<and> snd (dialog_step ho b c now) = drained b"
      using assms owner_refused [of b owner token h now] by (auto simp: authorised_def failed_def complete_progress_def)
  qed (use assms in \<open>simp_all add: authorised_def\<close>)
qed

theorem strangers_powerless_witness:
  "snd (dialog_step id (sample_state [sample_shown] [] [] (Some sample_lease) 2 2 [])
     (CResolveDialog sample_lease sample_handle 9 MessageVal) 0) =
   sample_state [sample_shown] [] [] (Some sample_lease) 2 2 []"
proof -
  have "\<not> authorised (sample_state [sample_shown] [] [] (Some sample_lease) 2 2 [])
     (CResolveDialog sample_lease sample_handle 9 MessageVal)"
    by (simp add: authorised_def holds_attempt_def sample_state_def sample_shown_def sample_record_def bm_get_def)
  from strangers_powerless [OF this] show ?thesis by (simp add: sample_state_def del: dialog_step.simps)
qed

section \<open>Resolution\<close>

lemma resolve_rejection_iff:
  "resolve_rejection lease v r = None \<longleftrightarrow> dr_owner_service r \<noteq> pl_service lease \<and> dr_state r \<in> {Presented, CancelRequested}
     \<and> \<not> is_progress (or_dialog (dr_request r)) \<and> answers (or_dialog (dr_request r)) v
     \<and> value_bytes v \<le> MAX_DIALOG_RESULT_BYTES"
proof
  assume "resolve_rejection lease v r = None"
  then show "dr_owner_service r \<noteq> pl_service lease \<and> dr_state r \<in> {Presented, CancelRequested}
     \<and> \<not> is_progress (or_dialog (dr_request r)) \<and> answers (or_dialog (dr_request r)) v
     \<and> value_bytes v \<le> MAX_DIALOG_RESULT_BYTES"
    using resolve_rejection_None by blast
next
  assume a: "dr_owner_service r \<noteq> pl_service lease \<and> dr_state r \<in> {Presented, CancelRequested}
     \<and> \<not> is_progress (or_dialog (dr_request r)) \<and> answers (or_dialog (dr_request r)) v
     \<and> value_bytes v \<le> MAX_DIALOG_RESULT_BYTES"
  then have "validate_for v (or_dialog (dr_request r)) = Inr ()" by (simp add: validate_for_ok)
  then show "resolve_rejection lease v r = None"
    using a by (auto simp: resolve_rejection_def is_progress_def split: dialog_request.splits)
qed

lemma presenter_admitted:
  assumes "holds_attempt b lease h token" "the_record b h = Some r" "\<not> due now r"
  shows "presenter_guard b lease h token now = (Inr (), drained b)"
  using assms by (auto simp: presenter_guard_def check_lease_def check_current_attempt_def holds_attempt_def holds_lease_def Let_def
      expire_handle_if_due_def)

text \<open>A record that ends is kept unless nothing finished is retained.\<close>

lemma ended_record:
  assumes core: "dialog_core L b" and r: "the_record b h = Some r" "\<not> dialog_terminal (dr_state r)"
  shows "the_record (transition_terminal b h state v now cause) h =
    (if rp_terminal (db_retention b) = 0 then None else Some (ended r state v now))"
proof -
  define T where "T = db_terminal_order b @ [h]"
  define n where "n = length T - rp_terminal (db_retention b)"
  have "h \<notin> set (db_terminal_order b)"
    using core r by (auto simp: dialog_core_def terminals_ok_def terminal_in_def)
  then have "h \<in> set (take n T) \<longleftrightarrow> n \<ge> length T"
    by (cases "n \<ge> length T") (auto simp: T_def dest: in_set_takeD)
  also have "\<dots> \<longleftrightarrow> rp_terminal (db_retention b) = 0" by (auto simp: n_def T_def)
  finally show ?thesis
    using transition_terminal_effect(4) [OF core r, of state v now cause, folded T_def, folded n_def]
    by (simp add: restrict_map_def)
qed

text \<open>C11: A presenter's answer is taken exactly when the lease and the attempt are the current ones, the
  deadline has not passed, the presenter is not the owner itself, the dialog is on screen, it is not a
  progress dialog and the answer is one the request allows, within the size limit.  The dialog is then resolved with
  exactly this answer, at this time, with no live attempt left.\<close>

theorem resolve_exact:
  assumes "dialog_reach b" "is_order ho"
  shows "(fst (resolve ho b lease h token v now) = Inr () \<longleftrightarrow>
      holds_attempt b lease h token
      \<and> (\<exists>r. the_record b h = Some r \<and> \<not> due now r \<and> dr_owner_service r \<noteq> pl_service lease
           \<and> dr_state r \<in> {Presented, CancelRequested} \<and> \<not> is_progress (or_dialog (dr_request r))
           \<and> answers (or_dialog (dr_request r)) v \<and> value_bytes v \<le> MAX_DIALOG_RESULT_BYTES))
    \<and> (\<forall>r. fst (resolve ho b lease h token v now) = Inr () \<longrightarrow> the_record b h = Some r \<longrightarrow>
         the_record (snd (resolve ho b lease h token v now)) h =
           (if rp_terminal (db_retention b) = 0 then None
            else Some (r\<lparr>dr_state := Resolved, dr_terminal_at_ms := Some now, dr_attempt := None, dr_value := Some v\<rparr>)))"
    (is "(?ok \<longleftrightarrow> ?auth \<and> ?allowed) \<and> ?result")
proof -
  have inv: "dialog_inv (drained b)" by (rule drained_inv(1) [OF dialog_reach_inv [OF assms(1)]])
  have guard: "?auth \<and> (\<exists>r. the_record b h = Some r \<and> \<not> due now r \<and> active_state (dr_state r))
      \<and> presenter_guard b lease h token now = (Inr (), drained b)
    \<or> (\<exists>e b'. presenter_guard b lease h token now = (Inl e, b')) \<and> (?auth \<longrightarrow> (\<forall>r. the_record b h = Some r \<longrightarrow> due now r))"
  proof (cases "presenter_guard b lease h token now")
    case (Pair res b')
    then show ?thesis
      using presenter_guard_cases(3) [OF dialog_reach_inv [OF assms(1)] Pair] presenter_admitted [of b lease h token _ now]
      by (fastforce simp: holds_attempt_def holds_lease_def)
  qed
  then show ?thesis
  proof
    assume "(\<exists>e b'. presenter_guard b lease h token now = (Inl e, b')) \<and> (?auth \<longrightarrow> (\<forall>r. the_record b h = Some r \<longrightarrow> due now r))"
    then show ?thesis by (auto simp: resolve_def guarded_def)
  next
    assume "?auth \<and> (\<exists>r. the_record b h = Some r \<and> \<not> due now r \<and> active_state (dr_state r))
      \<and> presenter_guard b lease h token now = (Inr (), drained b)"
    then obtain r where a: ?auth and r: "the_record b h = Some r" "\<not> due now r" "active_state (dr_state r)"
      and g: "presenter_guard b lease h token now = (Inr (), drained b)" by blast
    let ?b1 = "put_record (drained b) h (r\<lparr>dr_attempt := None\<rparr>)"
    have r': "the_record (drained b) h = Some r" using r(1) by simp
    note c = close_attempt [OF inv r' r(3)]
    have nt: "\<not> dialog_terminal (dr_state (r\<lparr>dr_attempt := None\<rparr>))" using r(3) terminal_not_active by auto
    have taken: "resolve_rejection lease v r = None \<Longrightarrow>
        resolve ho b lease h token v now = (Inr (), transition_terminal ?b1 h Resolved (Some v) now CResolve)"
      and refused: "resolve_rejection lease v r = Some e \<Longrightarrow> fst (resolve ho b lease h token v now) \<noteq> Inr ()" for e
      using g r(1) by (auto simp: resolve_def guarded_def finish_def Let_def split: sum.splits)
    have ok: "?ok \<longleftrightarrow> resolve_rejection lease v r = None"
      using taken refused by (cases "resolve_rejection lease v r") auto
    have "the_record (transition_terminal ?b1 h Resolved (Some v) now CResolve) h =
        (if rp_terminal (db_retention b) = 0 then None else Some (ended (r\<lparr>dr_attempt := None\<rparr>) Resolved (Some v) now))"
      using ended_record [OF c(1,5) nt] by (simp add: drain_pending_report_def)
    then have ?result using ok taken r(1) by (simp add: ended_def)
    then show ?thesis using ok a r unfolding resolve_rejection_iff by auto
  qed
qed

theorem resolve_exact_witness:
  "fst (resolve id (sample_state [sample_shown] [] [] (Some sample_lease) 2 2 []) sample_lease sample_handle 1 MessageVal 0) = Inr ()
   \<and> dr_value (the (the_record (snd (resolve id (sample_state [sample_shown] [] [] (Some sample_lease) 2 2 [])
        sample_lease sample_handle 1 MessageVal 0)) sample_handle)) = Some MessageVal"
proof -
  let ?b = "sample_state [sample_shown] [] [] (Some sample_lease) 2 2 []"
  have r: "the_record ?b sample_handle = Some sample_shown" "rp_terminal (db_retention ?b) = 4"
    "holds_attempt ?b sample_lease sample_handle 1"
    by (simp_all add: sample_state_def bm_get_def sample_shown_def sample_record_def sample_retention_def holds_attempt_def
        holds_lease_def sample_lease_def)
  have s: "dr_owner_service sample_shown \<noteq> pl_service sample_lease" "dr_state sample_shown = Presented" "\<not> due 0 sample_shown"
    "\<not> is_progress (or_dialog (dr_request sample_shown))" "answers (or_dialog (dr_request sample_shown)) MessageVal"
    by (simp_all add: sample_shown_def sample_record_def fresh_record_def sample_lease_def due_def sample_dialog_def
        is_progress_def answers_def)
  note x = resolve_exact [OF sample_reached(2) id_order, of sample_lease sample_handle 1 MessageVal 0]
  have "fst (resolve id ?b sample_lease sample_handle 1 MessageVal 0) = Inr ()"
    using x r s by simp
  then show ?thesis using x r by auto
qed

end
