(* ===== verification/Interact_DialogService.thy ===== *)
theory Interact_DialogService
  imports Interact_DialogMachine
begin

text \<open>
  What the dialog broker does over time: the origins are served in turn, and the next maintenance time is exact.
\<close>

section \<open>Turns\<close>

text \<open>Take up to \<open>n\<close> dialogs from the queues.\<close>

fun serve :: "nat \<Rightarrow> dialog_broker \<Rightarrow> interaction_handle list \<times> dialog_broker" where
  "serve 0 b = ([], b)"
| "serve (Suc n) b = (case dequeue_fair b of
     (Inr (Some h), b') \<Rightarrow> (let (hs, b'') = serve n b' in (h # hs, b''))
   | (_, b') \<Rightarrow> ([], b'))"

lemma serve_turns:
  assumes "queue_shape b" "queue_backed b" "db_turns b = os @ ts"
  shows "\<exists>b'. serve (length os) b = (map (\<lambda>o'. hd (queue_of b o')) os, b')
    \<and> db_turns b' = ts @ filter (\<lambda>o'. tl (queue_of b o') \<noteq> []) os
    \<and> queue_of b' = (\<lambda>o'. if o' \<in> set os then tl (queue_of b o') else queue_of b o')"
  using assms
proof (induction os arbitrary: b ts)
  case Nil
  then show ?case by simp
next
  case (Cons o' os)
  obtain h rest b1 where d: "queue_of b o' = h # rest" "dequeue_fair b = (Inr (Some h), b1)"
    "b1 = b\<lparr>db_queues := db_queues b1, db_turns := (if rest \<noteq> [] then (os @ ts) @ [o'] else os @ ts)\<rparr>"
    "queue_of b1 = (queue_of b)(o' := rest)" "queue_shape b1"
    using dequeue_step(2) [OF Cons.prems(1,2), of o' "os @ ts"] Cons.prems(3) by auto
  have recs: "db_records b1 = db_records b" and turns: "db_turns b1 = os @ ts @ (if rest \<noteq> [] then [o'] else [])"
    by (subst d(3), simp)+
  have "queue_backed b1"
    using Cons.prems(2) d(1) unfolding queue_backed_def recs d(4) by (auto split: if_splits)
  from Cons.IH [OF d(5) this turns] obtain b2 where e: "serve (length os) b1 = (map (\<lambda>o'. hd (queue_of b1 o')) os, b2)"
    "db_turns b2 = (ts @ (if rest \<noteq> [] then [o'] else [])) @ filter (\<lambda>o'. tl (queue_of b1 o') \<noteq> []) os"
    "queue_of b2 = (\<lambda>x. if x \<in> set os then tl (queue_of b1 x) else queue_of b1 x)" by blast
  have "distinct (o' # os @ ts)" using Cons.prems(1,3) by (simp add: queue_shape_def)
  then have o': "o' \<notin> set os" by simp
  have same: "queue_of b1 x = queue_of b x" if "x \<in> set os" for x using that o' by (auto simp: d(4))
  have "serve (length (o' # os)) b = (map (\<lambda>o'. hd (queue_of b o')) (o' # os), b2)"
    using d(1,2) e(1) same by (simp cong: map_cong)
  moreover have "db_turns b2 = ts @ filter (\<lambda>o'. tl (queue_of b o') \<noteq> []) (o' # os)"
    using e(2) d(1) same by (simp cong: filter_cong)
  moreover have "queue_of b2 = (\<lambda>x. if x \<in> set (o' # os) then tl (queue_of b x) else queue_of b x)"
    using e(3) d(1) o' by (auto simp: d(4) fun_eq_iff)
  ultimately show ?case by blast
qed

text \<open>C38: Origins are served in turn.  In every reachable state, one round of as many dequeues as origins are
  waiting takes the oldest dialog of each of them, once each, in the order of the turns; the origins that
  still wait keep their order and every queue has advanced by one.  No origin, however many dialogs it queues, delays
  another by more than one dialog a round.\<close>

theorem origins_served_in_turn:
  assumes "dialog_reach b"
  shows "fst (serve (length (db_turns b)) b) = map (\<lambda>o'. hd (queue_of b o')) (db_turns b)
    \<and> distinct (db_turns b) \<and> (\<forall>o'. o' \<in> set (db_turns b) \<longleftrightarrow> queue_of b o' \<noteq> [])
    \<and> db_turns (snd (serve (length (db_turns b)) b)) = filter (\<lambda>o'. tl (queue_of b o') \<noteq> []) (db_turns b)
    \<and> queue_of (snd (serve (length (db_turns b)) b)) = (\<lambda>o'. tl (queue_of b o'))"
proof -
  note c = core_backed [OF inv_core [OF dialog_reach_inv [OF assms]]]
  have "\<forall>o'. o' \<notin> set (db_turns b) \<longrightarrow> queue_of b o' = []" "distinct (db_turns b)"
    "\<forall>o'. o' \<in> set (db_turns b) \<longleftrightarrow> queue_of b o' \<noteq> []" using c(1) by (auto simp: queue_shape_def)
  then show ?thesis using serve_turns [OF c, of "db_turns b" "[]"] by (auto simp: fun_eq_iff)
qed

theorem origins_served_in_turn_witness:
  "fst (serve 1 (sample_state [sample_record] [(''app'', [sample_handle])] [''app''] (Some sample_lease) 2 1 [])) = [sample_handle]"
  using origins_served_in_turn [OF sample_reached(1)] by (simp add: sample_state_def queue_of_def bm_get_def)

section \<open>When maintenance is next due\<close>

lemma min_opt_le: "(\<exists>t. min_opt xs = Some t \<and> t \<le> n) \<longleftrightarrow> (\<exists>x\<in>set xs. x \<le> n)"
  by (auto simp: min_opt_def Min_le_iff)

lemma earlier_le:
  "(\<exists>t. (case x of None \<Rightarrow> y | Some e \<Rightarrow> (case y of None \<Rightarrow> Some e | Some f \<Rightarrow> Some (min e f))) = Some t \<and> t \<le> n)
   \<longleftrightarrow> (\<exists>t. x = Some t \<and> t \<le> n) \<or> (\<exists>t. y = Some t \<and> t \<le> (n::nat))"
  by (cases x; cases y) auto

definition stale :: "dialog_broker \<Rightarrow> nat \<Rightarrow> dialog_record \<Rightarrow> bool" where
  "stale b now r \<longleftrightarrow> dialog_terminal (dr_state r)
     \<and> (case dr_terminal_at_ms r of None \<Rightarrow> False | Some e \<Rightarrow> e + rp_terminal_ttl_ms (db_retention b) \<le> now)"

lemma maintenance_due:
  assumes core: "dialog_core L b" and now: "now \<le> u64_max"
  shows "(\<exists>t. next_maintenance_at_ms b = Some t \<and> t \<le> now) \<longleftrightarrow> (\<exists>h r. the_record b h = Some r \<and> (due now r \<or> stale b now r))"
proof -
  let ?rs = "map snd (db_records b)" and ?ttl = "rp_terminal_ttl_ms (db_retention b)"
  have "(\<exists>x\<in>set (List.map_filter dr_expires_at_ms (filter (\<lambda>r. \<not> dialog_terminal (dr_state r)) ?rs)). x \<le> now)
      \<longleftrightarrow> (\<exists>r\<in>set ?rs. due now r)"
    unfolding Bex_def in_map_filter due_def by (auto split: option.splits)
  moreover have "(\<exists>x\<in>set (List.map_filter
      (\<lambda>r. case dr_terminal_at_ms r of None \<Rightarrow> None | Some e \<Rightarrow> checked_add e ?ttl)
      (filter (\<lambda>r. dialog_terminal (dr_state r)) ?rs)). x \<le> now) \<longleftrightarrow> (\<exists>r\<in>set ?rs. stale b now r)"
    (is "?l \<longleftrightarrow> ?r")
  proof -
    have one: "(\<exists>x. (case dr_terminal_at_ms r of None \<Rightarrow> None | Some e \<Rightarrow> checked_add e ?ttl) = Some x \<and> x \<le> now)
        \<and> dialog_terminal (dr_state r) \<longleftrightarrow> stale b now r" for r
      using now by (cases "dr_terminal_at_ms r") (auto simp: stale_def checked_add_def)
    have "?l \<longleftrightarrow> (\<exists>r\<in>set ?rs. (\<exists>x. (case dr_terminal_at_ms r of None \<Rightarrow> None | Some e \<Rightarrow> checked_add e ?ttl) = Some x \<and> x \<le> now)
        \<and> dialog_terminal (dr_state r))" unfolding Bex_def in_map_filter by auto
    then show ?thesis by (simp only: one)
  qed
  ultimately have "(\<exists>t. next_maintenance_at_ms b = Some t \<and> t \<le> now) \<longleftrightarrow> (\<exists>r\<in>set ?rs. due now r \<or> stale b now r)"
    unfolding next_maintenance_at_ms_def Let_def earlier_le min_opt_le by blast
  also have "\<dots> \<longleftrightarrow> (\<exists>h r. the_record b h = Some r \<and> (due now r \<or> stale b now r))"
    unfolding Bex_def records_values [OF core] using core_record [OF core] by (auto simp: record_ok_def)
  finally show ?thesis .
qed

lemma expire_due_idle:
  assumes "dialog_core L b" "is_order ho" "\<And>h r. the_record b h = Some r \<Longrightarrow> \<not> due now r"
  shows "expire_due ho b now = b"
proof -
  have "filter (due now) (iter_records ho b) = []"
    using assms(3) set_iter_records [OF assms(2) core_bm_inv [OF assms(1)]] by (auto simp: filter_empty_conv)
  then show ?thesis by (simp add: expire_due_def)
qed

lemma evict_ttl_iff:
  assumes core: "dialog_core L b" and ttl: "0 < rp_terminal_ttl_ms (db_retention b)"
    and ev: "evict_terminal_ttl b now = (ev, b')"
  shows "h \<in> set ev \<longleftrightarrow> (\<exists>r. the_record b h = Some r \<and> stale b now r)" "ev = [] \<Longrightarrow> b' = b"
proof -
  have t: "h \<in> set (db_terminal_order b) \<longleftrightarrow> (\<exists>r. the_record b h = Some r \<and> dialog_terminal (dr_state r))"
    using core by (simp add: dialog_core_def terminals_ok_def terminal_in_def)
  have some: "dr_terminal_at_ms r \<noteq> None" if "the_record b h = Some r" "dialog_terminal (dr_state r)" for r
    using core_record [OF core that(1)] that(2) by (simp add: record_ok_def)
  have e: "set ev = {h \<in> set (db_terminal_order b). case the_record b h of None \<Rightarrow> True
      | Some r \<Rightarrow> (case dr_terminal_at_ms r of None \<Rightarrow> False | Some e \<Rightarrow> now - e \<ge> rp_terminal_ttl_ms (db_retention b))}"
    using ev by (auto simp: evict_terminal_ttl_def Let_def)
  show "h \<in> set ev \<longleftrightarrow> (\<exists>r. the_record b h = Some r \<and> stale b now r)"
    unfolding e using t some ttl by (auto simp: stale_def split: option.splits)
  show "b' = b" if "ev = []"
  proof -
    have "b' = fold (\<lambda>h b. case the_record b h of None \<Rightarrow> b
        | Some r \<Rightarrow> record_transition (b\<lparr>db_records := bm_remove h (db_records b)\<rparr>) h (Some (dr_state r)) None CEvict) ev b
        \<lparr>db_terminal_order := filter (\<lambda>h. h \<notin> set ev) (db_terminal_order (fold (\<lambda>h b. case the_record b h of None \<Rightarrow> b
        | Some r \<Rightarrow> record_transition (b\<lparr>db_records := bm_remove h (db_records b)\<rparr>) h (Some (dr_state r)) None CEvict) ev b))\<rparr>"
      using ev unfolding evict_terminal_ttl_def Let_def by blast
    then show ?thesis using that by simp
  qed
qed

text \<open>The next maintenance time is exact.  In every reachable state of a broker that retains finished dialogs for
  a positive time, maintenance changes something at a clock value if and only if that value has reached
  the time announced; with nothing announced it never does.  A scheduler that sleeps until that time misses
  no expiry and no eviction, and never wakes for nothing.\<close>

theorem next_maintenance_exact:
  assumes "dialog_reach b" "is_order ho" "0 < rp_terminal_ttl_ms (db_retention b)" "now \<le> u64_max"
  shows "maintain ho b now \<noteq> b \<longleftrightarrow> (\<exists>t. next_maintenance_at_ms b = Some t \<and> t \<le> now)"
proof -
  have core: "dialog_core {} b" by (rule inv_core [OF dialog_reach_inv [OF assms(1)]])
  have "maintain ho b now = b \<longleftrightarrow> \<not> (\<exists>h r. the_record b h = Some r \<and> (due now r \<or> stale b now r))"
  proof (cases "\<exists>h r. the_record b h = Some r \<and> due now r")
    case True
    then show ?thesis using maintain_clears [OF core assms(2), of now] by metis
  next
    case False
    obtain ev b' where ev: "evict_terminal_ttl b now = (ev, b')" by fastforce
    have m: "maintain ho b now = b'\<lparr>db_evictions := db_evictions b' @ ev\<rparr>"
      using False expire_due_idle [OF core assms(2), of now] by (auto simp: maintain_def ev Let_def)
    note i = evict_ttl_iff [OF core assms(3) ev]
    have "the_record (maintain ho b now) h \<noteq> the_record b h" if "h \<in> set ev" for h
      using that i(1) evict_ttl_core [OF core ev] by (auto simp: m)
    then have "maintain ho b now = b \<longleftrightarrow> ev = []" using i(2) m by (cases ev) force+
    then show ?thesis using i(1) False by (metis list.set_intros(1) neq_Nil_conv empty_iff list.set(1))
  qed
  then show ?thesis using maintenance_due [OF core assms(4)] by blast
qed

theorem next_maintenance_exact_witness:
  "maintain id (sample_state [ended (sample_shown\<lparr>dr_attempt := None\<rparr>) Resolved (Some MessageVal) 0] [] []
     (Some sample_lease) 2 2 [sample_handle]) 999
   = sample_state [ended (sample_shown\<lparr>dr_attempt := None\<rparr>) Resolved (Some MessageVal) 0] [] [] (Some sample_lease) 2 2 [sample_handle]"
proof -
  let ?b = "sample_state [ended (sample_shown\<lparr>dr_attempt := None\<rparr>) Resolved (Some MessageVal) 0] [] []
     (Some sample_lease) 2 2 [sample_handle]"
  have "next_maintenance_at_ms ?b = Some 1000" "0 < rp_terminal_ttl_ms (db_retention ?b)"
    by (simp_all add: next_maintenance_at_ms_def min_opt_def sample_state_def List.map_filter_def sample_retention_def
        checked_add_def u64_max_def)
  then show ?thesis
    using next_maintenance_exact [OF sample_reached(3) id_order, of 999] by (auto simp: u64_max_def)
qed

end
