(* ===== verification/Bus_Address.thy ===== *)
theory Bus_Address
  imports Cosmix_Pat
begin

text \<open>
  Bus addresses (\<^verbatim>\<open>cosmix-lib-bus/src/bus.rs\<close>, section ``Bus Address''): labels, mesh names, the two
  parsers and the two \<^verbatim>\<open>Display\<close> instances.  The parser is shown to accept exactly the spellings of
  well-formed targets, and to be inverted by printing.
\<close>

section \<open>Definitions\<close>

definition MAX_LABEL_LEN :: nat where "MAX_LABEL_LEN = 63"
definition MAX_ADDRESS_LEN :: nat where "MAX_ADDRESS_LEN = 253"

record bus_address =
  addr_sub :: "string option"
  addr_service :: "string option"
  addr_node :: string

datatype bus_target = Local bus_address | CrossMesh bus_address string

definition is_valid_bus_label :: "string \<Rightarrow> bool" where
  "is_valid_bus_label label =
     (if label = [] \<or> MAX_LABEL_LEN < length label then False
      else if hd label = CHR ''-'' \<or> last label = CHR ''-'' then False
      else list_all (\<lambda>b. is_ascii_lowercase b \<or> is_ascii_digit b \<or> b = CHR ''-'') label)"

definition validate_mesh_fqdn :: "string \<Rightarrow> string option" where
  "validate_mesh_fqdn fqdn =
     (if fqdn = [] \<or> MAX_ADDRESS_LEN < length fqdn then None
      else if CHR ''.'' \<notin> set fqdn \<or> last fqdn = CHR ''.'' then None
      else if list_ex (\<lambda>label. \<not> is_valid_bus_label label \<or> prefix ''xn--'' label) (split_on (CHR ''.'') fqdn)
      then None
      else Some fqdn)"

text \<open>The final \<^verbatim>\<open>match parts.len()\<close> of \<^verbatim>\<open>parse_local\<close>.\<close>

definition address_of_parts :: "bool \<Rightarrow> string list \<Rightarrow> bus_address option" where
  "address_of_parts had_bus_suffix parts =
     (case parts of
        [n] \<Rightarrow> if \<not> had_bus_suffix then None
               else Some \<lparr>addr_sub = None, addr_service = None, addr_node = n\<rparr>
      | [sv, n] \<Rightarrow> Some \<lparr>addr_sub = None, addr_service = Some sv, addr_node = n\<rparr>
      | [sb, sv, n] \<Rightarrow> Some \<lparr>addr_sub = Some sb, addr_service = Some sv, addr_node = n\<rparr>
      | _ \<Rightarrow> None)"

definition parse_local :: "string \<Rightarrow> bus_address option" where
  "parse_local s =
     (if s = [] \<or> CHR ''@'' \<in> set s then None
      else
        let (stem, had_bus_suffix) = (case strip_suffix ''.bus'' s of Some stripped \<Rightarrow> (stripped, True)
                                                                  | None \<Rightarrow> (s, False))
        in if stem = [] then None
           else
             let parts = split_on (CHR ''.'') stem
             in if list_ex (\<lambda>p. p = []) parts \<or> 3 < length parts then None
                else if list_ex (\<lambda>part. \<not> is_valid_bus_label part) parts then None
                else address_of_parts had_bus_suffix parts)"

definition target_parse :: "string \<Rightarrow> bus_target option" where
  "target_parse s =
     (if s = [] \<or> MAX_ADDRESS_LEN < length s then None
      else case split_once (CHR ''@'') s of
             Some (l, r) \<Rightarrow>
               if CHR ''@'' \<in> set r \<or> r = [] \<or> l = [] then None
               else (case parse_local l of
                       None \<Rightarrow> None
                     | Some local \<Rightarrow> map_option (CrossMesh local) (validate_mesh_fqdn r))
           | None \<Rightarrow> map_option Local (parse_local s))"

fun target_local :: "bus_target \<Rightarrow> bus_address" where
  "target_local (Local a) = a"
| "target_local (CrossMesh local _) = local"

fun is_cross_mesh :: "bus_target \<Rightarrow> bool" where
  "is_cross_mesh (CrossMesh _ _) = True"
| "is_cross_mesh (Local _) = False"

definition is_for_node :: "bus_address \<Rightarrow> string \<Rightarrow> bool" where
  "is_for_node a node_name \<longleftrightarrow> addr_node a = node_name"

definition service_name :: "bus_address \<Rightarrow> string option" where
  "service_name a = addr_service a"

definition address_display :: "bus_address \<Rightarrow> string" where
  "address_display a =
     (case addr_sub a of None \<Rightarrow> [] | Some sb \<Rightarrow> sb @ ''.'')
     @ (case addr_service a of None \<Rightarrow> [] | Some sv \<Rightarrow> sv @ ''.'')
     @ addr_node a @ ''.bus''"

fun target_display :: "bus_target \<Rightarrow> string" where
  "target_display (Local a) = address_display a"
| "target_display (CrossMesh local mesh_fqdn) = address_display local @ ''@'' @ mesh_fqdn"

section \<open>Well-formed targets and their spellings\<close>

definition labels :: "bus_address \<Rightarrow> string list" where
  "labels a = (case addr_sub a of None \<Rightarrow> [] | Some sb \<Rightarrow> [sb])
     @ (case addr_service a of None \<Rightarrow> [] | Some sv \<Rightarrow> [sv]) @ [addr_node a]"

definition address_wf :: "bus_address \<Rightarrow> bool" where
  "address_wf a \<longleftrightarrow> list_all is_valid_bus_label (labels a) \<and> (addr_service a = None \<longrightarrow> addr_sub a = None)"

fun target_wf :: "bus_target \<Rightarrow> bool" where
  "target_wf (Local a) \<longleftrightarrow> address_wf a"
| "target_wf (CrossMesh a f) \<longleftrightarrow> address_wf a \<and> validate_mesh_fqdn f = Some f"

text \<open>The \<^verbatim>\<open>.bus\<close> suffix may be left out when a service is named, unless the node itself is called
  \<^verbatim>\<open>bus\<close>: that spelling denotes another address.\<close>

definition spells :: "string \<Rightarrow> bus_address \<Rightarrow> bool" where
  "spells s a \<longleftrightarrow> s = address_display a
     \<or> (addr_service a \<noteq> None \<and> addr_node a \<noteq> ''bus'' \<and> s @ ''.bus'' = address_display a)"

fun target_spells :: "string \<Rightarrow> bus_target \<Rightarrow> bool" where
  "target_spells s (Local a) \<longleftrightarrow> spells s a"
| "target_spells s (CrossMesh a f) \<longleftrightarrow> (\<exists>l. s = l @ ''@'' @ f \<and> spells l a)"

lemma valid_label_no: "is_valid_bus_label l \<Longrightarrow> l \<noteq> [] \<and> CHR ''.'' \<notin> set l \<and> CHR ''@'' \<notin> set l"
  by (auto simp: is_valid_bus_label_def list_all_iff is_ascii_lowercase_def is_ascii_digit_def split: if_splits)

lemma address_display_labels: "address_display a = join_with (CHR ''.'') (labels a) @ ''.bus''"
  by (simp add: address_display_def labels_def split: option.split)

lemma labels_ne [simp]: "labels a \<noteq> []"
  by (simp add: labels_def)

lemma length_labels: "length (labels a) \<le> 3"
  by (simp add: labels_def split: option.split)

lemma last_labels: "last (labels a) = addr_node a"
  by (simp add: labels_def)

lemma join_with_snoc: "ws \<noteq> [] \<Longrightarrow> join_with c (ws @ [w]) = join_with c ws @ c # w"
  by (induction c ws rule: join_with.induct) auto

lemma suffix_sep_iff:
  fixes c :: char
  assumes "c \<notin> set v" "c \<notin> set w"
  shows "suffix (c # v) (x @ c # w) \<longleftrightarrow> v = w"
proof
  assume "suffix (c # v) (x @ c # w)"
  then obtain y where "x @ c # w = y @ c # v" by (auto simp: suffix_def)
  then have "rev (x @ c # w) = rev (y @ c # v)" by (rule arg_cong)
  then have "rev w @ c # rev x = rev v @ c # rev y"
    by (simp only: rev_append rev.simps append.assoc append_Cons append_Nil)
  from sep_unique [OF _ _ this] show "v = w" using assms by simp
qed (auto simp: suffix_def)

text \<open>The parts of a stem determine the address, and are its labels.\<close>

lemma labels_unique: "address_wf a \<Longrightarrow> address_wf b \<Longrightarrow> labels a = labels b \<Longrightarrow> a = b"
  by (cases a; cases b) (auto simp: address_wf_def labels_def split: option.splits)

lemma labels_parts:
  assumes "parts \<noteq> []" "length parts \<le> 3" "list_all is_valid_bus_label parts"
  obtains a where "labels a = parts" "address_wf a" "addr_service a = None \<longleftrightarrow> length parts = 1"
proof -
  have "\<exists>a. labels a = parts \<and> address_wf a \<and> (addr_service a = None \<longleftrightarrow> length parts = 1)"
  proof (cases parts)
    case (Cons p ps)
    show ?thesis
    proof (cases ps)
      case Nil
      then show ?thesis using Cons assms
        by (intro exI [of _ "\<lparr>addr_sub = None, addr_service = None, addr_node = p\<rparr>"])
          (simp add: labels_def address_wf_def)
    next
      case (Cons q qs)
      show ?thesis
      proof (cases qs)
        case Nil
        then show ?thesis using Cons \<open>parts = p # ps\<close> assms
          by (intro exI [of _ "\<lparr>addr_sub = None, addr_service = Some p, addr_node = q\<rparr>"])
            (simp add: labels_def address_wf_def)
      next
        case (Cons r rs)
        then show ?thesis using \<open>ps = q # qs\<close> \<open>parts = p # ps\<close> assms
          by (intro exI [of _ "\<lparr>addr_sub = Some p, addr_service = Some q, addr_node = r\<rparr>"])
            (simp add: labels_def address_wf_def)
      qed
    qed
  qed (use assms in simp)
  then show ?thesis by (elim exE conjE) (rule that)
qed

lemma split_labels: "address_wf a \<Longrightarrow> split_on (CHR ''.'') (join_with (CHR ''.'') (labels a)) = labels a"
  by (rule split_join) (auto simp: address_wf_def list_all_iff dest: valid_label_no)

lemma join_labels_no_at: "address_wf a \<Longrightarrow> CHR ''@'' \<notin> set (join_with (CHR ''.'') (labels a))"
  using set_join_with [of "CHR ''.''" "labels a"]
  by (auto simp: address_wf_def list_all_iff dest: valid_label_no)

lemma join_labels_ne: "address_wf a \<Longrightarrow> join_with (CHR ''.'') (labels a) \<noteq> []"
proof
  assume a: "address_wf a" and "join_with (CHR ''.'') (labels a) = []"
  then have "labels a = [[]]" using split_labels [of a] by simp
  then show False using a valid_label_no [of "[]"] by (simp add: address_wf_def)
qed

lemma suffix_bus_labels:
  assumes "address_wf a" "addr_service a \<noteq> None"
  shows "suffix ''.bus'' (join_with (CHR ''.'') (labels a)) \<longleftrightarrow> addr_node a = ''bus''"
proof -
  obtain ws where ws: "labels a = ws @ [addr_node a]" "ws \<noteq> []"
    using assms(2) by (auto simp: labels_def)
  moreover have "CHR ''.'' \<notin> set (addr_node a)"
    using assms(1) ws(1) valid_label_no by (auto simp: address_wf_def)
  ultimately show ?thesis
    using suffix_sep_iff [of "CHR ''.''" "''bus''" "addr_node a"] by (auto simp: join_with_snoc)
qed

section \<open>What the parsers accept\<close>

lemma address_of_parts_labels:
  "address_wf a \<Longrightarrow> address_of_parts had (labels a) = (if addr_service a = None \<and> \<not> had then None else Some a)"
  by (cases a) (auto simp: address_of_parts_def labels_def address_wf_def split: option.splits)

text \<open>The part of the local parser after the suffix is known.\<close>

lemma parse_local_stem:
  assumes "s \<noteq> []" "CHR ''@'' \<notin> set s"
    and "(case strip_suffix ''.bus'' s of Some stripped \<Rightarrow> (stripped, True) | None \<Rightarrow> (s, False)) = (stem, had)"
  shows "parse_local s = Some a \<longleftrightarrow>
     address_wf a \<and> stem = join_with (CHR ''.'') (labels a) \<and> (addr_service a = None \<longrightarrow> had)"
proof
  assume p: "parse_local s = Some a"
  let ?parts = "split_on (CHR ''.'') stem"
  have *: "stem \<noteq> []" "length ?parts \<le> 3" "\<not> list_ex (\<lambda>part. \<not> is_valid_bus_label part) ?parts"
    using p assms unfolding parse_local_def Let_def by (auto simp: not_less split: if_splits)
  then have v: "list_all is_valid_bus_label ?parts" by (auto simp: list_all_iff list_ex_iff)
  then obtain b where b: "labels b = ?parts" "address_wf b" "addr_service b = None \<longleftrightarrow> length ?parts = 1"
    using labels_parts [OF split_on_ne *(2) v] by metis
  have "address_of_parts had (labels b) = Some a"
    using p assms * unfolding parse_local_def Let_def b(1) by (simp split: if_splits)
  then have "a = b \<and> (addr_service a = None \<longrightarrow> had)"
    using b(2) by (auto simp: address_of_parts_labels split: if_splits)
  then show "address_wf a \<and> stem = join_with (CHR ''.'') (labels a) \<and> (addr_service a = None \<longrightarrow> had)"
    using b by simp
next
  assume a: "address_wf a \<and> stem = join_with (CHR ''.'') (labels a) \<and> (addr_service a = None \<longrightarrow> had)"
  then have p: "split_on (CHR ''.'') stem = labels a" "stem \<noteq> []"
    using split_labels [of a] join_labels_ne [of a] by simp_all
  have "\<not> list_ex (\<lambda>p. \<not> is_valid_bus_label p) (labels a)" "\<not> list_ex (\<lambda>p. p = []) (labels a)"
    using a valid_label_no by (auto simp: address_wf_def list_ex_iff list_all_iff)
  then have "parse_local s = address_of_parts had (labels a)"
    using p(2) assms(1,2) length_labels [of a] by (simp add: parse_local_def Let_def assms(3) p(1))
  then show "parse_local s = Some a" using a by (auto simp: address_of_parts_labels)
qed

lemma parse_local_iff: "parse_local s = Some a \<longleftrightarrow> address_wf a \<and> spells s a"
proof (cases "s = [] \<or> CHR ''@'' \<in> set s")
  case True
  then have "address_wf a \<Longrightarrow> \<not> spells s a"
    using join_labels_no_at [of a] join_labels_ne [of a] by (auto simp: spells_def address_display_labels)
  then show ?thesis using True by (auto simp: parse_local_def)
next
  case False
  show ?thesis
  proof (cases "suffix ''.bus'' s")
    case True
    then obtain t where t: "s = t @ ''.bus''" by (auto simp: suffix_def)
    then have "strip_suffix ''.bus'' s = Some t" by (simp add: strip_suffix_def suffix_def)
    then have "parse_local s = Some a \<longleftrightarrow> address_wf a \<and> t = join_with (CHR ''.'') (labels a)"
      using parse_local_stem [of s t True a] False by simp
    moreover have "address_wf a \<and> spells s a \<longleftrightarrow> address_wf a \<and> t = join_with (CHR ''.'') (labels a)"
      using suffix_bus_labels [of a] t True by (auto simp: spells_def address_display_labels)
    ultimately show ?thesis by simp
  next
    case ns: False
    then have "parse_local s = Some a \<longleftrightarrow>
        address_wf a \<and> s = join_with (CHR ''.'') (labels a) \<and> addr_service a \<noteq> None"
      using parse_local_stem [of s s False a] False by (simp add: strip_suffix_def)
    then show ?thesis
      using suffix_bus_labels [of a] ns suffix_def [of "''.bus''" s]
      by (auto simp: spells_def address_display_labels)
  qed
qed

lemma validate_mesh_fqdn_id: "validate_mesh_fqdn f = Some g \<Longrightarrow> g = f"
  by (auto simp: validate_mesh_fqdn_def split: if_splits)

lemma validate_mesh_fqdn_no_at:
  assumes "validate_mesh_fqdn f = Some g" shows "CHR ''@'' \<notin> set f \<and> f \<noteq> []"
proof -
  have "\<forall>l\<in>set (split_on (CHR ''.'') f). CHR ''@'' \<notin> set l"
    using assms valid_label_no by (auto simp: validate_mesh_fqdn_def list_ex_iff split: if_splits)
  then show ?thesis
    using set_join_with [of "CHR ''.''" "split_on (CHR ''.'') f"] assms
    by (auto simp: validate_mesh_fqdn_def split: if_splits)
qed

lemma spells_no_at: "address_wf a \<Longrightarrow> spells s a \<Longrightarrow> CHR ''@'' \<notin> set s \<and> s \<noteq> []"
  using join_labels_no_at [of a] join_labels_ne [of a] by (auto simp: spells_def address_display_labels)

lemma target_parse_iff:
  "target_parse s = Some t \<longleftrightarrow> length s \<le> MAX_ADDRESS_LEN \<and> target_wf t \<and> target_spells s t"
proof (cases "s = [] \<or> MAX_ADDRESS_LEN < length s")
  case True
  then show ?thesis using spells_no_at by (cases t) (auto simp: target_parse_def)
next
  case False
  show ?thesis
  proof (cases "split_once (CHR ''@'') s")
    case None
    then have "CHR ''@'' \<notin> set s" by (simp add: split_once_None)
    then show ?thesis
      using False None parse_local_iff [of s] by (cases t) (auto simp: target_parse_def)
  next
    case (Some lr)
    obtain l r where lr: "lr = (l, r)" by (cases lr)
    with Some have s: "s = l @ CHR ''@'' # r" "CHR ''@'' \<notin> set l" by (simp_all add: split_once_Some)
    have uniq: "s = l' @ CHR ''@'' # r' \<Longrightarrow> CHR ''@'' \<notin> set l' \<Longrightarrow> l' = l \<and> r' = r" for l' r'
      using s sep_unique by metis
    show ?thesis
    proof (cases t)
      case (Local a)
      then show ?thesis using False Some lr s spells_no_at [of a s]
        by (auto simp: target_parse_def split: option.splits)
    next
      case (CrossMesh a f)
      have "target_parse s = Some t \<longleftrightarrow> parse_local l = Some a \<and> validate_mesh_fqdn r = Some f
              \<and> CHR ''@'' \<notin> set r \<and> r \<noteq> [] \<and> l \<noteq> []"
        using False Some lr CrossMesh by (auto simp: target_parse_def split: option.splits)
      also have "\<dots> \<longleftrightarrow> address_wf a \<and> spells l a \<and> validate_mesh_fqdn r = Some f"
        using validate_mesh_fqdn_no_at [of r f] spells_no_at [of a l] parse_local_iff by blast
      also have "\<dots> \<longleftrightarrow> target_wf t \<and> target_spells s t"
        using CrossMesh s uniq spells_no_at validate_mesh_fqdn_id by fastforce
      finally show ?thesis using False by auto
    qed
  qed
qed

lemma target_spells_display: "target_spells (target_display t) t"
  by (cases t) (auto simp: spells_def)

text \<open>\<^verbatim>\<open>BusTarget::parse\<close> accepts exactly the spellings, of at most 253 bytes, of well-formed
  targets, and returns the target spelled: labels of 1 to 63 characters in \<open>[a-z0-9-]\<close> without a
  hyphen at either end, at most three of them, a sub-protocol only together with a service, the
  suffix \<^verbatim>\<open>.bus\<close> optional only when a service is named and the node is not itself called
  \<^verbatim>\<open>bus\<close>, at most one \<^verbatim>\<open>@\<close>, followed by a valid mesh name.  Hence what \<^verbatim>\<open>Display\<close> prints is
  parsed back to the same target exactly for the well-formed targets whose printed form, which
  always has the suffix, fits in 253 bytes.\<close>

theorem target_parse_exact:
  "(target_parse s = Some t \<longleftrightarrow> length s \<le> MAX_ADDRESS_LEN \<and> target_wf t \<and> target_spells s t)
   \<and> (target_parse (target_display t) = Some t \<longleftrightarrow>
        length (target_display t) \<le> MAX_ADDRESS_LEN \<and> target_wf t)"
  by (simp add: target_parse_iff target_spells_display)

end
