(* ===== verification/Cosmix_Json.thy ===== *)
theory Cosmix_Json
  imports Cosmix_Pat
begin

text \<open>
  \<^verbatim>\<open>serde_json::Value\<close>, the value type of the bus bodies and of every signed mesh artifact.  The type of
  numbers is a parameter: serde\_json's \<^verbatim>\<open>Number\<close> is foreign code, and the sources only print it.  An
  object is the list of its members, with distinct keys, in the order the map iterates.
\<close>

datatype 'n json =
    JNull
  | JBool bool
  | JNumber 'n
  | JString string
  | JArray "'n json list"
  | JObject "(string \<times> 'n json) list"

text \<open>\<^verbatim>\<open>Value::get(key)\<close> and \<^verbatim>\<open>Value::as_str\<close>.\<close>

fun json_get :: "string \<Rightarrow> 'n json \<Rightarrow> 'n json option" where
  "json_get k (JObject ms) = map_of ms k"
| "json_get k _ = None"

fun as_str :: "'n json \<Rightarrow> string option" where
  "as_str (JString s) = Some s"
| "as_str _ = None"

text \<open>Values serde\_json can hold: no object has a key twice.\<close>

fun json_ok :: "'n json \<Rightarrow> bool" where
  "json_ok (JArray vs) \<longleftrightarrow> list_all json_ok vs"
| "json_ok (JObject ms) \<longleftrightarrow> distinct (map fst ms) \<and> list_all (\<lambda>(k, v). json_ok v) ms"
| "json_ok _ = True"

end
