(* ===== verification/Bus_Message.thy ===== *)
theory Bus_Message
  imports Bus_Address Cosmix_Map Cosmix_Json Edit_Utf8
begin

text \<open>
  The bus wire format (\<^verbatim>\<open>cosmix-lib-bus/src/bus.rs\<close>): messages, serialisation, the lenient and the strict
  parser, the checks around reading a stream, validation and the error text of a reply.  serde\_json's
  parser is the parameter \<open>from_str\<close>; an \<^verbatim>\<open>anyhow\<close> error is a constructor with the values its
  message is formatted from.
\<close>

section \<open>Messages\<close>

definition EMPTY_MESSAGE :: string where "EMPTY_MESSAGE = ''---'' @ [newline] @ ''---'' @ [newline]"
definition MAX_MESSAGE_BYTES :: nat where "MAX_MESSAGE_BYTES = 16 * 1024 * 1024"
definition WS_MAX_FRAME_BYTES :: nat where "WS_MAX_FRAME_BYTES = 8 * 1024 * 1024"
definition MAX_HEADERS :: nat where "MAX_HEADERS = 4096"

record bus_message =
  msg_headers :: "(string, string) bmap"
  msg_body :: string

definition message_new :: bus_message where
  "message_new = \<lparr>msg_headers = [], msg_body = []\<rparr>"

definition message_empty :: bus_message where
  "message_empty = message_new"

definition message_command :: "(string \<times> string) list \<Rightarrow> bus_message" where
  "message_command hs = \<lparr>msg_headers = fold (\<lambda>(k, v). bm_insert k v) hs [], msg_body = []\<rparr>"

definition with_header :: "bus_message \<Rightarrow> string \<Rightarrow> string \<Rightarrow> bus_message" where
  "with_header m key v = m\<lparr>msg_headers := bm_insert key v (msg_headers m)\<rparr>"

definition with_body :: "bus_message \<Rightarrow> string \<Rightarrow> bus_message" where
  "with_body m b = m\<lparr>msg_body := b\<rparr>"

definition message_set :: "bus_message \<Rightarrow> string \<Rightarrow> string \<Rightarrow> bus_message" where
  "message_set m key v = m\<lparr>msg_headers := bm_insert key v (msg_headers m)\<rparr>"

definition message_get :: "bus_message \<Rightarrow> string \<Rightarrow> string option" where
  "message_get m key = bm_get (msg_headers m) key"

definition is_empty_message :: "bus_message \<Rightarrow> bool" where
  "is_empty_message m \<longleftrightarrow> msg_headers m = [] \<and> msg_body m = []"

definition from_addr :: "bus_message \<Rightarrow> string option" where "from_addr m = message_get m ''from''"
definition to_addr :: "bus_message \<Rightarrow> string option" where "to_addr m = message_get m ''to''"
definition command_name :: "bus_message \<Rightarrow> string option" where "command_name m = message_get m ''command''"
definition message_type :: "bus_message \<Rightarrow> string option" where "message_type m = message_get m ''type''"

definition message_args :: "(string \<Rightarrow> 'n json option) \<Rightarrow> bus_message \<Rightarrow> 'n json option" where
  "message_args from_str m = Option.bind (message_get m ''args'') from_str"

definition json_payload :: "(string \<Rightarrow> 'n json option) \<Rightarrow> bus_message \<Rightarrow> 'n json option" where
  "json_payload from_str m = Option.bind (message_get m ''json'') from_str"

definition ui_id :: "bus_message \<Rightarrow> string option" where "ui_id m = message_get m ''id''"
definition message_target :: "bus_message \<Rightarrow> string option" where "message_target m = message_get m ''target''"
definition message_parent :: "bus_message \<Rightarrow> string option" where "message_parent m = message_get m ''parent''"
definition message_source :: "bus_message \<Rightarrow> string option" where "message_source m = message_get m ''source''"

definition is_ui_command :: "bus_message \<Rightarrow> bool" where
  "is_ui_command m = (case command_name m of None \<Rightarrow> False | Some c \<Rightarrow> prefix ''ui.'' c)"

definition error_message :: "(string \<Rightarrow> 'n json option) \<Rightarrow> bus_message \<Rightarrow> string" where
  "error_message from_str m =
     (case message_get m ''error'' of
        Some e \<Rightarrow> e
      | None \<Rightarrow>
          let b = trim (msg_body m)
          in if b \<noteq> []
             then (case from_str b of
                     None \<Rightarrow> b
                   | Some v \<Rightarrow>
                       (case (Option.bind (json_get ''error_code'' v) as_str, Option.bind (json_get ''message'' v) as_str) of
                          (Some code, Some message) \<Rightarrow> code @ '': '' @ message
                        | _ \<Rightarrow> (case Option.bind (json_get ''error'' v) as_str of Some e \<Rightarrow> e | None \<Rightarrow> b)))
             else ''unknown error'')"

section \<open>Serialisation\<close>

definition header_line :: "string \<times> string \<Rightarrow> string" where
  "header_line kv = fst kv @ '': '' @ snd kv"

definition to_wire :: "bus_message \<Rightarrow> string" where
  "to_wire m =
     ''---'' @ [newline]
     @ concat (map (\<lambda>kv. header_line kv @ [newline]) (msg_headers m))
     @ ''---'' @ [newline]
     @ (if msg_body m \<noteq> [] then msg_body m @ (if last (msg_body m) \<noteq> newline then [newline] else []) else [])"

definition message_to_bytes :: "bus_message \<Rightarrow> string" where "message_to_bytes m = to_wire m"

section \<open>Parsing\<close>

datatype parse_issue = SkippedLine nat string | JsonParse string string

record parse_report =
  skipped_lines :: "(nat \<times> string) list"
  json_parse_errors :: "(string \<times> string) list"

definition report_is_empty :: "parse_report \<Rightarrow> bool" where
  "report_is_empty r \<longleftrightarrow> skipped_lines r = [] \<and> json_parse_errors r = []"

text \<open>\<open>SliceNotOnCharBoundary\<close> is the panic of indexing a string inside a character.\<close>

datatype bus_error =
    SliceNotOnCharBoundary
  | MustStartWithDelimiter string
  | NonCompliant nat nat parse_issue
  | ReadFailed
  | ReadTimedOut
  | NoDataReceived
  | ExceedsByteLimit
  | NotUtf8

text \<open>The state of the loop over the header lines.\<close>

record header_scan =
  scan_headers :: "(string, string) bmap"
  scan_skipped :: "(nat \<times> string) list"
  scan_json :: "(string \<times> string) list"
  scan_processed :: nat

definition looks_like_json :: "string \<Rightarrow> bool" where
  "looks_like_json val = (case trim_start val of [] \<Rightarrow> False | c # _ \<Rightarrow> c = CHR ''['' \<or> c = CHR ''{'')"

definition too_many_headers :: string where
  "too_many_headers = ''header line count exceeds 4096; remaining lines skipped''"

definition scan_line :: "(string \<Rightarrow> 'n json option) \<Rightarrow> nat \<Rightarrow> string \<Rightarrow> header_scan \<Rightarrow> header_scan" where
  "scan_line from_str idx line st =
     (case split_once_at '': '' line of
        Some (k, v) \<Rightarrow>
          let key = trim k; val = trim v;
              skips = (if starts_with_space line \<or> key = [] \<or> contains_space key then [(idx + 1, line)] else []);
              bad = (if looks_like_json val \<and> from_str val = None then [(key, val)] else [])
          in st\<lparr>scan_headers := bm_insert key val (scan_headers st),
                scan_skipped := scan_skipped st @ skips,
                scan_json := scan_json st @ bad\<rparr>
      | None \<Rightarrow> st\<lparr>scan_skipped := scan_skipped st @ [(idx + 1, line)]\<rparr>)"

fun scan_lines :: "(string \<Rightarrow> 'n json option) \<Rightarrow> nat \<Rightarrow> string list \<Rightarrow> header_scan \<Rightarrow> header_scan" where
  "scan_lines from_str idx [] st = st"
| "scan_lines from_str idx (line # rest) st =
     (if line = [] then scan_lines from_str (idx + 1) rest st
      else if MAX_HEADERS \<le> scan_processed st
      then st\<lparr>scan_skipped := scan_skipped st @ [(idx + 1, too_many_headers)]\<rparr>
      else scan_lines from_str (idx + 1) rest
             (scan_line from_str idx line (st\<lparr>scan_processed := scan_processed st + 1\<rparr>)))"

definition split_content :: "string \<Rightarrow> string \<times> string" where
  "split_content content =
     (case split_once_at ([newline] @ ''---'' @ [newline]) content of
        Some (h, b) \<Rightarrow> (h, b)
      | None \<Rightarrow>
          (case strip_suffix ([newline] @ ''---'' @ [newline]) content of Some h \<Rightarrow> h
           | None \<Rightarrow> (case strip_suffix ([newline] @ ''---'') content of Some h \<Rightarrow> h
           | None \<Rightarrow> (case strip_suffix (''---'' @ [newline]) content of Some h \<Rightarrow> h
           | None \<Rightarrow> (case strip_suffix ''---'' content of Some h \<Rightarrow> h
           | None \<Rightarrow> content))), []))"

definition parse_lenient :: "(string \<Rightarrow> 'n json option) \<Rightarrow> string \<Rightarrow> (bus_error, bus_message \<times> parse_report) result" where
  "parse_lenient from_str raw =
     (case strip_prefix (''---'' @ [newline]) raw of
        None \<Rightarrow>
          if 40 < length raw \<and> is_continuation (raw ! 40) then Inl SliceNotOnCharBoundary
          else Inl (MustStartWithDelimiter (take 40 raw))
      | Some content \<Rightarrow>
          let (header_block, b) = split_content content;
              st = scan_lines from_str 0 (str_lines header_block)
                     \<lparr>scan_headers = [], scan_skipped = [], scan_json = [], scan_processed = 0\<rparr>
          in Inr (\<lparr>msg_headers = scan_headers st, msg_body = trim_end b\<rparr>,
                  \<lparr>skipped_lines = scan_skipped st, json_parse_errors = scan_json st\<rparr>))"

definition first_issue :: "parse_report \<Rightarrow> parse_issue" where
  "first_issue r = hd (map (\<lambda>(n, l). SkippedLine n l) (skipped_lines r)
                       @ map (\<lambda>(k, v). JsonParse k v) (json_parse_errors r))"

definition parse_strict :: "(string \<Rightarrow> 'n json option) \<Rightarrow> string \<Rightarrow> (bus_error, bus_message) result" where
  "parse_strict from_str raw =
     and_then (parse_lenient from_str raw) (\<lambda>(m, r).
       if \<not> report_is_empty r
       then Inl (NonCompliant (length (skipped_lines r)) (length (json_parse_errors r)) (first_issue r))
       else Inr m)"

definition parse :: "(string \<Rightarrow> 'n json option) \<Rightarrow> string \<Rightarrow> (bus_error, bus_message) result" where
  "parse from_str raw = and_then (parse_lenient from_str raw) (\<lambda>(m, _). Inr m)"

text \<open>\<^verbatim>\<open>read_from_stream\<close>, given what the socket delivers: a read error, the ten-second timeout, or the
  bytes up to end of file, of which at most one past the limit are taken.\<close>

datatype stream_read = StreamError | StreamTimeout | StreamBytes string

definition read_from_stream :: "(string \<Rightarrow> 'n json option) \<Rightarrow> stream_read \<Rightarrow> (bus_error, bus_message) result" where
  "read_from_stream from_str rd =
     (case rd of
        StreamError \<Rightarrow> Inl ReadFailed
      | StreamTimeout \<Rightarrow> Inl ReadTimedOut
      | StreamBytes bytes \<Rightarrow>
          let buf = take (MAX_MESSAGE_BYTES + 1) bytes
          in if buf = [] then Inl NoDataReceived
             else if MAX_MESSAGE_BYTES < length buf then Inl ExceedsByteLimit
             else if \<not> from_utf8 buf then Inl NotUtf8
             else parse from_str buf)"

section \<open>Validation\<close>

definition KNOWN_HEADERS :: "string list" where
  "KNOWN_HEADERS =
     [''bus'', ''type'', ''id'', ''from'', ''to'', ''command'', ''args'', ''json'', ''reply-to'', ''ttl'', ''error'',
      ''timestamp'', ''rc'',
      ''parent'', ''title'', ''width'', ''height'', ''position'', ''decorations'', ''layer'', ''sticky'',
      ''layout'', ''gap'', ''padding'', ''align'', ''scrollable'', ''overflow'',
      ''background'', ''text_color'', ''border_color'', ''border_width'', ''border_radius'', ''font_size'', ''opacity'',
      ''target'', ''source'', ''name'',
      ''source_peer'', ''permissions'']"

definition VALID_TYPES :: "string list" where
  "VALID_TYPES = [''request'', ''response'', ''event'', ''stream'']"

definition warn_if :: "('a \<Rightarrow> bool) \<Rightarrow> ('a \<Rightarrow> string) \<Rightarrow> 'a option \<Rightarrow> string list" where
  "warn_if bad msg x = (case x of None \<Rightarrow> [] | Some v \<Rightarrow> if bad v then [msg v] else [])"

definition validate :: "(string \<Rightarrow> 'n json option) \<Rightarrow> bus_message \<Rightarrow> string list" where
  "validate from_str m =
     (if is_empty_message m then []
      else
        map (\<lambda>key. ''unknown header: '' @ key)
          (filter (\<lambda>key. key \<notin> set KNOWN_HEADERS) (map fst (msg_headers m)))
        @ warn_if (\<lambda>t. t \<notin> set VALID_TYPES) (\<lambda>t. ''invalid type: '' @ t) (message_get m ''type'')
        @ warn_if (\<lambda>s. from_str s = None) (\<lambda>_. ''args is not valid JSON'') (message_get m ''args'')
        @ warn_if (\<lambda>s. from_str s = None) (\<lambda>_. ''json payload is not valid JSON'') (message_get m ''json'')
        @ warn_if (\<lambda>s. parse_unsigned 255 s = None) (\<lambda>rc. ''rc is not a valid integer: '' @ rc) (message_get m ''rc'')
        @ warn_if (\<lambda>s. parse_unsigned 4294967295 s = None) (\<lambda>t. ''ttl is not a valid integer: '' @ t)
            (message_get m ''ttl''))"

end
