(* ===== verification/Bus_Wire.thy ===== *)
theory Bus_Wire
  imports Bus_Message
begin

text \<open>
  What the bus parsers guarantee of every message they return, and which messages survive the wire: the
  exact condition under which parsing undoes serialising, for the lenient and for the strict parser.
\<close>

section \<open>Headers that survive the wire\<close>

definition safe_header :: "string \<times> string \<Rightarrow> bool" where
  "safe_header kv \<longleftrightarrow> newline \<notin> set (fst kv) \<and> newline \<notin> set (snd kv)
     \<and> trim (fst kv) = fst kv \<and> trim (snd kv) = snd kv \<and> \<not> sublist '': '' (fst kv)"

definition wire_safe :: "bus_message \<Rightarrow> bool" where
  "wire_safe m \<longleftrightarrow> length (msg_headers m) \<le> MAX_HEADERS \<and> list_all safe_header (msg_headers m)
     \<and> trim_end (msg_body m) = msg_body m \<and> (msg_headers m = [] \<longrightarrow> msg_body m = [])"

definition strict_header :: "(string \<Rightarrow> 'n json option) \<Rightarrow> string \<times> string \<Rightarrow> bool" where
  "strict_header from_str kv \<longleftrightarrow> fst kv \<noteq> [] \<and> \<not> contains_space (fst kv)
     \<and> \<not> (looks_like_json (snd kv) \<and> from_str (snd kv) = None)"

section \<open>What the scan keeps\<close>

definition scan_ok :: "header_scan \<Rightarrow> bool" where
  "scan_ok st \<longleftrightarrow> bm_inv (scan_headers st) \<and> (\<forall>kv\<in>set (scan_headers st). safe_header kv)
     \<and> length (scan_headers st) \<le> scan_processed st \<and> length (scan_skipped st) \<le> scan_processed st
     \<and> length (scan_json st) \<le> scan_processed st \<and> scan_processed st \<le> MAX_HEADERS"

lemma safe_header_split:
  assumes "split_once_at '': '' line = Some (k, v)" "newline \<notin> set line"
  shows "safe_header (trim k, trim v)"
proof -
  have line: "line = k @ '': '' @ v" and least: "\<And>x y. line = x @ '': '' @ y \<Longrightarrow> length k \<le> length x"
    using assms(1) unfolding split_once_at_Some by blast+
  have "\<not> sublist '': '' k"
  proof
    assume "sublist '': '' k"
    then obtain x y where "k = x @ '': '' @ y" by (auto simp: sublist_def)
    then show False using least [of x "y @ '': '' @ v"] line by simp
  qed
  moreover have "sublist (trim k) k"
    unfolding trim_def trim_start_def
    by (meson prefix_imp_sublist prefix_trim_end sublist_order.order_trans suffix_imp_sublist suffix_strip_words)
  ultimately have "\<not> sublist '': '' (trim k)" using sublist_order.order_trans by blast
  then show ?thesis
    using assms(2) line set_trim [of k] set_trim [of v] by (auto simp: safe_header_def)
qed

lemma length_bm_insert_le: "length (bm_insert k v m) \<le> Suc (length m)"
  by (induction m) (auto split: if_splits)

lemma scan_line_ok:
  assumes "scan_ok (st\<lparr>scan_processed := n\<rparr>)" "n < MAX_HEADERS" "newline \<notin> set line"
  shows "scan_ok (scan_line from_str idx line (st\<lparr>scan_processed := n + 1\<rparr>))"
proof (cases "split_once_at '': '' line")
  case None
  then show ?thesis using assms by (simp add: scan_line_def scan_ok_def)
next
  case (Some kv)
  obtain k v where kv: "kv = (k, v)" by (cases kv)
  have "safe_header (trim k, trim v)" using Some kv assms(3) safe_header_split by blast
  then show ?thesis
    using assms Some kv set_bm_insert [of "trim k" "trim v" "scan_headers st"]
      length_bm_insert_le [of "trim k" "trim v" "scan_headers st"]
    by (auto simp: scan_line_def scan_ok_def bm_inv_insert Let_def)
qed

lemma scan_lines_ok:
  assumes "scan_ok st" "\<forall>l\<in>set ls. newline \<notin> set l"
  shows "scan_ok ((scan_lines from_str idx ls st)\<lparr>scan_skipped := []\<rparr>)
    \<and> length (scan_skipped (scan_lines from_str idx ls st)) \<le> Suc MAX_HEADERS"
  using assms
proof (induction ls arbitrary: idx st)
  case Nil
  then show ?case by (auto simp: scan_ok_def)
next
  case (Cons l ls)
  consider "l = []" | "l \<noteq> []" "MAX_HEADERS \<le> scan_processed st" | "l \<noteq> []" "scan_processed st < MAX_HEADERS"
    by linarith
  then show ?case
  proof cases
    case 2
    then show ?thesis using Cons.prems by (auto simp: scan_ok_def)
  next
    case 3
    then have "scan_ok (scan_line from_str idx l (st\<lparr>scan_processed := scan_processed st + 1\<rparr>))"
      using Cons.prems by (intro scan_line_ok) simp_all
    then show ?thesis using 3 Cons.IH Cons.prems by simp
  qed (use Cons in simp)
qed

section \<open>Scanning what was serialised\<close>

lemma header_line_split:
  assumes "safe_header (k, v)"
  shows "split_once_at '': '' (header_line (k, v)) = Some (k, v)"
proof -
  have "length k \<le> length x" if eq: "k @ '': '' @ v = x @ '': '' @ y" for x y
  proof (rule ccontr)
    assume "\<not> length k \<le> length x"
    then obtain z where z: "k = x @ z" "z \<noteq> []" and r: "z @ '': '' @ v = '': '' @ y"
      using eq by (metis append_eq_append_conv_if append_take_drop_id drop_eq_Nil2 append.assoc append_eq_conv_conj same_append_eq take_all_iff linorder_le_cases)
    then have "z = ''::'' \<or> prefix '': '' z \<or> z = '':''"
      by (cases z; cases "tl z") (auto)
    then show False using z r assms by (auto simp: safe_header_def sublist_def prefix_def)
  qed
  then show ?thesis unfolding header_line_def split_once_at_Some by simp
qed

lemma white_space_no_colon: "w \<in> set white_space \<Longrightarrow> CHR '':'' \<notin> set w"
  by (auto simp: white_space_def)

lemma header_line_start:
  assumes "safe_header (k, v)" "k \<noteq> []"
  shows "\<not> starts_with_space (header_line (k, v))"
proof
  assume "starts_with_space (header_line (k, v))"
  then obtain w where w: "w \<in> set white_space" "prefix w (k @ CHR '':'' # '' '' @ v)"
    by (auto simp: starts_with_space_def header_line_def list_ex_iff)
  then have "prefix w k"
    using white_space_no_colon [OF w(1)] by (auto simp: prefix_append prefix_Cons)
  then show False using assms w(1) by (auto simp: safe_header_def trim_fixed)
qed

lemma scan_header_line:
  assumes "safe_header (k, v)" "\<forall>k'\<in>fst ` set (scan_headers st). k' < k"
  shows "scan_headers (scan_line from_str idx (header_line (k, v)) st) = scan_headers st @ [(k, v)]"
    and "scan_processed (scan_line from_str idx (header_line (k, v)) st) = scan_processed st"
    and "scan_skipped (scan_line from_str idx (header_line (k, v)) st) = []
           \<and> scan_json (scan_line from_str idx (header_line (k, v)) st) = []
         \<longleftrightarrow> scan_skipped st = [] \<and> scan_json st = [] \<and> strict_header from_str (k, v)"
proof -
  have t: "trim k = k" "trim v = v" using assms(1) by (simp_all add: safe_header_def)
  have "bm_insert k v m = m @ [(k, v)]" if "\<forall>k'\<in>fst ` set m. k' < k" for m :: "(string, string) bmap"
    using that by (induction m) auto
  then show "scan_headers (scan_line from_str idx (header_line (k, v)) st) = scan_headers st @ [(k, v)]"
    using assms by (simp add: scan_line_def header_line_split t Let_def)
  show "scan_processed (scan_line from_str idx (header_line (k, v)) st) = scan_processed st"
    using assms by (simp add: scan_line_def header_line_split t Let_def)
  show "scan_skipped (scan_line from_str idx (header_line (k, v)) st) = []
           \<and> scan_json (scan_line from_str idx (header_line (k, v)) st) = []
         \<longleftrightarrow> scan_skipped st = [] \<and> scan_json st = [] \<and> strict_header from_str (k, v)"
    using assms header_line_start [OF assms(1)]
    by (auto simp: scan_line_def header_line_split t Let_def strict_header_def)
qed

lemma scan_header_lines:
  assumes "list_all safe_header hs" "bm_inv (scan_headers st @ hs)" "scan_processed st + length hs \<le> MAX_HEADERS"
    and "st' = scan_lines from_str idx (map header_line hs) st"
  shows "scan_headers st' = scan_headers st @ hs \<and>
    (scan_skipped st' = [] \<and> scan_json st' = [] \<longleftrightarrow>
       scan_skipped st = [] \<and> scan_json st = [] \<and> list_all (strict_header from_str) hs)"
  using assms
proof (induction hs arbitrary: idx st)
  case (Cons kv hs)
  obtain k v where kv: "kv = (k, v)" by (cases kv)
  let ?st = "scan_line from_str idx (header_line (k, v)) (st\<lparr>scan_processed := scan_processed st + 1\<rparr>)"
  have below: "\<forall>k'\<in>fst ` set (scan_headers (st\<lparr>scan_processed := scan_processed st + 1\<rparr>)). k' < k"
    using Cons.prems(2) by (auto simp: kv bm_inv_def sorted_wrt_append)
  have sf: "safe_header (k, v)" using Cons.prems(1) by (simp add: kv)
  note sl = scan_header_line [OF sf below, of from_str idx]
  have "header_line kv \<noteq> []" by (simp add: header_line_def)
  then have st': "st' = scan_lines from_str (idx + 1) (map header_line hs) ?st"
    using Cons.prems(3,4) by (simp add: kv)
  have "scan_headers st' = scan_headers ?st @ hs \<and>
    (scan_skipped st' = [] \<and> scan_json st' = [] \<longleftrightarrow>
       scan_skipped ?st = [] \<and> scan_json ?st = [] \<and> list_all (strict_header from_str) hs)"
    using Cons.prems by (intro Cons.IH [OF _ _ _ st']) (simp_all add: sl [simplified] kv)
  then show ?case using sl [simplified] by (auto simp: kv)
qed simp

section \<open>Finding the body again\<close>

abbreviation delimiter :: string where
  "delimiter \<equiv> [newline] @ ''---'' @ [newline]"

lemma split_delimiter_line:
  "newline \<notin> set l \<Longrightarrow> split_once_at delimiter (l @ newline # s) =
     (if prefix (''---'' @ [newline]) s then Some (l, drop 4 s)
      else map_option (\<lambda>(a, b). (l @ newline # a, b)) (split_once_at delimiter s))"
  by (induction l) (auto simp: numeral_eq_Suc split: option.splits)

lemma dash_no_newline: "newline \<notin> set ''---''"
  by (simp add: newline_def)

lemma split_wire_headers:
  assumes "hs \<noteq> []" "list_all safe_header hs"
  shows "split_once_at delimiter (concat (map (\<lambda>kv. header_line kv @ [newline]) hs) @ ''---'' @ [newline] @ b)
    = Some (join_with newline (map header_line hs), b)"
  using assms
proof (induction hs)
  case (Cons kv hs)
  have nl: "newline \<notin> set (header_line kv)"
    using Cons.prems by (auto simp: safe_header_def header_line_def newline_def)
  show ?case
  proof (cases hs)
    case Nil
    then show ?thesis using split_delimiter_line [OF nl, of "''---'' @ [newline] @ b"] by simp
  next
    case (Cons kv' hs')
    let ?s = "concat (map (\<lambda>kv. header_line kv @ [newline]) hs) @ ''---'' @ [newline] @ b"
    have "\<not> prefix (''---'' @ [newline]) ?s"
    proof
      assume p: "prefix (''---'' @ [newline]) ?s"
      have nl': "newline \<notin> set (header_line kv')"
        using Cons.prems Cons by (auto simp: safe_header_def header_line_def newline_def)
      from p obtain t where "''---'' @ newline # t = header_line kv' @ newline # drop (Suc (length (header_line kv'))) ?s"
        using Cons by (auto simp: prefix_def)
      then have "header_line kv' = ''---''"
        using sep_unique [of newline "''---''" "header_line kv'"] nl' by (metis dash_no_newline)
      then have "CHR '':'' \<in> set ''---''" by (metis header_line_def in_set_conv_decomp append_Cons)
      then show False by simp
    qed
    then show ?thesis
      using split_delimiter_line [OF nl, of ?s] Cons.IH Cons.prems Cons by simp
  qed
qed simp

definition scan_start :: header_scan where
  "scan_start = \<lparr>scan_headers = [], scan_skipped = [], scan_json = [], scan_processed = 0\<rparr>"

definition wire_content :: "bus_message \<Rightarrow> string" where
  "wire_content m = concat (map (\<lambda>kv. header_line kv @ [newline]) (msg_headers m)) @ ''---'' @ [newline]
     @ (if msg_body m \<noteq> [] then msg_body m @ (if last (msg_body m) \<noteq> newline then [newline] else []) else [])"

lemma parse_lenient_content:
  "parse_lenient from_str (CHR ''-'' # CHR ''-'' # CHR ''-'' # newline # content) =
     (let (h, b) = split_content content; st = scan_lines from_str 0 (str_lines h) scan_start
      in Inr (\<lparr>msg_headers = scan_headers st, msg_body = trim_end b\<rparr>,
              \<lparr>skipped_lines = scan_skipped st, json_parse_errors = scan_json st\<rparr>))"
  by (simp add: parse_lenient_def strip_prefix_def scan_start_def Let_def)

lemma to_wire_content: "to_wire m = ''---'' @ newline # wire_content m"
  by (simp add: to_wire_def wire_content_def)

lemma header_line_ends:
  assumes "safe_header kv" shows "\<not> suffix [CHR 0x0D] (header_line kv)"
proof
  assume s: "suffix [CHR 0x0D] (header_line kv)"
  then have "suffix [CHR 0x0D] (snd kv)"
    by (cases "snd kv" rule: rev_cases) (auto simp: header_line_def suffix_def)
  moreover have "[CHR 0x0D] \<in> set white_space" by (simp add: white_space_def)
  ultimately show False using assms by (auto simp: safe_header_def trim_fixed)
qed

lemma str_lines_headers:
  assumes "list_all safe_header hs"
  shows "str_lines (join_with newline (map header_line hs)) = map header_line hs"
  unfolding newline_def
  by (rule str_lines_join)
    (use assms header_line_ends in \<open>auto simp: list_all_iff safe_header_def header_line_def newline_def\<close>)

lemma trim_end_wire_body:
  "trim_end b = b \<Longrightarrow> trim_end (if b \<noteq> [] then b @ (if last b \<noteq> newline then [newline] else []) else []) = b"
  using trim_end_newline [of b] by (simp add: newline_def)

lemma split_content_wire:
  assumes "wire_safe m"
  shows "split_content (wire_content m) = (join_with newline (map header_line (msg_headers m)),
    if msg_body m \<noteq> [] then msg_body m @ (if last (msg_body m) \<noteq> newline then [newline] else []) else [])"
proof (cases "msg_headers m = []")
  case True
  then have "wire_content m = ''---'' @ [newline]" using assms by (simp add: wire_content_def wire_safe_def)
  moreover have "split_content (''---'' @ [newline]) = ([], [])"
    by (simp add: split_content_def newline_def strip_suffix_def suffix_def)
  ultimately show ?thesis using True assms by (simp add: wire_safe_def)
next
  case False
  then show ?thesis
    using split_wire_headers [OF False] assms by (simp add: split_content_def wire_content_def wire_safe_def)
qed

lemma parse_wire:
  assumes "wire_safe m" "bm_inv (msg_headers m)"
  obtains r where "parse_lenient from_str (to_wire m) = Inr (m, r)"
    "report_is_empty r \<longleftrightarrow> list_all (strict_header from_str) (msg_headers m)"
proof -
  let ?st = "scan_lines from_str 0 (map header_line (msg_headers m)) scan_start"
  have safe: "list_all safe_header (msg_headers m)" using assms(1) by (simp add: wire_safe_def)
  have "scan_headers ?st = msg_headers m \<and> (scan_skipped ?st = [] \<and> scan_json ?st = [] \<longleftrightarrow>
      list_all (strict_header from_str) (msg_headers m))"
    using scan_header_lines [OF safe _ _ refl, of scan_start from_str 0] assms
    by (simp add: scan_start_def wire_safe_def)
  then show ?thesis
    using that assms(1) trim_end_wire_body [of "msg_body m"]
    by (simp add: to_wire_content parse_lenient_content split_content_wire str_lines_headers safe
        wire_safe_def report_is_empty_def Let_def)
qed

text \<open>What every returned message satisfies.\<close>

lemma parse_lenient_ok:
  assumes "parse_lenient from_str raw = Inr (m, r)"
  shows "bm_inv (msg_headers m) \<and> length (msg_headers m) \<le> MAX_HEADERS \<and> list_all safe_header (msg_headers m)
    \<and> trim_end (msg_body m) = msg_body m
    \<and> length (skipped_lines r) \<le> Suc MAX_HEADERS \<and> length (json_parse_errors r) \<le> MAX_HEADERS"
proof -
  obtain content where raw: "raw = ''---'' @ newline # content"
    using assms by (auto simp: parse_lenient_def strip_prefix_def prefix_def split: option.splits if_splits)
  obtain h b where hb: "split_content content = (h, b)" by (cases "split_content content")
  let ?st = "scan_lines from_str 0 (str_lines h) scan_start"
  have "scan_ok scan_start" by (simp add: scan_ok_def scan_start_def bm_inv_def)
  moreover have "\<forall>l\<in>set (str_lines h). newline \<notin> set l"
    using str_lines_no_newline unfolding newline_def by blast
  ultimately have "scan_ok (?st\<lparr>scan_skipped := []\<rparr>) \<and> length (scan_skipped ?st) \<le> Suc MAX_HEADERS"
    by (rule scan_lines_ok)
  then show ?thesis
    using assms raw hb by (auto simp: parse_lenient_content scan_ok_def list_all_iff Let_def)
qed

text \<open>A body without headers is lost: the wire form then has no header delimiter before it.\<close>

lemma headerless_body_lost:
  assumes "msg_headers m = []" "msg_body m \<noteq> []"
  shows "parse from_str (to_wire m) \<noteq> Inr m"
proof
  assume p: "parse from_str (to_wire m) = Inr m"
  obtain h b where hb: "split_content (wire_content m) = (h, b)" by (cases "split_content (wire_content m)")
  then have "trim_end b = msg_body m"
    using p by (cases m) (auto simp: parse_def to_wire_content parse_lenient_content Let_def)
  then have le: "length (msg_body m) \<le> length b" using prefix_trim_end [of b] prefix_length_le by fastforce
  then have "b \<noteq> []" using assms(2) by auto
  then have "split_once_at delimiter (wire_content m) = Some (h, b)"
    using hb by (auto simp: split_content_def split: option.splits)
  then have c: "wire_content m = h @ delimiter @ b" by (simp only: split_once_at_Some)
  moreover have "hd (wire_content m) = CHR ''-''" using assms by (simp add: wire_content_def)
  ultimately have "h \<noteq> []" by (auto simp: newline_def)
  moreover have "length (wire_content m) \<le> length (msg_body m) + 5" using assms by (simp add: wire_content_def)
  ultimately show False using c le by (cases h) auto
qed

text \<open>C16: the bus wire format round-trips exactly for the messages with at most 4096 headers whose
  keys and values hold no line feed and no surrounding whitespace, whose keys do not contain a colon
  followed by a space, whose body does not end in whitespace, and which have at least one header
  unless the body is empty too: for a message whose header map is a map, parsing its serialisation
  gives the message back if and only if it is of this kind.  The strict parser gives it back if and
  only if, in addition, no key is empty or contains whitespace and every value that looks like JSON is
  JSON.\<close>

theorem bus_roundtrip:
  assumes "bm_inv (msg_headers m)"
  shows "(parse from_str (to_wire m) = Inr m \<longleftrightarrow> wire_safe m)
    \<and> (parse_strict from_str (to_wire m) = Inr m \<longleftrightarrow>
         wire_safe m \<and> list_all (strict_header from_str) (msg_headers m))"
proof -
  have "wire_safe m" if p: "parse from_str (to_wire m) = Inr m"
  proof -
    obtain r where "parse_lenient from_str (to_wire m) = Inr (m, r)"
      using p by (cases "parse_lenient from_str (to_wire m)") (auto simp: parse_def)
    then show ?thesis
      using parse_lenient_ok [of from_str "to_wire m" m r] headerless_body_lost [of m from_str] p
      by (auto simp: wire_safe_def)
  qed
  moreover have "parse from_str (to_wire m) = Inr m" if "parse_strict from_str (to_wire m) = Inr m"
    using that by (cases "parse_lenient from_str (to_wire m)") (auto simp: parse_def parse_strict_def split: if_splits)
  moreover have "parse from_str (to_wire m) = Inr m \<and> (parse_strict from_str (to_wire m) = Inr m \<longleftrightarrow>
      list_all (strict_header from_str) (msg_headers m))" if safe: "wire_safe m"
  proof -
    obtain r where "parse_lenient from_str (to_wire m) = Inr (m, r)"
      "report_is_empty r \<longleftrightarrow> list_all (strict_header from_str) (msg_headers m)"
      by (rule parse_wire [OF safe assms])
    then show ?thesis by (simp add: parse_def parse_strict_def)
  qed
  ultimately show ?thesis by blast
qed

definition sample_message :: bus_message where
  "sample_message = \<lparr>msg_headers = [(''command'', ''get''), (''rc'', ''0'')], msg_body = ''ok''\<rparr>"

theorem bus_roundtrip_witness:
  "bm_inv (msg_headers sample_message)
   \<and> parse (\<lambda>_. Some (JNull :: unit json)) (to_wire sample_message) = Inr sample_message"
proof
  show "bm_inv (msg_headers sample_message)" by (simp add: sample_message_def bm_inv_def)
  moreover have "list_all safe_header (msg_headers sample_message)"
    "trim_end (msg_body sample_message) = msg_body sample_message"
    by code_simp+
  then have "wire_safe sample_message" by (simp add: wire_safe_def sample_message_def MAX_HEADERS_def)
  ultimately show "parse (\<lambda>_. Some (JNull :: unit json)) (to_wire sample_message) = Inr sample_message"
    using bus_roundtrip [of sample_message "\<lambda>_. Some (JNull :: unit json)"] by blast
qed

text \<open>C35: whatever bytes arrive, a message the parser returns has at most 4096 headers in a
  well-formed map, keys and values are trimmed and hold no line feed, the report never holds more than
  4097 and 4096 entries; and serialising and parsing the returned message again gives it back
  exactly when it has a header or no body.\<close>

theorem parsed_message_stable:
  assumes "parse_lenient from_str raw = Inr (m, r)"
  shows "bm_inv (msg_headers m) \<and> length (msg_headers m) \<le> 4096 \<and> list_all safe_header (msg_headers m)
    \<and> length (skipped_lines r) \<le> 4097 \<and> length (json_parse_errors r) \<le> 4096
    \<and> (parse from_str (to_wire m) = Inr m \<longleftrightarrow> msg_headers m \<noteq> [] \<or> msg_body m = [])"
proof -
  note ok = parse_lenient_ok [OF assms]
  have "parse from_str (to_wire m) = Inr m" if "msg_headers m \<noteq> [] \<or> msg_body m = []"
  proof -
    have "wire_safe m" "bm_inv (msg_headers m)" using ok that by (auto simp: wire_safe_def)
    then obtain r' where "parse_lenient from_str (to_wire m) = Inr (m, r')" by (rule parse_wire)
    then show ?thesis by (simp add: parse_def)
  qed
  then show ?thesis
    using ok headerless_body_lost [of m from_str] by (auto simp: MAX_HEADERS_def)
qed

theorem parsed_message_stable_witness:
  "parse_lenient (\<lambda>_. Some (JNull :: unit json)) EMPTY_MESSAGE = Inr (message_new, \<lparr>skipped_lines = [], json_parse_errors = []\<rparr>)
   \<and> parse (\<lambda>_. Some (JNull :: unit json)) (to_wire message_new) = Inr message_new"
proof
  show p: "parse_lenient (\<lambda>_. Some (JNull :: unit json)) EMPTY_MESSAGE = Inr (message_new, \<lparr>skipped_lines = [], json_parse_errors = []\<rparr>)"
    using parse_lenient_content [of "\<lambda>_. Some (JNull :: unit json)" "''---'' @ [newline]"]
    by (simp add: EMPTY_MESSAGE_def split_content_def strip_suffix_def suffix_def newline_def scan_start_def message_new_def)
  show "parse (\<lambda>_. Some (JNull :: unit json)) (to_wire message_new) = Inr message_new"
    using parsed_message_stable [OF p] by (simp add: message_new_def)
qed



end
