(* ===== verification/Mesh_Canonical.thy ===== *)
theory Mesh_Canonical
  imports Cosmix_Json
begin

text \<open>
  The canonical bytes every mesh signature covers (\<^verbatim>\<open>cosmix-lib-mesh-trust/src/canonical.rs\<close>).  The
  printing of numbers is serde\_json's and a parameter.  The theorem is the property the signatures
  rest on: two values have the same canonical bytes exactly when they are the same value up to the
  order of object members.
\<close>

section \<open>Definitions\<close>

definition hex_digit :: "nat \<Rightarrow> char" where
  "hex_digit n = (if n < 10 then char_of (48 + n) else char_of (87 + n))"

text \<open>A character is escaped by its single byte; the bytes of a longer character are all at least
  0x80 and are copied.\<close>

definition escape_byte :: "char \<Rightarrow> string" where
  "escape_byte c =
     (if c = CHR 0x22 then [CHR 0x5C, CHR 0x22]
      else if c = CHR 0x5C then [CHR 0x5C, CHR 0x5C]
      else if c = CHR 0x0A then [CHR 0x5C, CHR ''n'']
      else if c = CHR 0x0D then [CHR 0x5C, CHR ''r'']
      else if c = CHR 0x09 then [CHR 0x5C, CHR ''t'']
      else if c = CHR 0x08 then [CHR 0x5C, CHR ''b'']
      else if c = CHR 0x0C then [CHR 0x5C, CHR ''f'']
      else if (of_char c :: nat) < 0x20
      then [CHR 0x5C, CHR ''u'', CHR ''0'', CHR ''0'', hex_digit (of_char c div 16), hex_digit (of_char c mod 16)]
      else [c])"

definition emit_json_string :: "string \<Rightarrow> string" where
  "emit_json_string s = [CHR 0x22] @ concat (map escape_byte s) @ [CHR 0x22]"

lemma size_member: "(k, v) \<in> set obj \<Longrightarrow> size v < Suc (size_list (size_prod (\<lambda>_. 0) size) obj)"
  by (induction obj) auto

lemma size_item: "v \<in> set arr \<Longrightarrow> size v < Suc (size_list size arr)"
  by (induction arr) auto

text \<open>Members are emitted in the order of their sorted keys; the keys of an object are distinct, so
  sorting the members by key visits the same pairs as looking every sorted key up.\<close>

function emit_value :: "('n \<Rightarrow> string) \<Rightarrow> 'n json \<Rightarrow> string" where
  "emit_value sh JNull = ''null''"
| "emit_value sh (JBool True) = ''true''"
| "emit_value sh (JBool False) = ''false''"
| "emit_value sh (JNumber n) = sh n"
| "emit_value sh (JString s) = emit_json_string s"
| "emit_value sh (JArray arr) = ''['' @ join_with (CHR '','') (map (emit_value sh) arr) @ '']''"
| "emit_value sh (JObject obj) =
     ''{'' @ join_with (CHR '','')
        (map (\<lambda>kv. emit_json_string (fst kv) @ '':'' @ emit_value sh (snd kv)) (sort_key fst obj)) @ ''}''"
  by pat_completeness auto

termination
  by (relation "measure (\<lambda>(sh, v). size v)") (auto simp: size_item size_member)

definition to_canonical_bytes :: "('n \<Rightarrow> string) \<Rightarrow> 'n json \<Rightarrow> string" where
  "to_canonical_bytes sh v = emit_value sh v"

text \<open>\<^verbatim>\<open>deserialize_strict_value\<close> as a function of the parsed tree, in which an object still has every
  member of the text in order: a repeated key is an error at any depth.  \<open>finite\<close> tells the numbers
  that are no NaN and no infinity.\<close>

lemma try_map_cong [fundef_cong]:
  "xs = ys \<Longrightarrow> (\<And>x. x \<in> set ys \<Longrightarrow> f x = g x) \<Longrightarrow> try_map f xs = try_map g ys"
  by (induction ys arbitrary: xs) auto

lemma try_fold_cong [fundef_cong]:
  "acc = acc' \<Longrightarrow> xs = ys \<Longrightarrow> (\<And>a x. x \<in> set ys \<Longrightarrow> f a x = g a x) \<Longrightarrow> try_fold f acc xs = try_fold g acc' ys"
proof (induction ys arbitrary: xs acc acc')
  case (Cons y ys)
  then show ?case by (cases "g acc' y") auto
qed simp

datatype strict_error = NonFiniteFloat | DuplicateKey string

function deserialize_strict_value :: "('n \<Rightarrow> bool) \<Rightarrow> 'n json \<Rightarrow> (strict_error, 'n json) result" where
  "deserialize_strict_value fin JNull = Inr JNull"
| "deserialize_strict_value fin (JBool b) = Inr (JBool b)"
| "deserialize_strict_value fin (JNumber n) = (if fin n then Inr (JNumber n) else Inl NonFiniteFloat)"
| "deserialize_strict_value fin (JString s) = Inr (JString s)"
| "deserialize_strict_value fin (JArray arr) =
     and_then (try_map (deserialize_strict_value fin) arr) (\<lambda>vs. Inr (JArray vs))"
| "deserialize_strict_value fin (JObject ms) =
     and_then
       (try_fold (\<lambda>obj kv. and_then (deserialize_strict_value fin (snd kv)) (\<lambda>v.
           if fst kv \<in> fst ` set obj then Inl (DuplicateKey (fst kv)) else Inr (obj @ [(fst kv, v)]))) [] ms)
       (\<lambda>obj. Inr (JObject obj))"
  by pat_completeness auto

termination
  by (relation "measure (\<lambda>(fin, v). size v)") (auto simp: size_item size_member)

section \<open>Strict values\<close>

text \<open>The values the strict deserialiser lets through.\<close>

fun strict_ok :: "('n \<Rightarrow> bool) \<Rightarrow> 'n json \<Rightarrow> bool" where
  "strict_ok fin (JNumber n) = fin n"
| "strict_ok fin (JArray vs) \<longleftrightarrow> (\<forall>v\<in>set vs. strict_ok fin v)"
| "strict_ok fin (JObject ms) \<longleftrightarrow> distinct (map fst ms) \<and> (\<forall>kv\<in>set ms. strict_ok fin (snd kv))"
| "strict_ok fin _ = True"

lemma try_map_id:
  assumes "\<And>v w. v \<in> set vs \<Longrightarrow> d v = Inr w \<longleftrightarrow> ok v \<and> w = v"
  shows "try_map d vs = Inr ws \<longleftrightarrow> (\<forall>v\<in>set vs. ok v) \<and> ws = vs"
  using assms
proof (induction vs arbitrary: ws)
  case (Cons v vs)
  have "try_map d vs = Inr us \<longleftrightarrow> (\<forall>v\<in>set vs. ok v) \<and> us = vs" for us
    using Cons.prems by (intro Cons.IH) auto
  note IH = this
  show ?case
  proof (cases "ok v")
    case True
    then have "d v = Inr v" using Cons.prems [of v v] by simp
    then show ?thesis using True IH by (cases "try_map d vs") auto
  next
    case False
    then show ?thesis using Cons.prems [of v] by (cases "d v") auto
  qed
qed auto

lemma try_fold_members:
  assumes "\<And>kv w. kv \<in> set ms \<Longrightarrow> d (snd kv) = Inr w \<longleftrightarrow> ok (snd kv) \<and> w = snd kv"
    and "distinct (map fst obj)"
  shows "try_fold (\<lambda>obj kv. and_then (d (snd kv)) (\<lambda>v. if fst kv \<in> fst ` set obj
             then Inl (DuplicateKey (fst kv)) else Inr (obj @ [(fst kv, v)]))) obj ms = Inr r
    \<longleftrightarrow> distinct (map fst (obj @ ms)) \<and> (\<forall>kv\<in>set ms. ok (snd kv)) \<and> r = obj @ ms"
  using assms
proof (induction ms arbitrary: obj)
  case (Cons kv ms)
  let ?f = "\<lambda>obj kv. and_then (d (snd kv)) (\<lambda>v. if fst kv \<in> fst ` set obj
             then Inl (DuplicateKey (fst kv)) else Inr (obj @ [(fst kv, v)]))"
  show ?case
  proof (cases "ok (snd kv) \<and> fst kv \<notin> fst ` set obj")
    case True
    then have "d (snd kv) = Inr (snd kv)" using Cons.prems(1) [of kv "snd kv"] by simp
    moreover have "distinct (map fst (obj @ [kv]))" using True Cons.prems(2) by auto
    moreover have "try_fold ?f (obj @ [kv]) ms = Inr r
        \<longleftrightarrow> distinct (map fst ((obj @ [kv]) @ ms)) \<and> (\<forall>kv\<in>set ms. ok (snd kv)) \<and> r = (obj @ [kv]) @ ms"
      by (rule Cons.IH) (use Cons.prems(1) calculation(2) in auto)
    ultimately show ?thesis using True by simp
  next
    case False
    then show ?thesis using Cons.prems(1) [of kv] by (cases "d (snd kv)") auto
  qed
qed auto

lemma deserialize_strict_value_iff: "deserialize_strict_value fin v = Inr w \<longleftrightarrow> strict_ok fin v \<and> w = v"
proof (induction fin v arbitrary: w rule: deserialize_strict_value.induct)
  case (5 fin arr)
  have "try_map (deserialize_strict_value fin) arr = Inr ws \<longleftrightarrow> (\<forall>v\<in>set arr. strict_ok fin v) \<and> ws = arr" for ws
    using 5 by (intro try_map_id) auto
  then show ?case by (cases "try_map (deserialize_strict_value fin) arr") auto
next
  case (6 fin ms)
  let ?f = "\<lambda>obj kv. and_then (deserialize_strict_value fin (snd kv)) (\<lambda>v. if fst kv \<in> fst ` set obj
             then Inl (DuplicateKey (fst kv)) else Inr (obj @ [(fst kv, v)]))"
  have "try_fold ?f [] ms = Inr r \<longleftrightarrow> distinct (map fst ms) \<and> (\<forall>kv\<in>set ms. strict_ok fin (snd kv)) \<and> r = ms" for r
    using try_fold_members [of ms "deserialize_strict_value fin" "strict_ok fin" "[]" r] 6 by simp
  then show ?case by (cases "try_fold ?f [] ms") auto
qed auto

section \<open>Strings are decodable\<close>

lemma hex_digit_inj: "m < 16 \<Longrightarrow> n < 16 \<Longrightarrow> hex_digit m = hex_digit n \<Longrightarrow> m = n"
proof -
  assume a: "m < 16" "n < 16" "hex_digit m = hex_digit n"
  have "of_char (hex_digit k) = (if k < 10 then 48 + k else 87 + k)" if "k < 16" for k :: nat
    using that by (simp add: hex_digit_def of_char_of)
  then show ?thesis using a(1,2) arg_cong [OF a(3), of "of_char :: char \<Rightarrow> nat"] by (auto split: if_splits)
qed

lemma escape_byte_cases:
  obtains (plain) "escape_byte c = [c]" "c \<noteq> CHR 0x22" "c \<noteq> CHR 0x5C"
  | (short) x where "escape_byte c = [CHR 0x5C, x]" "(c, x) \<in> {(CHR 0x22, CHR 0x22), (CHR 0x5C, CHR 0x5C),
      (CHR 0x0A, CHR ''n''), (CHR 0x0D, CHR ''r''), (CHR 0x09, CHR ''t''), (CHR 0x08, CHR ''b''), (CHR 0x0C, CHR ''f'')}"
  | (long) "escape_byte c = [CHR 0x5C, CHR ''u'', CHR ''0'', CHR ''0'', hex_digit (of_char c div 16), hex_digit (of_char c mod 16)]"
      "(of_char c :: nat) < 0x20"
proof -
  consider "c = CHR 0x22" | "c = CHR 0x5C" | "c = CHR 0x0A" | "c = CHR 0x0D" | "c = CHR 0x09" | "c = CHR 0x08"
    | "c = CHR 0x0C" | "(of_char c :: nat) < 0x20" "c \<notin> {CHR 0x0A, CHR 0x0D, CHR 0x09, CHR 0x08, CHR 0x0C}"
    | "\<not> (of_char c :: nat) < 0x20" "c \<noteq> CHR 0x22" "c \<noteq> CHR 0x5C" by blast
  then show ?thesis
  proof cases
    case 8
    have "c \<noteq> CHR 0x22" "c \<noteq> CHR 0x5C" using 8(1) by (intro notI; simp)+
    then show ?thesis by (intro long) (use 8 in \<open>simp_all add: escape_byte_def\<close>)
  next
    case 9
    have "c \<notin> {CHR 0x0A, CHR 0x0D, CHR 0x09, CHR 0x08, CHR 0x0C}" using 9(1) by (intro notI, elim insertE) simp_all
    then show ?thesis by (intro plain) (use 9 in \<open>simp_all add: escape_byte_def\<close>)
  qed (rule short; simp add: escape_byte_def)+
qed

lemma escape_byte_unique:
  assumes "escape_byte c @ x = escape_byte d @ y"
  shows "c = d \<and> x = y"
proof (cases c rule: escape_byte_cases)
  case plain
  then show ?thesis using assms by (cases d rule: escape_byte_cases) auto
next
  case (short u)
  then show ?thesis using assms by (cases d rule: escape_byte_cases) auto
next
  case c: long
  show ?thesis
  proof (cases d rule: escape_byte_cases)
    case d: long
    then have h: "hex_digit (of_char c div 16) = hex_digit (of_char d div 16)"
      "hex_digit (of_char c mod 16) = hex_digit (of_char d mod 16)" "x = y"
      using c assms by simp_all
    have "(of_char c div 16 :: nat) = of_char d div 16" "(of_char c mod 16 :: nat) = of_char d mod 16"
      using c(2) d(2) h(1,2) by (auto intro: hex_digit_inj)
    then have "(of_char c :: nat) = of_char d" by (metis div_mult_mod_eq)
    then show ?thesis using h(3) by simp
  qed (use c assms in auto)
qed

lemma escape_byte_ne: "escape_byte c \<noteq> [] \<and> hd (escape_byte c) \<noteq> CHR 0x22"
  by (cases c rule: escape_byte_cases) auto

lemma emit_json_string_unique:
  assumes "emit_json_string s @ x = emit_json_string t @ y"
  shows "s = t \<and> x = y"
proof -
  have "concat (map escape_byte s) @ CHR 0x22 # x = concat (map escape_byte t) @ CHR 0x22 # y"
    using assms by (simp add: emit_json_string_def)
  then show ?thesis
  proof (induction s arbitrary: t)
    case Nil
    then show ?case
    proof (cases t)
      case (Cons d t')
      then show ?thesis using Nil.prems escape_byte_ne [of d] by (cases "escape_byte d") auto
    qed simp
  next
    case (Cons c s)
    show ?case
    proof (cases t)
      case Nil
      then show ?thesis using Cons.prems escape_byte_ne [of c] by (cases "escape_byte c") auto
    next
      case (Cons d t')
      then have "escape_byte c @ (concat (map escape_byte s) @ CHR 0x22 # x)
          = escape_byte d @ (concat (map escape_byte t') @ CHR 0x22 # y)"
        using Cons.prems by simp
      then show ?thesis using escape_byte_unique Cons.IH Cons by blast
    qed
  qed
qed

section \<open>Values are decodable\<close>

text \<open>What serde\_json documents of printed numbers: the text is not empty, uses the characters of JSON
  numbers only, and different numbers print differently.\<close>

definition number_chars :: "char set" where
  "number_chars = set ''0123456789+-.eE''"

definition number_syntax :: "('n \<Rightarrow> string) \<Rightarrow> bool" where
  "number_syntax sh \<longleftrightarrow> inj sh \<and> (\<forall>n. sh n \<noteq> [] \<and> set (sh n) \<subseteq> number_chars)"

text \<open>The same value with the members of every object in key order.\<close>

function canon :: "'n json \<Rightarrow> 'n json" where
  "canon JNull = JNull"
| "canon (JBool b) = JBool b"
| "canon (JNumber n) = JNumber n"
| "canon (JString s) = JString s"
| "canon (JArray vs) = JArray (map canon vs)"
| "canon (JObject ms) = JObject (map (\<lambda>kv. (fst kv, canon (snd kv))) (sort_key fst ms))"
  by pat_completeness auto
termination
  by (relation "measure size") (auto simp: size_item size_member)

text \<open>What may follow a value.\<close>

definition ends_value :: "string \<Rightarrow> bool" where
  "ends_value x \<longleftrightarrow> x = [] \<or> hd x \<in> set '',]}''"

lemma number_unique:
  assumes "number_syntax sh" "sh m @ x = sh n @ y" "ends_value x" "ends_value y"
  shows "m = n \<and> x = y"
proof -
  have tk: "takeWhile (\<lambda>c. c \<in> number_chars) (sh k @ z) = sh k" if "ends_value z" for k z
  proof -
    have "\<forall>c\<in>set (sh k). c \<in> number_chars" using assms(1) by (auto simp: number_syntax_def)
    moreover have "takeWhile (\<lambda>c. c \<in> number_chars) z = []"
      using that by (cases z) (auto simp: ends_value_def number_chars_def)
    ultimately show ?thesis by (simp add: takeWhile_append2)
  qed
  then have "sh m = sh n" using assms(2-4) by metis
  moreover from this have "m = n" using assms(1) by (auto simp: number_syntax_def inj_def)
  ultimately show ?thesis using assms(2) by simp
qed

lemma number_head: "number_syntax sh \<Longrightarrow> \<exists>c r. sh n = c # r \<and> c \<in> number_chars"
proof -
  assume "number_syntax sh"
  then have "sh n \<noteq> []" "set (sh n) \<subseteq> number_chars" by (simp_all add: number_syntax_def)
  then show ?thesis by (cases "sh n") simp_all
qed

lemma emit_head:
  "number_syntax sh \<Longrightarrow> \<exists>c r. emit_value sh v = c # r \<and> c \<notin> set '',]}''"
proof (cases v)
  case (JNumber n)
  assume "number_syntax sh"
  from number_head [OF this, of n] obtain c r where "sh n = c # r" "c \<in> number_chars" by blast
  then show ?thesis using JNumber by (auto simp: number_chars_def)
next
  case (JBool b)
  then show ?thesis by (cases b) auto
qed (auto simp: emit_json_string_def)

text \<open>Comma-separated items between brackets, each of which can be told from what follows it.\<close>

lemma items_unique:
  assumes step: "\<And>v w x y. v \<in> set vs \<Longrightarrow> f v @ x = f w @ y \<Longrightarrow> ends_value x \<Longrightarrow> ends_value y \<Longrightarrow> h v = h w \<and> x = y"
    and head: "\<And>v. \<exists>c r. f v = c # r \<and> c \<notin> set '',]}''"
    and c: "c \<in> set '']}''"
    and eq: "join_with (CHR '','') (map f vs) @ c # x = join_with (CHR '','') (map f ws) @ c # y"
  shows "map h vs = map h ws \<and> x = y"
  using step eq
proof (induction vs arbitrary: ws)
  case Nil
  show ?case
  proof (cases ws)
    case (Cons w ws')
    then show ?thesis using Nil.prems(2) head [of w] c by (cases ws') auto
  qed (use Nil in simp)
next
  case (Cons v vs)
  show ?case
  proof (cases ws)
    case Nil
    then show ?thesis using Cons.prems(2) head [of v] c by (cases vs) auto
  next
    case ws: (Cons w ws')
    define r where "r = (if vs = [] then c # x else CHR '','' # join_with (CHR '','') (map f vs) @ c # x)"
    define t where "t = (if ws' = [] then c # y else CHR '','' # join_with (CHR '','') (map f ws') @ c # y)"
    have e1: "f v @ r = f w @ t"
      using Cons.prems(2) ws unfolding r_def t_def by (cases vs; cases ws') auto
    have e2: "ends_value r" "ends_value t" using c by (auto simp: ends_value_def r_def t_def)
    have "h v = h w \<and> r = t" by (rule Cons.prems(1) [OF _ e1 e2]) simp
    then have hv: "h v = h w" and rt: "r = t" by blast+
    show ?thesis
    proof (cases "vs = [] \<or> ws' = []")
      case True
      then show ?thesis using hv rt ws c by (auto simp: r_def t_def split: if_splits)
    next
      case False
      then have "join_with (CHR '','') (map f vs) @ c # x = join_with (CHR '','') (map f ws') @ c # y"
        using rt by (simp add: r_def t_def)
      moreover have "h u = h u' \<and> p = q"
        if "u \<in> set vs" "f u @ p = f u' @ q" "ends_value p" "ends_value q" for u u' p q
        using that by (intro Cons.prems(1)) simp_all
      ultimately have "map h vs = map h ws' \<and> x = y" by (intro Cons.IH)
      then show ?thesis using hv ws by simp
    qed
  qed
qed

lemma member_unique:
  assumes "emit_json_string k @ CHR '':'' # e @ x = emit_json_string k' @ CHR '':'' # e' @ y"
  shows "k = k' \<and> e @ x = e' @ y"
  using emit_json_string_unique [OF assms] by simp

text \<open>The first byte tells the kind of a value.\<close>

fun kind :: "'n json \<Rightarrow> nat" where
  "kind JNull = 0" | "kind (JBool b) = (if b then 1 else 2)" | "kind (JNumber _) = 3"
| "kind (JString _) = 4" | "kind (JArray _) = 5" | "kind (JObject _) = 6"

definition lead_kind :: "char \<Rightarrow> nat" where
  "lead_kind c = (if c = CHR ''n'' then 0 else if c = CHR ''t'' then 1 else if c = CHR ''f'' then 2
     else if c = CHR 0x22 then 4 else if c = CHR ''['' then 5 else if c = CHR ''{'' then 6 else 3)"

lemma emit_kind:
  assumes "number_syntax sh" shows "emit_value sh v \<noteq> [] \<and> lead_kind (hd (emit_value sh v)) = kind v"
proof (cases v)
  case (JNumber n)
  obtain c r where "sh n = c # r" "c \<in> number_chars" using number_head [OF assms] by blast
  then show ?thesis using JNumber by (auto simp: number_chars_def lead_kind_def)
next
  case (JBool b)
  then show ?thesis by (cases b) (auto simp: lead_kind_def)
qed (auto simp: emit_json_string_def lead_kind_def)

lemma emit_same_kind:
  assumes "number_syntax sh" "emit_value sh v @ x = emit_value sh w @ y"
  shows "kind v = kind w"
  using emit_kind [OF assms(1), of v] emit_kind [OF assms(1), of w] assms(2)
  by (metis hd_append2)

lemma emit_unique:
  assumes "number_syntax sh"
  shows "emit_value sh v @ x = emit_value sh w @ y \<Longrightarrow> ends_value x \<Longrightarrow> ends_value y \<Longrightarrow> canon v = canon w \<and> x = y"
proof (induction v arbitrary: w x y rule: canon.induct)
  case 1
  have "w = JNull" using emit_same_kind [OF assms 1(1)] by (cases w) (auto split: if_splits)
  then show ?case using 1 by simp
next
  case (2 b)
  have "w = JBool b" using emit_same_kind [OF assms 2(1)] by (cases w) (auto split: if_splits)
  then show ?case using 2 by simp
next
  case (3 n)
  obtain m where "w = JNumber m" using emit_same_kind [OF assms 3(1)] by (cases w) (auto split: if_splits)
  then show ?case using 3 number_unique [OF assms] by simp
next
  case (4 s)
  obtain t where "w = JString t" using emit_same_kind [OF assms 4(1)] by (cases w) (auto split: if_splits)
  moreover from this have "s = t \<and> x = y" using 4(1) by (intro emit_json_string_unique) simp
  ultimately show ?case by simp
next
  case (5 vs)
  obtain ws where w: "w = JArray ws" using emit_same_kind [OF assms 5(2)] by (cases w) (auto split: if_splits)
  have "map canon vs = map canon ws \<and> x = y"
  proof (rule items_unique [where f = "emit_value sh" and c = "CHR '']''"])
    show "canon v = canon w' \<and> p = q"
      if "v \<in> set vs" "emit_value sh v @ p = emit_value sh w' @ q" "ends_value p" "ends_value q" for v w' p q
      using that by (rule 5(1))
    show "\<exists>c r. emit_value sh v = c # r \<and> c \<notin> set '',]}''" for v by (rule emit_head [OF assms])
  qed (use 5(2) w in simp_all)
  then show ?case using w by simp
next
  case (6 ms)
  obtain ns where w: "w = JObject ns" using emit_same_kind [OF assms 6(2)] by (cases w) (auto split: if_splits)
  let ?f = "\<lambda>kv. emit_json_string (fst kv) @ '':'' @ emit_value sh (snd kv)"
  have "map (\<lambda>kv. (fst kv, canon (snd kv))) (sort_key fst ms) = map (\<lambda>kv. (fst kv, canon (snd kv))) (sort_key fst ns) \<and> x = y"
  proof (rule items_unique [where f = ?f and c = "CHR ''}''"])
    fix kv kv' x y
    assume kv: "kv \<in> set (sort_key fst ms)" and eq: "?f kv @ x = ?f kv' @ y" and e: "ends_value x" "ends_value y"
    have "fst kv = fst kv' \<and> emit_value sh (snd kv) @ x = emit_value sh (snd kv') @ y"
      using eq by (intro member_unique) simp
    then show "(fst kv, canon (snd kv)) = (fst kv', canon (snd kv')) \<and> x = y"
      using 6(1) [of kv x "snd kv'" y] kv e by simp
  next
    show "\<exists>c r. ?f kv = c # r \<and> c \<notin> set '',]}''" for kv by (simp add: emit_json_string_def)
  qed (use 6(2) w in simp_all)
  then show ?case using w by simp
qed

lemma emit_canon: "emit_value sh (canon v) = emit_value sh v"
proof (induction v rule: canon.induct)
  case (2 b)
  then show ?case by (cases b) auto
next
  case (5 vs)
  then show ?case by (simp cong: map_cong)
next
  case (6 ms)
  let ?g = "\<lambda>kv. (fst kv, canon (snd kv))"
  have "sort_key fst (map ?g (sort_key fst ms)) = map ?g (sort_key fst ms)"
    by (rule sort_key_id_if_sorted) (simp add: comp_def)
  moreover have "map (\<lambda>kv. emit_json_string (fst kv) @ '':'' @ emit_value sh (canon (snd kv))) (sort_key fst ms)
      = map (\<lambda>kv. emit_json_string (fst kv) @ '':'' @ emit_value sh (snd kv)) (sort_key fst ms)"
    by (rule map_cong) (use 6 in simp_all)
  ultimately show ?case by (simp add: comp_def del: map_eq_conv)
qed auto

text \<open>C17: signatures over canonical bytes cover the value and nothing else: whatever two JSON values
  hold, their canonical bytes are equal if and only if the values are equal up to the order in which
  their objects list the members.  So a signature made for one value never verifies, as bytes, for a
  different one, and a verifier that re-canonicalises parsed fields recovers the signer's bytes.
  Numbers are printed by serde\_json, of which it is assumed that different numbers print
  differently and with the characters of JSON numbers.\<close>

theorem canonical_bytes_exact:
  assumes "number_syntax sh"
  shows "to_canonical_bytes sh v = to_canonical_bytes sh w \<longleftrightarrow> canon v = canon w"
  using emit_unique [OF assms, of v "[]" w "[]"] emit_canon [of sh v] emit_canon [of sh w]
  by (auto simp: to_canonical_bytes_def ends_value_def)

definition bit_show :: "bool \<Rightarrow> string" where
  "bit_show b = (if b then ''1'' else ''0'')"

lemma bit_show_syntax: "number_syntax bit_show"
  by (auto simp: number_syntax_def bit_show_def inj_def number_chars_def split: if_splits)

theorem canonical_bytes_exact_witness:
  "number_syntax bit_show
   \<and> to_canonical_bytes bit_show (JObject [(''b'', JNumber True), (''a'', JNull)])
     = to_canonical_bytes bit_show (JObject [(''a'', JNull), (''b'', JNumber True)])"
proof
  show s: "number_syntax bit_show" by (rule bit_show_syntax)
  show "to_canonical_bytes bit_show (JObject [(''b'', JNumber True), (''a'', JNull)])
     = to_canonical_bytes bit_show (JObject [(''a'', JNull), (''b'', JNumber True)])"
    unfolding canonical_bytes_exact [OF s] by simp
qed

end
