(* ===== verification/Mesh_Sig.thy ===== *)
theory Mesh_Sig
  imports Mesh_Canonical
begin

text \<open>
  The foreign code the mesh crates call, collected in one record, and \<^verbatim>\<open>cosmix-lib-mesh-trust/src/sig.rs\<close>:
  signature verification, signing, and the choice of the key a cross-mesh envelope is checked against.
  Byte strings are HOL strings; an instant is its number of nanoseconds.
\<close>

section \<open>Foreign code\<close>

text \<open>serde\_json's numbers, the standard base64 codec, ed25519\_dalek, blake3, and chrono.\<close>

record 'n foreign =
  num_show :: "'n \<Rightarrow> string"
  num_u64 :: "'n \<Rightarrow> nat option"
  num_of_u64 :: "nat \<Rightarrow> 'n"
  b64_decode :: "string \<Rightarrow> string option"
  b64_encode :: "string \<Rightarrow> string"
  ed_key_ok :: "string \<Rightarrow> bool"
  ed_verify_strict :: "string \<Rightarrow> string \<Rightarrow> string \<Rightarrow> bool"
  ed_public :: "string \<Rightarrow> string"
  ed_sign :: "string \<Rightarrow> string \<Rightarrow> string"
  blake3_hex :: "string \<Rightarrow> string"
  try_seconds :: "int \<Rightarrow> int option"
  checked_add_signed :: "int \<Rightarrow> int \<Rightarrow> int option"
  rfc3339 :: "string \<Rightarrow> int option"

text \<open>What the code relies on of Ed25519: keys and signatures have their documented lengths, and the
  signature of a key verifies under its public half.\<close>

definition ed25519_correct :: "'n foreign \<Rightarrow> bool" where
  "ed25519_correct F \<longleftrightarrow>
     (\<forall>seed msg. length seed = 32 \<longrightarrow>
        length (ed_public F seed) = 32 \<and> ed_key_ok F (ed_public F seed) \<and> length (ed_sign F seed msg) = 64
        \<and> ed_verify_strict F (ed_public F seed) (ed_sign F seed msg) msg)"

definition base64_correct :: "'n foreign \<Rightarrow> bool" where
  "base64_correct F \<longleftrightarrow> (\<forall>s. b64_decode F (b64_encode F s) = Some s)"

text \<open>\<^verbatim>\<open>Value::as_u64\<close>, \<^verbatim>\<open>as_bool\<close> and \<^verbatim>\<open>as_array\<close>.\<close>

fun as_u64 :: "'n foreign \<Rightarrow> 'n json \<Rightarrow> nat option" where
  "as_u64 F (JNumber n) = num_u64 F n"
| "as_u64 F _ = None"

fun as_bool :: "'n json \<Rightarrow> bool option" where
  "as_bool (JBool b) = Some b"
| "as_bool _ = None"

fun as_array :: "'n json \<Rightarrow> 'n json list option" where
  "as_array (JArray vs) = Some vs"
| "as_array _ = None"

definition get_str :: "string \<Rightarrow> 'n json \<Rightarrow> string option" where
  "get_str k v = Option.bind (json_get k v) as_str"

section \<open>Signatures\<close>

definition PUBLIC_KEY_LENGTH :: nat where "PUBLIC_KEY_LENGTH = 32"
definition PRIVATE_KEY_LENGTH :: nat where "PRIVATE_KEY_LENGTH = 32"
definition SIGNATURE_LENGTH :: nat where "SIGNATURE_LENGTH = 64"

datatype sig_error =
    InvalidKeyLength nat
  | InvalidSigLength nat
  | InvalidKey
  | VerifyFailed
  | InvalidPrivateKeyLength nat

definition verify_ed25519 :: "'n foreign \<Rightarrow> string \<Rightarrow> string \<Rightarrow> string \<Rightarrow> (sig_error, unit) result" where
  "verify_ed25519 F public_key signature message =
     (if length public_key \<noteq> PUBLIC_KEY_LENGTH then Inl (InvalidKeyLength (length public_key))
      else if length signature \<noteq> SIGNATURE_LENGTH then Inl (InvalidSigLength (length signature))
      else if \<not> ed_key_ok F public_key then Inl InvalidKey
      else if \<not> ed_verify_strict F public_key signature message then Inl VerifyFailed
      else Inr ())"

definition sign_ed25519 :: "'n foreign \<Rightarrow> string \<Rightarrow> string \<Rightarrow> (sig_error, string) result" where
  "sign_ed25519 F private_key message =
     (if length private_key \<noteq> PRIVATE_KEY_LENGTH then Inl (InvalidPrivateKeyLength (length private_key))
      else Inr (ed_sign F private_key message))"

lemma verify_ed25519_ok:
  "is_ok (verify_ed25519 F pk sg msg) \<longleftrightarrow>
     length pk = 32 \<and> length sg = 64 \<and> ed_key_ok F pk \<and> ed_verify_strict F pk sg msg"
  by (simp add: verify_ed25519_def PUBLIC_KEY_LENGTH_def SIGNATURE_LENGTH_def)

lemma sign_verify:
  "ed25519_correct F \<Longrightarrow> sign_ed25519 F seed msg = Inr sg \<Longrightarrow> is_ok (verify_ed25519 F (ed_public F seed) sg msg)"
  by (auto simp: sign_ed25519_def verify_ed25519_ok ed25519_correct_def PRIVATE_KEY_LENGTH_def split: if_splits)

section \<open>Trusted meshes and key selection\<close>

record trusted_mesh =
  tm_mesh_fqdn :: string
  tm_current_pubkey :: string
  tm_current_selector :: string
  tm_previous_pubkey :: "string option"
  tm_previous_selector :: "string option"
  tm_previous_pubkey_valid_until :: "int option"
  tm_last_verified_at :: int
  tm_max_pubkey_age_secs :: nat
  tm_enabled :: bool

datatype key_select_error =
    Disabled
  | StaleTrust
  | SelectorMismatch string
  | PreviousKeyExpired

text \<open>The age in seconds is clamped to the \<^verbatim>\<open>i64\<close> range, then converted and added with chrono's
  checked operations; an overflow of either counts as stale.\<close>

definition trust_deadline :: "'n foreign \<Rightarrow> trusted_mesh \<Rightarrow> int option" where
  "trust_deadline F trusted =
     (let clamped = int (min (tm_max_pubkey_age_secs trusted) (2 ^ 63 - 1))
      in Option.bind (try_seconds F clamped) (checked_add_signed F (tm_last_verified_at trusted)))"

definition trust_fresh :: "'n foreign \<Rightarrow> trusted_mesh \<Rightarrow> int \<Rightarrow> bool" where
  "trust_fresh F trusted now = (case trust_deadline F trusted of None \<Rightarrow> False | Some t \<Rightarrow> now \<le> t)"

definition select_pubkey :: "'n foreign \<Rightarrow> trusted_mesh \<Rightarrow> string \<Rightarrow> int \<Rightarrow> (key_select_error, string) result" where
  "select_pubkey F trusted caller_selector now =
     (if \<not> tm_enabled trusted then Inl Disabled
      else if \<not> trust_fresh F trusted now then Inl StaleTrust
      else if tm_current_selector trusted = caller_selector then Inr (tm_current_pubkey trusted)
      else (case (tm_previous_selector trusted, tm_previous_pubkey trusted) of
              (Some prev_sel, Some prev_key) \<Rightarrow>
                if prev_sel = caller_selector
                then (case tm_previous_pubkey_valid_until trusted of
                        Some deadline \<Rightarrow> if now \<le> deadline then Inr prev_key else Inl PreviousKeyExpired
                      | None \<Rightarrow> Inl PreviousKeyExpired)
                else Inl (SelectorMismatch caller_selector)
            | _ \<Rightarrow> Inl (SelectorMismatch caller_selector)))"

text \<open>A key is selected for an incoming envelope exactly when the mesh is enabled and its trust
  record is fresh, and the key is either the current one, under the current selector, or the
  previous one, under the previous selector when that differs from the current one and the rotation
  deadline, which must be present, has not passed.\<close>

theorem select_pubkey_exact:
  "select_pubkey F t sel now = Inr pk \<longleftrightarrow>
     tm_enabled t \<and> trust_fresh F t now
     \<and> (tm_current_selector t = sel \<and> pk = tm_current_pubkey t
        \<or> tm_current_selector t \<noteq> sel \<and> tm_previous_selector t = Some sel \<and> tm_previous_pubkey t = Some pk
          \<and> (\<exists>d. tm_previous_pubkey_valid_until t = Some d \<and> now \<le> d))"
  by (auto simp: select_pubkey_def split: option.splits if_splits)

section \<open>A concrete instance\<close>

text \<open>An instance of the foreign code in which the assumptions on it hold, for the witnesses: one number,
  the identity for base64 and for key derivation, a signature that names its key.\<close>

definition sample_foreign :: "unit foreign" where
  "sample_foreign = \<lparr>num_show = (\<lambda>_. ''0''), num_u64 = (\<lambda>_. Some 0), num_of_u64 = (\<lambda>_. ()),
     b64_decode = Some, b64_encode = id, ed_key_ok = (\<lambda>_. True), ed_verify_strict = (\<lambda>pk sg _. sg = pk @ pk),
     ed_public = id, ed_sign = (\<lambda>seed _. seed @ seed), blake3_hex = id,
     try_seconds = (\<lambda>s. Some (s * 1000000000)), checked_add_signed = (\<lambda>t d. Some (t + d)), rfc3339 = (\<lambda>_. Some 0)\<rparr>"

lemma sample_foreign_ok:
  "ed25519_correct sample_foreign" "base64_correct sample_foreign" "number_syntax (num_show sample_foreign)"
  by (simp_all add: ed25519_correct_def base64_correct_def sample_foreign_def number_syntax_def number_chars_def inj_def)

end
