(* ===== verification/Mesh_Admission.thy ===== *)
theory Mesh_Admission
  imports Mesh_Sig
begin

text \<open>
  Broker admission (\<^verbatim>\<open>cosmix-lib-mesh-trust/src/admission.rs\<close>): the transcript a node signs, the credentials
  of a member at an epoch, and the admission gate.  The transcript's bytes determine its fields; the gate
  admits exactly the proofs of a current credential of an active bus member at the broker's epoch.
\<close>

section \<open>The transcript\<close>

definition ADMIT_DOMAIN_V1 :: string where "ADMIT_DOMAIN_V1 = ''cosmix-d2-admit-v1''"
definition D2_CRED_KIND :: string where "D2_CRED_KIND = ''d2''"
definition WG_CRED_KIND :: string where "WG_CRED_KIND = ''wg''"
definition ED25519_PUBKEY_LEN :: nat where "ED25519_PUBKEY_LEN = 32"
definition X25519_PUBKEY_LEN :: nat where "X25519_PUBKEY_LEN = 32"

record admission_transcript =
  at_mesh_fqdn :: string
  at_claimed_source_node :: string
  at_verifying_broker_node :: string
  at_inventory_epoch :: nat
  at_session_id :: string
  at_server_nonce :: string
  at_client_ephemeral :: string
  at_channel_binding_hash :: string

text \<open>\<^verbatim>\<open>to_be_bytes\<close> of an unsigned integer of \<open>n\<close> bytes.\<close>

fun be_bytes :: "nat \<Rightarrow> nat \<Rightarrow> string" where
  "be_bytes 0 v = []"
| "be_bytes (Suc n) v = char_of (v div 256 ^ n mod 256) # be_bytes n v"

text \<open>\<^verbatim>\<open>push_field\<close> panics, here \<open>None\<close>, on a field of \<open>2 ^ 32\<close> bytes or more.\<close>

definition push_field :: "string \<Rightarrow> string \<Rightarrow> string option" where
  "push_field out bytes =
     (if length bytes < 2 ^ 32 then Some (out @ be_bytes 4 (length bytes) @ bytes) else None)"

definition transcript_fields :: "admission_transcript \<Rightarrow> string list" where
  "transcript_fields t =
     [ADMIT_DOMAIN_V1, at_mesh_fqdn t, at_claimed_source_node t, at_verifying_broker_node t,
      be_bytes 8 (at_inventory_epoch t), at_session_id t, at_server_nonce t, at_client_ephemeral t,
      at_channel_binding_hash t]"

definition transcript_bytes :: "admission_transcript \<Rightarrow> string option" where
  "transcript_bytes t =
     fold (\<lambda>f out. Option.bind out (\<lambda>o'. push_field o' f)) (transcript_fields t) (Some [])"

section \<open>Credentials\<close>

text \<open>The closure of both selections, in the order of its checks; \<open>None\<close> skips the credential.\<close>

definition credential_key :: "'n foreign \<Rightarrow> string \<Rightarrow> nat \<Rightarrow> nat \<Rightarrow> 'n json \<Rightarrow> string option" where
  "credential_key F want len current_epoch c =
     (if get_str ''kind'' c \<noteq> Some want then None
      else case Option.bind (json_get ''from_epoch'' c) (as_u64 F) of
             None \<Rightarrow> None
           | Some start \<Rightarrow>
               if current_epoch < start then None
               else if (case json_get ''until_epoch'' c of
                          None \<Rightarrow> False
                        | Some JNull \<Rightarrow> False
                        | Some v \<Rightarrow> (case as_u64 F v of None \<Rightarrow> True | Some until \<Rightarrow> until \<le> current_epoch))
               then None
               else (case Option.bind (get_str ''pubkey'' c) (b64_decode F) of
                       None \<Rightarrow> None
                     | Some pk \<Rightarrow> if length pk = len then Some pk else None))"

definition select_d2_pubkeys :: "'n foreign \<Rightarrow> 'n json \<Rightarrow> nat \<Rightarrow> string list" where
  "select_d2_pubkeys F member current_epoch =
     (case Option.bind (json_get ''credentials'' member) as_array of
        None \<Rightarrow> []
      | Some creds \<Rightarrow> List.map_filter (credential_key F D2_CRED_KIND ED25519_PUBKEY_LEN current_epoch) creds)"

definition select_wg_pubkeys :: "'n foreign \<Rightarrow> 'n json \<Rightarrow> nat \<Rightarrow> string list" where
  "select_wg_pubkeys F member current_epoch =
     (case Option.bind (json_get ''credentials'' member) as_array of
        None \<Rightarrow> []
      | Some creds \<Rightarrow> List.map_filter (credential_key F WG_CRED_KIND X25519_PUBKEY_LEN current_epoch) creds)"

section \<open>The gate\<close>

datatype admission_error =
    SourceTombstoned string
  | SourceBusFalse string
  | NameMismatch string string
  | EpochMismatch nat nat
  | NoCurrentD2Credential string
  | BadCredentialSignature string
  | MalformedMember string
  | TranscriptPanic

definition sign_admission_transcript :: "'n foreign \<Rightarrow> string \<Rightarrow> admission_transcript \<Rightarrow> (sig_error, string) result option" where
  "sign_admission_transcript F d2_private_key t =
     map_option (sign_ed25519 F d2_private_key) (transcript_bytes t)"

definition admit :: "'n foreign \<Rightarrow> 'n json \<Rightarrow> admission_transcript \<Rightarrow> string \<Rightarrow> nat \<Rightarrow> (admission_error, unit) result" where
  "admit F member transcript signature current_epoch =
     (case get_str ''name'' member of
        None \<Rightarrow> Inl (MalformedMember ''member has no name'')
      | Some name \<Rightarrow>
          if at_inventory_epoch transcript \<noteq> current_epoch
          then Inl (EpochMismatch (at_inventory_epoch transcript) current_epoch)
          else if get_str ''status'' member \<noteq> Some ''active'' then Inl (SourceTombstoned name)
          else if Option.bind (json_get ''bus'' member) as_bool \<noteq> Some True then Inl (SourceBusFalse name)
          else if name \<noteq> at_claimed_source_node transcript
          then Inl (NameMismatch (at_claimed_source_node transcript) name)
          else
            let d2_keys = select_d2_pubkeys F member current_epoch
            in if d2_keys = [] then Inl (NoCurrentD2Credential name)
               else case transcript_bytes transcript of
                      None \<Rightarrow> Inl TranscriptPanic
                    | Some msg \<Rightarrow>
                        if list_ex (\<lambda>pk. is_ok (verify_ed25519 F pk signature msg)) d2_keys then Inr ()
                        else Inl (BadCredentialSignature name))"

section \<open>The encoding determines the fields\<close>

lemma length_be_bytes [simp]: "length (be_bytes n v) = n"
  by (induction n) auto

lemma be_bytes_inj: "be_bytes n v = be_bytes n w \<Longrightarrow> v mod 256 ^ n = w mod 256 ^ n"
proof (induction n)
  case (Suc n)
  have b: "(of_char (char_of (k mod 256) :: char) :: nat) = k mod 256" for k :: nat by simp
  have "v div 256 ^ n mod 256 = w div 256 ^ n mod 256" "be_bytes n v = be_bytes n w"
    using Suc.prems b by (metis be_bytes.simps(2) list.inject)+
  moreover have "k mod 256 ^ Suc n = (k div 256 ^ n mod 256) * 256 ^ n + k mod 256 ^ n" for k :: nat
    by (metis mod_mult2_eq add.commute mult.commute power_Suc)
  ultimately show ?case using Suc.IH by simp
qed simp

lemma be_bytes_eq_iff: "v < 256 ^ n \<Longrightarrow> w < 256 ^ n \<Longrightarrow> be_bytes n v = be_bytes n w \<longleftrightarrow> v = w"
  using be_bytes_inj by fastforce

definition encode_fields :: "string list \<Rightarrow> string" where
  "encode_fields fs = concat (map (\<lambda>f. be_bytes 4 (length f) @ f) fs)"

lemma encode_fields_inj:
  assumes "length fs = length gs" "\<forall>f\<in>set fs. length f < 2 ^ 32" "\<forall>g\<in>set gs. length g < 2 ^ 32"
    and "encode_fields fs = encode_fields gs"
  shows "fs = gs"
  using assms
proof (induction fs gs rule: list_induct2)
  case (Cons f fs g gs)
  have eq: "be_bytes 4 (length f) @ f @ encode_fields fs = be_bytes 4 (length g) @ g @ encode_fields gs"
    using Cons.prems(3) by (simp add: encode_fields_def)
  then have "be_bytes 4 (length f) = be_bytes 4 (length g)" and r: "f @ encode_fields fs = g @ encode_fields gs"
    by (auto simp: append_eq_append_conv)
  then have "length f = length g" using Cons.prems(1,2) by (subst (asm) be_bytes_eq_iff) auto
  then show ?case using r Cons by simp
qed simp

lemma push_fields:
  "fold (\<lambda>f out. Option.bind out (\<lambda>o'. push_field o' f)) fs (Some out) =
     (if \<forall>f\<in>set fs. length f < 2 ^ 32 then Some (out @ encode_fields fs) else None)"
proof (induction fs arbitrary: out)
  case (Cons f fs)
  have none: "fold (\<lambda>f out. Option.bind out (\<lambda>o'. push_field o' f)) gs None = None" for gs
    by (induction gs) auto
  show ?case
  proof (cases "length f < 2 ^ 32")
    case True
    then have "push_field out f = Some (out @ be_bytes 4 (length f) @ f)" by (simp add: push_field_def)
    then show ?thesis using True Cons by (simp add: encode_fields_def)
  next
    case False
    then have "push_field out f = None" by (simp add: push_field_def)
    then show ?thesis using False by (simp add: none del: power_numeral)
  qed
qed (simp add: encode_fields_def)

text \<open>A transcript as Rust can hold it: the epoch is a \<^verbatim>\<open>u64\<close>.\<close>

definition transcript_wf :: "admission_transcript \<Rightarrow> bool" where
  "transcript_wf t \<longleftrightarrow> at_inventory_epoch t < 2 ^ 64 \<and> (\<forall>f\<in>set (transcript_fields t). length f < 2 ^ 32)"

lemma transcript_bytes_eq: "transcript_wf t \<Longrightarrow> transcript_bytes t = Some (encode_fields (transcript_fields t))"
  by (simp add: transcript_bytes_def push_fields transcript_wf_def)

lemma transcript_fields_inj:
  assumes "transcript_fields t = transcript_fields u" "at_inventory_epoch t < 2 ^ 64" "at_inventory_epoch u < 2 ^ 64"
  shows "t = u"
proof -
  have "be_bytes 8 (at_inventory_epoch t) = be_bytes 8 (at_inventory_epoch u)"
    using assms(1) by (simp add: transcript_fields_def)
  then have "at_inventory_epoch t = at_inventory_epoch u"
    using assms(2,3) by (subst (asm) be_bytes_eq_iff) auto
  then show ?thesis using assms(1) by (simp add: transcript_fields_def)
qed

text \<open>the signed admission transcript is unambiguous.  For transcripts whose epoch is a 64-bit number
  the encoding panics exactly when some field has \<open>2 ^ 32\<close> bytes or more, and otherwise two
  transcripts have the same bytes only if all their fields agree: no boundary between fields can be
  moved, and a proof made for one broker, session, nonce, node or epoch is a proof for no other.\<close>

theorem transcript_unambiguous:
  assumes "at_inventory_epoch t < 2 ^ 64" "at_inventory_epoch u < 2 ^ 64"
  shows "(transcript_bytes t = None \<longleftrightarrow> (\<exists>f\<in>set (transcript_fields t). 2 ^ 32 \<le> length f))
    \<and> (\<forall>bytes. transcript_bytes t = Some bytes \<and> transcript_bytes u = Some bytes \<longrightarrow> t = u)"
proof (intro conjI allI impI)
  show "transcript_bytes t = None \<longleftrightarrow> (\<exists>f\<in>set (transcript_fields t). 2 ^ 32 \<le> length f)"
    by (auto simp: transcript_bytes_def push_fields not_less)
  fix bytes
  assume b: "transcript_bytes t = Some bytes \<and> transcript_bytes u = Some bytes"
  then have "\<forall>f\<in>set (transcript_fields t). length f < 2 ^ 32" "\<forall>f\<in>set (transcript_fields u). length f < 2 ^ 32"
    "encode_fields (transcript_fields t) = encode_fields (transcript_fields u)"
    by (auto simp: transcript_bytes_def push_fields split: if_splits)
  then have "transcript_fields t = transcript_fields u"
    by (intro encode_fields_inj) (simp_all add: transcript_fields_def)
  then show "t = u" using assms by (rule transcript_fields_inj)
qed

definition sample_transcript :: admission_transcript where
  "sample_transcript = \<lparr>at_mesh_fqdn = ''m.net'', at_claimed_source_node = ''alpha'', at_verifying_broker_node = ''hub'',
     at_inventory_epoch = 7, at_session_id = ''s'', at_server_nonce = ''n'', at_client_ephemeral = [],
     at_channel_binding_hash = []\<rparr>"

theorem transcript_unambiguous_witness:
  "at_inventory_epoch sample_transcript < 2 ^ 64 \<and>
   (transcript_bytes sample_transcript = None \<longleftrightarrow> (\<exists>f\<in>set (transcript_fields sample_transcript). 2 ^ 32 \<le> length f))"
  using transcript_unambiguous [of sample_transcript sample_transcript]
  by (simp add: sample_transcript_def)

section \<open>Who is admitted\<close>

lemma set_map_filter: "set (List.map_filter f xs) = {y. \<exists>x\<in>set xs. f x = Some y}"
  by (force simp: List.map_filter_def)

text \<open>A credential that is current at an epoch, with its key: the window is half-open, and open-ended
  when its end is null or absent.\<close>

definition current_credential :: "'n foreign \<Rightarrow> string \<Rightarrow> nat \<Rightarrow> 'n json \<Rightarrow> string \<Rightarrow> bool" where
  "current_credential F want e c pk \<longleftrightarrow>
     get_str ''kind'' c = Some want
     \<and> (\<exists>v start. json_get ''from_epoch'' c = Some v \<and> as_u64 F v = Some start \<and> start \<le> e)
     \<and> (json_get ''until_epoch'' c = None \<or> json_get ''until_epoch'' c = Some JNull
        \<or> (\<exists>v until. json_get ''until_epoch'' c = Some v \<and> as_u64 F v = Some until \<and> e < until))
     \<and> (\<exists>s. get_str ''pubkey'' c = Some s \<and> b64_decode F s = Some pk) \<and> length pk = 32"

lemma credential_key_iff: "credential_key F want 32 e c = Some pk \<longleftrightarrow> current_credential F want e c pk"
proof -
  have until: "(case json_get ''until_epoch'' c of None \<Rightarrow> False | Some JNull \<Rightarrow> False
      | Some v \<Rightarrow> (case as_u64 F v of None \<Rightarrow> True | Some until \<Rightarrow> until \<le> e)) \<longleftrightarrow>
      \<not> (json_get ''until_epoch'' c = None \<or> json_get ''until_epoch'' c = Some JNull
        \<or> (\<exists>v until. json_get ''until_epoch'' c = Some v \<and> as_u64 F v = Some until \<and> e < until))"
    by (auto split: option.splits json.splits)
  show ?thesis
    unfolding credential_key_def current_credential_def until
    by (auto simp: bind_eq_Some_conv split: option.splits if_splits)
qed

lemma set_select_d2:
  "pk \<in> set (select_d2_pubkeys F m e) \<longleftrightarrow>
     (\<exists>cs c. Option.bind (json_get ''credentials'' m) as_array = Some cs \<and> c \<in> set cs \<and> current_credential F ''d2'' e c pk)"
  by (cases "Option.bind (json_get ''credentials'' m) as_array")
    (auto simp: select_d2_pubkeys_def D2_CRED_KIND_def ED25519_PUBKEY_LEN_def set_map_filter credential_key_iff)

lemma set_select_wg:
  "pk \<in> set (select_wg_pubkeys F m e) \<longleftrightarrow>
     (\<exists>cs c. Option.bind (json_get ''credentials'' m) as_array = Some cs \<and> c \<in> set cs \<and> current_credential F ''wg'' e c pk)"
  by (cases "Option.bind (json_get ''credentials'' m) as_array")
    (auto simp: select_wg_pubkeys_def WG_CRED_KIND_def X25519_PUBKEY_LEN_def set_map_filter credential_key_iff)

lemma admit_iff:
  "admit F m t sg e = Inr () \<longleftrightarrow>
     get_str ''name'' m = Some (at_claimed_source_node t) \<and> at_inventory_epoch t = e
     \<and> get_str ''status'' m = Some ''active'' \<and> Option.bind (json_get ''bus'' m) as_bool = Some True
     \<and> (\<exists>pk msg. pk \<in> set (select_d2_pubkeys F m e) \<and> transcript_bytes t = Some msg
          \<and> is_ok (verify_ed25519 F pk sg msg))"
  by (auto simp: admit_def Let_def list_ex_iff split: option.splits if_splits)

text \<open>C31: a broker admits a session exactly when the member record names the node the transcript claims,
  is active and a bus member, the transcript was made for the broker's epoch, and the signature is a
  64-byte Ed25519 signature over the transcript's bytes under the 32-byte key of some \<^verbatim>\<open>d2\<close>
  credential of that record whose half-open epoch window contains the broker's epoch; during a
  rotation either of two such keys admits.\<close>

theorem admit_exact:
  "admit F m t sg e = Inr () \<longleftrightarrow>
     get_str ''name'' m = Some (at_claimed_source_node t) \<and> at_inventory_epoch t = e
     \<and> get_str ''status'' m = Some ''active'' \<and> Option.bind (json_get ''bus'' m) as_bool = Some True
     \<and> (\<exists>cs c pk msg. Option.bind (json_get ''credentials'' m) as_array = Some cs \<and> c \<in> set cs
          \<and> current_credential F ''d2'' e c pk \<and> transcript_bytes t = Some msg
          \<and> length sg = 64 \<and> ed_key_ok F pk \<and> ed_verify_strict F pk sg msg)"
proof -
  have "current_credential F ''d2'' e c pk \<Longrightarrow> length pk = 32" for c pk by (simp add: current_credential_def)
  then show ?thesis unfolding admit_iff set_select_d2 verify_ed25519_ok by blast
qed

text \<open>A node that signs with the private half of a current credential is admitted.\<close>

lemma signer_admitted:
  assumes "ed25519_correct F" "sign_admission_transcript F seed t = Some (Inr sg)"
    and "get_str ''name'' m = Some (at_claimed_source_node t)" "at_inventory_epoch t = e"
    and "get_str ''status'' m = Some ''active''" "Option.bind (json_get ''bus'' m) as_bool = Some True"
    and "ed_public F seed \<in> set (select_d2_pubkeys F m e)"
  shows "admit F m t sg e = Inr ()"
proof -
  obtain msg where msg: "transcript_bytes t = Some msg" "sign_ed25519 F seed msg = Inr sg"
    using assms(2) by (auto simp: sign_admission_transcript_def)
  then have "is_ok (verify_ed25519 F (ed_public F seed) sg msg)" using sign_verify assms(1) by blast
  then show ?thesis using assms msg(1) unfolding admit_iff by blast
qed

end
