(* ===== verification/Mesh_Inventory.thy ===== *)
theory Mesh_Inventory
  imports Mesh_Sig
begin

text \<open>
  The signed mesh inventory (\<^verbatim>\<open>cosmix-lib-mesh-trust/src/inventory.rs\<close>): the payload and its canonical bytes,
  the unsigned bag of signatures around it, the node's trust state, and the verifier.  Derived
  serialisation is serde's: \<open>payload_json\<close> writes out the value it documents.
\<close>

section \<open>Data\<close>

definition SUPPORTED_SCHEMA_VERSION :: nat where "SUPPORTED_SCHEMA_VERSION = 1"
definition CANONICAL_ENCODING_V1 :: string where "CANONICAL_ENCODING_V1 = ''json/rfc8785''"
definition ALG_ED25519 :: string where "ALG_ED25519 = ''Ed25519''"

definition SIGNER_OWNED_FIELDS :: "string list" where
  "SIGNER_OWNED_FIELDS =
     [''canonical_encoding'', ''signed_at'', ''valid_until'', ''verify_keys'', ''signatures'', ''recovery'',
      ''recovery_generation'']"

datatype key_status = StatusActive | StatusRetiring

record verify_key =
  vk_key_id :: string
  vk_pubkey :: string
  vk_key_type :: string
  vk_status :: key_status

record inv_signature =
  is_key_id :: string
  is_alg :: string
  is_sig :: string

record 'n inventory_payload =
  ip_schema_version :: nat
  ip_canonical_encoding :: string
  ip_mesh :: string
  ip_subnet :: string
  ip_epoch :: nat
  ip_signed_at :: string
  ip_valid_until :: string
  ip_hub :: "string list"
  ip_verify_keys :: "verify_key list"
  ip_members :: "'n json"
  ip_recovery :: "bool option"
  ip_recovery_generation :: "nat option"

fun key_status_str :: "key_status \<Rightarrow> string" where
  "key_status_str StatusActive = ''active''"
| "key_status_str StatusRetiring = ''retiring''"

definition verify_key_json :: "verify_key \<Rightarrow> 'n json" where
  "verify_key_json k = JObject
     [(''key_id'', JString (vk_key_id k)), (''pubkey'', JString (vk_pubkey k)),
      (''key_type'', JString (vk_key_type k)), (''status'', JString (key_status_str (vk_status k)))]"

definition payload_json :: "'n foreign \<Rightarrow> 'n inventory_payload \<Rightarrow> 'n json" where
  "payload_json F p = JObject
     ([(''schema_version'', JNumber (num_of_u64 F (ip_schema_version p))),
       (''canonical_encoding'', JString (ip_canonical_encoding p)),
       (''mesh'', JString (ip_mesh p)),
       (''subnet'', JString (ip_subnet p)),
       (''epoch'', JNumber (num_of_u64 F (ip_epoch p))),
       (''signed_at'', JString (ip_signed_at p)),
       (''valid_until'', JString (ip_valid_until p)),
       (''hub'', JArray (map JString (ip_hub p))),
       (''verify_keys'', JArray (map verify_key_json (ip_verify_keys p))),
       (''members'', ip_members p)]
      @ (case ip_recovery p of None \<Rightarrow> [] | Some b \<Rightarrow> [(''recovery'', JBool b)])
      @ (case ip_recovery_generation p of None \<Rightarrow> [] | Some g \<Rightarrow> [(''recovery_generation'', JNumber (num_of_u64 F g))]))"

definition payload_bytes :: "'n foreign \<Rightarrow> 'n inventory_payload \<Rightarrow> string" where
  "payload_bytes F p = to_canonical_bytes (num_show F) (payload_json F p)"

definition canonical_blake3 :: "'n foreign \<Rightarrow> 'n inventory_payload \<Rightarrow> string" where
  "canonical_blake3 F p = blake3_hex F (payload_bytes F p)"

text \<open>\<^verbatim>\<open>authoring_blake3_for_value\<close> hashes the value without the fields the signing ceremony adds.\<close>

fun authored_projection :: "'n json \<Rightarrow> 'n json" where
  "authored_projection (JObject ms) =
     JObject (filter (\<lambda>kv. fst kv \<noteq> ''unsigned'' \<and> fst kv \<notin> set SIGNER_OWNED_FIELDS) ms)"
| "authored_projection v = v"

definition authoring_blake3_for_value :: "'n foreign \<Rightarrow> 'n json \<Rightarrow> string" where
  "authoring_blake3_for_value F v = blake3_hex F (to_canonical_bytes (num_show F) (authored_projection v))"

definition authoring_blake3 :: "'n foreign \<Rightarrow> 'n inventory_payload \<Rightarrow> string" where
  "authoring_blake3 F p = authoring_blake3_for_value F (payload_json F p)"

record 'n signed_inventory =
  si_payload :: "'n inventory_payload"
  si_signatures :: "inv_signature list"

text \<open>The lenient parse of the signature bag: what is not a well-shaped entry, as serde's derived
  \<open>of_value\<close> decides, is dropped.\<close>

definition deserialize_lenient_signatures :: "('n json \<Rightarrow> inv_signature option) \<Rightarrow> 'n json list \<Rightarrow> inv_signature list" where
  "deserialize_lenient_signatures of_value raw = List.map_filter of_value raw"

record trusted_key =
  tk_key_id :: string
  tk_pubkey :: string
  tk_status :: key_status

record node_trust_state =
  genesis_key_id :: string
  trusted_keys :: "trusted_key list"
  last_epoch :: nat
  last_recovery_generation :: nat
  last_canonical_hash :: "string option"

definition trusted_pubkey :: "node_trust_state \<Rightarrow> string \<Rightarrow> string option" where
  "trusted_pubkey st key_id = map_option tk_pubkey (find (\<lambda>k. tk_key_id k = key_id) (trusted_keys st))"

record accepted_inventory =
  acc_epoch :: nat
  acc_recovery_generation :: nat
  acc_via_recovery :: bool
  acc_verified_by :: "string list"
  acc_adopt_verify_keys :: "verify_key list"

datatype verify_error =
    UnknownCanonicalEncoding string
  | UnsupportedSchemaVersion nat
  | MalformedPayload string
  | NoVerifyKeys
  | UnsupportedKeyType string string
  | MalformedVerifyKey string
  | DuplicateVerifyKeyId string
  | NoTrustedSignature
  | GenesisDropped string
  | StaleEpoch nat nat
  | RecoveryNotGenesisSigned
  | NormalExplicitRecoveryFalse
  | RecoveryMissingGeneration
  | StaleRecovery nat nat
  | RecoveryEqualGenerationUnpinned nat
  | RecoveryGenerationRollback nat nat
  | NormalMissingRecoveryGeneration nat
  | RecoveryFloorRaiseRequiresGenesis nat nat
  | BaselineHashMismatch nat nat string string

section \<open>Verification\<close>

definition decode_fixed :: "'n foreign \<Rightarrow> string \<Rightarrow> nat \<Rightarrow> string option" where
  "decode_fixed F s len =
     (case b64_decode F s of None \<Rightarrow> None | Some bytes \<Rightarrow> if length bytes = len then Some bytes else None)"

text \<open>Step (4): the loop over the declared keys, with the identifiers seen so far.\<close>

definition check_verify_key :: "'n foreign \<Rightarrow> string list \<Rightarrow> verify_key \<Rightarrow> (verify_error, string list) result" where
  "check_verify_key F vk_ids vk =
     (if vk_key_type vk \<noteq> ALG_ED25519 then Inl (UnsupportedKeyType (vk_key_id vk) (vk_key_type vk))
      else if decode_fixed F (vk_pubkey vk) 32 = None then Inl (MalformedVerifyKey (vk_key_id vk))
      else if vk_key_id vk \<in> set vk_ids then Inl (DuplicateVerifyKeyId (vk_key_id vk))
      else Inr (vk_key_id vk # vk_ids))"

text \<open>Step (6): an entry counts when its algorithm is Ed25519, its key is declared and trusted, and its
  signature verifies under the trusted key; every other entry is skipped, and no key counts twice.\<close>

definition signature_counts :: "'n foreign \<Rightarrow> verify_key list \<Rightarrow> node_trust_state \<Rightarrow> string \<Rightarrow> inv_signature \<Rightarrow> bool" where
  "signature_counts F declared st msg s =
     (if is_alg s \<noteq> ALG_ED25519 then False
      else if is_key_id s \<notin> vk_key_id ` set declared then False
      else (case trusted_pubkey st (is_key_id s) of
              None \<Rightarrow> False
            | Some pubkey \<Rightarrow>
                (case decode_fixed F (is_sig s) 64 of
                   None \<Rightarrow> False
                 | Some sig \<Rightarrow> is_ok (verify_ed25519 F pubkey sig msg))))"

record tally =
  ty_verified_by :: "string list"
  ty_genesis_verified :: bool

definition count_signature ::
  "'n foreign \<Rightarrow> verify_key list \<Rightarrow> node_trust_state \<Rightarrow> string \<Rightarrow> inv_signature \<Rightarrow> tally \<Rightarrow> tally" where
  "count_signature F declared st msg s t =
     (if signature_counts F declared st msg s \<and> is_key_id s \<notin> set (ty_verified_by t)
      then \<lparr>ty_verified_by = ty_verified_by t @ [is_key_id s],
            ty_genesis_verified = ty_genesis_verified t \<or> is_key_id s = genesis_key_id st\<rparr>
      else t)"

text \<open>Step (9): the generation the payload is accepted at, or why it is not.\<close>

definition recovery_flag :: "'n inventory_payload \<Rightarrow> (verify_error, bool) result" where
  "recovery_flag p = (case ip_recovery p of None \<Rightarrow> Inr False | Some True \<Rightarrow> Inr True
                                          | Some False \<Rightarrow> Inl NormalExplicitRecoveryFalse)"

definition accepted_generation ::
  "bool \<Rightarrow> bool \<Rightarrow> 'n inventory_payload \<Rightarrow> node_trust_state \<Rightarrow> (verify_error, nat) result" where
  "accepted_generation recovery genesis_verified p st =
     (if recovery
      then if \<not> genesis_verified then Inl RecoveryNotGenesisSigned
           else (case ip_recovery_generation p of
                   None \<Rightarrow> Inl RecoveryMissingGeneration
                 | Some g \<Rightarrow>
                     if g < last_recovery_generation st then Inl (StaleRecovery g (last_recovery_generation st))
                     else if g = last_recovery_generation st \<and> last_canonical_hash st = None
                     then Inl (RecoveryEqualGenerationUnpinned g)
                     else Inr g)
      else if ip_epoch p < last_epoch st then Inl (StaleEpoch (ip_epoch p) (last_epoch st))
      else (case ip_recovery_generation p of
              None \<Rightarrow> if last_recovery_generation st = 0 then Inr 0
                      else Inl (NormalMissingRecoveryGeneration (last_recovery_generation st))
            | Some g \<Rightarrow>
                if g = last_recovery_generation st then Inr g
                else if g < last_recovery_generation st then Inl (RecoveryGenerationRollback g (last_recovery_generation st))
                else if genesis_verified then Inr g
                else Inl (RecoveryFloorRaiseRequiresGenesis g (last_recovery_generation st))))"

definition fold_advanced :: "bool \<Rightarrow> nat \<Rightarrow> 'n inventory_payload \<Rightarrow> node_trust_state \<Rightarrow> bool" where
  "fold_advanced recovery g p st =
     (if recovery then last_recovery_generation st < g
      else last_epoch st < ip_epoch p \<or> last_recovery_generation st < g)"

definition check_hash :: "'n foreign \<Rightarrow> bool \<Rightarrow> nat \<Rightarrow> 'n inventory_payload \<Rightarrow> node_trust_state \<Rightarrow> (verify_error, unit) result" where
  "check_hash F recovery g p st =
     (case last_canonical_hash st of
        None \<Rightarrow> Inr ()
      | Some expected \<Rightarrow>
          if \<not> fold_advanced recovery g p st \<and> canonical_blake3 F p \<noteq> expected
          then Inl (BaselineHashMismatch (ip_epoch p) g expected (canonical_blake3 F p))
          else Inr ())"

definition verify :: "'n foreign \<Rightarrow> 'n signed_inventory \<Rightarrow> node_trust_state \<Rightarrow> (verify_error, accepted_inventory) result" where
  "verify F si st =
     (let p = si_payload si
      in if ip_canonical_encoding p \<noteq> CANONICAL_ENCODING_V1
         then Inl (UnknownCanonicalEncoding (ip_canonical_encoding p))
         else if ip_schema_version p \<noteq> SUPPORTED_SCHEMA_VERSION
         then Inl (UnsupportedSchemaVersion (ip_schema_version p))
         else if as_array (ip_members p) = None then Inl (MalformedPayload ''members is not an array'')
         else if ip_verify_keys p = [] then Inl NoVerifyKeys
         else and_then (try_fold (check_verify_key F) [] (ip_verify_keys p)) (\<lambda>_.
           let t = fold (count_signature F (ip_verify_keys p) st (payload_bytes F p)) (si_signatures si)
                     \<lparr>ty_verified_by = [], ty_genesis_verified = False\<rparr>
           in if ty_verified_by t = [] then Inl NoTrustedSignature
              else if \<not> list_ex (\<lambda>vk. vk_key_id vk = genesis_key_id st) (ip_verify_keys p)
              then Inl (GenesisDropped (genesis_key_id st))
              else and_then (recovery_flag p) (\<lambda>recovery.
                   and_then (accepted_generation recovery (ty_genesis_verified t) p st) (\<lambda>g.
                   and_then (check_hash F recovery g p st) (\<lambda>_.
                     Inr \<lparr>acc_epoch = ip_epoch p, acc_recovery_generation = g, acc_via_recovery = recovery,
                          acc_verified_by = ty_verified_by t, acc_adopt_verify_keys = ip_verify_keys p\<rparr>)))))"

section \<open>The loops\<close>

definition payload_shape_ok :: "'n foreign \<Rightarrow> 'n inventory_payload \<Rightarrow> bool" where
  "payload_shape_ok F p \<longleftrightarrow>
     ip_canonical_encoding p = CANONICAL_ENCODING_V1 \<and> ip_schema_version p = 1 \<and> as_array (ip_members p) \<noteq> None
     \<and> ip_verify_keys p \<noteq> [] \<and> distinct (map vk_key_id (ip_verify_keys p))
     \<and> (\<forall>vk\<in>set (ip_verify_keys p). vk_key_type vk = ALG_ED25519 \<and> decode_fixed F (vk_pubkey vk) 32 \<noteq> None)"

lemma check_verify_keys:
  "is_ok (try_fold (check_verify_key F) ids vks) \<longleftrightarrow>
     distinct (map vk_key_id vks) \<and> set ids \<inter> vk_key_id ` set vks = {}
     \<and> (\<forall>vk\<in>set vks. vk_key_type vk = ALG_ED25519 \<and> decode_fixed F (vk_pubkey vk) 32 \<noteq> None)"
proof (induction vks arbitrary: ids)
  case (Cons vk vks)
  show ?case
  proof (cases "vk_key_type vk = ALG_ED25519 \<and> decode_fixed F (vk_pubkey vk) 32 \<noteq> None \<and> vk_key_id vk \<notin> set ids")
    case True
    then have "check_verify_key F ids vk = Inr (vk_key_id vk # ids)" by (simp add: check_verify_key_def)
    then show ?thesis using True Cons [of "vk_key_id vk # ids"] by auto
  next
    case False
    then show ?thesis by (auto simp: check_verify_key_def)
  qed
qed simp

abbreviation tally_start :: tally where
  "tally_start \<equiv> \<lparr>ty_verified_by = [], ty_genesis_verified = False\<rparr>"

lemma count_signatures:
  assumes "distinct (ty_verified_by t)" "ty_genesis_verified t \<longleftrightarrow> genesis_key_id st \<in> set (ty_verified_by t)"
    and "t' = fold (count_signature F declared st msg) sigs t"
  shows "distinct (ty_verified_by t') \<and> (ty_genesis_verified t' \<longleftrightarrow> genesis_key_id st \<in> set (ty_verified_by t'))
    \<and> set (ty_verified_by t') = set (ty_verified_by t) \<union> is_key_id ` {s \<in> set sigs. signature_counts F declared st msg s}"
  using assms
proof (induction sigs arbitrary: t)
  case (Cons s sigs)
  have "distinct (ty_verified_by (count_signature F declared st msg s t))"
    "ty_genesis_verified (count_signature F declared st msg s t)
       \<longleftrightarrow> genesis_key_id st \<in> set (ty_verified_by (count_signature F declared st msg s t))"
    using Cons.prems by (auto simp: count_signature_def)
  moreover have "t' = fold (count_signature F declared st msg) sigs (count_signature F declared st msg s t)"
    using Cons.prems(3) by simp
  ultimately have "distinct (ty_verified_by t') \<and> (ty_genesis_verified t' \<longleftrightarrow> genesis_key_id st \<in> set (ty_verified_by t'))
    \<and> set (ty_verified_by t') = set (ty_verified_by (count_signature F declared st msg s t))
        \<union> is_key_id ` {s \<in> set sigs. signature_counts F declared st msg s}"
    by (rule Cons.IH)
  then show ?case by (auto simp: count_signature_def)
qed simp

text \<open>The keys that authorise an inventory: a set, so the order and the multiplicity of the entries and
  every entry that does not count are irrelevant.\<close>

definition signers :: "'n foreign \<Rightarrow> 'n signed_inventory \<Rightarrow> node_trust_state \<Rightarrow> string set" where
  "signers F si st = is_key_id `
     {s \<in> set (si_signatures si). signature_counts F (ip_verify_keys (si_payload si)) st (payload_bytes F (si_payload si)) s}"

lemma tally_signers:
  assumes "t = fold (count_signature F (ip_verify_keys (si_payload si)) st (payload_bytes F (si_payload si))) (si_signatures si) tally_start"
  shows "distinct (ty_verified_by t)" "set (ty_verified_by t) = signers F si st"
    "ty_genesis_verified t \<longleftrightarrow> genesis_key_id st \<in> signers F si st"
proof -
  have "distinct (ty_verified_by tally_start)" "ty_genesis_verified tally_start \<longleftrightarrow> genesis_key_id st \<in> set (ty_verified_by tally_start)"
    by simp_all
  from count_signatures [OF this assms]
  show "distinct (ty_verified_by t)" "set (ty_verified_by t) = signers F si st"
    "ty_genesis_verified t \<longleftrightarrow> genesis_key_id st \<in> signers F si st"
    by (auto simp: signers_def)
qed

section \<open>What is accepted\<close>

text \<open>The acceptance table of the trust state, as one predicate on the payload, whether genesis signed,
  and the stored baseline.\<close>

definition generation_of :: "'n inventory_payload \<Rightarrow> nat" where
  "generation_of p = (case ip_recovery_generation p of None \<Rightarrow> 0 | Some g \<Rightarrow> g)"

definition fold_ok :: "'n foreign \<Rightarrow> 'n inventory_payload \<Rightarrow> bool \<Rightarrow> node_trust_state \<Rightarrow> bool" where
  "fold_ok F p genesis st \<longleftrightarrow>
     (case ip_recovery p of
        Some False \<Rightarrow> False
      | Some True \<Rightarrow>
          genesis \<and> ip_recovery_generation p \<noteq> None
          \<and> (last_recovery_generation st < generation_of p
             \<or> generation_of p = last_recovery_generation st \<and> last_canonical_hash st = Some (canonical_blake3 F p))
      | None \<Rightarrow>
          last_epoch st \<le> ip_epoch p
          \<and> (generation_of p = last_recovery_generation st
             \<or> genesis \<and> last_recovery_generation st < generation_of p)
          \<and> (last_epoch st < ip_epoch p \<or> last_recovery_generation st < generation_of p
             \<or> last_canonical_hash st = None \<or> last_canonical_hash st = Some (canonical_blake3 F p)))"

lemma accepted_recovery:
  "accepted_generation True gen p st = Inr g \<longleftrightarrow>
     gen \<and> ip_recovery_generation p = Some g
     \<and> (last_recovery_generation st < g \<or> g = last_recovery_generation st \<and> last_canonical_hash st \<noteq> None)"
  by (auto simp: accepted_generation_def split: option.splits if_splits)

lemma accepted_normal:
  "accepted_generation False gen p st = Inr g \<longleftrightarrow>
     last_epoch st \<le> ip_epoch p \<and> g = generation_of p
     \<and> (g = last_recovery_generation st \<or> gen \<and> last_recovery_generation st < g)"
  by (auto simp: accepted_generation_def generation_of_def split: option.splits if_splits)

lemma check_hash_ok:
  "check_hash F recovery g p st = Inr () \<longleftrightarrow>
     fold_advanced recovery g p st \<or> last_canonical_hash st = None \<or> last_canonical_hash st = Some (canonical_blake3 F p)"
  by (auto simp: check_hash_def split: option.splits)

lemma fold_ok_steps:
  "recovery_flag p = Inr recovery \<and> accepted_generation recovery genesis p st = Inr g \<and> check_hash F recovery g p st = Inr ()
   \<longleftrightarrow> fold_ok F p genesis st \<and> g = generation_of p \<and> recovery = (ip_recovery p = Some True)"
proof (cases "ip_recovery p")
  case None
  then show ?thesis
    by (cases recovery) (auto simp: recovery_flag_def fold_ok_def accepted_normal check_hash_ok fold_advanced_def)
next
  case (Some b)
  have g: "ip_recovery_generation p = Some g \<Longrightarrow> generation_of p = g" for g by (simp add: generation_of_def)
  show ?thesis
    using Some g
    by (cases b; cases recovery) (auto simp: recovery_flag_def fold_ok_def accepted_recovery check_hash_ok fold_advanced_def)
qed

text \<open>The shape checks, the signatures, and the fold, as the verifier composes them.\<close>

lemma verify_iff:
  "verify F si st = Inr acc \<longleftrightarrow>
     payload_shape_ok F (si_payload si) \<and> signers F si st \<noteq> {}
     \<and> genesis_key_id st \<in> vk_key_id ` set (ip_verify_keys (si_payload si))
     \<and> fold_ok F (si_payload si) (genesis_key_id st \<in> signers F si st) st
     \<and> acc = \<lparr>acc_epoch = ip_epoch (si_payload si), acc_recovery_generation = generation_of (si_payload si),
              acc_via_recovery = (ip_recovery (si_payload si) = Some True),
              acc_verified_by = ty_verified_by (fold (count_signature F (ip_verify_keys (si_payload si)) st
                 (payload_bytes F (si_payload si))) (si_signatures si) tally_start),
              acc_adopt_verify_keys = ip_verify_keys (si_payload si)\<rparr>"
proof -
  define p where "p = si_payload si"
  define t where "t = fold (count_signature F (ip_verify_keys p) st (payload_bytes F p)) (si_signatures si) tally_start"
  note ts = tally_signers [OF t_def [unfolded p_def]]
  have ne: "ty_verified_by t = [] \<longleftrightarrow> signers F si st = {}" using ts(2) by auto
  have gen: "list_ex (\<lambda>vk. vk_key_id vk = genesis_key_id st) (ip_verify_keys p)
      \<longleftrightarrow> genesis_key_id st \<in> vk_key_id ` set (ip_verify_keys p)"
    by (force simp: list_ex_iff)
  have bind: "and_then r f = Inr b \<longleftrightarrow> (\<exists>a. r = Inr a \<and> f a = Inr b)" for r :: "(verify_error, 'x) result" and f b
    by (cases r) auto
  have ok: "(\<exists>a. r = Inr a) \<longleftrightarrow> is_ok r" for r :: "(verify_error, 'x) result" by (cases r) auto
  have keys: "(\<exists>ids. try_fold (check_verify_key F) [] (ip_verify_keys p) = Inr ids) \<longleftrightarrow>
      distinct (map vk_key_id (ip_verify_keys p))
      \<and> (\<forall>vk\<in>set (ip_verify_keys p). vk_key_type vk = ALG_ED25519 \<and> decode_fixed F (vk_pubkey vk) 32 \<noteq> None)"
    unfolding ok check_verify_keys by simp
  have "(\<exists>recovery. recovery_flag p = Inr recovery \<and> (\<exists>g. accepted_generation recovery (ty_genesis_verified t) p st = Inr g
         \<and> (\<exists>u. check_hash F recovery g p st = Inr u \<and> Inr \<lparr>acc_epoch = ip_epoch p, acc_recovery_generation = g,
              acc_via_recovery = recovery, acc_verified_by = ty_verified_by t, acc_adopt_verify_keys = ip_verify_keys p\<rparr>
            = (Inr acc :: (verify_error, accepted_inventory) result))))
     \<longleftrightarrow> fold_ok F p (genesis_key_id st \<in> signers F si st) st
       \<and> acc = \<lparr>acc_epoch = ip_epoch p, acc_recovery_generation = generation_of p, acc_via_recovery = (ip_recovery p = Some True),
            acc_verified_by = ty_verified_by t, acc_adopt_verify_keys = ip_verify_keys p\<rparr>"
    using fold_ok_steps [of p _ "ty_genesis_verified t" st _ F] ts(3) by auto
  then show ?thesis
    using keys ne gen
    unfolding verify_def Let_def p_def [symmetric] t_def [symmetric] payload_shape_ok_def
    by (auto simp: bind SUPPORTED_SCHEMA_VERSION_def)
qed

lemma verified_by_signers:
  "verify F si st = Inr acc \<Longrightarrow> distinct (acc_verified_by acc) \<and> set (acc_verified_by acc) = signers F si st"
  using tally_signers [OF refl, of F si st] by (simp add: verify_iff)

lemma signers_mono:
  "set (si_signatures si) \<subseteq> set (si_signatures si') \<Longrightarrow> si_payload si' = si_payload si \<Longrightarrow> signers F si st \<subseteq> signers F si' st"
  by (auto simp: signers_def)

lemma fold_ok_mono: "fold_ok F p gen st \<Longrightarrow> (gen \<longrightarrow> gen') \<Longrightarrow> fold_ok F p gen' st"
  by (auto simp: fold_ok_def split: option.splits bool.splits)

text \<open>An inventory signed by its genesis key, and a node that trusts that key and has seen nothing.\<close>

definition sample_key :: string where "sample_key = replicate 32 (CHR ''k'')"

definition sample_payload :: "unit inventory_payload" where
  "sample_payload = \<lparr>ip_schema_version = 1, ip_canonical_encoding = ''json/rfc8785'', ip_mesh = ''m.net'',
     ip_subnet = ''10.0.0.0/24'', ip_epoch = 1, ip_signed_at = [], ip_valid_until = [], ip_hub = [],
     ip_verify_keys = [\<lparr>vk_key_id = ''genesis'', vk_pubkey = sample_key, vk_key_type = ''Ed25519'', vk_status = StatusActive\<rparr>],
     ip_members = JArray [JObject [(''name'', JString ''alpha''), (''status'', JString ''active''), (''bus'', JBool True),
        (''mesh_ip'', JString ''10.0.0.1''), (''credentials'', JArray [JObject [(''kind'', JString ''d2''),
        (''from_epoch'', JNumber ()), (''pubkey'', JString sample_key)]])]],
     ip_recovery = None, ip_recovery_generation = None\<rparr>"

definition sample_inventory :: "unit signed_inventory" where
  "sample_inventory = \<lparr>si_payload = sample_payload,
     si_signatures = [\<lparr>is_key_id = ''genesis'', is_alg = ''Ed25519'', is_sig = sample_key @ sample_key\<rparr>]\<rparr>"

definition sample_state :: node_trust_state where
  "sample_state = \<lparr>genesis_key_id = ''genesis'',
     trusted_keys = [\<lparr>tk_key_id = ''genesis'', tk_pubkey = sample_key, tk_status = StatusActive\<rparr>],
     last_epoch = 0, last_recovery_generation = 0, last_canonical_hash = None\<rparr>"

lemma sample_signature:
  "signature_counts sample_foreign (ip_verify_keys sample_payload) sample_state msg
     \<lparr>is_key_id = ''genesis'', is_alg = ''Ed25519'', is_sig = sample_key @ sample_key\<rparr>"
  by (simp add: signature_counts_def sample_foreign_def sample_payload_def sample_state_def trusted_pubkey_def
      decode_fixed_def verify_ed25519_ok ALG_ED25519_def sample_key_def)

lemma sample_signers: "signers sample_foreign sample_inventory sample_state = {''genesis''}"
  using sample_signature by (auto simp: signers_def sample_inventory_def)

lemma sample_verifies: "\<exists>acc. verify sample_foreign sample_inventory sample_state = Inr acc"
  unfolding verify_iff sample_signers
  by (simp add: payload_shape_ok_def fold_ok_def sample_inventory_def sample_payload_def sample_state_def generation_of_def
      CANONICAL_ENCODING_V1_def ALG_ED25519_def decode_fixed_def sample_foreign_def sample_key_def)

text \<open>C14: an inventory is accepted exactly when its shape is right (known encoding and schema, members an
  array, at least one declared key, all declared keys Ed25519, decodable and distinct), at least one
  declared key that the node already trusts has signed the canonical bytes, the genesis key is still
  declared, and the payload passes the acceptance table against the stored epoch, recovery generation
  and hash.  What is then adopted is the payload's own epoch, generation and keys, and the reported
  signers are the keys whose signatures count, each once.\<close>

theorem inventory_verify_exact:
  "((\<exists>acc. verify F si st = Inr acc) \<longleftrightarrow>
      payload_shape_ok F (si_payload si) \<and> signers F si st \<noteq> {}
      \<and> genesis_key_id st \<in> vk_key_id ` set (ip_verify_keys (si_payload si))
      \<and> fold_ok F (si_payload si) (genesis_key_id st \<in> signers F si st) st)
   \<and> (\<forall>acc. verify F si st = Inr acc \<longrightarrow>
        acc_epoch acc = ip_epoch (si_payload si) \<and> acc_recovery_generation acc = generation_of (si_payload si)
        \<and> acc_via_recovery acc = (ip_recovery (si_payload si) = Some True)
        \<and> acc_adopt_verify_keys acc = ip_verify_keys (si_payload si)
        \<and> distinct (acc_verified_by acc) \<and> set (acc_verified_by acc) = signers F si st)"
  using verified_by_signers [of F si st] by (auto simp: verify_iff)

theorem inventory_verify_exact_witness:
  "\<exists>acc. verify sample_foreign sample_inventory sample_state = Inr acc \<and> set (acc_verified_by acc) = {''genesis''}"
proof -
  obtain acc where acc: "verify sample_foreign sample_inventory sample_state = Inr acc" using sample_verifies by blast
  moreover have "set (acc_verified_by acc) = {''genesis''}"
    using inventory_verify_exact [of sample_foreign sample_inventory sample_state] acc by (simp add: sample_signers)
  ultimately show ?thesis by blast
qed

text \<open>the signature bag cannot be used to deny an update: whatever entries a carrier adds, repeats or
  reorders, an inventory that verifies still verifies, with the same epoch, generation, recovery flag
  and adopted keys.\<close>

theorem signature_bag_harmless:
  assumes "verify F si st = Inr acc" "set (si_signatures si) \<subseteq> set sigs"
  shows "\<exists>acc'. verify F (si\<lparr>si_signatures := sigs\<rparr>) st = Inr acc' \<and> acc_epoch acc' = acc_epoch acc
    \<and> acc_recovery_generation acc' = acc_recovery_generation acc \<and> acc_via_recovery acc' = acc_via_recovery acc
    \<and> acc_adopt_verify_keys acc' = acc_adopt_verify_keys acc"
proof -
  have "signers F si st \<subseteq> signers F (si\<lparr>si_signatures := sigs\<rparr>) st"
    using assms(2) by (intro signers_mono) simp_all
  then show ?thesis
    using assms(1) fold_ok_mono [of F "si_payload si" "genesis_key_id st \<in> signers F si st" st]
    by (auto simp: verify_iff)
qed

theorem signature_bag_harmless_witness:
  "\<exists>acc. verify sample_foreign (sample_inventory\<lparr>si_signatures := \<lparr>is_key_id = ''x'', is_alg = ''none'', is_sig = []\<rparr> # si_signatures sample_inventory\<rparr>)
     sample_state = Inr acc"
proof -
  obtain acc where acc: "verify sample_foreign sample_inventory sample_state = Inr acc" using sample_verifies by blast
  have "set (si_signatures sample_inventory) \<subseteq> set (\<lparr>is_key_id = ''x'', is_alg = ''none'', is_sig = []\<rparr> # si_signatures sample_inventory)"
    by auto
  from signature_bag_harmless [OF acc this] show ?thesis by blast
qed

end
