(* ===== verification/Cosmix_Net.thy ===== *)
theory Cosmix_Net
  imports Cosmix_Pat "HOL-Library.Word"
begin

text \<open>
  The standard library's IP addresses as the mesh uses them: \<^verbatim>\<open>IpAddr\<close> as a 32- or 128-bit word, its
  \<^verbatim>\<open>parse\<close> (dotted quads without leading zeros, IPv6 groups with one \<^verbatim>\<open>::\<close> and an embedded IPv4 tail), the
  address of a parsed \<^verbatim>\<open>SocketAddr\<close>, and the loopback and unspecified tests.
\<close>

unbundle bit_operations_syntax

datatype ip_addr = V4 "32 word" | V6 "128 word"

section \<open>Parsing\<close>

definition to_digit :: "nat \<Rightarrow> char \<Rightarrow> nat option" where
  "to_digit radix c =
     (let n = of_char c;
          v = (if 48 \<le> n \<and> n \<le> 57 then Some (n - 48)
               else if 97 \<le> n \<and> n \<le> 122 then Some (n - 87)
               else if 65 \<le> n \<and> n \<le> 90 then Some (n - 55)
               else None)
      in case v of None \<Rightarrow> None | Some d \<Rightarrow> if d < radix then Some d else None)"

text \<open>\<^verbatim>\<open>read_number\<close>: the digits up to the first other character, at most \<open>maxd\<close> of them when that is
  given, a value of at most \<open>maxv\<close>, and no leading zero unless allowed.\<close>

definition read_number :: "nat \<Rightarrow> nat option \<Rightarrow> bool \<Rightarrow> nat \<Rightarrow> string \<Rightarrow> (nat \<times> string) option" where
  "read_number radix maxd zero_prefix maxv s =
     (let ds = takeWhile (\<lambda>c. to_digit radix c \<noteq> None) s;
          v = foldl (\<lambda>a c. a * radix + the (to_digit radix c)) 0 ds
      in if (case maxd of None \<Rightarrow> False | Some m \<Rightarrow> m < length ds) then None
         else if maxv < v then None
         else if ds = [] then None
         else if \<not> zero_prefix \<and> hd ds = CHR ''0'' \<and> 1 < length ds then None
         else Some (v, drop (length ds) s))"

definition read_given_char :: "char \<Rightarrow> string \<Rightarrow> string option" where
  "read_given_char c s = (case s of [] \<Rightarrow> None | x # t \<Rightarrow> if x = c then Some t else None)"

definition read_separator :: "char \<Rightarrow> nat \<Rightarrow> (string \<Rightarrow> 'a option) \<Rightarrow> string \<Rightarrow> 'a option" where
  "read_separator sep i inner s = (if 0 < i then Option.bind (read_given_char sep s) inner else inner s)"

definition read_octet :: "nat \<Rightarrow> string \<Rightarrow> (nat \<times> string) option" where
  "read_octet i = read_separator (CHR ''.'') i (read_number 10 (Some 3) False 255)"

definition read_ipv4 :: "string \<Rightarrow> ((nat \<times> nat \<times> nat \<times> nat) \<times> string) option" where
  "read_ipv4 s =
     Option.bind (read_octet 0 s) (\<lambda>(a, s1). Option.bind (read_octet 1 s1) (\<lambda>(b, s2).
     Option.bind (read_octet 2 s2) (\<lambda>(c, s3). Option.bind (read_octet 3 s3) (\<lambda>(d, s4).
       Some ((a, b, c, d), s4)))))"

definition v4_word :: "nat \<times> nat \<times> nat \<times> nat \<Rightarrow> 32 word" where
  "v4_word q = (case q of (a, b, c, d) \<Rightarrow> of_nat (((a * 256 + b) * 256 + c) * 256 + d))"

text \<open>Up to \<open>n\<close> groups from group \<open>i\<close> on; the flag tells an embedded IPv4 tail, which needs room for two.\<close>

fun read_groups :: "nat \<Rightarrow> nat \<Rightarrow> string \<Rightarrow> nat list \<times> bool \<times> string" where
  "read_groups i 0 s = ([], False, s)"
| "read_groups i (Suc n) s =
     (case (if 0 < n then read_separator (CHR '':'') i read_ipv4 s else None) of
        Some ((a, b, c, d), r) \<Rightarrow> ([a * 256 + b, c * 256 + d], True, r)
      | None \<Rightarrow>
          (case read_separator (CHR '':'') i (read_number 16 (Some 4) True 65535) s of
             Some (g, r) \<Rightarrow> (let (gs, v4, r') = read_groups (Suc i) n r in (g # gs, v4, r'))
           | None \<Rightarrow> ([], False, s)))"

definition read_ipv6 :: "string \<Rightarrow> (nat list \<times> string) option" where
  "read_ipv6 s =
     (let (front, v4, r) = read_groups 0 8 s
      in if length front = 8 then Some (front, r)
         else if v4 then None
         else Option.bind (read_given_char (CHR '':'') r) (\<lambda>r1. Option.bind (read_given_char (CHR '':'') r1) (\<lambda>r2.
           let (rear, _, r3) = read_groups 0 (8 - (length front + 1)) r2
           in Some (front @ replicate (8 - length front - length rear) 0 @ rear, r3))))"

definition v6_word :: "nat list \<Rightarrow> 128 word" where
  "v6_word gs = of_nat (foldl (\<lambda>a g. a * 65536 + g) 0 gs)"

definition ip_parse :: "string \<Rightarrow> ip_addr option" where
  "ip_parse s =
     (case read_ipv4 s of
        Some (q, r) \<Rightarrow> if r = [] then Some (V4 (v4_word q)) else None
      | None \<Rightarrow> (case read_ipv6 s of
                   Some (gs, r) \<Rightarrow> if r = [] then Some (V6 (v6_word gs)) else None
                 | None \<Rightarrow> None))"

definition read_port :: "string \<Rightarrow> (nat \<times> string) option" where
  "read_port s = Option.bind (read_given_char (CHR '':'') s) (read_number 10 None True 65535)"

text \<open>The address part of \<^verbatim>\<open>SocketAddr\<close>: \<^verbatim>\<open>a.b.c.d:port\<close>, or \<^verbatim>\<open>[v6]:port\<close> with an optional scope.\<close>

definition socket_ip :: "string \<Rightarrow> ip_addr option" where
  "socket_ip s =
     (case Option.bind (read_ipv4 s) (\<lambda>(q, r). map_option (\<lambda>(_, r'). (V4 (v4_word q), r')) (read_port r)) of
        Some (ip, r) \<Rightarrow> if r = [] then Some ip else None
      | None \<Rightarrow>
          (case Option.bind (read_given_char (CHR ''['') s) (\<lambda>s1. Option.bind (read_ipv6 s1) (\<lambda>(gs, s2).
                  let s3 = (case Option.bind (read_given_char (CHR ''%'') s2) (read_number 10 None True 4294967295) of
                              Some (_, t) \<Rightarrow> t | None \<Rightarrow> s2)
                  in Option.bind (read_given_char (CHR '']'') s3) (\<lambda>s4.
                       map_option (\<lambda>(_, r'). (V6 (v6_word gs), r')) (read_port s4)))) of
             Some (ip, r) \<Rightarrow> if r = [] then Some ip else None
           | None \<Rightarrow> None))"

fun is_loopback :: "ip_addr \<Rightarrow> bool" where
  "is_loopback (V4 w) \<longleftrightarrow> drop_bit 24 w = 127"
| "is_loopback (V6 w) \<longleftrightarrow> w = 1"

fun is_unspecified :: "ip_addr \<Rightarrow> bool" where
  "is_unspecified (V4 w) \<longleftrightarrow> w = 0"
| "is_unspecified (V6 w) \<longleftrightarrow> w = 0"

section \<open>Prefixes of words\<close>

text \<open>Masking to the top \<open>p\<close> bits keeps what shifting the others out keeps.\<close>

lemma mask_eq_iff:
  fixes a n :: "'w::len word"
  assumes "n AND push_bit k (- 1) = n"
  shows "a AND push_bit k (- 1) = n \<longleftrightarrow> drop_bit k a = drop_bit k n"
proof -
  have m: "x AND push_bit k (- 1) = push_bit k (drop_bit k x)" for x :: "'w word"
    by (rule bit_word_eqI) (auto simp: bit_simps)
  show ?thesis
  proof
    assume "a AND push_bit k (- 1) = n"
    then have "push_bit k (drop_bit k a) = n" by (simp only: m)
    then have "drop_bit k (push_bit k (drop_bit k a)) = drop_bit k n" by simp
    moreover have "drop_bit k (push_bit k (drop_bit k a)) = drop_bit k a"
      by (rule bit_word_eqI) (auto simp: bit_simps dest: bit_imp_le_length)
    ultimately show "drop_bit k a = drop_bit k n" by simp
  next
    assume "drop_bit k a = drop_bit k n"
    then show "a AND push_bit k (- 1) = n" using assms by (simp only: m)
  qed
qed

end
