(* ===== verification/Mesh_Routing.thy ===== *)
theory Mesh_Routing
  imports Mesh_Sig Bus_Address Cosmix_Net
begin

text \<open>
  The strict routing view of an inventory (\<^verbatim>\<open>cosmix-lib-mesh-trust/src/routing.rs\<close>): subnets and the
  classification of the members.  A reason of refusal is a constructor with the values its message is
  formatted from.  The view is shown to exist exactly for member lists in which every record is well
  formed, names and active addresses are unique and some bus member is active, and then to be the
  classification of the records in order.
\<close>

section \<open>Subnets\<close>

definition DEFAULT_NODED_PORT :: nat where "DEFAULT_NODED_PORT = 4200"

record subnet =
  sn_network :: ip_addr
  sn_prefix :: nat

definition same_family :: "ip_addr \<Rightarrow> ip_addr \<Rightarrow> bool" where
  "same_family a b = (case (a, b) of (V4 _, V4 _) \<Rightarrow> True | (V6 _, V6 _) \<Rightarrow> True | _ \<Rightarrow> False)"

fun masked :: "subnet \<Rightarrow> ip_addr \<Rightarrow> ip_addr" where
  "masked s (V4 bits) = V4 (bits AND (if sn_prefix s = 0 then 0 else push_bit (32 - sn_prefix s) (- 1)))"
| "masked s (V6 bits) = V6 (bits AND (if sn_prefix s = 0 then 0 else push_bit (128 - sn_prefix s) (- 1)))"

definition subnet_contains :: "subnet \<Rightarrow> ip_addr \<Rightarrow> bool" where
  "subnet_contains s ip \<longleftrightarrow> same_family (sn_network s) ip \<and> masked s ip = sn_network s"

datatype subnet_error =
    ExpectedAddressPrefix
  | InvalidNetworkAddress string
  | InvalidPrefixLength string
  | PrefixExceeds nat nat
  | HostBitsSet

fun max_prefix :: "ip_addr \<Rightarrow> nat" where
  "max_prefix (V4 _) = 32"
| "max_prefix (V6 _) = 128"

definition subnet_parse :: "string \<Rightarrow> (subnet_error, subnet) result" where
  "subnet_parse s =
     (case split_once (CHR ''/'') s of
        None \<Rightarrow> Inl ExpectedAddressPrefix
      | Some (address, prefix_text) \<Rightarrow>
          if CHR ''/'' \<in> set prefix_text then Inl ExpectedAddressPrefix
          else case ip_parse address of
                 None \<Rightarrow> Inl (InvalidNetworkAddress address)
               | Some network \<Rightarrow>
                   (case parse_unsigned 255 prefix_text of
                      None \<Rightarrow> Inl (InvalidPrefixLength prefix_text)
                    | Some n \<Rightarrow>
                        if max_prefix network < n then Inl (PrefixExceeds n (max_prefix network))
                        else
                          let sub = \<lparr>sn_network = network, sn_prefix = n\<rparr>
                          in if \<not> subnet_contains sub network \<or> masked sub network \<noteq> network then Inl HostBitsSet
                             else Inr sub))"

section \<open>The view\<close>

datatype routing_reason =
    MembersNotArray
  | MissingName nat
  | InvalidLabel nat string
  | DuplicateName nat string
  | MissingStatus nat
  | UnknownStatus nat string
  | MissingBus nat
  | MissingMeshIp nat
  | InvalidMeshIp nat string
  | OutsideSubnet nat ip_addr
  | DuplicateMeshIp nat ip_addr string
  | BadNodedPort nat

datatype routing_member =
    ActiveBus string ip_addr nat
  | Tombstoned string
  | TransportOnly string ip_addr
  | Malformed "string option" routing_reason

datatype routing_view_error =
    BadSubnet string subnet_error
  | MalformedRoutingMember routing_member routing_reason
  | ZeroActiveBus

definition malformed :: "string option \<Rightarrow> routing_reason \<Rightarrow> routing_view_error" where
  "malformed name reason = MalformedRoutingMember (Malformed name reason) reason"

record view_state =
  vs_view :: "routing_member list"
  vs_names :: "string list"
  vs_active_ips :: "(ip_addr \<times> string) list"

definition port_of :: "'n foreign \<Rightarrow> 'n json \<Rightarrow> nat option" where
  "port_of F record' =
     (case json_get ''noded_port'' record' of
        None \<Rightarrow> Some DEFAULT_NODED_PORT
      | Some v \<Rightarrow> (case as_u64 F v of None \<Rightarrow> None | Some n \<Rightarrow> if 1 \<le> n \<and> n \<le> 65535 then Some n else None))"

definition route_member ::
  "'n foreign \<Rightarrow> subnet \<Rightarrow> view_state \<Rightarrow> nat \<times> 'n json \<Rightarrow> (routing_view_error, view_state) result" where
  "route_member F sub st ir =
     (let (index, rec') = ir; name = get_str ''name'' rec'
      in case name of
           None \<Rightarrow> Inl (malformed name (MissingName index))
         | Some n \<Rightarrow>
             if \<not> is_valid_bus_label n then Inl (malformed name (InvalidLabel index n))
             else if n \<in> set (vs_names st) then Inl (malformed name (DuplicateName index n))
             else
               let st1 = st\<lparr>vs_names := n # vs_names st\<rparr>
               in case get_str ''status'' rec' of
                    None \<Rightarrow> Inl (malformed name (MissingStatus index))
                  | Some status \<Rightarrow>
                      if status = ''tombstoned'' then Inr (st1\<lparr>vs_view := vs_view st @ [Tombstoned n]\<rparr>)
                      else if status \<noteq> ''active'' then Inl (malformed name (UnknownStatus index status))
                      else (case Option.bind (json_get ''bus'' rec') as_bool of
                              None \<Rightarrow> Inl (malformed name (MissingBus index))
                            | Some bus \<Rightarrow>
                                (case get_str ''mesh_ip'' rec' of
                                   None \<Rightarrow> Inl (malformed name (MissingMeshIp index))
                                 | Some ip_text \<Rightarrow>
                                     (case ip_parse ip_text of
                                        None \<Rightarrow> Inl (malformed name (InvalidMeshIp index ip_text))
                                      | Some ip \<Rightarrow>
                                          if \<not> subnet_contains sub ip then Inl (malformed name (OutsideSubnet index ip))
                                          else (case map_of (vs_active_ips st) ip of
                                                  Some first \<Rightarrow> Inl (malformed name (DuplicateMeshIp index ip first))
                                                | None \<Rightarrow>
                                                    let st2 = st1\<lparr>vs_active_ips := (ip, n) # vs_active_ips st\<rparr>
                                                    in if bus
                                                       then (case port_of F rec' of
                                                               None \<Rightarrow> Inl (malformed name (BadNodedPort index))
                                                             | Some port \<Rightarrow> Inr (st2\<lparr>vs_view := vs_view st @ [ActiveBus n ip port]\<rparr>))
                                                       else Inr (st2\<lparr>vs_view := vs_view st @ [TransportOnly n ip]\<rparr>))))))"

fun is_active_bus :: "routing_member \<Rightarrow> bool" where
  "is_active_bus (ActiveBus _ _ _) = True"
| "is_active_bus _ = False"

definition strict_routing_view ::
  "'n foreign \<Rightarrow> 'n json \<Rightarrow> string \<Rightarrow> (routing_view_error, routing_member list) result" where
  "strict_routing_view F members subnet_text =
     and_then (map_err (BadSubnet subnet_text) (subnet_parse subnet_text)) (\<lambda>sub.
       case as_array members of
         None \<Rightarrow> Inl (malformed None MembersNotArray)
       | Some records \<Rightarrow>
           and_then (try_fold (route_member F sub) \<lparr>vs_view = [], vs_names = [], vs_active_ips = []\<rparr>
                       (enumerate 0 records)) (\<lambda>st.
             if \<not> list_ex is_active_bus (vs_view st) then Inl ZeroActiveBus else Inr (vs_view st)))"

section \<open>Subnets are prefixes\<close>

fun ip_bits :: "nat \<Rightarrow> ip_addr \<Rightarrow> nat \<times> nat" where
  "ip_bits p (V4 w) = (4, unat (drop_bit (32 - p) w))"
| "ip_bits p (V6 w) = (6, unat (drop_bit (128 - p) w))"

lemma subnet_parse_network: "subnet_parse t = Inr s \<Longrightarrow> masked s (sn_network s) = sn_network s \<and> sn_prefix s \<le> max_prefix (sn_network s)"
  by (auto simp: subnet_parse_def Let_def split: option.splits if_splits)

lemma drop_all_32: "drop_bit 32 (w :: 32 word) = 0"
  by (rule bit_word_eqI) (auto simp: bit_simps dest: bit_imp_le_length)

lemma drop_all_128: "drop_bit 128 (w :: 128 word) = 0"
  by (rule bit_word_eqI) (auto simp: bit_simps dest: bit_imp_le_length)

lemma subnet_contains_iff:
  assumes "masked s (sn_network s) = sn_network s"
  shows "subnet_contains s ip \<longleftrightarrow> ip_bits (sn_prefix s) ip = ip_bits (sn_prefix s) (sn_network s)"
proof (cases "sn_network s")
  case (V4 n)
  show ?thesis
  proof (cases ip)
    case ip: (V4 a)
    show ?thesis
    proof (cases "sn_prefix s = 0")
      case True
      then show ?thesis using V4 ip assms by (auto simp: subnet_contains_def same_family_def drop_all_32)
    next
      case False
      then have "n AND push_bit (32 - sn_prefix s) (- 1) = n" using assms V4 by simp
      from mask_eq_iff [OF this, of a] show ?thesis
        using V4 ip False by (simp add: subnet_contains_def same_family_def flip: word_unat_eq_iff)
    qed
  qed (use V4 in \<open>simp add: subnet_contains_def same_family_def\<close>)
next
  case (V6 n)
  show ?thesis
  proof (cases ip)
    case ip: (V6 a)
    show ?thesis
    proof (cases "sn_prefix s = 0")
      case True
      then show ?thesis using V6 ip assms by (auto simp: subnet_contains_def same_family_def drop_all_128)
    next
      case False
      then have "n AND push_bit (128 - sn_prefix s) (- 1) = n" using assms V6 by simp
      from mask_eq_iff [OF this, of a] show ?thesis
        using V6 ip False by (simp add: subnet_contains_def same_family_def flip: word_unat_eq_iff)
    qed
  qed (use V6 in \<open>simp add: subnet_contains_def same_family_def\<close>)
qed

section \<open>The view is the classification\<close>

fun member_name :: "routing_member \<Rightarrow> string" where
  "member_name (ActiveBus n _ _) = n"
| "member_name (Tombstoned n) = n"
| "member_name (TransportOnly n _) = n"
| "member_name (Malformed n _) = (case n of None \<Rightarrow> [] | Some m \<Rightarrow> m)"

fun member_ip :: "routing_member \<Rightarrow> ip_addr option" where
  "member_ip (ActiveBus _ ip _) = Some ip"
| "member_ip (TransportOnly _ ip) = Some ip"
| "member_ip _ = None"

definition active_record :: "subnet \<Rightarrow> 'n json \<Rightarrow> string \<Rightarrow> ip_addr \<Rightarrow> bool \<Rightarrow> bool" where
  "active_record sub r n ip bus \<longleftrightarrow>
     get_str ''name'' r = Some n \<and> is_valid_bus_label n \<and> get_str ''status'' r = Some ''active''
     \<and> Option.bind (json_get ''bus'' r) as_bool = Some bus
     \<and> (\<exists>t. get_str ''mesh_ip'' r = Some t \<and> ip_parse t = Some ip) \<and> subnet_contains sub ip"

text \<open>What a record means, without regard to the others.\<close>

fun record_is :: "'n foreign \<Rightarrow> subnet \<Rightarrow> 'n json \<Rightarrow> routing_member \<Rightarrow> bool" where
  "record_is F sub r (ActiveBus n ip port) \<longleftrightarrow> active_record sub r n ip True \<and> port_of F r = Some port"
| "record_is F sub r (TransportOnly n ip) \<longleftrightarrow> active_record sub r n ip False"
| "record_is F sub r (Tombstoned n) \<longleftrightarrow>
     get_str ''name'' r = Some n \<and> is_valid_bus_label n \<and> get_str ''status'' r = Some ''tombstoned''"
| "record_is F sub r (Malformed _ _) \<longleftrightarrow> False"

definition view_ips :: "routing_member list \<Rightarrow> ip_addr list" where
  "view_ips v = List.map_filter member_ip v"

definition state_of :: "routing_member list \<Rightarrow> view_state" where
  "state_of v = \<lparr>vs_view = v, vs_names = rev (map member_name v),
     vs_active_ips = rev (List.map_filter (\<lambda>m. map_option (\<lambda>ip. (ip, member_name m)) (member_ip m)) v)\<rparr>"

lemma map_filter_append: "List.map_filter f (xs @ ys) = List.map_filter f xs @ List.map_filter f ys"
  by (simp add: List.map_filter_def)

lemma map_fst_active: "map fst (List.map_filter (\<lambda>m. map_option (\<lambda>ip. (ip, member_name m)) (member_ip m)) v) = view_ips v"
  unfolding view_ips_def by (induction v) (auto split: option.splits)

lemma active_ips_None:
  "map_of (vs_active_ips (state_of v)) ip = None \<longleftrightarrow> ip \<notin> set (view_ips v)"
proof -
  let ?a = "List.map_filter (\<lambda>m. map_option (\<lambda>ip. (ip, member_name m)) (member_ip m)) v"
  have "fst ` set (vs_active_ips (state_of v)) = set (map fst ?a)" by (simp add: state_of_def)
  also have "\<dots> = set (view_ips v)" by (simp only: map_fst_active)
  finally show ?thesis by (simp add: map_of_eq_None_iff)
qed

lemma route_member_iff:
  "route_member F sub (state_of v) (i, r) = Inr st' \<longleftrightarrow>
     (\<exists>m. record_is F sub r m \<and> member_name m \<notin> set (map member_name v)
        \<and> (\<forall>ip. member_ip m = Some ip \<longrightarrow> ip \<notin> set (view_ips v)) \<and> st' = state_of (v @ [m]))"
proof
  assume a: "route_member F sub (state_of v) (i, r) = Inr st'"
  then obtain n where n: "get_str ''name'' r = Some n" "is_valid_bus_label n" "n \<notin> set (map member_name v)"
    by (auto simp: route_member_def Let_def state_of_def split: option.splits if_splits)
  obtain status where status: "get_str ''status'' r = Some status"
    using a n by (auto simp: route_member_def Let_def state_of_def split: option.splits if_splits)
  show "\<exists>m. record_is F sub r m \<and> member_name m \<notin> set (map member_name v)
        \<and> (\<forall>ip. member_ip m = Some ip \<longrightarrow> ip \<notin> set (view_ips v)) \<and> st' = state_of (v @ [m])"
  proof (cases "status = ''tombstoned''")
    case True
    then show ?thesis
      using a n status by (intro exI [of _ "Tombstoned n"]) (auto simp: route_member_def state_of_def map_filter_append)
  next
    case False
    then obtain bus t ip where b: "status = ''active''" "Option.bind (json_get ''bus'' r) as_bool = Some bus"
      "get_str ''mesh_ip'' r = Some t" "ip_parse t = Some ip" "subnet_contains sub ip"
      "map_of (vs_active_ips (state_of v)) ip = None"
      using a n status by (auto simp: route_member_def Let_def split: option.splits if_splits)
    have ac: "active_record sub r n ip bus" using n status b by (auto simp: active_record_def)
    have ip: "ip \<notin> set (view_ips v)" using b(6) active_ips_None [of v ip] by simp
    show ?thesis
    proof (cases bus)
      case True
      then obtain port where "port_of F r = Some port"
        using a n status b by (auto simp: route_member_def Let_def split: option.splits if_splits)
      then show ?thesis
        using a n status b ac ip True
        by (intro exI [of _ "ActiveBus n ip port"]) (auto simp: route_member_def state_of_def map_filter_append)
    next
      case False
      then show ?thesis
        using a n status b ac ip
        by (intro exI [of _ "TransportOnly n ip"]) (auto simp: route_member_def state_of_def map_filter_append)
    qed
  qed
next
  assume "\<exists>m. record_is F sub r m \<and> member_name m \<notin> set (map member_name v)
        \<and> (\<forall>ip. member_ip m = Some ip \<longrightarrow> ip \<notin> set (view_ips v)) \<and> st' = state_of (v @ [m])"
  then obtain m where m: "record_is F sub r m" "member_name m \<notin> set (map member_name v)"
    "\<forall>ip. member_ip m = Some ip \<longrightarrow> map_of (vs_active_ips (state_of v)) ip = None" "st' = state_of (v @ [m])"
    using active_ips_None by blast
  then show "route_member F sub (state_of v) (i, r) = Inr st'"
    by (cases m) (auto simp: route_member_def active_record_def state_of_def map_filter_append)
qed

lemma view_ips_append: "view_ips (v @ w) = view_ips v @ view_ips w"
  by (simp add: view_ips_def map_filter_append)

lemma view_ips_Cons: "view_ips (m # w) = (case member_ip m of None \<Rightarrow> view_ips w | Some ip \<Rightarrow> ip # view_ips w)"
  by (simp add: view_ips_def split: option.split)

lemma route_members_iff:
  "distinct (map member_name v) \<Longrightarrow> distinct (view_ips v) \<Longrightarrow>
   try_fold (route_member F sub) (state_of v) (enumerate i rs) = Inr st' \<longleftrightarrow>
     (\<exists>ms. list_all2 (record_is F sub) rs ms \<and> distinct (map member_name (v @ ms)) \<and> distinct (view_ips (v @ ms))
        \<and> st' = state_of (v @ ms))"
proof (induction rs arbitrary: v i)
  case Nil
  then show ?case by auto
next
  case (Cons r rs)
  let ?step = "\<lambda>m. record_is F sub r m \<and> member_name m \<notin> set (map member_name v)
      \<and> (\<forall>ip. member_ip m = Some ip \<longrightarrow> ip \<notin> set (view_ips v))"
  have "try_fold (route_member F sub) (state_of v) (enumerate i (r # rs)) = Inr st' \<longleftrightarrow>
      (\<exists>m. ?step m \<and> try_fold (route_member F sub) (state_of (v @ [m])) (enumerate (Suc i) rs) = Inr st')"
  proof -
    have "try_fold (route_member F sub) (state_of v) (enumerate i (r # rs)) = Inr st' \<longleftrightarrow>
        (\<exists>st1. route_member F sub (state_of v) (i, r) = Inr st1
           \<and> try_fold (route_member F sub) st1 (enumerate (Suc i) rs) = Inr st')"
      by (cases "route_member F sub (state_of v) (i, r)") auto
    then show ?thesis unfolding route_member_iff by blast
  qed
  also have "\<dots> \<longleftrightarrow> (\<exists>m ms. ?step m \<and> list_all2 (record_is F sub) rs ms \<and> distinct (map member_name ((v @ [m]) @ ms))
      \<and> distinct (view_ips ((v @ [m]) @ ms)) \<and> st' = state_of ((v @ [m]) @ ms))"
  proof (intro ex_cong1)
    fix m
    have "distinct (map member_name (v @ [m])) \<and> distinct (view_ips (v @ [m]))" if "?step m"
      using that Cons.prems by (cases "member_ip m") (auto simp: view_ips_def map_filter_append)
    then show "?step m \<and> try_fold (route_member F sub) (state_of (v @ [m])) (enumerate (Suc i) rs) = Inr st' \<longleftrightarrow>
        (\<exists>ms. ?step m \<and> list_all2 (record_is F sub) rs ms \<and> distinct (map member_name ((v @ [m]) @ ms))
          \<and> distinct (view_ips ((v @ [m]) @ ms)) \<and> st' = state_of ((v @ [m]) @ ms))"
      using Cons.IH [of "v @ [m]" "Suc i"] by blast
  qed
  also have "\<dots> \<longleftrightarrow> (\<exists>ms. list_all2 (record_is F sub) (r # rs) ms \<and> distinct (map member_name (v @ ms))
      \<and> distinct (view_ips (v @ ms)) \<and> st' = state_of (v @ ms))"
  proof (intro iffI; elim exE conjE)
    fix m ms
    assume "record_is F sub r m" "list_all2 (record_is F sub) rs ms" "distinct (map member_name ((v @ [m]) @ ms))"
      "distinct (view_ips ((v @ [m]) @ ms))" "st' = state_of ((v @ [m]) @ ms)"
    then show "\<exists>ms. list_all2 (record_is F sub) (r # rs) ms \<and> distinct (map member_name (v @ ms))
      \<and> distinct (view_ips (v @ ms)) \<and> st' = state_of (v @ ms)"
      by (intro exI [of _ "m # ms"]) simp
  next
    fix ms
    assume a: "list_all2 (record_is F sub) (r # rs) ms" "distinct (map member_name (v @ ms))"
      "distinct (view_ips (v @ ms))" "st' = state_of (v @ ms)"
    then obtain m ms' where m: "ms = m # ms'" "record_is F sub r m" "list_all2 (record_is F sub) rs ms'"
      by (auto simp: list_all2_Cons1)
    have "\<forall>ip. member_ip m = Some ip \<longrightarrow> ip \<notin> set (view_ips v)"
      using a(3) m(1) by (auto simp: view_ips_append view_ips_Cons)
    then show "\<exists>m ms. ?step m \<and> list_all2 (record_is F sub) rs ms \<and> distinct (map member_name ((v @ [m]) @ ms))
      \<and> distinct (view_ips ((v @ [m]) @ ms)) \<and> st' = state_of ((v @ [m]) @ ms)"
      using a m by (intro exI [of _ m] exI [of _ ms']) auto
  qed
  finally show ?case .
qed

lemma strict_routing_view_iff:
  "strict_routing_view F members t = Inr view \<longleftrightarrow>
     (\<exists>sub records. subnet_parse t = Inr sub \<and> members = JArray records \<and> list_all2 (record_is F sub) records view
        \<and> distinct (map member_name view) \<and> distinct (view_ips view) \<and> (\<exists>m\<in>set view. is_active_bus m))"
proof (cases "subnet_parse t")
  case (Inr sub)
  have start: "\<lparr>vs_view = [], vs_names = [], vs_active_ips = []\<rparr> = state_of []" by (simp add: state_of_def)
  have view: "vs_view (state_of v) = v" for v by (simp add: state_of_def)
  show ?thesis
  proof (cases members)
    case (JArray records)
    have eq: "strict_routing_view F members t = and_then (try_fold (route_member F sub) (state_of []) (enumerate 0 records))
        (\<lambda>st. if \<not> list_ex is_active_bus (vs_view st) then Inl ZeroActiveBus else Inr (vs_view st))"
      using Inr JArray by (simp add: strict_routing_view_def start)
    have fold: "try_fold (route_member F sub) (state_of []) (enumerate 0 records) = Inr st' \<longleftrightarrow>
        (\<exists>ms. list_all2 (record_is F sub) records ms \<and> distinct (map member_name ms) \<and> distinct (view_ips ms) \<and> st' = state_of ms)"
      for st' using route_members_iff [of "[]" F sub 0 records st'] by (simp add: view_ips_def)
    show ?thesis
    proof (cases "try_fold (route_member F sub) (state_of []) (enumerate 0 records)")
      case (Inl e)
      then show ?thesis using eq fold \<open>subnet_parse t = Inr sub\<close> JArray by auto
    next
      case r: (Inr st)
      then obtain ms where ms: "list_all2 (record_is F sub) records ms" "distinct (map member_name ms)"
        "distinct (view_ips ms)" "st = state_of ms" using fold by blast
      have "v = ms" if "list_all2 (record_is F sub) records v" "distinct (map member_name v)" "distinct (view_ips v)" for v
      proof -
        have "try_fold (route_member F sub) (state_of []) (enumerate 0 records) = Inr (state_of v)" using fold that by blast
        then show ?thesis using r ms(4) view by (metis sum.inject(2))
      qed
      then have "(\<exists>sub' records'. subnet_parse t = Inr sub' \<and> members = JArray records'
            \<and> list_all2 (record_is F sub') records' view \<and> distinct (map member_name view) \<and> distinct (view_ips view)
            \<and> (\<exists>m\<in>set view. is_active_bus m)) \<longleftrightarrow> view = ms \<and> (\<exists>m\<in>set ms. is_active_bus m)"
        using ms(1-3) Inr JArray by (metis json.inject(4) sum.inject(2))
      moreover have "strict_routing_view F members t = Inr view \<longleftrightarrow> view = ms \<and> (\<exists>m\<in>set ms. is_active_bus m)"
        unfolding eq r ms(4) by (auto simp: view list_ex_iff)
      ultimately show ?thesis by blast
    qed
  qed (use Inr in \<open>auto simp: strict_routing_view_def\<close>)
qed (simp add: strict_routing_view_def)

text \<open>the routing view of an inventory exists exactly when the subnet is a network in CIDR form, the
  members are a list in which every record is well formed (a valid label as name, a known status; an
  active record has a bus flag and an address inside the subnet, and a bus member a port from 1 to
  65535 if it names one), names are unique, addresses are unique among active records, and at least
  one member is an active bus member.  The view then lists what each record says, in order: no
  record is dropped.\<close>

theorem routing_view_exact:
  "strict_routing_view F members t = Inr view \<longleftrightarrow>
     (\<exists>sub records. subnet_parse t = Inr sub \<and> members = JArray records \<and> list_all2 (record_is F sub) records view
        \<and> distinct (map member_name view) \<and> distinct (view_ips view) \<and> list_ex is_active_bus view)"
  by (simp only: strict_routing_view_iff list_ex_iff)

text \<open>A parsed subnet contains an address exactly when both are of one family and agree on the
  leading bits the prefix length counts; with prefix length 0 every address of the family is inside.\<close>

theorem subnet_contains_prefix:
  assumes "subnet_parse t = Inr s"
  shows "subnet_contains s ip \<longleftrightarrow> ip_bits (sn_prefix s) ip = ip_bits (sn_prefix s) (sn_network s)"
  using subnet_contains_iff subnet_parse_network [OF assms] by blast

lemma sample_ip: "ip_parse ''::'' = Some (V6 0)"
proof -
  have rn: "read_number radix m z v s = None" if "s = [] \<or> s = ''::''" "radix \<le> 16" for radix m z v s
    using that by (auto simp: read_number_def to_digit_def)
  have v4: "read_ipv4 s = None" if "s = [] \<or> s = ''::''" for s
    using rn [OF that] by (simp add: read_ipv4_def read_octet_def read_separator_def)
  have g: "read_groups 0 (Suc n) s = ([], False, s)" if "s = [] \<or> s = ''::''" for n s
    using v4 [OF that] rn [OF that] by (simp add: read_separator_def)
  have "read_ipv6 ''::'' = Some (replicate 8 0, [])"
    using g [of "''::''" 7] g [of "[]" 6] by (simp add: read_ipv6_def read_given_char_def)
  moreover have "foldl (\<lambda>a g. a * 65536 + g) 0 (replicate k 0) = (0 :: nat)" for k by (induction k) simp_all
  ultimately show ?thesis using v4 [of "''::''"] by (simp add: ip_parse_def v6_word_def)
qed

lemma sample_subnet: "subnet_parse ''::/0'' = Inr \<lparr>sn_network = V6 0, sn_prefix = 0\<rparr>"
proof -
  have "parse_unsigned 255 ''0'' = Some 0"
    by (simp add: parse_unsigned_def is_ascii_digit_def digit_value_def)
  then show ?thesis
    by (simp add: subnet_parse_def subnet_contains_def same_family_def sample_ip)
qed

theorem subnet_contains_prefix_witness:
  "subnet_parse ''::/0'' = Inr \<lparr>sn_network = V6 0, sn_prefix = 0\<rparr> \<and> subnet_contains \<lparr>sn_network = V6 0, sn_prefix = 0\<rparr> (V6 5)"
proof
  show p: "subnet_parse ''::/0'' = Inr \<lparr>sn_network = V6 0, sn_prefix = 0\<rparr>" by (rule sample_subnet)
  show "subnet_contains \<lparr>sn_network = V6 0, sn_prefix = 0\<rparr> (V6 5)"
    using subnet_contains_prefix [OF p, of "V6 5"] by (simp add: drop_all_128)
qed

end
