(* ===== verification/Mesh_Authority.thy ===== *)
theory Mesh_Authority
  imports Mesh_Inventory Mesh_Routing Cosmix_Map
begin

text \<open>
  The authority plane of a node (\<^verbatim>\<open>cosmix-noded/src/authority.rs\<close>): loading and verifying the cached inventory,
  the persisted anti-rollback baseline and its ratchet under a file lock.  The results of the
  input and output operations are arguments; what the baseline file holds is the state.
\<close>

section \<open>Postures\<close>

definition GENESIS_KEY_ID :: string where "GENESIS_KEY_ID = ''genesis''"

record member_summary =
  ms_name :: string
  ms_mesh_ip :: string
  ms_bus :: bool
  ms_status :: string

record 'n accepted =
  ac_epoch :: nat
  ac_recovery_generation :: nat
  ac_via_recovery :: bool
  ac_mesh :: string
  ac_hash :: string
  ac_verified_by :: "string list"
  ac_verify_keys :: "(string \<times> string) list"
  ac_members :: "member_summary list"
  ac_routing_view :: "routing_member list"
  ac_members_full :: "(string, 'n json) bmap"

datatype ratchet_error =
    NoParentDirectory
  | CreateDirectoryFailed
  | OpenLockFailed
  | LockContended nat
  | LockFailed
  | FreshVerificationFailed verify_error
  | BaselineWriteFailed

datatype unverified_reason =
    NoGenesisKey
  | GenesisNotBase64
  | GenesisWrongLength nat
  | NoSignedInventory
  | MalformedInventory
  | UnusableRoutingView routing_view_error
  | RatchetFailed ratchet_error
  | VerificationFailed verify_error

datatype 'n posture = Verified "'n accepted" | Unverified unverified_reason

section \<open>The baseline\<close>

record baseline =
  bl_epoch :: nat
  bl_recovery_generation :: nat
  bl_hash :: "string option"

definition baseline_default :: baseline where
  "baseline_default = \<lparr>bl_epoch = 0, bl_recovery_generation = 0, bl_hash = None\<rparr>"

definition trust_state :: "string \<Rightarrow> baseline \<Rightarrow> node_trust_state" where
  "trust_state genesis_pub b =
     \<lparr>genesis_key_id = GENESIS_KEY_ID,
      trusted_keys = [\<lparr>tk_key_id = GENESIS_KEY_ID, tk_pubkey = genesis_pub, tk_status = StatusActive\<rparr>],
      last_epoch = bl_epoch b, last_recovery_generation = bl_recovery_generation b, last_canonical_hash = bl_hash b\<rparr>"

text \<open>serde\_json's text parser and printer, and the derived parser of a signed inventory.\<close>

record 'n text_io =
  json_from_str :: "string \<Rightarrow> 'n json option"
  json_to_string :: "'n json \<Rightarrow> string"
  parse_signed :: "string \<Rightarrow> 'n signed_inventory option"

definition read_genesis_pub :: "'n foreign \<Rightarrow> string option \<Rightarrow> (unverified_reason, string) result" where
  "read_genesis_pub F contents =
     (case contents of
        None \<Rightarrow> Inl NoGenesisKey
      | Some s \<Rightarrow>
          (case b64_decode F (trim s) of
             None \<Rightarrow> Inl GenesisNotBase64
           | Some bytes \<Rightarrow> if length bytes \<noteq> 32 then Inl (GenesisWrongLength (length bytes)) else Inr bytes))"

definition read_baseline :: "'n foreign \<Rightarrow> 'n text_io \<Rightarrow> string option \<Rightarrow> baseline" where
  "read_baseline F T contents =
     (case Option.bind contents (json_from_str T) of
        None \<Rightarrow> baseline_default
      | Some v \<Rightarrow>
          \<lparr>bl_epoch = (case Option.bind (json_get ''epoch'' v) (as_u64 F) of None \<Rightarrow> 0 | Some n \<Rightarrow> n),
           bl_recovery_generation = (case Option.bind (json_get ''recovery_generation'' v) (as_u64 F) of None \<Rightarrow> 0 | Some n \<Rightarrow> n),
           bl_hash = get_str ''hash'' v\<rparr>)"

definition baseline_text :: "'n foreign \<Rightarrow> 'n text_io \<Rightarrow> nat \<Rightarrow> nat \<Rightarrow> string \<Rightarrow> string" where
  "baseline_text F T epoch recovery_generation hash =
     json_to_string T (JObject [(''epoch'', JNumber (num_of_u64 F epoch)),
        (''recovery_generation'', JNumber (num_of_u64 F recovery_generation)), (''hash'', JString hash)]) @ [CHR 0x0A]"

text \<open>The file is replaced by a rename: a write that fails leaves the old contents or, when only the
  directory could not be synced afterwards, the new ones.\<close>

datatype write_outcome = WriteOk | WriteLost | WriteUnsynced

definition write_baseline_file ::
  "'n foreign \<Rightarrow> 'n text_io \<Rightarrow> write_outcome \<Rightarrow> nat \<Rightarrow> nat \<Rightarrow> string \<Rightarrow> string option \<Rightarrow> bool \<times> string option" where
  "write_baseline_file F T w epoch g hash old =
     (case w of
        WriteOk \<Rightarrow> (True, Some (baseline_text F T epoch g hash))
      | WriteUnsynced \<Rightarrow> (False, Some (baseline_text F T epoch g hash))
      | WriteLost \<Rightarrow> (False, old))"

section \<open>The lock\<close>











section \<open>Loading\<close>

text \<open>\<^verbatim>\<open>summarize_members\<close> and \<^verbatim>\<open>members_by_name\<close> skip a record without a string name; the map keeps the
  last record of a name.\<close>

definition members_of :: "'n json \<Rightarrow> 'n json list" where
  "members_of members = (case as_array members of None \<Rightarrow> [] | Some ms \<Rightarrow> ms)"

definition summarize_members :: "'n json \<Rightarrow> member_summary list" where
  "summarize_members members = List.map_filter (\<lambda>m. map_option (\<lambda>name.
     \<lparr>ms_name = name,
      ms_mesh_ip = (case get_str ''mesh_ip'' m of None \<Rightarrow> [] | Some s \<Rightarrow> s),
      ms_bus = (case Option.bind (json_get ''bus'' m) as_bool of None \<Rightarrow> False | Some b \<Rightarrow> b),
      ms_status = (case get_str ''status'' m of None \<Rightarrow> [] | Some s \<Rightarrow> s)\<rparr>) (get_str ''name'' m)) (members_of members)"

definition members_by_name :: "'n json \<Rightarrow> (string, 'n json) bmap" where
  "members_by_name members =
     fold (\<lambda>m acc. case get_str ''name'' m of None \<Rightarrow> acc | Some name \<Rightarrow> bm_insert name m acc) (members_of members) []"

text \<open>What the operating system answers during one load: the two files read before the lock, the
  directory, the lock file, the lock, and the write.\<close>

record load_io =
  io_genesis :: "string option"
  io_wire :: "string option"
  io_parent_ok :: bool
  io_dir_ok :: bool
  io_open_ok :: bool
  io_lock :: "(ratchet_error, unit) result"
  io_write :: write_outcome

text \<open>\<open>contents\<close> is what the baseline file holds while the lock is held; the second component is what it
  holds afterwards.\<close>

definition compare_and_ratchet_baseline ::
  "'n foreign \<Rightarrow> 'n text_io \<Rightarrow> load_io \<Rightarrow> 'n signed_inventory \<Rightarrow> string \<Rightarrow> string \<Rightarrow> string option
   \<Rightarrow> (ratchet_error, accepted_inventory) result \<times> string option" where
  "compare_and_ratchet_baseline F T io si genesis_pub canonical_hash contents =
     (if \<not> io_parent_ok io then (Inl NoParentDirectory, contents)
      else if \<not> io_dir_ok io then (Inl CreateDirectoryFailed, contents)
      else if \<not> io_open_ok io then (Inl OpenLockFailed, contents)
      else case io_lock io of
             Inl e \<Rightarrow> (Inl e, contents)
           | Inr _ \<Rightarrow>
               (case verify F si (trust_state genesis_pub (read_baseline F T contents)) of
                  Inl e \<Rightarrow> (Inl (FreshVerificationFailed e), contents)
                | Inr a \<Rightarrow>
                    (let (ok, contents') = write_baseline_file F T (io_write io) (acc_epoch a) (acc_recovery_generation a)
                                             canonical_hash contents
                     in (if ok then Inr a else Inl BaselineWriteFailed, contents'))))"

text \<open>\<open>before\<close> is what the baseline file held at the first, unlocked read.\<close>

definition load_and_verify ::
  "'n foreign \<Rightarrow> 'n text_io \<Rightarrow> load_io \<Rightarrow> string option \<Rightarrow> string option \<Rightarrow> 'n posture \<times> string option" where
  "load_and_verify F T io before contents =
     (case read_genesis_pub F (io_genesis io) of
        Inl reason \<Rightarrow> (Unverified reason, contents)
      | Inr genesis_pub \<Rightarrow>
          (case io_wire io of
             None \<Rightarrow> (Unverified NoSignedInventory, contents)
           | Some wire \<Rightarrow>
               (case parse_signed T wire of
                  None \<Rightarrow> (Unverified MalformedInventory, contents)
                | Some si \<Rightarrow>
                    (case verify F si (trust_state genesis_pub (read_baseline F T before)) of
                       Inl e \<Rightarrow> (Unverified (VerificationFailed e), contents)
                     | Inr _ \<Rightarrow>
                         let hash = canonical_blake3 F (si_payload si)
                         in (case strict_routing_view F (ip_members (si_payload si)) (ip_subnet (si_payload si)) of
                               Inl e \<Rightarrow> (Unverified (UnusableRoutingView e), contents)
                             | Inr view \<Rightarrow>
                                 (case compare_and_ratchet_baseline F T io si genesis_pub hash contents of
                                    (Inl e, contents') \<Rightarrow> (Unverified (RatchetFailed e), contents')
                                  | (Inr a, contents') \<Rightarrow>
                                      (Verified
                                         \<lparr>ac_epoch = acc_epoch a, ac_recovery_generation = acc_recovery_generation a,
                                          ac_via_recovery = acc_via_recovery a, ac_mesh = ip_mesh (si_payload si),
                                          ac_hash = hash, ac_verified_by = acc_verified_by a,
                                          ac_verify_keys = map (\<lambda>k. (vk_key_id k, key_status_str (vk_status k))) (acc_adopt_verify_keys a),
                                          ac_members = summarize_members (ip_members (si_payload si)),
                                          ac_routing_view = view,
                                          ac_members_full = members_by_name (ip_members (si_payload si))\<rparr>,
                                       contents')))))))"

end
