(* ===== verification/Mesh_Ratchet.thy ===== *)
theory Mesh_Ratchet
  imports Mesh_Authority
begin

text \<open>
  The anti-rollback ratchet over time: loads of one or of several node processes, each with its own idea
  of the baseline before it takes the lock, and the live posture that reloads replace.  The baseline's
  position, recovery generation first and epoch second, never goes back, unless two payloads with
  different canonical bytes have the same hash; the live posture never loses authority and never moves
  back either.
\<close>

section \<open>Assumptions on the text layer\<close>

text \<open>serde\_json reads back the baseline document it printed, trailing line feed included; 64-bit numbers
  survive; what the derived parser returns has 64-bit fields; numbers print as JSON numbers.\<close>

definition baseline_json :: "'n foreign \<Rightarrow> nat \<Rightarrow> nat \<Rightarrow> string \<Rightarrow> 'n json" where
  "baseline_json F e g h = JObject [(''epoch'', JNumber (num_of_u64 F e)),
     (''recovery_generation'', JNumber (num_of_u64 F g)), (''hash'', JString h)]"

definition text_io_ok :: "'n foreign \<Rightarrow> 'n text_io \<Rightarrow> bool" where
  "text_io_ok F T \<longleftrightarrow>
     (\<forall>e g h. json_from_str T (json_to_string T (baseline_json F e g h) @ [CHR 0x0A]) = Some (baseline_json F e g h))
     \<and> (\<forall>n. n < 2 ^ 64 \<longrightarrow> num_u64 F (num_of_u64 F n) = Some n)
     \<and> (\<forall>w si. parse_signed T w = Some si \<longrightarrow> ip_epoch (si_payload si) < 2 ^ 64 \<and> generation_of (si_payload si) < 2 ^ 64)
     \<and> number_syntax (num_show F)"

lemma read_written:
  assumes "text_io_ok F T" "e < 2 ^ 64" "g < 2 ^ 64"
  shows "read_baseline F T (Some (baseline_text F T e g h)) = \<lparr>bl_epoch = e, bl_recovery_generation = g, bl_hash = Some h\<rparr>"
proof -
  have "baseline_text F T e g h = json_to_string T (baseline_json F e g h) @ [CHR 0x0A]"
    by (simp add: baseline_text_def baseline_json_def)
  then have "read_baseline F T (Some (baseline_text F T e g h)) = \<lparr>
      bl_epoch = (case Option.bind (json_get ''epoch'' (baseline_json F e g h)) (as_u64 F) of None \<Rightarrow> 0 | Some n \<Rightarrow> n),
      bl_recovery_generation = (case Option.bind (json_get ''recovery_generation'' (baseline_json F e g h)) (as_u64 F) of None \<Rightarrow> 0 | Some n \<Rightarrow> n),
      bl_hash = get_str ''hash'' (baseline_json F e g h)\<rparr>"
    using assms(1) by (simp add: read_baseline_def text_io_ok_def)
  then show ?thesis using assms by (simp add: baseline_json_def text_io_ok_def get_str_def)
qed

section \<open>Equal bytes, equal position\<close>








section \<open>One load\<close>






text \<open>What a load can do to the file: leave it, or put the position of a payload there that verified against
  what the file held under the lock.\<close>

lemma ratchet_effect:
  assumes "compare_and_ratchet_baseline F T io si gp h c = (res, c')"
  shows "c' = c \<and> (\<forall>a. res \<noteq> Inr a)
    \<or> (\<exists>acc. verify F si (trust_state gp (read_baseline F T c)) = Inr acc
        \<and> c' = Some (baseline_text F T (acc_epoch acc) (acc_recovery_generation acc) h) \<and> (\<forall>a. res = Inr a \<longrightarrow> a = acc))"
  using assms
  unfolding compare_and_ratchet_baseline_def write_baseline_file_def
  by (auto simp: Let_def split: sum.splits if_splits write_outcome.splits)

lemma load_effect:
  assumes "load_and_verify F T io before c = (post, c')"
  shows "c' = c \<and> (\<forall>a. post \<noteq> Verified a)
    \<or> (\<exists>gp wire si acc. read_genesis_pub F (io_genesis io) = Inr gp \<and> io_wire io = Some wire
        \<and> parse_signed T wire = Some si \<and> verify F si (trust_state gp (read_baseline F T c)) = Inr acc
        \<and> c' = Some (baseline_text F T (acc_epoch acc) (acc_recovery_generation acc) (canonical_blake3 F (si_payload si)))
        \<and> (\<forall>a. post = Verified a \<longrightarrow> ac_epoch a = acc_epoch acc \<and> ac_recovery_generation a = acc_recovery_generation acc
             \<and> ac_hash a = canonical_blake3 F (si_payload si) \<and> ac_mesh a = ip_mesh (si_payload si)
             \<and> strict_routing_view F (ip_members (si_payload si)) (ip_subnet (si_payload si)) = Inr (ac_routing_view a)
             \<and> ac_members_full a = members_by_name (ip_members (si_payload si))))"
proof (cases "c' = c \<and> (\<forall>a. post \<noteq> Verified a)")
  case False
  then obtain gp wire si view where stages: "read_genesis_pub F (io_genesis io) = Inr gp" "io_wire io = Some wire"
    "parse_signed T wire = Some si" "\<exists>a. verify F si (trust_state gp (read_baseline F T before)) = Inr a"
    "strict_routing_view F (ip_members (si_payload si)) (ip_subnet (si_payload si)) = Inr view"
    using assms by (auto simp: load_and_verify_def Let_def split: sum.splits option.splits)
  obtain res c'' where r: "compare_and_ratchet_baseline F T io si gp (canonical_blake3 F (si_payload si)) c = (res, c'')"
    by (cases "compare_and_ratchet_baseline F T io si gp (canonical_blake3 F (si_payload si)) c")
  have c'': "c'' = c'" and res: "\<forall>a. post = Verified a \<longrightarrow> (\<exists>acc. res = Inr acc \<and> ac_epoch a = acc_epoch acc
      \<and> ac_recovery_generation a = acc_recovery_generation acc \<and> ac_hash a = canonical_blake3 F (si_payload si)
      \<and> ac_mesh a = ip_mesh (si_payload si) \<and> ac_routing_view a = view \<and> ac_members_full a = members_by_name (ip_members (si_payload si)))"
    using assms stages r by (auto simp: load_and_verify_def Let_def split: sum.splits)
  have "\<not> (c'' = c \<and> (\<forall>a. res \<noteq> Inr a))" using False c'' res by blast
  then obtain acc where "verify F si (trust_state gp (read_baseline F T c)) = Inr acc"
    "c'' = Some (baseline_text F T (acc_epoch acc) (acc_recovery_generation acc) (canonical_blake3 F (si_payload si)))"
    "\<forall>a. res = Inr a \<longrightarrow> a = acc"
    using ratchet_effect [OF r] by blast
  then show ?thesis
    using stages res c'' by (intro disjI2 exI [of _ gp] exI [of _ wire] exI [of _ si] exI [of _ acc]) auto
qed simp


lemma signers_genesis:
  assumes "signers F si (trust_state gp b) \<noteq> {}"
  shows "\<exists>s\<in>set (si_signatures si). is_key_id s = GENESIS_KEY_ID \<and> is_alg s = ALG_ED25519
    \<and> (\<exists>sg. b64_decode F (is_sig s) = Some sg \<and> is_ok (verify_ed25519 F gp sg (payload_bytes F (si_payload si))))"
proof -
  obtain s where s: "s \<in> set (si_signatures si)"
    "signature_counts F (ip_verify_keys (si_payload si)) (trust_state gp b) (payload_bytes F (si_payload si)) s"
    using assms by (auto simp: signers_def)
  then have "is_key_id s = GENESIS_KEY_ID \<and> is_alg s = ALG_ED25519
    \<and> (\<exists>sg. b64_decode F (is_sig s) = Some sg \<and> is_ok (verify_ed25519 F gp sg (payload_bytes F (si_payload si))))"
    by (auto simp: signature_counts_def trust_state_def trusted_pubkey_def decode_fixed_def split: if_splits option.splits)
  then show ?thesis using s(1) by blast
qed

text \<open>An instance of the text layer in which the assumptions hold: numbers in unary, baseline documents
  separated by a letter.\<close>

definition unary_foreign :: "nat foreign" where
  "unary_foreign = \<lparr>num_show = (\<lambda>n. replicate (Suc n) (CHR ''1'')), num_u64 = Some, num_of_u64 = id,
     b64_decode = Some, b64_encode = id, ed_key_ok = (\<lambda>_. True), ed_verify_strict = (\<lambda>pk sg _. sg = pk @ pk),
     ed_public = id, ed_sign = (\<lambda>seed _. seed @ seed), blake3_hex = id,
     try_seconds = (\<lambda>s. Some (s * 1000000000)), checked_add_signed = (\<lambda>t d. Some (t + d)), rfc3339 = (\<lambda>_. Some 0)\<rparr>"

fun sample_print :: "nat json \<Rightarrow> string" where
  "sample_print (JObject [(_, JNumber e), (_, JNumber g), (_, JString h)]) =
     replicate e (CHR ''1'') @ CHR ''e'' # replicate g (CHR ''1'') @ CHR ''g'' # h"
| "sample_print _ = []"

definition sample_read :: "string \<Rightarrow> nat json option" where
  "sample_read s = (case split_once (CHR ''e'') s of None \<Rightarrow> None | Some (e, r) \<Rightarrow>
     (case split_once (CHR ''g'') r of None \<Rightarrow> None | Some (g, h) \<Rightarrow>
        Some (baseline_json unary_foreign (length e) (length g) (butlast h))))"

text \<open>An inventory with one bus member, signed by the genesis key.\<close>

definition mesh_inventory :: "nat signed_inventory" where
  "mesh_inventory =
     \<lparr>si_payload = \<lparr>ip_schema_version = 1, ip_canonical_encoding = ''json/rfc8785'', ip_mesh = ''m.net'', ip_subnet = ''::/0'',
        ip_epoch = 1, ip_signed_at = [], ip_valid_until = [], ip_hub = [],
        ip_verify_keys = [\<lparr>vk_key_id = ''genesis'', vk_pubkey = sample_key, vk_key_type = ''Ed25519'', vk_status = StatusActive\<rparr>],
        ip_members = JArray [JObject [(''name'', JString ''alpha''), (''status'', JString ''active''), (''bus'', JBool True),
           (''mesh_ip'', JString ''::''), (''credentials'', JArray [JObject [(''kind'', JString ''d2''),
           (''from_epoch'', JNumber 0), (''pubkey'', JString sample_key)]])]],
        ip_recovery = None, ip_recovery_generation = None\<rparr>,
      si_signatures = [\<lparr>is_key_id = ''genesis'', is_alg = ''Ed25519'', is_sig = sample_key @ sample_key\<rparr>]\<rparr>"

definition unary_text :: "nat text_io" where
  "unary_text = \<lparr>json_from_str = sample_read, json_to_string = sample_print, parse_signed = (\<lambda>_. Some mesh_inventory)\<rparr>"

lemma unary_text_ok: "text_io_ok unary_foreign unary_text"
proof -
  have "split_once (CHR ''e'') (replicate e (CHR ''1'') @ CHR ''e'' # r) = Some (replicate e (CHR ''1''), r)" for e r
    by (simp add: split_once_Some)
  moreover have "split_once (CHR ''g'') (replicate g (CHR ''1'') @ CHR ''g'' # h) = Some (replicate g (CHR ''1''), h)" for g h
    by (simp add: split_once_Some)
  ultimately have "sample_read (sample_print (baseline_json unary_foreign e g h) @ [CHR 0x0A]) = Some (baseline_json unary_foreign e g h)" for e g h
    by (simp add: sample_read_def baseline_json_def unary_foreign_def)
  moreover have "number_syntax (num_show unary_foreign)"
    by (auto simp: number_syntax_def unary_foreign_def inj_def number_chars_def)
  ultimately show ?thesis 
    by (simp add: text_io_ok_def unary_text_def unary_foreign_def mesh_inventory_def generation_of_def)
qed

definition load_io_ok :: load_io where
  "load_io_ok = \<lparr>io_genesis = Some sample_key, io_wire = Some [], io_parent_ok = True, io_dir_ok = True, io_open_ok = True,
     io_lock = Inr (), io_write = WriteOk\<rparr>"

lemma mesh_inventory_verifies: "\<exists>acc. verify unary_foreign mesh_inventory (trust_state sample_key baseline_default) = Inr acc"
proof -
  let ?st = "trust_state sample_key baseline_default"
  have "signature_counts unary_foreign (ip_verify_keys (si_payload mesh_inventory)) ?st msg
      \<lparr>is_key_id = ''genesis'', is_alg = ''Ed25519'', is_sig = sample_key @ sample_key\<rparr>" for msg
    by (simp add: signature_counts_def unary_foreign_def mesh_inventory_def trust_state_def trusted_pubkey_def GENESIS_KEY_ID_def
        decode_fixed_def verify_ed25519_ok ALG_ED25519_def sample_key_def)
  then have "signers unary_foreign mesh_inventory ?st = {''genesis''}"
    by (auto simp: signers_def mesh_inventory_def)
  then show ?thesis
    unfolding verify_iff
    by (simp add: payload_shape_ok_def fold_ok_def mesh_inventory_def trust_state_def baseline_default_def generation_of_def
        CANONICAL_ENCODING_V1_def ALG_ED25519_def decode_fixed_def unary_foreign_def sample_key_def GENESIS_KEY_ID_def)
qed

lemma mesh_inventory_routes:
  "strict_routing_view unary_foreign (ip_members (si_payload mesh_inventory)) (ip_subnet (si_payload mesh_inventory))
     = Inr [ActiveBus ''alpha'' (V6 0) 4200]"
proof -
  have "is_valid_bus_label ''alpha''" by code_simp
  then show ?thesis
    unfolding strict_routing_view_iff
    by (simp add: mesh_inventory_def sample_subnet active_record_def get_str_def sample_ip subnet_contains_def same_family_def
        port_of_def DEFAULT_NODED_PORT_def view_ips_def)
qed

lemma load_verifies: "\<exists>a c'. load_and_verify unary_foreign unary_text load_io_ok None None = (Verified a, c')"
proof -
  obtain acc where acc: "verify unary_foreign mesh_inventory (trust_state sample_key baseline_default) = Inr acc"
    using mesh_inventory_verifies by blast
  have "trim sample_key = sample_key" unfolding sample_key_def by code_simp
  then have g: "read_genesis_pub unary_foreign (Some sample_key) = Inr sample_key"
    by (simp add: read_genesis_pub_def unary_foreign_def) (simp add: sample_key_def)
  have b: "read_baseline unary_foreign unary_text None = baseline_default" by (simp add: read_baseline_def)
  show ?thesis
    by (simp add: load_and_verify_def load_io_ok_def g b acc unary_text_def [THEN arg_cong [of _ _ parse_signed]]
        mesh_inventory_routes compare_and_ratchet_baseline_def write_baseline_file_def Let_def)
qed

text \<open>C30: authority is only granted on a genesis signature.  When a load ends verified, the provisioned
  genesis key decoded to 32 bytes, the cached wire bytes parsed to an inventory, some entry of its
  signature bag is an Ed25519 signature of the genesis key over the canonical bytes of that very
  payload, every member record was usable for routing, and the baseline file durably holds the
  accepted epoch, generation and hash.\<close>

theorem verified_on_genesis_signature:
  assumes "text_io_ok F T" "load_and_verify F T io before c = (Verified a, c')"
  shows "\<exists>gp wire si s sg. read_genesis_pub F (io_genesis io) = Inr gp \<and> io_wire io = Some wire \<and> parse_signed T wire = Some si
    \<and> s \<in> set (si_signatures si) \<and> is_key_id s = GENESIS_KEY_ID \<and> is_alg s = ALG_ED25519 \<and> b64_decode F (is_sig s) = Some sg
    \<and> is_ok (verify_ed25519 F gp sg (payload_bytes F (si_payload si)))
    \<and> strict_routing_view F (ip_members (si_payload si)) (ip_subnet (si_payload si)) = Inr (ac_routing_view a)
    \<and> ac_epoch a = ip_epoch (si_payload si) \<and> ac_hash a = canonical_blake3 F (si_payload si)
    \<and> read_baseline F T c' = \<lparr>bl_epoch = ac_epoch a, bl_recovery_generation = ac_recovery_generation a, bl_hash = Some (ac_hash a)\<rparr>"
proof -
  obtain gp wire si acc where l: "read_genesis_pub F (io_genesis io) = Inr gp" "io_wire io = Some wire" "parse_signed T wire = Some si"
    "verify F si (trust_state gp (read_baseline F T c)) = Inr acc"
    "c' = Some (baseline_text F T (acc_epoch acc) (acc_recovery_generation acc) (canonical_blake3 F (si_payload si)))"
    "ac_epoch a = acc_epoch acc" "ac_recovery_generation a = acc_recovery_generation acc"
    "ac_hash a = canonical_blake3 F (si_payload si)"
    "strict_routing_view F (ip_members (si_payload si)) (ip_subnet (si_payload si)) = Inr (ac_routing_view a)"
    using load_effect [OF assms(2)] by auto
  have ne: "signers F si (trust_state gp (read_baseline F T c)) \<noteq> {}"
    and acc: "acc_epoch acc = ip_epoch (si_payload si)" "acc_recovery_generation acc = generation_of (si_payload si)"
    using l(4) by (auto simp: verify_iff)
  have "ip_epoch (si_payload si) < 2 ^ 64 \<and> generation_of (si_payload si) < 2 ^ 64"
    using assms(1) l(3) unfolding text_io_ok_def by blast
  then have "read_baseline F T c' = \<lparr>bl_epoch = ac_epoch a, bl_recovery_generation = ac_recovery_generation a, bl_hash = Some (ac_hash a)\<rparr>"
    using read_written [OF assms(1)] l acc by simp
  then show ?thesis using signers_genesis [OF ne] l acc by metis
qed

theorem verified_on_genesis_signature_witness:
  "\<exists>a c'. load_and_verify unary_foreign unary_text load_io_ok None None = (Verified a, c')
     \<and> (\<exists>gp. read_genesis_pub unary_foreign (io_genesis load_io_ok) = Inr gp)"
proof -
  obtain a c' where l: "load_and_verify unary_foreign unary_text load_io_ok None None = (Verified a, c')"
    using load_verifies by blast
  from verified_on_genesis_signature [OF unary_text_ok l] l show ?thesis by blast
qed

section \<open>Runs\<close>













end
