(* ===== verification/Mesh_Challenge.thy ===== *)
theory Mesh_Challenge
  imports Mesh_Admission Mesh_Ratchet Bus_Wire
begin

text \<open>
  The admission handshake as the broker and the connecting node run it: the table of outstanding
  challenges and the reconstruction of the proof (\<^verbatim>\<open>cosmix-noded/src/admission.rs\<close>), the node's answer
  (\<^verbatim>\<open>cosmix-lib-mesh/src/peer.rs\<close>), the handling of a response, the per-session record and the gate at
  registration (\<^verbatim>\<open>cosmix-noded/src/noded.rs\<close>).  Random bytes and instants, in nanoseconds, are arguments.
  The events and log lines are left out; the panic of a transcript field of \<open>2 ^ 32\<close> bytes, which no
  frame within the limits of the bus can carry, appears as the detail \<^verbatim>\<open>panic\<close>.
\<close>

section \<open>The challenge table\<close>

definition ORIGIN_ONLY_ZERO :: string where "ORIGIN_ONLY_ZERO = replicate 32 (CHR 0x00)"
definition MAX_OUTSTANDING :: nat where "MAX_OUTSTANDING = 4096"
definition CHALLENGE_TTL :: nat where "CHALLENGE_TTL = 10000000000"

record outstanding_challenge =
  oc_session_id :: string
  oc_server_nonce :: string
  oc_epoch :: nat
  oc_issued_at :: nat

record challenge_table =
  ct_map :: "(string, outstanding_challenge) bmap"
  ct_next_id :: nat

definition challenge_table_new :: challenge_table where
  "challenge_table_new = \<lparr>ct_map = [], ct_next_id = 1\<rparr>"

text \<open>Decimal printing of an unsigned integer.\<close>

fun dec :: "nat \<Rightarrow> string" where
  "dec n = (if n < 10 then [char_of (48 + n)] else dec (n div 10) @ [char_of (48 + n mod 10)])"

declare dec.simps [simp del]

definition challenge_id :: "nat \<Rightarrow> string" where
  "challenge_id n = ''adm-'' @ dec n"

definition challenge_body :: "'n foreign \<Rightarrow> string \<Rightarrow> string \<Rightarrow> nat \<Rightarrow> string \<Rightarrow> string \<Rightarrow> 'n json" where
  "challenge_body F mesh_fqdn broker epoch session_id server_nonce = JObject
     [(''admit_version'', JString ADMIT_DOMAIN_V1), (''mesh_fqdn'', JString mesh_fqdn),
      (''verifying_broker_node'', JString broker), (''inventory_epoch'', JNumber (num_of_u64 F epoch)),
      (''session_id'', JString (b64_encode F session_id)), (''server_nonce'', JString (b64_encode F server_nonce)),
      (''profile'', JString ''origin-only'')]"

text \<open>\<^verbatim>\<open>issue\<close>, with the 16 and 32 random bytes and the instant it reads; the counter wraps at \<open>2 ^ 64\<close>.\<close>

definition issue ::
  "'n foreign \<Rightarrow> 'n text_io \<Rightarrow> string \<Rightarrow> string \<Rightarrow> nat \<Rightarrow> nat \<Rightarrow> string \<Rightarrow> string \<Rightarrow> challenge_table
   \<Rightarrow> challenge_table \<times> (string \<times> string) option" where
  "issue F T session_id server_nonce now epoch mesh_fqdn broker t =
     (let n = ct_next_id t;
          id' = challenge_id n;
          m = bm_retain (\<lambda>_ c. now - oc_issued_at c < CHALLENGE_TTL) (ct_map t);
          next' = (n + 1) mod 2 ^ 64
      in if MAX_OUTSTANDING \<le> length m then (\<lparr>ct_map = m, ct_next_id = next'\<rparr>, None)
         else (\<lparr>ct_map = bm_insert id' \<lparr>oc_session_id = session_id, oc_server_nonce = server_nonce, oc_epoch = epoch, oc_issued_at = now\<rparr> m,
                ct_next_id = next'\<rparr>,
               Some (id', json_to_string T (challenge_body F mesh_fqdn broker epoch session_id server_nonce))))"

definition take_challenge :: "nat \<Rightarrow> string \<Rightarrow> challenge_table \<Rightarrow> challenge_table \<times> outstanding_challenge option" where
  "take_challenge now id' t =
     (case bm_get (ct_map t) id' of
        None \<Rightarrow> (t, None)
      | Some c \<Rightarrow> (t\<lparr>ct_map := bm_remove id' (ct_map t)\<rparr>, if CHALLENGE_TTL \<le> now - oc_issued_at c then None else Some c))"

definition reap :: "string \<Rightarrow> challenge_table \<Rightarrow> challenge_table" where
  "reap id' t = t\<lparr>ct_map := bm_remove id' (ct_map t)\<rparr>"

section \<open>Proofs\<close>

record reconstructed_proof =
  rp_transcript :: admission_transcript
  rp_claimed_source_node :: string
  rp_signature :: string

datatype wire_error = WireMalformed

definition decode_b64 :: "'n foreign \<Rightarrow> 'n json \<Rightarrow> string \<Rightarrow> (wire_error, string) result" where
  "decode_b64 F body field = ok_or WireMalformed (Option.bind (get_str field body) (b64_decode F))"

definition origin_transcript :: "outstanding_challenge \<Rightarrow> string \<Rightarrow> string \<Rightarrow> string \<Rightarrow> admission_transcript" where
  "origin_transcript c mesh_fqdn broker claimed =
     \<lparr>at_mesh_fqdn = mesh_fqdn, at_claimed_source_node = claimed, at_verifying_broker_node = broker,
      at_inventory_epoch = oc_epoch c, at_session_id = oc_session_id c, at_server_nonce = oc_server_nonce c,
      at_client_ephemeral = ORIGIN_ONLY_ZERO, at_channel_binding_hash = ORIGIN_ONLY_ZERO\<rparr>"

definition reconstruct_proof ::
  "'n foreign \<Rightarrow> outstanding_challenge \<Rightarrow> 'n json \<Rightarrow> string \<Rightarrow> string \<Rightarrow> (wire_error, reconstructed_proof) result" where
  "reconstruct_proof F challenge body mesh_fqdn broker =
     and_then (ok_or WireMalformed (get_str ''claimed_source_node'' body)) (\<lambda>claimed.
     and_then (decode_b64 F body ''signature'') (\<lambda>signature.
     and_then (decode_b64 F body ''client_ephemeral'') (\<lambda>client_ephemeral.
     and_then (decode_b64 F body ''channel_binding_hash'') (\<lambda>channel_binding_hash.
       if client_ephemeral \<noteq> ORIGIN_ONLY_ZERO \<or> channel_binding_hash \<noteq> ORIGIN_ONLY_ZERO then Inl WireMalformed
       else Inr \<lparr>rp_transcript =
                   \<lparr>at_mesh_fqdn = mesh_fqdn, at_claimed_source_node = claimed, at_verifying_broker_node = broker,
                    at_inventory_epoch = oc_epoch challenge, at_session_id = oc_session_id challenge,
                    at_server_nonce = oc_server_nonce challenge, at_client_ephemeral = client_ephemeral,
                    at_channel_binding_hash = channel_binding_hash\<rparr>,
                 rp_claimed_source_node = claimed, rp_signature = signature\<rparr>))))"

fun verdict_detail :: "admission_error \<Rightarrow> string" where
  "verdict_detail (SourceTombstoned _) = ''source-tombstoned''"
| "verdict_detail (SourceBusFalse _) = ''source-bus-false''"
| "verdict_detail (NameMismatch _ _) = ''name-mismatch''"
| "verdict_detail (EpochMismatch _ _) = ''epoch-mismatch''"
| "verdict_detail (NoCurrentD2Credential _) = ''no-current-d2-credential''"
| "verdict_detail (BadCredentialSignature _) = ''bad-credential-signature''"
| "verdict_detail (MalformedMember _) = ''malformed-member''"
| "verdict_detail TranscriptPanic = ''panic''"

section \<open>The connecting node\<close>

definition response_body :: "'n foreign \<Rightarrow> string \<Rightarrow> nat \<Rightarrow> string \<Rightarrow> 'n json" where
  "response_body F node_name epoch sig = JObject
     [(''claimed_source_node'', JString node_name), (''signed_epoch'', JNumber (num_of_u64 F epoch)),
      (''signature'', JString (b64_encode F sig)), (''client_ephemeral'', JString (b64_encode F ORIGIN_ONLY_ZERO)),
      (''channel_binding_hash'', JString (b64_encode F ORIGIN_ONLY_ZERO))]"

text \<open>The transcript as the node reads it from the challenge; \<open>None\<close> when a field is missing.\<close>

definition challenged_transcript :: "'n foreign \<Rightarrow> 'n json \<Rightarrow> string \<Rightarrow> admission_transcript option" where
  "challenged_transcript F body node_name =
     Option.bind (get_str ''mesh_fqdn'' body) (\<lambda>mesh.
     Option.bind (get_str ''verifying_broker_node'' body) (\<lambda>broker.
     Option.bind (Option.bind (json_get ''inventory_epoch'' body) (as_u64 F)) (\<lambda>epoch.
     Option.bind (Option.bind (get_str ''session_id'' body) (b64_decode F)) (\<lambda>session_id.
     Option.bind (Option.bind (get_str ''server_nonce'' body) (b64_decode F)) (\<lambda>server_nonce.
       Some \<lparr>at_mesh_fqdn = mesh, at_claimed_source_node = node_name, at_verifying_broker_node = broker,
             at_inventory_epoch = epoch, at_session_id = session_id, at_server_nonce = server_nonce,
             at_client_ephemeral = ORIGIN_ONLY_ZERO, at_channel_binding_hash = ORIGIN_ONLY_ZERO\<rparr>)))))"

text \<open>The outer \<open>None\<close> is the panic of an oversized transcript field.\<close>

definition build_admit_response ::
  "'n foreign \<Rightarrow> 'n text_io \<Rightarrow> bus_message \<Rightarrow> string \<Rightarrow> string option \<Rightarrow> string option option" where
  "build_admit_response F T challenge node_name d2_seed =
     (case (d2_seed, message_get challenge ''id'', json_from_str T (msg_body challenge)) of
        (Some seed, Some id', Some body) \<Rightarrow>
          (case challenged_transcript F body node_name of
             None \<Rightarrow> Some None
           | Some transcript \<Rightarrow>
               (case sign_admission_transcript F seed transcript of
                  None \<Rightarrow> None
                | Some (Inl _) \<Rightarrow> Some None
                | Some (Inr sig) \<Rightarrow>
                    Some (Some (to_wire (with_body
                      (with_header (with_header (with_header (with_header (with_header message_new
                         ''command'' ''noded.admit.response'') ''type'' ''response'') ''from'' (''bridge-'' @ node_name))
                         ''to'' ''noded'') ''id'' id')
                      (json_to_string T (response_body F node_name (at_inventory_epoch transcript) sig)))))))
      | _ \<Rightarrow> Some None)"

section \<open>The broker\<close>

definition challenge_frame :: "string \<Rightarrow> string \<times> string \<Rightarrow> bus_message" where
  "challenge_frame node_name issued = with_body
     (with_header (with_header (with_header (with_header message_new
        ''command'' ''noded.admit.challenge'') ''type'' ''request'') ''from'' node_name) ''id'' (fst issued)) (snd issued)"

datatype admit_outcome = OutcomeAdmit string | OutcomeRefuse string

record session_admission =
  sa_admitted_node :: "string option"
  sa_last_detail :: "string option"
  sa_response_seen :: bool

definition session_admission_default :: session_admission where
  "session_admission_default = \<lparr>sa_admitted_node = None, sa_last_detail = None, sa_response_seen = False\<rparr>"

definition apply_outcome :: "admit_outcome \<Rightarrow> session_admission \<Rightarrow> session_admission" where
  "apply_outcome outcome s =
     (case outcome of
        OutcomeAdmit node \<Rightarrow> s\<lparr>sa_response_seen := True, sa_admitted_node := Some node\<rparr>
      | OutcomeRefuse detail \<Rightarrow> s\<lparr>sa_response_seen := True, sa_admitted_node := None, sa_last_detail := Some detail\<rparr>)"

text \<open>\<^verbatim>\<open>process_admit_response\<close>: the events it emits are not part of the state.\<close>

definition process_admit_response ::
  "'n foreign \<Rightarrow> 'n text_io \<Rightarrow> string \<Rightarrow> 'n posture \<Rightarrow> nat \<Rightarrow> bus_message \<Rightarrow> string option \<Rightarrow> challenge_table
   \<Rightarrow> challenge_table \<times> admit_outcome option" where
  "process_admit_response F T node_name posture now msg own_challenge_id t =
     (case message_get msg ''id'' of
        None \<Rightarrow> (t, None)
      | Some id' \<Rightarrow>
          if own_challenge_id \<noteq> Some id' then (t, Some (OutcomeRefuse ''stale-or-replayed-challenge''))
          else (case take_challenge now id' t of
                  (t', None) \<Rightarrow> (t', Some (OutcomeRefuse ''stale-or-replayed-challenge''))
                | (t', Some challenge) \<Rightarrow>
                    (t', Some (case posture of
                       Unverified _ \<Rightarrow> OutcomeRefuse ''no-verified-trust-root''
                     | Verified a \<Rightarrow>
                         let body = (case json_from_str T (msg_body msg) of None \<Rightarrow> JNull | Some v \<Rightarrow> v)
                         in (case reconstruct_proof F challenge body (ac_mesh a) node_name of
                               Inl _ \<Rightarrow> OutcomeRefuse ''malformed-response''
                             | Inr proof \<Rightarrow>
                                 (case bm_get (ac_members_full a) (rp_claimed_source_node proof) of
                                    None \<Rightarrow> OutcomeRefuse ''no-current-d2-credential''
                                  | Some member \<Rightarrow>
                                      (case admit F member (rp_transcript proof) (rp_signature proof) (ac_epoch a) of
                                         Inr _ \<Rightarrow> OutcomeAdmit (rp_claimed_source_node proof)
                                       | Inl e \<Rightarrow> OutcomeRefuse (verdict_detail e))))))))"

section \<open>The gate\<close>

datatype admission_mode = Off | Observe | Enforce

definition bind_is_wg :: "string \<Rightarrow> string \<Rightarrow> bool" where
  "bind_is_wg bind_text wg_ip =
     (case socket_ip bind_text of
        None \<Rightarrow> False
      | Some ip \<Rightarrow> if is_unspecified ip then False
                   else (case ip_parse wg_ip of Some wg \<Rightarrow> ip = wg | None \<Rightarrow> False))"

definition enforce_refuses_all :: "admission_mode \<Rightarrow> bool \<Rightarrow> bool \<Rightarrow> string option" where
  "enforce_refuses_all configured wg_bound verified =
     (if configured \<noteq> Enforce then None
      else if \<not> verified then Some ''no-verified-trust-root''
      else if \<not> wg_bound then Some ''non-wg-bind''
      else None)"

definition admission_effective :: "admission_mode \<Rightarrow> bool \<Rightarrow> bool \<Rightarrow> string \<times> string" where
  "admission_effective configured wg_bound verified =
     (case configured of
        Off \<Rightarrow> (''off'', [])
      | Observe \<Rightarrow> (''observe'', [])
      | Enforce \<Rightarrow> (case enforce_refuses_all configured wg_bound verified of
                     Some reason \<Rightarrow> (''refuse-all'', reason)
                   | None \<Rightarrow> (''enforce'', [])))"

definition is_same_node_origin :: "ip_addr \<Rightarrow> string \<Rightarrow> bool" where
  "is_same_node_origin src bind_text \<longleftrightarrow> is_loopback src \<or> socket_ip bind_text = Some src"

datatype register_gate = Ungated | GateAdmit string | GateRefuse string string bool

definition register_gate_decision ::
  "ip_addr \<Rightarrow> string \<Rightarrow> admission_mode \<Rightarrow> bool \<Rightarrow> bool \<Rightarrow> string \<Rightarrow> session_admission \<Rightarrow> register_gate" where
  "register_gate_decision source_ip bind_text configured wg_bound verified sender adm =
     (if configured \<noteq> Enforce then Ungated
      else if is_same_node_origin source_ip bind_text then Ungated
      else
        let synth = (\<not> sa_response_seen adm);
            claimed = strip_prefix ''bridge-'' sender;
            source_node = (case claimed of None \<Rightarrow> sender | Some c \<Rightarrow> c)
        in case enforce_refuses_all configured wg_bound verified of
             Some reason \<Rightarrow> GateRefuse reason source_node synth
           | None \<Rightarrow>
               (case claimed of
                  None \<Rightarrow> GateRefuse ''no-proof'' source_node synth
                | Some c \<Rightarrow>
                    if sa_admitted_node adm = Some c then GateAdmit c
                    else if \<not> sa_response_seen adm then GateRefuse ''no-proof'' source_node synth
                    else if sa_admitted_node adm \<noteq> None then GateRefuse ''name-mismatch'' source_node synth
                    else GateRefuse (case sa_last_detail adm of None \<Rightarrow> ''no-proof'' | Some d \<Rightarrow> d) source_node synth))"

definition reload_revoke_detail :: "'n foreign \<Rightarrow> 'n json option \<Rightarrow> nat \<Rightarrow> string option" where
  "reload_revoke_detail F member new_epoch =
     (case member of
        None \<Rightarrow> Some ''source-tombstoned''
      | Some m \<Rightarrow>
          if get_str ''status'' m \<noteq> Some ''active'' then Some ''source-tombstoned''
          else if Option.bind (json_get ''bus'' m) as_bool \<noteq> Some True then Some ''source-bus-false''
          else if select_d2_pubkeys F m new_epoch = [] then Some ''no-current-d2-credential''
          else None)"

end
