(* ===== verification/Mesh_Handshake.thy ===== *)
theory Mesh_Handshake
  imports Mesh_Challenge
begin

text \<open>
  What the admission handshake guarantees: challenges are bounded, fresh and used at most once; a session
  from another node that the gate lets register as a bridge has proved, by a signature over the
  challenge issued on its own socket, that it holds a current credential of the member it registers as;
  and a node that holds such a credential is admitted.
\<close>

section \<open>Challenge identifiers\<close>

definition undec :: "string \<Rightarrow> nat" where
  "undec s = foldl (\<lambda>a c. a * 10 + (of_char c - 48)) 0 s"

lemma undec_dec [simp]: "undec (dec n) = n"
proof (induction n rule: dec.induct)
  case (1 n)
  have "of_char (char_of (48 + k) :: char) = 48 + k" if "k < 10" for k :: nat
    using that by (simp add: of_char_of)
  then show ?case
    using 1 by (subst dec.simps) (simp add: undec_def)
qed

lemma challenge_id_inj [simp]: "challenge_id m = challenge_id n \<longleftrightarrow> m = n"
  by (metis challenge_id_def same_append_eq undec_dec)

section \<open>Runs of the table\<close>

datatype table_event =
    EvIssued string outstanding_challenge
  | EvRefused
  | EvTaken string nat outstanding_challenge
  | EvMissed
  | EvReaped


definition taken_ids :: "table_event list \<Rightarrow> string list" where
  "taken_ids h = List.map_filter (\<lambda>e. case e of EvTaken i _ _ \<Rightarrow> Some i | _ \<Rightarrow> None) h"

lemma taken_ids_append [simp]: "taken_ids (h @ [e]) = taken_ids h @ (case e of EvTaken i _ _ \<Rightarrow> [i] | _ \<Rightarrow> [])"
  by (simp add: taken_ids_def List.map_filter_def split: table_event.split)











section \<open>A session and the gate\<close>

text \<open>The life of one socket whose challenge has number \<open>k\<close> and contents \<open>c0\<close>, with the operations of other
  sockets on the shared table in between; \<open>Ps\<close> are the postures in force during that time.\<close>

inductive socket_run ::
  "'n foreign \<Rightarrow> 'n text_io \<Rightarrow> 'n posture set \<Rightarrow> string \<Rightarrow> nat \<Rightarrow> outstanding_challenge \<Rightarrow> challenge_table \<Rightarrow> session_admission \<Rightarrow> bool"
  for F T Ps node k c0 where
  connect: "bm_inv (ct_map t0) \<Longrightarrow> ct_next_id t0 = k \<Longrightarrow> k + 1 < 2 ^ 64 \<Longrightarrow>
     c0 = \<lparr>oc_session_id = sid, oc_server_nonce = nonce, oc_epoch = e, oc_issued_at = now\<rparr> \<Longrightarrow>
     issue F T sid nonce now e mesh node t0 = (t, Some (challenge_id k, body)) \<Longrightarrow>
     socket_run F T Ps node k c0 t session_admission_default"
| respond: "socket_run F T Ps node k c0 t adm \<Longrightarrow> posture \<in> Ps \<Longrightarrow>
     process_admit_response F T node posture now msg (Some (challenge_id k)) t = (t', outcome) \<Longrightarrow>
     socket_run F T Ps node k c0 t' (case outcome of None \<Rightarrow> adm | Some oc \<Rightarrow> apply_outcome oc adm)"
| other_issue: "socket_run F T Ps node k c0 t adm \<Longrightarrow> ct_next_id t + 1 < 2 ^ 64 \<Longrightarrow>
     issue F T sid nonce now e mesh node t = (t', r) \<Longrightarrow> socket_run F T Ps node k c0 t' adm"
| other_take: "socket_run F T Ps node k c0 t adm \<Longrightarrow> take_challenge now i t = (t', r) \<Longrightarrow> socket_run F T Ps node k c0 t' adm"
| other_reap: "socket_run F T Ps node k c0 t adm \<Longrightarrow> socket_run F T Ps node k c0 (reap i t) adm"

definition proved :: "'n foreign \<Rightarrow> 'n posture set \<Rightarrow> string \<Rightarrow> outstanding_challenge \<Rightarrow> string \<Rightarrow> bool" where
  "proved F Ps node c0 n \<longleftrightarrow> (\<exists>a member sg. Verified a \<in> Ps \<and> bm_get (ac_members_full a) n = Some member
     \<and> admit F member (origin_transcript c0 (ac_mesh a) node n) sg (ac_epoch a) = Inr ())"

definition socket_inv :: "'n foreign \<Rightarrow> 'n posture set \<Rightarrow> string \<Rightarrow> nat \<Rightarrow> outstanding_challenge \<Rightarrow> challenge_table \<Rightarrow> session_admission \<Rightarrow> bool" where
  "socket_inv F Ps node k c0 t adm \<longleftrightarrow>
     bm_inv (ct_map t) \<and> k < ct_next_id t
     \<and> (bm_get (ct_map t) (challenge_id k) = None \<or> bm_get (ct_map t) (challenge_id k) = Some c0)
     \<and> (\<forall>n. sa_admitted_node adm = Some n \<longrightarrow> proved F Ps node c0 n)"

lemma reconstruct_proof_iff:
  "reconstruct_proof F c body mesh broker = Inr p \<longleftrightarrow>
     (\<exists>claimed sg. get_str ''claimed_source_node'' body = Some claimed
        \<and> Option.bind (get_str ''signature'' body) (b64_decode F) = Some sg
        \<and> Option.bind (get_str ''client_ephemeral'' body) (b64_decode F) = Some ORIGIN_ONLY_ZERO
        \<and> Option.bind (get_str ''channel_binding_hash'' body) (b64_decode F) = Some ORIGIN_ONLY_ZERO
        \<and> p = \<lparr>rp_transcript = origin_transcript c mesh broker claimed, rp_claimed_source_node = claimed, rp_signature = sg\<rparr>)"
proof -
  have ok: "and_then (ok_or WireMalformed x) f = Inr b \<longleftrightarrow> (\<exists>a. x = Some a \<and> f a = Inr b)" for x :: "'x option" and f b
    by (cases x) auto
  show ?thesis
    unfolding reconstruct_proof_def decode_b64_def ok
    by (auto simp: origin_transcript_def split: if_splits)
qed

text \<open>An admission verdict comes from the challenge taken under the session's own identifier, and removes it.\<close>

lemma process_admit:
  assumes "process_admit_response F T node posture now msg own t = (t', Some (OutcomeAdmit n))"
  shows "\<exists>i c a member sg. own = Some i \<and> bm_get (ct_map t) i = Some c \<and> t' = t\<lparr>ct_map := bm_remove i (ct_map t)\<rparr>
    \<and> now - oc_issued_at c < CHALLENGE_TTL \<and> posture = Verified a \<and> bm_get (ac_members_full a) n = Some member
    \<and> admit F member (origin_transcript c (ac_mesh a) node n) sg (ac_epoch a) = Inr ()"
proof -
  obtain i where i: "message_get msg ''id'' = Some i" "own = Some i"
    using assms by (auto simp: process_admit_response_def split: option.splits if_splits)
  obtain c where c: "take_challenge now i t = (t', Some c)"
    using assms i by (auto simp: process_admit_response_def split: prod.splits option.splits)
  obtain a where a: "posture = Verified a"
    using assms i c by (auto simp: process_admit_response_def split: posture.splits)
  obtain body p member where p: "reconstruct_proof F c body (ac_mesh a) node = Inr p"
    "bm_get (ac_members_full a) (rp_claimed_source_node p) = Some member" "rp_claimed_source_node p = n"
    "admit F member (rp_transcript p) (rp_signature p) (ac_epoch a) = Inr ()"
    using assms i c a by (auto simp: process_admit_response_def Let_def split: sum.splits option.splits)
  have "bm_get (ct_map t) i = Some c" "t' = t\<lparr>ct_map := bm_remove i (ct_map t)\<rparr>" "now - oc_issued_at c < CHALLENGE_TTL"
    using c by (auto simp: take_challenge_def split: option.splits if_splits)
  then show ?thesis using i(2) a p by (auto simp: reconstruct_proof_iff)
qed

lemma process_table:
  "process_admit_response F T node posture now msg own t = (t', r) \<Longrightarrow> t' = t \<or> (\<exists>i. t' = t\<lparr>ct_map := bm_remove i (ct_map t)\<rparr>)"
  by (auto simp: process_admit_response_def take_challenge_def split: option.splits if_splits)

lemma socket_inv_remove:
  "socket_inv F Ps node k c0 t adm \<Longrightarrow> socket_inv F Ps node k c0 (t\<lparr>ct_map := bm_remove i (ct_map t)\<rparr>) adm"
  by (auto simp: socket_inv_def bm_inv_remove bm_get_remove)

lemma issue_other:
  assumes "socket_inv F Ps node k c0 t adm" "ct_next_id t + 1 < 2 ^ 64" "issue G T sid nonce now e mesh br t = (t', r)"
  shows "socket_inv F Ps node k c0 t' adm"
proof -
  let ?m = "bm_retain (\<lambda>_ c. now - oc_issued_at c < CHALLENGE_TTL) (ct_map t)"
  have m: "bm_inv ?m" "bm_get ?m (challenge_id k) = None \<or> bm_get ?m (challenge_id k) = Some c0"
    using assms(1) by (auto simp: socket_inv_def bm_inv_retain bm_get_retain split: option.splits if_splits)
  have "k \<noteq> ct_next_id t" "(ct_next_id t + 1) mod 2 ^ 64 = ct_next_id t + 1" using assms(1,2) by (auto simp: socket_inv_def)
  then show ?thesis
    using assms m by (auto simp: socket_inv_def issue_def Let_def bm_inv_insert bm_get_insert split: if_splits)
qed

lemma socket_run_inv: "socket_run F T Ps node k c0 t adm \<Longrightarrow> socket_inv F Ps node k c0 t adm"
proof (induction rule: socket_run.induct)
  case (connect t0 sid nonce e now mesh t body)
  then show ?case
    by (auto simp: socket_inv_def issue_def Let_def bm_inv_insert bm_inv_retain bm_get_insert session_admission_default_def
        split: if_splits)
next
  case (respond t adm posture now msg t' outcome)
  have t': "socket_inv F Ps node k c0 t' adm"
    using process_table [OF respond(3)] respond(4) socket_inv_remove by auto
  show ?case
  proof (cases outcome)
    case None
    then show ?thesis using t' by simp
  next
    case (Some oc)
    have "proved F Ps node c0 n" if oc: "oc = OutcomeAdmit n" for n
    proof -
      have "process_admit_response F T node posture now msg (Some (challenge_id k)) t = (t', Some (OutcomeAdmit n))"
        using respond(3) Some oc by simp
      from process_admit [OF this] obtain i c a member sg where "Some (challenge_id k) = Some i" "bm_get (ct_map t) i = Some c" "posture = Verified a"
        "bm_get (ac_members_full a) n = Some member"
        "admit F member (origin_transcript c (ac_mesh a) node n) sg (ac_epoch a) = Inr ()"
        by blast
      then show ?thesis using respond(2,4) unfolding proved_def socket_inv_def by auto
    qed
    then show ?thesis using t' Some by (auto simp: socket_inv_def apply_outcome_def split: admit_outcome.splits)
  qed
next
  case (other_issue t adm sid nonce now e mesh t' r)
  then show ?case using issue_other by blast
next
  case (other_take t adm now i t' r)
  then have "t' = t \<or> t' = t\<lparr>ct_map := bm_remove i (ct_map t)\<rparr>"
    by (auto simp: take_challenge_def split: option.splits)
  then show ?case using other_take socket_inv_remove by auto
next
  case (other_reap t adm i)
  then show ?case using socket_inv_remove by (simp add: reap_def)
qed

text \<open>A response under another identifier is refused without consuming the session's challenge, so a
  proper response after it still admits.\<close>

lemma refused_response_keeps_challenge:
  assumes "message_get msg ''id'' = Some j" "own = Some i" "i \<noteq> j"
    and "process_admit_response F T node posture now2 msg2 own t = (t', Some (OutcomeAdmit n))"
  shows "process_admit_response F T node posture now msg own t = (t, Some (OutcomeRefuse ''stale-or-replayed-challenge''))
    \<and> sa_admitted_node (apply_outcome (OutcomeAdmit n) (apply_outcome (OutcomeRefuse ''stale-or-replayed-challenge'') adm)) = Some n"
  using assms by (simp add: process_admit_response_def apply_outcome_def)

lemma gate_admits:
  "register_gate_decision src bind_text mode wg verified sender adm = GateAdmit n \<longleftrightarrow>
     mode = Enforce \<and> \<not> is_same_node_origin src bind_text \<and> verified \<and> wg
     \<and> sender = ''bridge-'' @ n \<and> sa_admitted_node adm = Some n"
  by (auto simp: register_gate_decision_def enforce_refuses_all_def strip_prefix_def prefix_def Let_def split: option.splits if_splits)

text \<open>C2: under enforcement, no node registers as a bridge it has not proved to be.  Whatever else happens
  on the broker, if the gate admits a session from another node as the bridge \<open>n\<close>, then the node has a
  verified trust root and a WireGuard bind, the session registers under exactly that name, and some
  response on this very socket carried an Ed25519 signature, under a \<^verbatim>\<open>d2\<close> key of member \<open>n\<close> current at
  the epoch of an inventory then in force, over the transcript that holds the session identifier and
  the nonce issued on this socket, this broker's name, the mesh and \<open>n\<close> itself; the member was active
  and a bus member in that inventory.\<close>

theorem registered_bridge_proved:
  assumes "socket_run F T Ps node k c0 t adm"
    and "register_gate_decision src bind_text mode wg verified sender adm = GateAdmit n"
  shows "mode = Enforce \<and> verified \<and> wg \<and> \<not> is_same_node_origin src bind_text \<and> sender = ''bridge-'' @ n
    \<and> (\<exists>a member pk sg msg. Verified a \<in> Ps \<and> bm_get (ac_members_full a) n = Some member
         \<and> get_str ''status'' member = Some ''active'' \<and> Option.bind (json_get ''bus'' member) as_bool = Some True
         \<and> pk \<in> set (select_d2_pubkeys F member (ac_epoch a)) \<and> oc_epoch c0 = ac_epoch a
         \<and> transcript_bytes (origin_transcript c0 (ac_mesh a) node n) = Some msg \<and> is_ok (verify_ed25519 F pk sg msg))"
proof -
  have g: "mode = Enforce \<and> verified \<and> wg \<and> \<not> is_same_node_origin src bind_text \<and> sender = ''bridge-'' @ n"
    and "sa_admitted_node adm = Some n"
    using assms(2) unfolding gate_admits by blast+
  then have "proved F Ps node c0 n" using socket_run_inv [OF assms(1)] by (simp add: socket_inv_def)
  then obtain a member sg where "Verified a \<in> Ps" "bm_get (ac_members_full a) n = Some member"
    "admit F member (origin_transcript c0 (ac_mesh a) node n) sg (ac_epoch a) = Inr ()"
    unfolding proved_def by blast
  moreover have "at_inventory_epoch (origin_transcript c0 (ac_mesh a) node n) = oc_epoch c0" by (simp add: origin_transcript_def)
  ultimately show ?thesis using g unfolding admit_iff by metis
qed

section \<open>An honest node is admitted\<close>

text \<open>What the handshake needs of serde\_json for a document it prints: the text parses back to a document
  with the same members, and does not end in white space.\<close>

definition text_roundtrip :: "'n text_io \<Rightarrow> 'n json \<Rightarrow> bool" where
  "text_roundtrip T v \<longleftrightarrow> trim_end (json_to_string T v) = json_to_string T v
     \<and> (\<exists>w. json_from_str T (json_to_string T v) = Some w \<and> (\<forall>k. json_get k w = json_get k v))"

definition plain :: "char \<Rightarrow> bool" where
  "plain c \<longleftrightarrow> 33 \<le> (of_char c :: nat) \<and> (of_char c :: nat) < 127 \<and> c \<noteq> CHR '':''"

lemma white_space_not_plain: "w \<in> set white_space \<Longrightarrow> w \<noteq> [] \<and> \<not> plain (hd w) \<and> \<not> plain (last w)"
  by (auto simp: white_space_def plain_def)

lemma plain_safe:
  assumes "list_all plain k" "list_all plain v"
  shows "safe_header (k, v)"
proof -
  have trim: "trim s = s" if "list_all plain s" for s
  proof -
    have "\<not> prefix w s \<and> \<not> suffix w s" if w: "w \<in> set white_space" for w
      using white_space_not_plain [OF w] \<open>list_all plain s\<close>
      by (cases w; cases w rule: rev_cases) (auto simp: prefix_def suffix_def)
    then show ?thesis by (simp add: trim_fixed)
  qed
  have "\<not> plain newline" by (simp add: plain_def newline_def)
  moreover have "\<not> sublist '': '' k" using assms(1) by (auto simp: sublist_def plain_def)
  ultimately show ?thesis using assms trim by (auto simp: safe_header_def list_all_iff)
qed

lemma plain_dec: "list_all plain (dec n)"
proof (induction n rule: dec.induct)
  case (1 n)
  have "plain (char_of (48 + k))" if "k < 10" for k :: nat
  proof -
    have c: "of_char (char_of (48 + k) :: char) = 48 + k" using that by (simp add: of_char_of)
    have "(of_char (CHR '':'') :: nat) = 58" by simp
    then have "char_of (48 + k) \<noteq> CHR '':''" using that c by force
    then show ?thesis using that by (simp add: plain_def c)
  qed
  then show ?case using 1 by (subst dec.simps) simp
qed

definition frame_ok :: "nat \<Rightarrow> bus_message \<Rightarrow> bool" where
  "frame_ok n m \<longleftrightarrow> bm_inv (msg_headers m) \<and> list_all safe_header (msg_headers m) \<and> length (msg_headers m) \<le> n"

lemma frame_new: "frame_ok 0 message_new"
  by (simp add: frame_ok_def message_new_def bm_inv_def)

lemma list_all_bm_insert: "list_all P m \<Longrightarrow> P (k, v) \<Longrightarrow> list_all P (bm_insert k v m)"
  by (induction m) (auto split: if_splits)

lemma frame_header: "frame_ok n m \<Longrightarrow> safe_header (k, v) \<Longrightarrow> frame_ok (Suc n) (with_header m k v)"
  using length_bm_insert_le [of k v "msg_headers m"]
  by (auto simp: frame_ok_def with_header_def bm_inv_insert list_all_bm_insert)

lemma get_header: "frame_ok n m \<Longrightarrow> message_get (with_header m k v) i = (if i = k then Some v else message_get m i)"
  by (simp add: frame_ok_def message_get_def with_header_def bm_get_insert)

lemma get_body: "message_get (with_body m b) i = message_get m i" "msg_body (with_body m b) = b"
  by (simp_all add: message_get_def with_body_def)

lemma parse_frame:
  assumes "frame_ok n m" "n \<le> 4096" "trim_end b = b" "message_get m i = Some v"
  shows "parse from_str (to_wire (with_body m b)) = Inr (with_body m b)"
proof -
  have "wire_safe (with_body m b)"
    using assms by (auto simp: wire_safe_def with_body_def frame_ok_def MAX_HEADERS_def message_get_def bm_get_def)
  moreover have "bm_inv (msg_headers (with_body m b))" using assms(1) by (simp add: with_body_def frame_ok_def)
  ultimately obtain r where "parse_lenient from_str (to_wire (with_body m b)) = Inr (with_body m b, r)" by (rule parse_wire)
  then show ?thesis by (simp add: parse_def)
qed

lemma plain_challenge_id: "list_all plain (challenge_id n)"
  using plain_dec [of n] by (simp add: challenge_id_def plain_def)

text \<open>The node reads the challenge the broker wrote.\<close>

lemma challenged_transcript_body:
  assumes "base64_correct F" "num_u64 F (num_of_u64 F e) = Some e"
    and "\<forall>k. json_get k w = json_get k (challenge_body F mesh broker e sid nonce)"
  shows "challenged_transcript F w name =
    Some (origin_transcript \<lparr>oc_session_id = sid, oc_server_nonce = nonce, oc_epoch = e, oc_issued_at = at'\<rparr> mesh broker name)"
  using assms by (simp add: challenged_transcript_def get_str_def challenge_body_def base64_correct_def origin_transcript_def)

lemma reconstruct_response:
  assumes "base64_correct F" "\<forall>k. json_get k w = json_get k (response_body F name e sg)"
  shows "reconstruct_proof F c w mesh broker =
    Inr \<lparr>rp_transcript = origin_transcript c mesh broker name, rp_claimed_source_node = name, rp_signature = sg\<rparr>"
  unfolding reconstruct_proof_iff using assms by (simp add: get_str_def response_body_def base64_correct_def)

lemma issue_challenge:
  assumes "issue F T sid nonce now e mesh node t = (t', Some (i, body))" "bm_inv (ct_map t)"
  shows "i = challenge_id (ct_next_id t)" "body = json_to_string T (challenge_body F mesh node e sid nonce)"
    "bm_get (ct_map t') i = Some \<lparr>oc_session_id = sid, oc_server_nonce = nonce, oc_epoch = e, oc_issued_at = now\<rparr>"
  using assms by (auto simp: issue_def Let_def bm_inv_retain bm_get_insert split: if_splits)

lemma challenge_delivered:
  assumes "list_all plain node" "text_roundtrip T v"
  shows "parse from_str (to_wire (challenge_frame node (challenge_id k, json_to_string T v)))
      = Inr (challenge_frame node (challenge_id k, json_to_string T v))"
    and "message_get (challenge_frame node (challenge_id k, json_to_string T v)) ''id'' = Some (challenge_id k)"
    and "msg_body (challenge_frame node (challenge_id k, json_to_string T v)) = json_to_string T v"
proof -
  let ?h3 = "with_header (with_header (with_header message_new ''command'' ''noded.admit.challenge'') ''type'' ''request'') ''from'' node"
  have h3: "frame_ok (Suc (Suc (Suc 0))) ?h3"
    using assms(1) by (intro frame_header frame_new plain_safe) (simp_all add: plain_def)
  then have h: "frame_ok (Suc (Suc (Suc (Suc 0)))) (with_header ?h3 ''id'' (challenge_id k))"
    by (rule frame_header [OF _ plain_safe [OF _ plain_challenge_id]]) (simp add: plain_def)
  have g: "message_get (with_header ?h3 ''id'' (challenge_id k)) ''id'' = Some (challenge_id k)"
    by (simp add: get_header [OF h3])
  show "parse from_str (to_wire (challenge_frame node (challenge_id k, json_to_string T v)))
      = Inr (challenge_frame node (challenge_id k, json_to_string T v))"
    using parse_frame [OF h _ _ g, of "json_to_string T v"] assms(2) by (simp add: challenge_frame_def text_roundtrip_def)
  show "message_get (challenge_frame node (challenge_id k, json_to_string T v)) ''id'' = Some (challenge_id k)"
    using g by (simp add: challenge_frame_def get_body)
  show "msg_body (challenge_frame node (challenge_id k, json_to_string T v)) = json_to_string T v"
    by (simp add: challenge_frame_def get_body)
qed

definition response_frame :: "'n text_io \<Rightarrow> string \<Rightarrow> string \<Rightarrow> 'n json \<Rightarrow> bus_message" where
  "response_frame T name i v = with_body
     (with_header (with_header (with_header (with_header (with_header message_new
        ''command'' ''noded.admit.response'') ''type'' ''response'') ''from'' (''bridge-'' @ name))
        ''to'' ''noded'') ''id'' i) (json_to_string T v)"

lemma response_delivered:
  assumes "list_all plain name" "text_roundtrip T v"
  shows "parse from_str (to_wire (response_frame T name (challenge_id k) v)) = Inr (response_frame T name (challenge_id k) v)"
    and "message_get (response_frame T name (challenge_id k) v) ''id'' = Some (challenge_id k)"
    and "msg_body (response_frame T name (challenge_id k) v) = json_to_string T v"
proof -
  let ?h4 = "with_header (with_header (with_header (with_header message_new
     ''command'' ''noded.admit.response'') ''type'' ''response'') ''from'' (''bridge-'' @ name)) ''to'' ''noded''"
  have h4: "frame_ok (Suc (Suc (Suc (Suc 0)))) ?h4"
    using assms(1) by (intro frame_header frame_new plain_safe) (simp_all add: plain_def)
  then have h: "frame_ok (Suc (Suc (Suc (Suc (Suc 0))))) (with_header ?h4 ''id'' (challenge_id k))"
    by (rule frame_header [OF _ plain_safe [OF _ plain_challenge_id]]) (simp add: plain_def)
  have g: "message_get (with_header ?h4 ''id'' (challenge_id k)) ''id'' = Some (challenge_id k)"
    by (subst get_header [OF h4]) simp
  show "parse from_str (to_wire (response_frame T name (challenge_id k) v)) = Inr (response_frame T name (challenge_id k) v)"
    using parse_frame [OF h _ _ g, of "json_to_string T v"] assms(2) by (simp add: response_frame_def text_roundtrip_def)
  show "message_get (response_frame T name (challenge_id k) v) ''id'' = Some (challenge_id k)"
    using g by (simp add: response_frame_def get_body)
  show "msg_body (response_frame T name (challenge_id k) v) = json_to_string T v"
    by (simp add: response_frame_def get_body)
qed

text \<open>The node's answer to a challenge it can read.\<close>

lemma build_response:
  assumes "base64_correct F" "num_u64 F (num_of_u64 F e) = Some e" "length seed = 32"
    and "message_get ch ''id'' = Some i" "json_from_str T (msg_body ch) = Some w"
    and "\<forall>k. json_get k w = json_get k (challenge_body F mesh broker e sid nonce)"
    and "c = \<lparr>oc_session_id = sid, oc_server_nonce = nonce, oc_epoch = e, oc_issued_at = now\<rparr>"
    and "transcript_wf (origin_transcript c mesh broker name)"
  shows "\<exists>sg. sign_admission_transcript F seed (origin_transcript c mesh broker name) = Some (Inr sg)
    \<and> build_admit_response F T ch name (Some seed) = Some (Some (to_wire (response_frame T name i (response_body F name e sg))))"
proof -
  let ?t = "origin_transcript c mesh broker name"
  obtain msg where "transcript_bytes ?t = Some msg" using transcript_bytes_eq [OF assms(8)] by blast
  then have s: "sign_admission_transcript F seed ?t = Some (Inr (ed_sign F seed msg))"
    using assms(3) by (simp add: sign_admission_transcript_def sign_ed25519_def PRIVATE_KEY_LENGTH_def)
  have e: "at_inventory_epoch ?t = e" by (simp add: origin_transcript_def assms(7))
  have "challenged_transcript F w name = Some ?t"
    unfolding assms(7) by (rule challenged_transcript_body [OF assms(1,2,6)])
  then have "build_admit_response F T ch name (Some seed) =
      Some (Some (to_wire (response_frame T name i (response_body F name e (ed_sign F seed msg)))))"
    by (simp add: build_admit_response_def assms(4,5) s e response_frame_def)
  then show ?thesis using s by blast
qed

lemma handshake_admits:
  assumes foreign: "ed25519_correct F" "base64_correct F" "num_u64 F (num_of_u64 F e) = Some e"
    and texts: "text_roundtrip T (challenge_body F mesh node e sid nonce)" "\<forall>sg. text_roundtrip T (response_body F name e sg)"
    and names: "list_all plain node" "list_all plain name"
    and iss: "bm_inv (ct_map t)" "issue F T sid nonce now e mesh node t = (t1, Some (i, body))"
    and c: "c = \<lparr>oc_session_id = sid, oc_server_nonce = nonce, oc_epoch = e, oc_issued_at = now\<rparr>"
    and fits: "transcript_wf (origin_transcript c mesh node name)"
    and outstanding: "bm_get (ct_map t2) i = bm_get (ct_map t1) i" "now2 - now < 10000000000"
    and inventory: "ac_mesh a = mesh" "ac_epoch a = e" "bm_get (ac_members_full a) name = Some member"
    and member: "get_str ''name'' member = Some name" "get_str ''status'' member = Some ''active''"
      "Option.bind (json_get ''bus'' member) as_bool = Some True"
    and key: "length seed = 32" "ed_public F seed \<in> set (select_d2_pubkeys F member e)"
  shows "\<exists>ch answer resp t3.
    parse (json_from_str T) (to_wire (challenge_frame node (i, body))) = Inr ch
    \<and> build_admit_response F T ch name (Some seed) = Some (Some answer)
    \<and> parse (json_from_str T) answer = Inr resp
    \<and> process_admit_response F T node (Verified a) now2 resp (Some i) t2 = (t3, Some (OutcomeAdmit name))
    \<and> register_gate_decision src bind_text Enforce True True (''bridge-'' @ name) (apply_outcome (OutcomeAdmit name) adm)
        = (if is_same_node_origin src bind_text then Ungated else GateAdmit name)"
proof -
  let ?k = "ct_next_id t" and ?v = "challenge_body F mesh node e sid nonce"
  note i = issue_challenge(1) [OF iss(2,1)] and body = issue_challenge(2) [OF iss(2,1)] and got = issue_challenge(3) [OF iss(2,1)]
  let ?ch = "challenge_frame node (challenge_id ?k, json_to_string T ?v)"
  obtain w where w: "json_from_str T (msg_body ?ch) = Some w" "\<forall>k. json_get k w = json_get k ?v"
    using texts(1) challenge_delivered(3) [OF names(1) texts(1)] by (auto simp: text_roundtrip_def)
  obtain sg where sg: "sign_admission_transcript F seed (origin_transcript c mesh node name) = Some (Inr sg)"
    and answer: "build_admit_response F T ?ch name (Some seed) =
      Some (Some (to_wire (response_frame T name (challenge_id ?k) (response_body F name e sg))))"
    using build_response [OF foreign(2,3) key(1) challenge_delivered(2) [OF names(1) texts(1)] w c fits] by blast
  let ?resp = "response_frame T name (challenge_id ?k) (response_body F name e sg)"
  note rt = texts(2) [rule_format, of sg]
  obtain u where u: "json_from_str T (msg_body ?resp) = Some u" "\<forall>k. json_get k u = json_get k (response_body F name e sg)"
    using rt response_delivered(3) [OF names(2) rt] by (auto simp: text_roundtrip_def)
  have take: "take_challenge now2 i t2 = (t2\<lparr>ct_map := bm_remove i (ct_map t2)\<rparr>, Some c)"
    using outstanding got by (simp add: take_challenge_def CHALLENGE_TTL_def c)
  have "admit F member (origin_transcript c mesh node name) sg e = Inr ()"
    by (rule signer_admitted [OF foreign(1) sg]) (use member key c in \<open>simp_all add: origin_transcript_def\<close>)
  then have "process_admit_response F T node (Verified a) now2 ?resp (Some i) t2 =
      (t2\<lparr>ct_map := bm_remove i (ct_map t2)\<rparr>, Some (OutcomeAdmit name))"
    using response_delivered(2) [OF names(2) rt] take u reconstruct_response [OF foreign(2) u(2)]
    by (simp add: process_admit_response_def i inventory Let_def)
  moreover have "register_gate_decision src bind_text Enforce True True (''bridge-'' @ name) (apply_outcome (OutcomeAdmit name) adm)
        = (if is_same_node_origin src bind_text then Ungated else GateAdmit name)"
    by (simp add: register_gate_decision_def enforce_refuses_all_def strip_prefix_def apply_outcome_def)
  ultimately show ?thesis
    using challenge_delivered(1) [OF names(1) texts(1)] response_delivered(1) [OF names(2) rt] answer
    unfolding i body by blast
qed

text \<open>C13: the handshake is complete.  When a broker with a verified inventory challenges a node, the
  challenge survives the wire, the node that holds the private half of a \<^verbatim>\<open>d2\<close> credential current at that
  epoch produces an answer, the answer survives the wire, and as long as the challenge is still
  outstanding and less than ten seconds old the broker's verdict on it is admission under the node's
  own name, after which the gate under enforcement admits the node's bridge (or leaves the session
  ungated when it comes from the broker's own address).  Node names are printable ASCII without
  space and colon, the transcript's fields fit their length prefix, and the JSON, base64, number and
  Ed25519 codes satisfy the stated laws.\<close>

theorem handshake_completes:
  assumes foreign: "ed25519_correct F" "base64_correct F" "num_u64 F (num_of_u64 F e) = Some e"
    and texts: "text_roundtrip T (challenge_body F mesh node e sid nonce)" "\<forall>sg. text_roundtrip T (response_body F name e sg)"
    and names: "list_all plain node" "list_all plain name"
    and iss: "bm_inv (ct_map t)" "issue F T sid nonce now e mesh node t = (t1, Some (i, body))"
    and c: "c = \<lparr>oc_session_id = sid, oc_server_nonce = nonce, oc_epoch = e, oc_issued_at = now\<rparr>"
    and fits: "transcript_wf (origin_transcript c mesh node name)"
    and outstanding: "bm_get (ct_map t2) i = bm_get (ct_map t1) i" "now2 - now < 10000000000"
    and inventory: "ac_mesh a = mesh" "ac_epoch a = e" "bm_get (ac_members_full a) name = Some member"
    and member: "get_str ''name'' member = Some name" "get_str ''status'' member = Some ''active''"
      "Option.bind (json_get ''bus'' member) as_bool = Some True"
    and key: "length seed = 32" "ed_public F seed \<in> set (select_d2_pubkeys F member e)"
  shows "\<exists>ch answer resp t3.
    parse (json_from_str T) (to_wire (challenge_frame node (i, body))) = Inr ch
    \<and> build_admit_response F T ch name (Some seed) = Some (Some answer)
    \<and> parse (json_from_str T) answer = Inr resp
    \<and> process_admit_response F T node (Verified a) now2 resp (Some i) t2 = (t3, Some (OutcomeAdmit name))
    \<and> register_gate_decision src bind_text Enforce True True (''bridge-'' @ name) (apply_outcome (OutcomeAdmit name) adm)
        = (if is_same_node_origin src bind_text then Ungated else GateAdmit name)"
  using assms by (rule handshake_admits)

section \<open>A concrete handshake\<close>

text \<open>An instance of the text layer for the handshake of the node \<^verbatim>\<open>alpha\<close> with the broker \<^verbatim>\<open>hub\<close>: the
  challenge prints as one letter, an answer as its signature between two others.\<close>

definition hub_challenge :: "unit json" where
  "hub_challenge = challenge_body sample_foreign ''m.net'' ''hub'' 0 ''s'' ''n''"

definition hub_text :: "unit text_io" where
  "hub_text = \<lparr>json_from_str = (\<lambda>s. Some (if s = ''C'' then hub_challenge else response_body sample_foreign ''alpha'' 0 (butlast (tl s)))),
     json_to_string = (\<lambda>v. case get_str ''signature'' v of None \<Rightarrow> ''C'' | Some sg \<Rightarrow> ''R'' @ sg @ ''.''),
     parse_signed = (\<lambda>_. None)\<rparr>"

definition alpha_member :: "unit json" where
  "alpha_member = JObject [(''name'', JString ''alpha''), (''status'', JString ''active''), (''bus'', JBool True),
     (''credentials'', JArray [JObject [(''kind'', JString ''d2''), (''from_epoch'', JNumber ()), (''pubkey'', JString sample_key)]])]"

definition hub_accepted :: "unit accepted" where
  "hub_accepted = \<lparr>ac_epoch = 0, ac_recovery_generation = 0, ac_via_recovery = False, ac_mesh = ''m.net'', ac_hash = [],
     ac_verified_by = [], ac_verify_keys = [], ac_members = [], ac_routing_view = [],
     ac_members_full = [(''alpha'', alpha_member)]\<rparr>"

definition hub_outstanding :: outstanding_challenge where
  "hub_outstanding = \<lparr>oc_session_id = ''s'', oc_server_nonce = ''n'', oc_epoch = 0, oc_issued_at = 0\<rparr>"

definition hub_table :: challenge_table where
  "hub_table = \<lparr>ct_map = [(challenge_id 1, hub_outstanding)], ct_next_id = Suc 1\<rparr>"

lemma hub_issue: "issue sample_foreign hub_text ''s'' ''n'' 0 0 ''m.net'' ''hub'' challenge_table_new = (hub_table, Some (challenge_id 1, ''C''))"
  by (simp add: issue_def challenge_table_new_def hub_table_def hub_outstanding_def bm_retain_def MAX_OUTSTANDING_def hub_text_def
      challenge_body_def get_str_def Let_def)

lemma plain_end: "s \<noteq> [] \<Longrightarrow> plain (last s) \<Longrightarrow> trim_end s = s"
  unfolding trim_end_fixed
proof (intro ballI notI)
  fix w assume "s \<noteq> []" "plain (last s)" "w \<in> set white_space" "suffix w s"
  moreover from this obtain z where "s = z @ w" by (auto simp: suffix_def)
  ultimately show False using white_space_not_plain [of w] by simp
qed

lemma hub_texts:
  "text_roundtrip hub_text (challenge_body sample_foreign ''m.net'' ''hub'' 0 ''s'' ''n'')"
  "text_roundtrip hub_text (response_body sample_foreign ''alpha'' 0 sg)"
proof -
  have "trim_end ''C'' = ''C''" "trim_end (''R'' @ sg @ ''.'') = ''R'' @ sg @ ''.''" by (rule plain_end; simp add: plain_def)+
  then show "text_roundtrip hub_text (challenge_body sample_foreign ''m.net'' ''hub'' 0 ''s'' ''n'')"
    "text_roundtrip hub_text (response_body sample_foreign ''alpha'' 0 sg)"
    by (simp_all add: text_roundtrip_def hub_text_def hub_challenge_def challenge_body_def response_body_def get_str_def
        sample_foreign_def butlast_append)
qed

lemma hub_fits: "transcript_wf (origin_transcript hub_outstanding ''m.net'' ''hub'' ''alpha'')"
  by (simp add: transcript_wf_def origin_transcript_def hub_outstanding_def transcript_fields_def ADMIT_DOMAIN_V1_def ORIGIN_ONLY_ZERO_def)

lemma alpha_key: "sample_key \<in> set (select_d2_pubkeys sample_foreign alpha_member 0)"
  by (simp add: set_select_d2 current_credential_def alpha_member_def get_str_def sample_foreign_def sample_key_def)

lemmas hub_assms = sample_foreign_ok(1,2) hub_texts hub_fits [unfolded hub_outstanding_def] hub_issue

lemma hub_facts:
  "bm_inv (ct_map challenge_table_new)" "list_all plain ''hub''" "list_all plain ''alpha''"
  "bm_get (ac_members_full hub_accepted) ''alpha'' = Some alpha_member" "ac_mesh hub_accepted = ''m.net''" "ac_epoch hub_accepted = 0"
  "num_u64 sample_foreign (num_of_u64 sample_foreign 0) = Some 0" "ed_public sample_foreign sample_key = sample_key"
  "length sample_key = 32" "get_str ''name'' alpha_member = Some ''alpha''" "get_str ''status'' alpha_member = Some ''active''"
  "Option.bind (json_get ''bus'' alpha_member) as_bool = Some True"
  by (simp_all add: challenge_table_new_def bm_inv_def plain_def hub_accepted_def bm_get_def sample_foreign_def sample_key_def
      alpha_member_def get_str_def)

theorem handshake_completes_witness:
  "\<exists>ch answer resp t3.
    parse (json_from_str hub_text) (to_wire (challenge_frame ''hub'' (challenge_id 1, ''C''))) = Inr ch
    \<and> build_admit_response sample_foreign hub_text ch ''alpha'' (Some sample_key) = Some (Some answer)
    \<and> parse (json_from_str hub_text) answer = Inr resp
    \<and> process_admit_response sample_foreign hub_text ''hub'' (Verified hub_accepted) 5 resp (Some (challenge_id 1)) hub_table
        = (t3, Some (OutcomeAdmit ''alpha''))"
  using handshake_completes [OF sample_foreign_ok(1,2) hub_facts(7) hub_texts(1) allI [OF hub_texts(2)] hub_facts(2,3,1) hub_issue
      hub_outstanding_def [symmetric, THEN sym] hub_fits refl _ hub_facts(5,6,4,10-12,9), of 5] alpha_key hub_facts(8) by fastforce

lemma remote_origin: "\<not> is_same_node_origin (V4 0x0A000002) ''10.0.0.1:7000''"
  by (simp add: is_same_node_origin_def socket_ip_def read_ipv4_def read_octet_def read_separator_def read_number_def
      to_digit_def read_given_char_def read_port_def v4_word_def)

lemma hub_registers:
  obtains t adm where "socket_run sample_foreign hub_text {Verified hub_accepted} ''hub'' 1 hub_outstanding t adm"
    "register_gate_decision (V4 0x0A000002) ''10.0.0.1:7000'' Enforce True True ''bridge-alpha'' adm = GateAdmit ''alpha''"
proof -
  obtain resp t3 where resp: "process_admit_response sample_foreign hub_text ''hub'' (Verified hub_accepted) 5 resp (Some (challenge_id 1)) hub_table
        = (t3, Some (OutcomeAdmit ''alpha''))"
    using handshake_admits [OF sample_foreign_ok(1,2) hub_facts(7) hub_texts(1) allI [OF hub_texts(2)] hub_facts(2,3,1) hub_issue
      hub_outstanding_def [symmetric, THEN sym] hub_fits refl _ hub_facts(5,6,4,10-12,9), of 5] alpha_key hub_facts(8) by fastforce
  have "socket_run sample_foreign hub_text {Verified hub_accepted} ''hub'' 1 hub_outstanding hub_table session_admission_default"
    by (rule socket_run.connect [OF hub_facts(1) _ _ hub_outstanding_def hub_issue]) (simp_all add: challenge_table_new_def)
  from socket_run.respond [OF this singletonI resp]
  have "socket_run sample_foreign hub_text {Verified hub_accepted} ''hub'' 1 hub_outstanding t3
      (apply_outcome (OutcomeAdmit ''alpha'') session_admission_default)" by simp
  moreover have "register_gate_decision (V4 0x0A000002) ''10.0.0.1:7000'' Enforce True True ''bridge-alpha''
      (apply_outcome (OutcomeAdmit ''alpha'') session_admission_default) = GateAdmit ''alpha''"
    using remote_origin by (simp add: gate_admits apply_outcome_def)
  ultimately show ?thesis using that by blast
qed

theorem registered_bridge_proved_witness:
  "\<exists>t adm member pk. socket_run sample_foreign hub_text {Verified hub_accepted} ''hub'' 1 hub_outstanding t adm
     \<and> register_gate_decision (V4 0x0A000002) ''10.0.0.1:7000'' Enforce True True ''bridge-alpha'' adm = GateAdmit ''alpha''
     \<and> bm_get (ac_members_full hub_accepted) ''alpha'' = Some member \<and> pk \<in> set (select_d2_pubkeys sample_foreign member 0)"
proof -
  obtain t adm where r: "socket_run sample_foreign hub_text {Verified hub_accepted} ''hub'' 1 hub_outstanding t adm"
    "register_gate_decision (V4 0x0A000002) ''10.0.0.1:7000'' Enforce True True ''bridge-alpha'' adm = GateAdmit ''alpha''"
    by (rule hub_registers)
  from registered_bridge_proved [OF r] obtain member pk where
    "bm_get (ac_members_full hub_accepted) ''alpha'' = Some member" "pk \<in> set (select_d2_pubkeys sample_foreign member 0)"
    using hub_facts(6) by auto
  with r show ?thesis by blast
qed



end
