(* ===== verification/Mesh_Caps.thy ===== *)
theory Mesh_Caps
  imports Mesh_Sig Cosmix_Pat
begin

text \<open>
  Capabilities across meshes: the resolution against a trust store (\<^verbatim>\<open>caps.rs\<close>), the cached snapshot
  (\<^verbatim>\<open>cache.rs\<close>), the policy that combines it with a local one (\<^verbatim>\<open>combinator.rs\<close>) and the tokens of the
  desktop surface (\<^verbatim>\<open>ctk_caps.rs\<close>), all of \<^verbatim>\<open>cosmix-lib-mesh-trust\<close>.  Capability sets are sets of tokens,
  hash maps are maps.  The locale \<open>trust_mirror\<close> is what a store promises of the trusted meshes, grants and
  allowlists it mirrors.
\<close>

section \<open>Stores and resolution\<close>

record grant =
  gr_grant_id :: string
  gr_mesh_fqdn :: string
  gr_capabilities :: "string set"
  gr_valid_from :: int
  gr_valid_until :: int
  gr_enabled :: bool

text \<open>The trait \<^verbatim>\<open>TrustStore\<close> as an object of its three operations.\<close>

record trust_store =
  ts_trusted_mesh :: "string \<Rightarrow> trusted_mesh option"
  ts_grants_for_mesh :: "string \<Rightarrow> grant list"
  ts_exposable_for_namespace :: "string \<Rightarrow> string set"

definition grant_live :: "int \<Rightarrow> grant \<Rightarrow> bool" where
  "grant_live now g \<longleftrightarrow> gr_enabled g \<and> \<not> (now < gr_valid_from g \<or> gr_valid_until g < now)"

definition resolve_cross_mesh_caps :: "'n foreign \<Rightarrow> trust_store \<Rightarrow> string \<Rightarrow> string \<Rightarrow> int \<Rightarrow> string set" where
  "resolve_cross_mesh_caps F store ident namespace_id now =
     (case strip_prefix ''mesh:'' ident of
        None \<Rightarrow> {}
      | Some fqdn \<Rightarrow>
          (case ts_trusted_mesh store fqdn of
             None \<Rightarrow> {}
           | Some trusted \<Rightarrow>
               if \<not> tm_enabled trusted then {}
               else if \<not> trust_fresh F trusted now then {}
               else
                 let granted_union = foldl (\<lambda>acc g. if grant_live now g then acc \<union> gr_capabilities g else acc) {}
                                       (ts_grants_for_mesh store fqdn)
                 in granted_union \<inter> ts_exposable_for_namespace store namespace_id))"

section \<open>The snapshot\<close>

record snapshot =
  sn_trusted :: "string \<Rightarrow> trusted_mesh option"
  sn_grants_by_mesh :: "string \<Rightarrow> grant list option"
  sn_exposable :: "string \<Rightarrow> string set option"

definition snapshot_default :: snapshot where
  "snapshot_default = \<lparr>sn_trusted = Map.empty, sn_grants_by_mesh = Map.empty, sn_exposable = Map.empty\<rparr>"

text \<open>\<^verbatim>\<open>entry(k).or_default().push(g)\<close>.\<close>

definition push_grant :: "(string \<Rightarrow> grant list option) \<Rightarrow> grant \<Rightarrow> string \<Rightarrow> grant list option" where
  "push_grant m g = m(gr_mesh_fqdn g \<mapsto> (case m (gr_mesh_fqdn g) of None \<Rightarrow> [] | Some gs \<Rightarrow> gs) @ [g])"

definition insert_trusted :: "(string \<Rightarrow> trusted_mesh option) \<Rightarrow> trusted_mesh \<Rightarrow> string \<Rightarrow> trusted_mesh option" where
  "insert_trusted m t = m(tm_mesh_fqdn t \<mapsto> t)"

definition from_parts :: "trusted_mesh list \<Rightarrow> grant list \<Rightarrow> (string \<times> string set) list \<Rightarrow> snapshot" where
  "from_parts trusted grants exposable =
     \<lparr>sn_trusted = foldl insert_trusted Map.empty trusted,
      sn_grants_by_mesh = foldl push_grant Map.empty grants,
      sn_exposable = foldl (\<lambda>m (ns, caps). m(ns \<mapsto> caps)) Map.empty exposable\<rparr>"

text \<open>The read handle of the cache, as a store.\<close>

definition handle :: "snapshot \<Rightarrow> trust_store" where
  "handle s =
     \<lparr>ts_trusted_mesh = sn_trusted s,
      ts_grants_for_mesh = (\<lambda>fqdn. case sn_grants_by_mesh s fqdn of None \<Rightarrow> [] | Some gs \<Rightarrow> gs),
      ts_exposable_for_namespace = (\<lambda>ns. case sn_exposable s ns of None \<Rightarrow> {} | Some cs \<Rightarrow> cs)\<rparr>"

section \<open>Policies\<close>

record 'p peer_identity =
  native_session :: "'p option"
  unix_uid :: "nat option"
  unix_gid :: "nat option"
  unix_groups :: "string list"
  wg_peer :: "string option"
  signed_ident :: "string option"
  service_name :: "string option"

type_synonym 'p auth_policy = "'p peer_identity \<Rightarrow> string set"

definition deny_all :: "'p auth_policy" where
  "deny_all = (\<lambda>_. {})"

text \<open>\<^verbatim>\<open>Capability::new\<close> refuses the empty token.\<close>

definition capability_new :: "string \<Rightarrow> string option" where
  "capability_new s = (if s = [] then None else Some s)"

definition with_cross_mesh_grants :: "'n foreign \<Rightarrow> 'p auth_policy \<Rightarrow> string \<Rightarrow> snapshot \<Rightarrow> int \<Rightarrow> 'p auth_policy" where
  "with_cross_mesh_grants F base namespace_id cache now = (\<lambda>peer.
     case signed_ident peer of
       None \<Rightarrow> base peer
     | Some ident \<Rightarrow>
         if \<not> prefix ''mesh:'' ident then base peer
         else (let core_caps = resolve_cross_mesh_caps F (handle cache) ident namespace_id now
               in {c. \<exists>t\<in>core_caps. capability_new t = Some c}))"

section \<open>The desktop surface\<close>

definition CTK_NOTIFY :: string where "CTK_NOTIFY = ''ctk.notify''"
definition CTK_ACTIONS :: string where "CTK_ACTIONS = ''ctk.actions''"
definition CTK_DIALOG :: string where "CTK_DIALOG = ''ctk.dialog''"

definition notify_v1_grant :: "string set" where
  "notify_v1_grant = {CTK_NOTIFY}"

definition grants_notify :: "string set \<Rightarrow> bool" where
  "grants_notify caps \<longleftrightarrow> CTK_NOTIFY \<in> caps"

definition actions_v1_grant :: "string set" where
  "actions_v1_grant = {CTK_ACTIONS}"

definition grants_actions :: "string set \<Rightarrow> bool" where
  "grants_actions caps \<longleftrightarrow> CTK_ACTIONS \<in> caps"

section \<open>The contract of a store\<close>

text \<open>The last trust record of a mesh, the grants of a mesh in their order, and an allowlist per namespace.\<close>

definition last_trusted :: "trusted_mesh list \<Rightarrow> string \<Rightarrow> trusted_mesh option" where
  "last_trusted ts fqdn = map_of (rev (map (\<lambda>t. (tm_mesh_fqdn t, t)) ts)) fqdn"

text \<open>Who holds a capability: the mesh is the caller's, trusted, enabled and fresh, a grant to that mesh that
  is enabled and whose closed window contains the instant lists the token, and so does the allowlist of
  the namespace.\<close>

definition entitled :: "'n foreign \<Rightarrow> trusted_mesh list \<Rightarrow> grant list \<Rightarrow> (string \<Rightarrow> string set) \<Rightarrow> string \<Rightarrow> string \<Rightarrow> int \<Rightarrow> string \<Rightarrow> bool" where
  "entitled F trusted grants allow fqdn namespace_id now c \<longleftrightarrow>
     (\<exists>t g. last_trusted trusted fqdn = Some t \<and> tm_enabled t \<and> trust_fresh F t now
        \<and> g \<in> set grants \<and> gr_mesh_fqdn g = fqdn \<and> gr_enabled g \<and> gr_valid_from g \<le> now \<and> now \<le> gr_valid_until g
        \<and> c \<in> gr_capabilities g \<and> c \<in> allow namespace_id)"

locale trust_mirror =
  fixes store :: trust_store
    and trusted :: "trusted_mesh list"
    and grants :: "grant list"
    and allow :: "string \<Rightarrow> string set"
  assumes trusted_mesh_law: "ts_trusted_mesh store fqdn = last_trusted trusted fqdn"
    and grants_law: "ts_grants_for_mesh store fqdn = filter (\<lambda>g. gr_mesh_fqdn g = fqdn) grants"
    and exposable_law: "ts_exposable_for_namespace store = allow"
begin

lemma resolve_entitled:
  "resolve_cross_mesh_caps F store ident namespace_id now =
     {c. \<exists>fqdn. ident = ''mesh:'' @ fqdn \<and> entitled F trusted grants allow fqdn namespace_id now c}"
proof (cases "strip_prefix ''mesh:'' ident")
  case None
  then show ?thesis by (auto simp: resolve_cross_mesh_caps_def strip_prefix_def prefix_def split: if_splits)
next
  case (Some fqdn)
  then have ident: "ident = ''mesh:'' @ fqdn" by (auto simp: strip_prefix_def prefix_def split: if_splits)
  have fold: "foldl (\<lambda>acc g. if grant_live now g then acc \<union> gr_capabilities g else acc) C gs =
      C \<union> {c. \<exists>g\<in>set gs. grant_live now g \<and> c \<in> gr_capabilities g}" for gs C
    by (induction gs arbitrary: C) auto
  show ?thesis
  proof (cases "last_trusted trusted fqdn")
    case None
    then show ?thesis using Some ident by (simp add: resolve_cross_mesh_caps_def trusted_mesh_law entitled_def)
  next
    case t: (Some t)
    have "resolve_cross_mesh_caps F store ident namespace_id now =
        (if tm_enabled t \<and> trust_fresh F t now
         then {c. \<exists>g\<in>set grants. gr_mesh_fqdn g = fqdn \<and> grant_live now g \<and> c \<in> gr_capabilities g} \<inter> allow namespace_id else {})"
      using Some t by (auto simp: resolve_cross_mesh_caps_def trusted_mesh_law grants_law exposable_law fold)
    moreover have "entitled F trusted grants allow fqdn namespace_id now c \<longleftrightarrow> tm_enabled t \<and> trust_fresh F t now
        \<and> (\<exists>g\<in>set grants. gr_mesh_fqdn g = fqdn \<and> grant_live now g \<and> c \<in> gr_capabilities g) \<and> c \<in> allow namespace_id" for c
      using t by (auto simp: entitled_def grant_live_def not_less)
    ultimately show ?thesis using ident by auto
  qed
qed

end

section \<open>Snapshots keep the contract\<close>

lemma foldl_insert_trusted: "foldl insert_trusted m ts fqdn = (case last_trusted ts fqdn of None \<Rightarrow> m fqdn | Some t \<Rightarrow> Some t)"
  by (induction ts arbitrary: m rule: rev_induct) (auto simp: insert_trusted_def last_trusted_def)

lemma foldl_push_grant:
  "(case foldl push_grant m gs fqdn of None \<Rightarrow> [] | Some xs \<Rightarrow> xs) =
     (case m fqdn of None \<Rightarrow> [] | Some xs \<Rightarrow> xs) @ filter (\<lambda>g. gr_mesh_fqdn g = fqdn) gs"
  by (induction gs arbitrary: m rule: rev_induct) (auto simp: push_grant_def)

definition last_allow :: "(string \<times> string set) list \<Rightarrow> string \<Rightarrow> string set" where
  "last_allow es ns = (case map_of (rev es) ns of None \<Rightarrow> {} | Some cs \<Rightarrow> cs)"

lemma foldl_exposable: "foldl (\<lambda>m (ns, caps). m(ns \<mapsto> caps)) m es ns = (case map_of (rev es) ns of None \<Rightarrow> m ns | Some cs \<Rightarrow> Some cs)"
  by (induction es arbitrary: m rule: rev_induct) auto

interpretation parts: trust_mirror "handle (from_parts ts gs es)" ts gs "last_allow es" for ts gs es
proof unfold_locales
  fix fqdn
  show "ts_trusted_mesh (handle (from_parts ts gs es)) fqdn = last_trusted ts fqdn"
    by (simp add: handle_def from_parts_def foldl_insert_trusted split: option.splits)
  show "ts_grants_for_mesh (handle (from_parts ts gs es)) fqdn = filter (\<lambda>g. gr_mesh_fqdn g = fqdn) gs"
    using foldl_push_grant [of Map.empty gs fqdn] by (simp add: handle_def from_parts_def)
  show "ts_exposable_for_namespace (handle (from_parts ts gs es)) = last_allow es"
    by (auto simp: handle_def from_parts_def foldl_exposable last_allow_def fun_eq_iff split: option.splits)
qed

text \<open>A caller that no mesh signed for gets the local policy; one that a mesh signed for gets exactly its
  non-empty entitlements, and never the local policy.\<close>

lemma combinator_mirror:
  assumes "trust_mirror (handle s) ts gs allow"
  shows "with_cross_mesh_grants F base ns s now peer =
    (case signed_ident peer of
       None \<Rightarrow> base peer
     | Some ident \<Rightarrow> if prefix ''mesh:'' ident then {c. c \<noteq> [] \<and> entitled F ts gs allow (drop 5 ident) ns now c} else base peer)"
proof (cases "signed_ident peer")
  case None
  then show ?thesis by (simp add: with_cross_mesh_grants_def)
next
  case (Some ident)
  show ?thesis
  proof (cases "prefix ''mesh:'' ident")
    case True
    then obtain fqdn where "ident = ''mesh:'' @ fqdn" by (auto simp: prefix_def)
    then show ?thesis
      using Some by (auto simp: with_cross_mesh_grants_def trust_mirror.resolve_entitled [OF assms] capability_new_def split: if_splits)
  next
    case False
    then show ?thesis using Some by (simp add: with_cross_mesh_grants_def)
  qed
qed

text \<open>The policy over a snapshot decides exactly by the records it was built from.  A caller with a
  \<^verbatim>\<open>mesh:\<close> identity gets the non-empty tokens that some enabled grant to its mesh, inside its window, gives
  and the namespace's allowlist exposes, provided the mesh's last trust record is enabled and fresh,
  and nothing of the local policy; every other caller gets exactly the local policy.\<close>

theorem cross_mesh_policy_exact:
  "with_cross_mesh_grants F base ns (from_parts ts gs es) now peer =
    (case signed_ident peer of
       None \<Rightarrow> base peer
     | Some ident \<Rightarrow>
         if prefix ''mesh:'' ident then {c. c \<noteq> [] \<and> entitled F ts gs (last_allow es) (drop 5 ident) ns now c} else base peer)"
  by (rule combinator_mirror [OF parts.trust_mirror_axioms])

end
