(* ===== verification/Mesh_Envelope.thy ===== *)
theory Mesh_Envelope
  imports Mesh_Sig Cosmix_Map
begin

text \<open>
  The signed envelope of a call from another mesh (\<^verbatim>\<open>cosmix-lib-mesh-trust/src/envelope.rs\<close>) and the
  freshness of its timestamp (\<^verbatim>\<open>freshness.rs\<close>).  The derived JSON parser of the envelope type is the
  parameter \<open>from_slice\<close>; instants and durations are numbers of nanoseconds.  A signature over the
  canonical bytes covers all twelve fields.
\<close>

section \<open>The envelope\<close>

definition ENVELOPE_VERSION_V1 :: string where "ENVELOPE_VERSION_V1 = ''v1''"

record 'n envelope =
  envelope_version :: string
  target_mesh :: string
  target_service :: string
  target_endpoint :: string
  caller_mesh :: string
  caller_selector :: string
  caller_node_id :: string
  env_command :: string
  env_headers :: "'n json"
  env_body :: "'n json"
  env_ts :: string
  env_nonce :: string

record 'n signed_envelope =
  se_envelope :: "'n envelope"
  se_signature :: string

datatype envelope_error =
    EnvelopeJson
  | UnsupportedVersion string
  | EmptyField string
  | HeadersNotObject string

definition required_fields :: "'n envelope \<Rightarrow> (string \<times> string) list" where
  "required_fields e =
     [(''target_mesh'', target_mesh e), (''target_service'', target_service e), (''target_endpoint'', target_endpoint e),
      (''caller_mesh'', caller_mesh e), (''caller_selector'', caller_selector e), (''caller_node_id'', caller_node_id e),
      (''command'', env_command e), (''ts'', env_ts e), (''nonce'', env_nonce e)]"

fun headers_shape :: "'n json \<Rightarrow> (envelope_error, unit) result" where
  "headers_shape (JObject _) = Inr ()"
| "headers_shape JNull = Inl (HeadersNotObject ''null'')"
| "headers_shape (JBool _) = Inl (HeadersNotObject ''bool'')"
| "headers_shape (JNumber _) = Inl (HeadersNotObject ''number'')"
| "headers_shape (JString _) = Inl (HeadersNotObject ''string'')"
| "headers_shape (JArray _) = Inl (HeadersNotObject ''array'')"

definition validate_envelope :: "'n envelope \<Rightarrow> (envelope_error, unit) result" where
  "validate_envelope e =
     (if envelope_version e \<noteq> ENVELOPE_VERSION_V1 then Inl (UnsupportedVersion (envelope_version e))
      else (case find (\<lambda>nv. snd nv = []) (required_fields e) of
              Some nv \<Rightarrow> Inl (EmptyField (fst nv))
            | None \<Rightarrow> headers_shape (env_headers e)))"

definition parse_envelope :: "(string \<Rightarrow> 'n signed_envelope option) \<Rightarrow> string \<Rightarrow> (envelope_error, 'n signed_envelope) result" where
  "parse_envelope from_slice wire =
     and_then (case from_slice wire of None \<Rightarrow> Inl EnvelopeJson | Some p \<Rightarrow> Inr p) (\<lambda>parsed.
     and_then (validate_envelope (se_envelope parsed)) (\<lambda>_. Inr parsed))"

text \<open>The inserts of \<^verbatim>\<open>canonical_bytes\<close>, in their order, and the loop over the map.\<close>

definition envelope_members :: "'n envelope \<Rightarrow> (string \<times> 'n json) list" where
  "envelope_members e =
     [(''body'', env_body e), (''caller_mesh'', JString (caller_mesh e)), (''caller_node_id'', JString (caller_node_id e)),
      (''caller_selector'', JString (caller_selector e)), (''command'', JString (env_command e)),
      (''envelope_version'', JString (envelope_version e)), (''headers'', env_headers e), (''nonce'', JString (env_nonce e)),
      (''target_endpoint'', JString (target_endpoint e)), (''target_mesh'', JString (target_mesh e)),
      (''target_service'', JString (target_service e)), (''ts'', JString (env_ts e))]"

definition envelope_map :: "'n envelope \<Rightarrow> (string, 'n json) bmap" where
  "envelope_map e = fold (\<lambda>(k, v). bm_insert k v) (envelope_members e) []"

definition canonical_bytes :: "('n \<Rightarrow> string) \<Rightarrow> 'n envelope \<Rightarrow> string" where
  "canonical_bytes sh e =
     ''{'' @ join_with (CHR '','')
       (map (\<lambda>kv. emit_json_string (fst kv) @ '':'' @ emit_value sh (snd kv)) (envelope_map e)) @ ''}''"

section \<open>Freshness\<close>

definition DEFAULT_FRESHNESS_WINDOW_SECS :: int where "DEFAULT_FRESHNESS_WINDOW_SECS = 5 * 60"

datatype freshness_error = InvalidTimestamp | OutsideWindow int int

text \<open>\<^verbatim>\<open>num_seconds\<close> drops the fraction towards zero.\<close>

definition num_seconds :: "int \<Rightarrow> int" where
  "num_seconds d = (if d < 0 then - ((- d) div 1000000000) else d div 1000000000)"

definition parse_rfc3339 :: "'n foreign \<Rightarrow> string \<Rightarrow> (freshness_error, int) result" where
  "parse_rfc3339 F s = (case rfc3339 F s of None \<Rightarrow> Inl InvalidTimestamp | Some t \<Rightarrow> Inr t)"

definition check_freshness :: "int \<Rightarrow> int \<Rightarrow> int \<Rightarrow> (freshness_error, unit) result" where
  "check_freshness envelope_ts now window =
     (let drift = \<bar>now - envelope_ts\<bar>
      in if window < drift then Inl (OutsideWindow (num_seconds drift) (num_seconds window)) else Inr ())"

definition check_envelope_ts :: "'n foreign \<Rightarrow> string \<Rightarrow> int \<Rightarrow> int \<Rightarrow> (freshness_error, unit) result" where
  "check_envelope_ts F ts now window = and_then (parse_rfc3339 F ts) (\<lambda>t. check_freshness t now window)"

section \<open>What the signature covers\<close>

lemma bm_inv_fold_insert: "bm_inv m \<Longrightarrow> bm_inv (fold (\<lambda>(k, v). bm_insert k v) kvs m)"
  by (induction kvs arbitrary: m) (auto simp: bm_inv_insert)

lemma bm_get_fold_insert: "bm_get (fold (\<lambda>(k, v). bm_insert k v) kvs m) = bm_get m ++ map_of (rev kvs)"
  by (induction kvs arbitrary: m) (auto simp: bm_get_insert fun_eq_iff map_add_def split: option.splits)

lemma sort_bm: "bm_inv m \<Longrightarrow> sort_key fst m = m"
  by (rule sort_key_id_if_sorted) (auto simp: bm_inv_def intro: strict_sorted_imp_sorted)

lemma envelope_map_inv: "bm_inv (envelope_map e)"
  unfolding envelope_map_def by (rule bm_inv_fold_insert) (simp add: bm_inv_def)

lemma canonical_bytes_object: "canonical_bytes sh e = emit_value sh (JObject (envelope_map e))"
  by (simp add: canonical_bytes_def sort_bm [OF envelope_map_inv])

lemma envelope_map_get: "bm_get (envelope_map e) = map_of (rev (envelope_members e))"
  unfolding envelope_map_def bm_get_fold_insert by (auto simp: bm_get_def fun_eq_iff map_add_def split: option.splits)

definition same_content :: "'n envelope \<Rightarrow> 'n envelope \<Rightarrow> bool" where
  "same_content e f \<longleftrightarrow> canon (env_headers e) = canon (env_headers f) \<and> canon (env_body e) = canon (env_body f)
     \<and> e\<lparr>env_headers := JNull, env_body := JNull\<rparr> = f\<lparr>env_headers := JNull, env_body := JNull\<rparr>"

lemma canon_member:
  assumes "canon (JObject (envelope_map e)) = canon (JObject (envelope_map f))"
  shows "map_option canon (map_of (rev (envelope_members e)) k) = map_option canon (map_of (rev (envelope_members f)) k)"
proof -
  let ?g = "\<lambda>kv :: string \<times> 'a json. (fst kv, canon (snd kv))"
  have "map ?g (envelope_map e) = map ?g (envelope_map f)"
    using assms by (simp add: sort_bm [OF envelope_map_inv])
  then have "map_of (map ?g (envelope_map e)) k = map_of (map ?g (envelope_map f)) k" by simp
  moreover have "map_of (map ?g m) k = map_option canon (bm_get m k)" for m
    by (induction m) (auto simp: bm_get_def)
  ultimately show ?thesis by (simp add: envelope_map_get)
qed

lemma envelope_map_canon:
  assumes "same_content e f"
  shows "canon (JObject (envelope_map e)) = canon (JObject (envelope_map f))"
proof -
  let ?g = "\<lambda>kv :: string \<times> 'a json. (fst kv, canon (snd kv))"
  have mem: "map ?g (envelope_members e) = map ?g (envelope_members f)"
    using assms by (cases e; cases f) (simp add: envelope_members_def same_content_def)
  have "map ?g (fold (\<lambda>(k, v). bm_insert k v) kvs m) = fold (\<lambda>(k, v). bm_insert k v) (map ?g kvs) (map ?g m)" for kvs m
  proof (induction kvs arbitrary: m)
    case (Cons kv kvs)
    have "map ?g (bm_insert k' v m) = bm_insert k' (canon v) (map ?g m)" for k' v m
      by (induction m) auto
    then show ?case using Cons by (cases kv) simp
  qed simp
  then have "map ?g (envelope_map e) = map ?g (envelope_map f)" unfolding envelope_map_def mem by (simp add: mem)
  then show ?thesis by (simp add: sort_bm [OF envelope_map_inv])
qed

lemma same_content_iff:
  "canon (JObject (envelope_map e)) = canon (JObject (envelope_map f)) \<longleftrightarrow> same_content e f"
proof
  assume "canon (JObject (envelope_map e)) = canon (JObject (envelope_map f))"
  note m = canon_member [OF this]
  show "same_content e f"
    using m [of "''body''"] m [of "''caller_mesh''"] m [of "''caller_node_id''"] m [of "''caller_selector''"] m [of "''command''"]
      m [of "''envelope_version''"] m [of "''headers''"] m [of "''nonce''"] m [of "''target_endpoint''"] m [of "''target_mesh''"]
      m [of "''target_service''"] m [of "''ts''"]
    by (cases e; cases f) (simp add: envelope_members_def same_content_def)
qed (rule envelope_map_canon)

text \<open>the signature of a cross-mesh call covers the whole envelope.  Two envelopes have the same
  canonical bytes exactly when their ten text fields are equal and their headers and bodies are equal
  up to the order of object members.  So a signed call cannot be replayed for another mesh, service,
  endpoint, caller, command, timestamp or nonce, and neither the order of fields on the wire nor white
  space matters to the verifier.\<close>

theorem envelope_signature_covers:
  assumes "number_syntax sh"
  shows "canonical_bytes sh e = canonical_bytes sh f \<longleftrightarrow> same_content e f"
proof -
  have "emit_value sh v = emit_value sh w \<longleftrightarrow> canon v = canon w" for v w
    using emit_unique [OF assms, of v "[]" w "[]"] emit_canon [of sh v] emit_canon [of sh w] by (auto simp: ends_value_def)
  then show ?thesis unfolding canonical_bytes_object same_content_iff [symmetric] by blast
qed

definition sample_envelope :: "bool envelope" where
  "sample_envelope = \<lparr>envelope_version = ''v1'', target_mesh = ''b.net'', target_service = ''maild'', target_endpoint = ''/v1/mesh-call'',
     caller_mesh = ''a.net'', caller_selector = ''2026q3'', caller_node_id = ''n'', env_command = ''maild.props.list'',
     env_headers = JObject [], env_body = JNull, env_ts = ''2026-05-20T03:14:00Z'', env_nonce = ''AAAA''\<rparr>"

theorem envelope_signature_covers_witness:
  "number_syntax bit_show
   \<and> canonical_bytes bit_show sample_envelope \<noteq> canonical_bytes bit_show (sample_envelope\<lparr>env_nonce := ''BBBB''\<rparr>)"
  using envelope_signature_covers [OF bit_show_syntax] bit_show_syntax
  by (simp add: same_content_def sample_envelope_def)

text \<open>The envelopes the receiver goes on with.\<close>

lemma parse_envelope_iff:
  "parse_envelope fs wire = Inr p \<longleftrightarrow>
     fs wire = Some p \<and> envelope_version (se_envelope p) = ''v1'' \<and> (\<forall>nv\<in>set (required_fields (se_envelope p)). snd nv \<noteq> [])
     \<and> (\<exists>ms. env_headers (se_envelope p) = JObject ms)"
proof -
  have h: "headers_shape v = Inr u \<longleftrightarrow> (\<exists>ms. v = JObject ms)" for v :: "'a json" and u by (cases v) auto
  have "validate_envelope e = Inr u \<longleftrightarrow> envelope_version e = ''v1'' \<and> (\<forall>nv\<in>set (required_fields e). snd nv \<noteq> [])
      \<and> (\<exists>ms. env_headers e = JObject ms)" for e :: "'a envelope" and u
    unfolding h [symmetric, of _ u]
    by (auto simp: validate_envelope_def ENVELOPE_VERSION_V1_def find_None_iff find_Some_iff split: option.splits if_splits)
  then have v: "validate_envelope (se_envelope p) = Inr () \<longleftrightarrow> envelope_version (se_envelope p) = ''v1''
      \<and> (\<forall>nv\<in>set (required_fields (se_envelope p)). snd nv \<noteq> []) \<and> (\<exists>ms. env_headers (se_envelope p) = JObject ms)" by blast
  have "and_then x (\<lambda>_. Inr a) = Inr p \<longleftrightarrow> a = p \<and> x = Inr ()" for x :: "(envelope_error, unit) result" and a
    by (cases x) auto
  then show ?thesis unfolding v [symmetric] by (auto simp: parse_envelope_def split: option.splits)
qed

lemma check_envelope_ts_iff:
  "check_envelope_ts F ts now window = Inr () \<longleftrightarrow> (\<exists>t. rfc3339 F ts = Some t \<and> \<bar>now - t\<bar> \<le> window)"
  by (auto simp: check_envelope_ts_def parse_rfc3339_def check_freshness_def Let_def split: option.splits)

end
