(* ===== verification/Props_Value.thy ===== *)
theory Props_Value
  imports Cosmix_Map Cosmix_Pat Edit_Utf8
begin

text \<open>
  Property values, paths and trees (\<^verbatim>\<open>cosmix-lib-props-core\<close>: \<^verbatim>\<open>value.rs\<close>, \<^verbatim>\<open>path.rs\<close>, \<^verbatim>\<open>tree.rs\<close>, \<^verbatim>\<open>redact.rs\<close>,
  \<^verbatim>\<open>diff.rs\<close>): which strings are paths, what building a snapshot from leaves and redacting it do, and which
  changes the difference of two snapshots reports.  The type of floats is a parameter with its equality,
  which is not reflexive on NaN.
\<close>

section \<open>Values\<close>

datatype 'f prop_value =
    PNull
  | PBool bool
  | PInt int
  | PUInt nat
  | PFloat 'f
  | PString string
  | PList "'f prop_value list"
  | PObject "(string, 'f prop_value) bmap"

fun type_name :: "'f prop_value \<Rightarrow> string" where
  "type_name PNull = ''null''"
| "type_name (PBool _) = ''bool''"
| "type_name (PInt _) = ''i64''"
| "type_name (PUInt _) = ''u64''"
| "type_name (PFloat _) = ''f64''"
| "type_name (PString _) = ''string''"
| "type_name (PList _) = ''list''"
| "type_name (PObject _) = ''object''"

fun is_object :: "'f prop_value \<Rightarrow> bool" where
  "is_object (PObject _) \<longleftrightarrow> True"
| "is_object _ \<longleftrightarrow> False"

text \<open>The derived equality of \<^verbatim>\<open>PropValue\<close>, with \<open>feq\<close> for the floats.\<close>

fun pv_eq :: "('f \<Rightarrow> 'f \<Rightarrow> bool) \<Rightarrow> 'f prop_value \<Rightarrow> 'f prop_value \<Rightarrow> bool" where
  "pv_eq feq PNull PNull \<longleftrightarrow> True"
| "pv_eq feq (PBool a) (PBool b) \<longleftrightarrow> a = b"
| "pv_eq feq (PInt a) (PInt b) \<longleftrightarrow> a = b"
| "pv_eq feq (PUInt a) (PUInt b) \<longleftrightarrow> a = b"
| "pv_eq feq (PFloat a) (PFloat b) \<longleftrightarrow> feq a b"
| "pv_eq feq (PString a) (PString b) \<longleftrightarrow> a = b"
| "pv_eq feq (PList as) (PList bs) \<longleftrightarrow> list_all2 (pv_eq feq) as bs"
| "pv_eq feq (PObject as) (PObject bs) \<longleftrightarrow> list_all2 (\<lambda>(k, a) (l, b). k = l \<and> pv_eq feq a b) as bs"
| "pv_eq feq _ _ \<longleftrightarrow> False"

text \<open>Objects are \<^verbatim>\<open>BTreeMap\<close>s at every depth.\<close>

fun pv_ok :: "'f prop_value \<Rightarrow> bool" where
  "pv_ok (PList vs) \<longleftrightarrow> list_all pv_ok vs"
| "pv_ok (PObject m) \<longleftrightarrow> bm_inv m \<and> list_all (\<lambda>(k, v). pv_ok v) m"
| "pv_ok _ \<longleftrightarrow> True"

section \<open>Paths\<close>

datatype prop_path_error =
    PathEmpty
  | PathEmptySegment
  | PathInvalidChar string string
  | PathWildcard

definition path_char :: "char \<Rightarrow> bool" where
  "path_char c \<longleftrightarrow> is_ascii_lowercase c \<or> is_ascii_digit c \<or> c = CHR ''_''"

text \<open>The scan over the characters of a segment stops at the first that is not allowed.  Allowed
  characters are single bytes, so it stops at the first byte that is not allowed, which leads a character.\<close>

definition check_segment :: "string \<Rightarrow> (prop_path_error, unit) result" where
  "check_segment seg =
     (if seg = [] then Inl PathEmptySegment
      else if seg = ''*'' \<or> CHR ''*'' \<in> set seg then Inl PathWildcard
      else case dropWhile path_char seg of
             [] \<Rightarrow> Inr ()
           | c # rest \<Rightarrow> Inl (PathInvalidChar seg (take (utf8_len c) (c # rest))))"

definition prop_path_new :: "string \<Rightarrow> (prop_path_error, string) result" where
  "prop_path_new s =
     (if s = [] then Inl PathEmpty
      else and_then (try_map check_segment (split_on (CHR ''.'') s)) (\<lambda>_. Inr s))"

definition segments :: "string \<Rightarrow> string list" where
  "segments p = split_on (CHR ''.'') p"

definition path_starts_with :: "string \<Rightarrow> string \<Rightarrow> bool" where
  "path_starts_with self other \<longleftrightarrow>
     self = other
     \<or> (prefix other self \<and> length other < length self \<and> self ! length other = CHR ''.'')"

section \<open>Trees\<close>

text \<open>The default \<^verbatim>\<open>PropTree::get\<close>: a walk along the segments.\<close>

fun get_segs :: "string list \<Rightarrow> 'f prop_value \<Rightarrow> 'f prop_value option" where
  "get_segs [] cur = Some cur"
| "get_segs (seg # segs) (PObject m) = Option.bind (bm_get m seg) (get_segs segs)"
| "get_segs (seg # segs) _ = None"

definition tree_get :: "'f prop_value \<Rightarrow> string \<Rightarrow> 'f prop_value option" where
  "tree_get snapshot path = get_segs (segments path) snapshot"

fun insert_at :: "(string, 'f prop_value) bmap \<Rightarrow> string \<Rightarrow> string list \<Rightarrow> 'f prop_value \<Rightarrow> (string, 'f prop_value) bmap" where
  "insert_at node head [] v = bm_insert head v node"
| "insert_at node head (h # rest) v =
     bm_insert head
       (PObject (insert_at (case bm_get node head of Some (PObject child) \<Rightarrow> child | _ \<Rightarrow> []) h rest v)) node"

text \<open>A path has at least one segment.\<close>

definition insert_leaf :: "(string, 'f prop_value) bmap \<Rightarrow> string \<times> 'f prop_value \<Rightarrow> (string, 'f prop_value) bmap" where
  "insert_leaf root leaf = (let segs = segments (fst leaf) in insert_at root (hd segs) (tl segs) (snd leaf))"

definition build_snapshot :: "(string \<times> 'f prop_value) list \<Rightarrow> 'f prop_value" where
  "build_snapshot leaves = PObject (foldl insert_leaf [] leaves)"

section \<open>Redaction\<close>

fun redact :: "'f prop_value \<Rightarrow> 'f prop_value" where
  "redact (PString _) = PString ''***''"
| "redact (PInt _) = PNull"
| "redact (PUInt _) = PNull"
| "redact (PFloat _) = PNull"
| "redact (PBool _) = PNull"
| "redact PNull = PNull"
| "redact (PList items) = PList (map redact items)"
| "redact (PObject m) = PObject (map (\<lambda>(k, v). (k, redact v)) m)"

text \<open>\<^verbatim>\<open>get_mut\<close> followed by an assignment: the entry is replaced in place, if there is one.\<close>

definition bm_adjust :: "'k \<Rightarrow> ('v \<Rightarrow> 'v) \<Rightarrow> ('k, 'v) bmap \<Rightarrow> ('k, 'v) bmap" where
  "bm_adjust k f m = bm_map_values (\<lambda>k' v. if k' = k then f v else v) m"

fun redact_at_segs :: "string list \<Rightarrow> 'f prop_value \<Rightarrow> 'f prop_value" where
  "redact_at_segs (head # rest) (PObject m) =
     PObject (bm_adjust head (if rest = [] then redact else redact_at_segs rest) m)"
| "redact_at_segs _ node = node"

definition redact_at_path :: "string \<Rightarrow> 'f prop_value \<Rightarrow> 'f prop_value" where
  "redact_at_path path root = redact_at_segs (segments path) root"

text \<open>A tree is its snapshot, its leaf paths and its schema; of a description only \<^verbatim>\<open>sensitive\<close> is read here.\<close>

record ('f, 'd) prop_tree =
  tree_snapshot :: "'f prop_value"
  tree_list :: "string list"
  tree_describe :: "string \<Rightarrow> 'd option"

definition redacted_snapshot :: "('d \<Rightarrow> bool) \<Rightarrow> ('f, 'd) prop_tree \<Rightarrow> 'f prop_value" where
  "redacted_snapshot sensitive t =
     foldl (\<lambda>snap path. case tree_describe t path of
          Some d \<Rightarrow> if sensitive d then redact_at_path path snap else snap
        | None \<Rightarrow> snap)
       (tree_snapshot t) (tree_list t)"

section \<open>Differences\<close>

definition keys_union :: "(string, 'v) bmap \<Rightarrow> (string, 'v) bmap \<Rightarrow> string list" where
  "keys_union o' n = sort (remdups (map fst o' @ map fst n))"

definition child_or_null :: "(string, 'f prop_value) bmap \<Rightarrow> string \<Rightarrow> 'f prop_value" where
  "child_or_null m k = (case bm_get m k of Some v \<Rightarrow> v | None \<Rightarrow> PNull)"

lemma size_child_less:
  "k \<in> fst ` set m \<Longrightarrow> size (child_or_null m k) < size (PObject m)"
proof -
  assume "k \<in> fst ` set m"
  then obtain v where v: "bm_get m k = Some v"
    by (metis bm_get_def map_of_eq_None_iff not_Some_eq)
  then have "(k, v) \<in> set m" by (simp add: bm_get_def map_of_SomeD)
  then have "size_prod (\<lambda>_. 0) size (k, v) \<le> size_list (size_prod (\<lambda>_. 0) size) m"
    by (rule size_list_estimation') simp
  then show ?thesis using v by (simp add: child_or_null_def)
qed

lemma size_child_le: "size (child_or_null m k) \<le> size (PObject m)"
proof (cases "k \<in> fst ` set m")
  case False
  then have "bm_get m k = None" by (simp add: bm_get_def map_of_eq_None_iff)
  then show ?thesis by (simp add: child_or_null_def)
qed (simp add: size_child_less less_imp_le del: prop_value.size)

lemma size_children_less:
  "k \<in> set (keys_union m n) \<Longrightarrow>
     size (child_or_null m k) + size (child_or_null n k) < size (PObject m) + size (PObject n)"
proof -
  assume "k \<in> set (keys_union m n)"
  then consider "k \<in> fst ` set m" | "k \<in> fst ` set n" by (auto simp: keys_union_def)
  then show ?thesis
  proof cases
    case 1
    then show ?thesis by (intro add_less_le_mono size_child_less size_child_le)
  next
    case 2
    then show ?thesis by (intro add_le_less_mono size_child_less size_child_le)
  qed
qed

function walk ::
  "('f \<Rightarrow> 'f \<Rightarrow> bool) \<Rightarrow> string list \<Rightarrow> 'f prop_value \<Rightarrow> 'f prop_value \<Rightarrow> (string \<times> 'f prop_value \<times> 'f prop_value) list" where
  "walk feq pre old new =
     (case (old, new) of
        (PObject o', PObject n) \<Rightarrow>
          concat (map (\<lambda>k. walk feq (pre @ [k]) (child_or_null o' k) (child_or_null n k)) (keys_union o' n))
      | _ \<Rightarrow>
          if pv_eq feq old new then []
          else if pre = [] then []
          else case prop_path_new (join_with (CHR ''.'') pre) of
                 Inr path \<Rightarrow> [(path, old, new)]
               | Inl _ \<Rightarrow> [])"
  by auto
termination
  by (relation "measure (\<lambda>(feq, pre, old, new). size old + size new)")
    (auto simp: size_children_less simp del: prop_value.size)

declare walk.simps [simp del]

definition diff :: "('f \<Rightarrow> 'f \<Rightarrow> bool) \<Rightarrow> 'f prop_value \<Rightarrow> 'f prop_value \<Rightarrow> (string \<times> 'f prop_value \<times> 'f prop_value) list" where
  "diff feq old new = walk feq [] old new"


section \<open>Which strings are paths\<close>

definition valid_segment :: "string \<Rightarrow> bool" where
  "valid_segment seg \<longleftrightarrow> seg \<noteq> [] \<and> list_all path_char seg"

lemma path_char_not [simp]: "\<not> path_char (CHR ''*'')" "\<not> path_char (CHR ''.'')"
  by (simp_all add: path_char_def is_ascii_lowercase_def is_ascii_digit_def less_eq_char_def)

lemma check_segment_ok: "check_segment seg = Inr () \<longleftrightarrow> valid_segment seg"
proof (cases "list_all path_char seg")
  case True
  then have "CHR ''*'' \<notin> set seg" "dropWhile path_char seg = []"
    using path_char_not(1) by (auto simp: list_all_iff dropWhile_eq_Nil_conv)
  then show ?thesis using True by (auto simp: check_segment_def valid_segment_def simp del: dropWhile_eq_Nil_conv)
next
  case False
  then have "dropWhile path_char seg \<noteq> []" by (simp add: dropWhile_eq_Nil_conv list_all_iff)
  then show ?thesis using False by (auto simp: check_segment_def valid_segment_def split: list.split)
qed

lemma try_map_units: "try_map f xs = Inr ys \<Longrightarrow> list_all (\<lambda>x. f x = Inr ()) xs" for f :: "'a \<Rightarrow> ('e, unit) result"
proof (induction xs arbitrary: ys)
  case (Cons x xs)
  then show ?case by (cases "f x"; cases "try_map f xs") auto
qed simp

lemma try_map_unitsI: "list_all (\<lambda>x. f x = Inr ()) xs \<Longrightarrow> \<exists>ys. try_map f xs = Inr ys" for f :: "'a \<Rightarrow> ('e, unit) result"
  by (induction xs) auto

lemma prop_path_new_ok: "prop_path_new s = Inr p \<longleftrightarrow> p = s \<and> list_all valid_segment (segments s)"
proof -
  have "(\<exists>ys. try_map check_segment (segments s) = Inr ys) \<longleftrightarrow> list_all valid_segment (segments s)"
    using try_map_units [of check_segment "segments s"] try_map_unitsI [of check_segment "segments s"]
    by (auto simp: check_segment_ok)
  moreover have "\<not> list_all valid_segment (segments [])" by (simp add: segments_def valid_segment_def)
  ultimately show ?thesis
    by (cases "try_map check_segment (segments s)") (auto simp: prop_path_new_def segments_def)
qed

lemma valid_segment_no_dot: "valid_segment k \<Longrightarrow> CHR ''.'' \<notin> set k"
  using path_char_not(2) by (auto simp: valid_segment_def list_all_iff)

lemma segments_join: "ks \<noteq> [] \<Longrightarrow> list_all valid_segment ks \<Longrightarrow> segments (join_with (CHR ''.'') ks) = ks"
  by (simp add: segments_def split_join list_all_iff valid_segment_no_dot)

lemma join_path_ok: "ks \<noteq> [] \<Longrightarrow> list_all valid_segment ks \<Longrightarrow>
    prop_path_new (join_with (CHR ''.'') ks) = Inr (join_with (CHR ''.'') ks)"
  by (simp add: prop_path_new_ok segments_join)

lemma segments_ne [simp]: "segments p \<noteq> []"
  by (simp add: segments_def)

text \<open>Being at or below a path is being an extension of its segments.\<close>

lemma split_on_append_sep: "split_on c (a @ c # b) = split_on c a @ split_on c b"
  by (induction a) (auto split: list.split)

lemma path_starts_with_segments:
  "path_starts_with a b \<longleftrightarrow> prefix (segments b) (segments a)"
proof
  assume "path_starts_with a b"
  then consider "a = b" | r where "a = b @ CHR ''.'' # r"
    by (auto simp: path_starts_with_def prefix_def nth_append)
      (metis append_Nil2 hd_Cons_tl hd_conv_nth length_0_conv less_numeral_extra(3) list.size(3))
  then show "prefix (segments b) (segments a)"
    by cases (auto simp: segments_def split_on_append_sep)
next
  assume "prefix (segments b) (segments a)"
  then obtain ks where ks: "segments a = segments b @ ks" by (auto simp: prefix_def)
  have a: "a = join_with (CHR ''.'') (segments b @ ks)" by (metis join_split ks segments_def)
  have b: "b = join_with (CHR ''.'') (segments b)" by (simp add: segments_def)
  show "path_starts_with a b"
  proof (cases ks)
    case Nil
    then show ?thesis using a b by (simp add: path_starts_with_def)
  next
    case (Cons k ks')
    have "join_with c (ws @ k # ks') = join_with c ws @ c # join_with c (k # ks')" if "ws \<noteq> []" for c ws
      using that by (induction c ws rule: join_with.induct) (auto simp: join_with_Cons)
    then have "a = b @ CHR ''.'' # join_with (CHR ''.'') ks"
      using a b Cons by (metis segments_ne)
    then show ?thesis by (simp add: path_starts_with_def)
  qed
qed

end
