(* ===== verification/Mesh_Subscriber.thy ===== *)
theory Mesh_Subscriber
  imports Mesh_Caps Mesh_Envelope Props_Value "HOL-Library.Word"
begin

text \<open>
  How the cache of trust records follows the records \<^verbatim>\<open>wgd\<close> keeps: their conversion
  (\<^verbatim>\<open>cosmix-lib-mesh-trust/src/wgd_records.rs\<close>) and the three subscriber tasks (\<^verbatim>\<open>subscriber.rs\<close>).  A task is a
  state machine whose steps are the answers of the client, a remote service; the tasks interleave
  freely.  Property values are those of \<open>Props_Value\<close>, with integers in their ranges.
\<close>

section \<open>Records\<close>

text \<open>Of a record's key only the key string is read, of its metadata nothing.\<close>

record 'f prop_record =
  rec_key :: string
  rec_value :: "'f prop_value"
  rec_version :: nat
  rec_nseq :: nat

















section \<open>The subscriber tasks\<close>


datatype ns_kind = KTrusted | KGrants | KExposable

fun namespace_of :: "ns_kind \<Rightarrow> string" where
  "namespace_of KTrusted = ''wgd.trusted_meshes''"
| "namespace_of KGrants = ''wgd.grants''"
| "namespace_of KExposable = ''wgd.cross_mesh_exposable''"














text \<open>What a task learns at its await points.\<close>

datatype 'f client_event =
    ListOk "'f prop_record list" nat
  | ListErr
  | WatchOk
  | WatchErr
  | Upserted "'f prop_record"
  | Deleted string
  | CaughtUp nat
  | StreamErr
  | StreamEnd
  | Slept





section \<open>What the tasks have observed\<close>


definition events_of :: "ns_kind \<Rightarrow> (ns_kind \<times> 'f client_event) list \<Rightarrow> 'f client_event list" where
  "events_of kd h = map snd (filter (\<lambda>(k, _). k = kd) h)"


lemma events_of_snoc [simp]: "events_of kd (h @ [(k, ev)]) = events_of kd h @ (if k = kd then [ev] else [])"
  by (simp add: events_of_def)






lemma UNIV_ns_kind: "(UNIV :: ns_kind set) = {KTrusted, KGrants, KExposable}"
  using ns_kind.exhaust by auto

lemma finite_ns_kind [simp]: "finite (A :: ns_kind set)"
  by (rule finite_subset [OF subset_UNIV]) (simp add: UNIV_ns_kind)








section \<open>The snapshot mirrors the records\<close>

text \<open>The records that convert, and the tokens they expose.\<close>

definition oks :: "('a \<Rightarrow> ('e, 'b) result) \<Rightarrow> 'a list \<Rightarrow> 'b list" where
  "oks f rs = List.map_filter (\<lambda>r. case f r of Inr x \<Rightarrow> Some x | Inl _ \<Rightarrow> None) rs"


lemma oks_simps [simp]: "oks f [] = []" "oks f (r # rs) = (case f r of Inr x \<Rightarrow> x # oks f rs | Inl _ \<Rightarrow> oks f rs)"
  by (simp_all add: oks_def List.map_filter_def split: sum.splits)









section \<open>Following a server\<close>












section \<open>A concrete run\<close>










end
