(* ===== verification/Props_RevWrite.thy ===== *)
theory Props_RevWrite
  imports Props_Value
begin

text \<open>
  The revisioned write store (\<^verbatim>\<open>cosmix-lib-props-core/src/revwrite.rs\<close>): writes gated on a revision, the
  coalesced stream of changes, and the rule by which a client merges it.  The overflow of the revision
  counter, which the code turns into a panic, is the result \<open>None\<close>.
\<close>

section \<open>The store\<close>

record 'f rev_request =
  rq_path :: string
  rq_value :: "'f prop_value"
  rq_op_id :: string
  rq_if_revision :: "nat option"

record 'f rev_ack =
  ack_revision :: nat
  ack_path :: string
  ack_value :: "'f prop_value"
  ack_source_id :: string
  ack_op_id :: string

text \<open>The printed reason of a rejection is left out.\<close>

record 'f rev_reject =
  rej_path :: string
  rej_op_id :: string
  rej_revision :: nat
  rej_value :: "'f prop_value"

datatype 'f rev_response = Accepted "'f rev_ack" | Rejected "'f rev_reject"

record 'f changed_prop =
  ch_path :: string
  ch_revision :: nat
  ch_value :: "'f prop_value"
  ch_source_id :: string
  ch_op_id :: string

record 'f rev_entry =
  en_value :: "'f prop_value"
  en_revision :: nat
  en_source_id :: string
  en_op_id :: string

record 'f rev_store =
  rs_revision :: nat
  rs_entries :: "(string, 'f rev_entry) bmap"
  rs_dirty :: "(string, unit) bmap"

definition rev_new :: "'f rev_store" where
  "rev_new = \<lparr>rs_revision = 0, rs_entries = [], rs_dirty = []\<rparr>"

definition path_revision :: "'f rev_store \<Rightarrow> string \<Rightarrow> nat" where
  "path_revision s p = (case bm_get (rs_entries s) p of Some e \<Rightarrow> en_revision e | None \<Rightarrow> 0)"

definition rev_get :: "'f rev_store \<Rightarrow> string \<Rightarrow> 'f prop_value option" where
  "rev_get s p = map_option en_value (bm_get (rs_entries s) p)"

definition rev_seed :: "string \<Rightarrow> 'f prop_value \<Rightarrow> string \<Rightarrow> 'f rev_store \<Rightarrow> 'f rev_store" where
  "rev_seed p v source_id s =
     (if bm_contains (rs_entries s) p then s
      else s\<lparr>rs_entries := bm_insert p
               \<lparr>en_value = v, en_revision = 0, en_source_id = source_id, en_op_id = []\<rparr> (rs_entries s)\<rparr>)"

definition rev_apply :: "'f rev_request \<Rightarrow> string \<Rightarrow> 'f rev_store \<Rightarrow> ('f rev_response \<times> 'f rev_store) option" where
  "rev_apply req source_id s =
     (let cur_rev = path_revision s (rq_path req) in
      if (case rq_if_revision req of Some expected \<Rightarrow> expected \<noteq> cur_rev | None \<Rightarrow> False)
      then Some (Rejected \<lparr>rej_path = rq_path req, rej_op_id = rq_op_id req, rej_revision = cur_rev,
             rej_value = (case bm_get (rs_entries s) (rq_path req) of Some e \<Rightarrow> en_value e | None \<Rightarrow> PNull)\<rparr>, s)
      else case checked_add (rs_revision s) 1 of
             None \<Rightarrow> None
           | Some rv \<Rightarrow> Some
               (Accepted \<lparr>ack_revision = rv, ack_path = rq_path req, ack_value = rq_value req,
                  ack_source_id = source_id, ack_op_id = rq_op_id req\<rparr>,
                \<lparr>rs_revision = rv,
                 rs_entries = bm_insert (rq_path req)
                   \<lparr>en_value = rq_value req, en_revision = rv, en_source_id = source_id,
                    en_op_id = rq_op_id req\<rparr> (rs_entries s),
                 rs_dirty = bm_insert (rq_path req) () (rs_dirty s)\<rparr>))"

definition has_changes :: "'f rev_store \<Rightarrow> bool" where
  "has_changes s \<longleftrightarrow> rs_dirty s \<noteq> []"

definition change_of :: "string \<Rightarrow> 'f rev_entry \<Rightarrow> 'f changed_prop" where
  "change_of p e = \<lparr>ch_path = p, ch_revision = en_revision e, ch_value = en_value e,
     ch_source_id = en_source_id e, ch_op_id = en_op_id e\<rparr>"

definition drain_changed :: "'f rev_store \<Rightarrow> 'f changed_prop list \<times> 'f rev_store" where
  "drain_changed s =
     (List.map_filter (\<lambda>p. map_option (change_of p) (bm_get (rs_entries s) p)) (map fst (rs_dirty s)),
      s\<lparr>rs_dirty := []\<rparr>)"

definition accept_if_newer ::
  "(string, 'f changed_prop) bmap \<Rightarrow> 'f changed_prop \<Rightarrow> bool \<times> (string, 'f changed_prop) bmap" where
  "accept_if_newer cache incoming =
     (case bm_get cache (ch_path incoming) of
        Some existing \<Rightarrow>
          if ch_revision incoming \<le> ch_revision existing then (False, cache)
          else (True, bm_insert (ch_path incoming) incoming cache)
      | None \<Rightarrow> (True, bm_insert (ch_path incoming) incoming cache))"

section \<open>Runs\<close>

text \<open>A store with the acknowledgements it has given and the changes it has published, in order.\<close>

inductive rev_run :: "'f rev_store \<Rightarrow> 'f rev_ack list \<Rightarrow> 'f changed_prop list \<Rightarrow> bool" where
  start: "rev_run rev_new [] []"
| seed: "rev_run s as pub \<Longrightarrow> rev_run (rev_seed p v source_id s) as pub"
| accept: "rev_run s as pub \<Longrightarrow> rev_apply req source_id s = Some (Accepted a, s') \<Longrightarrow> rev_run s' (as @ [a]) pub"
| reject: "rev_run s as pub \<Longrightarrow> rev_apply req source_id s = Some (Rejected r, s') \<Longrightarrow> rev_run s' as pub"
| drain: "rev_run s as pub \<Longrightarrow> drain_changed s = (cs, s') \<Longrightarrow> rev_run s' as (pub @ cs)"

lemma rev_apply_Rejected:
  "rev_apply req src s = Some (Rejected r, s') \<Longrightarrow>
     s' = s \<and> rq_if_revision req \<noteq> None \<and> rq_if_revision req \<noteq> Some (path_revision s (rq_path req))
     \<and> rej_revision r = path_revision s (rq_path req)"
  by (auto simp: rev_apply_def Let_def split: if_splits option.splits)

lemma rev_apply_Accepted:
  "rev_apply req src s = Some (Accepted a, s') \<longleftrightarrow>
     (case rq_if_revision req of Some e \<Rightarrow> e = path_revision s (rq_path req) | None \<Rightarrow> True)
     \<and> rs_revision s < u64_max
     \<and> a = \<lparr>ack_revision = Suc (rs_revision s), ack_path = rq_path req, ack_value = rq_value req,
            ack_source_id = src, ack_op_id = rq_op_id req\<rparr>
     \<and> s' = \<lparr>rs_revision = Suc (rs_revision s),
            rs_entries = bm_insert (rq_path req)
              \<lparr>en_value = rq_value req, en_revision = Suc (rs_revision s), en_source_id = src,
               en_op_id = rq_op_id req\<rparr> (rs_entries s),
            rs_dirty = bm_insert (rq_path req) () (rs_dirty s)\<rparr>"
  by (auto simp: rev_apply_def Let_def checked_add_def split: option.splits)

definition rev_inv :: "'f rev_store \<Rightarrow> 'f changed_prop list \<Rightarrow> bool" where
  "rev_inv s pub \<longleftrightarrow>
     bm_inv (rs_entries s) \<and> bm_inv (rs_dirty s)
     \<and> (\<forall>p e. bm_get (rs_entries s) p = Some e \<longrightarrow> en_revision e \<le> rs_revision s
          \<and> (0 < en_revision e \<longrightarrow> p \<in> fst ` set (rs_dirty s) \<or> change_of p e \<in> set pub))
     \<and> (\<forall>p\<in>fst ` set (rs_dirty s). \<exists>e. bm_get (rs_entries s) p = Some e \<and> 0 < en_revision e)
     \<and> (\<forall>c\<in>set pub. 0 < ch_revision c \<and> (\<exists>e. bm_get (rs_entries s) (ch_path c) = Some e
          \<and> ch_revision c \<le> en_revision e \<and> (ch_revision c = en_revision e \<longrightarrow> c = change_of (ch_path c) e)))"

lemma rev_inv_accept:
  assumes "rev_inv s pub" "rev_apply req src s = Some (Accepted a, s')"
  shows "rev_inv s' pub"
proof -
  have fst_ins: "fst ` set (bm_insert p () d) = insert p (fst ` set d)" for p and d :: "(string, unit) bmap"
    using fst_set_bm_insert [of p "()" d] by simp
  show ?thesis
    using assms by (fastforce simp: rev_inv_def rev_apply_Accepted bm_inv_insert bm_get_insert fst_ins
        split: if_splits intro: le_SucI)
qed

lemma set_drained:
  "set (fst (drain_changed s)) = {change_of p e | p e. p \<in> fst ` set (rs_dirty s) \<and> bm_get (rs_entries s) p = Some e}"
  by (force simp: drain_changed_def List.map_filter_def)

lemma rev_inv_drain:
  assumes "rev_inv s pub" "drain_changed s = (cs, s')"
  shows "rev_inv s' (pub @ cs)"
proof -
  have cs: "set cs = {change_of p e | p e. p \<in> fst ` set (rs_dirty s) \<and> bm_get (rs_entries s) p = Some e}"
    using set_drained [of s] assms(2) by simp
  have s': "s' = s\<lparr>rs_dirty := []\<rparr>" using assms(2) by (simp add: drain_changed_def)
  have pos: "0 < en_revision e" if "p \<in> fst ` set (rs_dirty s)" "bm_get (rs_entries s) p = Some e" for p e
    using assms(1) that by (force simp: rev_inv_def)
  have "0 < ch_revision c \<and> (\<exists>e. bm_get (rs_entries s) (ch_path c) = Some e \<and> ch_revision c \<le> en_revision e
      \<and> (ch_revision c = en_revision e \<longrightarrow> c = change_of (ch_path c) e))" if "c \<in> set cs" for c
  proof -
    from that obtain p e where "c = change_of p e" "p \<in> fst ` set (rs_dirty s)" "bm_get (rs_entries s) p = Some e"
      by (auto simp: cs)
    then show ?thesis using pos [of p e] by (simp add: change_of_def)
  qed
  moreover have "change_of p e \<in> set pub \<union> set cs" if "bm_get (rs_entries s) p = Some e" "0 < en_revision e" for p e
    using assms(1) that unfolding cs rev_inv_def by blast
  ultimately show ?thesis using assms(1) by (auto simp: rev_inv_def s' bm_inv_def)
qed

lemma rev_inv_seed: "rev_inv s pub \<Longrightarrow> rev_inv (rev_seed p v src s) pub"
  by (auto simp: rev_inv_def rev_seed_def bm_contains_def bm_inv_insert bm_get_insert)

lemma rev_run_inv: "rev_run s as pub \<Longrightarrow> rev_inv s pub"
proof (induction rule: rev_run.induct)
  case start
  show ?case by (simp add: rev_inv_def rev_new_def bm_inv_def bm_get_def)
next
  case (reject s as pub req src r s')
  then show ?case using rev_apply_Rejected by metis
qed (auto intro: rev_inv_accept rev_inv_drain rev_inv_seed)

lemma rev_run_acks: "rev_run s as pub \<Longrightarrow> map ack_revision as = [1..<Suc (rs_revision s)]"
proof (induction rule: rev_run.induct)
  case (reject s as pub req src r s')
  then show ?case using rev_apply_Rejected by metis
qed (auto simp: rev_new_def rev_seed_def rev_apply_Accepted drain_changed_def)

section \<open>Clients\<close>

definition receive :: "'f changed_prop list \<Rightarrow> (string, 'f changed_prop) bmap" where
  "receive ds = foldl (\<lambda>cache d. snd (accept_if_newer cache d)) [] ds"

lemma receive_newest:
  "(case bm_get (receive ds) p of
      None \<Rightarrow> \<not> (\<exists>d\<in>set ds. ch_path d = p)
    | Some c \<Rightarrow> c \<in> set ds \<and> ch_path c = p \<and> (\<forall>d\<in>set ds. ch_path d = p \<longrightarrow> ch_revision d \<le> ch_revision c))"
proof (induction ds rule: rev_induct)
  case (snoc d ds)
  have "receive (ds @ [d]) = snd (accept_if_newer (receive ds) d)" by (simp add: receive_def)
  then show ?case
    using snoc by (auto simp: accept_if_newer_def bm_get_insert split: option.splits if_splits)
qed (simp add: receive_def bm_get_def)

text \<open>C21: a client of the change stream converges.  Every accepted write gets the next revision, so
  revisions never repeat.  Once the store has published everything, a client that has received some of
  the changes, in any order and any number of times, but for every path the newest one, holds exactly the
  current value, revision, source and operation of every path that was ever written, and nothing else.\<close>

theorem revwrite_converges:
  assumes run: "rev_run s as pub" and drained: "\<not> has_changes s"
    and sub: "set ds \<subseteq> set pub"
    and newest: "\<forall>c\<in>set pub. \<exists>d\<in>set ds. ch_path d = ch_path c \<and> ch_revision c \<le> ch_revision d"
  shows "map ack_revision as = [1..<Suc (rs_revision s)]
    \<and> bm_get (receive ds) p =
      (case bm_get (rs_entries s) p of
         Some e \<Rightarrow> if 0 < en_revision e then Some (change_of p e) else None
       | None \<Rightarrow> None)"
proof
  show "map ack_revision as = [1..<Suc (rs_revision s)]" using run by (rule rev_run_acks)
  have inv: "rev_inv s pub" using run by (rule rev_run_inv)
  have pub: "0 < ch_revision c \<and> (\<exists>e. bm_get (rs_entries s) (ch_path c) = Some e \<and> ch_revision c \<le> en_revision e
      \<and> (ch_revision c = en_revision e \<longrightarrow> c = change_of (ch_path c) e))" if "c \<in> set pub" for c
    using inv that by (simp add: rev_inv_def)
  show "bm_get (receive ds) p = (case bm_get (rs_entries s) p of
         Some e \<Rightarrow> if 0 < en_revision e then Some (change_of p e) else None | None \<Rightarrow> None)"
  proof (cases "bm_get (receive ds) p")
    case None
    then have "\<not> (\<exists>c\<in>set pub. ch_path c = p)" using receive_newest [of ds p] newest by fastforce
    moreover have "change_of p e \<in> set pub" if "bm_get (rs_entries s) p = Some e" "0 < en_revision e" for e
      using inv drained that by (auto simp: rev_inv_def has_changes_def)
    ultimately show ?thesis using None by (fastforce simp: change_of_def split: option.split)
  next
    case (Some c)
    then have c: "c \<in> set ds" "ch_path c = p" "\<forall>d\<in>set ds. ch_path d = p \<longrightarrow> ch_revision d \<le> ch_revision c"
      using receive_newest [of ds p] by simp_all
    from pub [of c] c sub obtain e where e: "bm_get (rs_entries s) p = Some e" "0 < ch_revision c"
      "ch_revision c \<le> en_revision e" "ch_revision c = en_revision e \<longrightarrow> c = change_of p e" by auto
    then have "change_of p e \<in> set pub" using inv drained by (auto simp: rev_inv_def has_changes_def)
    then have "en_revision e \<le> ch_revision c" using newest c(3) by (fastforce simp: change_of_def)
    then show ?thesis using Some e by simp
  qed
qed

theorem revwrite_converges_witness:
  "\<exists>(s :: nat rev_store) pub. (\<exists>as. rev_run s as pub) \<and> pub \<noteq> [] \<and> \<not> has_changes s
     \<and> bm_get (receive (pub @ pub)) ''a'' = (case bm_get (rs_entries s) ''a'' of
         Some e \<Rightarrow> if 0 < en_revision e then Some (change_of ''a'' e) else None | None \<Rightarrow> None)"
proof -
  define req :: "nat rev_request" where "req = \<lparr>rq_path = ''a'', rq_value = PBool True, rq_op_id = ''o'', rq_if_revision = Some 0\<rparr>"
  define e :: "nat rev_entry" where "e = \<lparr>en_value = PBool True, en_revision = 1, en_source_id = ''s'', en_op_id = ''o''\<rparr>"
  define s :: "nat rev_store" where "s = \<lparr>rs_revision = 1, rs_entries = [(''a'', e)], rs_dirty = [(''a'', ())]\<rparr>"
  have "rev_apply req ''s'' rev_new = Some (Accepted \<lparr>ack_revision = 1, ack_path = ''a'', ack_value = PBool True,
      ack_source_id = ''s'', ack_op_id = ''o''\<rparr>, s)"
    by (simp add: rev_apply_Accepted req_def s_def e_def rev_new_def path_revision_def bm_get_def u64_max_def)
  then have "rev_run s ([] @ [\<lparr>ack_revision = 1, ack_path = ''a'', ack_value = PBool True,
      ack_source_id = ''s'', ack_op_id = ''o''\<rparr>]) []"
    by (rule rev_run.accept [OF rev_run.start])
  moreover have "drain_changed s = ([change_of ''a'' e], s\<lparr>rs_dirty := []\<rparr>)"
    by (simp add: drain_changed_def s_def bm_get_def List.map_filter_def)
  ultimately have run: "rev_run (s\<lparr>rs_dirty := []\<rparr>) ([] @ [\<lparr>ack_revision = 1, ack_path = ''a'', ack_value = PBool True,
      ack_source_id = ''s'', ack_op_id = ''o''\<rparr>]) ([] @ [change_of ''a'' e])"
    by (rule rev_run.drain)
  have quiet: "\<not> has_changes (s\<lparr>rs_dirty := []\<rparr>)" by (simp add: has_changes_def)
  show ?thesis
    using revwrite_converges [OF run quiet, of "([] @ [change_of ''a'' e]) @ ([] @ [change_of ''a'' e])" "''a''"] run quiet
    by (intro exI [of _ "s\<lparr>rs_dirty := []\<rparr>"] exI [of _ "[] @ [change_of ''a'' e]"]) auto
qed

end
