(* ===== verification/Props_Record.thy ===== *)
theory Props_Record
  imports Props_Value Mesh_Canonical
begin

text \<open>
  The vocabulary of the property substrate (\<^verbatim>\<open>cosmix-lib-props-store\<close>: \<^verbatim>\<open>record.rs\<close>, \<^verbatim>\<open>namespace.rs\<close>,
  \<^verbatim>\<open>lifecycle.rs\<close>, \<^verbatim>\<open>audit.rs\<close>): namespace names, actors, record addresses, records, history rows, and the keyed
  digest of a row.  Foreign code is collected in \<open>props_env\<close>: the equality, JSON number and text of floats,
  serde\_json's printers and parser, HMAC-SHA256, Unicode's alphanumeric characters and chrono.  Versions and sequence numbers are
  naturals: a counter of 64 bits that starts at zero and advances by one per commit does not wrap.
\<close>

record ('f, 'n) props_env =
  feq :: "'f \<Rightarrow> 'f \<Rightarrow> bool"
  num_of_int :: "int \<Rightarrow> 'n"
  num_of_f64 :: "'f \<Rightarrow> 'n option"
  num_text :: "'n \<Rightarrow> string"
  str_text :: "string \<Rightarrow> string"
  json_text :: "'n json \<Rightarrow> string"
  value_of_text :: "string \<Rightarrow> 'f prop_value option"
  hmac_sha256 :: "string \<Rightarrow> string \<Rightarrow> string"
  is_alphanumeric :: "string \<Rightarrow> bool"
  timestamp_millis :: "int \<Rightarrow> int option"
  rfc3339_millis :: "int \<Rightarrow> string"

text \<open>\<^verbatim>\<open>From<&PropValue> for Json\<close>.\<close>

fun json_of_value :: "('f, 'n) props_env \<Rightarrow> 'f prop_value \<Rightarrow> 'n json" where
  "json_of_value E PNull = JNull"
| "json_of_value E (PBool b) = JBool b"
| "json_of_value E (PInt n) = JNumber (num_of_int E n)"
| "json_of_value E (PUInt n) = JNumber (num_of_int E (int n))"
| "json_of_value E (PFloat f) = (case num_of_f64 E f of Some n \<Rightarrow> JNumber n | None \<Rightarrow> JNull)"
| "json_of_value E (PString s) = JString s"
| "json_of_value E (PList l) = JArray (map (json_of_value E) l)"
| "json_of_value E (PObject m) = JObject (map (\<lambda>(k, v). (k, json_of_value E v)) m)"

section \<open>Lifecycle\<close>

datatype lifecycle = Provisioning | Active | Failed string

fun as_state_str :: "lifecycle \<Rightarrow> string" where
  "as_state_str Provisioning = ''provisioning''"
| "as_state_str Active = ''active''"
| "as_state_str (Failed _) = ''failed''"

fun lifecycle_reason :: "lifecycle \<Rightarrow> string option" where
  "lifecycle_reason (Failed reason) = Some reason"
| "lifecycle_reason _ = None"

definition LIFECYCLE_FIELD :: string where "LIFECYCLE_FIELD = ''_lifecycle''"

section \<open>Names\<close>

datatype namespace_name_error =
    NsEmpty
  | NsEmptySegment
  | NsInvalidLeadingChar string string
  | NsInvalidChar string string

text \<open>A character that is refused is reported as its bytes; those that are accepted are single bytes.\<close>

definition char_at :: "string \<Rightarrow> string" where
  "char_at s = (case s of [] \<Rightarrow> [] | c # _ \<Rightarrow> take (utf8_len c) s)"

definition check_ns_segment :: "string \<Rightarrow> (namespace_name_error, unit) result" where
  "check_ns_segment seg =
     (case seg of
        [] \<Rightarrow> Inl NsEmptySegment
      | first # chars \<Rightarrow>
          if \<not> is_ascii_lowercase first then Inl (NsInvalidLeadingChar seg (char_at seg))
          else case dropWhile path_char chars of
                 [] \<Rightarrow> Inr ()
               | rest \<Rightarrow> Inl (NsInvalidChar seg (char_at rest)))"

definition namespace_name_new :: "string \<Rightarrow> (namespace_name_error, string) result" where
  "namespace_name_new s =
     (if s = [] then Inl NsEmpty
      else and_then (try_map check_ns_segment (split_on (CHR ''.'') s)) (\<lambda>_. Inr s))"

definition ns_qualified :: "string \<Rightarrow> string \<Rightarrow> string" where
  "ns_qualified name service = service @ ''.'' @ name"

datatype actor_error =
    ActorEmpty
  | ActorEmptySegment
  | InvalidTokenChar string
  | InvalidUuid string
  | InvalidSequence
  | TooManySegments

definition token_char :: "char \<Rightarrow> bool" where
  "token_char c \<longleftrightarrow> is_ascii_lowercase c \<or> is_ascii_uppercase c \<or> is_ascii_digit c
     \<or> c = CHR ''_'' \<or> c = CHR ''-'' \<or> c = CHR ''.''"

definition actor_token :: "string \<Rightarrow> (actor_error, unit) result" where
  "actor_token s =
     (if s = [] then Inl ActorEmptySegment
      else case dropWhile token_char s of [] \<Rightarrow> Inr () | rest \<Rightarrow> Inl (InvalidTokenChar (char_at rest)))"

definition is_ascii_hexdigit :: "char \<Rightarrow> bool" where
  "is_ascii_hexdigit c \<longleftrightarrow> is_ascii_digit c \<or> CHR ''a'' \<le> c \<and> c \<le> CHR ''f'' \<or> CHR ''A'' \<le> c \<and> c \<le> CHR ''F''"

definition uuid_ok :: "string \<Rightarrow> bool" where
  "uuid_ok uuid \<longleftrightarrow> length uuid = 36
     \<and> list_all (\<lambda>i. if i \<in> {8, 13, 18, 23} then uuid ! i = CHR ''-'' else is_ascii_hexdigit (uuid ! i)) [0..<36]"

text \<open>The parts of the suffix after the first are the sequence and anything that is too many.\<close>

definition runtime_suffix :: "string \<Rightarrow> (actor_error, unit) result" where
  "runtime_suffix rest =
     (case split_on (CHR '':'') rest of
        [] \<Rightarrow> Inr ()
      | uuid # parts \<Rightarrow>
          if \<not> uuid_ok uuid then Inl (InvalidUuid uuid)
          else case parts of
                 [] \<Rightarrow> Inr ()
               | seq # parts' \<Rightarrow>
                   if seq = [] \<or> \<not> list_all is_ascii_digit seq then Inl InvalidSequence
                   else if parts' \<noteq> [] then Inl TooManySegments
                   else Inr ())"

definition actor_new :: "string \<Rightarrow> (actor_error, string) result" where
  "actor_new s =
     (if s = [] then Inl ActorEmpty
      else
        let (first, rest) = (case split_once (CHR '':'') s of Some (a, b) \<Rightarrow> (a, Some b) | None \<Rightarrow> (s, None))
        in and_then (actor_token first) (\<lambda>_.
             and_then (case rest of
                 None \<Rightarrow> Inr ()
               | Some r \<Rightarrow>
                   if r = [] then Inl ActorEmptySegment
                   else if first = ''operator'' then Inr ()
                   else if first = ''daemon'' \<and> CHR '':'' \<notin> set r then actor_token r
                   else runtime_suffix r)
               (\<lambda>_. Inr s)))"

definition actor_operator :: "string \<Rightarrow> (actor_error, string) result" where
  "actor_operator p = actor_new (''operator:'' @ p)"

definition daemon_complete :: "string \<Rightarrow> (actor_error, string) result" where
  "daemon_complete svc = actor_new (''daemon:'' @ svc)"

text \<open>\<^verbatim>\<open>Actor::reconciliation\<close> expects its fixed string to be valid.\<close>

definition actor_reconciliation :: string where
  "actor_reconciliation = ''daemon:reconciliation''"

lemma actor_reconciliation_ok: "actor_new actor_reconciliation = Inr actor_reconciliation"
  by (simp add: actor_reconciliation_def actor_new_def actor_token_def token_char_def
      is_ascii_lowercase_def is_ascii_uppercase_def is_ascii_digit_def less_eq_char_def)

section \<open>Records\<close>

datatype field_path_segment = Field string | Index nat

record record_key =
  rk_namespace :: string
  rk_key :: string
  rk_field_path :: "field_path_segment list"

definition is_whole_record :: "record_key \<Rightarrow> bool" where
  "is_whole_record k \<longleftrightarrow> rk_field_path k = []"

definition key_singleton :: "string \<Rightarrow> record_key" where
  "key_singleton ns = \<lparr>rk_namespace = ns, rk_key = [], rk_field_path = []\<rparr>"

definition key_collection :: "string \<Rightarrow> string \<Rightarrow> record_key" where
  "key_collection ns k = \<lparr>rk_namespace = ns, rk_key = k, rk_field_path = []\<rparr>"

record 'f store_record =
  sr_key :: record_key
  sr_value :: "'f prop_value"
  sr_version :: nat
  sr_nseq :: nat
  sr_lifecycle :: "lifecycle option"

datatype event_kind = Created | Updated | Deleted | Completed | Reconciled

fun verb_suffix :: "event_kind \<Rightarrow> string" where
  "verb_suffix Created = ''set''"
| "verb_suffix Updated = ''set''"
| "verb_suffix Deleted = ''delete''"
| "verb_suffix Completed = ''complete''"
| "verb_suffix Reconciled = ''reconcile''"

definition verb_for :: "event_kind \<Rightarrow> string \<Rightarrow> string" where
  "verb_for k service = service @ ''.props.'' @ verb_suffix k"

record record_event =
  ev_nseq :: nat
  ev_version :: nat
  ev_epoch :: nat
  ev_kind :: event_kind
  ev_verb :: string
  ev_key :: record_key
  ev_lifecycle :: "lifecycle option"
  ev_actor :: string
  ev_fields_changed :: "string list"
  ev_secret_count :: nat
  ev_at :: int
  ev_cause :: "string option"
  ev_digest :: string

section \<open>The audit digest\<close>

definition int_text :: "int \<Rightarrow> string" where
  "int_text i = (if i < 0 then CHR ''-'' # nat_text (nat (- i)) else nat_text (nat i))"

fun canonical_serialise :: "('f, 'n) props_env \<Rightarrow> 'f prop_value \<Rightarrow> string" where
  "canonical_serialise E PNull = ''null''"
| "canonical_serialise E (PBool b) = (if b then ''true'' else ''false'')"
| "canonical_serialise E (PInt n) = int_text n"
| "canonical_serialise E (PUInt n) = nat_text n"
| "canonical_serialise E (PFloat f) = (case num_of_f64 E f of Some n \<Rightarrow> num_text E n | None \<Rightarrow> ''null'')"
| "canonical_serialise E (PString s) = str_text E s"
| "canonical_serialise E (PList items) = ''['' @ join_with (CHR '','') (map (canonical_serialise E) items) @ '']''"
| "canonical_serialise E (PObject m) =
     ''{'' @ join_with (CHR '','') (map (\<lambda>(k, v). str_text E k @ '':'' @ canonical_serialise E v) m) @ ''}''"

definition to_be_bytes :: "nat \<Rightarrow> string" where
  "to_be_bytes n = map (\<lambda>i. char_of (n div 256 ^ i mod 256)) [7, 6, 5, 4, 3, 2, 1, 0]"

definition hex_encode :: "string \<Rightarrow> string" where
  "hex_encode s = concat (map (\<lambda>c. [hex_digit (of_char c div 16), hex_digit (of_char c mod 16)]) s)"

definition compute_digest :: "('f, 'n) props_env \<Rightarrow> string \<Rightarrow> 'f prop_value \<Rightarrow> nat \<Rightarrow> string" where
  "compute_digest E key v nseq = hex_encode (hmac_sha256 E key (canonical_serialise E v @ to_be_bytes nseq))"

definition tombstone_value :: "'f prop_value" where
  "tombstone_value = PNull"

definition ts_to_dt :: "('f, 'n) props_env \<Rightarrow> int \<Rightarrow> int" where
  "ts_to_dt E ts_ms = (case timestamp_millis E ts_ms of Some t \<Rightarrow> t | None \<Rightarrow> 0)"

end
