(* ===== verification/Props_Memory.thy ===== *)
theory Props_Memory
  imports Props_Record
begin

text \<open>
  The in-memory property store (\<^verbatim>\<open>cosmix-lib-props-store/src/memory.rs\<close> with the types of \<^verbatim>\<open>store.rs\<close>): records
  per namespace, the history of transitions, and the four commits.  Every operation takes the one mutex, so
  it is a function of the store.  \<^verbatim>\<open>AuditKey::generate\<close> draws random bytes: the operations that may create a
  namespace take the key they would draw.
\<close>

section \<open>Types\<close>

datatype store_error =
    NotFound
  | VersionMismatch nat nat
  | Storage string
  | Validation string
  | Conflict string
  | ReplayWindowExceeded nat nat

datatype merge_mode = Patch | Replace

record 'f set_commit =
  sc_key :: record_key
  sc_new_value :: "'f prop_value"
  sc_expected :: "nat option"
  sc_merge :: merge_mode
  sc_lifecycle :: "lifecycle option"
  sc_actor :: string
  sc_cause :: "string option"
  sc_ts_ms :: int

record delete_commit =
  dc_key :: record_key
  dc_expected :: "nat option"
  dc_actor :: string
  dc_cause :: "string option"
  dc_ts_ms :: int

record complete_commit =
  cc_key :: record_key
  cc_lifecycle :: lifecycle
  cc_expected :: nat
  cc_actor :: string
  cc_cause :: "string option"
  cc_ts_ms :: int

record 'f reconcile_commit =
  rc_key :: record_key
  rc_new_value :: "'f prop_value"
  rc_old_value :: "'f prop_value option"
  rc_ts_ms :: int

record 'f namespace_state =
  ns_records :: "(string, 'f store_record) bmap"
  ns_events :: "record_event list"
  ns_nseq :: nat
  ns_epoch :: nat
  ns_audit_key :: string

record 'f memory_store =
  mem_service :: string
  mem_namespaces :: "(string, 'f namespace_state) bmap"

definition namespace_state_new :: "string \<Rightarrow> 'f namespace_state" where
  "namespace_state_new key = \<lparr>ns_records = [], ns_events = [], ns_nseq = 0, ns_epoch = 0, ns_audit_key = key\<rparr>"

definition memory_new :: "string \<Rightarrow> 'f memory_store" where
  "memory_new service = \<lparr>mem_service = service, mem_namespaces = []\<rparr>"

definition memory_audit_key :: "'f memory_store \<Rightarrow> string \<Rightarrow> string option" where
  "memory_audit_key st ns = map_option ns_audit_key (bm_get (mem_namespaces st) ns)"

section \<open>Values\<close>

definition merge_patch :: "'f prop_value \<Rightarrow> 'f prop_value \<Rightarrow> 'f prop_value" where
  "merge_patch old new =
     (case (old, new) of
        (PObject m, PObject n) \<Rightarrow> PObject (foldl (\<lambda>out (k, v). bm_insert k v out) m n)
      | _ \<Rightarrow> new)"

text \<open>Two optional values of a field, compared by the derived equality.\<close>

definition opt_eq :: "('f, 'n) props_env \<Rightarrow> 'f prop_value option \<Rightarrow> 'f prop_value option \<Rightarrow> bool" where
  "opt_eq E a b \<longleftrightarrow> (case (a, b) of (None, None) \<Rightarrow> True | (Some x, Some y) \<Rightarrow> pv_eq (feq E) x y | _ \<Rightarrow> False)"

definition changed_top_level_fields :: "('f, 'n) props_env \<Rightarrow> 'f prop_value option \<Rightarrow> 'f prop_value \<Rightarrow> string list" where
  "changed_top_level_fields E old new =
     (case (old, new) of
        (None, PObject n) \<Rightarrow> map fst n
      | (Some (PObject m), PObject n) \<Rightarrow> filter (\<lambda>k. \<not> opt_eq E (bm_get m k) (bm_get n k)) (keys_union m n)
      | _ \<Rightarrow> [])"

section \<open>Reads\<close>

definition mem_get :: "'f memory_store \<Rightarrow> record_key \<Rightarrow> (store_error, 'f store_record \<times> nat) result" where
  "mem_get st key =
     and_then (ok_or NotFound (bm_get (mem_namespaces st) (rk_namespace key))) (\<lambda>s.
     and_then (ok_or NotFound (bm_get (ns_records s) (rk_key key))) (\<lambda>r. Inr (r, ns_nseq s)))"

definition mem_list :: "'f memory_store \<Rightarrow> string \<Rightarrow> (store_error, 'f store_record list \<times> nat) result" where
  "mem_list st ns =
     (case bm_get (mem_namespaces st) ns of
        None \<Rightarrow> Inr ([], 0)
      | Some s \<Rightarrow> Inr (map snd (ns_records s), ns_nseq s))"

definition mem_events_since :: "'f memory_store \<Rightarrow> string \<Rightarrow> nat \<Rightarrow> (store_error, record_event list) result" where
  "mem_events_since st ns since_nseq =
     (case bm_get (mem_namespaces st) ns of
        None \<Rightarrow> Inr []
      | Some s \<Rightarrow> Inr (filter (\<lambda>e. since_nseq < ev_nseq e) (ns_events s)))"

definition mem_audit_epoch :: "'f memory_store \<Rightarrow> string \<Rightarrow> nat" where
  "mem_audit_epoch st ns = (case bm_get (mem_namespaces st) ns of Some s \<Rightarrow> ns_epoch s | None \<Rightarrow> 0)"

definition version_anchor :: "'f memory_store \<Rightarrow> record_key \<Rightarrow> nat option" where
  "version_anchor st key =
     Option.bind (bm_get (mem_namespaces st) (rk_namespace key)) (\<lambda>s. map_option sr_version (bm_get (ns_records s) (rk_key key)))"

section \<open>Commits\<close>

definition ns_entry :: "string \<Rightarrow> string \<Rightarrow> 'f memory_store \<Rightarrow> 'f namespace_state" where
  "ns_entry gen ns st = (case bm_get (mem_namespaces st) ns of Some s \<Rightarrow> s | None \<Rightarrow> namespace_state_new gen)"

definition put_ns :: "string \<Rightarrow> 'f namespace_state \<Rightarrow> 'f memory_store \<Rightarrow> 'f memory_store" where
  "put_ns ns s st = st\<lparr>mem_namespaces := bm_insert ns s (mem_namespaces st)\<rparr>"

definition prev_version :: "'f namespace_state \<Rightarrow> record_key \<Rightarrow> nat" where
  "prev_version s key = (case bm_get (ns_records s) (rk_key key) of Some r \<Rightarrow> sr_version r | None \<Rightarrow> 0)"

text \<open>The write of the record, the row of the history and the cursor, in one step under the lock.\<close>

definition put_store_record :: "'f store_record \<Rightarrow> record_event \<Rightarrow> 'f namespace_state \<Rightarrow> 'f namespace_state" where
  "put_store_record r e s = s\<lparr>ns_records := bm_insert (rk_key (sr_key r)) r (ns_records s),
     ns_events := ns_events s @ [e], ns_nseq := ev_nseq e\<rparr>"

definition set_final_value :: "'f set_commit \<Rightarrow> 'f store_record option \<Rightarrow> 'f prop_value" where
  "set_final_value op existing =
     (case (sc_merge op, existing) of
        (Patch, Some r) \<Rightarrow> merge_patch (sr_value r) (sc_new_value op)
      | _ \<Rightarrow> sc_new_value op)"

definition set_record :: "'f set_commit \<Rightarrow> 'f namespace_state \<Rightarrow> 'f store_record" where
  "set_record op s =
     \<lparr>sr_key = sc_key op,
      sr_value = set_final_value op (bm_get (ns_records s) (rk_key (sc_key op))),
      sr_version = prev_version s (sc_key op) + 1,
      sr_nseq = ns_nseq s + 1,
      sr_lifecycle = sc_lifecycle op\<rparr>"

definition set_event :: "('f, 'n) props_env \<Rightarrow> string \<Rightarrow> 'f set_commit \<Rightarrow> 'f namespace_state \<Rightarrow> record_event" where
  "set_event E service op s =
     (let r = set_record op s;
          existing = bm_get (ns_records s) (rk_key (sc_key op));
          k = (if existing \<noteq> None then Updated else Created)
      in \<lparr>ev_nseq = sr_nseq r, ev_version = sr_version r, ev_epoch = ns_epoch s, ev_kind = k,
          ev_verb = verb_for k service, ev_key = sc_key op, ev_lifecycle = sc_lifecycle op,
          ev_actor = sc_actor op,
          ev_fields_changed = changed_top_level_fields E (map_option sr_value existing) (sr_value r),
          ev_secret_count = 0, ev_at = ts_to_dt E (sc_ts_ms op), ev_cause = sc_cause op,
          ev_digest = compute_digest E (ns_audit_key s) (sr_value r) (sr_nseq r)\<rparr>)"

text \<open>The entry of the namespace is created before the reserved field and the version are checked.\<close>

definition commit_set ::
  "('f, 'n) props_env \<Rightarrow> string \<Rightarrow> 'f set_commit \<Rightarrow> 'f memory_store \<Rightarrow>
     (store_error, 'f store_record \<times> record_event) result \<times> 'f memory_store" where
  "commit_set E gen op st =
     (if \<not> is_whole_record (sc_key op)
      then (Inl (Validation ''commit_set requires record-root key (empty field_path)''), st)
      else
        let ns = rk_namespace (sc_key op);
            s = ns_entry gen ns st;
            prev = prev_version s (sc_key op)
        in if (case sc_new_value op of PObject m \<Rightarrow> bm_contains m LIFECYCLE_FIELD | _ \<Rightarrow> False)
           then (Inl (Validation ''field is substrate-reserved''), put_ns ns s st)
           else if (case sc_expected op of Some expected \<Rightarrow> expected \<noteq> prev | None \<Rightarrow> False)
           then (Inl (VersionMismatch (the (sc_expected op)) prev), put_ns ns s st)
           else let r = set_record op s; e = set_event E (mem_service st) op s
                in (Inr (r, e), put_ns ns (put_store_record r e s) st))"

definition delete_event :: "('f, 'n) props_env \<Rightarrow> string \<Rightarrow> delete_commit \<Rightarrow> 'f store_record \<Rightarrow> 'f namespace_state \<Rightarrow> record_event" where
  "delete_event E service op existing s =
     \<lparr>ev_nseq = ns_nseq s + 1, ev_version = sr_version existing + 1, ev_epoch = ns_epoch s, ev_kind = Deleted,
      ev_verb = verb_for Deleted service, ev_key = dc_key op, ev_lifecycle = None, ev_actor = dc_actor op,
      ev_fields_changed = [], ev_secret_count = 0, ev_at = ts_to_dt E (dc_ts_ms op), ev_cause = dc_cause op,
      ev_digest = compute_digest E (ns_audit_key s) tombstone_value (ns_nseq s + 1)\<rparr>"

definition commit_delete ::
  "('f, 'n) props_env \<Rightarrow> delete_commit \<Rightarrow> 'f memory_store \<Rightarrow> (store_error, record_event) result \<times> 'f memory_store" where
  "commit_delete E op st =
     (if \<not> is_whole_record (dc_key op)
      then (Inl (Validation ''commit_delete requires record-root key (empty field_path)''), st)
      else case bm_get (mem_namespaces st) (rk_namespace (dc_key op)) of
             None \<Rightarrow> (Inl NotFound, st)
           | Some s \<Rightarrow>
               (case bm_get (ns_records s) (rk_key (dc_key op)) of
                  None \<Rightarrow> (Inl NotFound, st)
                | Some existing \<Rightarrow>
                    if (case dc_expected op of Some expected \<Rightarrow> expected \<noteq> sr_version existing | None \<Rightarrow> False)
                    then (Inl (VersionMismatch (the (dc_expected op)) (sr_version existing)), st)
                    else let e = delete_event E (mem_service st) op existing s
                         in (Inr e, put_ns (rk_namespace (dc_key op))
                               (s\<lparr>ns_records := bm_remove (rk_key (dc_key op)) (ns_records s),
                                  ns_events := ns_events s @ [e], ns_nseq := ev_nseq e\<rparr>) st)))"

definition complete_event :: "('f, 'n) props_env \<Rightarrow> string \<Rightarrow> complete_commit \<Rightarrow> 'f store_record \<Rightarrow> 'f namespace_state \<Rightarrow> record_event" where
  "complete_event E service op r s =
     \<lparr>ev_nseq = ns_nseq s + 1, ev_version = sr_version r + 1, ev_epoch = ns_epoch s, ev_kind = Completed,
      ev_verb = verb_for Completed service, ev_key = cc_key op, ev_lifecycle = Some (cc_lifecycle op),
      ev_actor = cc_actor op, ev_fields_changed = [LIFECYCLE_FIELD], ev_secret_count = 0,
      ev_at = ts_to_dt E (cc_ts_ms op), ev_cause = cc_cause op,
      ev_digest = compute_digest E (ns_audit_key s) (sr_value r) (ns_nseq s + 1)\<rparr>"

definition commit_complete ::
  "('f, 'n) props_env \<Rightarrow> complete_commit \<Rightarrow> 'f memory_store \<Rightarrow>
     (store_error, 'f store_record \<times> record_event) result \<times> 'f memory_store" where
  "commit_complete E op st =
     (case bm_get (mem_namespaces st) (rk_namespace (cc_key op)) of
        None \<Rightarrow> (Inl NotFound, st)
      | Some s \<Rightarrow>
          (case bm_get (ns_records s) (rk_key (cc_key op)) of
             None \<Rightarrow> (Inl NotFound, st)
           | Some r \<Rightarrow>
               if sr_version r \<noteq> cc_expected op then (Inl (VersionMismatch (cc_expected op) (sr_version r)), st)
               else if sr_lifecycle r \<noteq> Some Provisioning
               then (Inl (Validation ''commit_complete requires record.lifecycle = Provisioning''), st)
               else if cc_lifecycle op = Provisioning
               then (Inl (Validation ''commit_complete target lifecycle MUST be Active or Failed''), st)
               else let e = complete_event E (mem_service st) op r s;
                        r' = r\<lparr>sr_lifecycle := Some (cc_lifecycle op), sr_version := ev_version e, sr_nseq := ev_nseq e\<rparr>
                    in (Inr (r', e), put_ns (rk_namespace (cc_key op))
                          (s\<lparr>ns_records := bm_insert (rk_key (cc_key op)) r' (ns_records s),
                             ns_events := ns_events s @ [e], ns_nseq := ev_nseq e\<rparr>) st)))"

definition reconcile_record :: "'f reconcile_commit \<Rightarrow> 'f namespace_state \<Rightarrow> 'f store_record" where
  "reconcile_record op s =
     \<lparr>sr_key = rc_key op, sr_value = rc_new_value op, sr_version = prev_version s (rc_key op) + 1,
      sr_nseq = ns_nseq s + 1,
      sr_lifecycle = Option.bind (bm_get (ns_records s) (rk_key (rc_key op))) sr_lifecycle\<rparr>"

definition reconcile_event :: "('f, 'n) props_env \<Rightarrow> string \<Rightarrow> 'f reconcile_commit \<Rightarrow> 'f namespace_state \<Rightarrow> record_event" where
  "reconcile_event E service op s =
     (let r = reconcile_record op s
      in \<lparr>ev_nseq = sr_nseq r, ev_version = sr_version r, ev_epoch = ns_epoch s, ev_kind = Reconciled,
          ev_verb = verb_for Reconciled service, ev_key = rc_key op, ev_lifecycle = sr_lifecycle r,
          ev_actor = actor_reconciliation,
          ev_fields_changed = changed_top_level_fields E (rc_old_value op) (rc_new_value op), ev_secret_count = 0,
          ev_at = ts_to_dt E (rc_ts_ms op), ev_cause = Some ''external_edit_detected'',
          ev_digest = compute_digest E (ns_audit_key s) (sr_value r) (sr_nseq r)\<rparr>)"

definition commit_reconcile ::
  "('f, 'n) props_env \<Rightarrow> string \<Rightarrow> 'f reconcile_commit \<Rightarrow> 'f memory_store \<Rightarrow>
     (store_error, 'f store_record \<times> record_event) result \<times> 'f memory_store" where
  "commit_reconcile E gen op st =
     (let ns = rk_namespace (rc_key op);
          s0 = ns_entry gen ns st;
          s = s0\<lparr>ns_epoch := ns_epoch s0 + 1\<rparr>;
          r = reconcile_record op s;
          e = reconcile_event E (mem_service st) op s
      in (Inr (r, e), put_ns ns (put_store_record r e s) st))"

end
