(* ===== verification/Props_History.thy ===== *)
theory Props_History
  imports Props_Memory
begin

text \<open>
  What the memory store guarantees after any sequence of commits: the history of a namespace is numbered
  without gaps, every row is a legal transition of its record, and the records are exactly what the
  history says, down to the keyed digest.
\<close>

section \<open>Histories\<close>

text \<open>The last row of a key, unless it is a deletion.\<close>

definition live_event :: "record_event list \<Rightarrow> string \<Rightarrow> record_event option" where
  "live_event es k =
     foldl (\<lambda>cur e. if rk_key (ev_key e) \<noteq> k then cur else if ev_kind e = Deleted then None else Some e) None es"

lemma live_event_snoc:
  "live_event (es @ [e]) k =
     (if rk_key (ev_key e) \<noteq> k then live_event es k else if ev_kind e = Deleted then None else Some e)"
  by (simp add: live_event_def)

lemma live_event_Nil [simp]: "live_event [] k = None"
  by (simp add: live_event_def)

text \<open>The transitions of a record: it is created with version 1 and every later row adds one; a
  completion leaves the provisioning state for a final one, and a reconciliation keeps the state.\<close>

definition legal_row :: "record_event option \<Rightarrow> record_event \<Rightarrow> bool" where
  "legal_row prev e \<longleftrightarrow>
     (case prev of
        None \<Rightarrow> ev_version e = 1 \<and> ev_kind e \<in> {Created, Reconciled}
      | Some p \<Rightarrow> ev_version e = ev_version p + 1 \<and> ev_kind e \<noteq> Created
          \<and> (ev_kind e = Completed \<longrightarrow> ev_lifecycle p = Some Provisioning \<and> ev_lifecycle e \<notin> {None, Some Provisioning})
          \<and> (ev_kind e = Reconciled \<longrightarrow> ev_lifecycle e = ev_lifecycle p))"

definition legal_history :: "record_event list \<Rightarrow> bool" where
  "legal_history es \<longleftrightarrow> (\<forall>i<length es. legal_row (live_event (take i es) (rk_key (ev_key (es ! i)))) (es ! i))"

lemma legal_history_snoc:
  "legal_history (es @ [e]) \<longleftrightarrow> legal_history es \<and> legal_row (live_event es (rk_key (ev_key e))) e"
  by (auto simp: legal_history_def less_Suc_eq nth_append)

text \<open>A record agrees with the row that wrote it.\<close>

definition row_of_record :: "('f, 'n) props_env \<Rightarrow> string \<Rightarrow> 'f store_record \<Rightarrow> record_event \<Rightarrow> bool" where
  "row_of_record E audit_key r e \<longleftrightarrow>
     sr_version r = ev_version e \<and> sr_nseq r = ev_nseq e \<and> sr_lifecycle r = ev_lifecycle e
     \<and> ev_digest e = compute_digest E audit_key (sr_value r) (sr_nseq r)"

definition ns_inv :: "('f, 'n) props_env \<Rightarrow> 'f namespace_state \<Rightarrow> bool" where
  "ns_inv E s \<longleftrightarrow>
     bm_inv (ns_records s) \<and> map ev_nseq (ns_events s) = [1..<Suc (ns_nseq s)] \<and> legal_history (ns_events s)
     \<and> ns_epoch s = length (filter (\<lambda>e. ev_kind e = Reconciled) (ns_events s))
     \<and> (\<forall>k. rel_option (row_of_record E (ns_audit_key s)) (bm_get (ns_records s) k) (live_event (ns_events s) k))"

definition store_inv :: "('f, 'n) props_env \<Rightarrow> 'f memory_store \<Rightarrow> bool" where
  "store_inv E st \<longleftrightarrow>
     bm_inv (mem_namespaces st) \<and> (\<forall>ns s. bm_get (mem_namespaces st) ns = Some s \<longrightarrow> ns_inv E s)"

section \<open>One row\<close>

text \<open>What a commit that succeeds does to its namespace.\<close>

definition ns_step :: "('f, 'n) props_env \<Rightarrow> 'f namespace_state \<Rightarrow> record_event \<Rightarrow> 'f namespace_state \<Rightarrow> bool" where
  "ns_step E s e s' \<longleftrightarrow>
     (let k = rk_key (ev_key e); old = bm_get (ns_records s) k in
      ns_events s' = ns_events s @ [e] \<and> ev_nseq e = Suc (ns_nseq s) \<and> ns_nseq s' = ev_nseq e
      \<and> ns_audit_key s' = ns_audit_key s
      \<and> ns_epoch s' = ns_epoch s + (if ev_kind e = Reconciled then 1 else 0)
      \<and> ev_version e = (case old of None \<Rightarrow> 0 | Some r \<Rightarrow> sr_version r) + 1
      \<and> (case old of
           None \<Rightarrow> ev_kind e \<in> {Created, Reconciled}
         | Some r \<Rightarrow> ev_kind e \<noteq> Created
             \<and> (ev_kind e = Completed \<longrightarrow> sr_lifecycle r = Some Provisioning \<and> ev_lifecycle e \<notin> {None, Some Provisioning})
             \<and> (ev_kind e = Reconciled \<longrightarrow> ev_lifecycle e = sr_lifecycle r))
      \<and> (if ev_kind e = Deleted then ns_records s' = bm_remove k (ns_records s)
         else \<exists>r. row_of_record E (ns_audit_key s) r e \<and> ns_records s' = bm_insert k r (ns_records s)))"

lemma ns_inv_new: "ns_inv E (namespace_state_new gen)"
  by (simp add: ns_inv_def namespace_state_new_def bm_inv_def legal_history_def bm_get_def)

lemma ns_step_inv:
  assumes "ns_inv E s" "ns_step E s e s'"
  shows "ns_inv E s'"
proof -
  define k where "k = rk_key (ev_key e)"
  have rel: "rel_option (row_of_record E (ns_audit_key s)) (bm_get (ns_records s) j) (live_event (ns_events s) j)" for j
    using assms(1) by (simp add: ns_inv_def)
  have legal: "legal_row (live_event (ns_events s) k) e"
    using rel [of k] assms(2)
    by (cases "bm_get (ns_records s) k"; cases "live_event (ns_events s) k")
      (auto simp: ns_step_def Let_def k_def legal_row_def row_of_record_def)
  have "rel_option (row_of_record E (ns_audit_key s')) (bm_get (ns_records s') j) (live_event (ns_events s') j)" for j
    using rel [of j] assms(2)
    by (cases "ev_kind e = Deleted")
      (auto simp: ns_step_def Let_def live_event_snoc bm_get_insert bm_get_remove)
  moreover have "bm_inv (ns_records s')"
    using assms by (auto simp: ns_step_def ns_inv_def Let_def bm_inv_insert bm_inv_remove split: if_splits)
  ultimately show ?thesis
    using assms legal by (auto simp: ns_inv_def ns_step_def Let_def legal_history_snoc k_def)
qed

section \<open>The commits\<close>

inductive mem_step :: "('f, 'n) props_env \<Rightarrow> 'f memory_store \<Rightarrow> 'f memory_store \<Rightarrow> bool" for E where
  set: "mem_step E st (snd (commit_set E gen op st))"
| delete: "mem_step E st (snd (commit_delete E dop st))"
| complete: "mem_step E st (snd (commit_complete E cop st))"
| reconcile: "mem_step E st (snd (commit_reconcile E gen rop st))"

inductive mem_reach :: "('f, 'n) props_env \<Rightarrow> 'f memory_store \<Rightarrow> bool" for E where
  start: "mem_reach E (memory_new service)"
| step: "mem_reach E st \<Longrightarrow> mem_step E st st' \<Longrightarrow> mem_reach E st'"

text \<open>A step leaves the store alone, creates a namespace, or adds one row to one.\<close>

definition store_step :: "('f, 'n) props_env \<Rightarrow> 'f memory_store \<Rightarrow> 'f memory_store \<Rightarrow> bool" where
  "store_step E st st' \<longleftrightarrow>
     st' = st
     \<or> (\<exists>ns gen. st' = put_ns ns (ns_entry gen ns st) st)
     \<or> (\<exists>ns gen e s'. ns_step E (ns_entry gen ns st) e s' \<and> rk_namespace (ev_key e) = ns \<and> st' = put_ns ns s' st)"

lemma store_step_refl: "store_step E st st"
  by (simp add: store_step_def)

lemma store_step_new: "store_step E st (put_ns ns (ns_entry gen ns st) st)"
  unfolding store_step_def by blast

lemma store_step_row:
  "ns_step E (ns_entry gen ns st) e s' \<Longrightarrow> rk_namespace (ev_key e) = ns \<Longrightarrow> store_step E st (put_ns ns s' st)"
  unfolding store_step_def by blast

lemma ns_step_set:
  "ns_step E s (set_event E svc op s) (put_store_record (set_record op s) (set_event E svc op s) s)"
  by (auto simp: ns_step_def Let_def set_event_def set_record_def put_store_record_def row_of_record_def prev_version_def
      split: option.split intro!: exI [of _ "set_record op s"])

lemma ev_key_events [simp]:
  "ev_key (set_event E svc op s) = sc_key op" "ev_key (delete_event E svc dop r s) = dc_key dop"
  "ev_key (complete_event E svc cop r s) = cc_key cop" "ev_key (reconcile_event E svc rop s) = rc_key rop"
  by (simp_all add: set_event_def delete_event_def complete_event_def reconcile_event_def Let_def)

lemma commit_set_step: "store_step E st (snd (commit_set E gen op st))"
  unfolding commit_set_def Let_def
  by (simp add: store_step_refl store_step_new store_step_row [OF ns_step_set])

lemma ns_entry_Some: "bm_get (mem_namespaces st) ns = Some s \<Longrightarrow> ns_entry gen ns st = s"
  by (simp add: ns_entry_def)

lemma ns_step_delete:
  assumes "bm_get (ns_records s) (rk_key (dc_key op)) = Some r"
  shows "ns_step E s (delete_event E svc op r s) (s\<lparr>ns_records := bm_remove (rk_key (dc_key op)) (ns_records s),
      ns_events := ns_events s @ [delete_event E svc op r s], ns_nseq := ev_nseq (delete_event E svc op r s)\<rparr>)"
  using assms by (simp add: ns_step_def delete_event_def)

lemma commit_delete_step: "store_step E st (snd (commit_delete E op st))"
proof (cases "\<exists>e. fst (commit_delete E op st) = Inr e")
  case True
  then obtain s r where s: "bm_get (mem_namespaces st) (rk_namespace (dc_key op)) = Some s"
      "bm_get (ns_records s) (rk_key (dc_key op)) = Some r"
      "snd (commit_delete E op st) = put_ns (rk_namespace (dc_key op))
         (s\<lparr>ns_records := bm_remove (rk_key (dc_key op)) (ns_records s),
            ns_events := ns_events s @ [delete_event E (mem_service st) op r s],
            ns_nseq := ev_nseq (delete_event E (mem_service st) op r s)\<rparr>) st"
    by (auto simp: commit_delete_def Let_def split: if_splits option.splits)
  then show ?thesis
    using ns_step_delete [OF s(2), of E "mem_service st"] ns_entry_Some [OF s(1)]
    by (simp add: store_step_row [where gen = "[]"])
next
  case False
  then have "snd (commit_delete E op st) = st"
    by (auto simp: commit_delete_def Let_def split: if_splits option.splits)
  then show ?thesis by (simp add: store_step_refl)
qed

lemma ns_step_complete:
  assumes "bm_get (ns_records s) (rk_key (cc_key op)) = Some r" "sr_lifecycle r = Some Provisioning"
    "cc_lifecycle op \<noteq> Provisioning"
  shows "ns_step E s (complete_event E svc op r s)
     (s\<lparr>ns_records := bm_insert (rk_key (cc_key op)) (r\<lparr>sr_lifecycle := Some (cc_lifecycle op),
           sr_version := ev_version (complete_event E svc op r s), sr_nseq := ev_nseq (complete_event E svc op r s)\<rparr>) (ns_records s),
        ns_events := ns_events s @ [complete_event E svc op r s], ns_nseq := ev_nseq (complete_event E svc op r s)\<rparr>)"
  using assms by (auto simp: ns_step_def Let_def complete_event_def row_of_record_def
      intro!: exI [of _ "r\<lparr>sr_lifecycle := Some (cc_lifecycle op), sr_version := Suc (sr_version r), sr_nseq := Suc (ns_nseq s)\<rparr>"])

lemma commit_complete_step: "store_step E st (snd (commit_complete E op st))"
proof (cases "\<exists>x. fst (commit_complete E op st) = Inr x")
  case True
  then obtain s r where s: "bm_get (mem_namespaces st) (rk_namespace (cc_key op)) = Some s"
      "bm_get (ns_records s) (rk_key (cc_key op)) = Some r" "sr_lifecycle r = Some Provisioning"
      "cc_lifecycle op \<noteq> Provisioning"
      "snd (commit_complete E op st) = put_ns (rk_namespace (cc_key op))
       (s\<lparr>ns_records := bm_insert (rk_key (cc_key op)) (r\<lparr>sr_lifecycle := Some (cc_lifecycle op),
             sr_version := ev_version (complete_event E (mem_service st) op r s),
             sr_nseq := ev_nseq (complete_event E (mem_service st) op r s)\<rparr>) (ns_records s),
          ns_events := ns_events s @ [complete_event E (mem_service st) op r s],
          ns_nseq := ev_nseq (complete_event E (mem_service st) op r s)\<rparr>) st"
    by (auto simp: commit_complete_def Let_def split: if_splits option.splits)
  then show ?thesis
    using ns_step_complete [OF s(2-4), of E "mem_service st"] ns_entry_Some [OF s(1)]
    by (simp add: store_step_row [where gen = "[]"])
next
  case False
  then have "snd (commit_complete E op st) = st"
    by (auto simp: commit_complete_def Let_def split: if_splits option.splits)
  then show ?thesis by (simp add: store_step_refl)
qed

lemma commit_reconcile_step: "store_step E st (snd (commit_reconcile E gen op st))"
proof -
  define s0 where "s0 = ns_entry gen (rk_namespace (rc_key op)) st"
  define s where "s = s0\<lparr>ns_epoch := ns_epoch s0 + 1\<rparr>"
  define e where "e = reconcile_event E (mem_service st) op s"
  have "ns_step E s0 e (put_store_record (reconcile_record op s) e s)"
    by (auto simp: ns_step_def Let_def e_def s_def reconcile_event_def reconcile_record_def put_store_record_def
        row_of_record_def prev_version_def split: option.split intro!: exI [of _ "reconcile_record op s"])
  moreover have "snd (commit_reconcile E gen op st) = put_ns (rk_namespace (rc_key op)) (put_store_record (reconcile_record op s) e s) st"
    by (simp add: commit_reconcile_def Let_def e_def s_def s0_def)
  ultimately show ?thesis unfolding s0_def by (simp add: store_step_row e_def)
qed

lemma mem_step_store: "mem_step E st st' \<Longrightarrow> store_step E st st'"
  by (induction rule: mem_step.induct)
    (rule commit_set_step commit_delete_step commit_complete_step commit_reconcile_step)+

lemma ns_entry_inv: "store_inv E st \<Longrightarrow> ns_inv E (ns_entry gen ns st)"
  by (auto simp: store_inv_def ns_entry_def ns_inv_new split: option.split)

lemma store_inv_put: "store_inv E st \<Longrightarrow> ns_inv E s \<Longrightarrow> store_inv E (put_ns ns s st)"
  by (auto simp: store_inv_def put_ns_def bm_inv_insert bm_get_insert)

lemma store_step_inv: "store_inv E st \<Longrightarrow> store_step E st st' \<Longrightarrow> store_inv E st'"
  unfolding store_step_def by (metis ns_entry_inv ns_step_inv store_inv_put)

lemma store_inv_new: "store_inv E (memory_new service)"
  by (simp add: store_inv_def memory_new_def bm_inv_def bm_get_def)

lemma mem_reach_inv: "mem_reach E st \<Longrightarrow> store_inv E st"
  by (induction rule: mem_reach.induct) (auto intro: store_inv_new store_step_inv mem_step_store)

text \<open>C9: the history of the property store is faithful.  After any sequence of commits, successful or
  refused, the rows of a namespace are numbered 1, 2, ... up to its cursor; every row is a legal transition
  of its record (created with version 1, one more per row, completed only out of the provisioning state); a record
  exists exactly when its last row is not a deletion, and then has the version, number and lifecycle of
  that row, whose digest is the keyed digest of the record's current value; and the audit epoch counts the
  reconciliations.\<close>

theorem history_faithful:
  assumes "mem_reach E st" "bm_get (mem_namespaces st) ns = Some s"
  shows "map ev_nseq (ns_events s) = [1..<Suc (ns_nseq s)]
    \<and> legal_history (ns_events s)
    \<and> rel_option (row_of_record E (ns_audit_key s)) (bm_get (ns_records s) k) (live_event (ns_events s) k)
    \<and> ns_epoch s = length (filter (\<lambda>e. ev_kind e = Reconciled) (ns_events s))"
  using mem_reach_inv [OF assms(1)] assms(2) by (auto simp: store_inv_def ns_inv_def)

definition unit_env :: "(unit, unit) props_env" where
  "unit_env = \<lparr>feq = (=), num_of_int = (\<lambda>_. ()), num_of_f64 = (\<lambda>_. Some ()), num_text = (\<lambda>_. ''0''),
     str_text = (\<lambda>s. CHR 0x22 # s @ [CHR 0x22]), json_text = (\<lambda>_. []), value_of_text = (\<lambda>_. None),
     hmac_sha256 = (\<lambda>k d. take 32 (k @ d)),
     is_alphanumeric = (\<lambda>_. False), timestamp_millis = Some, rfc3339_millis = (\<lambda>_. [])\<rparr>"

definition first_set :: "unit set_commit" where
  "first_set = \<lparr>sc_key = key_collection ''accounts'' ''a'', sc_new_value = PObject [(''n'', PInt 1)],
     sc_expected = Some 0, sc_merge = Patch, sc_lifecycle = None, sc_actor = ''maild'', sc_cause = None, sc_ts_ms = 0\<rparr>"

theorem history_faithful_witness:
  "\<exists>s. mem_reach unit_env (snd (commit_set unit_env ''k'' first_set (memory_new ''maild'')))
     \<and> bm_get (mem_namespaces (snd (commit_set unit_env ''k'' first_set (memory_new ''maild'')))) ''accounts'' = Some s
     \<and> ns_nseq s = 1 \<and> legal_history (ns_events s)"
proof -
  define st where "st = snd (commit_set unit_env ''k'' first_set (memory_new ''maild''))"
  have r: "mem_reach unit_env st"
    unfolding st_def by (rule mem_reach.step [OF mem_reach.start mem_step.set])
  obtain s where s: "bm_get (mem_namespaces st) ''accounts'' = Some s" "ns_nseq s = 1"
    by (simp add: st_def commit_set_def first_set_def key_collection_def is_whole_record_def Let_def bm_contains_def
        bm_get_def LIFECYCLE_FIELD_def prev_version_def ns_entry_def memory_new_def namespace_state_new_def put_ns_def
        put_store_record_def set_event_def set_record_def)
  show ?thesis using history_faithful [OF r s(1)] r s by (auto simp: st_def)
qed

end
