(* ===== verification/Props_Runtime.thy ===== *)
theory Props_Runtime
  imports Props_History Mesh_Caps
begin

text \<open>
  The runtime of a property namespace (\<^verbatim>\<open>cosmix-lib-props-store/src/runtime.rs\<close> with \<^verbatim>\<open>hooks.rs\<close> and the parts of
  \<^verbatim>\<open>namespace.rs\<close> it reads): the checks before a write, the hooks around it, and the completion of a saga.  The
  runtime holds no lock between its calls of the store: what hooks and other writers do in between are
  the arguments \<open>i1\<close> (between the read and the write) and \<open>i2\<close> (between the write and the completion) of an
  operation.  Of the texts of errors only a short form is kept.
\<close>

section \<open>Hooks and namespaces\<close>

datatype hook_error = HookValidation string | HookFailed string

fun hook_message :: "hook_error \<Rightarrow> string" where
  "hook_message (HookValidation m) = m"
| "hook_message (HookFailed m) = m"

datatype write_origin = CallerOrigin | BackendOrigin

record 'f hook_ctx =
  hc_key :: record_key
  hc_old :: "'f prop_value option"
  hc_new :: "'f prop_value option"
  hc_version :: nat
  hc_actor :: string
  hc_merge :: "merge_mode option"
  hc_origin :: write_origin

record 'f hook_handler =
  before_set :: "'f hook_ctx \<Rightarrow> (hook_error, unit) result"
  after_set :: "'f hook_ctx \<Rightarrow> (hook_error, unit) result"
  before_delete :: "'f hook_ctx \<Rightarrow> (hook_error, unit) result"
  after_delete :: "'f hook_ctx \<Rightarrow> (hook_error, unit) result"

definition noop_hooks :: "'f hook_handler" where
  "noop_hooks = \<lparr>before_set = (\<lambda>_. Inr ()), after_set = (\<lambda>_. Inr ()), before_delete = (\<lambda>_. Inr ()), after_delete = (\<lambda>_. Inr ())\<rparr>"

datatype cardinality = Singleton string | Collection string

datatype namespace_lifecycle = Simple | Saga

datatype schema_public = SchemaAllow | SchemaDeny

record schema_version =
  sv_major :: nat
  sv_minor :: nat
  sv_patch :: nat

text \<open>The type and the default of a field are kept in the JSON form in which \<^verbatim>\<open>describe\<close> prints them.\<close>

record 'n field_schema =
  fs_name :: string
  fs_type :: "'n json"
  fs_default :: "'n json option"
  fs_secret :: bool
  fs_help :: string
  fs_since :: "schema_version option"
  fs_until :: "schema_version option"

record 'f prop_validator =
  vd_name :: string
  vd_secret :: bool
  vd_check :: "'f prop_value \<Rightarrow> (hook_error, unit) result"

text \<open>The fields the runtime and the router read; backend, retention and edit policy belong to the store
  and the start-up.\<close>

record ('f, 'n, 'p) namespace_spec =
  sp_name :: string
  sp_schema :: "'n field_schema list"
  sp_cardinality :: cardinality
  sp_auth :: "'p auth_policy"
  sp_hooks :: "'f hook_handler"
  sp_validators :: "'f prop_validator list"
  sp_schema_public :: schema_public
  sp_lifecycle :: namespace_lifecycle
  sp_since_version :: schema_version
  sp_require_version :: bool

definition secret_field_names :: "'n field_schema list \<Rightarrow> string list" where
  "secret_field_names schema = map fs_name (filter fs_secret schema)"

section \<open>The runtime\<close>

datatype runtime_error = RtHook hook_error | RtStore store_error

record ('f, 'n, 'p) runtime =
  rt_service :: string
  rt_spec :: "('f, 'n, 'p) namespace_spec"

record set_opts =
  so_expected :: "nat option"
  so_merge :: merge_mode
  so_actor :: string
  so_cause :: "string option"
  so_ts_ms :: int

record delete_opts =
  do_expected :: "nat option"
  do_actor :: string
  do_cause :: "string option"
  do_ts_ms :: int

record set_outcome =
  out_set_event :: record_event
  out_complete_event :: "record_event option"
  out_warnings :: "string list"

definition REASON_MAX_LEN :: nat where "REASON_MAX_LEN = 256"

definition ellipsis :: string where "ellipsis = [CHR 0xE2, CHR 0x80, CHR 0xA6]"

definition sanitize_char :: "('f, 'n) props_env \<Rightarrow> string \<Rightarrow> string" where
  "sanitize_char E ch =
     (if ch = [CHR 0x09] \<or> ch = [CHR 0x20] then ch
      else if (case ch of [c] \<Rightarrow> CHR 0x21 \<le> c \<and> c \<le> CHR 0x7E | _ \<Rightarrow> False) then ch
      else if is_alphanumeric E ch then ch
      else ''?'')"

fun sanitize_loop :: "('f, 'n) props_env \<Rightarrow> string list \<Rightarrow> string \<Rightarrow> string" where
  "sanitize_loop E [] out = out"
| "sanitize_loop E (ch # chs) out =
     (if REASON_MAX_LEN \<le> length out then out @ ellipsis else sanitize_loop E chs (out @ sanitize_char E ch))"

definition sanitize_reason :: "('f, 'n) props_env \<Rightarrow> string \<Rightarrow> string" where
  "sanitize_reason E s = sanitize_loop E (scalars s) []"

definition validation_failed :: "string \<Rightarrow> (runtime_error, 'a) result" where
  "validation_failed m = Inl (RtHook (HookValidation m))"

definition validate_key :: "('f, 'n, 'p) runtime \<Rightarrow> record_key \<Rightarrow> (runtime_error, unit) result" where
  "validate_key rt key =
     (if rk_namespace key \<noteq> sp_name (rt_spec rt) then validation_failed ''key namespace does not match''
      else if \<not> is_whole_record key then validation_failed ''field_path is not supported on set/delete''
      else case sp_cardinality (rt_spec rt) of
             Singleton _ \<Rightarrow>
               if rk_key key \<noteq> [] then validation_failed ''Singleton namespace requires empty key'' else Inr ()
           | Collection _ \<Rightarrow>
               if rk_key key = [] then validation_failed ''Collection namespace requires non-empty key'' else Inr ())"

definition validate_primary_key ::
  "('f, 'n, 'p) runtime \<Rightarrow> record_key \<Rightarrow> 'f prop_value \<Rightarrow> merge_mode \<Rightarrow> bool \<Rightarrow> (runtime_error, unit) result" where
  "validate_primary_key rt key v merge prior_exists =
     (case sp_cardinality (rt_spec rt) of
        Singleton _ \<Rightarrow> Inr ()
      | Collection pk_field \<Rightarrow>
          (case v of
             PObject obj \<Rightarrow>
               (case bm_get obj pk_field of
                  Some x \<Rightarrow> if x = PString (rk_key key) then Inr () else validation_failed ''primary key must equal record key''
                | None \<Rightarrow>
                    if merge = Replace \<or> (merge = Patch \<and> \<not> prior_exists)
                    then validation_failed ''value must carry the primary key on create/replace''
                    else Inr ())
           | _ \<Rightarrow> Inr ()))"

definition hook_result :: "(hook_error, 'a) result \<Rightarrow> (runtime_error, 'a) result" where
  "hook_result r = map_err RtHook r"

definition set_ctx :: "record_key \<Rightarrow> 'f prop_value option \<Rightarrow> 'f prop_value option \<Rightarrow> nat \<Rightarrow> string \<Rightarrow> merge_mode option \<Rightarrow> write_origin \<Rightarrow> 'f hook_ctx" where
  "set_ctx key old new version actor merge origin =
     \<lparr>hc_key = key, hc_old = old, hc_new = new, hc_version = version, hc_actor = actor, hc_merge = merge, hc_origin = origin\<rparr>"

text \<open>Everything before the write: the completion actor of a saga and the record read before it.\<close>

definition prepare_set ::
  "('f, 'n, 'p) runtime \<Rightarrow> record_key \<Rightarrow> 'f prop_value \<Rightarrow> set_opts \<Rightarrow> write_origin \<Rightarrow> 'f memory_store \<Rightarrow>
     (runtime_error, string option \<times> 'f store_record option) result" where
  "prepare_set rt key v opts origin st =
     and_then (validate_key rt key) (\<lambda>_.
     and_then (case sp_lifecycle (rt_spec rt) of
         Saga \<Rightarrow> map_err (\<lambda>_. RtHook (HookValidation ''completion actor'')) (and_then (daemon_complete (rt_service rt)) (\<lambda>a. Inr (Some a)))
       | Simple \<Rightarrow> Inr None) (\<lambda>complete_actor.
     if sp_require_version (rt_spec rt) \<and> so_expected opts = None
     then validation_failed ''namespace requires if_version on set''
     else
       let prior = (case mem_get st key of Inr (r, _) \<Rightarrow> Some r | Inl _ \<Rightarrow> None)
       in and_then (validate_primary_key rt key v (so_merge opts) (prior \<noteq> None)) (\<lambda>_.
          and_then (hook_result (try_map (\<lambda>vd. vd_check vd v) (sp_validators (rt_spec rt)))) (\<lambda>_.
          and_then (hook_result (before_set (sp_hooks (rt_spec rt))
              (set_ctx key (map_option sr_value prior) (Some v) (case prior of Some r \<Rightarrow> sr_version r | None \<Rightarrow> 0)
                 (so_actor opts) (Some (so_merge opts)) origin))) (\<lambda>_.
          Inr (complete_actor, prior))))))"

definition set_commit_of :: "('f, 'n, 'p) runtime \<Rightarrow> record_key \<Rightarrow> 'f prop_value \<Rightarrow> set_opts \<Rightarrow> 'f set_commit" where
  "set_commit_of rt key v opts =
     \<lparr>sc_key = key, sc_new_value = v, sc_expected = so_expected opts, sc_merge = so_merge opts,
      sc_lifecycle = (case sp_lifecycle (rt_spec rt) of Saga \<Rightarrow> Some Provisioning | Simple \<Rightarrow> None),
      sc_actor = so_actor opts, sc_cause = so_cause opts, sc_ts_ms = so_ts_ms opts\<rparr>"

definition complete_commit_of ::
  "('f, 'n) props_env \<Rightarrow> record_key \<Rightarrow> set_opts \<Rightarrow> string \<Rightarrow> nat \<Rightarrow> (hook_error, unit) result \<Rightarrow> complete_commit" where
  "complete_commit_of E key opts complete_actor version after_result =
     \<lparr>cc_key = key,
      cc_lifecycle = (case after_result of Inr _ \<Rightarrow> Active | Inl e \<Rightarrow> Failed (sanitize_reason E (hook_message e))),
      cc_expected = version, cc_actor = complete_actor, cc_cause = so_cause opts, cc_ts_ms = so_ts_ms opts\<rparr>"

text \<open>The result, the number of times the dispatcher is notified, and the store.\<close>

definition set_with_origin ::
  "('f, 'n) props_env \<Rightarrow> ('f, 'n, 'p) runtime \<Rightarrow> string \<Rightarrow> ('f memory_store \<Rightarrow> 'f memory_store) \<Rightarrow>
     ('f memory_store \<Rightarrow> 'f memory_store) \<Rightarrow> record_key \<Rightarrow> 'f prop_value \<Rightarrow> set_opts \<Rightarrow> write_origin \<Rightarrow> 'f memory_store \<Rightarrow>
     (runtime_error, set_outcome) result \<times> nat \<times> 'f memory_store" where
  "set_with_origin E rt gen i1 i2 key v opts origin st =
     (case prepare_set rt key v opts origin st of
        Inl err \<Rightarrow> (Inl err, 0, st)
      | Inr (complete_actor, prior) \<Rightarrow>
          (case commit_set E gen (set_commit_of rt key v opts) (i1 st) of
             (Inl err, st1) \<Rightarrow> (Inl (RtStore err), 0, st1)
           | (Inr (r, e), st1) \<Rightarrow>
               let after_result = after_set (sp_hooks (rt_spec rt))
                     (set_ctx key (map_option sr_value prior) (Some (sr_value r)) (sr_version r) (so_actor opts)
                        (Some (so_merge opts)) origin);
                   st2 = i2 st1
               in case sp_lifecycle (rt_spec rt) of
                    Simple \<Rightarrow>
                      (Inr \<lparr>out_set_event = e, out_complete_event = None,
                         out_warnings = (case after_result of Inr _ \<Rightarrow> [] | Inl err \<Rightarrow> [sanitize_reason E (hook_message err)])\<rparr>,
                       1, st2)
                  | Saga \<Rightarrow>
                      (case commit_complete E (complete_commit_of E key opts (the complete_actor) (sr_version r) after_result) st2 of
                         (Inl err, st3) \<Rightarrow> (Inl (RtStore err), 1, st3)
                       | (Inr (_, ce), st3) \<Rightarrow>
                           (Inr \<lparr>out_set_event = e, out_complete_event = Some ce, out_warnings = []\<rparr>, 2, st3))))"

definition runtime_set ::
  "('f, 'n) props_env \<Rightarrow> ('f, 'n, 'p) runtime \<Rightarrow> string \<Rightarrow> ('f memory_store \<Rightarrow> 'f memory_store) \<Rightarrow>
     ('f memory_store \<Rightarrow> 'f memory_store) \<Rightarrow> record_key \<Rightarrow> 'f prop_value \<Rightarrow> set_opts \<Rightarrow> 'f memory_store \<Rightarrow>
     (runtime_error, set_outcome) result \<times> nat \<times> 'f memory_store" where
  "runtime_set E rt gen i1 i2 key v opts st = set_with_origin E rt gen i1 i2 key v opts CallerOrigin st"

definition delete_with_origin ::
  "('f, 'n) props_env \<Rightarrow> ('f, 'n, 'p) runtime \<Rightarrow> ('f memory_store \<Rightarrow> 'f memory_store) \<Rightarrow> record_key \<Rightarrow> delete_opts \<Rightarrow>
     write_origin \<Rightarrow> 'f memory_store \<Rightarrow> (runtime_error, record_event) result \<times> nat \<times> 'f memory_store" where
  "delete_with_origin E rt i1 key opts origin st =
     (case and_then (validate_key rt key) (\<lambda>_.
           if sp_require_version (rt_spec rt) \<and> do_expected opts = None
           then validation_failed ''namespace requires if_version on delete''
           else and_then (map_err RtStore (mem_get st key)) (\<lambda>(prior, _).
             and_then (hook_result (before_delete (sp_hooks (rt_spec rt))
                 (set_ctx key (Some (sr_value prior)) None (sr_version prior) (do_actor opts) None origin))) (\<lambda>_.
             Inr prior))) of
        Inl err \<Rightarrow> (Inl err, 0, st)
      | Inr prior \<Rightarrow>
          (case commit_delete E \<lparr>dc_key = key, dc_expected = do_expected opts, dc_actor = do_actor opts,
                  dc_cause = do_cause opts, dc_ts_ms = do_ts_ms opts\<rparr> (i1 st) of
             (Inl err, st1) \<Rightarrow> (Inl (RtStore err), 0, st1)
           | (Inr e, st1) \<Rightarrow>
               (case after_delete (sp_hooks (rt_spec rt))
                   (set_ctx key (Some (sr_value prior)) None (ev_version e) (do_actor opts) None origin) of
                  Inl err \<Rightarrow> (Inl (RtHook err), 1, st1)
                | Inr _ \<Rightarrow> (Inr e, 1, st1))))"

definition runtime_delete ::
  "('f, 'n) props_env \<Rightarrow> ('f, 'n, 'p) runtime \<Rightarrow> ('f memory_store \<Rightarrow> 'f memory_store) \<Rightarrow> record_key \<Rightarrow> delete_opts \<Rightarrow>
     'f memory_store \<Rightarrow> (runtime_error, record_event) result \<times> nat \<times> 'f memory_store" where
  "runtime_delete E rt i1 key opts st = delete_with_origin E rt i1 key opts CallerOrigin st"

end
