(* ===== verification/Props_Dispatch.thy ===== *)
theory Props_Dispatch
  imports Props_Saga
begin

text \<open>
  The live stream of a namespace (\<^verbatim>\<open>cosmix-lib-props-store/src/dispatcher.rs\<close>) and its meeting with the replay of the
  watch verb (\<^verbatim>\<open>bus/mutation.rs\<close>).  Writers commit and notify; the dispatcher parks on the notification, and
  drains the history from its cursor; a watcher is subscribed, then the cursor is read, then the history.
  These steps interleave freely.  The store is used through the contract of the \<^verbatim>\<open>PropertyStore\<close> trait,
  stated as a locale and met by the memory store.
\<close>

section \<open>The steps\<close>








section \<open>The contract of the store\<close>



section \<open>The memory store meets it\<close>


















end
