(* ===== verification/Props_Router.thy ===== *)
theory Props_Router
  imports Props_Dispatch Bus_Message
begin

text \<open>
  The property verbs on the bus (\<^verbatim>\<open>cosmix-lib-props-store/src/bus/mutation.rs\<close>): a request names a namespace, the
  namespace's policy decides what the caller may do, and the answer is projected from the runtime or the
  store.  The runtimes of a router share one memory store.  serde\_json's maps are sorted, as the crates do
  not enable its insertion order; of the formatted messages of errors a fixed part is kept.
\<close>

section \<open>Responses\<close>

record props_response =
  pr_rc :: nat
  pr_body :: string
  pr_error :: "string option"

datatype props_error_code =
    AuthDenied
  | NotFoundCode
  | ValidationError
  | ConflictCode
  | VersionMismatchCode
  | StorageError
  | HookErrorCode
  | Unavailable
  | ReplayWindowExceededCode
  | GrantFailed

fun code_token :: "props_error_code \<Rightarrow> string" where
  "code_token AuthDenied = ''auth_denied''"
| "code_token NotFoundCode = ''not_found''"
| "code_token ValidationError = ''validation_error''"
| "code_token ConflictCode = ''conflict''"
| "code_token VersionMismatchCode = ''version_mismatch''"
| "code_token StorageError = ''storage_error''"
| "code_token HookErrorCode = ''hook_error''"
| "code_token Unavailable = ''unavailable''"
| "code_token ReplayWindowExceededCode = ''replay_window_exceeded''"
| "code_token GrantFailed = ''grant_failed''"

definition code_rc :: "props_error_code \<Rightarrow> nat" where
  "code_rc c = (if c \<in> {StorageError, HookErrorCode, Unavailable} then 20 else 10)"

definition jmap :: "(string \<times> 'n json) list \<Rightarrow> (string, 'n json) bmap" where
  "jmap ms = foldl (\<lambda>m (k, v). bm_insert k v m) [] ms"

definition jobj :: "(string \<times> 'n json) list \<Rightarrow> 'n json" where
  "jobj ms = JObject (jmap ms)"

definition jnat :: "('f, 'n) props_env \<Rightarrow> nat \<Rightarrow> 'n json" where
  "jnat E n = JNumber (num_of_int E (int n))"

definition err_with :: "('f, 'n) props_env \<Rightarrow> props_error_code \<Rightarrow> string \<Rightarrow> (string \<times> 'n json) list \<Rightarrow> props_response" where
  "err_with E code message extra =
     \<lparr>pr_rc = code_rc code,
      pr_body = json_text E (jobj ([(''error_code'', JString (code_token code)), (''message'', JString message)] @ extra)),
      pr_error = Some message\<rparr>"

definition err :: "('f, 'n) props_env \<Rightarrow> props_error_code \<Rightarrow> string \<Rightarrow> props_response" where
  "err E code message = err_with E code message []"

definition ok_response :: "('f, 'n) props_env \<Rightarrow> 'n json \<Rightarrow> props_response" where
  "ok_response E body = \<lparr>pr_rc = 0, pr_body = json_text E body, pr_error = None\<rparr>"

definition store_error_to_response :: "('f, 'n) props_env \<Rightarrow> store_error \<Rightarrow> props_response" where
  "store_error_to_response E e =
     (case e of
        NotFound \<Rightarrow> err E NotFoundCode ''not_found''
      | VersionMismatch expected current \<Rightarrow>
          err_with E VersionMismatchCode ''if_version mismatch''
            [(''expected_version'', jnat E expected), (''current_version'', jnat E current)]
      | Storage m \<Rightarrow> err E StorageError m
      | Validation m \<Rightarrow> err E ValidationError m
      | Conflict m \<Rightarrow> err E ConflictCode m
      | ReplayWindowExceeded since oldest \<Rightarrow>
          err_with E ReplayWindowExceededCode ''since_nseq outside replay window''
            [(''since_nseq'', jnat E since), (''oldest_nseq'', jnat E oldest)])"

fun hook_error_to_response :: "('f, 'n) props_env \<Rightarrow> hook_error \<Rightarrow> props_response" where
  "hook_error_to_response E (HookValidation m) = err E ValidationError m"
| "hook_error_to_response E (HookFailed m) = err E HookErrorCode m"

fun runtime_error_to_response :: "('f, 'n) props_env \<Rightarrow> runtime_error \<Rightarrow> props_response" where
  "runtime_error_to_response E (RtHook h) = hook_error_to_response E h"
| "runtime_error_to_response E (RtStore s) = store_error_to_response E s"

section \<open>Requests\<close>

definition refuse_flat_path :: "('f, 'n) props_env \<Rightarrow> bus_message \<Rightarrow> (props_response, unit) result" where
  "refuse_flat_path E req =
     (if message_get req ''path'' \<noteq> None then Inl (err E ValidationError ''mixed addressing'') else Inr ())"

definition refuse_subpath_selectors :: "('f, 'n) props_env \<Rightarrow> bus_message \<Rightarrow> (props_response, unit) result" where
  "refuse_subpath_selectors E req =
     (if message_get req ''field_path'' \<noteq> None then Inl (err E ValidationError ''field_path_deferred'') else Inr ())"

definition refuse_get_body :: "('f, 'n) props_env \<Rightarrow> bus_message \<Rightarrow> (props_response, unit) result" where
  "refuse_get_body E req =
     (if msg_body req \<noteq> [] then Inl (err E ValidationError ''get_projection_deferred'') else Inr ())"

definition refuse_unsupported_list_options :: "('f, 'n) props_env \<Rightarrow> bus_message \<Rightarrow> (props_response, unit) result" where
  "refuse_unsupported_list_options E req =
     (if list_ex (\<lambda>hdr. message_get req hdr \<noteq> None) [''cursor'', ''limit'', ''order_by'', ''filter'', ''fields'']
      then Inl (err E ValidationError ''list_option_deferred'')
      else if msg_body req \<noteq> [] then Inl (err E ValidationError ''list_option_deferred: request body'')
      else Inr ())"

definition require_namespace :: "('f, 'n) props_env \<Rightarrow> bus_message \<Rightarrow> (props_response, string) result" where
  "require_namespace E req = ok_or (err E ValidationError ''missing required header: namespace'') (message_get req ''namespace'')"

definition cap :: "('f, 'n, 'p) namespace_spec \<Rightarrow> string \<Rightarrow> string \<Rightarrow> string option \<Rightarrow> string" where
  "cap spec service action scope =
     (let fqn = ns_qualified (sp_name spec) service
      in case scope of
           Some sc \<Rightarrow> ''props.'' @ action @ '':'' @ fqn @ '':'' @ sc
         | None \<Rightarrow> ''props.'' @ action @ '':'' @ fqn)"

definition holds_cap :: "('f, 'n, 'p) namespace_spec \<Rightarrow> string \<Rightarrow> 'p peer_identity \<Rightarrow> string \<Rightarrow> string option \<Rightarrow> bool" where
  "holds_cap spec service peer action scope \<longleftrightarrow> cap spec service action scope \<in> sp_auth spec peer"

definition require_cap ::
  "('f, 'n) props_env \<Rightarrow> ('f, 'n, 'p) namespace_spec \<Rightarrow> string \<Rightarrow> 'p peer_identity \<Rightarrow> string \<Rightarrow> string option \<Rightarrow> (props_response, unit) result" where
  "require_cap E spec service peer action scope =
     (if holds_cap spec service peer action scope then Inr () else Inl (err E AuthDenied ''missing capability''))"

definition build_record_key :: "('f, 'n) props_env \<Rightarrow> ('f, 'n, 'p) namespace_spec \<Rightarrow> string option \<Rightarrow> (props_response, record_key) result" where
  "build_record_key E spec key_hdr =
     (case sp_cardinality spec of
        Singleton _ \<Rightarrow>
          (if key_hdr = None \<or> key_hdr = Some [] then Inr (key_singleton (sp_name spec))
           else Inl (err E ValidationError ''singleton namespace: key header must be empty''))
      | Collection _ \<Rightarrow>
          (case key_hdr of
             Some (c # k) \<Rightarrow> Inr (key_collection (sp_name spec) (c # k))
           | _ \<Rightarrow> Inl (err E ValidationError ''collection namespace: missing required header key'')))"

definition parse_if_version :: "('f, 'n) props_env \<Rightarrow> string option \<Rightarrow> (props_response, nat option) result" where
  "parse_if_version E hdr =
     (case hdr of
        None \<Rightarrow> Inr None
      | Some s \<Rightarrow>
          (case parse_unsigned u64_max s of Some n \<Rightarrow> Inr (Some n) | None \<Rightarrow> Inl (err E ValidationError ''invalid if_version'')))"

definition parse_since_nseq :: "('f, 'n) props_env \<Rightarrow> string option \<Rightarrow> (props_response, nat) result" where
  "parse_since_nseq E hdr =
     (case hdr of
        None \<Rightarrow> Inr 0
      | Some s \<Rightarrow> ok_or (err E ValidationError ''invalid since_nseq'') (parse_unsigned u64_max s))"

definition parse_merge :: "('f, 'n) props_env \<Rightarrow> string option \<Rightarrow> (props_response, merge_mode) result" where
  "parse_merge E hdr =
     (case hdr of
        None \<Rightarrow> Inr Patch
      | Some s \<Rightarrow>
          if s = ''true'' \<or> s = ''patch'' then Inr Patch
          else if s = ''false'' \<or> s = ''replace'' then Inr Replace
          else Inl (err E ValidationError ''invalid merge''))"

definition parse_set_body :: "('f, 'n) props_env \<Rightarrow> string \<Rightarrow> (props_response, 'f prop_value) result" where
  "parse_set_body E body =
     (let trimmed = trim body in
      if trimmed = [] then Inl (err E ValidationError ''set requires a JSON object body'')
      else and_then (ok_or (err E ValidationError ''invalid JSON body'') (value_of_text E trimmed)) (\<lambda>v.
        if is_object v then Inr v else Inl (err E ValidationError ''set body must be a JSON object'')))"

definition peer_actor :: "'p peer_identity \<Rightarrow> string \<Rightarrow> (actor_error, string) result" where
  "peer_actor peer fallback_service =
     (case peer_identity.service_name peer of
        Some svc \<Rightarrow> actor_new svc
      | None \<Rightarrow>
          (case signed_ident peer of
             Some p \<Rightarrow> actor_operator p
           | None \<Rightarrow>
               (case unix_uid peer of
                  Some uid \<Rightarrow> actor_operator (''uid-'' @ nat_text uid)
                | None \<Rightarrow> actor_new fallback_service)))"

section \<open>Projections\<close>

definition project_set ::
  "('f, 'n) props_env \<Rightarrow> ('f, 'n, 'p) namespace_spec \<Rightarrow> string \<Rightarrow> record_key \<Rightarrow> set_outcome \<Rightarrow> 'n json" where
  "project_set E spec ns key out =
     (let e = out_set_event out; created = (''created'', JBool (ev_kind e = Created)) in
      case (out_complete_event out, sp_lifecycle spec) of
        (Some c, Saga) \<Rightarrow>
          jobj ([(''namespace'', JString ns), (''key'', JString (rk_key key)),
             (''set_version'', jnat E (ev_version e)), (''set_nseq'', jnat E (ev_nseq e)),
             (''complete_version'', jnat E (ev_version c)), (''complete_nseq'', jnat E (ev_nseq c)),
             (''lifecycle'', JString (case ev_lifecycle c of Some l \<Rightarrow> as_state_str l | None \<Rightarrow> ''active'')), created]
            @ (case Option.bind (ev_lifecycle c) lifecycle_reason of Some r \<Rightarrow> [(''reason'', JString r)] | None \<Rightarrow> []))
      | _ \<Rightarrow>
          jobj ([(''namespace'', JString ns), (''key'', JString (rk_key key)),
             (''version'', jnat E (ev_version e)), (''nseq'', jnat E (ev_nseq e)), created]
            @ (if out_warnings out = [] then [] else [(''warnings'', JArray (map JString (out_warnings out)))])))"

definition project_fields :: "('f, 'n) props_env \<Rightarrow> 'n field_schema list \<Rightarrow> bool \<Rightarrow> 'f prop_value \<Rightarrow> 'n json" where
  "project_fields E schema with_secrets v =
     (let out = json_of_value E v in
      if with_secrets then out
      else case out of
             JObject m \<Rightarrow>
               JObject (foldl (\<lambda>m name. if bm_contains m name then bm_insert name JNull m else m) m (secret_field_names schema))
           | _ \<Rightarrow> out)"

definition project_record_envelope ::
  "('f, 'n) props_env \<Rightarrow> string \<Rightarrow> 'f store_record \<Rightarrow> nat \<Rightarrow> 'n field_schema list \<Rightarrow> bool \<Rightarrow> 'n json" where
  "project_record_envelope E ns r observed schema with_secrets =
     jobj [(''namespace'', JString ns), (''key'', JString (rk_key (sr_key r))), (''version'', jnat E (sr_version r)),
       (''nseq'', jnat E observed), (''fields'', project_fields E schema with_secrets (sr_value r))]"

definition project_record_summary :: "('f, 'n) props_env \<Rightarrow> 'n field_schema list \<Rightarrow> bool \<Rightarrow> 'f store_record \<Rightarrow> 'n json" where
  "project_record_summary E schema with_secrets r =
     jobj [(''key'', JString (rk_key (sr_key r))), (''version'', jnat E (sr_version r)),
       (''fields'', project_fields E schema with_secrets (sr_value r))]"

fun serde_kind :: "event_kind \<Rightarrow> string" where
  "serde_kind Created = ''created''"
| "serde_kind Updated = ''updated''"
| "serde_kind Deleted = ''deleted''"
| "serde_kind Completed = ''completed''"
| "serde_kind Reconciled = ''reconciled''"

definition visible_fields :: "'n field_schema list \<Rightarrow> record_event \<Rightarrow> (string \<times> 'n json) list" where
  "visible_fields schema e =
     (let visible = filter (\<lambda>f. \<not> list_ex (\<lambda>s. fs_name s = f \<and> fs_secret s) schema) (ev_fields_changed e)
      in if visible = [] then [] else [(''fields_changed'', JArray (map JString visible))])"

definition project_records_changed :: "('f, 'n) props_env \<Rightarrow> string \<Rightarrow> 'n field_schema list \<Rightarrow> record_event \<Rightarrow> 'n json" where
  "project_records_changed E service schema e =
     jobj ([(''namespace'', JString (rk_namespace (ev_key e))), (''key'', JString (rk_key (ev_key e))),
        (''kind'', JString (serde_kind (ev_kind e))), (''verb'', JString (verb_for (ev_kind e) service)),
        (''nseq'', jnat E (ev_nseq e)), (''version'', jnat E (ev_version e)), (''audit_epoch'', jnat E (ev_epoch e)),
        (''actor'', JString (ev_actor e)), (''ts'', JString (rfc3339_millis E (ev_at e)))]
       @ visible_fields schema e
       @ (if 0 < ev_secret_count e then [(''secret_fields_changed_count'', jnat E (ev_secret_count e))] else [])
       @ (case (ev_kind e, ev_lifecycle e) of
            (Completed, Some lc) \<Rightarrow> (''lifecycle'', JString (as_state_str lc))
              # (case lifecycle_reason lc of Some r \<Rightarrow> [(''reason'', JString r)] | None \<Rightarrow> [])
          | _ \<Rightarrow> [])
       @ (case ev_cause e of Some c \<Rightarrow> [(''cause'', JString c)] | None \<Rightarrow> []))"

definition project_audit_row :: "('f, 'n) props_env \<Rightarrow> string \<Rightarrow> 'n field_schema list \<Rightarrow> record_event \<Rightarrow> 'n json" where
  "project_audit_row E service schema e =
     jobj ([(''namespace'', JString (rk_namespace (ev_key e))), (''key'', JString (rk_key (ev_key e))),
        (''verb'', JString (verb_for (ev_kind e) service)), (''version'', jnat E (ev_version e)),
        (''nseq'', jnat E (ev_nseq e)), (''audit_epoch'', jnat E (ev_epoch e)), (''actor'', JString (ev_actor e)),
        (''at'', JString (rfc3339_millis E (ev_at e))), (''audit_digest'', JString (ev_digest e))]
       @ visible_fields schema e)"

definition schema_version_text :: "schema_version \<Rightarrow> string" where
  "schema_version_text v = nat_text (sv_major v) @ ''.'' @ nat_text (sv_minor v) @ ''.'' @ nat_text (sv_patch v)"

definition project_field_validators :: "'f prop_validator list \<Rightarrow> bool \<Rightarrow> string list" where
  "project_field_validators validators full =
     map (\<lambda>v. if \<not> full \<and> vd_secret v then ''<redacted>'' else vd_name v) validators"

definition project_field :: "'f prop_validator list \<Rightarrow> bool \<Rightarrow> 'n field_schema \<Rightarrow> 'n json" where
  "project_field validators full f =
     jobj ([(''name'', JString (fs_name f)), (''type'', fs_type f), (''secret'', JBool (fs_secret f)),
        (''default'', case fs_default f of Some d \<Rightarrow> d | None \<Rightarrow> JNull),
        (''validators'', JArray (map JString (project_field_validators validators full))), (''help'', JString (fs_help f))]
       @ (case fs_since f of Some v \<Rightarrow> [(''since'', JString (schema_version_text v))] | None \<Rightarrow> [])
       @ (case fs_until f of Some v \<Rightarrow> [(''until'', JString (schema_version_text v))] | None \<Rightarrow> []))"

definition project_schema :: "('f, 'n, 'p) namespace_spec \<Rightarrow> string \<Rightarrow> bool \<Rightarrow> 'n json" where
  "project_schema spec ns full =
     jobj ([(''namespace'', JString ns), (''schema_version'', JString (schema_version_text (sp_since_version spec))),
        (''cardinality'', JString (case sp_cardinality spec of Singleton _ \<Rightarrow> ''singleton'' | Collection _ \<Rightarrow> ''collection'')),
        (''fields'', JArray (map (project_field (sp_validators spec) full) (filter (\<lambda>f. full \<or> \<not> fs_secret f) (sp_schema spec))))]
       @ (case sp_cardinality spec of Collection pk \<Rightarrow> [(''primary_key_field'', JString pk)] | Singleton _ \<Rightarrow> []))"

section \<open>The router\<close>

text \<open>The granter answers whether noded installed the subscription of a peer on a topic and a namespace.\<close>

record ('f, 'n, 'p) props_router =
  pt_service :: string
  pt_runtimes :: "(string, ('f, 'n, 'p) runtime) bmap"
  pt_granter :: "(string \<Rightarrow> string \<Rightarrow> string \<Rightarrow> bool) option"
  pt_replay_only :: bool

definition router_new :: "string \<Rightarrow> ('f, 'n, 'p) props_router" where
  "router_new service = \<lparr>pt_service = service, pt_runtimes = [], pt_granter = None, pt_replay_only = False\<rparr>"

definition set_granter :: "(string \<Rightarrow> string \<Rightarrow> string \<Rightarrow> bool) \<Rightarrow> ('f, 'n, 'p) props_router \<Rightarrow> ('f, 'n, 'p) props_router" where
  "set_granter granter r = r\<lparr>pt_granter := Some granter\<rparr>"

definition allow_replay_only_for_tests :: "('f, 'n, 'p) props_router \<Rightarrow> ('f, 'n, 'p) props_router" where
  "allow_replay_only_for_tests r = r\<lparr>pt_replay_only := True\<rparr>"

definition register :: "('f, 'n, 'p) runtime \<Rightarrow> ('f, 'n, 'p) props_router \<Rightarrow> (string, ('f, 'n, 'p) props_router) result" where
  "register rt r =
     (if rt_service rt \<noteq> pt_service r then Inl ''runtime service does not match router service''
      else if bm_contains (pt_runtimes r) (sp_name (rt_spec rt)) then Inl ''namespace already registered''
      else Inr (r\<lparr>pt_runtimes := bm_insert (sp_name (rt_spec rt)) rt (pt_runtimes r)\<rparr>))"

definition router_lookup :: "('f, 'n) props_env \<Rightarrow> ('f, 'n, 'p) props_router \<Rightarrow> string \<Rightarrow> (props_response, ('f, 'n, 'p) runtime) result" where
  "router_lookup E r ns =
     and_then (map_err (\<lambda>_. err E ValidationError ''invalid namespace'') (namespace_name_new ns)) (\<lambda>name.
     ok_or (err E NotFoundCode ''namespace not registered'') (bm_get (pt_runtimes r) name))"

text \<open>What a request does besides answering: the subscriptions it asks for, the notifications of the
  dispatcher and the store it leaves.\<close>

type_synonym 'f answered = "props_response \<times> (string \<times> string \<times> string) list \<times> nat \<times> 'f memory_store"

definition answer :: "props_response \<Rightarrow> 'f memory_store \<Rightarrow> 'f answered" where
  "answer resp st = (resp, [], 0, st)"

fun either_response :: "(props_response, props_response) result \<Rightarrow> props_response" where
  "either_response (Inl resp) = resp"
| "either_response (Inr resp) = resp"

section \<open>The verbs\<close>

text \<open>The headers and the capability of a write, before its key.\<close>

definition write_target ::
  "('f, 'n) props_env \<Rightarrow> ('f, 'n, 'p) props_router \<Rightarrow> bus_message \<Rightarrow> 'p peer_identity \<Rightarrow>
     (props_response, string \<times> ('f, 'n, 'p) runtime) result" where
  "write_target E r req peer =
     and_then (refuse_subpath_selectors E req) (\<lambda>_.
     and_then (require_namespace E req) (\<lambda>ns.
     and_then (router_lookup E r ns) (\<lambda>rt.
     and_then (require_cap E (rt_spec rt) (pt_service r) peer ''write'' None) (\<lambda>_. Inr (ns, rt)))))"

definition request_actor :: "('f, 'n) props_env \<Rightarrow> ('f, 'n, 'p) props_router \<Rightarrow> 'p peer_identity \<Rightarrow> (props_response, string) result" where
  "request_actor E r peer = map_err (\<lambda>_. err E ValidationError ''invalid actor'') (peer_actor peer (pt_service r))"

definition set_request ::
  "('f, 'n) props_env \<Rightarrow> ('f, 'n, 'p) props_router \<Rightarrow> int \<Rightarrow> bus_message \<Rightarrow> 'p peer_identity \<Rightarrow>
     (props_response, string \<times> ('f, 'n, 'p) runtime \<times> record_key \<times> 'f prop_value \<times> set_opts) result" where
  "set_request E r now_ms req peer =
     (if message_get req ''path'' \<noteq> None then Inl (err E ValidationError ''flat_path_mutation_deferred'')
      else
        and_then (write_target E r req peer) (\<lambda>(ns, rt).
        and_then (build_record_key E (rt_spec rt) (message_get req ''key'')) (\<lambda>key.
        and_then (parse_if_version E (message_get req ''if_version'')) (\<lambda>expected.
        and_then (parse_merge E (message_get req ''merge'')) (\<lambda>merge.
        and_then (parse_set_body E (msg_body req)) (\<lambda>v.
        and_then (request_actor E r peer) (\<lambda>actor.
        Inr (ns, rt, key, v, \<lparr>so_expected = expected, so_merge = merge, so_actor = actor,
               so_cause = message_get req ''cause'', so_ts_ms = now_ms\<rparr>))))))))"

definition handle_set ::
  "('f, 'n) props_env \<Rightarrow> ('f, 'n, 'p) props_router \<Rightarrow> string \<Rightarrow> ('f memory_store \<Rightarrow> 'f memory_store) \<Rightarrow>
     ('f memory_store \<Rightarrow> 'f memory_store) \<Rightarrow> int \<Rightarrow> bus_message \<Rightarrow> 'p peer_identity \<Rightarrow> 'f memory_store \<Rightarrow> 'f answered" where
  "handle_set E r gen i1 i2 now_ms req peer st =
     (case set_request E r now_ms req peer of
        Inl resp \<Rightarrow> answer resp st
      | Inr (ns, rt, key, v, opts) \<Rightarrow>
          (case runtime_set E rt gen i1 i2 key v opts st of
             (Inr out, n, st') \<Rightarrow> (ok_response E (project_set E (rt_spec rt) ns key out), [], n, st')
           | (Inl e, n, st') \<Rightarrow> (runtime_error_to_response E e, [], n, st')))"

definition delete_request ::
  "('f, 'n) props_env \<Rightarrow> ('f, 'n, 'p) props_router \<Rightarrow> int \<Rightarrow> bus_message \<Rightarrow> 'p peer_identity \<Rightarrow>
     (props_response, string \<times> ('f, 'n, 'p) runtime \<times> record_key \<times> delete_opts) result" where
  "delete_request E r now_ms req peer =
     and_then (refuse_flat_path E req) (\<lambda>_.
     and_then (write_target E r req peer) (\<lambda>(ns, rt).
     case sp_cardinality (rt_spec rt) of
       Singleton _ \<Rightarrow> Inl (err E ValidationError ''singleton namespaces do not support delete'')
     | Collection _ \<Rightarrow>
         and_then (build_record_key E (rt_spec rt) (message_get req ''key'')) (\<lambda>key.
         and_then (parse_if_version E (message_get req ''if_version'')) (\<lambda>expected.
         and_then (request_actor E r peer) (\<lambda>actor.
         Inr (ns, rt, key, \<lparr>do_expected = expected, do_actor = actor, do_cause = message_get req ''cause'',
                do_ts_ms = now_ms\<rparr>))))))"

definition handle_delete ::
  "('f, 'n) props_env \<Rightarrow> ('f, 'n, 'p) props_router \<Rightarrow> ('f memory_store \<Rightarrow> 'f memory_store) \<Rightarrow> int \<Rightarrow> bus_message \<Rightarrow>
     'p peer_identity \<Rightarrow> 'f memory_store \<Rightarrow> 'f answered" where
  "handle_delete E r i1 now_ms req peer st =
     (case delete_request E r now_ms req peer of
        Inl resp \<Rightarrow> answer resp st
      | Inr (ns, rt, key, opts) \<Rightarrow>
          (case runtime_delete E rt i1 key opts st of
             (Inr e, n, st') \<Rightarrow>
               (ok_response E (jobj [(''namespace'', JString ns), (''key'', JString (rk_key key)), (''deleted'', JBool True),
                  (''tombstone_version'', jnat E (ev_version e)), (''nseq'', jnat E (ev_nseq e))]), [], n, st')
           | (Inl e, n, st') \<Rightarrow> (runtime_error_to_response E e, [], n, st')))"

text \<open>The namespace of a read, and whether its secrets may be shown.\<close>

definition read_target ::
  "('f, 'n) props_env \<Rightarrow> ('f, 'n, 'p) props_router \<Rightarrow> bus_message \<Rightarrow> 'p peer_identity \<Rightarrow>
     (props_response, string \<times> ('f, 'n, 'p) runtime \<times> bool) result" where
  "read_target E r req peer =
     and_then (require_namespace E req) (\<lambda>ns.
     and_then (router_lookup E r ns) (\<lambda>rt.
     if \<not> holds_cap (rt_spec rt) (pt_service r) peer ''read'' None then Inl (err E AuthDenied ''missing capability'')
     else Inr (ns, rt, holds_cap (rt_spec rt) (pt_service r) peer ''read'' (Some ''secrets''))))"

definition handle_get ::
  "('f, 'n) props_env \<Rightarrow> ('f, 'n, 'p) props_router \<Rightarrow> bus_message \<Rightarrow> 'p peer_identity \<Rightarrow> 'f memory_store \<Rightarrow> props_response" where
  "handle_get E r req peer st = either_response (
     and_then (refuse_flat_path E req) (\<lambda>_.
     and_then (refuse_subpath_selectors E req) (\<lambda>_.
     and_then (refuse_get_body E req) (\<lambda>_.
     and_then (read_target E r req peer) (\<lambda>(ns, rt, with_secrets).
     and_then (build_record_key E (rt_spec rt) (message_get req ''key'')) (\<lambda>key.
     and_then (map_err (store_error_to_response E) (mem_get st key)) (\<lambda>(record, observed).
     Inr (ok_response E (project_record_envelope E ns record observed (sp_schema (rt_spec rt)) with_secrets)))))))))"

definition handle_list ::
  "('f, 'n) props_env \<Rightarrow> ('f, 'n, 'p) props_router \<Rightarrow> bus_message \<Rightarrow> 'p peer_identity \<Rightarrow> 'f memory_store \<Rightarrow> props_response" where
  "handle_list E r req peer st = either_response (
     and_then (refuse_flat_path E req) (\<lambda>_.
     and_then (refuse_unsupported_list_options E req) (\<lambda>_.
     and_then (read_target E r req peer) (\<lambda>(ns, rt, with_secrets).
     and_then (map_err (store_error_to_response E) (mem_list st (sp_name (rt_spec rt)))) (\<lambda>(records, observed).
     Inr (ok_response E (jobj [(''namespace'', JString ns), (''nseq'', jnat E observed),
       (''records'', JArray (map (project_record_summary E (sp_schema (rt_spec rt)) with_secrets) records)),
       (''next_cursor'', JNull)])))))))"

definition handle_describe ::
  "('f, 'n) props_env \<Rightarrow> ('f, 'n, 'p) props_router \<Rightarrow> bus_message \<Rightarrow> 'p peer_identity \<Rightarrow> props_response" where
  "handle_describe E r req peer = either_response (
     and_then (refuse_flat_path E req) (\<lambda>_.
     and_then (require_namespace E req) (\<lambda>ns.
     and_then (router_lookup E r ns) (\<lambda>rt.
     let spec = rt_spec rt; view = (case message_get req ''view'' of Some v \<Rightarrow> v | None \<Rightarrow> ''public'') in
     if view = ''public'' then
       (if sp_schema_public spec = SchemaDeny then Inl (err E AuthDenied ''namespace declared schema_public: deny'')
        else and_then (require_cap E spec (pt_service r) peer ''describe'' (Some ''public'')) (\<lambda>_.
          Inr (ok_response E (project_schema spec ns False))))
     else if view = ''full'' then
       and_then (require_cap E spec (pt_service r) peer ''describe'' (Some ''full'')) (\<lambda>_.
         Inr (ok_response E (project_schema spec ns True)))
     else Inl (err E ValidationError ''unknown view'')))))"

definition records_changed_topic :: "string \<Rightarrow> string" where
  "records_changed_topic service = service @ ''.props.records.changed''"

definition audit_topic :: "string \<Rightarrow> string" where
  "audit_topic service = service @ ''.props.audit''"

definition watch_request ::
  "('f, 'n) props_env \<Rightarrow> ('f, 'n, 'p) props_router \<Rightarrow> bus_message \<Rightarrow> 'p peer_identity \<Rightarrow> string \<Rightarrow>
     (props_response, string \<times> ('f, 'n, 'p) runtime \<times> nat) result" where
  "watch_request E r req peer cap_token =
     and_then (refuse_flat_path E req) (\<lambda>_.
     and_then (require_namespace E req) (\<lambda>ns.
     and_then (router_lookup E r ns) (\<lambda>rt.
     and_then (require_cap E (rt_spec rt) (pt_service r) peer cap_token None) (\<lambda>_.
     and_then (parse_since_nseq E (message_get req ''since_nseq'')) (\<lambda>since_nseq.
     Inr (ns, rt, since_nseq))))))"

text \<open>Whether the answer is live, and the subscription asked for.\<close>

definition watch_grant ::
  "('f, 'n) props_env \<Rightarrow> ('f, 'n, 'p) props_router \<Rightarrow> 'p peer_identity \<Rightarrow> string \<Rightarrow> string \<Rightarrow>
     (props_response, bool) result \<times> (string \<times> string \<times> string) list" where
  "watch_grant E r peer topic ns =
     (case pt_granter r of
        Some granter \<Rightarrow>
          (case peer_identity.service_name peer of
             Some (c # s) \<Rightarrow>
               (if granter topic (c # s) ns then (Inr True, [(topic, c # s, ns)])
                else (Inl (err E GrantFailed ''grant_failed''), [(topic, c # s, ns)]))
           | _ \<Rightarrow> (Inl (err E AuthDenied ''anonymous callers cannot receive live deliveries''), []))
      | None \<Rightarrow>
          if pt_replay_only r then (Inr False, [])
          else (Inl (err E Unavailable ''live delivery not configured''), []))"

definition watch_reply ::
  "('f, 'n) props_env \<Rightarrow> string \<Rightarrow> nat \<Rightarrow> 'n json list \<Rightarrow> bool \<Rightarrow> bool \<Rightarrow> 'n json" where
  "watch_reply E ns observed events live emit_caught_up =
     jobj ([(''namespace'', JString ns), (''observed_nseq'', jnat E observed), (''events'', JArray events), (''live'', JBool live)]
       @ (if emit_caught_up
          then [(''caught_up'', jobj [(''event_type'', JString ''caught_up''), (''namespace'', JString ns), (''nseq'', jnat E observed)])]
          else []))"

text \<open>Others may write between the grant and the reading of the cursor (\<open>i1\<close>), and between that and the
  reading of the history (\<open>i2\<close>).\<close>

definition handle_watch_inner ::
  "('f, 'n) props_env \<Rightarrow> ('f, 'n, 'p) props_router \<Rightarrow> ('f memory_store \<Rightarrow> 'f memory_store) \<Rightarrow> ('f memory_store \<Rightarrow> 'f memory_store) \<Rightarrow>
     bus_message \<Rightarrow> 'p peer_identity \<Rightarrow> string \<Rightarrow> string \<Rightarrow>
     (string \<Rightarrow> 'n field_schema list \<Rightarrow> record_event \<Rightarrow> 'n json) \<Rightarrow> bool \<Rightarrow> 'f memory_store \<Rightarrow> 'f answered" where
  "handle_watch_inner E r i1 i2 req peer cap_token topic project emit_caught_up st =
     (case watch_request E r req peer cap_token of
        Inl resp \<Rightarrow> answer resp st
      | Inr (ns, rt, since_nseq) \<Rightarrow>
          (case watch_grant E r peer topic ns of
             (Inl resp, grants) \<Rightarrow> (resp, grants, 0, st)
           | (Inr live, grants) \<Rightarrow>
               let st1 = i1 st; st2 = i2 st1
               in (either_response (
                     and_then (map_err (store_error_to_response E) (mem_list st1 (sp_name (rt_spec rt)))) (\<lambda>(_, observed).
                     and_then (map_err (store_error_to_response E) (mem_events_since st2 (sp_name (rt_spec rt)) since_nseq)) (\<lambda>events.
                     Inr (ok_response E (watch_reply E ns observed
                       (map (project (pt_service r) (sp_schema (rt_spec rt))) (filter (\<lambda>e. ev_nseq e \<le> observed) events))
                       live emit_caught_up))))),
                   grants, 0, st2)))"

definition handle_watch ::
  "('f, 'n) props_env \<Rightarrow> ('f, 'n, 'p) props_router \<Rightarrow> ('f memory_store \<Rightarrow> 'f memory_store) \<Rightarrow> ('f memory_store \<Rightarrow> 'f memory_store) \<Rightarrow>
     bus_message \<Rightarrow> 'p peer_identity \<Rightarrow> 'f memory_store \<Rightarrow> 'f answered" where
  "handle_watch E r i1 i2 req peer st =
     handle_watch_inner E r i1 i2 req peer ''read'' (records_changed_topic (pt_service r)) (project_records_changed E) True st"

definition handle_audit_watch ::
  "('f, 'n) props_env \<Rightarrow> ('f, 'n, 'p) props_router \<Rightarrow> ('f memory_store \<Rightarrow> 'f memory_store) \<Rightarrow> ('f memory_store \<Rightarrow> 'f memory_store) \<Rightarrow>
     bus_message \<Rightarrow> 'p peer_identity \<Rightarrow> 'f memory_store \<Rightarrow> 'f answered" where
  "handle_audit_watch E r i1 i2 req peer st =
     handle_watch_inner E r i1 i2 req peer ''audit'' (audit_topic (pt_service r)) (project_audit_row E) False st"

definition router_dispatch ::
  "('f, 'n) props_env \<Rightarrow> ('f, 'n, 'p) props_router \<Rightarrow> string \<Rightarrow> ('f memory_store \<Rightarrow> 'f memory_store) \<Rightarrow>
     ('f memory_store \<Rightarrow> 'f memory_store) \<Rightarrow> int \<Rightarrow> string \<Rightarrow> bus_message \<Rightarrow> 'p peer_identity \<Rightarrow> 'f memory_store \<Rightarrow> 'f answered" where
  "router_dispatch E r gen i1 i2 now_ms verb req peer st =
     (if verb = ''set'' then handle_set E r gen i1 i2 now_ms req peer st
      else if verb = ''delete'' then handle_delete E r i1 now_ms req peer st
      else if verb = ''get'' then answer (handle_get E r req peer st) st
      else if verb = ''list'' then answer (handle_list E r req peer st) st
      else if verb = ''describe'' then answer (handle_describe E r req peer) st
      else if verb = ''watch'' then handle_watch E r i1 i2 req peer st
      else if verb = ''audit.watch'' then handle_audit_watch E r i1 i2 req peer st
      else answer (err E ValidationError ''unknown props subcommand'') st)"

section \<open>Capabilities\<close>

text \<open>The outcome of a write on the namespace \<open>name\<close> leaves the other namespaces alone.\<close>

lemma put_ns_other: "ns' \<noteq> ns \<Longrightarrow> bm_get (mem_namespaces (put_ns ns s st)) ns' = bm_get (mem_namespaces st) ns'"
  by (simp add: put_ns_def bm_get_insert)

lemma commit_set_other:
  "commit_set E gen op st = (res, st') \<Longrightarrow> ns' \<noteq> rk_namespace (sc_key op) \<Longrightarrow>
    bm_get (mem_namespaces st') ns' = bm_get (mem_namespaces st) ns'"
  by (auto simp: commit_set_def Let_def put_ns_other split: if_splits)

lemma commit_complete_other:
  "commit_complete E op st = (res, st') \<Longrightarrow> ns' \<noteq> rk_namespace (cc_key op) \<Longrightarrow>
    bm_get (mem_namespaces st') ns' = bm_get (mem_namespaces st) ns'"
  by (auto simp: commit_complete_def Let_def put_ns_other split: if_splits option.splits)

lemma commit_delete_other:
  "commit_delete E op st = (res, st') \<Longrightarrow> ns' \<noteq> rk_namespace (dc_key op) \<Longrightarrow>
    bm_get (mem_namespaces st') ns' = bm_get (mem_namespaces st) ns'"
  by (auto simp: commit_delete_def Let_def put_ns_other split: if_splits option.splits)

lemma runtime_set_other:
  assumes "runtime_set E rt gen id id key v opts st = (res, n, st')" "ns' \<noteq> rk_namespace key"
  shows "bm_get (mem_namespaces st') ns' = bm_get (mem_namespaces st) ns'"
proof -
  have "sc_key (set_commit_of rt key v opts) = key" "cc_key (complete_commit_of E key opts a w x) = key" for a w x
    by (simp_all add: set_commit_of_def complete_commit_of_def)
  then show ?thesis
    using assms commit_set_other [of E gen "set_commit_of rt key v opts" st] commit_complete_other [of E]
    by (fastforce simp: runtime_set_def set_with_origin_def Let_def split: sum.splits prod.splits namespace_lifecycle.splits)
qed

lemma runtime_delete_other:
  assumes "runtime_delete E rt id key opts st = (res, n, st')" "ns' \<noteq> rk_namespace key"
  shows "bm_get (mem_namespaces st') ns' = bm_get (mem_namespaces st) ns'"
  using assms commit_delete_other [of E _ st]
  by (fastforce simp: runtime_delete_def delete_with_origin_def Let_def split: sum.splits prod.splits)

lemma build_record_key_namespace: "build_record_key E spec hdr = Inr key \<Longrightarrow> rk_namespace key = sp_name spec"
  by (auto simp: build_record_key_def key_singleton_def key_collection_def split: cardinality.splits if_splits option.splits list.splits)

lemma router_lookup_ok:
  "router_lookup E r ns = Inr rt \<Longrightarrow> bm_get (pt_runtimes r) ns = Some rt"
  by (auto simp: router_lookup_def namespace_name_new_def and_then_Inr split: if_splits)

lemma refusals_ok:
  "refuse_flat_path E req = Inr x \<longleftrightarrow> message_get req ''path'' = None"
  "require_namespace E req = Inr ns \<longleftrightarrow> message_get req ''namespace'' = Some ns"
  "require_cap E spec service peer action scope = Inr x \<longleftrightarrow> holds_cap spec service peer action scope"
  by (auto simp: refuse_flat_path_def require_namespace_def require_cap_def)

definition router_inv :: "('f, 'n, 'p) props_router \<Rightarrow> bool" where
  "router_inv r \<longleftrightarrow> bm_inv (pt_runtimes r)
     \<and> list_all (\<lambda>(ns, rt). sp_name (rt_spec rt) = ns \<and> rt_service rt = pt_service r) (pt_runtimes r)"

lemma router_new_inv: "router_inv (router_new service)"
  by (simp add: router_inv_def router_new_def bm_inv_def)

lemma register_inv: "router_inv r \<Longrightarrow> register rt r = Inr r' \<Longrightarrow> router_inv r'"
  by (auto simp: router_inv_def register_def list_all_iff bm_inv_insert split: if_splits
      dest!: subsetD [OF set_bm_insert [of "sp_name (rt_spec rt)" rt "pt_runtimes r"]])

lemma router_inv_get: "router_inv r \<Longrightarrow> bm_get (pt_runtimes r) ns = Some rt \<Longrightarrow> sp_name (rt_spec rt) = ns"
  by (auto simp: router_inv_def list_all_iff bm_get_def dest!: map_of_SomeD)

lemma write_target_ok:
  "write_target E r req peer = Inr (ns, rt) \<Longrightarrow> message_get req ''namespace'' = Some ns
    \<and> bm_get (pt_runtimes r) ns = Some rt \<and> holds_cap (rt_spec rt) (pt_service r) peer ''write'' None"
  by (auto simp: write_target_def and_then_Inr refusals_ok dest: router_lookup_ok)

lemma set_request_ok:
  "set_request E r now_ms req peer = Inr (ns, rt, key, v, opts) \<Longrightarrow>
    write_target E r req peer = Inr (ns, rt) \<and> rk_namespace key = sp_name (rt_spec rt)"
  by (auto simp: set_request_def and_then_Inr dest: build_record_key_namespace split: if_splits)

lemma delete_request_ok:
  "delete_request E r now_ms req peer = Inr (ns, rt, key, opts) \<Longrightarrow>
    write_target E r req peer = Inr (ns, rt) \<and> rk_namespace key = sp_name (rt_spec rt)"
  by (auto simp: delete_request_def and_then_Inr dest: build_record_key_namespace split: cardinality.split_asm)
    (metis cardinality.exhaust)+

lemma handle_set_writes:
  assumes "handle_set E r gen id id now_ms req peer st = (resp, grants, n, st')" "st' \<noteq> st"
  shows "\<exists>ns rt. write_target E r req peer = Inr (ns, rt)
    \<and> (\<forall>ns'. ns' \<noteq> sp_name (rt_spec rt) \<longrightarrow> bm_get (mem_namespaces st') ns' = bm_get (mem_namespaces st) ns')"
proof (cases "set_request E r now_ms req peer")
  case (Inr x)
  obtain ns rt key v opts where x: "x = (ns, rt, key, v, opts)" by (cases x)
  obtain res k st2 where run: "runtime_set E rt gen id id key v opts st = (res, k, st2)" by (metis prod_cases3)
  then have "st2 = st'" using assms(1) Inr x by (auto simp: handle_set_def split: sum.splits)
  then show ?thesis using runtime_set_other [OF run] set_request_ok [OF Inr [unfolded x]] by auto
qed (use assms in \<open>simp add: handle_set_def answer_def\<close>)

lemma handle_delete_writes:
  assumes "handle_delete E r id now_ms req peer st = (resp, grants, n, st')" "st' \<noteq> st"
  shows "\<exists>ns rt. write_target E r req peer = Inr (ns, rt)
    \<and> (\<forall>ns'. ns' \<noteq> sp_name (rt_spec rt) \<longrightarrow> bm_get (mem_namespaces st') ns' = bm_get (mem_namespaces st) ns')"
proof (cases "delete_request E r now_ms req peer")
  case (Inr x)
  obtain ns rt key opts where x: "x = (ns, rt, key, opts)" by (cases x)
  obtain res k st2 where run: "runtime_delete E rt id key opts st = (res, k, st2)" by (metis prod_cases3)
  then have "st2 = st'" using assms(1) Inr x by (auto simp: handle_delete_def split: sum.splits)
  then show ?thesis using runtime_delete_other [OF run] delete_request_ok [OF Inr [unfolded x]] by auto
qed (use assms in \<open>simp add: handle_delete_def answer_def\<close>)

lemma reads_keep_store:
  assumes "router_dispatch E r gen id id now_ms verb req peer st = (resp, grants, n, st')" "verb \<noteq> ''set''" "verb \<noteq> ''delete''"
  shows "st' = st"
  using assms
  by (auto simp: router_dispatch_def answer_def handle_watch_def handle_audit_watch_def handle_watch_inner_def Let_def
      split: if_splits sum.splits prod.splits)

text \<open>A router with one namespace, an operator who may read and write it but not see its secrets, and a store
  with one record.\<close>

definition router_spec :: "(unit, unit, unit) namespace_spec" where
  "router_spec = (demo_spec Simple)\<lparr>
     sp_schema := [\<lparr>fs_name = ''pw'', fs_type = JNull, fs_default = None, fs_secret = True, fs_help = [], fs_since = None,
       fs_until = None\<rparr>],
     sp_auth := (\<lambda>_. {''props.read:maild.accounts'', ''props.write:maild.accounts''})\<rparr>"

definition router_rt :: "(unit, unit, unit) runtime" where
  "router_rt = \<lparr>rt_service = ''maild'', rt_spec = router_spec\<rparr>"

definition demo_router :: "(unit, unit, unit) props_router" where
  "demo_router = \<lparr>pt_service = ''maild'', pt_runtimes = [(''accounts'', router_rt)], pt_granter = None, pt_replay_only = False\<rparr>"

definition demo_request :: bus_message where
  "demo_request = \<lparr>msg_headers = [(''key'', ''a''), (''namespace'', ''accounts'')], msg_body = []\<rparr>"

definition demo_peer :: "unit peer_identity" where
  "demo_peer = \<lparr>native_session = None, unix_uid = None, unix_gid = None, unix_groups = [], wg_peer = None, signed_ident = None,
     service_name = None\<rparr>"

definition secret_store :: "string \<Rightarrow> unit memory_store" where
  "secret_store pw = demo_set Simple [(''id'', PString ''a''), (''pw'', PString pw)] (memory_new ''maild'')"

lemmas router_defs = router_spec_def router_rt_def demo_router_def demo_request_def demo_peer_def secret_store_def

text \<open>C10: only a caller with the write capability of a namespace changes it.  If serving a request changes the
  store, the verb is set or delete, the request names a registered namespace, the namespace's own policy
  grants the caller its write capability, and no other namespace is touched; this holds of every
  request, whatever its headers and body.\<close>

theorem writes_need_capability:
  assumes "router_dispatch E r gen id id now_ms verb req peer st = (resp, grants, n, st')" "st' \<noteq> st" "router_inv r"
  shows "\<exists>ns rt. (verb = ''set'' \<or> verb = ''delete'') \<and> message_get req ''namespace'' = Some ns
    \<and> bm_get (pt_runtimes r) ns = Some rt
    \<and> ''props.write:'' @ pt_service r @ ''.'' @ ns \<in> sp_auth (rt_spec rt) peer
    \<and> (\<forall>ns'. ns' = ns \<or> bm_get (mem_namespaces st') ns' = bm_get (mem_namespaces st) ns')"
proof -
  have v: "verb = ''set'' \<or> verb = ''delete''" using reads_keep_store [OF assms(1)] assms(2) by blast
  then have "\<exists>ns rt. write_target E r req peer = Inr (ns, rt)
    \<and> (\<forall>ns'. ns' \<noteq> sp_name (rt_spec rt) \<longrightarrow> bm_get (mem_namespaces st') ns' = bm_get (mem_namespaces st) ns')"
    using assms(1,2) handle_set_writes handle_delete_writes by (fastforce simp: router_dispatch_def)
  then obtain ns rt where w: "write_target E r req peer = Inr (ns, rt)"
    and o: "ns' \<noteq> sp_name (rt_spec rt) \<Longrightarrow> bm_get (mem_namespaces st') ns' = bm_get (mem_namespaces st) ns'" for ns'
    by blast
  have g: "message_get req ''namespace'' = Some ns" "bm_get (pt_runtimes r) ns = Some rt"
    "holds_cap (rt_spec rt) (pt_service r) peer ''write'' None" using write_target_ok [OF w] by auto
  have "sp_name (rt_spec rt) = ns" by (rule router_inv_get [OF assms(3) g(2)])
  then show ?thesis using v g o by (auto simp: holds_cap_def cap_def ns_qualified_def)
qed

theorem writes_need_capability_witness:
  "\<exists>resp grants n st'. router_dispatch unit_env demo_router ''k'' id id 0 ''delete'' demo_request demo_peer (secret_store ''x'') = (resp, grants, n, st')
     \<and> st' \<noteq> secret_store ''x'' \<and> ''props.write:maild.accounts'' \<in> sp_auth (rt_spec router_rt) demo_peer"
proof -
  obtain resp grants n st' where run:
    "router_dispatch unit_env demo_router ''k'' id id 0 ''delete'' demo_request demo_peer (secret_store ''x'') = (resp, grants, n, st')"
    by (metis prod_cases4)
  have "snd (snd (snd (router_dispatch unit_env demo_router ''k'' id id 0 ''delete'' demo_request demo_peer (secret_store ''x''))))
      \<noteq> secret_store ''x''"
    by (simp add: router_dispatch_def handle_delete_def delete_request_def write_target_def refuse_flat_path_def
        refuse_subpath_selectors_def message_get_def require_namespace_def router_lookup_def namespace_name_new_def
        check_ns_segment_def path_char_def char_at_def require_cap_def holds_cap_def cap_def ns_qualified_def build_record_key_def parse_if_version_def
        request_actor_def peer_actor_def runtime_delete_def delete_with_origin_def router_defs demo_defs Let_def)
  then have ne: "st' \<noteq> secret_store ''x''" by (simp add: run)
  have "router_inv demo_router" by (simp add: router_inv_def router_defs demo_spec_def bm_inv_def)
  from writes_need_capability [OF run ne this] run ne show ?thesis
    by (auto simp: router_defs demo_spec_def message_get_def bm_get_def)
qed

section \<open>Secrets\<close>

text \<open>Two values that a caller without the secrets must not tell apart: the same fields, and the same contents
  in those that are not secret.\<close>

definition public_value :: "string set \<Rightarrow> 'f prop_value \<Rightarrow> 'f prop_value \<Rightarrow> bool" where
  "public_value names v v' \<longleftrightarrow>
     (case (v, v') of
        (PObject m, PObject m') \<Rightarrow> bm_inv m \<and> list_all2 (\<lambda>(k, x) (k', x'). k = k' \<and> (k \<in> names \<or> x = x')) m m'
      | _ \<Rightarrow> v = v')"

definition public_record :: "string set \<Rightarrow> 'f store_record \<Rightarrow> 'f store_record \<Rightarrow> bool" where
  "public_record names a b \<longleftrightarrow>
     public_value names (sr_value a) (sr_value b) \<and> sr_key a = sr_key b \<and> sr_version a = sr_version b"

text \<open>What of a row the changed topic shows: neither its digest nor the names of secret fields.\<close>

definition public_event :: "string set \<Rightarrow> record_event \<Rightarrow> record_event" where
  "public_event names e = e\<lparr>ev_digest := [], ev_fields_changed := filter (\<lambda>f. f \<notin> names) (ev_fields_changed e)\<rparr>"

definition public_state :: "string set \<Rightarrow> 'f namespace_state \<Rightarrow> 'f namespace_state \<Rightarrow> bool" where
  "public_state names s s' \<longleftrightarrow> map (public_event names) (ns_events s) = map (public_event names) (ns_events s') \<and> ns_nseq s = ns_nseq s'
     \<and> list_all2 (\<lambda>(k, a) (k', b). k = k' \<and> public_record names a b) (ns_records s) (ns_records s')"

definition public_store :: "string set \<Rightarrow> string \<Rightarrow> 'f memory_store \<Rightarrow> 'f memory_store \<Rightarrow> bool" where
  "public_store names ns st st' \<longleftrightarrow>
     rel_option (public_state names) (bm_get (mem_namespaces st) ns) (bm_get (mem_namespaces st') ns)"

definition hide :: "string set \<Rightarrow> (string, 'n json) bmap \<Rightarrow> (string, 'n json) bmap" where
  "hide names m = map (\<lambda>(k, x). (k, if k \<in> names then JNull else x)) m"

lemma bm_insert_present:
  assumes "bm_inv m" "bm_contains m k"
  shows "bm_insert k v m = map (\<lambda>(k', x). (k', if k' = k then v else x)) m"
  using assms
proof (induction m)
  case (Cons p m)
  obtain k' x where p: "p = (k', x)" by (cases p)
  have above: "\<forall>q\<in>fst ` set m. k' < q" and inv: "bm_inv m" using Cons.prems by (auto simp: p bm_inv_Cons)
  show ?case
  proof (cases "k' = k")
    case True
    then have "map (\<lambda>(q, x). (q, if q = k then v else x)) m = m" using above by (intro map_idI) fastforce
    then show ?thesis using True by (simp add: p)
  next
    case False
    then have c: "bm_contains m k" using Cons.prems(2) by (simp add: p bm_contains_def bm_get_def)
    then have "k \<in> fst ` set m" by (force simp: bm_contains_def bm_get_def dest: map_of_SomeD)
    then have "k' < k" using above by blast
    then show ?thesis using False Cons.IH [OF inv c] by (simp add: p)
  qed
qed (simp add: bm_contains_def bm_get_def)

lemma hide_one:
  assumes "bm_inv m"
  shows "(if bm_contains m k then bm_insert k JNull m else m) = hide {k} m"
proof (cases "bm_contains m k")
  case False
  then have "k \<notin> fst ` set m" by (simp add: bm_contains_def bm_get_def map_of_eq_None_iff)
  then show ?thesis using False unfolding hide_def by (force intro!: map_idI [symmetric])
qed (simp add: bm_insert_present [OF assms] hide_def)

lemma bm_inv_hide [simp]: "bm_inv (hide names m) = bm_inv m"
  by (simp add: bm_inv_def hide_def comp_def split_beta)

lemma hide_all:
  "bm_inv m \<Longrightarrow> foldl (\<lambda>m name. if bm_contains m name then bm_insert name JNull m else m) m ns = hide (set ns) m"
proof (induction ns arbitrary: m)
  case (Cons a ns)
  then have "foldl (\<lambda>m name. if bm_contains m name then bm_insert name JNull m else m) (hide {a} m) ns = hide (set ns) (hide {a} m)"
    by simp
  also have "\<dots> = hide (set (a # ns)) m" by (auto simp: hide_def)
  finally show ?case using hide_one [OF Cons.prems, of a] by simp
qed (simp add: hide_def)

lemma project_fields_public:
  assumes "public_value (set (secret_field_names schema)) v v'"
  shows "project_fields E schema False v = project_fields E schema False v'"
proof (cases "\<exists>m m'. v = PObject m \<and> v' = PObject m'")
  case True
  then obtain m m' where m: "v = PObject m" "v' = PObject m'" by blast
  let ?S = "set (secret_field_names schema)" and ?J = "map (\<lambda>(k, x). (k, json_of_value E x))"
  have rel: "bm_inv m" "list_all2 (\<lambda>(k, x) (k', x'). k = k' \<and> (k \<in> ?S \<or> x = x')) m m'"
    using assms m by (auto simp: public_value_def)
  have keys: "map fst m = map fst m'" using rel(2) by (induction rule: list_all2_induct) auto
  then have inv: "bm_inv (?J m)" "bm_inv (?J m')" using rel(1) by (simp_all add: bm_inv_def comp_def split_beta)
  have "hide ?S (?J m) = hide ?S (?J m')"
    using rel(2) by (induction rule: list_all2_induct) (auto simp: hide_def)
  then show ?thesis using hide_all [OF inv(1)] hide_all [OF inv(2)] m by (simp add: project_fields_def)
next
  case False
  then have "v = v'" using assms by (auto simp: public_value_def split: prop_value.splits)
  then show ?thesis by simp
qed

lemma map_filter_public:
  "filter (\<lambda>e. P (ev_nseq e)) (map (public_event names) es) = map (public_event names) (filter (\<lambda>e. P (ev_nseq e)) es)"
  by (induction es) (simp_all add: public_event_def)

lemma project_records_changed_public:
  "project_records_changed E service schema (public_event (set (secret_field_names schema)) e) = project_records_changed E service schema e"
proof -
  have "list_ex (\<lambda>s. fs_name s = f \<and> fs_secret s) schema \<longleftrightarrow> f \<in> set (secret_field_names schema)" for f
    by (auto simp: list_ex_iff secret_field_names_def)
  then show ?thesis by (simp add: project_records_changed_def visible_fields_def public_event_def Let_def conj_commute)
qed

lemma project_slice_public:
  assumes "map (public_event (set (secret_field_names schema))) es = map (public_event (set (secret_field_names schema))) es'"
  shows "map (project_records_changed E service schema) (filter (\<lambda>e. ev_nseq e \<le> ob) es)
    = map (project_records_changed E service schema) (filter (\<lambda>e. ev_nseq e \<le> ob) es')"
proof -
  have "map (project_records_changed E service schema) (filter (\<lambda>e. ev_nseq e \<le> ob) l)
      = map (project_records_changed E service schema) (filter (\<lambda>e. ev_nseq e \<le> ob) (map (public_event (set (secret_field_names schema))) l))" for l
    by (simp add: map_filter_public [of "\<lambda>n. n \<le> ob"] project_records_changed_public comp_def)
  then show ?thesis using assms by metis
qed

lemma public_store_reads:
  assumes "public_store names ns st st'"
  shows "rel_sum (=) (rel_prod (list_all2 (public_record names)) (=)) (mem_list st ns) (mem_list st' ns)"
    and "rel_sum (=) (\<lambda>es es'. map (public_event names) es = map (public_event names) es')
      (mem_events_since st ns n) (mem_events_since st' ns n)"
    and "rk_namespace key = ns \<Longrightarrow> rel_sum (=) (rel_prod (public_record names) (=)) (mem_get st key) (mem_get st' key)"
proof -
  have get: "rel_option (public_record names) (bm_get l k) (bm_get l' k)"
    if "list_all2 (\<lambda>(k, a) (k', b). k = k' \<and> public_record names a b) l l'" for l l' :: "(string \<times> 'a store_record) list" and k
    using that unfolding bm_get_def by (induction rule: list_all2_induct) auto
  show "rel_sum (=) (rel_prod (list_all2 (public_record names)) (=)) (mem_list st ns) (mem_list st' ns)"
    using assms by (auto simp: public_store_def mem_list_def public_state_def list_all2_map1 list_all2_map2 option_rel_Some1
        elim!: option.rel_cases list_all2_mono)
  show "rel_sum (=) (\<lambda>es es'. map (public_event names) es = map (public_event names) es')
      (mem_events_since st ns n) (mem_events_since st' ns n)"
    using assms by (auto simp: public_store_def mem_events_since_def public_state_def map_filter_public [symmetric] elim!: option.rel_cases)
  show "rel_sum (=) (rel_prod (public_record names) (=)) (mem_get st key) (mem_get st' key)" if "rk_namespace key = ns"
    using assms that
    by (auto simp: public_store_def mem_get_def public_state_def elim!: option.rel_cases
        dest!: get [of _ _ "rk_key key"])
qed

lemma read_target_ok:
  "read_target E r req peer = Inr (ns, rt, b) \<Longrightarrow> message_get req ''namespace'' = Some ns
    \<and> bm_get (pt_runtimes r) ns = Some rt \<and> b = holds_cap (rt_spec rt) (pt_service r) peer ''read'' (Some ''secrets'')"
  by (auto simp: read_target_def and_then_Inr refusals_ok dest: router_lookup_ok split: if_splits)

lemma and_then_cong: "m = m' \<Longrightarrow> (\<And>x. m' = Inr x \<Longrightarrow> f x = f' x) \<Longrightarrow> and_then m f = and_then m' f'"
  by (cases m') auto

lemma and_then_rel:
  "rel_sum (=) R m m' \<Longrightarrow> (\<And>x x'. R x x' \<Longrightarrow> f x = f' x') \<Longrightarrow>
    and_then (map_err h m) f = and_then (map_err h m') f'"
  by (auto elim!: rel_sum.cases)

text \<open>A namespace whose secrets the caller of a request may not read.\<close>

definition secrets_withheld :: "('f, 'n, 'p) props_router \<Rightarrow> 'p peer_identity \<Rightarrow> string \<Rightarrow> ('f, 'n, 'p) runtime \<Rightarrow> bool" where
  "secrets_withheld r peer ns rt \<longleftrightarrow> bm_get (pt_runtimes r) ns = Some rt \<and> sp_name (rt_spec rt) = ns
     \<and> ''props.read:'' @ pt_service r @ ''.'' @ ns @ '':secrets'' \<notin> sp_auth (rt_spec rt) peer"

lemma read_target_withheld:
  assumes "secrets_withheld r peer ns rt" "message_get req ''namespace'' = Some ns" "read_target E r req peer = Inr (ns', rt', b)"
  shows "ns' = ns \<and> rt' = rt \<and> \<not> b"
  using read_target_ok [OF assms(3)] assms(1,2) by (auto simp: secrets_withheld_def holds_cap_def cap_def ns_qualified_def)

lemma handle_get_public:
  assumes "secrets_withheld r peer ns rt" "message_get req ''namespace'' = Some ns"
    "public_store (set (secret_field_names (sp_schema (rt_spec rt)))) ns st st'"
  shows "handle_get E r req peer st = handle_get E r req peer st'"
proof -
  note rd = read_target_withheld [OF assms(1,2)]
  have nm: "sp_name (rt_spec rt) = ns" using assms(1) by (simp add: secrets_withheld_def)
  show ?thesis
    unfolding handle_get_def
    by (intro arg_cong [where f = either_response] and_then_cong refl, clarify)
      (auto dest!: rd build_record_key_namespace intro!: and_then_cong and_then_rel [OF public_store_reads(3) [OF assms(3)]]
        simp: nm project_record_envelope_def public_record_def project_fields_public)
qed

lemma handle_list_public:
  assumes "secrets_withheld r peer ns rt" "message_get req ''namespace'' = Some ns"
    "public_store (set (secret_field_names (sp_schema (rt_spec rt)))) ns st st'"
  shows "handle_list E r req peer st = handle_list E r req peer st'"
proof -
  note rd = read_target_withheld [OF assms(1,2)]
  have nm: "sp_name (rt_spec rt) = ns" using assms(1) by (simp add: secrets_withheld_def)
  have same: "map (project_record_summary E (sp_schema (rt_spec rt)) False) l = map (project_record_summary E (sp_schema (rt_spec rt)) False) l'"
    if "list_all2 (public_record (set (secret_field_names (sp_schema (rt_spec rt))))) l l'" for l l'
    using that by (induction rule: list_all2_induct) (auto simp: project_record_summary_def public_record_def project_fields_public)
  show ?thesis
    unfolding handle_list_def
    by (intro arg_cong [where f = either_response] and_then_cong refl, clarify)
      (auto dest!: rd same intro!: and_then_rel [OF public_store_reads(1) [OF assms(3)]] simp: nm)
qed

lemma handle_watch_public:
  assumes "secrets_withheld r peer ns rt" "message_get req ''namespace'' = Some ns"
    "public_store (set (secret_field_names (sp_schema (rt_spec rt)))) ns (i1 st) (i1 st')"
    "public_store (set (secret_field_names (sp_schema (rt_spec rt)))) ns (i2 (i1 st)) (i2 (i1 st'))"
  shows "fst (handle_watch E r i1 i2 req peer st) = fst (handle_watch E r i1 i2 req peer st')"
proof (cases "watch_request E r req peer ''read''")
  case (Inr x)
  obtain ns' rt' n where x: "x = (ns', rt', n)" by (cases x)
  have eq: "ns' = ns" "rt' = rt" "sp_name (rt_spec rt) = ns"
    using Inr assms(1,2) by (auto simp: x watch_request_def and_then_Inr refusals_ok secrets_withheld_def dest!: router_lookup_ok)
  let ?reply = "\<lambda>s1 s2 live. and_then (map_err (store_error_to_response E) (mem_list s1 ns)) (\<lambda>(_, ob).
      and_then (map_err (store_error_to_response E) (mem_events_since s2 ns n)) (\<lambda>es.
      Inr (ok_response E (watch_reply E ns ob (map (project_records_changed E (pt_service r) (sp_schema (rt_spec rt)))
        (filter (\<lambda>e. ev_nseq e \<le> ob) es)) live True))))"
  have "?reply (i1 st) (i2 (i1 st)) live = ?reply (i1 st') (i2 (i1 st')) live" for live
    by (rule and_then_rel [OF public_store_reads(1) [OF assms(3)]])
      (auto intro!: and_then_rel [OF public_store_reads(2) [OF assms(4)]] arg_cong [where f = "\<lambda>l. ok_response E (watch_reply E ns _ l live True)"]
        project_slice_public)
  then show ?thesis
    unfolding handle_watch_def handle_watch_inner_def Inr x by (simp add: eq Let_def split: sum.splits prod.splits)
qed (simp add: handle_watch_def handle_watch_inner_def answer_def)

text \<open>C7: the values of secret fields do not leave without their capability.  Take two stores whose records of the
  requested namespace differ only in the contents of fields the schema marks secret, and whose histories
  differ only in digests and in the names of secret fields.  A caller whom the namespace's policy does not
  grant its secrets gets the same answer from both, byte for byte, on get, list, describe and watch,
  whatever the headers, and whatever others do to the stores in between, as long as that too differs only
  in secrets.  The audit verb, with a capability of its own, shows the keyed digests.\<close>

theorem secrets_never_leave:
  assumes "secrets_withheld r peer ns rt" "message_get req ''namespace'' = Some ns"
    "public_store (set (secret_field_names (sp_schema (rt_spec rt)))) ns st st'"
    "public_store (set (secret_field_names (sp_schema (rt_spec rt)))) ns (i1 st) (i1 st')"
    "public_store (set (secret_field_names (sp_schema (rt_spec rt)))) ns (i2 (i1 st)) (i2 (i1 st'))"
    "verb \<notin> {''set'', ''delete'', ''audit.watch''}"
  shows "fst (router_dispatch E r gen i1 i2 now_ms verb req peer st) = fst (router_dispatch E r gen i1 i2 now_ms verb req peer st')"
  using assms(6) handle_get_public [OF assms(1-3)] handle_list_public [OF assms(1-3)]
    handle_watch_public [where ?i1.0 = i1 and ?i2.0 = i2 and st = st and st' = st', OF assms(1,2,4,5)]
  by (simp add: router_dispatch_def answer_def)

theorem secrets_never_leave_witness:
  "secret_store ''x'' \<noteq> secret_store ''y''
   \<and> router_dispatch unit_env demo_router ''k'' id id 0 ''get'' demo_request demo_peer (secret_store ''x'')
     = (fst (router_dispatch unit_env demo_router ''k'' id id 0 ''get'' demo_request demo_peer (secret_store ''y'')), [], 0, secret_store ''x'')"
proof -
  have p: "public_store (set (secret_field_names (sp_schema (rt_spec router_rt)))) ''accounts'' (secret_store ''x'') (secret_store ''y'')"
    by (simp add: public_store_def public_state_def public_record_def public_value_def public_event_def secret_field_names_def
        bm_inv_def changed_top_level_fields_def router_defs demo_defs Let_def)
  have "secrets_withheld demo_router demo_peer ''accounts'' router_rt"
    by (simp add: secrets_withheld_def router_defs demo_spec_def bm_get_def)
  moreover have "message_get demo_request ''namespace'' = Some ''accounts''" by (simp add: demo_request_def message_get_def bm_get_def)
  moreover have "secret_store ''x'' \<noteq> secret_store ''y''" by (simp add: router_defs demo_defs Let_def)
  ultimately show ?thesis
    using secrets_never_leave [of demo_router demo_peer "''accounts''" router_rt demo_request "secret_store ''x''" "secret_store ''y''" id id
        "''get''" unit_env "''k''" 0] p
    by (simp add: router_dispatch_def answer_def)
qed

end
