(* ===== verification/Spec2Isabelle.thy ===== *)
theory Spec2Isabelle
  imports Edit_Machine Interact_Notify Interact_DialogService Bus_Wire Mesh_Handshake Mesh_Subscriber
    Props_Tree Props_RevWrite Props_Router
begin

text \<open>
  A verification library for the core logic of cosmix, a mesh of Rust daemons around a message bus.

  \<^bold>\<open>The program.\<close>  Applications talk to services over a bus; every node runs a broker,
  \<^verbatim>\<open>cosmix-noded\<close>, and the brokers of a mesh connect to each other over WireGuard.  The parts modelled here
  are (all paths under \<^verbatim>\<open>src/src/crates/\<close>):

  \<^item> \<^verbatim>\<open>cosmix-edit-core\<close>: the shared text buffer behind the editor service: a gap buffer, a line index,
    transactions with compare-and-set or rebase through an operational transformation, an op log with
    per-origin undo, anchors and selections;
  \<^item> \<^verbatim>\<open>cosmix-interaction-schema\<close> and \<^verbatim>\<open>cosmix-interaction-broker\<close>: notifications and dialogs, from the contract
    of a request over rate limits, fair queues, presenter leases and deadlines to the retained results;
  \<^item> \<^verbatim>\<open>cosmix-lib-bus\<close>: addresses and the text format of bus messages;
  \<^item> \<^verbatim>\<open>cosmix-lib-mesh-trust\<close> with \<^verbatim>\<open>cosmix-noded\<close>'s \<^verbatim>\<open>authority.rs\<close>, \<^verbatim>\<open>admission.rs\<close> and the admission half of
    \<^verbatim>\<open>noded.rs\<close>, and the answer of \<^verbatim>\<open>cosmix-lib-mesh\<close>'s \<^verbatim>\<open>peer.rs\<close>: the signed inventory of a mesh, its protection
    against rollback, the challenge and response by which a broker admits another node, and the
    capabilities of callers from other meshes;
  \<^item> \<^verbatim>\<open>cosmix-lib-props-core\<close> and \<^verbatim>\<open>cosmix-lib-props-store\<close>: the properties a daemon publishes, from values, paths and
    diffs over revisioned writes to namespaces of versioned records with hooks, an audited history, live
    watchers and the verbs on the bus.

  They meet where the code makes them meet: bus messages carry the admission response the handshake reads;
  canonical JSON is what inventory, transcript-independent envelopes and hashes are computed from; the
  verified inventory gives the broker the members it admits; the trust cache filled by the subscriber tasks
  answers every capability question, and its policies guard the property verbs; property requests are bus
  messages, and the subscriber tasks follow property namespaces; the interaction broker embeds the same
  handles and names in notifications and dialogs.

  \<^bold>\<open>How the code is translated.\<close>  A struct is a record, an enum a datatype, a method a function from the
  old state to the result and the new state.  \<^verbatim>\<open>Result\<close> is a sum with the error on the left
  (\<open>Cosmix_Prelude\<close>), so that every early return and every \<^verbatim>\<open>?\<close> is a branch.  Panics and endless
  loops are values too, where the source has a branch that could run into one: \<open>Panic\<close> and \<open>Hang\<close> of the
  edit core, \<open>DPanic\<close> and \<open>DHang\<close> of the dialog broker, \<open>TranscriptPanic\<close> of the transcript, the slice
  off a character boundary of the bus reader; theorems show them unreachable or say when they happen.
  Strings and byte vectors are HOL strings of bytes; UTF-8 validity is the table of well-formed sequences
  (\<open>Edit_Utf8\<close>).  \<^verbatim>\<open>usize\<close> and \<^verbatim>\<open>u64\<close> are naturals where the code bounds them or checks the
  overflow, with the check written out; IP addresses are 32- and 128-bit words; the token counts of the rate
  limiter are rationals in place of \<^verbatim>\<open>f64\<close>.  A \<^verbatim>\<open>BTreeMap\<close> is a sorted association list
  (\<open>Cosmix_Map\<close>, locale \<open>ordered_map\<close>); where the order of a \<^verbatim>\<open>HashMap\<close> can be observed, that order
  is an argument.

  \<^bold>\<open>Parameters.\<close>  Code that is not in the repository is an argument of the definitions that call it:
  the record \<open>host\<close> of the edit core answers whether memory can be reserved; the record \<open>foreign\<close>
  (\<open>Mesh_Sig\<close>) holds serde\_json's numbers, base64, Ed25519, BLAKE3 and chrono; \<open>text_io\<close> the JSON parser
  and printer; \<open>load_io\<close> the outcomes of file operations; \<open>props_env\<close> the floats, JSON texts,
  HMAC and clock of the property store; the bus functions take serde\_json's
  \<^verbatim>\<open>from_str\<close>.  Hypotheses on them are their documented laws, for instance \<open>ed25519_correct\<close>; the
  rollback theorems name a collision of the hash as the only way out, and the security theorems speak about
  a signature that verifies, not about who could have made it.

  \<^bold>\<open>Shared theories.\<close>  \<open>Cosmix_Prelude\<close> (results, slices, sorted insertion, the locale
  \<open>comparator_on\<close>), \<open>Cosmix_Str\<close> and \<open>Cosmix_Pat\<close> (Rust's string operations), \<open>Cosmix_Map\<close>,
  \<open>Cosmix_Json\<close>, \<open>Cosmix_Net\<close> (IP addresses, their parser and printer).

  \<^bold>\<open>The edit core.\<close>  \<open>Edit_OT\<close> (\<^verbatim>\<open>ot.rs\<close>): concurrent edits converge, inverse edits restore.
  \<open>Edit_Gap\<close> (\<^verbatim>\<open>gap_buffer.rs\<close>): the gap buffer implements a byte string, as the locales \<open>byte_store\<close>
  and \<open>committing_store\<close> state it.  \<open>Edit_Utf8\<close>, \<open>Edit_Text\<close> (\<^verbatim>\<open>text.rs\<close>): the line index, reads in
  pieces, and edits prepared before they are committed, so that a refusal changes nothing.  \<open>Edit_Types\<close>
  (\<^verbatim>\<open>error.rs\<close>, \<^verbatim>\<open>limits.rs\<close>, \<^verbatim>\<open>pos.rs\<close>, \<^verbatim>\<open>origin.rs\<close>), \<open>Edit_Anchor\<close> (\<^verbatim>\<open>anchor.rs\<close>), \<open>Edit_History\<close>
  (\<^verbatim>\<open>history.rs\<close>).  \<open>Edit_Buffer\<close> and \<open>Edit_Undo\<close> hold \<^verbatim>\<open>buffer.rs\<close>; \<open>Edit_Post\<close>, \<open>Edit_Commit\<close>,
  \<open>Edit_Apply\<close>, \<open>Edit_Reload\<close> and \<open>Edit_Session\<close> its properties: what a request does on every branch,
  that a stale request never overwrites bytes it has not seen, that reloading is minimal, and that one origin's
  edits, undos and redos refine the textbook undo machine.  \<open>Edit_Machine\<close>: every buffer reachable by the
  public operations is well formed.  The session theorems are about one origin without interleaved edits
  and without coalescing; undo in general keeps the invariant and either refuses without effect or
  commits.

  \<^bold>\<open>Interactions.\<close>  \<open>Interact_Schema\<close> and \<open>Interact_DialogSchema\<close>: the contracts, with their
  checks characterised exactly.  \<open>Interact_Rate\<close> (\<^verbatim>\<open>ratelimit.rs\<close>): token buckets, bounded per origin and in
  total over any window (locale \<open>admission_budget\<close>).  \<open>Interact_Notify\<close>: the notification decision.
  \<open>Interact_Dialog\<close> (\<^verbatim>\<open>dialog.rs\<close>) with \<open>Interact_DialogInv\<close>, \<open>Interact_DialogRequeue\<close>,
  \<open>Interact_DialogOps\<close>, \<open>Interact_DialogMachine\<close> and \<open>Interact_DialogService\<close>: the reachable states are
  bounded and consistent, results are final, only the presenter or the owner can act on a dialog, origins
  are served in turn and the next maintenance time is exact.  The loops of the broker that are not
  syntactically terminating carry fuel, the number of queued dialogs or the like; running out of it is
  \<open>DHang\<close>, which no reachable broker produces.

  \<^bold>\<open>Bus.\<close>  \<open>Bus_Address\<close>: the two target forms are parsed exactly by their grammar.
  \<open>Bus_Message\<close>: serialising, lenient and strict parsing, reading; \<open>Bus_Wire\<close>: which messages survive
  the wire, that every parsed message is stable, and every outcome of a read.

  \<^bold>\<open>Mesh trust.\<close>  \<open>Mesh_Canonical\<close>: canonical bytes identify a JSON value.  \<open>Mesh_Sig\<close>: signatures.
  \<open>Mesh_Admission\<close>: the transcript and the gate.  \<open>Mesh_Inventory\<close>: acceptance of a signed inventory,
  characterised exactly.  \<open>Mesh_Routing\<close>: the routing view and its subnet arithmetic.
  \<open>Mesh_Authority\<close> and \<open>Mesh_Ratchet\<close>: loading under the baseline lock and the ratchet over any number
  of loads.  The lock loop is a \<^theory_text>\<open>partial_function\<close>; with a clock that advances while it sleeps it
  returns within 28 attempts (27 sleeps of 75 ms exceed the 2 s it may wait).  \<open>Mesh_Challenge\<close> and \<open>Mesh_Handshake\<close>: the
  challenge table and the runs of a socket; \<open>Mesh_Envelope\<close> and \<open>Mesh_Caps\<close>: calls from other meshes;
  \<open>Mesh_Subscriber\<close>: the three subscriber tasks as an interleaving, and the cache they keep, which the
  locale \<open>trust_mirror\<close> connects to the policy it must implement.

  \<^bold>\<open>Properties.\<close>  \<open>Props_Value\<close> and \<open>Props_Tree\<close>: snapshots, exact redaction and the exact diff.
  \<open>Props_RevWrite\<close> (\<^verbatim>\<open>revwrite.rs\<close>): a client that merges changes in any order converges.
  \<open>Props_Record\<close>, \<open>Props_Memory\<close> (\<^verbatim>\<open>memory.rs\<close>) and \<open>Props_History\<close>: in every reachable store the history
  explains the records.  \<open>Props_Runtime\<close> (\<^verbatim>\<open>runtime.rs\<close>) and \<open>Props_Saga\<close>: the writes of a runtime, which
  holds no lock between its calls of the store; what others do in between is an argument (\<open>i1\<close>, \<open>i2\<close>)
  of each operation, and the theorems say which interference is harmless and which is not.
  \<open>Props_Dispatch\<close> (\<^verbatim>\<open>dispatcher.rs\<close>): writers, publishing loop and a watcher as interleaving steps over any
  store with the contract of the locale \<open>property_store\<close>, which the memory store meets; replay and live
  stream fit together without gap.  \<open>Props_Router\<close> (\<^verbatim>\<open>bus/mutation.rs\<close>): every verb, what it takes to write,
  and that secrets do not leave.  Versions and sequence numbers are naturals: 64-bit counters that start at
  zero and advance by one per commit.

  \<^bold>\<open>Not modelled.\<close>  Sockets, tasks, timers, files and processes themselves; serde's derived forms and the
  texts of errors; the AVX2 and NEON newline scans; search, views and wire forms of the editor; the session
  and subscription tables of the node daemon outside admission; the SQLite backend of the properties and the
  read-only tree verbs; the Mix language; the Wayland desktop, mail, web, DNS and music daemons; vendored code other than the gap buffer.  They are
  I/O, or subsystems of their own of the size of this library.
\<close>

end
